(* ===== verification/Prelude.thy ===== *)
theory Prelude
  imports Main "HOL-Library.Word"
begin

text \<open>
  Shared vocabulary of the development: the machine integers of the Rust sources, results,
  checked slices, byte-order conversions with their round trips, and the two interfaces that
  several components provide: a prefix-deterministic stream framer (\<open>stream_framer\<close>) and a
  state machine with an invariant (\<open>safe_machine\<close>).
\<close>

unbundle bit_operations_syntax

named_theorems bytes_simps \<open>byte-order conversions and their inverses\<close>
named_theorems consts_simps \<open>numeric constants of the sources\<close>

section \<open>Machine integers and results\<close>

type_synonym u8 = "8 word"
type_synonym u16 = "16 word"
type_synonym u32 = "32 word"
type_synonym u64 = "64 word"

text \<open>Rust's \<open>Result\<close> is a sum with the error on the left; \<open>?\<close> is \<open>bindr\<close>.\<close>

fun bindr :: "'e + 'a \<Rightarrow> ('a \<Rightarrow> 'e + 'b) \<Rightarrow> 'e + 'b" where
  "bindr (Inl e) f = Inl e"
| "bindr (Inr x) f = f x"

lemma bindr_eq_Inr [simp]: "bindr m f = Inr y \<longleftrightarrow> (\<exists>x. m = Inr x \<and> f x = Inr y)"
  by (cases m) auto

lemma bindr_eq_Inl: "bindr m f = Inl e \<longleftrightarrow> m = Inl e \<or> (\<exists>x. m = Inr x \<and> f x = Inl e)"
  by (cases m) auto

fun is_ok :: "'e + 'a \<Rightarrow> bool" where
  "is_ok (Inl e) = False"
| "is_ok (Inr x) = True"

lemma is_ok_iff: "is_ok r \<longleftrightarrow> (\<exists>x. r = Inr x)"
  by (cases r) auto

fun ok_or :: "'e \<Rightarrow> 'a option \<Rightarrow> 'e + 'a" where
  "ok_or e None = Inl e"
| "ok_or e (Some x) = Inr x"

lemma ok_or_eq_Inr [simp]: "ok_or e v = Inr x \<longleftrightarrow> v = Some x"
  by (cases v) auto

lemma ok_or_eq_Inl [simp]: "ok_or e v = Inl e' \<longleftrightarrow> v = None \<and> e' = e"
  by (cases v) auto

text \<open>A conditional early return: \<open>if c { return Err(e) }\<close>.\<close>

definition guardr :: "bool \<Rightarrow> 'e \<Rightarrow> 'e + 'a \<Rightarrow> 'e + 'a" where
  "guardr c e k = (if c then Inl e else k)"

lemma guardr_eq_Inr [simp]: "guardr c e k = Inr x \<longleftrightarrow> \<not> c \<and> k = Inr x"
  by (simp add: guardr_def)

lemma guardr_simps [simp]: "guardr True e k = Inl e" "guardr False e k = k"
  by (simp_all add: guardr_def)

section \<open>State passing with errors\<close>

text \<open>An operation on a state that may fail; \<open>?\<close> keeps the state reached by the failing step.\<close>

definition bindS :: "('s \<Rightarrow> 's \<times> ('e + 'a)) \<Rightarrow> ('a \<Rightarrow> 's \<Rightarrow> 's \<times> ('e + 'b)) \<Rightarrow> 's \<Rightarrow> 's \<times> ('e + 'b)" where
  "bindS m f s = (case m s of (s', Inl e) \<Rightarrow> (s', Inl e) | (s', Inr x) \<Rightarrow> f x s')"

definition retS :: "'a \<Rightarrow> 's \<Rightarrow> 's \<times> ('e + 'a)" where
  "retS x s = (s, Inr x)"

definition failS :: "'e \<Rightarrow> 's \<Rightarrow> 's \<times> ('e + 'a)" where
  "failS e s = (s, Inl e)"

definition liftS :: "('e1 \<Rightarrow> 'e) \<Rightarrow> 'e1 + 'a \<Rightarrow> 's \<Rightarrow> 's \<times> ('e + 'a)" where
  "liftS conv r s = (s, map_sum conv id r)"

lemma bindS_eq_Inr:
  "bindS m f s = (s'', Inr y) \<longleftrightarrow> (\<exists>s' x. m s = (s', Inr x) \<and> f x s' = (s'', Inr y))"
  by (auto simp: bindS_def split: prod.splits sum.splits)

lemma retS_eq [simp]: "retS x s = (s', r) \<longleftrightarrow> s' = s \<and> r = Inr x"
  by (auto simp: retS_def)

lemma failS_eq [simp]: "failS e s = (s', r) \<longleftrightarrow> s' = s \<and> r = Inl e"
  by (auto simp: failS_def)

lemma liftS_eq_Inr [simp]: "liftS c r s = (s', Inr x) \<longleftrightarrow> s' = s \<and> r = Inr x"
  by (cases r) (auto simp: liftS_def)

lemma bindS_cong [fundef_cong]:
  assumes "m s = m' s'" and "\<And>x t. m' s' = (t, Inr x) \<Longrightarrow> f x t = f' x t"
  shows "bindS m f s = bindS m' f' s'"
  using assms by (auto simp: bindS_def split: prod.splits sum.splits)

section \<open>Checked slices\<close>

text \<open>\<open>bytes.get(i..j)\<close>: \<open>None\<close> out of range, never a panic.\<close>

definition get_range :: "'a list \<Rightarrow> nat \<Rightarrow> nat \<Rightarrow> 'a list option" where
  "get_range xs i j = (if i \<le> j \<and> j \<le> length xs then Some (take (j - i) (drop i xs)) else None)"

definition get_at :: "'a list \<Rightarrow> nat \<Rightarrow> 'a option" where
  "get_at xs i = (if i < length xs then Some (xs ! i) else None)"

lemma get_range_SomeD: "get_range xs i j = Some ys \<Longrightarrow> i \<le> j \<and> j \<le> length xs \<and> length ys = j - i"
  by (auto simp: get_range_def split: if_splits)

lemma get_range_Some: "get_range xs i j = Some ys \<Longrightarrow> ys = take (j - i) (drop i xs)"
  by (simp add: get_range_def split: if_splits)

lemma get_range_append: "get_range xs i j = Some ys \<Longrightarrow> get_range (xs @ zs) i j = Some ys"
  by (auto simp: get_range_def split: if_splits)

lemma get_at_SomeD: "get_at xs i = Some x \<Longrightarrow> i < length xs \<and> x = xs ! i"
  by (auto simp: get_at_def split: if_splits)

text \<open>A buffer that passed a length check, taken apart.\<close>

lemma length_ge_Cons:
  assumes "Suc n \<le> length xs"
  obtains y ys where "xs = y # ys" "n \<le> length ys"
  using assms by (cases xs) auto

lemma length_ge_2E:
  assumes "2 \<le> length xs"
  obtains a b r where "xs = a # b # r"
  using assms by (metis One_nat_def Suc_1 length_ge_Cons)

lemma length_ge_4E:
  assumes "4 \<le> length xs"
  obtains a b c d r where "xs = a # b # c # d # r"
proof -
  from assms obtain a b r where ab: "xs = a # b # r" by (metis length_ge_2E numeral_le_iff le_trans semiring_norm(71) semiring_norm(68))
  with assms have "2 \<le> length r" by simp
  then obtain c d r' where "r = c # d # r'" by (rule length_ge_2E)
  with ab that show thesis by simp
qed

lemma length_ge_8E:
  assumes "8 \<le> length xs"
  obtains a b c d e f g h r where "xs = a # b # c # d # e # f # g # h # r"
proof -
  have "4 \<le> length xs" using assms by simp
  then obtain a b c d r where abcd: "xs = a # b # c # d # r" by (rule length_ge_4E)
  with assms have "4 \<le> length r" by simp
  then obtain e f g h r' where "r = e # f # g # h # r'" by (rule length_ge_4E)
  with abcd that show thesis by simp
qed

text \<open>\<open>bytes.chunks(n)\<close>: consecutive pieces of \<open>n\<close> elements, the last one shorter.
  Rust panics for \<open>n = 0\<close>; every use below has a positive size.\<close>

function chunks :: "nat \<Rightarrow> 'a list \<Rightarrow> 'a list list" where
  "chunks n xs = (if n = 0 \<or> xs = [] then [] else take n xs # chunks n (drop n xs))"
  by pat_completeness auto
termination
  by (relation "measure (\<lambda>(n, xs). length xs)") auto

declare chunks.simps [simp del]

lemma chunks_Nil [simp]: "chunks n [] = []"
  by (simp add: chunks.simps)

lemma chunks_Cons: "0 < n \<Longrightarrow> xs \<noteq> [] \<Longrightarrow> chunks n xs = take n xs # chunks n (drop n xs)"
  by (subst chunks.simps) simp

lemma concat_chunks: "0 < n \<Longrightarrow> concat (chunks n xs) = xs"
proof (induction n xs rule: chunks.induct)
  case (1 n xs)
  then show ?case by (cases "xs = []") (simp_all add: chunks_Cons)
qed

lemma chunks_size: "p \<in> set (chunks n xs) \<Longrightarrow> p \<noteq> [] \<and> length p \<le> n"
proof (induction n xs rule: chunks.induct)
  case (1 n xs)
  then show ?case by (cases "n = 0 \<or> xs = []") (auto simp: chunks.simps [of n xs])
qed

section \<open>Durations\<close>

text \<open>
  \<open>std::time::Duration\<close> is at most \<open>u64::MAX\<close> seconds and 999999999 nanoseconds; here it is its
  number of nanoseconds, and \<open>saturating_add\<close> stops at that maximum.
\<close>

type_synonym duration = nat

definition duration_max :: duration where
  "duration_max = (2 ^ 64 - 1) * 1000000000 + 999999999"

definition from_secs :: "nat \<Rightarrow> duration" where
  "from_secs n = n * 1000000000"

definition from_millis :: "nat \<Rightarrow> duration" where
  "from_millis n = n * 1000000"

definition sat_add :: "duration \<Rightarrow> duration \<Rightarrow> duration" where
  "sat_add a b = min duration_max (a + b)"

section \<open>Byte order\<close>

definition to_be16 :: "u16 \<Rightarrow> u8 list" where
  "to_be16 w = [ucast (drop_bit 8 w), ucast w]"

definition from_be16 :: "u8 \<Rightarrow> u8 \<Rightarrow> u16" where
  "from_be16 a b = word_cat a b"

definition to_be32 :: "u32 \<Rightarrow> u8 list" where
  "to_be32 w = to_be16 (ucast (drop_bit 16 w)) @ to_be16 (ucast w)"

definition from_be32 :: "u8 \<Rightarrow> u8 \<Rightarrow> u8 \<Rightarrow> u8 \<Rightarrow> u32" where
  "from_be32 a b c d = word_cat (from_be16 a b) (from_be16 c d)"

definition to_be64 :: "u64 \<Rightarrow> u8 list" where
  "to_be64 w = to_be32 (ucast (drop_bit 32 w)) @ to_be32 (ucast w)"

definition to_le16 :: "u16 \<Rightarrow> u8 list" where
  "to_le16 w = rev (to_be16 w)"

definition from_le16 :: "u8 \<Rightarrow> u8 \<Rightarrow> u16" where
  "from_le16 a b = from_be16 b a"

definition to_le32 :: "u32 \<Rightarrow> u8 list" where
  "to_le32 w = rev (to_be32 w)"

definition from_le32 :: "u8 \<Rightarrow> u8 \<Rightarrow> u8 \<Rightarrow> u8 \<Rightarrow> u32" where
  "from_le32 a b c d = from_be32 d c b a"

definition to_le64 :: "u64 \<Rightarrow> u8 list" where
  "to_le64 w = rev (to_be64 w)"

lemma length_to_be [simp]:
  "length (to_be16 w) = 2" "length (to_be32 x) = 4" "length (to_be64 y) = 8"
  by (simp_all add: to_be16_def to_be32_def to_be64_def)

lemma to_be_nonempty [simp]: "to_be16 w \<noteq> []" "to_be32 x \<noteq> []" "to_be64 y \<noteq> []"
  by (simp_all add: to_be16_def to_be32_def to_be64_def)

lemma length_to_le [simp]:
  "length (to_le16 w) = 2" "length (to_le32 x) = 4" "length (to_le64 y) = 8"
  by (simp_all add: to_le16_def to_le32_def to_le64_def)

lemma from_to_be16 [bytes_simps]: "from_be16 (to_be16 w ! 0) (to_be16 w ! Suc 0) = w"
  unfolding from_be16_def to_be16_def
  by (rule bit_word_eqI) (auto simp: bit_word_cat_iff bit_simps)

lemma to_from_be16 [bytes_simps]: "to_be16 (from_be16 a b) = [a, b]"
  unfolding from_be16_def to_be16_def
  by (auto intro!: bit_word_eqI simp: bit_word_cat_iff bit_simps)

lemma from_be16_parts: "from_be16 (ucast (drop_bit 8 w)) (ucast w) = w"
  unfolding from_be16_def
  by (rule bit_word_eqI) (auto simp: bit_word_cat_iff bit_simps)

lemma from_be32_parts:
  "from_be32 (ucast (drop_bit 8 (ucast (drop_bit 16 w) :: u16))) (ucast (ucast (drop_bit 16 w) :: u16))
     (ucast (drop_bit 8 (ucast w :: u16))) (ucast (ucast w :: u16)) = w"
  unfolding from_be32_def from_be16_parts
  by (rule bit_word_eqI) (auto simp: bit_word_cat_iff bit_simps)

lemma from_be32_nth: "from_be32 (to_be32 x ! 0) (to_be32 x ! 1) (to_be32 x ! 2) (to_be32 x ! 3) = x"
  by (simp only: to_be32_def to_be16_def) (simp add: from_be32_parts)

definition from_be64 :: "u8 list \<Rightarrow> u64" where
  "from_be64 bs = word_cat (from_be32 (bs ! 0) (bs ! 1) (bs ! 2) (bs ! 3)) (from_be32 (bs ! 4) (bs ! 5) (bs ! 6) (bs ! 7))"

lemma to_from_be32 [bytes_simps]: "to_be32 (from_be32 a b c d) = [a, b, c, d]"
proof -
  have hi: "(ucast (drop_bit 16 (from_be32 a b c d)) :: u16) = from_be16 a b"
    unfolding from_be32_def by (rule bit_word_eqI) (auto simp: bit_word_cat_iff bit_simps)
  have lo: "(ucast (from_be32 a b c d) :: u16) = from_be16 c d"
    unfolding from_be32_def by (rule bit_word_eqI) (auto simp: bit_word_cat_iff bit_simps)
  show ?thesis
    unfolding to_be32_def hi lo by (simp add: bytes_simps)
qed

lemma from_to_be64 [simp]: "from_be64 (to_be64 w) = w"
proof -
  have "word_cat (ucast (drop_bit 32 w) :: u32) (ucast w :: u32) = w"
    by (rule bit_word_eqI) (auto simp: bit_word_cat_iff bit_simps)
  then show ?thesis
    using from_be32_nth [of "ucast (drop_bit 32 w)"] from_be32_nth [of "ucast w"]
    by (simp add: from_be64_def to_be64_def nth_append)
qed

lemma unat_bounds:
  "unat (b :: u8) < 256" "unat (w :: u16) < 65536" "unat (x :: u32) < 4294967296"
  using unsigned_less [of b] unsigned_less [of w] unsigned_less [of x] by simp_all

lemma unat_of_nat_u8 [simp]: "n < 256 \<Longrightarrow> unat (of_nat n :: u8) = n"
  by (simp add: unat_of_nat)

lemma unat_of_nat_u16 [simp]: "n < 65536 \<Longrightarrow> unat (of_nat n :: u16) = n"
  by (simp add: unat_of_nat)

lemma unat_of_nat_u32 [simp]: "n < 4294967296 \<Longrightarrow> unat (of_nat n :: u32) = n"
  by (simp add: unat_of_nat)

lemma unat_of_nat_plus_u16 [simp]:
  "n + numeral k < 65536 \<Longrightarrow> unat (of_nat n + numeral k :: u16) = n + numeral k"
  using unat_of_nat_u16 [of "n + numeral k"] by (simp only: of_nat_add of_nat_numeral)

lemma unat_of_nat_plus_u32 [simp]:
  "n + numeral k < 4294967296 \<Longrightarrow> unat (of_nat n + numeral k :: u32) = n + numeral k"
  using unat_of_nat_u32 [of "n + numeral k"] by (simp only: of_nat_add of_nat_numeral)

lemma unat_from_be16: "unat (from_be16 a b) = unat a * 256 + unat b"
proof -
  have a: "unat a < 256" and b: "unat b < 256" by (rule unat_bounds)+
  have u: "unat (ucast a :: u16) = unat a" "unat (ucast b :: u16) = unat b"
    using a b by (simp_all add: unsigned_ucast_eq take_bit_eq_mod)
  have "unat (from_be16 a b) = (unat a * 256 + unat b) mod 65536"
    unfolding from_be16_def word_cat_eq push_bit_eq_mult
    by (simp add: unat_word_ariths u mod_simps)
  with a b show ?thesis by simp
qed

text \<open>A header written with \<open>to_be16\<close> and read back by index.\<close>

lemma to_be16_Cons: "to_be16 w = [to_be16 w ! 0, to_be16 w ! Suc 0]"
  by (simp add: to_be16_def)

lemma nth_to_be16 [simp]:
  "to_be16 w ! 0 = ucast (drop_bit 8 w)" "to_be16 w ! Suc 0 = ucast w"
  by (simp_all add: to_be16_def)

lemma from_be16_eq_iff: "from_be16 a b = w \<longleftrightarrow> to_be16 w = [a, b]"
  using to_from_be16 [of a b] from_be16_parts [of w] by (auto simp: to_be16_def)

lemma to_be16_of_length: "unat (from_be16 a b) = n \<Longrightarrow> to_be16 (of_nat n) = [a, b]"
  by (auto simp: to_from_be16)

lemma to_be32_of_length: "unat (from_be32 a b c d) = n \<Longrightarrow> to_be32 (of_nat n) = [a, b, c, d]"
  by (auto simp: to_from_be32)

section \<open>Interface: prefix-deterministic stream framing\<close>

text \<open>
  Every byte-stream decoder of the program tries to read one message from the front of its
  buffer. The parser answers with an error, with \<open>None\<close> when more bytes are needed, or with a
  message and the number of bytes it took. \<open>drain\<close> is the loop around it: take messages
  until the parser asks for more bytes; an error discards what was collected.
  The branch for \<open>n = 0\<close> or \<open>n\<close> beyond the buffer makes the recursion total; the law
  \<open>consumes\<close> below shows that no parser of the program takes it.
\<close>

function drain :: "('b list \<Rightarrow> 'e + ('m \<times> nat) option) \<Rightarrow> 'b list \<Rightarrow> 'e + ('m list \<times> 'b list)" where
  "drain p bs =
     (case p bs of
        Inl e \<Rightarrow> Inl e
      | Inr None \<Rightarrow> Inr ([], bs)
      | Inr (Some (m, n)) \<Rightarrow>
          (if n = 0 \<or> length bs < n then Inr ([], bs)
           else (case drain p (drop n bs) of
                   Inl e \<Rightarrow> Inl e
                 | Inr (ms, r) \<Rightarrow> Inr (m # ms, r))))"
  by pat_completeness auto
termination
  by (relation "measure (\<lambda>(p, bs). length bs)") auto

declare drain.simps [simp del]

text \<open>The decoder fed with the chunks a transport happens to deliver.\<close>

fun feed :: "('b list \<Rightarrow> 'e + ('m \<times> nat) option) \<Rightarrow> 'b list \<Rightarrow> 'b list list \<Rightarrow> 'e + ('m list \<times> 'b list)" where
  "feed p r [] = Inr ([], r)"
| "feed p r (c # cs) =
     (case drain p (r @ c) of
        Inl e \<Rightarrow> Inl e
      | Inr (ms, r') \<Rightarrow>
          (case feed p r' cs of
             Inl e \<Rightarrow> Inl e
           | Inr (ms', r'') \<Rightarrow> Inr (ms @ ms', r'')))"

locale stream_framer =
  fixes parse :: "'b list \<Rightarrow> 'e + ('m \<times> nat) option"
  assumes consumes: "parse bs = Inr (Some (m, n)) \<Longrightarrow> 0 < n \<and> n \<le> length bs"
    and extends: "parse bs = Inr (Some (m, n)) \<Longrightarrow> parse (bs @ ys) = Inr (Some (m, n))"
    and fails: "parse bs = Inl e \<Longrightarrow> parse (bs @ ys) = Inl e"
begin

lemma drain_need [simp]: "parse bs = Inr None \<Longrightarrow> drain parse bs = Inr ([], bs)"
  by (simp add: drain.simps)

lemma drain_err [simp]: "parse bs = Inl e \<Longrightarrow> drain parse bs = Inl e"
  by (simp add: drain.simps)

lemma drain_msg:
  assumes "parse bs = Inr (Some (m, n))"
  shows "drain parse bs =
    (case drain parse (drop n bs) of Inl e \<Rightarrow> Inl e | Inr (ms, r) \<Rightarrow> Inr (m # ms, r))"
  using consumes [OF assms] assms by (subst drain.simps) auto

lemma drain_append:
  "drain parse (xs @ ys) =
    (case drain parse xs of
       Inl e \<Rightarrow> Inl e
     | Inr (ms, r) \<Rightarrow>
         (case drain parse (r @ ys) of Inl e \<Rightarrow> Inl e | Inr (ms', r') \<Rightarrow> Inr (ms @ ms', r')))"
proof (induction "length xs" arbitrary: xs rule: less_induct)
  case less
  consider (err) e where "parse xs = Inl e" | (need) "parse xs = Inr None"
    | (msg) m n where "parse xs = Inr (Some (m, n))"
    by (cases "parse xs") (auto split: option.splits, metis option.exhaust surj_pair)
  then show ?case
  proof cases
    case err
    then show ?thesis by (simp add: fails)
  next
    case need
    then show ?thesis by (auto split: sum.splits)
  next
    case msg
    have n: "0 < n" "n \<le> length xs" using consumes [OF msg] by auto
    then have "length (drop n xs) < length xs" by simp
    from less [OF this] n msg show ?thesis
      by (auto simp: drain_msg [OF msg] drain_msg [OF extends [OF msg]] split: sum.splits)
  qed
qed

lemma drain_rest: "drain parse xs = Inr (ms, r) \<Longrightarrow> parse r = Inr None"
proof (induction "length xs" arbitrary: xs ms rule: less_induct)
  case less
  consider (err) e where "parse xs = Inl e" | (need) "parse xs = Inr None"
    | (msg) m n where "parse xs = Inr (Some (m, n))"
    by (cases "parse xs") (auto split: option.splits, metis option.exhaust surj_pair)
  then show ?case
  proof cases
    case msg
    have "length (drop n xs) < length xs" using consumes [OF msg] by auto
    with less.prems less.hyps [of "drop n xs"] show ?thesis
      by (auto simp: drain_msg [OF msg] split: sum.splits)
  qed (use less.prems in auto)
qed

lemma drain_shrinks: "drain parse xs = Inr (ms, r) \<Longrightarrow> length r \<le> length xs"
proof (induction "length xs" arbitrary: xs ms rule: less_induct)
  case less
  consider (err) e where "parse xs = Inl e" | (need) "parse xs = Inr None"
    | (msg) m n where "parse xs = Inr (Some (m, n))"
    by (cases "parse xs") (auto split: option.splits, metis option.exhaust surj_pair)
  then show ?case
  proof cases
    case msg
    have "length (drop n xs) < length xs" using consumes [OF msg] by auto
    with less.prems less.hyps [of "drop n xs"] show ?thesis
      by (fastforce simp: drain_msg [OF msg] split: sum.splits)
  qed (use less.prems in auto)
qed

text \<open>Fragmentation does not matter: feeding chunks is draining their concatenation.\<close>

lemma feed_concat: "parse r = Inr None \<Longrightarrow> feed parse r cs = drain parse (r @ concat cs)"
proof (induction cs arbitrary: r)
  case Nil
  then show ?case by simp
next
  case (Cons c cs)
  show ?case
  proof (cases "drain parse (r @ c)")
    case (Inl e)
    then show ?thesis
      using drain_append [of "r @ c" "concat cs"] by simp
  next
    case (Inr q)
    then obtain ms r' where q: "drain parse (r @ c) = Inr (ms, r')" by (cases q) auto
    from Cons.IH [OF drain_rest [OF q]] q show ?thesis
      using drain_append [of "r @ c" "concat cs"] by simp
  qed
qed

end

locale framed_codec = stream_framer parse
  for parse :: "'b list \<Rightarrow> 'e + ('m \<times> nat) option" +
  fixes enc :: "'m \<Rightarrow> 'b list"
    and encodable :: "'m \<Rightarrow> bool"
  assumes parse_enc: "encodable m \<Longrightarrow> parse (enc m) = Inr (Some (m, length (enc m)))"
    and parse_empty: "parse [] = Inr None"
begin

lemma drain_encs: "\<forall>m \<in> set ms. encodable m \<Longrightarrow> drain parse (concat (map enc ms)) = Inr (ms, [])"
proof (induction ms)
  case Nil
  then show ?case by (simp add: parse_empty)
next
  case (Cons m ms)
  then have "parse (enc m @ concat (map enc ms)) = Inr (Some (m, length (enc m)))"
    by (simp add: extends parse_enc)
  with Cons show ?case by (simp add: drain_msg)
qed

lemma feed_encs:
  assumes "\<forall>m \<in> set ms. encodable m" and "concat cs = concat (map enc ms)"
  shows "feed parse [] cs = Inr (ms, [])"
  using feed_concat [OF parse_empty, of cs] drain_encs [OF assms(1)] assms(2) by simp

end

section \<open>Interface: a machine with an invariant\<close>

text \<open>
  A component whose operations update its state and answer with a value; a run is a sequence
  of operations. \<open>absorbing_machine\<close> adds a state no operation leaves (closed, failed).
\<close>

fun run_machine :: "('s \<Rightarrow> 'i \<Rightarrow> 's \<times> 'o) \<Rightarrow> 's \<Rightarrow> 'i list \<Rightarrow> 's \<times> 'o list" where
  "run_machine step s [] = (s, [])"
| "run_machine step s (i # is) =
     (case step s i of (s', out) \<Rightarrow>
        (case run_machine step s' is of (s'', outs) \<Rightarrow> (s'', out # outs)))"

lemma run_machine_Cons:
  "run_machine step s (i # is) =
     (fst (run_machine step (fst (step s i)) is),
      snd (step s i) # snd (run_machine step (fst (step s i)) is))"
  by (simp split: prod.splits)

lemma run_machine_append:
  "run_machine step s (xs @ ys) =
     (fst (run_machine step (fst (run_machine step s xs)) ys),
      snd (run_machine step s xs) @ snd (run_machine step (fst (run_machine step s xs)) ys))"
  by (induction xs arbitrary: s) (auto simp: run_machine_Cons simp del: run_machine.simps(2) split: prod.splits)

lemma length_run_machine [simp]: "length (snd (run_machine step s xs)) = length xs"
  by (induction xs arbitrary: s) (auto simp: run_machine_Cons simp del: run_machine.simps(2))

lemma run_machine_nth:
  "i < length xs \<Longrightarrow>
     snd (run_machine step s xs) ! i = snd (step (fst (run_machine step s (take i xs))) (xs ! i))"
proof (induction xs arbitrary: s i)
  case (Cons x xs)
  then show ?case by (cases i) (auto simp: run_machine_Cons simp del: run_machine.simps(2))
qed simp

lemma run_machine_take:
  "i \<le> j \<Longrightarrow> fst (run_machine step s (take j xs)) =
     fst (run_machine step (fst (run_machine step s (take i xs))) (drop i (take j xs)))"
  using run_machine_append [of step s "take i xs" "drop i (take j xs)"]
  by (metis append_take_drop_id fst_conv min.absorb_iff1 take_take)

lemma run_machine_take_Suc:
  "i < length xs \<Longrightarrow> fst (run_machine step s (take (Suc i) xs)) =
     fst (step (fst (run_machine step s (take i xs))) (xs ! i))"
  by (simp add: take_Suc_conv_app_nth run_machine_append run_machine_Cons del: run_machine.simps(2))

text \<open>The last time a state predicate became true: it has held ever since.\<close>

lemma run_machine_since:
  assumes "\<not> P s" and "P (fst (run_machine step s es))"
  obtains xs e ys where "es = xs @ e # ys" and "\<not> P (fst (run_machine step s xs))"
    and "\<And>zs ws. ys = zs @ ws \<Longrightarrow> P (fst (run_machine step s (xs @ e # zs)))"
  using assms(2)
proof (induction es arbitrary: thesis rule: rev_induct)
  case Nil
  with assms(1) show ?case by simp
next
  case (snoc x es)
  show ?case
  proof (cases "P (fst (run_machine step s es))")
    case False
    show ?thesis
    proof (rule snoc.prems(1))
      show "es @ [x] = es @ x # []" by simp
      show "P (fst (run_machine step s (es @ x # zs)))" if "[] = zs @ ws" for zs ws
        using that snoc.prems(2) by simp
    qed (rule False)
  next
    case True
    show ?thesis
    proof (rule snoc.IH [OF _ True])
      fix xs e ys
      assume h: "es = xs @ e # ys" "\<not> P (fst (run_machine step s xs))"
        "\<And>zs ws. ys = zs @ ws \<Longrightarrow> P (fst (run_machine step s (xs @ e # zs)))"
      show thesis
      proof (rule snoc.prems(1))
        show "es @ [x] = xs @ e # ys @ [x]" using h(1) by simp
        show "P (fst (run_machine step s (xs @ e # zs)))" if "ys @ [x] = zs @ ws" for zs ws
        proof (cases ws rule: rev_cases)
          case Nil
          with that h(1) snoc.prems(2) show ?thesis by simp
        next
          case (snoc vs v)
          with that have "ys = zs @ vs" by simp
          then show ?thesis by (rule h(3))
        qed
      qed (rule h(2))
    qed
  qed
qed

locale safe_machine =
  fixes step :: "'s \<Rightarrow> 'i \<Rightarrow> 's \<times> 'o"
    and inv :: "'s \<Rightarrow> bool"
  assumes inv_step: "inv s \<Longrightarrow> inv (fst (step s i))"
begin

lemma inv_run: "inv s \<Longrightarrow> inv (fst (run_machine step s is))"
  by (induction "is" arbitrary: s)
    (auto simp: run_machine_Cons inv_step simp del: run_machine.simps(2))

end

locale absorbing_machine = safe_machine step inv
  for step :: "'s \<Rightarrow> 'i \<Rightarrow> 's \<times> 'o" and inv :: "'s \<Rightarrow> bool" +
  fixes dead :: "'s \<Rightarrow> bool"
  assumes dead_step: "inv s \<Longrightarrow> dead s \<Longrightarrow> dead (fst (step s i))"
begin

lemma dead_run: "inv s \<Longrightarrow> dead s \<Longrightarrow> dead (fst (run_machine step s is))"
  by (induction "is" arbitrary: s)
    (auto simp: run_machine_Cons inv_step dead_step simp del: run_machine.simps(2))

end

end
