(* ===== verification/Protocol.thy ===== *)
theory Protocol
  imports Prelude
begin

text \<open>
  The error type every codec of the CarPlay stack answers with
  (\<open>native/carplay/src/protocol/mod.rs\<close>), shared by the theories of that stack.
\<close>

datatype proto_error =
  Bounds | Malformed | Checksum | Unsupported | State | Sequence | Timeout | Rejected

end
