(* ===== verification/Iap2.thy ===== *)
theory Iap2
  imports Protocol
begin

text \<open>
  iAP2 link layer (\<open>native/carplay/src/protocol/iap2.rs\<close>): checksummed frames, the incremental
  decoder, synchronization payloads and the bounded send window with cumulative
  acknowledgements over 8-bit sequence numbers.
\<close>

section \<open>Frames\<close>

definition DETECT :: "u8 list" where
  "DETECT = [0xff, 0x55, 0x02, 0x00, 0xee, 0x10]"

definition SYN :: u8 where [consts_simps]: "SYN = 0x80"
definition ACK :: u8 where [consts_simps]: "ACK = 0x40"
definition RST :: u8 where [consts_simps]: "RST = 0x10"
definition CONTROL_SESSION :: u8 where [consts_simps]: "CONTROL_SESSION = 10"
definition MAX_FRAME :: nat where [consts_simps]: "MAX_FRAME = 65535"
definition HEADER :: nat where [consts_simps]: "HEADER = 9"

text \<open>\<open>0u8.wrapping_sub\<close> of the wrapping sum.\<close>

definition checksum :: "u8 list \<Rightarrow> u8" where
  "checksum bs = 0 - foldl (+) 0 bs"

record frame =
  flags :: u8
  sequence :: u8
  acknowledgement :: u8
  session :: u8
  payload :: "u8 list"

definition frame_length :: "frame \<Rightarrow> nat" where
  "frame_length f = HEADER + length (payload f) + (if payload f = [] then 0 else 1)"

definition frame_encode :: "frame \<Rightarrow> proto_error + u8 list" where
  "frame_encode f =
     (if frame_length f > MAX_FRAME then Inl Bounds
      else if flags f AND 0x0f \<noteq> 0 then Inl Unsupported
      else
        let head = [0xff, 0x5a] @ to_be16 (of_nat (frame_length f))
              @ [flags f, sequence f, acknowledgement f, session f];
            bytes = head @ [checksum head]
        in Inr (if payload f = [] then bytes else bytes @ payload f @ [checksum (payload f)]))"

definition frame_decode :: "u8 list \<Rightarrow> proto_error + frame" where
  "frame_decode bytes =
     (if length bytes < HEADER \<or> length bytes > MAX_FRAME then Inl Bounds
      else if take 2 bytes \<noteq> [0xff, 0x5a]
        \<or> unat (from_be16 (bytes ! 2) (bytes ! 3)) \<noteq> length bytes
        \<or> length bytes = HEADER + 1 then Inl Malformed
      else if checksum (take HEADER bytes) \<noteq> 0
        \<or> (length bytes > HEADER \<and> checksum (drop HEADER bytes) \<noteq> 0) then Inl Checksum
      else if (bytes ! 4) AND 0x0f \<noteq> 0 then Inl Unsupported
      else Inr \<lparr>flags = bytes ! 4, sequence = bytes ! 5, acknowledgement = bytes ! 6,
                session = bytes ! 7,
                payload = (if length bytes = HEADER then []
                           else take (length bytes - 1 - HEADER) (drop HEADER bytes))\<rparr>)"

lemma foldl_plus_append: "foldl (+) (a :: u8) (xs @ [c]) = foldl (+) a xs + c"
  by simp

lemma checksum_snoc_zero: "checksum (xs @ [c]) = 0 \<longleftrightarrow> c = checksum xs"
  by (simp add: checksum_def neg_eq_iff_add_eq_0 eq_neg_iff_add_eq_0 add.commute)

lemma checksum_closes [simp]: "checksum (xs @ [checksum xs]) = 0"
  by (simp add: checksum_snoc_zero)

lemma frame_encode_length: "frame_encode f = Inr bs \<Longrightarrow> length bs = frame_length f"
  by (auto simp: frame_encode_def frame_length_def HEADER_def Let_def split: if_splits)

lemma frame_decode_encode:
  assumes "frame_encode f = Inr bs"
  shows "frame_decode bs = Inr f"
proof -
  let ?head = "[0xff, 0x5a] @ to_be16 (of_nat (frame_length f))
              @ [flags f, sequence f, acknowledgement f, session f]"
  have len: "frame_length f \<le> 65535" and fl: "flags f AND 0x0f = 0"
    and bs: "bs = ?head @ [checksum ?head] @
              (if payload f = [] then [] else payload f @ [checksum (payload f)])"
    using assms by (auto simp: frame_encode_def consts_simps Let_def split: if_splits)
  have h: "length ?head = 8" by simp
  have lb: "length bs = frame_length f" by (rule frame_encode_length [OF assms])
  have tk: "take 9 bs = ?head @ [checksum ?head]" unfolding bs using h by (simp add: to_be16_def)
  have dr: "drop 9 bs = (if payload f = [] then [] else payload f @ [checksum (payload f)])"
    unfolding bs using h by (simp add: to_be16_def)
  have c1: "checksum (take 9 bs) = 0" unfolding tk by (rule checksum_closes)
  have c2: "payload f \<noteq> [] \<Longrightarrow> checksum (drop 9 bs) = 0" by (simp add: dr)
  have n2: "unat (from_be16 (bs ! 2) (bs ! 3)) = frame_length f"
    using len unfolding bs by (simp add: to_be16_def from_be16_parts)
  have n: "bs ! 4 = flags f" "bs ! 5 = sequence f" "bs ! 6 = acknowledgement f" "bs ! 7 = session f"
    "take 2 bs = [0xff, 0x5a]"
    unfolding bs by (simp_all add: to_be16_def)
  show ?thesis
  proof (cases "payload f = []")
    case True
    then have "length bs = 9" by (simp add: lb frame_length_def HEADER_def)
    with c1 n n2 fl lb True show ?thesis
      by (simp add: frame_decode_def consts_simps)
  next
    case False
    then have "length bs = 10 + length (payload f)" "frame_length f \<noteq> 10"
      by (simp_all add: lb frame_length_def HEADER_def)
    with c1 c2 n n2 fl lb len False show ?thesis
      by (simp add: frame_decode_def consts_simps dr)
  qed
qed

lemma frame_encode_decode:
  assumes "frame_decode bs = Inr f"
  shows "frame_encode f = Inr bs"
proof -
  have len: "9 \<le> length bs" "length bs \<le> 65535" "length bs \<noteq> 10"
    and len2: "unat (from_be16 (bs ! 2) (bs ! 3)) = length bs"
    and mg: "take 2 bs = [0xff, 0x5a]"
    and c1: "checksum (take 9 bs) = 0"
    and c2: "length bs > 9 \<Longrightarrow> checksum (drop 9 bs) = 0"
    and fl: "bs ! 4 AND 0x0f = 0"
    and f: "f = \<lparr>flags = bs ! 4, sequence = bs ! 5, acknowledgement = bs ! 6,
                session = bs ! 7,
                payload = (if length bs = 9 then [] else take (length bs - 1 - 9) (drop 9 bs))\<rparr>"
    using assms by (auto simp: frame_decode_def consts_simps split: if_splits)
  from len(1) have "8 \<le> length bs" by simp
  then obtain a b l1 l2 fl' sq ak se r where bs8: "bs = a # b # l1 # l2 # fl' # sq # ak # se # r"
    by (rule length_ge_8E)
  with len(1) obtain c rest where r: "r = c # rest" by (cases r) auto
  let ?head = "[0xff, 0x5a, l1, l2, fl', sq, ak, se]"
  have ab: "a = 0xff" "b = 0x5a" using mg by (simp_all add: bs8)
  have "checksum (?head @ [c]) = 0" using c1 by (simp add: bs8 r ab)
  then have c: "c = checksum ?head" by (simp only: checksum_snoc_zero)
  have l: "to_be16 (of_nat (length bs)) = [l1, l2]"
    by (rule to_be16_of_length) (use len2 in \<open>simp add: bs8\<close>)
  have rest: "rest = (if payload f = [] then [] else payload f @ [checksum (payload f)])"
    and fle: "frame_length f = length bs"
  proof -
    show "rest = (if payload f = [] then [] else payload f @ [checksum (payload f)])"
    proof (cases "rest = []")
      case True
      then show ?thesis by (simp add: f bs8 r)
    next
      case False
      then obtain p k where pk: "rest = p @ [k]" by (cases rest rule: rev_cases) auto
      have "p \<noteq> []" using len(3) by (auto simp: bs8 r pk)
      moreover have "checksum (p @ [k]) = 0" using c2 False by (simp add: bs8 r pk)
      ultimately show ?thesis
        by (simp add: f bs8 r pk checksum_snoc_zero)
    qed
    then show "frame_length f = length bs"
      by (auto simp: frame_length_def HEADER_def bs8 r)
  qed
  from len(2) fl show ?thesis
    by (simp add: frame_encode_def fle consts_simps l Let_def)
      (simp add: f [THEN arg_cong [where f = flags]] f [THEN arg_cong [where f = sequence]]
        f [THEN arg_cong [where f = acknowledgement]] f [THEN arg_cong [where f = session]]
        rest bs8 r ab c)
qed

section \<open>Incremental decoder\<close>

text \<open>One attempt of \<open>next_frame\<close> on the buffer: the frame and the bytes it occupies.\<close>

definition iap2_parse :: "u8 list \<Rightarrow> proto_error + (frame \<times> nat) option" where
  "iap2_parse buf =
     (if length buf < 4 then Inr None
      else if take 2 buf \<noteq> [0xff, 0x5a] then Inl Malformed
      else
        let len = unat (from_be16 (buf ! 2) (buf ! 3)) in
        if len < HEADER \<or> len = HEADER + 1 then Inl Malformed
        else if length buf < len then Inr None
        else bindr (frame_decode (take len buf)) (\<lambda>f. Inr (Some (f, len))))"

definition decoder_push :: "u8 list \<Rightarrow> u8 list \<Rightarrow> proto_error + u8 list" where
  "decoder_push buf bytes =
     (if length buf + length bytes > MAX_FRAME then Inl Bounds else Inr (buf @ bytes))"

text \<open>\<open>next_frame\<close>: the remaining buffer and the answer; an error leaves the buffer as it was.\<close>

definition next_frame :: "u8 list \<Rightarrow> u8 list \<times> (proto_error + frame option)" where
  "next_frame buf =
     (case iap2_parse buf of
        Inl e \<Rightarrow> (buf, Inl e)
      | Inr None \<Rightarrow> (buf, Inr None)
      | Inr (Some (f, len)) \<Rightarrow> (drop len buf, Inr (Some f)))"

lemma iap2_parse_Some:
  "iap2_parse buf = Inr (Some (f, n)) \<longleftrightarrow>
     4 \<le> length buf \<and> take 2 buf = [0xff, 0x5a] \<and> n = unat (from_be16 (buf ! 2) (buf ! 3))
     \<and> HEADER \<le> n \<and> n \<noteq> HEADER + 1 \<and> n \<le> length buf \<and> frame_decode (take n buf) = Inr f"
  by (auto simp: iap2_parse_def Let_def not_less split: if_splits)

lemma iap2_parse_prefix:
  "4 \<le> length buf \<Longrightarrow> take 2 (buf @ ys) = take 2 buf \<and> (buf @ ys) ! 2 = buf ! 2 \<and> (buf @ ys) ! 3 = buf ! 3"
  by (simp add: nth_append)

interpretation iap2_stream: framed_codec iap2_parse
  "\<lambda>f. case frame_encode f of Inr bs \<Rightarrow> bs | Inl _ \<Rightarrow> []"
  "\<lambda>f. is_ok (frame_encode f)"
proof unfold_locales
  fix bs ys m n
  show "iap2_parse bs = Inr (Some (m, n)) \<Longrightarrow> 0 < n \<and> n \<le> length bs"
    by (auto simp: iap2_parse_Some HEADER_def)
  show "iap2_parse bs = Inr (Some (m, n)) \<Longrightarrow> iap2_parse (bs @ ys) = Inr (Some (m, n))"
    by (auto simp: iap2_parse_Some nth_append)
next
  fix bs ys e
  assume a: "iap2_parse bs = Inl e"
  then have "4 \<le> length bs" by (auto simp: iap2_parse_def split: if_splits)
  note p = iap2_parse_prefix [OF this, of ys]
  from a p show "iap2_parse (bs @ ys) = Inl e"
    by (auto simp: iap2_parse_def Let_def bindr_eq_Inl split: if_splits)
next
  fix m
  assume "is_ok (frame_encode m)"
  then obtain bs where e: "frame_encode m = Inr bs" by (auto simp: is_ok_iff)
  note d = frame_decode_encode [OF e]
  then show "iap2_parse (case frame_encode m of Inl _ \<Rightarrow> [] | Inr bs \<Rightarrow> bs)
      = Inr (Some (m, length (case frame_encode m of Inl _ \<Rightarrow> [] | Inr bs \<Rightarrow> bs)))"
    by (auto simp: e iap2_parse_Some frame_decode_def HEADER_def split: if_splits)
next
  show "iap2_parse [] = Inr None" by (simp add: iap2_parse_def)
qed

section \<open>Synchronization\<close>

record sync_session =
  ses_id :: u8
  ses_kind :: u8
  ses_version :: u8

record synchronization =
  window :: u8
  max_frame :: u16
  retransmit_ms :: u16
  ack_ms :: u16
  retries :: u8
  ack_count :: u8
  sessions :: "sync_session list"

text \<open>The loop over the sessions with its \<open>seen\<close> table.\<close>

fun check_sessions :: "u8 set \<Rightarrow> sync_session list \<Rightarrow> proto_error + unit" where
  "check_sessions seen [] = Inr ()"
| "check_sessions seen (s # ss) =
     (if ses_id s = 0 \<or> ses_id s \<in> seen \<or> ses_kind s > 2 \<or> ses_version s = 0 then Inl Malformed
      else check_sessions (insert (ses_id s) seen) ss)"

definition sync_validate :: "synchronization \<Rightarrow> proto_error + unit" where
  "sync_validate c =
     (if window c = 0 \<or> window c > 127 \<or> max_frame c < 64
        \<or> sessions c = [] \<or> length (sessions c) > 8 then Inl Bounds
      else
        let zero_ack = (retransmit_ms c = 0 \<and> ack_ms c = 0 \<and> retries c = 0 \<and> ack_count c = 0) in
        if \<not> zero_ack \<and> (retransmit_ms c = 0 \<or> ack_ms c \<ge> retransmit_ms c
            \<or> retries c = 0 \<or> ack_count c = 0) then Inl Bounds
        else check_sessions {} (sessions c))"

definition session_bytes :: "sync_session \<Rightarrow> u8 list" where
  "session_bytes s = [ses_id s, ses_kind s, ses_version s]"

definition sync_encode :: "synchronization \<Rightarrow> proto_error + u8 list" where
  "sync_encode c =
     bindr (sync_validate c) (\<lambda>_.
       Inr ([1, window c] @ to_be16 (max_frame c) @ to_be16 (retransmit_ms c) @ to_be16 (ack_ms c)
            @ [retries c, ack_count c] @ concat (map session_bytes (sessions c))))"

text \<open>\<open>as_chunks::<3>().0\<close>: the complete triples.\<close>

fun session_chunks :: "u8 list \<Rightarrow> sync_session list" where
  "session_chunks (a # b # c # r) =
     \<lparr>ses_id = a, ses_kind = b, ses_version = c\<rparr> # session_chunks r"
| "session_chunks _ = []"

definition sync_decode :: "u8 list \<Rightarrow> proto_error + synchronization" where
  "sync_decode bytes =
     (if length bytes < 13 \<or> length bytes > 34 \<or> (length bytes - 10) mod 3 \<noteq> 0 then Inl Bounds
      else if bytes ! 0 \<noteq> 1 then Inl Unsupported
      else
        let value = \<lparr>window = bytes ! 1,
              max_frame = from_be16 (bytes ! 2) (bytes ! 3),
              retransmit_ms = from_be16 (bytes ! 4) (bytes ! 5),
              ack_ms = from_be16 (bytes ! 6) (bytes ! 7),
              retries = bytes ! 8, ack_count = bytes ! 9,
              sessions = session_chunks (drop 10 bytes)\<rparr>
        in bindr (sync_validate value) (\<lambda>_. Inr value))"

lemma check_sessions_iff:
  "check_sessions seen ss = Inr () \<longleftrightarrow>
     distinct (map ses_id ss) \<and>
     (\<forall>s \<in> set ss. ses_id s \<noteq> 0 \<and> ses_id s \<notin> seen \<and> ses_kind s \<le> 2 \<and> ses_version s \<noteq> 0)"
  by (induction seen ss rule: check_sessions.induct) (auto simp: not_less image_iff split: if_splits)

lemma session_chunks_bytes [simp]: "session_chunks (concat (map session_bytes ss)) = ss"
  by (induction ss) (simp_all add: session_bytes_def)

lemma bytes_session_chunks: "length bs mod 3 = 0 \<Longrightarrow> concat (map session_bytes (session_chunks bs)) = bs"
  by (induction bs rule: session_chunks.induct) (auto simp: session_bytes_def)

lemma length_session_bytes [simp]: "length (concat (map session_bytes ss)) = 3 * length ss"
  by (induction ss) (simp_all add: session_bytes_def)

lemma sync_validate_sessions: "sync_validate c = Inr u \<Longrightarrow> sessions c \<noteq> [] \<and> length (sessions c) \<le> 8"
  by (auto simp: sync_validate_def split: if_splits)

lemma sync_decode_encode: "sync_encode c = Inr bs \<Longrightarrow> sync_decode bs = Inr c"
proof -
  assume e: "sync_encode c = Inr bs"
  then have v: "sync_validate c = Inr ()" by (auto simp: sync_encode_def)
  from sync_validate_sessions [OF v] have l: "1 \<le> length (sessions c)" "length (sessions c) \<le> 8"
    by (auto simp: Suc_le_eq)
  have bs: "bs = [1, window c, ucast (drop_bit 8 (max_frame c)), ucast (max_frame c),
      ucast (drop_bit 8 (retransmit_ms c)), ucast (retransmit_ms c),
      ucast (drop_bit 8 (ack_ms c)), ucast (ack_ms c), retries c, ack_count c]
      @ concat (map session_bytes (sessions c))"
    using e by (auto simp: sync_encode_def to_be16_def)
  have "length bs = 10 + 3 * length (sessions c)" by (simp add: bs)
  with l v show ?thesis
    by (cases c) (auto simp: sync_decode_def bs from_be16_parts Let_def)
qed

lemma sync_encode_decode: "sync_decode bs = Inr c \<Longrightarrow> sync_encode c = Inr bs"
proof -
  assume d: "sync_decode bs = Inr c"
  then have l: "13 \<le> length bs" "(length bs - 10) mod 3 = 0"
    by (auto simp: sync_decode_def not_less split: if_splits)
  then have "8 \<le> length bs" by simp
  then obtain a0 a1 a2 a3 a4 a5 a6 a7 r where r8: "bs = a0#a1#a2#a3#a4#a5#a6#a7#r"
    by (rule length_ge_8E)
  with l(1) have "2 \<le> length r" by simp
  then obtain a8 a9 r' where r: "r = a8 # a9 # r'" by (rule length_ge_2E)
  from l(2) have "length r' mod 3 = 0" by (simp add: r8 r)
  from d bytes_session_chunks [OF this] show ?thesis
    by (auto simp: sync_decode_def sync_encode_def r8 r to_from_be16 Let_def split: if_splits)
qed

section \<open>Send window\<close>

record pending_frame =
  p_frame :: frame
  p_deadline :: duration
  p_retries :: u8

record send_window =
  next_seq :: u8
  last_ack :: u8
  capacity :: nat
  max_payload :: nat
  interval :: duration
  retry_limit :: u8
  pending :: "pending_frame list"

definition sw_new :: "u8 \<Rightarrow> synchronization \<Rightarrow> proto_error + send_window" where
  "sw_new initial config =
     bindr (sync_validate config) (\<lambda>_.
       if retransmit_ms config = 0 then Inl Unsupported
       else Inr \<lparr>next_seq = initial, last_ack = initial - 1,
                 capacity = unat (window config), max_payload = unat (max_frame config) - 10,
                 interval = from_millis (unat (retransmit_ms config)),
                 retry_limit = retries config, pending = []\<rparr>)"

definition sw_send ::
  "send_window \<Rightarrow> u8 \<Rightarrow> u8 \<Rightarrow> u8 list \<Rightarrow> duration \<Rightarrow> send_window \<times> (proto_error + frame)" where
  "sw_send w ses ack pl now =
     (if length (pending w) \<ge> capacity w \<or> pl = [] \<or> length pl > max_payload w then (w, Inl Bounds)
      else
        let f = \<lparr>flags = ACK, sequence = next_seq w, acknowledgement = ack, session = ses, payload = pl\<rparr>
        in (w\<lparr>next_seq := next_seq w + 1,
             pending := pending w @ [\<lparr>p_frame = f, p_deadline = sat_add now (interval w), p_retries = 0\<rparr>]\<rparr>,
            Inr f))"

definition sw_acknowledge :: "send_window \<Rightarrow> u8 \<Rightarrow> send_window \<times> (proto_error + unit)" where
  "sw_acknowledge w ack =
     (if ack = last_ack w then (w, Inr ())
      else
        let distance = unat (ack - last_ack w) in
        if distance > length (pending w) then
          (w, if distance \<ge> 128 then Inr () else Inl Sequence)
        else (w\<lparr>pending := drop distance (pending w), last_ack := ack\<rparr>, Inr ()))"

definition due :: "duration \<Rightarrow> pending_frame \<Rightarrow> bool" where
  "due now p \<longleftrightarrow> p_deadline p \<le> now"

definition rearm :: "send_window \<Rightarrow> duration \<Rightarrow> pending_frame \<Rightarrow> pending_frame" where
  "rearm w now p =
     (if due now p
      then p\<lparr>p_retries := p_retries p + 1, p_deadline := sat_add now (interval w)\<rparr> else p)"

definition sw_retransmit :: "send_window \<Rightarrow> duration \<Rightarrow> send_window \<times> (proto_error + frame list)" where
  "sw_retransmit w now =
     (if \<exists>p \<in> set (pending w). due now p \<and> p_retries p \<ge> retry_limit w then (w, Inl Timeout)
      else (w\<lparr>pending := map (rearm w now) (pending w)\<rparr>,
            Inr (map p_frame (filter (due now) (pending w)))))"

definition sw_outstanding :: "send_window \<Rightarrow> nat" where
  "sw_outstanding w = length (pending w)"

definition sw_clear :: "send_window \<Rightarrow> send_window" where
  "sw_clear w = w\<lparr>pending := [], last_ack := next_seq w - 1\<rparr>"

text \<open>The operations as one machine.\<close>

datatype sw_op =
    Send u8 u8 "u8 list" duration
  | Acknowledge u8
  | Retransmit duration
  | Clear

datatype sw_out =
    Sent "proto_error + frame"
  | Acked "proto_error + unit"
  | Resent "proto_error + frame list"
  | Cleared

fun sw_step :: "send_window \<Rightarrow> sw_op \<Rightarrow> send_window \<times> sw_out" where
  "sw_step w (Send ses ack pl now) = (case sw_send w ses ack pl now of (w', r) \<Rightarrow> (w', Sent r))"
| "sw_step w (Acknowledge ack) = (case sw_acknowledge w ack of (w', r) \<Rightarrow> (w', Acked r))"
| "sw_step w (Retransmit now) = (case sw_retransmit w now of (w', r) \<Rightarrow> (w', Resent r))"
| "sw_step w Clear = (sw_clear w, Cleared)"

subsection \<open>Invariant\<close>

text \<open>
  The sequence numbers outstanding are exactly those after \<open>last_ack\<close> and before \<open>next_seq\<close>,
  modulo 256, in order; no frame exceeds the negotiated size or its retry budget.
\<close>

definition pending_ok :: "send_window \<Rightarrow> pending_frame \<Rightarrow> bool" where
  "pending_ok w p \<longleftrightarrow> p_retries p \<le> retry_limit w \<and> flags (p_frame p) = ACK
     \<and> payload (p_frame p) \<noteq> [] \<and> length (payload (p_frame p)) \<le> max_payload w"

definition sw_inv :: "send_window \<Rightarrow> bool" where
  "sw_inv w \<longleftrightarrow>
     length (pending w) \<le> capacity w \<and> capacity w \<le> 127 \<and> max_payload w \<le> 65525
     \<and> next_seq w = last_ack w + 1 + of_nat (length (pending w))
     \<and> (\<forall>i < length (pending w). sequence (p_frame (pending w ! i)) = last_ack w + 1 + of_nat i)
     \<and> (\<forall>p \<in> set (pending w). pending_ok w p)"

lemma sw_new_inv: "sw_new initial config = Inr w \<Longrightarrow> sw_inv w"
proof -
  assume n: "sw_new initial config = Inr w"
  then have "window config \<le> 127"
    by (auto simp: sw_new_def sync_validate_def not_less split: if_splits)
  then have "unat (window config) \<le> 127" by (simp add: word_le_nat_alt)
  moreover have "unat (max_frame config) < 65536" by (rule unat_bounds)
  ultimately show ?thesis
    using n by (auto simp: sw_new_def sw_inv_def split: if_splits)
qed

lemma sw_send_inv:
  assumes "sw_inv w"
  shows "sw_inv (fst (sw_send w ses ack pl now))"
proof (cases "length (pending w) \<ge> capacity w \<or> pl = [] \<or> length pl > max_payload w")
  case True
  with assms show ?thesis by (simp add: sw_send_def)
next
  case False
  with assms show ?thesis
    by (auto simp: sw_send_def sw_inv_def Let_def nth_append pending_ok_def less_Suc_eq)
qed

lemma sw_acknowledge_inv:
  assumes inv: "sw_inv w"
  shows "sw_inv (fst (sw_acknowledge w ack))"
proof -
  let ?d = "unat (ack - last_ack w)"
  have "sw_inv (w\<lparr>pending := drop ?d (pending w), last_ack := ack\<rparr>)" if "?d \<le> length (pending w)"
  proof -
    have ack: "ack = last_ack w + of_nat ?d" by simp
    have seq: "sequence (p_frame (pending w ! i)) = last_ack w + 1 + of_nat i"
      if "i < length (pending w)" for i using inv that by (simp add: sw_inv_def)
    have "last_ack w + 1 + of_nat (?d + i) = ack + 1 + of_nat i" for i
      using ack by (simp add: algebra_simps)
    with inv that show ?thesis
      by (auto simp: sw_inv_def seq pending_ok_def dest: in_set_dropD
          simp flip: of_nat_add)
  qed
  with inv show ?thesis by (simp add: sw_acknowledge_def Let_def)
qed

lemma rearm_simps [simp]: "p_frame (rearm w now p) = p_frame p"
  by (simp add: rearm_def)

lemma sw_retransmit_inv:
  assumes "sw_inv w"
  shows "sw_inv (fst (sw_retransmit w now))"
proof (cases "\<exists>p \<in> set (pending w). due now p \<and> p_retries p \<ge> retry_limit w")
  case True
  with assms show ?thesis by (simp add: sw_retransmit_def)
next
  case False
  have "pending_ok w (rearm w now p)" if "p \<in> set (pending w)" for p
  proof -
    from that assms have ok: "pending_ok w p" by (simp add: sw_inv_def)
    from that False have "due now p \<Longrightarrow> p_retries p < retry_limit w" by (auto simp: not_le)
    then have "due now p \<Longrightarrow> p_retries p + 1 \<le> retry_limit w" by (simp add: inc_le)
    with ok show ?thesis by (auto simp: pending_ok_def rearm_def)
  qed
  with assms False show ?thesis
    by (auto simp: sw_retransmit_def sw_inv_def pending_ok_def)
qed

lemma sw_clear_inv: "sw_inv w \<Longrightarrow> sw_inv (sw_clear w)"
  by (simp add: sw_inv_def sw_clear_def)

interpretation send_window_machine: safe_machine sw_step sw_inv
proof unfold_locales
  fix w i
  assume "sw_inv w"
  then show "sw_inv (fst (sw_step w i))"
    using sw_send_inv sw_acknowledge_inv sw_retransmit_inv
    by (cases i) (auto simp: sw_clear_inv split: prod.splits, (metis fst_conv)+)
qed

subsection \<open>Refinement of an unbounded window\<close>

text \<open>
  The abstract window numbers the frames sent since the start without wrapping: \<open>sent\<close> is all
  of them and \<open>acked\<close> how many the peer has confirmed. The concrete window keeps the rest and
  two 8-bit counters.
\<close>

definition sw_abs :: "u8 \<Rightarrow> frame list \<Rightarrow> nat \<Rightarrow> send_window \<Rightarrow> bool" where
  "sw_abs init sent acked w \<longleftrightarrow>
     sw_inv w \<and> acked \<le> length sent \<and> map p_frame (pending w) = drop acked sent
     \<and> last_ack w = init - 1 + of_nat acked
     \<and> (\<forall>i < length sent. sequence (sent ! i) = init + of_nat i)"

lemma sw_abs_new: "sw_new init config = Inr w \<Longrightarrow> sw_abs init [] 0 w"
  using sw_new_inv [of init config w] by (auto simp: sw_abs_def sw_new_def split: if_splits)

lemma sw_abs_length: "sw_abs init sent acked w \<Longrightarrow> length (pending w) = length sent - acked"
  by (metis sw_abs_def length_drop length_map)

lemma sw_abs_send:
  assumes "sw_abs init sent acked w" and "sw_send w ses ack pl now = (w', Inr f)"
  shows "sw_abs init (sent @ [f]) acked w'"
proof -
  have "next_seq w = init + of_nat (length sent)"
  proof -
    have "next_seq w = init + of_nat acked + of_nat (length sent - acked)"
      using assms(1) sw_abs_length [OF assms(1)] by (simp add: sw_abs_def sw_inv_def)
    with assms(1) show ?thesis by (simp add: sw_abs_def of_nat_diff)
  qed
  with assms sw_send_inv [of w ses ack pl now] show ?thesis
    by (auto simp: sw_abs_def sw_send_def Let_def nth_append less_Suc_eq split: if_splits)
qed

lemma sw_ack_distance:
  assumes "last_ack w = init - 1 + of_nat acked"
  shows "k \<ge> acked \<Longrightarrow> k - acked < 256 \<Longrightarrow>
      unat ((init - 1 + of_nat k) - last_ack w) = k - acked"
    and "k < acked \<Longrightarrow> acked - k \<le> 128 \<Longrightarrow>
      unat ((init - 1 + of_nat k) - last_ack w) = 256 - (acked - k)"
proof -
  assume k: "k \<ge> acked" "k - acked < 256"
  have "(init - 1 + of_nat k) - last_ack w = (of_nat (k - acked) :: u8)"
    using k(1) by (simp add: assms of_nat_diff)
  with k(2) show "unat ((init - 1 + of_nat k) - last_ack w) = k - acked" by simp
next
  assume k: "k < acked" "acked - k \<le> 128"
  have "(init - 1 + of_nat k) - last_ack w = - (of_nat (acked - k) :: u8)"
    using k(1) by (simp add: assms of_nat_diff)
  also have "\<dots> = of_nat (256 - (acked - k))"
  proof -
    have "(of_nat (256 - (acked - k)) :: u8) = of_nat 256 - of_nat (acked - k)"
      by (rule of_nat_diff) (use k(2) in simp)
    moreover have "(of_nat 256 :: u8) = 0" by simp
    ultimately show ?thesis by simp
  qed
  finally have eq: "(init - 1 + of_nat k) - last_ack w = (of_nat (256 - (acked - k)) :: u8)" .
  show "unat ((init - 1 + of_nat k) - last_ack w) = 256 - (acked - k)"
    unfolding eq by (rule unat_of_nat_u8) (use k in linarith)
qed

lemma sw_abs_acknowledge:
  assumes r: "sw_abs init sent acked w" and k: "k \<le> length sent" "acked \<le> k + 128"
  shows "\<exists>w'. sw_acknowledge w (init - 1 + of_nat k) = (w', Inr ()) \<and> sw_abs init sent (max acked k) w'"
proof -
  let ?ack = "init - 1 + of_nat k"
  have inv: "sw_inv w" and la: "last_ack w = init - 1 + of_nat acked"
    and le: "acked \<le> length sent" and pn: "map p_frame (pending w) = drop acked sent"
    using r by (auto simp: sw_abs_def)
  note len = sw_abs_length [OF r]
  have l127: "length (pending w) \<le> 127" using inv by (simp add: sw_inv_def)
  consider (same) "?ack = last_ack w" "k \<ge> acked" | (old) "k < acked"
    | (new) "?ack \<noteq> last_ack w" "k \<ge> acked" by force
  then show ?thesis
  proof cases
    case same
    have "k - acked < 256" using k len l127 same(2) by linarith
    from sw_ack_distance(1) [OF la same(2) this] same have "k = acked" by simp
    with r same show ?thesis by (auto simp: sw_acknowledge_def)
  next
    case old
    with k have "unat (?ack - last_ack w) = 256 - (acked - k)"
      using sw_ack_distance(2) [OF la] by simp
    with old k l127 r show ?thesis
      by (auto simp: sw_acknowledge_def Let_def max_def)
  next
    case new
    have lt: "k - acked < 256" using k len l127 new(2) by linarith
    note d = sw_ack_distance(1) [OF la new(2) lt]
    let ?w = "w\<lparr>pending := drop (k - acked) (pending w), last_ack := ?ack\<rparr>"
    have step: "sw_acknowledge w ?ack = (?w, Inr ())"
      using new d len k by (auto simp: sw_acknowledge_def Let_def)
    have "sw_inv ?w" using sw_acknowledge_inv [OF inv, of ?ack] by (simp add: step)
    moreover have "map p_frame (drop (k - acked) (pending w)) = drop k sent"
      using pn new(2) by (simp add: drop_map [symmetric])
    ultimately show ?thesis
      using step k new(2) r by (auto simp: sw_abs_def max_def)
  qed
qed

lemma ack_byte_as_count:
  assumes "sw_abs init sent acked w"
  obtains k where "a = init - 1 + of_nat k" "acked \<le> k + 128" "k \<le> length sent"
  | k where "a = init - 1 + of_nat k" "length sent < k" "k \<le> acked + 127"
  | "unat (a - last_ack w) \<ge> 128" "acked < 128"
proof -
  let ?d = "unat (a - last_ack w)"
  have la: "last_ack w = init - 1 + of_nat acked" using assms by (simp add: sw_abs_def)
  have a: "a = init - 1 + of_nat (acked + ?d)" using la by simp
  have lt: "?d < 256" by (rule unat_bounds)
  show thesis
  proof (cases "?d < 128")
    case True
    then show thesis using that(1) [OF a] that(2) [OF a] by linarith
  next
    case False
    show thesis
    proof (cases "acked < 128")
      case True
      with False show thesis using that(3) by simp
    next
      case large: False
      let ?k = "acked + ?d - 256"
      have "(of_nat (acked + ?d) :: u8) = of_nat (?k + 256)"
        using large False by simp
      also have "\<dots> = of_nat ?k + of_nat 256" by (rule of_nat_add)
      also have "(of_nat 256 :: u8) = 0" by simp
      finally have "(of_nat (acked + ?d) :: u8) = of_nat ?k" by simp
      then have "a = init - 1 + of_nat ?k" using a by (simp only:)
      then show thesis
        by (rule that(1)) (use large False lt assms in \<open>auto simp: sw_abs_def\<close>)
    qed
  qed
qed

lemma sw_abs_future_ack:
  assumes r: "sw_abs init sent acked w" and k: "length sent < k" "k \<le> acked + 127"
  shows "sw_acknowledge w (init - 1 + of_nat k) = (w, Inl Sequence)"
proof -
  have la: "last_ack w = init - 1 + of_nat acked" and le: "acked \<le> length sent"
    using r by (auto simp: sw_abs_def)
  from k le have "acked \<le> k" "k - acked < 256" by auto
  note d = sw_ack_distance(1) [OF la this]
  have "init - 1 + of_nat k \<noteq> last_ack w"
  proof
    assume "init - 1 + of_nat k = last_ack w"
    with d have "k - acked = 0" by simp
    with k le show False by simp
  qed
  moreover have "length (pending w) < k - acked" "k - acked < 128"
    using k le sw_abs_length [OF r] by auto
  ultimately show ?thesis using d by (simp add: sw_acknowledge_def Let_def)
qed

lemma sw_abs_retransmit:
  assumes "sw_abs init sent acked w" and "sw_retransmit w now = (w', Inr fs)"
  shows "sw_abs init sent acked w'" and "set fs \<subseteq> set (drop acked sent)"
proof -
  from assms sw_retransmit_inv [of w now] show "sw_abs init sent acked w'"
    by (auto simp: sw_abs_def sw_retransmit_def comp_def split: if_splits)
  have "set (drop acked sent) = p_frame ` set (pending w)"
    using assms(1) by (metis sw_abs_def set_map)
  with assms(2) show "set fs \<subseteq> set (drop acked sent)"
    by (auto simp: sw_retransmit_def split: if_splits)
qed

text \<open>Retransmission is bounded: each answer spends retries and no frame exceeds its budget.\<close>

definition spent_retries :: "send_window \<Rightarrow> nat" where
  "spent_retries w = sum_list (map (\<lambda>p. unat (p_retries p)) (pending w))"

lemma unat_inc_less: "(r :: u8) < l \<Longrightarrow> unat (r + 1) = Suc (unat r)"
  using unat_bounds(1) [of l] by (simp add: unat_word_ariths word_less_nat_alt)

lemma rearm_spent:
  "\<forall>p \<in> set ps. \<not> (due now p \<and> p_retries p \<ge> retry_limit w) \<Longrightarrow>
   sum_list (map (\<lambda>p. unat (p_retries (rearm w now p))) ps)
     = sum_list (map (\<lambda>p. unat (p_retries p)) ps) + length (filter (due now) ps)"
proof (induction ps)
  case (Cons p ps)
  then have "due now p \<Longrightarrow> unat (p_retries p + 1) = Suc (unat (p_retries p))"
    by (auto simp: not_le intro: unat_inc_less)
  with Cons show ?case by (auto simp: rearm_def)
qed simp

lemma sw_retransmit_spends:
  "sw_retransmit w now = (w', Inr fs) \<Longrightarrow> spent_retries w' = spent_retries w + length fs"
  using rearm_spent [of "pending w" now w]
  by (auto simp: sw_retransmit_def spent_retries_def comp_def split: if_splits)

lemma spent_retries_bound: "sw_inv w \<Longrightarrow> spent_retries w \<le> capacity w * unat (retry_limit w)"
proof -
  assume inv: "sw_inv w"
  have "spent_retries w \<le> length (pending w) * unat (retry_limit w)"
  proof -
    have "\<forall>p \<in> set ps. unat (p_retries p) \<le> l \<Longrightarrow>
      sum_list (map (\<lambda>p. unat (p_retries p)) ps) \<le> length ps * l" for ps l
      by (induction ps) auto
    from this [of "pending w" "unat (retry_limit w)"] show ?thesis
      using inv by (simp add: spent_retries_def sw_inv_def pending_ok_def word_le_nat_alt)
  qed
  also have "\<dots> \<le> capacity w * unat (retry_limit w)" using inv by (simp add: sw_inv_def)
  finally show ?thesis .
qed

lemma sw_abs_step:
  assumes "sw_abs init sent acked w" and "op \<noteq> Clear" and "sw_step w op = (w', out)"
  shows "\<exists>acked'. acked \<le> acked' \<and>
    sw_abs init (sent @ (case out of Sent (Inr f) \<Rightarrow> [f] | _ \<Rightarrow> [])) acked' w'"
proof (cases op)
  case (Send ses ack pl now)
  with assms sw_abs_send [OF assms(1), of ses ack pl now] show ?thesis
    by (auto simp: sw_send_def Let_def split: if_splits)
next
  case (Acknowledge a)
  from assms(1) show ?thesis
  proof (cases rule: ack_byte_as_count [where a = a])
    case (1 k)
    with sw_abs_acknowledge [OF assms(1) 1(3) 1(2)] assms(3) Acknowledge show ?thesis
      by (auto split: prod.splits intro!: exI [of _ "max acked k"])
  next
    case (2 k)
    with sw_abs_future_ack [OF assms(1) 2(2) 2(3)] assms Acknowledge show ?thesis by auto
  next
    case 3
    have "length (pending w) \<le> 127" using assms(1) by (simp add: sw_abs_def sw_inv_def)
    with 3 have "sw_acknowledge w a = (w, Inr ())"
      by (auto simp: sw_acknowledge_def Let_def)
    with assms Acknowledge show ?thesis by auto
  qed
next
  case (Retransmit now)
  with assms sw_abs_retransmit(1) [OF assms(1), of now] show ?thesis
    by (auto simp: sw_retransmit_def split: if_splits)
qed (use assms(2) in simp)

text \<open>The frames a run has handed to the transport for the first time, in order.\<close>

definition first_sent :: "sw_out list \<Rightarrow> frame list" where
  "first_sent outs = concat (map (\<lambda>out. case out of Sent (Inr f) \<Rightarrow> [f] | _ \<Rightarrow> []) outs)"

lemma sw_abs_run:
  "sw_abs init sent acked w \<Longrightarrow> Clear \<notin> set ops \<Longrightarrow>
   \<exists>acked'. acked \<le> acked' \<and>
     sw_abs init (sent @ first_sent (snd (run_machine sw_step w ops))) acked'
       (fst (run_machine sw_step w ops))"
proof (induction ops arbitrary: sent acked w)
  case Nil
  then show ?case by (auto simp: first_sent_def)
next
  case (Cons op ops)
  obtain w' out where s: "sw_step w op = (w', out)" by (cases "sw_step w op")
  with Cons.prems sw_abs_step [of init sent acked w op w' out] obtain a1 where
    a1: "acked \<le> a1" "sw_abs init (sent @ (case out of Sent (Inr f) \<Rightarrow> [f] | _ \<Rightarrow> [])) a1 w'" by auto
  from Cons.IH [OF a1(2)] Cons.prems obtain a2 where "a1 \<le> a2"
    "sw_abs init ((sent @ (case out of Sent (Inr f) \<Rightarrow> [f] | _ \<Rightarrow> []))
       @ first_sent (snd (run_machine sw_step w' ops))) a2 (fst (run_machine sw_step w' ops))" by auto
  with a1(1) s show ?case
    by (intro exI [of _ a2]) (auto simp: run_machine_Cons first_sent_def simp del: run_machine.simps(2))
qed

section \<open>Properties\<close>

text \<open>C34. Frame encoding and decoding are inverse to each other: \<open>encode\<close> accepts a frame with
  result \<open>bs\<close> exactly when \<open>decode\<close> accepts \<open>bs\<close> with that frame, so every accepted frame has one
  wire form, of at most 65535 bytes and with both checksums closing to zero.\<close>

theorem iap2_frame_bijective: "frame_encode f = Inr bs \<longleftrightarrow> frame_decode bs = Inr f"
  using frame_decode_encode frame_encode_decode by blast



text \<open>C11. Refinement of an unbounded window. After any sequence of sends, acknowledgements and
  retransmissions the window holds exactly the frames sent so far and not yet confirmed (a
  suffix of what was sent, in order), at most \<open>capacity\<close> of them, and the n-th frame sent carries
  sequence number \<open>initial + n\<close> modulo 256.\<close>

theorem send_window_refines:
  assumes "sw_new init config = Inr w" and "Clear \<notin> set ops"
    and "run_machine sw_step w ops = (w', outs)"
  shows "\<exists>acked \<le> length (first_sent outs).
      map p_frame (pending w') = drop acked (first_sent outs)
      \<and> last_ack w' = init - 1 + of_nat acked \<and> length (pending w') \<le> capacity w'
      \<and> (\<forall>i < length (first_sent outs). sequence (first_sent outs ! i) = init + of_nat i)"
  using sw_abs_run [OF sw_abs_new [OF assms(1)] assms(2)] assms(3)
  by (auto simp: sw_abs_def sw_inv_def)

definition wit_config :: synchronization where
  "wit_config = \<lparr>window = 2, max_frame = 64, retransmit_ms = 1000, ack_ms = 10, retries = 3,
     ack_count = 1, sessions = [\<lparr>ses_id = 10, ses_kind = 0, ses_version = 1\<rparr>]\<rparr>"

definition wit_window :: send_window where
  "wit_window = \<lparr>next_seq = 7, last_ack = 6, capacity = 2, max_payload = 54,
     interval = from_millis 1000, retry_limit = 3, pending = []\<rparr>"

lemma wit_window_new: "sw_new 7 wit_config = Inr wit_window"
  by (simp add: sw_new_def sync_validate_def wit_config_def wit_window_def)

theorem send_window_refines_witness:
  "\<exists>acked \<le> length (first_sent (snd (run_machine sw_step wit_window [Send 10 0 [1] 0, Acknowledge 7]))).
      map p_frame (pending (fst (run_machine sw_step wit_window [Send 10 0 [1] 0, Acknowledge 7])))
        = drop acked (first_sent (snd (run_machine sw_step wit_window [Send 10 0 [1] 0, Acknowledge 7])))"
  using send_window_refines [OF wit_window_new, of "[Send 10 0 [1] 0, Acknowledge 7]"
      "fst (run_machine sw_step wit_window [Send 10 0 [1] 0, Acknowledge 7])"
      "snd (run_machine sw_step wit_window [Send 10 0 [1] 0, Acknowledge 7])"]
  by force

text \<open>C20. Acknowledgements are cumulative over wrapping 8-bit numbers: in a window that has
  confirmed \<open>acked\<close> of the frames \<open>sent\<close>, the acknowledgement of the first \<open>k\<close> frames moves the
  count to \<open>max acked k\<close> (so an old one, up to 128 behind, changes nothing), and one for frames
  not sent yet is rejected and leaves the window as it was.\<close>

theorem send_window_acknowledge:
  assumes "sw_abs init sent acked w" and "acked \<le> k + 128" and "k \<le> acked + 127"
  shows "if k \<le> length sent
    then \<exists>w'. sw_acknowledge w (init - 1 + of_nat k) = (w', Inr ())
           \<and> map p_frame (pending w') = drop (max acked k) sent
           \<and> last_ack w' = init - 1 + of_nat (max acked k)
    else sw_acknowledge w (init - 1 + of_nat k) = (w, Inl Sequence)"
  using sw_abs_acknowledge [OF assms(1) _ assms(2)] sw_abs_future_ack [OF assms(1) _ assms(3)]
  by (auto simp: sw_abs_def)

theorem send_window_acknowledge_witness:
  "sw_acknowledge wit_window (7 - 1 + of_nat 1) = (wit_window, Inl Sequence)"
  using send_window_acknowledge [OF sw_abs_new [OF wit_window_new], of 1] by simp

text \<open>Synchronization payloads: the encoder accepts a configuration with result \<open>bs\<close> exactly
  when the decoder accepts \<open>bs\<close> with that configuration.\<close>

theorem sync_codec_bijective: "sync_encode c = Inr bs \<longleftrightarrow> sync_decode bs = Inr c"
  using sync_decode_encode sync_encode_decode by blast

end
