(* ===== verification/Text.thy ===== *)
theory Text
  imports Prelude
begin

text \<open>
  The text formatting of Rust's standard library that the sources use: strings are their UTF-8
  bytes, decimal and hexadecimal numbers, and IP addresses with their \<open>Display\<close> form and the
  address-class predicates.
\<close>

section \<open>Strings\<close>

text \<open>A literal of the sources as its bytes.\<close>

definition str :: "string \<Rightarrow> u8 list" where
  "str s = map of_char s"

lemma length_str [simp]: "length (str s) = length s"
  by (simp add: str_def)

definition hex_digit :: "nat \<Rightarrow> u8" where
  "hex_digit n = [0x30, 0x31, 0x32, 0x33, 0x34, 0x35, 0x36, 0x37, 0x38, 0x39,
     0x61, 0x62, 0x63, 0x64, 0x65, 0x66] ! n"

text \<open>\<open>{b:02x}\<close>\<close>

definition hex2 :: "u8 \<Rightarrow> u8 list" where
  "hex2 b = [hex_digit (unat b div 16), hex_digit (unat b mod 16)]"

definition hex_string :: "u8 list \<Rightarrow> u8 list" where
  "hex_string bs = concat (map hex2 bs)"

lemma length_hex_string [simp]: "length (hex_string bs) = 2 * length bs"
  by (induction bs) (simp_all add: hex_string_def hex2_def)

text \<open>Digits of a number, most significant first, without leading zeros; \<open>0\<close> is one digit.\<close>

fun digits :: "nat \<Rightarrow> nat \<Rightarrow> nat list" where
  "digits b n = (if b < 2 \<or> n < b then [n] else digits b (n div b) @ [n mod b])"

declare digits.simps [simp del]

definition decimal :: "nat \<Rightarrow> u8 list" where
  "decimal n = map hex_digit (digits 10 n)"

definition hex_number :: "nat \<Rightarrow> u8 list" where
  "hex_number n = map hex_digit (digits 16 n)"

lemma digits_bound: "2 \<le> b \<Longrightarrow> d \<in> set (digits b n) \<Longrightarrow> d < b"
proof (induction b n rule: digits.induct)
  case (1 b n)
  then show ?case by (subst (asm) (2) digits.simps) (auto split: if_splits)
qed

lemma digits_nonempty [simp]: "digits b n \<noteq> []"
  by (subst digits.simps) simp

lemma length_digits: "2 \<le> b \<Longrightarrow> n < b ^ k \<Longrightarrow> 0 < k \<Longrightarrow> length (digits b n) \<le> k"
proof (induction b n arbitrary: k rule: digits.induct)
  case (1 b n)
  show ?case
  proof (cases "n < b")
    case True
    with 1 show ?thesis by (subst digits.simps) simp
  next
    case False
    then have k: "1 < k" using 1 by (cases "k = 1") auto
    have "n < b ^ (k - 1) * b" using 1 by (metis power_minus_mult)
    then have "n div b < b ^ (k - 1)" by (rule less_mult_imp_div_less)
    with 1(1) [of "k - 1"] 1(2) False k have "length (digits b (n div b)) \<le> k - 1" by simp
    with k show ?thesis by (subst digits.simps) auto
  qed
qed

lemma less_16_cases: "n < (16::nat) \<Longrightarrow> n \<in> {0, 1, 2, 3, 4, 5, 6, 7, 8, 9, 10, 11, 12, 13, 14, 15}"
  by (simp, arith)

lemma hex_digit_printable: "n < 16 \<Longrightarrow> 0x30 \<le> hex_digit n \<and> hex_digit n \<le> 0x66"
  by (drule less_16_cases) (auto simp: hex_digit_def)

lemma hex_digit_distinct:
  "distinct [0x30 :: u8, 0x31, 0x32, 0x33, 0x34, 0x35, 0x36, 0x37, 0x38, 0x39,
     0x61, 0x62, 0x63, 0x64, 0x65, 0x66]"
  by simp

lemma hex_digit_inj: "m < 16 \<Longrightarrow> n < 16 \<Longrightarrow> hex_digit m = hex_digit n \<Longrightarrow> m = n"
  using nth_eq_iff_index_eq [OF hex_digit_distinct, of m n] by (simp add: hex_digit_def)

lemma hex2_inj: "hex2 a = hex2 b \<Longrightarrow> a = b"
proof -
  have lt: "unat a div 16 < 16" "unat b div 16 < 16" using unat_bounds(1) [of a] unat_bounds(1) [of b] by auto
  assume "hex2 a = hex2 b"
  then have "unat a div 16 = unat b div 16" "unat a mod 16 = unat b mod 16"
    using lt by (auto simp: hex2_def intro: hex_digit_inj)
  then have "unat a = unat b" by (metis div_mult_mod_eq)
  then show "a = b" by (simp only: word_unat_eq_iff)
qed

lemma hex_string_inj: "hex_string xs = hex_string ys \<Longrightarrow> xs = ys"
proof (induction xs arbitrary: ys)
  case Nil
  then show ?case by (cases ys) (auto simp: hex_string_def hex2_def)
next
  case (Cons x xs)
  then obtain y ys' where ys: "ys = y # ys'" by (cases ys) (auto simp: hex_string_def hex2_def)
  with Cons.prems have "hex2 x = hex2 y" "hex_string xs = hex_string ys'"
    by (auto simp: hex_string_def hex2_def)
  with Cons.IH ys show ?case by (simp add: hex2_inj)
qed

text \<open>\<open>String::from_utf8\<close> accepts exactly these byte lists.\<close>

definition utf8_cont :: "u8 \<Rightarrow> bool" where
  "utf8_cont b \<longleftrightarrow> 0x80 \<le> b \<and> b \<le> 0xbf"

fun utf8_valid :: "u8 list \<Rightarrow> bool" where
  "utf8_valid [] = True"
| "utf8_valid (a # r) =
     (if a < 0x80 then utf8_valid r
      else if 0xc2 \<le> a \<and> a \<le> 0xdf then (case r of b # s \<Rightarrow> utf8_cont b \<and> utf8_valid s | _ \<Rightarrow> False)
      else if 0xe0 \<le> a \<and> a \<le> 0xef then
        (case r of b # c # s \<Rightarrow> utf8_cont b \<and> utf8_cont c \<and> (a = 0xe0 \<longrightarrow> 0xa0 \<le> b) \<and> (a = 0xed \<longrightarrow> b \<le> 0x9f)
           \<and> utf8_valid s | _ \<Rightarrow> False)
      else if 0xf0 \<le> a \<and> a \<le> 0xf4 then
        (case r of b # c # d # s \<Rightarrow> utf8_cont b \<and> utf8_cont c \<and> utf8_cont d \<and> (a = 0xf0 \<longrightarrow> 0x90 \<le> b)
           \<and> (a = 0xf4 \<longrightarrow> b \<le> 0x8f) \<and> utf8_valid s | _ \<Rightarrow> False)
      else False)"

text \<open>The characters of \<open>char::is_whitespace\<close> in UTF-8, and \<open>str::trim\<close>. In UTF-8 text a sequence that
  matches at either end is a whole character.\<close>

definition white_space :: "u8 list list" where
  "white_space = [[0x09], [0x0a], [0x0b], [0x0c], [0x0d], [0x20], [0xc2, 0x85], [0xc2, 0xa0], [0xe1, 0x9a, 0x80],
     [0xe2, 0x80, 0x80], [0xe2, 0x80, 0x81], [0xe2, 0x80, 0x82], [0xe2, 0x80, 0x83], [0xe2, 0x80, 0x84],
     [0xe2, 0x80, 0x85], [0xe2, 0x80, 0x86], [0xe2, 0x80, 0x87], [0xe2, 0x80, 0x88], [0xe2, 0x80, 0x89],
     [0xe2, 0x80, 0x8a], [0xe2, 0x80, 0xa8], [0xe2, 0x80, 0xa9], [0xe2, 0x80, 0xaf], [0xe2, 0x81, 0x9f],
     [0xe3, 0x80, 0x80]]"

function strip_front :: "u8 list list \<Rightarrow> u8 list \<Rightarrow> u8 list" where
  "strip_front ws bs =
     (case find (\<lambda>w. w \<noteq> [] \<and> take (length w) bs = w) ws of
        None \<Rightarrow> bs
      | Some w \<Rightarrow> strip_front ws (drop (length w) bs))"
  by pat_completeness auto
termination
proof (relation "measure (\<lambda>(ws, bs). length bs)")
  fix ws w and bs :: "u8 list"
  assume "find (\<lambda>w. w \<noteq> [] \<and> take (length w) bs = w) ws = Some w"
  then have "w \<noteq> []" "take (length w) bs = w" by (auto simp: find_Some_iff)
  then have "0 < length w" "length w \<le> length bs" by (simp, metis length_take min.cobounded1)
  then show "((ws, drop (length w) bs), ws, bs) \<in> measure (\<lambda>(ws, bs). length bs)"
    by (cases w; cases bs) auto
qed simp

declare strip_front.simps [simp del]

definition str_trim :: "u8 list \<Rightarrow> u8 list" where
  "str_trim s = rev (strip_front (map rev white_space) (rev (strip_front white_space s)))"

lemma strip_front_suffix: "\<exists>p. bs = p @ strip_front ws bs"
proof (induction ws bs rule: strip_front.induct)
  case (1 ws bs)
  show ?case
  proof (cases "find (\<lambda>w. w \<noteq> [] \<and> take (length w) bs = w) ws")
    case None
    then show ?thesis by (simp add: strip_front.simps [of ws bs])
  next
    case (Some w)
    with 1 obtain p where "drop (length w) bs = p @ strip_front ws (drop (length w) bs)" by blast
    then have "bs = (take (length w) bs @ p) @ strip_front ws (drop (length w) bs)"
      by (metis append.assoc append_take_drop_id)
    with Some show ?thesis unfolding strip_front.simps [of ws bs] by (simp only: option.case(2)) blast
  qed
qed

lemma str_trim_length: "length (str_trim s) \<le> length s"
proof -
  obtain p where p: "s = p @ strip_front white_space s" using strip_front_suffix by blast
  obtain q where "rev (strip_front white_space s) = q @ strip_front (map rev white_space) (rev (strip_front white_space s))"
    using strip_front_suffix by blast
  then have "length (str_trim s) \<le> length (strip_front white_space s)"
    unfolding str_trim_def by (metis le_add2 length_append length_rev)
  moreover have "length (strip_front white_space s) \<le> length s" by (metis p le_add2 length_append)
  ultimately show ?thesis by simp
qed

section \<open>IP addresses\<close>

text \<open>\<open>IpAddr\<close>: four octets, or eight 16-bit segments.\<close>

datatype ip_addr = V4 u8 u8 u8 u8 | V6 u16 u16 u16 u16 u16 u16 u16 u16

fun is_unspecified :: "ip_addr \<Rightarrow> bool" where
  "is_unspecified (V4 a b c d) = (a = 0 \<and> b = 0 \<and> c = 0 \<and> d = 0)"
| "is_unspecified (V6 a b c d e f g h) = (list_all (\<lambda>s. s = 0) [a, b, c, d, e, f, g, h])"

fun is_loopback :: "ip_addr \<Rightarrow> bool" where
  "is_loopback (V4 a b c d) = (a = 127)"
| "is_loopback (V6 a b c d e f g h) = (list_all (\<lambda>s. s = 0) [a, b, c, d, e, f, g] \<and> h = 1)"

fun is_multicast :: "ip_addr \<Rightarrow> bool" where
  "is_multicast (V4 a b c d) = (224 \<le> a \<and> a \<le> 239)"
| "is_multicast (V6 a b c d e f g h) = (drop_bit 8 a = 0xff)"

fun is_broadcast_v4 :: "ip_addr \<Rightarrow> bool" where
  "is_broadcast_v4 (V4 a b c d) = (a = 255 \<and> b = 255 \<and> c = 255 \<and> d = 255)"
| "is_broadcast_v4 (V6 _ _ _ _ _ _ _ _) = False"

definition v4_text :: "u8 \<Rightarrow> u8 \<Rightarrow> u8 \<Rightarrow> u8 \<Rightarrow> u8 list" where
  "v4_text a b c d = decimal (unat a) @ str ''.'' @ decimal (unat b) @ str ''.''
     @ decimal (unat c) @ str ''.'' @ decimal (unat d)"

fun join_colon :: "u16 list \<Rightarrow> u8 list" where
  "join_colon [] = []"
| "join_colon [s] = hex_number (unat s)"
| "join_colon (s # ss) = hex_number (unat s) @ str '':'' @ join_colon ss"

text \<open>The first longest run of zero segments: \<open>(start, length)\<close> of the best and the current run.\<close>

fun zero_run :: "nat \<Rightarrow> nat \<times> nat \<Rightarrow> nat \<times> nat \<Rightarrow> u16 list \<Rightarrow> nat \<times> nat" where
  "zero_run i best cur [] = best"
| "zero_run i best cur (s # ss) =
     (if s = 0
      then let cur' = ((if snd cur = 0 then i else fst cur), snd cur + 1)
           in zero_run (i + 1) (if snd cur' > snd best then cur' else best) cur' ss
      else zero_run (i + 1) best (0, 0) ss)"

definition v6_text :: "u16 list \<Rightarrow> u8 list" where
  "v6_text ss =
     (if take 6 ss = [0, 0, 0, 0, 0, 0xffff]
      then str ''::ffff:'' @ v4_text (ucast (drop_bit 8 (ss ! 6))) (ucast (ss ! 6))
             (ucast (drop_bit 8 (ss ! 7))) (ucast (ss ! 7))
      else case zero_run 0 (0, 0) (0, 0) ss of (start, len) \<Rightarrow>
        if len > 1
        then join_colon (take start ss) @ str ''::'' @ join_colon (drop (start + len) ss)
        else join_colon ss)"

fun ip_text :: "ip_addr \<Rightarrow> u8 list" where
  "ip_text (V4 a b c d) = v4_text a b c d"
| "ip_text (V6 a b c d e f g h) = v6_text [a, b, c, d, e, f, g, h]"

end
