(* ===== verification/Csm.thy ===== *)
theory Csm
  imports Protocol Text "HOL-Library.Sublist"
begin

text \<open>
  iAP2 control-session messages (\<open>native/carplay/src/protocol/csm.rs\<close>): the parameter and
  message codec, the accessory identity and StartSession messages, and the authentication
  state machine.
\<close>

section \<open>Constants\<close>

definition START_IDENTIFICATION :: u16 where "START_IDENTIFICATION = 0x1d00"
definition IDENTIFICATION :: u16 where "IDENTIFICATION = 0x1d01"
definition IDENTIFICATION_ACCEPTED :: u16 where "IDENTIFICATION_ACCEPTED = 0x1d02"
definition IDENTIFICATION_REJECTED :: u16 where "IDENTIFICATION_REJECTED = 0x1d03"
definition REQUEST_CERTIFICATE :: u16 where "REQUEST_CERTIFICATE = 0xaa00"
definition CERTIFICATE :: u16 where "CERTIFICATE = 0xaa01"
definition REQUEST_SIGNATURE :: u16 where "REQUEST_SIGNATURE = 0xaa02"
definition SIGNATURE :: u16 where "SIGNATURE = 0xaa03"
definition AUTH_FAILED :: u16 where "AUTH_FAILED = 0xaa04"
definition AUTH_SUCCEEDED :: u16 where "AUTH_SUCCEEDED = 0xaa05"
definition AVAILABILITY :: u16 where "AVAILABILITY = 0x4300"
definition START_SESSION :: u16 where "START_SESSION = 0x4301"
definition MAX_MESSAGE :: nat where [consts_simps]: "MAX_MESSAGE = 65525"
definition MAX_PARAMS :: nat where [consts_simps]: "MAX_PARAMS = 64"

lemmas csm_ids = START_IDENTIFICATION_def IDENTIFICATION_def IDENTIFICATION_ACCEPTED_def
  IDENTIFICATION_REJECTED_def REQUEST_CERTIFICATE_def CERTIFICATE_def REQUEST_SIGNATURE_def
  SIGNATURE_def AUTH_FAILED_def AUTH_SUCCEEDED_def AVAILABILITY_def START_SESSION_def

section \<open>Parameters and messages\<close>

record parameter =
  par_id :: u16
  par_value :: "u8 list"

definition param_new :: "u16 \<Rightarrow> u8 list \<Rightarrow> parameter" where
  "param_new i v = \<lparr>par_id = i, par_value = v\<rparr>"

definition param_string :: "u16 \<Rightarrow> u8 list \<Rightarrow> proto_error + parameter" where
  "param_string i v =
     (if v = [] \<or> length v > 255 \<or> (\<exists>b \<in> set v. b = 0 \<or> b < 0x20) then Inl Bounds
      else Inr (param_new i (v @ [0])))"

text \<open>The loop of \<open>encode_parameters\<close> over its output buffer. The \<open>checked_add\<close> on the length
  of a vector cannot overflow: a vector holds at most \<open>isize::MAX\<close> bytes.\<close>

fun params_loop :: "u8 list \<Rightarrow> parameter list \<Rightarrow> proto_error + u8 list" where
  "params_loop bytes [] = Inr bytes"
| "params_loop bytes (p # ps) =
     (let len = length (par_value p) + 4 in
      if len > 65535 \<or> length bytes + len > MAX_MESSAGE - 6 then Inl Bounds
      else params_loop (bytes @ to_be16 (of_nat len) @ to_be16 (par_id p) @ par_value p) ps)"

definition encode_parameters :: "parameter list \<Rightarrow> proto_error + u8 list" where
  "encode_parameters ps = (if length ps > MAX_PARAMS then Inl Bounds else params_loop [] ps)"

definition param_group :: "u16 \<Rightarrow> parameter list \<Rightarrow> proto_error + parameter" where
  "param_group i ps = bindr (encode_parameters ps) (\<lambda>v. Inr (param_new i v))"

text \<open>The loop of \<open>decode_parameters\<close>; \<open>n\<close> counts the fields found before.\<close>

function fields_loop :: "nat \<Rightarrow> u8 list \<Rightarrow> proto_error + parameter list" where
  "fields_loop n bytes =
     (if bytes = [] then Inr []
      else if length bytes < 4 \<or> n = MAX_PARAMS then Inl Bounds
      else
        let len = unat (from_be16 (bytes ! 0) (bytes ! 1)) in
        if len < 4 \<or> len > length bytes then Inl Malformed
        else bindr (fields_loop (n + 1) (drop len bytes)) (\<lambda>fs.
          Inr (param_new (from_be16 (bytes ! 2) (bytes ! 3)) (take (len - 4) (drop 4 bytes)) # fs)))"
  by pat_completeness auto
termination
  by (relation "measure (\<lambda>(n, bytes). length bytes)") auto

declare fields_loop.simps [simp del]

definition decode_parameters :: "u8 list \<Rightarrow> proto_error + parameter list" where
  "decode_parameters bytes =
     (if length bytes > MAX_MESSAGE - 6 then Inl Bounds else fields_loop 0 bytes)"

record message =
  msg_id :: u16
  msg_params :: "parameter list"

definition msg_empty :: "u16 \<Rightarrow> message" where
  "msg_empty i = \<lparr>msg_id = i, msg_params = []\<rparr>"

definition msg_encode :: "message \<Rightarrow> proto_error + u8 list" where
  "msg_encode m =
     bindr (encode_parameters (msg_params m)) (\<lambda>ps.
       Inr ([0x40, 0x40] @ to_be16 (of_nat (length ps + 6)) @ to_be16 (msg_id m) @ ps))"

definition msg_decode :: "u8 list \<Rightarrow> proto_error + message" where
  "msg_decode bytes =
     (if \<not> (6 \<le> length bytes \<and> length bytes \<le> MAX_MESSAGE) then Inl Bounds
      else if take 2 bytes \<noteq> [0x40, 0x40]
        \<or> unat (from_be16 (bytes ! 2) (bytes ! 3)) \<noteq> length bytes then Inl Malformed
      else bindr (decode_parameters (drop 6 bytes)) (\<lambda>ps.
        Inr \<lparr>msg_id = from_be16 (bytes ! 4) (bytes ! 5), msg_params = ps\<rparr>))"

definition msg_one :: "message \<Rightarrow> u16 \<Rightarrow> proto_error + u8 list" where
  "msg_one m i =
     (case filter (\<lambda>p. par_id p = i) (msg_params m) of
        [] \<Rightarrow> Inl Malformed
      | [p] \<Rightarrow> Inr (par_value p)
      | _ \<Rightarrow> Inl Malformed)"

subsection \<open>Round trips\<close>

definition param_bytes :: "parameter \<Rightarrow> u8 list" where
  "param_bytes p = to_be16 (of_nat (length (par_value p) + 4)) @ to_be16 (par_id p) @ par_value p"

lemma length_param_bytes [simp]: "length (param_bytes p) = length (par_value p) + 4"
  by (simp add: param_bytes_def)

lemma params_loop_iff:
  "length acc \<le> MAX_MESSAGE - 6 \<Longrightarrow>
   params_loop acc ps = Inr bs \<longleftrightarrow>
     bs = acc @ concat (map param_bytes ps) \<and> length bs \<le> MAX_MESSAGE - 6"
proof (induction ps arbitrary: acc)
  case Nil
  then show ?case by auto
next
  case (Cons p ps)
  have eq: "acc @ to_be16 (of_nat (length (par_value p) + 4)) @ to_be16 (par_id p) @ par_value p
      = acc @ param_bytes p" by (simp add: param_bytes_def)
  show ?case
  proof (cases "length acc + (length (par_value p) + 4) > MAX_MESSAGE - 6")
    case True
    then show ?thesis by (auto simp: Let_def)
  next
    case False
    then have l: "length (acc @ param_bytes p) \<le> MAX_MESSAGE - 6" by simp
    from False have "\<not> length (par_value p) + 4 > 65535" by (simp add: MAX_MESSAGE_def)
    with False have "params_loop acc (p # ps) = params_loop (acc @ param_bytes p) ps"
      unfolding eq [symmetric] by (simp add: Let_def)
    with Cons.IH [OF l] show ?thesis by simp
  qed
qed

lemma encode_parameters_iff:
  "encode_parameters ps = Inr bs \<longleftrightarrow>
     bs = concat (map param_bytes ps) \<and> length ps \<le> MAX_PARAMS \<and> length bs \<le> MAX_MESSAGE - 6"
  by (auto simp: encode_parameters_def params_loop_iff)

lemma fields_loop_Nil [simp]: "fields_loop n [] = Inr []"
  by (simp add: fields_loop.simps)

lemma fields_loop_bytes:
  assumes "length (par_value p) + 4 \<le> 65535" and "n \<noteq> MAX_PARAMS"
  shows "fields_loop n (param_bytes p @ r) = bindr (fields_loop (n + 1) r) (\<lambda>fs. Inr (p # fs))"
proof -
  let ?b = "param_bytes p @ r"
  have l: "unat (from_be16 (?b ! 0) (?b ! 1)) = length (par_value p) + 4"
    using assms(1) by (simp add: param_bytes_def to_be16_def from_be16_parts)
  have i: "from_be16 (?b ! 2) (?b ! 3) = par_id p"
    by (simp add: param_bytes_def to_be16_def from_be16_parts)
  have v: "take (length (par_value p)) (drop 4 ?b) = par_value p"
    by (simp add: param_bytes_def to_be16_def)
  have d: "drop (length (par_value p) + 4) ?b = r" by (simp add: param_bytes_def)
  have ne: "?b \<noteq> []" by (simp add: param_bytes_def)
  have d4: "drop 4 (param_bytes p) = par_value p" by (simp add: param_bytes_def to_be16_def)
  have eta: "param_new (par_id p) (par_value p) = p" by (simp add: param_new_def)
  show ?thesis
    using assms(2) ne
    by (subst fields_loop.simps) (simp only: l i v d Let_def, simp add: d4 eta)
qed

lemma fields_loop_encoded:
  "n + length ps \<le> MAX_PARAMS \<Longrightarrow> length (concat (map param_bytes ps)) \<le> 65535 \<Longrightarrow>
   fields_loop n (concat (map param_bytes ps)) = Inr ps"
  by (induction ps arbitrary: n) (simp_all add: fields_loop_bytes)

lemma fields_loop_Inr:
  "n \<le> MAX_PARAMS \<Longrightarrow> fields_loop n bs = Inr ps \<Longrightarrow>
   bs = concat (map param_bytes ps) \<and> n + length ps \<le> MAX_PARAMS"
proof (induction n bs arbitrary: ps rule: fields_loop.induct)
  case (1 n bs)
  show ?case
  proof (cases "bs = []")
    case True
    with 1 show ?thesis by simp
  next
    case False
    let ?len = "unat (from_be16 (bs ! 0) (bs ! 1))"
    from 1(3) False have g: "4 \<le> length bs" "n \<noteq> MAX_PARAMS" "4 \<le> ?len" "?len \<le> length bs"
      by (auto simp: fields_loop.simps [of n bs] Let_def split: if_splits)
    from 1(3) False g obtain fs where fs: "fields_loop (n + 1) (drop ?len bs) = Inr fs"
      and ps: "ps = param_new (from_be16 (bs ! 2) (bs ! 3)) (take (?len - 4) (drop 4 bs)) # fs"
      by (auto simp: fields_loop.simps [of n bs] Let_def)
    have "\<not> (length bs < 4 \<or> n = MAX_PARAMS)" "\<not> (?len < 4 \<or> ?len > length bs)" using g by auto
    from 1(1) [OF False this(1) refl this(2) _ fs] 1(2) g(2)
    have IH: "drop ?len bs = concat (map param_bytes fs)" "n + 1 + length fs \<le> MAX_PARAMS" by auto
    from g(1) obtain a b c d r where bs: "bs = a # b # c # d # r" by (rule length_ge_4E)
    let ?p = "param_new (from_be16 c d) (take (?len - 4) r)"
    have l: "length (par_value ?p) + 4 = ?len" using g by (simp add: param_new_def bs)
    have "param_bytes ?p = [a, b, c, d] @ take (?len - 4) r"
      unfolding param_bytes_def l by (simp add: bs param_new_def to_from_be16)
    also have "\<dots> = take ?len bs" using g(3) by (simp add: bs take_Cons' numeral_eq_Suc)
    finally have "bs = param_bytes ?p @ drop ?len bs" by simp
    with IH ps show ?thesis by (simp add: bs)
  qed
qed

lemma msg_decode_encode: "msg_encode m = Inr bs \<Longrightarrow> msg_decode bs = Inr m"
proof -
  assume "msg_encode m = Inr bs"
  then obtain ps where ps: "encode_parameters (msg_params m) = Inr ps"
    and bs: "bs = [0x40, 0x40] @ to_be16 (of_nat (length ps + 6)) @ to_be16 (msg_id m) @ ps"
    by (auto simp: msg_encode_def)
  from ps have enc: "ps = concat (map param_bytes (msg_params m))"
    "length (msg_params m) \<le> MAX_PARAMS" "length ps \<le> 65519"
    by (auto simp: encode_parameters_iff MAX_MESSAGE_def)
  then have "decode_parameters ps = Inr (msg_params m)"
    using fields_loop_encoded [of 0 "msg_params m"] by (simp add: decode_parameters_def MAX_MESSAGE_def)
  with enc(3) show ?thesis
    by (simp add: msg_decode_def bs MAX_MESSAGE_def to_be16_def from_be16_parts)
qed

lemma msg_encode_decode: "msg_decode bs = Inr m \<Longrightarrow> msg_encode m = Inr bs"
proof -
  assume d: "msg_decode bs = Inr m"
  then have l: "6 \<le> length bs" "length bs \<le> 65525" "take 2 bs = [0x40, 0x40]"
    "unat (from_be16 (bs ! 2) (bs ! 3)) = length bs"
    by (auto simp: msg_decode_def MAX_MESSAGE_def split: if_splits)
  from d l obtain ps where ps: "decode_parameters (drop 6 bs) = Inr ps"
    and m: "m = \<lparr>msg_id = from_be16 (bs ! 4) (bs ! 5), msg_params = ps\<rparr>"
    by (auto simp: msg_decode_def split: if_splits)
  from ps fields_loop_Inr [of 0 "drop 6 bs" ps] have enc: "encode_parameters ps = Inr (drop 6 bs)"
    by (auto simp: encode_parameters_iff decode_parameters_def split: if_splits)
  from l(1) have "4 \<le> length bs" by simp
  then obtain a b c d r where bs4: "bs = a # b # c # d # r" by (rule length_ge_4E)
  with l(1) have "2 \<le> length r" by simp
  then obtain e f r' where r: "r = e # f # r'" by (rule length_ge_2E)
  have "to_be16 (of_nat (length r' + 6)) = [c, d]"
    using l(4) by (intro to_be16_of_length) (simp add: bs4 r)
  with l(3) enc show ?thesis
    by (simp add: msg_encode_def m bs4 r to_from_be16)
qed

section \<open>Identity and StartSession\<close>

text \<open>Strings are their UTF-8 bytes.\<close>

record accessory_identity =
  id_name :: "u8 list"
  id_model :: "u8 list"
  id_manufacturer :: "u8 list"
  id_serial :: "u8 list"
  id_firmware :: "u8 list"
  id_hardware :: "u8 list"
  id_language :: "u8 list"
  id_usb_interface :: u8

text \<open>The loop over the six descriptive strings, numbered from \<open>i\<close>.\<close>

fun string_params :: "nat \<Rightarrow> u8 list list \<Rightarrow> proto_error + parameter list" where
  "string_params i [] = Inr []"
| "string_params i (v # vs) =
     bindr (param_string (of_nat i) v) (\<lambda>p.
     bindr (string_params (i + 1) vs) (\<lambda>ps. Inr (p # ps)))"

definition wired_message :: "accessory_identity \<Rightarrow> proto_error + message" where
  "wired_message a =
     bindr (string_params 0 [id_name a, id_model a, id_manufacturer a, id_serial a, id_firmware a,
       id_hardware a]) (\<lambda>named.
     let sent = concat (map to_be16 [START_SESSION]);
         received = concat (map to_be16 [AVAILABILITY, 0x4e0e]) in
     bindr (param_string 12 (id_language a)) (\<lambda>l12.
     bindr (param_string 13 (id_language a)) (\<lambda>l13.
     bindr (param_string 1 (str ''Argo USB'')) (\<lambda>usb.
     bindr (param_group 16 [param_new 0 [0, 1], usb, param_new 2 [],
              param_new 3 [id_usb_interface a], param_new 4 []]) (\<lambda>component.
     Inr \<lparr>msg_id = IDENTIFICATION,
          msg_params = named @ [param_new 6 sent, param_new 7 received, param_new 8 [0],
            param_new 9 [0, 0], l12, l13, component]\<rparr>)))))"

datatype session_transport =
    Wired ip_addr
  | Wireless ip_addr "u8 list" "u8 list" u8

record start_session =
  ss_transport :: session_transport
  ss_port :: u16
  ss_device_identifier :: "u8 list"
  ss_public_key :: "u8 list"
  ss_source_version :: "u8 list"

fun transport_address :: "session_transport \<Rightarrow> ip_addr \<times> u16" where
  "transport_address (Wired address) = (address, 0)"
| "transport_address (Wireless address _ _ _) = (address, 1)"

fun network_params :: "session_transport \<Rightarrow> proto_error + parameter list" where
  "network_params (Wired address) =
     bindr (param_string 0 (ip_text address)) (\<lambda>p. Inr [p])"
| "network_params (Wireless address ssid passphrase channel) =
     (if length ssid > 32 \<or> \<not> (8 \<le> length passphrase \<and> length passphrase \<le> 63)
        \<or> channel = 0 \<or> channel > 196 then Inl Bounds
      else
        bindr (param_string 0 ssid) (\<lambda>p0.
        bindr (param_string 1 passphrase) (\<lambda>p1.
        bindr (param_string 3 (ip_text address)) (\<lambda>p3.
        Inr [p0, p1, param_new 2 [channel], p3, param_new 4 [2]]))))"

definition start_session_message :: "start_session \<Rightarrow> proto_error + message" where
  "start_session_message s =
     (if ss_port s = 0 then Inl Bounds
      else case transport_address (ss_transport s) of (address, transport) \<Rightarrow>
        if is_unspecified address \<or> is_loopback address \<or> is_multicast address
          \<or> is_broadcast_v4 address then Inl Bounds
        else
          bindr (network_params (ss_transport s)) (\<lambda>network.
          bindr (param_group transport network) (\<lambda>p0.
          bindr (param_string 3 (ss_device_identifier s)) (\<lambda>p3.
          bindr (param_string 4 (hex_string (ss_public_key s))) (\<lambda>p4.
          bindr (param_string 5 (ss_source_version s)) (\<lambda>p5.
          Inr \<lparr>msg_id = START_SESSION,
               msg_params = [p0, param_new 2 (to_be32 (ucast (ss_port s))), p3, p4, p5]\<rparr>))))))"

lemma param_string_Inr:
  "param_string i v = Inr p \<longleftrightarrow>
     v \<noteq> [] \<and> length v \<le> 255 \<and> (\<forall>b \<in> set v. b \<noteq> 0 \<and> 0x20 \<le> b) \<and> p = param_new i (v @ [0])"
  by (auto simp: param_string_def not_less not_le)

lemma string_params_Inr:
  "string_params i vs = Inr ps \<Longrightarrow>
     length ps = length vs \<and> (\<forall>k < length vs. param_string (of_nat (i + k)) (vs ! k) = Inr (ps ! k))"
proof (induction i vs arbitrary: ps rule: string_params.induct)
  case (2 i v vs)
  then obtain p qs where p: "param_string (of_nat i) v = Inr p"
    and q: "string_params (i + 1) vs = Inr qs" and ps: "ps = p # qs" by auto
  note IH = "2.IH" [OF q]
  show ?case
  proof (intro conjI allI impI)
    fix k
    assume "k < length (v # vs)"
    with IH p ps show "param_string (of_nat (i + k)) ((v # vs) ! k) = Inr (ps ! k)"
      by (cases k) auto
  qed (use IH ps in simp)
qed simp

text \<open>A message built from validated strings always fits the wire format.\<close>

lemma param_string_length: "param_string i v = Inr p \<Longrightarrow> length (par_value p) \<le> 256"
  by (auto simp: param_string_Inr param_new_def)

lemma param_bytes_sum:
  "\<forall>p \<in> set ps. length (par_value p) \<le> n \<Longrightarrow> length (concat (map param_bytes ps)) \<le> length ps * (n + 4)"
  by (induction ps) auto

lemma msg_encodable:
  assumes "\<forall>p \<in> set (msg_params m). length (par_value p) \<le> n"
    and "length (msg_params m) \<le> 64" and "length (msg_params m) * (n + 4) \<le> 65519"
  shows "\<exists>bs. msg_encode m = Inr bs"
  using param_bytes_sum [OF assms(1)] assms(2,3)
  by (simp add: msg_encode_def encode_parameters_iff consts_simps del: length_concat)

lemma group_length:
  assumes "param_group i ps = Inr p" and "\<forall>p \<in> set ps. length (par_value p) \<le> n"
  shows "length (par_value p) \<le> length ps * (n + 4)"
  using assms param_bytes_sum [OF assms(2)]
  by (auto simp: param_group_def encode_parameters_iff param_new_def simp del: length_concat)

lemma network_params_bounded:
  "network_params t = Inr ps \<Longrightarrow> length ps \<le> 5 \<and> (\<forall>p \<in> set ps. length (par_value p) \<le> 256)"
  by (cases t) (auto simp: param_new_def split: if_splits dest: param_string_length)

lemma start_session_encodes:
  assumes "start_session_message s = Inr m"
  shows "\<exists>bs. msg_encode m = Inr bs"
proof -
  from assms obtain address transport network p0 p3 p4 p5 where
    net: "network_params (ss_transport s) = Inr network"
    and p: "param_group transport network = Inr p0" "param_string 3 (ss_device_identifier s) = Inr p3"
      "param_string 4 (hex_string (ss_public_key s)) = Inr p4"
      "param_string 5 (ss_source_version s) = Inr p5"
    and m: "m = \<lparr>msg_id = START_SESSION,
               msg_params = [p0, param_new 2 (to_be32 (ucast (ss_port s))), p3, p4, p5]\<rparr>"
    by (auto simp: start_session_message_def split: if_splits prod.splits)
  have "length (par_value p0) \<le> length network * (256 + 4)"
    using group_length [OF p(1)] network_params_bounded [OF net] by blast
  also have "\<dots> \<le> 1300" using network_params_bounded [OF net] by simp
  finally have p0: "length (par_value p0) \<le> 1300" .
  show ?thesis
  proof (rule msg_encodable [of _ 1300])
    show "\<forall>p \<in> set (msg_params m). length (par_value p) \<le> 1300"
      using p0 p(2-4) [THEN param_string_length] by (auto simp: m param_new_def)
  qed (simp_all add: m)
qed

section \<open>Authentication\<close>

datatype auth_state =
    AwaitCertificateRequest
  | AwaitCertificate
  | AwaitChallenge
  | AwaitSignature
  | AwaitResult
  | Authenticated
  | Closed

datatype auth_action =
    ReadRealCertificate
  | SignWithRealCoprocessor "u8 list"
  | SendMessage message
  | Complete

record authentication =
  au_state :: auth_state
  au_deadline :: duration

definition auth_new :: "duration \<Rightarrow> authentication" where
  "auth_new now = \<lparr>au_state = AwaitCertificateRequest, au_deadline = sat_add now (from_secs 15)\<rparr>"

definition auth_fail :: "authentication \<Rightarrow> authentication" where
  "auth_fail a = a\<lparr>au_state := Closed\<rparr>"

definition check_deadline :: "authentication \<Rightarrow> duration \<Rightarrow> authentication \<times> (proto_error + unit)" where
  "check_deadline a now =
     (if au_state a = Closed then (a, Inl State)
      else if au_state a \<noteq> Authenticated \<and> now \<ge> au_deadline a then (auth_fail a, Inl Timeout)
      else (a, Inr ()))"

definition auth_reject :: "authentication \<Rightarrow> proto_error \<Rightarrow> authentication \<times> (proto_error + 'a)" where
  "auth_reject a e = (auth_fail a, Inl e)"

text \<open>The \<open>match\<close> of \<open>receive\<close>, in the order of its arms.\<close>

definition auth_receive ::
  "authentication \<Rightarrow> message \<Rightarrow> duration \<Rightarrow> authentication \<times> (proto_error + auth_action)" where
  "auth_receive a m now =
     (case check_deadline a now of
        (a, Inl e) \<Rightarrow> (a, Inl e)
      | (a, Inr _) \<Rightarrow>
          if msg_id m = AUTH_FAILED then (auth_fail a, Inl Rejected)
          else if au_state a = AwaitCertificateRequest \<and> msg_id m = REQUEST_CERTIFICATE
                  \<and> msg_params m = [] then
            (a\<lparr>au_state := AwaitCertificate\<rparr>, Inr ReadRealCertificate)
          else if au_state a = AwaitChallenge \<and> msg_id m = REQUEST_SIGNATURE then
            (case msg_one m 0 of
               Inl e \<Rightarrow> auth_reject a e
             | Inr challenge \<Rightarrow>
                 if length (msg_params m) \<noteq> 1 \<or> length challenge \<notin> {20, 32} then auth_reject a Bounds
                 else (a\<lparr>au_state := AwaitSignature\<rparr>, Inr (SignWithRealCoprocessor challenge)))
          else if au_state a = AwaitResult \<and> msg_id m = AUTH_SUCCEEDED \<and> msg_params m = [] then
            (a\<lparr>au_state := Authenticated\<rparr>, Inr Complete)
          else (auth_fail a, Inl State))"

definition auth_certificate ::
  "authentication \<Rightarrow> u8 list \<Rightarrow> duration \<Rightarrow> authentication \<times> (proto_error + auth_action)" where
  "auth_certificate a certificate now =
     (case check_deadline a now of
        (a, Inl e) \<Rightarrow> (a, Inl e)
      | (a, Inr _) \<Rightarrow>
          if au_state a \<noteq> AwaitCertificate then auth_reject a State
          else if certificate = [] \<or> length certificate > 8192 then auth_reject a Bounds
          else (a\<lparr>au_state := AwaitChallenge\<rparr>,
                Inr (SendMessage \<lparr>msg_id = CERTIFICATE, msg_params = [param_new 0 certificate]\<rparr>)))"

definition auth_signature ::
  "authentication \<Rightarrow> u8 list \<Rightarrow> duration \<Rightarrow> authentication \<times> (proto_error + auth_action)" where
  "auth_signature a signature now =
     (case check_deadline a now of
        (a, Inl e) \<Rightarrow> (a, Inl e)
      | (a, Inr _) \<Rightarrow>
          if au_state a \<noteq> AwaitSignature then auth_reject a State
          else if signature = [] \<or> length signature > 512 then auth_reject a Bounds
          else (a\<lparr>au_state := AwaitResult\<rparr>,
                Inr (SendMessage \<lparr>msg_id = SIGNATURE, msg_params = [param_new 0 signature]\<rparr>)))"

text \<open>Every call the session can make, in any order.\<close>

datatype auth_op =
    OpReceive message duration
  | OpCertificate "u8 list" duration
  | OpSignature "u8 list" duration
  | OpCheck duration
  | OpFail

fun auth_step :: "authentication \<Rightarrow> auth_op \<Rightarrow> authentication \<times> (proto_error + auth_action option)" where
  "auth_step a (OpReceive m now) = map_prod id (map_sum id Some) (auth_receive a m now)"
| "auth_step a (OpCertificate c now) = map_prod id (map_sum id Some) (auth_certificate a c now)"
| "auth_step a (OpSignature s now) = map_prod id (map_sum id Some) (auth_signature a s now)"
| "auth_step a (OpCheck now) = map_prod id (map_sum id (\<lambda>_. None)) (check_deadline a now)"
| "auth_step a OpFail = (auth_fail a, Inr None)"

lemmas auth_defs = auth_receive_def auth_certificate_def auth_signature_def check_deadline_def
  auth_reject_def auth_fail_def

lemma auth_closed_step: "au_state a = Closed \<Longrightarrow> fst (auth_step a op) = a"
  by (cases op) (auto simp: auth_defs)

lemma auth_deadline_step: "au_deadline (fst (auth_step a op)) = au_deadline a"
  by (cases op) (auto simp: auth_defs split: sum.splits)

interpretation auth_machine: absorbing_machine auth_step "\<lambda>_. True" "\<lambda>a. au_state a = Closed"
  by unfold_locales (simp_all add: auth_closed_step)

text \<open>
  The handshake so far: the calls that made progress, in order, with the instants at which
  they were made. \<open>hist a ops d\<close> says that the machine in state \<open>a\<close> has seen \<open>ops\<close>, among them
  the calls its state stands for, each before the deadline \<open>d\<close>.
\<close>

definition is_challenge :: "message \<Rightarrow> bool" where
  "is_challenge m \<longleftrightarrow> msg_id m = REQUEST_SIGNATURE \<and>
     (\<exists>ch. msg_params m = [param_new 0 ch] \<and> length ch \<in> {20, 32})"

fun good_call :: "duration \<Rightarrow> nat \<Rightarrow> auth_op \<Rightarrow> bool" where
  "good_call d n (OpReceive m t) =
     (t < d \<and> (n = 0 \<and> m = msg_empty REQUEST_CERTIFICATE \<or> n = 2 \<and> is_challenge m
               \<or> n = 4 \<and> m = msg_empty AUTH_SUCCEEDED))"
| "good_call d n (OpCertificate c t) = (n = 1 \<and> c \<noteq> [] \<and> length c \<le> 8192 \<and> t < d)"
| "good_call d n (OpSignature s t) = (n = 3 \<and> s \<noteq> [] \<and> length s \<le> 512 \<and> t < d)"
| "good_call d n _ = False"

fun stage :: "auth_state \<Rightarrow> nat" where
  "stage AwaitCertificateRequest = 0"
| "stage AwaitCertificate = 1"
| "stage AwaitChallenge = 2"
| "stage AwaitSignature = 3"
| "stage AwaitResult = 4"
| "stage Authenticated = 5"
| "stage Closed = 0"

definition handshake :: "duration \<Rightarrow> auth_state \<Rightarrow> auth_op list \<Rightarrow> bool" where
  "handshake d st hs \<longleftrightarrow>
     (st \<noteq> Closed \<longrightarrow> length hs = stage st \<and> (\<forall>i < length hs. good_call d i (hs ! i)))"

lemma good_call_iff:
  "good_call d 0 h \<longleftrightarrow> (\<exists>t. h = OpReceive (msg_empty REQUEST_CERTIFICATE) t \<and> t < d)"
  "good_call d (Suc 0) h \<longleftrightarrow> (\<exists>c t. h = OpCertificate c t \<and> c \<noteq> [] \<and> length c \<le> 8192 \<and> t < d)"
  "good_call d 2 h \<longleftrightarrow> (\<exists>m t. h = OpReceive m t \<and> is_challenge m \<and> t < d)"
  "good_call d 3 h \<longleftrightarrow> (\<exists>s t. h = OpSignature s t \<and> s \<noteq> [] \<and> length s \<le> 512 \<and> t < d)"
  "good_call d 4 h \<longleftrightarrow> (\<exists>t. h = OpReceive (msg_empty AUTH_SUCCEEDED) t \<and> t < d)"
  by (cases h; auto)+

lemma handshake_snoc:
  "handshake d st hs \<Longrightarrow> st \<noteq> Closed \<Longrightarrow> good_call d (stage st) op \<Longrightarrow> stage st' = Suc (stage st) \<Longrightarrow>
   handshake d st' (hs @ [op])"
  by (auto simp: handshake_def nth_append less_Suc_eq)

lemma msg_one_single:
  "msg_one m 0 = Inr ch \<Longrightarrow> length (msg_params m) = 1 \<Longrightarrow> msg_params m = [param_new 0 ch]"
  by (cases m; cases "msg_params m")
    (auto simp: msg_one_def param_new_def split: list.splits if_splits)

lemma auth_step_progress:
  "au_state (fst (auth_step a op)) \<in> {au_state a, Closed}
   \<or> (au_state a \<noteq> Closed \<and> good_call (au_deadline a) (stage (au_state a)) op
      \<and> stage (au_state (fst (auth_step a op))) = Suc (stage (au_state a)))"
proof (cases op)
  case (OpReceive m now)
  have m0: "msg_params m = [] \<Longrightarrow> m = msg_empty (msg_id m)" by (cases m) (simp add: msg_empty_def)
  then show ?thesis using OpReceive
    by (cases "au_state a")
      (auto simp: auth_defs is_challenge_def dest: msg_one_single split: sum.splits)
qed (cases "au_state a", auto simp: auth_defs)+

lemma handshake_step:
  assumes "handshake (au_deadline a) (au_state a) hs"
  shows "\<exists>hs' \<in> {hs, hs @ [op]}. handshake (au_deadline a) (au_state (fst (auth_step a op))) hs'"
  using auth_step_progress [of a op] handshake_snoc [OF assms] assms
  by (auto simp: handshake_def)

lemma handshake_run:
  "\<exists>hs. subseq hs ops \<and>
     handshake (sat_add t0 (from_secs 15)) (au_state (fst (run_machine auth_step (auth_new t0) ops))) hs
     \<and> au_deadline (fst (run_machine auth_step (auth_new t0) ops)) = sat_add t0 (from_secs 15)"
proof (induction ops rule: rev_induct)
  case Nil
  then show ?case by (auto simp: auth_new_def handshake_def)
next
  case (snoc op ops)
  let ?a = "fst (run_machine auth_step (auth_new t0) ops)"
  from snoc obtain hs where hs: "subseq hs ops" "handshake (au_deadline ?a) (au_state ?a) hs"
    "au_deadline ?a = sat_add t0 (from_secs 15)" by auto
  from handshake_step [OF hs(2), of op] obtain hs' where
    "hs' \<in> {hs, hs @ [op]}" "handshake (au_deadline ?a) (au_state (fst (auth_step ?a op))) hs'" by auto
  moreover from this(1) hs(1) have "subseq hs' (ops @ [op])"
    by (auto intro: list_emb_append2 subseq_append_iff [THEN iffD2] list_emb_append_mono)
  ultimately show ?case
    using hs(3) by (auto simp: run_machine_append run_machine_Cons auth_deadline_step
        simp del: run_machine.simps(2) intro!: exI [of _ hs'])
qed

lemma auth_error_closes: "snd (auth_step a op) = Inl e \<Longrightarrow> au_state (fst (auth_step a op)) = Closed"
  by (cases op) (auto simp: auth_defs split: sum.splits if_splits)

lemma auth_closed_answer: "au_state a = Closed \<Longrightarrow> op \<noteq> OpFail \<Longrightarrow> snd (auth_step a op) = Inl State"
  by (cases op) (auto simp: auth_defs)

section \<open>Properties\<close>

text \<open>C39. Message encoding and decoding are inverse to each other: a control message has exactly
  one wire form, with at most 64 parameters and 65525 bytes, and every byte string the decoder
  accepts is that form (no trailing byte is ignored).\<close>

theorem csm_codec_bijective: "msg_encode m = Inr bs \<longleftrightarrow> msg_decode bs = Inr m"
  using msg_decode_encode msg_encode_decode by blast

text \<open>C3. A session authenticates only through the complete exchange: if any sequence of calls
  ends authenticated then, in this order and each before the 15 second deadline, the phone asked
  for the certificate, a non-empty certificate was supplied, the phone sent a 20- or 32-byte
  challenge, a non-empty signature was supplied and the phone confirmed.\<close>

theorem authentication_needs_exchange:
  assumes "au_state (fst (run_machine auth_step (auth_new t0) ops)) = Authenticated"
  shows "\<exists>t1 c t2 m t3 s t4 t5.
     subseq [OpReceive (msg_empty REQUEST_CERTIFICATE) t1, OpCertificate c t2, OpReceive m t3,
             OpSignature s t4, OpReceive (msg_empty AUTH_SUCCEEDED) t5] ops
     \<and> is_challenge m \<and> c \<noteq> [] \<and> length c \<le> 8192 \<and> s \<noteq> [] \<and> length s \<le> 512
     \<and> list_all (\<lambda>t. t < sat_add t0 (from_secs 15)) [t1, t2, t3, t4, t5]"
proof -
  let ?d = "sat_add t0 (from_secs 15)"
  from handshake_run [of ops t0] assms obtain hs where hs: "subseq hs ops" "length hs = 5"
    and good: "\<forall>i < 5. good_call ?d i (hs ! i)"
    by (auto simp: handshake_def)
  from hs(2) obtain h0 h1 h2 h3 h4 where l: "hs = [h0, h1, h2, h3, h4]"
    by (auto simp: length_Suc_conv numeral_eq_Suc)
  have "good_call ?d 0 h0" "good_call ?d (Suc 0) h1" "good_call ?d 2 h2" "good_call ?d 3 h3" "good_call ?d 4 h4"
    using good [rule_format, of 0] good [rule_format, of 1] good [rule_format, of 2]
      good [rule_format, of 3] good [rule_format, of 4] by (simp_all add: l)
  with hs(1) show ?thesis unfolding good_call_iff l by (elim exE conjE) (simp, blast)
qed

theorem authentication_needs_exchange_witness:
  "\<exists>t1 c t2 m t3 s t4 t5.
     subseq [OpReceive (msg_empty REQUEST_CERTIFICATE) t1, OpCertificate c t2, OpReceive m t3,
             OpSignature s t4, OpReceive (msg_empty AUTH_SUCCEEDED) t5]
       [OpReceive (msg_empty REQUEST_CERTIFICATE) 1, OpCheck 2, OpCertificate [42] 3,
        OpReceive \<lparr>msg_id = REQUEST_SIGNATURE, msg_params = [param_new 0 (replicate 20 7)]\<rparr> 4,
        OpSignature [9] 5, OpReceive (msg_empty AUTH_SUCCEEDED) 6]"
proof -
  let ?ops = "[OpReceive (msg_empty REQUEST_CERTIFICATE) 1, OpCheck 2, OpCertificate [42] 3,
        OpReceive \<lparr>msg_id = REQUEST_SIGNATURE, msg_params = [param_new 0 (replicate 20 7)]\<rparr> 4,
        OpSignature [9] 5, OpReceive (msg_empty AUTH_SUCCEEDED) 6]"
  have "au_state (fst (run_machine auth_step (auth_new 0) ?ops)) = Authenticated"
    by (simp add: auth_defs auth_new_def csm_ids msg_empty_def msg_one_def param_new_def sat_add_def
        from_secs_def duration_max_def)
  from authentication_needs_exchange [OF this] show ?thesis by blast
qed

text \<open>C25. Failure is final: after any call that returned an error, every later call that is not
  another \<open>fail\<close> is answered with \<open>Error::State\<close>, so no cached result revives the session.\<close>

theorem authentication_error_final:
  assumes "i < j" and "j < length ops"
    and "snd (run_machine auth_step a ops) ! i = Inl e" and "ops ! j \<noteq> OpFail"
  shows "snd (run_machine auth_step a ops) ! j = Inl State"
proof -
  have "au_state (fst (run_machine auth_step a (take (Suc i) ops))) = Closed"
    using assms by (simp add: run_machine_take_Suc run_machine_nth auth_error_closes)
  then have "au_state (fst (run_machine auth_step a (take j ops))) = Closed"
    using assms(1) auth_machine.dead_run by (simp add: run_machine_take [of "Suc i" j])
  then show ?thesis using assms by (simp add: run_machine_nth auth_closed_answer)
qed

theorem authentication_error_final_witness:
  "snd (run_machine auth_step (auth_new 0) [OpSignature [1] 0, OpCheck 1]) ! 1 = Inl State"
  by (rule authentication_error_final [where i = 0 and e = State]) (simp_all add: auth_defs auth_new_def
      sat_add_def from_secs_def duration_max_def)

text \<open>A StartSession message the host builds always fits the wire: whenever the settings are
  accepted, encoding the message succeeds.\<close>

theorem start_session_fits:
  assumes "start_session_message s = Inr m"
  shows "\<exists>bs. msg_encode m = Inr bs \<and> msg_decode bs = Inr m"
  using start_session_encodes [OF assms] msg_decode_encode by blast

theorem start_session_fits_witness:
  "\<exists>bs. msg_encode (projr (start_session_message \<lparr>ss_transport = Wired (V4 192 168 9 1), ss_port = 7000,
      ss_device_identifier = str ''a'', ss_public_key = [0xab], ss_source_version = str ''1''\<rparr>)) = Inr bs"
proof -
  let ?s = "\<lparr>ss_transport = Wired (V4 192 168 9 1), ss_port = 7000,
      ss_device_identifier = str ''a'', ss_public_key = [0xab], ss_source_version = str ''1''\<rparr>"
  have "is_ok (start_session_message ?s)"
    by (simp add: start_session_message_def param_string_def str_def v4_text_def decimal_def
        digits.simps hex_digit_def hex_string_def hex2_def param_group_def encode_parameters_def
        param_new_def consts_simps)
  then obtain m where "start_session_message ?s = Inr m" by (auto simp: is_ok_iff)
  from start_session_fits [OF this] this show ?thesis by auto
qed

end
