(* ===== verification/Byte_Stream.thy ===== *)
theory Byte_Stream
  imports Prelude
begin

text \<open>
  A connected byte stream (\<open>AsyncRead + AsyncWrite\<close>) as its user sees it: the bytes the peer will
  deliver before the connection ends, how it ends, the bytes written so far and how many more
  the peer accepts. \<open>Stalled\<close> is the end of a stream that stays open but delivers nothing:
  the operation never completes, and the timer around it decides.
\<close>

datatype io_kind = UnexpectedEof | TimedOut | Stalled | OtherIo nat

record byte_stream =
  rx :: "u8 list"
  rx_end :: io_kind
  tx :: "u8 list"
  tx_room :: nat

text \<open>\<open>read_exact\<close> of \<open>n\<close> bytes: the missing bytes are reported, not invented.\<close>

definition read_exact :: "nat \<Rightarrow> byte_stream \<Rightarrow> byte_stream \<times> (io_kind + u8 list)" where
  "read_exact n s =
     (if n \<le> length (rx s) then (s\<lparr>rx := drop n (rx s)\<rparr>, Inr (take n (rx s)))
      else (s\<lparr>rx := []\<rparr>, Inl (rx_end s)))"

definition write_all :: "u8 list \<Rightarrow> byte_stream \<Rightarrow> byte_stream \<times> (io_kind + unit)" where
  "write_all bs s =
     (if length bs \<le> tx_room s
      then (s\<lparr>tx := tx s @ bs, tx_room := tx_room s - length bs\<rparr>, Inr ())
      else (s\<lparr>tx := tx s @ take (tx_room s) bs, tx_room := 0\<rparr>, Inl (OtherIo 0)))"

lemma read_exact_Inr:
  "read_exact n s = (s', Inr bs) \<longleftrightarrow>
     n \<le> length (rx s) \<and> bs = take n (rx s) \<and> s' = s\<lparr>rx := drop n (rx s)\<rparr>"
  by (auto simp: read_exact_def)

lemma write_all_Inr:
  "write_all bs s = (s', Inr u) \<longleftrightarrow>
     length bs \<le> tx_room s \<and> s' = s\<lparr>tx := tx s @ bs, tx_room := tx_room s - length bs\<rparr>"
  by (auto simp: write_all_def)

lemma read_exact_shrinks: "length (rx (fst (read_exact n s))) \<le> length (rx s)"
  by (simp add: read_exact_def)

lemma read_exact_enough:
  "rx s = bs @ r \<Longrightarrow> n = length bs \<Longrightarrow> read_exact n s = (s\<lparr>rx := r\<rparr>, Inr bs)"
  by (simp add: read_exact_def)

lemma write_all_rx [simp]: "rx (fst (write_all bs s)) = rx s"
  by (simp add: write_all_def)

end
