(* ===== verification/Link.thy ===== *)
theory Link
  imports Byte_Stream
begin

text \<open>
  The client of the remote MFi coprocessor service (\<open>native/carplay/src/link.rs\<close>): one
  connection that is reused while it is healthy, dropped on every error, with the public
  certificate cached for the life of the connection.
\<close>

definition MFI_PORT :: u16 where "MFI_PORT = 5000"
definition WIFI_PORT :: u16 where "WIFI_PORT = 5001"
definition MAX_CERTIFICATE :: nat where [consts_simps]: "MAX_CERTIFICATE = 4096"
definition MAX_SIGNATURE :: nat where [consts_simps]: "MAX_SIGNATURE = 512"
definition MAX_CHALLENGE :: nat where [consts_simps]: "MAX_CHALLENGE = 128"

datatype link_invalid = ConfigurationBounds | PayloadLength | ProtocolGeneration | ChallengeLength

datatype link_error = LkBusy | LkTimeout | LkIo io_kind | LkInvalid link_invalid | LkRemote

fun link_from_io :: "io_kind \<Rightarrow> link_error" where
  "link_from_io TimedOut = LkTimeout"
| "link_from_io k = LkIo k"

record link_config =
  lc_mfi_port :: u16
  lc_wifi_port :: u16
  lc_deadline :: duration

definition link_config_default :: link_config where
  "link_config_default = \<lparr>lc_mfi_port = MFI_PORT, lc_wifi_port = WIFI_PORT, lc_deadline = from_secs 5\<rparr>"

record mfi_connection =
  mc_socket :: byte_stream
  mc_certificate :: "u8 list option"

record link_client =
  lk_config :: link_config
  lk_connection :: "mfi_connection option"

definition link_new :: "link_config \<Rightarrow> link_error + link_client" where
  "link_new c =
     (if lc_deadline c = 0 \<or> lc_deadline c > from_secs 30 \<or> lc_mfi_port c = 0 \<or> lc_wifi_port c = 0
      then Inl (LkInvalid ConfigurationBounds)
      else Inr \<lparr>lk_config = c, lk_connection = None\<rparr>)"

text \<open>
  What the surroundings decide for one request: whether another operation holds the permit,
  the outcome of resolving and connecting if that is attempted, and how long the
  exchange takes.
\<close>

record link_env =
  le_busy :: bool
  le_connect :: "link_error + byte_stream"
  le_elapsed :: duration

text \<open>The exchange inside \<open>deadline\<close>, on the connection it owns.\<close>

definition mfi_exchange ::
  "u8 list \<Rightarrow> nat \<Rightarrow> mfi_connection \<Rightarrow> mfi_connection \<times> (link_error + u8 list)" where
  "mfi_exchange bytes maximum c =
     (case write_all bytes (mc_socket c) of
        (s, Inl e) \<Rightarrow> (c\<lparr>mc_socket := s\<rparr>, Inl (link_from_io e))
      | (s, Inr _) \<Rightarrow>
     (case read_exact 3 s of
        (s, Inl e) \<Rightarrow> (c\<lparr>mc_socket := s\<rparr>, Inl (link_from_io e))
      | (s, Inr h) \<Rightarrow>
          if h ! 0 \<noteq> 0 then (c\<lparr>mc_socket := s\<rparr>, Inl LkRemote)
          else
            let size = unat (from_be16 (h ! 1) (h ! 2)) in
            if size = 0 \<or> size > maximum then (c\<lparr>mc_socket := s\<rparr>, Inl (LkInvalid PayloadLength))
            else
     (case read_exact size s of
        (s, Inl e) \<Rightarrow> (c\<lparr>mc_socket := s\<rparr>, Inl (link_from_io e))
      | (s, Inr body) \<Rightarrow>
          if bytes = [3] \<and> body \<noteq> [2] \<and> body \<noteq> [3]
          then (c\<lparr>mc_socket := s\<rparr>, Inl (LkInvalid ProtocolGeneration))
          else (c\<lparr>mc_socket := s,
                  mc_certificate := (if bytes = [1] then Some body else mc_certificate c)\<rparr>, Inr body))))"

text \<open>\<open>request\<close>: the connection is taken out before the exchange and put back only on success. An
  exchange that stalls, or that lasts past the deadline, times out.\<close>

definition link_request ::
  "link_client \<Rightarrow> link_env \<Rightarrow> u8 list \<Rightarrow> nat \<Rightarrow> bool \<Rightarrow> link_client \<times> (link_error + u8 list)" where
  "link_request k env bytes maximum cached =
     (if le_busy env then (k, Inl LkBusy)
      else case (if cached then Option.bind (lk_connection k) mc_certificate else None) of
        Some certificate \<Rightarrow> (k, Inr certificate)
      | None \<Rightarrow>
          let owned = (case lk_connection k of
                Some c \<Rightarrow> Inr c
              | None \<Rightarrow> bindr (le_connect env) (\<lambda>s. Inr \<lparr>mc_socket = s, mc_certificate = None\<rparr>));
              k = k\<lparr>lk_connection := None\<rparr> in
          if le_elapsed env > lc_deadline (lk_config k) then (k, Inl LkTimeout)
          else case owned of
            Inl e \<Rightarrow> (k, Inl e)
          | Inr c \<Rightarrow>
              (case mfi_exchange bytes maximum c of
                 (c, Inl e) \<Rightarrow> (k, Inl (if e = LkIo Stalled then LkTimeout else e))
               | (c, Inr body) \<Rightarrow> (k\<lparr>lk_connection := Some c\<rparr>, Inr body)))"

definition link_certificate :: "link_client \<Rightarrow> link_env \<Rightarrow> link_client \<times> (link_error + u8 list)" where
  "link_certificate k env = link_request k env [1] MAX_CERTIFICATE False"

definition authentication_certificate ::
  "link_client \<Rightarrow> link_env \<Rightarrow> link_client \<times> (link_error + u8 list)" where
  "authentication_certificate k env = link_request k env [1] MAX_CERTIFICATE True"

definition sign_request :: "u8 list \<Rightarrow> u8 list" where
  "sign_request challenge = [2] @ to_be16 (of_nat (length challenge)) @ challenge"

definition link_sign :: "link_client \<Rightarrow> link_env \<Rightarrow> u8 list \<Rightarrow> link_client \<times> (link_error + u8 list)" where
  "link_sign k env challenge =
     (if challenge = [] \<or> length challenge > MAX_CHALLENGE then (k, Inl (LkInvalid ChallengeLength))
      else link_request k env (sign_request challenge) MAX_SIGNATURE False)"

definition protocol_major :: "link_client \<Rightarrow> link_env \<Rightarrow> link_client \<times> (link_error + u8)" where
  "protocol_major k env =
     (case link_request k env [3] 1 False of
        (k, Inl e) \<Rightarrow> (k, Inl e)
      | (k, Inr reply) \<Rightarrow>
          (k, if reply ! 0 \<in> {2, 3} then Inr (reply ! 0) else Inl (LkInvalid ProtocolGeneration)))"

section \<open>What a successful request delivers\<close>

lemma mfi_exchange_Inr:
  "mfi_exchange bytes maximum c = (c', Inr body) \<Longrightarrow>
     \<exists>h s. rx (mc_socket c) = [0, h, s] @ body @ rx (mc_socket c')
       \<and> length body = unat (from_be16 h s) \<and> 0 < length body \<and> length body \<le> maximum
       \<and> tx (mc_socket c') = tx (mc_socket c) @ bytes
       \<and> mc_certificate c' = (if bytes = [1] then Some body else mc_certificate c)
       \<and> (bytes = [3] \<longrightarrow> body = [2] \<or> body = [3])"
proof -
  assume a: "mfi_exchange bytes maximum c = (c', Inr body)"
  then have l: "3 \<le> length (rx (mc_socket c))"
    by (auto simp: mfi_exchange_def read_exact_def write_all_def split: prod.splits if_splits sum.splits)
  then obtain x y z r where r: "rx (mc_socket c) = x # y # z # r"
    by (metis length_ge_Cons numeral_3_eq_3)
  let ?n = "unat (from_be16 y z)"
  from a r have "x = 0 \<and> body = take ?n r \<and> ?n \<le> length r \<and> 0 < ?n \<and> ?n \<le> maximum
      \<and> rx (mc_socket c') = drop ?n r \<and> tx (mc_socket c') = tx (mc_socket c) @ bytes
      \<and> mc_certificate c' = (if bytes = [1] then Some body else mc_certificate c)
      \<and> (bytes = [3] \<longrightarrow> body = [2] \<or> body = [3])"
    by (auto simp: mfi_exchange_def read_exact_def write_all_def Let_def split: prod.splits if_splits sum.splits)
  moreover from this have "length body = ?n" "r = body @ drop ?n r" by auto
  ultimately have "rx (mc_socket c) = [0, y, z] @ body @ rx (mc_socket c')
       \<and> length body = ?n \<and> 0 < length body \<and> length body \<le> maximum
       \<and> tx (mc_socket c') = tx (mc_socket c) @ bytes
       \<and> mc_certificate c' = (if bytes = [1] then Some body else mc_certificate c)
       \<and> (bytes = [3] \<longrightarrow> body = [2] \<or> body = [3])"
    using r by (metis append_Cons append_Nil)
  then show ?thesis by blast
qed

text \<open>The connection kept by the client never carries a partial reply.\<close>

definition link_inv :: "link_client \<Rightarrow> bool" where
  "link_inv k \<longleftrightarrow> (case Option.bind (lk_connection k) mc_certificate of
      None \<Rightarrow> True | Some c \<Rightarrow> c \<noteq> [] \<and> length c \<le> MAX_CERTIFICATE)"

lemma link_request_error_drops:
  "link_request k env bytes maximum cached = (k', Inl e) \<Longrightarrow> e \<noteq> LkBusy \<Longrightarrow> lk_connection k' = None"
  by (auto simp: link_request_def Let_def split: if_splits prod.splits sum.splits option.splits)

lemma link_request_cached:
  "\<not> le_busy env \<Longrightarrow> Option.bind (lk_connection k) mc_certificate = Some c \<Longrightarrow>
   link_request k env bytes maximum True = (k, Inr c)"
  by (simp add: link_request_def)

lemma link_request_bounded:
  "link_inv k \<Longrightarrow> link_request k env bytes maximum cached = (k', Inr body) \<Longrightarrow>
     (cached \<longrightarrow> bytes = [1] \<and> maximum = MAX_CERTIFICATE) \<Longrightarrow> bytes = [1] \<longrightarrow> maximum = MAX_CERTIFICATE \<Longrightarrow>
     0 < length body \<and> length body \<le> maximum \<and> link_inv k'"
  by (auto simp: link_request_def link_inv_def Let_def bind_eq_Some_conv
      split: if_splits prod.splits sum.splits option.splits dest!: mfi_exchange_Inr)

section \<open>Properties\<close>

text \<open>A signature is never served from memory: when \<open>sign\<close> succeeds, the request with this
  challenge went out on the connection (the healthy one, or a new one), the signature is the body
  of the service's reply to it, of 1 to 512 bytes, and the reply was read to its end.\<close>

theorem link_sign_fresh:
  assumes "link_sign k env challenge = (k', Inr signature)"
  shows "\<exists>before after h l.
     (case lk_connection k of Some c \<Rightarrow> mc_socket c = before | None \<Rightarrow> le_connect env = Inr before)
     \<and> map_option mc_socket (lk_connection k') = Some after
     \<and> tx after = tx before @ sign_request challenge
     \<and> rx before = [0, h, l] @ signature @ rx after \<and> length signature = unat (from_be16 h l)
     \<and> 0 < length signature \<and> length signature \<le> 512"
proof -
  have "\<exists>c c'. (case lk_connection k of Some c0 \<Rightarrow> c = c0 | None \<Rightarrow> le_connect env = Inr (mc_socket c))
      \<and> mfi_exchange (sign_request challenge) MAX_SIGNATURE c = (c', Inr signature)
      \<and> lk_connection k' = Some c'"
  proof (cases "lk_connection k")
    case None
    with assms obtain s where "le_connect env = Inr s"
      "snd (mfi_exchange (sign_request challenge) MAX_SIGNATURE \<lparr>mc_socket = s, mc_certificate = None\<rparr>) = Inr signature"
      "lk_connection k' = Some (fst (mfi_exchange (sign_request challenge) MAX_SIGNATURE
         \<lparr>mc_socket = s, mc_certificate = None\<rparr>))"
      by (auto simp: link_sign_def link_request_def Let_def split: if_splits sum.splits prod.splits)
    with None show ?thesis
      by (intro exI [of _ "\<lparr>mc_socket = s, mc_certificate = None\<rparr>"]
          exI [of _ "fst (mfi_exchange (sign_request challenge) MAX_SIGNATURE
            \<lparr>mc_socket = s, mc_certificate = None\<rparr>)"]) (simp add: prod_eq_iff)
  next
    case (Some c)
    with assms show ?thesis
      by (auto simp: link_sign_def link_request_def Let_def split: if_splits sum.splits prod.splits)
  qed
  then obtain c c' where
    c: "case lk_connection k of Some c0 \<Rightarrow> c = c0 | None \<Rightarrow> le_connect env = Inr (mc_socket c)"
    and x: "mfi_exchange (sign_request challenge) MAX_SIGNATURE c = (c', Inr signature)"
    and k': "lk_connection k' = Some c'" by blast
  from mfi_exchange_Inr [OF x] c k' show ?thesis
    by (intro exI [of _ "mc_socket c"] exI [of _ "mc_socket c'"])
      (auto simp: MAX_SIGNATURE_def split: option.splits)
qed

definition wit_env :: link_env where
  "wit_env = \<lparr>le_busy = False, le_connect = Inr \<lparr>rx = [0, 0, 1, 77], rx_end = Stalled, tx = [], tx_room = 99\<rparr>,
     le_elapsed = 1\<rparr>"

definition wit_client :: link_client where
  "wit_client = \<lparr>lk_config = link_config_default, lk_connection = None\<rparr>"

theorem link_sign_fresh_witness:
  "\<exists>before h l. le_connect wit_env = Inr before \<and> (\<exists>r. rx before = [0, h, l] @ [77] @ r)"
proof -
  have "snd (link_sign wit_client wit_env [5]) = Inr [77]"
    by (simp add: wit_client_def wit_env_def link_sign_def link_request_def mfi_exchange_def read_exact_def
        write_all_def consts_simps sign_request_def to_be16_def from_be16_def word_cat_eq
        link_config_default_def from_secs_def Let_def)
  then obtain k' where "link_sign wit_client wit_env [5] = (k', Inr [77])" by (metis prod.collapse)
  from link_sign_fresh [OF this] obtain before after :: byte_stream and h l where
    "le_connect wit_env = Inr before" "rx before = [0, h, l] @ [77] @ rx after"
    by (auto simp: wit_client_def)
  then show ?thesis by blast
qed

end
