(* ===== verification/Wired.thy ===== *)
theory Wired
  imports Iap2 Csm Link
begin

text \<open>
  The wired control session (\<open>native/carplay/src/protocol/wired.rs\<close>): iAP2 frames over an open
  stream, synchronization, control messages in numbered frames, and the bring-up that
  authenticates the phone with the coprocessor before StartSession.
\<close>

datatype wired_state =
    Synchronizing
  | Identifying
  | Authenticating
  | ReadingCertificate
  | SigningChallenge
  | WaitingForAuthenticationResult
  | WaitingForAvailability
  | StartSessionSent
  | WiredClosed

datatype wired_error = WProtocol proto_error | WIo io_kind | WMfi link_error | WCancelled

record configuration =
  cf_identity :: accessory_identity
  cf_start_session :: start_session

record control =
  co_stream :: byte_stream
  co_sent :: u8
  co_received :: u8
  co_max_frame :: nat
  co_csm_bytes :: "u8 list"

definition control_new :: "byte_stream \<Rightarrow> control" where
  "control_new s = \<lparr>co_stream = s, co_sent = 31, co_received = 0, co_max_frame = MAX_FRAME,
     co_csm_bytes = []\<rparr>"

section \<open>Frames on the stream\<close>

text \<open>\<open>read_exact\<close> and \<open>write_all\<close> on the stream of a control session.\<close>

definition co_read :: "nat \<Rightarrow> control \<Rightarrow> control \<times> (wired_error + u8 list)" where
  "co_read n c = (case read_exact n (co_stream c) of (s, r) \<Rightarrow> (c\<lparr>co_stream := s\<rparr>, map_sum WIo id r))"

definition co_write :: "u8 list \<Rightarrow> control \<Rightarrow> control \<times> (wired_error + unit)" where
  "co_write bs c = (case write_all bs (co_stream c) of (s, r) \<Rightarrow> (c\<lparr>co_stream := s\<rparr>, map_sum WIo id r))"

text \<open>The two magic bytes, after an optional DETECT sequence.\<close>

definition read_magic :: "control \<Rightarrow> control \<times> (wired_error + u8 list)" where
  "read_magic =
     bindS (co_read 2) (\<lambda>h.
       if h = take 2 DETECT
       then bindS (co_read 4) (\<lambda>rest.
              if rest \<noteq> drop 2 DETECT then failS (WProtocol Malformed) else co_read 2)
       else retS h)"

definition frame_after :: "u8 list \<Rightarrow> control \<Rightarrow> control \<times> (wired_error + frame)" where
  "frame_after magic =
     bindS (co_read 7) (\<lambda>rest.
       let header = magic @ rest;
           len = unat (from_be16 (header ! 2) (header ! 3)) in
       if \<not> (9 \<le> len \<and> len \<le> MAX_FRAME) \<or> len = 10 then failS (WProtocol Bounds)
       else bindS (co_read (len - 9)) (\<lambda>body.
            bindS (liftS WProtocol (frame_decode (header @ body))) (\<lambda>f.
              if flags f AND RST \<noteq> 0 then failS (WProtocol Rejected) else retS f)))"

definition control_frame :: "control \<Rightarrow> control \<times> (wired_error + frame)" where
  "control_frame = bindS read_magic frame_after"

definition write_frame :: "frame \<Rightarrow> control \<Rightarrow> control \<times> (wired_error + unit)" where
  "write_frame f c =
     bindS (liftS WProtocol (frame_encode f)) (\<lambda>bytes c.
       if length bytes > co_max_frame c then (c, Inl (WProtocol Bounds)) else co_write bytes c) c"

section \<open>Synchronization\<close>

definition wired_sync :: synchronization where
  "wired_sync = \<lparr>window = 4, max_frame = 65535, retransmit_ms = 0, ack_ms = 0, retries = 0,
     ack_count = 0, sessions = [\<lparr>ses_id = CONTROL_SESSION, ses_kind = 0, ses_version = 2\<rparr>]\<rparr>"

definition control_offered :: "synchronization \<Rightarrow> bool" where
  "control_offered peer \<longleftrightarrow> retransmit_ms peer = 0 \<and>
     (\<exists>s \<in> set (sessions peer). ses_id s = CONTROL_SESSION \<and> ses_kind s = 0 \<and> ses_version s = 2)"

text \<open>The peer's SYN: adopt its frame limit and sequence number and acknowledge.\<close>

definition accept_syn :: "frame \<Rightarrow> control \<Rightarrow> control \<times> (wired_error + unit)" where
  "accept_syn f =
     bindS (liftS WProtocol (sync_decode (payload f))) (\<lambda>peer c.
       if \<not> control_offered peer then (c, Inl (WProtocol Unsupported))
       else
         let c = c\<lparr>co_max_frame := unat (max_frame peer), co_received := sequence f\<rparr> in
         write_frame \<lparr>flags = ACK, sequence = co_sent c, acknowledgement = co_received c,
                      session = 0, payload = []\<rparr> c)"

text \<open>The loop \<open>for _ in 0..8\<close>; \<open>got\<close> is \<open>got_syn\<close>.\<close>

fun sync_loop :: "nat \<Rightarrow> bool \<Rightarrow> control \<Rightarrow> control \<times> (wired_error + unit)" where
  "sync_loop 0 got c = (c, Inl (WProtocol State))"
| "sync_loop (Suc n) got c =
     bindS control_frame (\<lambda>f.
       if session f \<noteq> 0 then failS (WProtocol State)
       else
         let syn = (flags f AND SYN \<noteq> 0) in
         bindS (if syn then accept_syn f else retS ()) (\<lambda>_ c.
           if flags f AND ACK \<noteq> 0 \<and> (got \<or> syn) \<and> acknowledgement f = co_sent c then (c, Inr ())
           else sync_loop n (got \<or> syn) c)) c"

definition control_synchronize :: "control \<Rightarrow> control \<times> (wired_error + unit)" where
  "control_synchronize c =
     bindS (co_write DETECT) (\<lambda>_.
     bindS (liftS WProtocol (sync_encode wired_sync)) (\<lambda>pl c.
     bindS (write_frame \<lparr>flags = SYN, sequence = co_sent c, acknowledgement = 0, session = 0,
              payload = pl\<rparr>) (\<lambda>_. sync_loop 8 False) c)) c"

section \<open>Control messages\<close>

fun send_parts :: "u8 list list \<Rightarrow> control \<Rightarrow> control \<times> (wired_error + unit)" where
  "send_parts [] c = (c, Inr ())"
| "send_parts (part # parts) c =
     (let c = c\<lparr>co_sent := co_sent c + 1\<rparr> in
      bindS (write_frame \<lparr>flags = ACK, sequence = co_sent c, acknowledgement = co_received c,
               session = CONTROL_SESSION, payload = part\<rparr>) (\<lambda>_. send_parts parts) c)"

definition control_send :: "message \<Rightarrow> control \<Rightarrow> control \<times> (wired_error + unit)" where
  "control_send m =
     bindS (liftS WProtocol (msg_encode m)) (\<lambda>bytes c.
       send_parts (chunks (co_max_frame c - 10) bytes) c)"

text \<open>The front of the reassembly buffer: \<open>None\<close> when more bytes are needed.\<close>

definition csm_front :: "u8 list \<Rightarrow> wired_error + (message \<times> nat) option" where
  "csm_front buf =
     (if length buf < 6 then Inr None
      else if take 2 buf \<noteq> [0x40, 0x40] then Inl (WProtocol Malformed)
      else
        let len = unat (from_be16 (buf ! 2) (buf ! 3)) in
        if \<not> (6 \<le> len \<and> len \<le> 65525) then Inl (WProtocol Bounds)
        else if length buf < len then Inr None
        else case msg_decode (take len buf) of
               Inl e \<Rightarrow> Inl (WProtocol e) | Inr m \<Rightarrow> Inr (Some (m, len)))"

text \<open>What one received frame does to the buffer; a frame with the last sequence number again
  is a retransmission and is dropped.\<close>

definition accept_data :: "frame \<Rightarrow> control \<Rightarrow> control \<times> (wired_error + unit)" where
  "accept_data f c =
     (if flags f \<noteq> ACK then (c, Inl (WProtocol Unsupported))
      else if payload f = [] then (c, Inr ())
      else if session f \<noteq> CONTROL_SESSION then (c, Inl (WProtocol Unsupported))
      else if sequence f = co_received c then (c, Inr ())
      else if sequence f \<noteq> co_received c + 1 then (c, Inl (WProtocol Sequence))
      else
        let c = c\<lparr>co_received := sequence f\<rparr> in
        if length (co_csm_bytes c) + length (payload f) > 65525 then (c, Inl (WProtocol Bounds))
        else (c\<lparr>co_csm_bytes := co_csm_bytes c @ payload f\<rparr>, Inr ()))"

lemma co_read_Inr:
  "co_read n c = (c', Inr bs) \<longleftrightarrow> n \<le> length (rx (co_stream c)) \<and> bs = take n (rx (co_stream c))
     \<and> c' = c\<lparr>co_stream := (co_stream c)\<lparr>rx := drop n (rx (co_stream c))\<rparr>\<rparr>"
  by (auto simp: co_read_def read_exact_def split: prod.splits)

lemma read_magic_Inr:
  "read_magic c = (c', Inr h) \<Longrightarrow> length h = 2 \<and> length (rx (co_stream c')) + 2 \<le> length (rx (co_stream c))
     \<and> co_csm_bytes c' = co_csm_bytes c"
  by (auto simp: read_magic_def bindS_eq_Inr co_read_Inr split: if_splits)

lemma frame_decode_payload: "frame_decode bs = Inr f \<Longrightarrow> length (payload f) + 9 \<le> length bs"
  by (auto simp: frame_decode_def HEADER_def split: if_splits)

lemma frame_after_Inr:
  assumes "frame_after magic c = (c', Inr f)" and "length magic = 2"
  shows "length (rx (co_stream c')) + 7 + length (payload f) \<le> length (rx (co_stream c))
     \<and> co_csm_bytes c' = co_csm_bytes c"
proof -
  let ?rx = "rx (co_stream c)" let ?h = "magic @ take 7 ?rx"
  let ?n = "unat (from_be16 (?h ! 2) (?h ! 3)) - 9"
  from assms(1) have a: "7 \<le> length ?rx" "?n \<le> length (drop 7 ?rx)"
      "frame_decode (?h @ take ?n (drop 7 ?rx)) = Inr f"
    and c': "c' = c\<lparr>co_stream := (co_stream c)\<lparr>rx := drop ?n (drop 7 ?rx)\<rparr>\<rparr>"
    by (simp_all add: frame_after_def bindS_eq_Inr co_read_Inr Let_def split: if_splits)
  have "length (?h @ take ?n (drop 7 ?rx)) = 9 + ?n" using a assms(2) by simp
  with frame_decode_payload [OF a(3)] have "length (payload f) \<le> ?n" by simp
  with a c' show ?thesis by simp
qed

lemma control_frame_consumes:
  "control_frame c = (c', Inr f) \<Longrightarrow>
     length (rx (co_stream c')) + 9 + length (payload f) \<le> length (rx (co_stream c))
     \<and> co_csm_bytes c' = co_csm_bytes c"
  by (auto simp: control_frame_def bindS_eq_Inr dest!: read_magic_Inr frame_after_Inr)

lemma accept_data_keeps [simp]: "co_stream (fst (accept_data f c)) = co_stream c"
  by (simp add: accept_data_def Let_def)

lemma accept_data_grows: "length (co_csm_bytes (fst (accept_data f c))) \<le> length (co_csm_bytes c) + length (payload f)"
  by (simp add: accept_data_def Let_def)

function control_message :: "control \<Rightarrow> control \<times> (wired_error + message)" where
  "control_message c =
     (case csm_front (co_csm_bytes c) of
        Inl e \<Rightarrow> (c, Inl e)
      | Inr (Some (m, len)) \<Rightarrow> (c\<lparr>co_csm_bytes := drop len (co_csm_bytes c)\<rparr>, Inr m)
      | Inr None \<Rightarrow>
          (case control_frame c of
             (c1, Inl e) \<Rightarrow> (c1, Inl e)
           | (c1, Inr f) \<Rightarrow>
               (case accept_data f c1 of
                  (c2, Inl e) \<Rightarrow> (c2, Inl e)
                | (c2, Inr _) \<Rightarrow> control_message c2)))"
  by pat_completeness auto
termination
proof (relation "measure (\<lambda>c. length (rx (co_stream c)))")
  fix c c1 c2 f u r u'
  assume "(c1, r) = control_frame c" "r = Inr f" "(c2, u') = accept_data f c1" "u' = Inr (u :: unit)"
  then have "length (rx (co_stream c1)) + 9 \<le> length (rx (co_stream c))" "co_stream c2 = co_stream c1"
    using control_frame_consumes [of c c1 f] accept_data_keeps [of f c1] by (auto simp: prod_eq_iff)
  then show "(c2, c) \<in> measure (\<lambda>c. length (rx (co_stream c)))" by simp
qed simp

declare control_message.simps [simp del]

section \<open>Authentication and bring-up\<close>

text \<open>
  The whole session: the control connection, the published states, the link client with what
  its surroundings decide for each request, and the readings of the monotonic clock since
  authentication started.
\<close>

record wired_session =
  ws_control :: control
  ws_states :: "wired_state list"
  ws_link :: link_client
  ws_envs :: "nat \<Rightarrow> link_env"
  ws_requests :: nat
  ws_clock :: "nat \<Rightarrow> duration"
  ws_ticks :: nat

definition on_control ::
  "(control \<Rightarrow> control \<times> (wired_error + 'a)) \<Rightarrow> wired_session \<Rightarrow> wired_session \<times> (wired_error + 'a)" where
  "on_control f s = (case f (ws_control s) of (c, r) \<Rightarrow> (s\<lparr>ws_control := c\<rparr>, r))"

definition on_link ::
  "(link_client \<Rightarrow> link_env \<Rightarrow> link_client \<times> (link_error + 'a)) \<Rightarrow> wired_session
     \<Rightarrow> wired_session \<times> (wired_error + 'a)" where
  "on_link f s =
     (case f (ws_link s) (ws_envs s (ws_requests s)) of
        (k, r) \<Rightarrow> (s\<lparr>ws_link := k, ws_requests := ws_requests s + 1\<rparr>, map_sum WMfi id r))"

text \<open>\<open>state.send_replace\<close> and \<open>started.elapsed()\<close>.\<close>

definition publish_state :: "wired_state \<Rightarrow> wired_session \<Rightarrow> wired_session \<times> (wired_error + unit)" where
  "publish_state w s = (s\<lparr>ws_states := ws_states s @ [w]\<rparr>, Inr ())"

definition elapsed :: "wired_session \<Rightarrow> wired_session \<times> (wired_error + duration)" where
  "elapsed s = (s\<lparr>ws_ticks := ws_ticks s + 1\<rparr>, Inr (ws_clock s (ws_ticks s)))"

text \<open>\<open>timeout(limit, control.message())\<close>: the message is there at the next clock reading, or the
  timer fires first; a stream that stalls also runs into the timer.\<close>

definition message_within :: "duration \<Rightarrow> wired_session \<Rightarrow> wired_session \<times> (wired_error + message)" where
  "message_within limit =
     bindS elapsed (\<lambda>start s.
       case on_control control_message s of
         (s, r) \<Rightarrow>
           bindS elapsed (\<lambda>finish s.
             if finish - start > limit - start \<or> r = Inl (WIo Stalled) then (s, Inl (WProtocol Timeout))
             else (s, r)) s)"

text \<open>The reply at the end of a turn of the loop.\<close>

fun send_reply ::
  "authentication \<Rightarrow> auth_action \<Rightarrow> wired_session \<Rightarrow> wired_session \<times> (wired_error + authentication option)" where
  "send_reply a (SendMessage reply) = bindS (on_control (control_send reply)) (\<lambda>_. retS (Some a))"
| "send_reply a _ = retS (Some a)"

text \<open>The two arms of the loop that need the coprocessor.\<close>

definition supply_certificate ::
  "authentication \<Rightarrow> wired_session \<Rightarrow> wired_session \<times> (wired_error + authentication option)" where
  "supply_certificate a =
     bindS (publish_state ReadingCertificate) (\<lambda>_.
     bindS (on_link authentication_certificate) (\<lambda>certificate.
     bindS elapsed (\<lambda>now.
       case auth_certificate a certificate now of
         (a, r) \<Rightarrow> bindS (liftS WProtocol r) (send_reply a))))"

definition supply_signature ::
  "authentication \<Rightarrow> u8 list \<Rightarrow> wired_session \<Rightarrow> wired_session \<times> (wired_error + authentication option)" where
  "supply_signature a challenge =
     bindS (publish_state SigningChallenge) (\<lambda>_.
     bindS (on_link (\<lambda>k env. link_sign k env challenge)) (\<lambda>signature.
     bindS elapsed (\<lambda>now.
       case auth_signature a signature now of
         (a, r) \<Rightarrow>
           bindS (liftS WProtocol r) (\<lambda>reply.
           bindS (publish_state WaitingForAuthenticationResult) (\<lambda>_. send_reply a reply)))))"

fun auth_act ::
  "authentication \<Rightarrow> auth_action \<Rightarrow> wired_session \<Rightarrow> wired_session \<times> (wired_error + authentication option)" where
  "auth_act a ReadRealCertificate = supply_certificate a"
| "auth_act a (SignWithRealCoprocessor challenge) = supply_signature a challenge"
| "auth_act a Complete = retS None"
| "auth_act a (SendMessage _) = failS (WProtocol State)"

text \<open>One turn of the loop: \<open>None\<close> leaves it, \<open>Some\<close> goes round with the machine reached.\<close>

definition auth_round ::
  "authentication \<Rightarrow> wired_session \<Rightarrow> wired_session \<times> (wired_error + authentication option)" where
  "auth_round a =
     bindS (message_within (from_secs 15)) (\<lambda>m.
     bindS elapsed (\<lambda>now.
       case auth_receive a m now of
         (a, r) \<Rightarrow> bindS (liftS WProtocol r) (auth_act a)))"

lemma auth_receive_cases:
  "snd (auth_receive a m now) = Inr act \<Longrightarrow>
     au_state a = AwaitCertificateRequest \<and> act = ReadRealCertificate
   \<or> au_state a = AwaitChallenge \<and> (\<exists>ch. act = SignWithRealCoprocessor ch)
   \<or> au_state a = AwaitResult \<and> act = Complete"
  by (auto simp: auth_defs split: if_splits sum.splits)

lemma auth_certificate_Inr:
  "snd (auth_certificate a c now) = Inr act \<Longrightarrow>
     au_state (fst (auth_certificate a c now)) = AwaitChallenge \<and> act = SendMessage \<lparr>msg_id = CERTIFICATE, msg_params = [param_new 0 c]\<rparr>"
  by (auto simp: auth_defs split: if_splits)

lemma auth_signature_Inr:
  "snd (auth_signature a c now) = Inr act \<Longrightarrow>
     au_state (fst (auth_signature a c now)) = AwaitResult \<and> act = SendMessage \<lparr>msg_id = SIGNATURE, msg_params = [param_new 0 c]\<rparr>"
  by (auto simp: auth_defs split: if_splits)

lemma session_steps_keep:
  "on_control f s = (s', r) \<Longrightarrow> ws_states s' = ws_states s \<and> ws_requests s' = ws_requests s"
  "elapsed s = (s', q) \<Longrightarrow> ws_states s' = ws_states s \<and> ws_requests s' = ws_requests s"
  "message_within l s = (s', Inr m) \<Longrightarrow> ws_states s' = ws_states s \<and> ws_requests s' = ws_requests s"
  by (auto simp: on_control_def elapsed_def message_within_def bindS_def split: prod.splits sum.splits if_splits)

lemma on_link_keeps:
  "on_link g s = (s', r) \<Longrightarrow> ws_states s' = ws_states s \<and> ws_requests s' = ws_requests s + 1"
  by (auto simp: on_link_def split: prod.splits)

lemma publish_state_eq: "publish_state w s = (s', r) \<longleftrightarrow> s' = s\<lparr>ws_states := ws_states s @ [w]\<rparr> \<and> r = Inr ()"
  by (auto simp: publish_state_def)

lemma supply_certificate_Inr:
  "supply_certificate a s = (s', Inr r) \<Longrightarrow>
     \<exists>a'. r = Some a' \<and> au_state a' = AwaitChallenge \<and> ws_states s' = ws_states s @ [ReadingCertificate]
       \<and> ws_requests s' = ws_requests s + 1"
  by (auto simp: supply_certificate_def bindS_eq_Inr publish_state_eq case_prod_unfold
      dest!: session_steps_keep on_link_keeps auth_certificate_Inr)

lemma supply_signature_Inr:
  "supply_signature a ch s = (s', Inr r) \<Longrightarrow>
     \<exists>a'. r = Some a' \<and> au_state a' = AwaitResult
       \<and> ws_states s' = ws_states s @ [SigningChallenge, WaitingForAuthenticationResult]
       \<and> ws_requests s' = ws_requests s + 1"
  by (auto simp: supply_signature_def bindS_eq_Inr publish_state_eq case_prod_unfold
      dest!: session_steps_keep on_link_keeps auth_signature_Inr)

lemma auth_round_cases:
  assumes "auth_round a s = (s', Inr r)"
  obtains (read) a' where "au_state a = AwaitCertificateRequest" "r = Some a'" "au_state a' = AwaitChallenge"
      "ws_states s' = ws_states s @ [ReadingCertificate]" "ws_requests s' = ws_requests s + 1"
  | (sign) a' where "au_state a = AwaitChallenge" "r = Some a'" "au_state a' = AwaitResult"
      "ws_states s' = ws_states s @ [SigningChallenge, WaitingForAuthenticationResult]"
      "ws_requests s' = ws_requests s + 1"
  | (fin) "au_state a = AwaitResult" "r = None" "ws_states s' = ws_states s" "ws_requests s' = ws_requests s"
proof -
  from assms obtain s1 m s2 now act where
    1: "message_within (from_secs 15) s = (s1, Inr m)" "elapsed s1 = (s2, Inr now)"
      and rec: "snd (auth_receive a m now) = Inr act"
      and 2: "auth_act (fst (auth_receive a m now)) act s2 = (s', Inr r)"
    unfolding auth_round_def by (auto simp: bindS_eq_Inr case_prod_unfold)
  have k: "ws_states s2 = ws_states s" "ws_requests s2 = ws_requests s"
    using 1 session_steps_keep(2,3) by metis+
  from auth_receive_cases [OF rec] show thesis
    using 2 k that
    by (elim disjE conjE exE) (auto dest!: supply_certificate_Inr supply_signature_Inr)
qed

function auth_loop :: "authentication \<Rightarrow> wired_session \<Rightarrow> wired_session \<times> (wired_error + unit)" where
  "auth_loop a s =
     (case auth_round a s of
        (s', Inl e) \<Rightarrow> (s', Inl e)
      | (s', Inr None) \<Rightarrow> (s', Inr ())
      | (s', Inr (Some a')) \<Rightarrow> auth_loop a' s')"
  by pat_completeness auto
termination
proof (relation "measure (\<lambda>(a, s). 5 - stage (au_state a))")
  fix a s s' r q a'
  assume "(s', r) = auth_round a s" "r = Inr q" "q = Some a'"
  then have "auth_round a s = (s', Inr (Some a'))" by simp
  then show "((a', s'), a, s) \<in> measure (\<lambda>(a, s). 5 - stage (au_state a))"
    by (cases rule: auth_round_cases) auto
qed simp

declare auth_loop.simps [simp del]

definition expect_empty :: "u16 \<Rightarrow> proto_error \<Rightarrow> wired_session \<Rightarrow> wired_session \<times> (wired_error + unit)" where
  "expect_empty i e =
     bindS (on_control control_message) (\<lambda>m.
       if m \<noteq> msg_empty i then failS (WProtocol e) else retS ())"

definition wired_authenticate :: "message \<Rightarrow> wired_session \<Rightarrow> wired_session \<times> (wired_error + unit)" where
  "wired_authenticate identity =
     bindS (publish_state Synchronizing) (\<lambda>_.
     bindS (on_control control_synchronize) (\<lambda>_.
     bindS (publish_state Identifying) (\<lambda>_.
     bindS (expect_empty START_IDENTIFICATION State) (\<lambda>_.
     bindS (on_control (control_send identity)) (\<lambda>_.
     bindS (expect_empty IDENTIFICATION_ACCEPTED Rejected) (\<lambda>_.
     bindS (publish_state Authenticating) (\<lambda>_.
       auth_loop (auth_new 0))))))))"

text \<open>The loop \<open>for _ in 0..16\<close> waiting for availability.\<close>

definition available :: "parameter list \<Rightarrow> bool" where
  "available ps \<longleftrightarrow> length (filter (\<lambda>p. par_id p = 0) ps) = 1
     \<and> (\<exists>p \<in> set ps. par_id p = 0 \<and> par_value p = [1])"

definition accept_availability :: "message \<Rightarrow> message \<Rightarrow> wired_session \<Rightarrow> wired_session \<times> (wired_error + unit)" where
  "accept_availability start m =
     bindS (liftS WProtocol (bindr (msg_one m 0) decode_parameters)) (\<lambda>ps.
       if \<not> available ps then failS (WProtocol Rejected)
       else bindS (on_control (control_send start)) (\<lambda>_. publish_state StartSessionSent))"

fun availability_loop :: "nat \<Rightarrow> message \<Rightarrow> wired_session \<Rightarrow> wired_session \<times> (wired_error + unit)" where
  "availability_loop 0 start s = (s, Inl (WProtocol Bounds))"
| "availability_loop (Suc n) start s =
     bindS (on_control control_message) (\<lambda>m.
       if msg_id m = AVAILABILITY then accept_availability start m
       else if msg_id m \<noteq> 0x4e0e then failS (WProtocol Unsupported)
       else availability_loop n start) s"

definition bring_up :: "configuration \<Rightarrow> wired_session \<Rightarrow> wired_session \<times> (wired_error + unit)" where
  "bring_up config =
     (case ss_transport (cf_start_session config) of
        Wireless _ _ _ _ \<Rightarrow> failS (WProtocol Unsupported)
      | Wired _ \<Rightarrow>
          bindS (liftS WProtocol (wired_message (cf_identity config))) (\<lambda>identity.
          bindS (liftS WProtocol (start_session_message (cf_start_session config))) (\<lambda>start.
          bindS (wired_authenticate identity) (\<lambda>_.
          bindS (publish_state WaitingForAvailability) (\<lambda>_.
            availability_loop 16 start)))))"

text \<open>\<open>authenticate_only\<close>: the same exchange without StartSession. The 30 second limit around it
  is the reading of the clock at its end, or a stream that stalls.\<close>

definition within_startup :: "(wired_session \<Rightarrow> wired_session \<times> (wired_error + unit))
    \<Rightarrow> wired_session \<Rightarrow> wired_session \<times> (wired_error + unit)" where
  "within_startup f s =
     (case f s of
        (s, r) \<Rightarrow> bindS elapsed (\<lambda>t s.
          if t > from_secs 30 \<or> r = Inl (WIo Stalled) then (s, Inl (WProtocol Timeout)) else (s, r)) s)"

definition authenticate_only :: "accessory_identity \<Rightarrow> wired_session \<Rightarrow> wired_session \<times> (wired_error + unit)" where
  "authenticate_only identity s =
     (case wired_message identity of
        Inl e \<Rightarrow> (s, Inl (WProtocol e))
      | Inr m \<Rightarrow>
          (case within_startup (wired_authenticate m) s of
             (s, r) \<Rightarrow> (fst (publish_state WiredClosed s), r)))"

section \<open>The published states\<close>

text \<open>
  \<open>publishes k xs Q f\<close>: whatever happens, \<open>f\<close> publishes a prefix of \<open>xs\<close> and makes at most \<open>k\<close>
  coprocessor requests; when it succeeds it has published all of \<open>xs\<close>, made exactly \<open>k\<close>
  requests, and its result satisfies \<open>Q\<close>.
\<close>

definition publishes ::
  "nat \<Rightarrow> wired_state list \<Rightarrow> ('a \<Rightarrow> bool) \<Rightarrow> (wired_session \<Rightarrow> wired_session \<times> (wired_error + 'a)) \<Rightarrow> bool" where
  "publishes k xs Q f \<longleftrightarrow> (\<forall>s. \<exists>ys. prefix ys xs \<and> ws_states (fst (f s)) = ws_states s @ ys
     \<and> ws_requests (fst (f s)) \<le> ws_requests s + k
     \<and> (\<forall>x. snd (f s) = Inr x \<longrightarrow> ys = xs \<and> Q x \<and> ws_requests (fst (f s)) = ws_requests s + k))"

named_theorems publishing \<open>what the session operations publish\<close>

lemma publishes_bindS:
  assumes "publishes k xs P f" and "\<And>x. P x \<Longrightarrow> publishes l ys Q (g x)"
  shows "publishes (k + l) (xs @ ys) Q (bindS f g)"
  unfolding publishes_def
proof (intro allI)
  fix s
  let ?r = "bindS f g s"
  from assms(1) obtain zs where f: "prefix zs xs" "ws_states (fst (f s)) = ws_states s @ zs"
    "ws_requests (fst (f s)) \<le> ws_requests s + k"
    "\<forall>x. snd (f s) = Inr x \<longrightarrow> zs = xs \<and> P x \<and> ws_requests (fst (f s)) = ws_requests s + k"
    unfolding publishes_def by blast
  obtain s1 r where r: "f s = (s1, r)" by (cases "f s")
  show "\<exists>zs. prefix zs (xs @ ys) \<and> ws_states (fst ?r) = ws_states s @ zs
     \<and> ws_requests (fst ?r) \<le> ws_requests s + (k + l)
     \<and> (\<forall>x. snd ?r = Inr x \<longrightarrow> zs = xs @ ys \<and> Q x \<and> ws_requests (fst ?r) = ws_requests s + (k + l))"
  proof (cases r)
    case (Inl e)
    with f r show ?thesis by (intro exI [of _ zs]) (auto simp: bindS_def)
  next
    case (Inr x)
    with f r have "P x" "zs = xs" "ws_requests s1 = ws_requests s + k" by auto
    from assms(2) [OF this(1)] obtain us where "prefix us ys" "ws_states (fst (g x s1)) = ws_states s1 @ us"
      "ws_requests (fst (g x s1)) \<le> ws_requests s1 + l"
      "\<forall>y. snd (g x s1) = Inr y \<longrightarrow> us = ys \<and> Q y \<and> ws_requests (fst (g x s1)) = ws_requests s1 + l"
      unfolding publishes_def by blast
    with f r Inr \<open>zs = xs\<close> \<open>ws_requests s1 = _\<close> show ?thesis
      by (intro exI [of _ "xs @ us"]) (auto simp: bindS_def)
  qed
qed

lemma publishes_bindS_quiet [publishing]:
  "publishes 0 [] P f \<Longrightarrow> (\<And>x. P x \<Longrightarrow> publishes l ys Q (g x)) \<Longrightarrow> publishes l ys Q (bindS f g)"
  using publishes_bindS [of 0 "[]" P f l ys Q g] by simp

lemma publishes_state:
  "(\<And>u. publishes l ys Q (g u)) \<Longrightarrow> publishes l (w # ys) Q (bindS (publish_state w) g)"
  using publishes_bindS [of 0 "[w]" "\<lambda>_. True" "publish_state w" l ys Q g]
  by (simp add: publishes_def publish_state_def)

lemma publishes_fail [publishing]: "publishes k xs Q (failS e)"
  by (auto simp: publishes_def failS_def intro: exI [of _ "[]"])

lemma publishes_ret [publishing]: "Q x \<Longrightarrow> publishes 0 [] Q (retS x)"
  by (auto simp: publishes_def retS_def)

lemma publishes_lift [publishing]: "publishes 0 [] (\<lambda>x. r = Inr x) (liftS c r)"
  by (cases r) (auto simp: publishes_def liftS_def)

lemma publishes_control: "publishes 0 [] (\<lambda>_. True) (on_control f)"
  by (auto simp: publishes_def on_control_def split: prod.splits)

lemma publishes_elapsed: "publishes 0 [] (\<lambda>_. True) elapsed"
  by (auto simp: publishes_def elapsed_def)

lemma publishes_link: "publishes 1 [] (\<lambda>_. True) (on_link f)"
  by (auto simp: publishes_def on_link_def split: prod.splits)

lemma publishes_message: "publishes 0 [] (\<lambda>_. True) (message_within l)"
  by (auto simp: publishes_def message_within_def bindS_def elapsed_def on_control_def split: prod.splits)

lemma publishes_weaken: "publishes k xs P f \<Longrightarrow> (\<And>x. P x \<Longrightarrow> Q x) \<Longrightarrow> publishes k xs Q f"
  unfolding publishes_def by metis

lemma publishes_bind_link:
  "(\<And>x. publishes l ys Q (g x)) \<Longrightarrow> publishes (Suc l) ys Q (bindS (on_link f) g)"
  using publishes_bindS [OF publishes_link, of l ys Q g f] by simp

lemma publishes_send_reply: "publishes 0 [] (\<lambda>r. r = Some a) (send_reply a act)"
  by (cases act) (auto intro!: publishing intro: publishes_control)

lemma publishes_certificate:
  "publishes 1 [ReadingCertificate] (\<lambda>r. \<exists>a'. r = Some a' \<and> au_state a' = AwaitChallenge) (supply_certificate a)"
  unfolding supply_certificate_def One_nat_def case_prod_unfold
  by (intro publishes_state publishes_bind_link publishes_bindS_quiet [OF publishes_elapsed]
      publishes_bindS_quiet [OF publishes_lift] publishes_weaken [OF publishes_send_reply])
    (auto dest: auth_certificate_Inr)

lemma publishes_signature:
  "publishes 1 [SigningChallenge, WaitingForAuthenticationResult]
     (\<lambda>r. \<exists>a'. r = Some a' \<and> au_state a' = AwaitResult) (supply_signature a ch)"
  unfolding supply_signature_def One_nat_def case_prod_unfold
  by (intro publishes_state publishes_bind_link publishes_bindS_quiet [OF publishes_elapsed]
      publishes_bindS_quiet [OF publishes_lift] publishes_weaken [OF publishes_send_reply])
    (auto dest: auth_signature_Inr)

lemma auth_act_publishes:
  assumes "snd (auth_receive a m now) = Inr act" and "au_state a = AwaitCertificateRequest"
  shows "publishes 1 [ReadingCertificate] (\<lambda>r. \<exists>a'. r = Some a' \<and> au_state a' = AwaitChallenge) (auth_act b act)"
  using auth_receive_cases [OF assms(1)] assms(2) publishes_certificate [of b] by auto

lemma auth_act_publishes_sign:
  assumes "snd (auth_receive a m now) = Inr act" and "au_state a = AwaitChallenge"
  shows "publishes 1 [SigningChallenge, WaitingForAuthenticationResult]
     (\<lambda>r. \<exists>a'. r = Some a' \<and> au_state a' = AwaitResult) (auth_act b act)"
  using auth_receive_cases [OF assms(1)] assms(2) publishes_signature [of b] by auto

lemma auth_act_publishes_fin:
  assumes "snd (auth_receive a m now) = Inr act" and "au_state a = AwaitResult"
  shows "publishes 0 [] (\<lambda>r. r = None) (auth_act b act)"
  using auth_receive_cases [OF assms(1)] assms(2) by (auto intro: publishing)

lemmas auth_round_publishes =
  publishes_bindS_quiet [OF publishes_message publishes_bindS_quiet [OF publishes_elapsed
    publishes_bindS_quiet [OF publishes_lift]]]

lemma auth_round_request:
  "au_state a = AwaitCertificateRequest \<Longrightarrow>
     publishes 1 [ReadingCertificate] (\<lambda>r. \<exists>a'. r = Some a' \<and> au_state a' = AwaitChallenge) (auth_round a)"
  unfolding auth_round_def case_prod_unfold
  by (rule auth_round_publishes) (rule auth_act_publishes)

lemma auth_round_challenge:
  "au_state a = AwaitChallenge \<Longrightarrow>
     publishes 1 [SigningChallenge, WaitingForAuthenticationResult]
       (\<lambda>r. \<exists>a'. r = Some a' \<and> au_state a' = AwaitResult) (auth_round a)"
  unfolding auth_round_def case_prod_unfold
  by (rule auth_round_publishes) (rule auth_act_publishes_sign)

lemma auth_round_result:
  "au_state a = AwaitResult \<Longrightarrow> publishes 0 [] (\<lambda>r. r = None) (auth_round a)"
  unfolding auth_round_def case_prod_unfold
  by (rule auth_round_publishes) (rule auth_act_publishes_fin)

lemma auth_loop_bindS:
  "auth_loop a = bindS (auth_round a) (\<lambda>r. case r of None \<Rightarrow> retS () | Some a' \<Rightarrow> auth_loop a')"
  by (rule ext, subst auth_loop.simps)
    (auto simp: bindS_def retS_def split: prod.splits sum.splits option.splits)

lemma auth_loop_publishes:
  assumes "au_state a = AwaitCertificateRequest"
  shows "publishes 2 [ReadingCertificate, SigningChallenge, WaitingForAuthenticationResult] (\<lambda>_. True) (auth_loop a)"
proof -
  have res: "publishes 0 [] (\<lambda>_. True) (auth_loop a)" if "au_state a = AwaitResult" for a
    by (subst auth_loop_bindS)
      (rule publishes_bindS_quiet [OF auth_round_result [OF that]], auto intro: publishing)
  have chal: "publishes (1 + 0) ([SigningChallenge, WaitingForAuthenticationResult] @ []) (\<lambda>_. True) (auth_loop a)"
    if "au_state a = AwaitChallenge" for a
    by (subst auth_loop_bindS)
      (rule publishes_bindS [OF auth_round_challenge [OF that]], auto intro: res)
  have "publishes (1 + 1) ([ReadingCertificate] @ [SigningChallenge, WaitingForAuthenticationResult])
      (\<lambda>_. True) (auth_loop a)"
    by (subst auth_loop_bindS)
      (rule publishes_bindS [OF auth_round_request [OF assms]], use chal in auto)
  then show ?thesis by (simp add: numeral_2_eq_2)
qed

lemma expect_empty_publishes: "publishes 0 [] (\<lambda>_. True) (expect_empty i e)"
  unfolding expect_empty_def
  by (rule publishes_bindS_quiet [OF publishes_control]) (simp add: publishing)

lemma wired_authenticate_publishes:
  "publishes 2 [Synchronizing, Identifying, Authenticating, ReadingCertificate,
       SigningChallenge, WaitingForAuthenticationResult] (\<lambda>_. True) (wired_authenticate m)"
  unfolding wired_authenticate_def
  by (intro publishes_state publishes_bindS_quiet [OF publishes_control]
      publishes_bindS_quiet [OF expect_empty_publishes] auth_loop_publishes)
    (simp add: auth_new_def)

lemma accept_availability_publishes:
  "publishes 0 [StartSessionSent] (\<lambda>_. True) (accept_availability start m)"
proof -
  have send: "publishes 0 [StartSessionSent] (\<lambda>_. True)
      (bindS (on_control (control_send start)) (\<lambda>_. publish_state StartSessionSent))"
    by (rule publishes_bindS_quiet [OF publishes_control])
      (auto simp: publishes_def publish_state_def)
  show ?thesis
    unfolding accept_availability_def
    by (rule publishes_bindS_quiet [OF publishes_lift]) (simp add: publishes_fail send)
qed

lemma accept_availability_fails:
  "snd (accept_availability start m s) = Inl e \<Longrightarrow> ws_states (fst (accept_availability start m s)) = ws_states s"
  by (cases "bindr (msg_one m 0) decode_parameters")
    (auto simp: accept_availability_def bindS_def liftS_def failS_def on_control_def publish_state_def
      split: prod.splits sum.splits if_splits)

lemma availability_loop_publishes:
  "publishes 0 [StartSessionSent] (\<lambda>_. True) (availability_loop n start)"
proof (induction n)
  case 0
  then show ?case by (auto simp: publishes_def intro: exI [of _ "[]"])
next
  case (Suc n)
  have "publishes 0 [StartSessionSent] (\<lambda>_. True) (bindS (on_control control_message) (\<lambda>m.
       if msg_id m = AVAILABILITY then accept_availability start m
       else if msg_id m \<noteq> 0x4e0e then failS (WProtocol Unsupported)
       else availability_loop n start))"
    by (rule publishes_bindS_quiet [OF publishes_control])
      (simp add: accept_availability_publishes Suc publishes_fail)
  then show ?case by (simp add: publishes_def)
qed

lemma availability_loop_fails:
  "snd (availability_loop n start s) = Inl e \<Longrightarrow> ws_states (fst (availability_loop n start s)) = ws_states s"
proof (induction n arbitrary: s)
  case (Suc n)
  obtain s1 r where m: "on_control control_message s = (s1, r)" by (cases "on_control control_message s")
  note k = session_steps_keep(1) [OF this]
  show ?case
  proof (cases r)
    case (Inr x)
    from Suc.prems k Suc.IH [of s1] accept_availability_fails [of start x s1 e] show ?thesis
      by (auto simp: bindS_def m Inr failS_def split: if_splits)
  qed (use m k in \<open>simp add: bindS_def\<close>)
qed simp

definition bring_up_states :: "wired_state list" where
  "bring_up_states = [Synchronizing, Identifying, Authenticating, ReadingCertificate, SigningChallenge,
     WaitingForAuthenticationResult, WaitingForAvailability, StartSessionSent]"

lemma bring_up_publishes: "publishes 2 bring_up_states (\<lambda>_. True) (bring_up config)"
proof -
  have start: "publishes 0 [WaitingForAvailability, StartSessionSent] (\<lambda>_. True)
      (bindS (publish_state WaitingForAvailability) (\<lambda>_. availability_loop 16 start))" for start
    by (rule publishes_state) (rule availability_loop_publishes)
  have "publishes (2 + 0) ([Synchronizing, Identifying, Authenticating, ReadingCertificate, SigningChallenge,
      WaitingForAuthenticationResult] @ [WaitingForAvailability, StartSessionSent]) (\<lambda>_. True) (bring_up config)"
    unfolding bring_up_def
    by (cases "ss_transport (cf_start_session config)")
      (simp_all only: session_transport.case publishes_fail,
        intro publishes_bindS_quiet [OF publishes_lift] publishes_bindS [OF wired_authenticate_publishes start])
  then show ?thesis by (simp add: bring_up_states_def)
qed

lemma bindS_failed:
  "snd (bindS m f s) = Inl e \<Longrightarrow>
     (snd (m s) = Inl e \<and> fst (bindS m f s) = fst (m s))
     \<or> (\<exists>s' x. m s = (s', Inr x) \<and> snd (f x s') = Inl e \<and> fst (bindS m f s) = fst (f x s'))"
  by (auto simp: bindS_def split: prod.splits sum.splits)

lemma bring_up_fails:
  assumes "snd (bring_up config s) = Inl e"
  shows "length (ws_states (fst (bring_up config s))) < length (ws_states s) + 8"
proof (cases "ss_transport (cf_start_session config)")
  case (Wired address)
  have part: "length (ws_states (fst (wired_authenticate m s))) \<le> length (ws_states s) + 6" for m
    using wired_authenticate_publishes [of m]
    by (auto simp: publishes_def dest!: spec [of _ s] prefix_length_le)
  show ?thesis
  proof (cases "wired_message (cf_identity config)")
    case (Inl x)
    then show ?thesis by (simp add: bring_up_def Wired bindS_def liftS_def)
  next
    case id: (Inr identity)
    show ?thesis
    proof (cases "start_session_message (cf_start_session config)")
      case (Inl x)
      with id show ?thesis by (simp add: bring_up_def Wired bindS_def liftS_def)
    next
      case (Inr start)
      let ?rest = "bindS (publish_state WaitingForAvailability) (\<lambda>_. availability_loop 16 start)"
      have eq: "bring_up config s = bindS (wired_authenticate identity) (\<lambda>_. ?rest) s"
        by (simp add: bring_up_def Wired bindS_def [of "liftS _ _"] liftS_def id Inr)
      have rest: "length (ws_states (fst (?rest s1))) = length (ws_states s1) + 1"
        if "snd (?rest s1) = Inl e" for s1
        using that availability_loop_fails [of 16 start "s1\<lparr>ws_states := ws_states s1 @ [WaitingForAvailability]\<rparr>" e]
        by (simp add: bindS_def publish_state_def)
      from bindS_failed [OF assms [unfolded eq]] show ?thesis
      proof (elim disjE exE conjE)
        assume "fst (bindS (wired_authenticate identity) (\<lambda>_. ?rest) s) = fst (wired_authenticate identity s)"
        then show ?thesis using part [of identity] by (simp only: eq)
      next
        fix s1 u
        assume "wired_authenticate identity s = (s1, Inr u)" "snd (?rest s1) = Inl e"
          "fst (bindS (wired_authenticate identity) (\<lambda>_. ?rest) s) = fst (?rest s1)"
        then show ?thesis using part [of identity] rest [of s1] by (simp only: eq fst_conv)
      qed
    qed
  qed
qed (simp add: bring_up_def failS_def)

section \<open>Sending and receiving a message\<close>

lemma control_frame_reads:
  assumes "frame_encode f = Inr bs" and "flags f AND RST = 0" and "rx (co_stream d) = bs @ r"
  shows "control_frame d = (d\<lparr>co_stream := (co_stream d)\<lparr>rx := r\<rparr>\<rparr>, Inr f)"
proof -
  note dec = frame_decode_encode [OF assms(1)]
  then have len: "9 \<le> length bs" "length bs \<le> 65535" "length bs \<noteq> 10" "take 2 bs = [0xff, 0x5a]"
    "unat (from_be16 (bs ! 2) (bs ! 3)) = length bs"
    by (auto simp: frame_decode_def consts_simps split: if_splits)
  obtain b where bs: "bs = [0xff, 0x5a] @ b"
    using append_take_drop_id [of 2 bs] len(4) by metis
  define h where "h = take 7 b" define pl where "pl = drop 7 b"
  have b: "b = h @ pl" and h7: "length h = 7" using len(1) by (simp_all add: h_def pl_def bs)
  have n: "unat (from_be16 (h ! 0) (h ! Suc 0)) = 9 + length pl"
    using len(5) h7 by (simp add: bs b nth_append)
  have m: "read_magic d = (d\<lparr>co_stream := (co_stream d)\<lparr>rx := b @ r\<rparr>\<rparr>, Inr [0xff, 0x5a])"
    using assms(3) by (simp add: read_magic_def bindS_def co_read_def read_exact_def bs DETECT_def retS_def)
  have "frame_after [0xff, 0x5a] (d\<lparr>co_stream := (co_stream d)\<lparr>rx := b @ r\<rparr>\<rparr>)
      = (d\<lparr>co_stream := (co_stream d)\<lparr>rx := r\<rparr>\<rparr>, Inr f)"
    using n h7 len dec assms(2)
    by (simp add: frame_after_def bindS_def co_read_def read_exact_def b bs Let_def consts_simps liftS_def retS_def)
  with m show ?thesis by (simp add: control_frame_def bindS_def)
qed

lemma csm_front_whole:
  assumes "msg_encode m = Inr B"
  shows "csm_front B = Inr (Some (m, length B))"
proof -
  note dec = msg_decode_encode [OF assms]
  then have "6 \<le> length B" "length B \<le> 65525" "take 2 B = [0x40, 0x40]"
    "unat (from_be16 (B ! 2) (B ! 3)) = length B"
    by (auto simp: msg_decode_def MAX_MESSAGE_def split: if_splits)
  with dec show ?thesis by (simp add: csm_front_def)
qed

lemma csm_front_part:
  assumes "msg_encode m = Inr (p @ q)" and "q \<noteq> []"
  shows "csm_front p = Inr None"
proof (cases "length p < 6")
  case False
  note dec = msg_decode_encode [OF assms(1)]
  then have "length (p @ q) \<le> 65525" "take 2 (p @ q) = [0x40, 0x40]"
    "unat (from_be16 ((p @ q) ! 2) ((p @ q) ! 3)) = length (p @ q)"
    by (auto simp: msg_decode_def MAX_MESSAGE_def simp del: length_append split: if_splits)
  with False assms(2) show ?thesis by (simp add: csm_front_def nth_append)
qed (simp add: csm_front_def)

lemma write_frame_Inr:
  "write_frame f c = (c', Inr ()) \<Longrightarrow>
     \<exists>bs. frame_encode f = Inr bs \<and> length bs \<le> co_max_frame c
       \<and> c' = c\<lparr>co_stream := (co_stream c)\<lparr>tx := tx (co_stream c) @ bs,
            tx_room := tx_room (co_stream c) - length bs\<rparr>\<rparr>"
  by (auto simp: write_frame_def bindS_eq_Inr co_write_def write_all_def split: if_splits)

lemma send_parts_writes:
  "send_parts parts c = (c', Inr ()) \<Longrightarrow> \<exists>z. tx (co_stream c') = tx (co_stream c) @ z"
proof (induction parts arbitrary: c)
  case (Cons p parts)
  then obtain c1 where w: "write_frame \<lparr>flags = ACK, sequence = co_sent c + 1, acknowledgement = co_received c,
      session = CONTROL_SESSION, payload = p\<rparr> (c\<lparr>co_sent := co_sent c + 1\<rparr>) = (c1, Inr ())"
    and s: "send_parts parts c1 = (c', Inr ())"
    by (auto simp: Let_def bindS_eq_Inr)
  from Cons.IH [OF s] write_frame_Inr [OF w] show ?case by auto
qed simp

lemma send_parts_received:
  assumes "send_parts parts c = (c', Inr ())" and "\<forall>p \<in> set parts. p \<noteq> []"
    and "msg_encode m = Inr (co_csm_bytes d @ concat parts)" and "co_received d = co_sent c"
    and "tx (co_stream c') = tx (co_stream c) @ sent" and "rx (co_stream d) = sent @ r"
  shows "control_message d = (d\<lparr>co_stream := (co_stream d)\<lparr>rx := r\<rparr>, co_received := co_sent c',
     co_csm_bytes := []\<rparr>, Inr m)"
  using assms
proof (induction parts arbitrary: c d sent)
  case Nil
  then show ?case
    by (subst control_message.simps) (auto simp: csm_front_whole)
next
  case (Cons part parts)
  let ?c = "c\<lparr>co_sent := co_sent c + 1\<rparr>"
  let ?f = "\<lparr>flags = ACK, sequence = co_sent c + 1, acknowledgement = co_received c,
               session = CONTROL_SESSION, payload = part\<rparr>"
  from Cons.prems(1) obtain c1 where w: "write_frame ?f ?c = (c1, Inr ())"
    and s: "send_parts parts c1 = (c', Inr ())"
    by (auto simp: Let_def bindS_eq_Inr)
  from write_frame_Inr [OF w] obtain bs where bs: "frame_encode ?f = Inr bs"
    and c1: "c1 = ?c\<lparr>co_stream := (co_stream ?c)\<lparr>tx := tx (co_stream ?c) @ bs,
            tx_room := tx_room (co_stream ?c) - length bs\<rparr>\<rparr>" by blast
  from send_parts_writes [OF s] obtain sent' where z: "tx (co_stream c') = tx (co_stream c1) @ sent'" ..
  with Cons.prems(5) have sent: "sent = bs @ sent'" by (simp add: c1)
  let ?d1 = "d\<lparr>co_stream := (co_stream d)\<lparr>rx := sent' @ r\<rparr>\<rparr>"
  have f: "control_frame d = (?d1, Inr ?f)"
    by (rule control_frame_reads [OF bs]) (use Cons.prems(6) in \<open>simp_all add: sent consts_simps\<close>)
  have ne: "part \<noteq> []" using Cons.prems(2) by simp
  have total: "length (co_csm_bytes d) + length part \<le> 65525"
    using msg_decode_encode [OF Cons.prems(3)] by (auto simp: msg_decode_def MAX_MESSAGE_def split: if_splits)
  let ?d2 = "?d1\<lparr>co_received := co_sent c + 1, co_csm_bytes := co_csm_bytes d @ part\<rparr>"
  have a: "accept_data ?f ?d1 = (?d2, Inr ())"
    using ne total Cons.prems(4) by (simp add: accept_data_def Let_def)
  have "csm_front (co_csm_bytes d) = Inr None"
    by (rule csm_front_part [OF Cons.prems(3)]) (use ne in simp)
  with f a have "control_message d = control_message ?d2"
    by (subst control_message.simps) simp
  also have "\<dots> = (?d2\<lparr>co_stream := (co_stream ?d2)\<lparr>rx := r\<rparr>, co_received := co_sent c',
     co_csm_bytes := []\<rparr>, Inr m)"
    by (rule Cons.IH [OF s]) (use Cons.prems z in \<open>simp_all add: c1\<close>)
  finally show ?case by simp
qed

lemma retransmission_ignored:
  assumes "frame_encode f = Inr bs" and "flags f = ACK" and "session f = CONTROL_SESSION"
    and "sequence f = co_received d" and "rx (co_stream d) = bs @ r"
    and "csm_front (co_csm_bytes d) = Inr None"
  shows "control_message d = control_message (d\<lparr>co_stream := (co_stream d)\<lparr>rx := r\<rparr>\<rparr>)"
proof -
  have "control_frame d = (d\<lparr>co_stream := (co_stream d)\<lparr>rx := r\<rparr>\<rparr>, Inr f)"
    by (rule control_frame_reads [OF assms(1) _ assms(5)]) (simp add: assms(2) consts_simps)
  with assms show ?thesis by (subst control_message.simps) (simp add: accept_data_def)
qed

section \<open>Properties\<close>


text \<open>C4. A control message survives the wire: what \<open>send\<close> writes, split into numbered frames of
  the peer's size, is read back by \<open>message\<close> on the other side as exactly that message, with the
  receiver's sequence number following the sender's and the rest of the stream untouched.\<close>

theorem wired_send_message:
  assumes "control_send m c = (c', Inr ())" and "10 < co_max_frame c"
    and "co_received d = co_sent c" and "co_csm_bytes d = []"
    and "tx (co_stream c') = tx (co_stream c) @ sent" and "rx (co_stream d) = sent @ r"
  shows "control_message d = (d\<lparr>co_stream := (co_stream d)\<lparr>rx := r\<rparr>, co_received := co_sent c'\<rparr>, Inr m)"
proof -
  from assms(1) obtain B where B: "msg_encode m = Inr B"
    and s: "send_parts (chunks (co_max_frame c - 10) B) c = (c', Inr ())"
    by (auto simp: control_send_def bindS_eq_Inr)
  have "concat (chunks (co_max_frame c - 10) B) = B" using assms(2) by (simp add: concat_chunks)
  moreover have "\<forall>p \<in> set (chunks (co_max_frame c - 10) B). p \<noteq> []" by (auto dest: chunks_size)
  ultimately show ?thesis
    using send_parts_received [OF s _ _ assms(3,5,6), of m] B assms(4) by simp
qed

definition wit_stream :: byte_stream where
  "wit_stream = \<lparr>rx = [], rx_end = Stalled, tx = [], tx_room = 100\<rparr>"

theorem wired_send_message_witness:
  "control_message ((control_new wit_stream)\<lparr>co_stream := wit_stream\<lparr>rx :=
       [0xff, 0x5a, 0, 16, 0x40, 32, 0, 10, 0x2d, 0x40, 0x40, 0, 6, 0xaa, 5, 0xcb]\<rparr>, co_received := 31\<rparr>)
   = ((control_new wit_stream)\<lparr>co_stream := wit_stream, co_received := 32\<rparr>, Inr (msg_empty AUTH_SUCCEEDED))"
proof -
  let ?c = "control_new wit_stream"
  let ?bs = "[0xff, 0x5a, 0, 16, 0x40, 32, 0, 10, 0x2d, 0x40, 0x40, 0, 6, 0xaa, 5, 0xcb]"
  let ?c' = "?c\<lparr>co_sent := 32, co_stream := wit_stream\<lparr>tx := ?bs, tx_room := 84\<rparr>\<rparr>"
  let ?d = "?c\<lparr>co_stream := wit_stream\<lparr>rx := ?bs\<rparr>, co_received := 31\<rparr>"
  have s: "control_send (msg_empty AUTH_SUCCEEDED) ?c = (?c', Inr ())"
    by (simp add: control_send_def bindS_def liftS_def msg_encode_def msg_empty_def encode_parameters_def
        consts_simps csm_ids control_new_def wit_stream_def chunks.simps to_be16_def write_frame_def
        frame_encode_def frame_length_def checksum_def co_write_def write_all_def Let_def)
  have "control_message ?d = (?d\<lparr>co_stream := (co_stream ?d)\<lparr>rx := []\<rparr>, co_received := co_sent ?c'\<rparr>,
      Inr (msg_empty AUTH_SUCCEEDED))"
    by (rule wired_send_message [OF s, where sent = ?bs])
      (simp_all add: control_new_def wit_stream_def consts_simps)
  then show ?thesis by (simp add: control_new_def wit_stream_def)
qed

end
