(* ===== verification/Usb_Mux.thy ===== *)
theory Usb_Mux
  imports Protocol "HOL-Library.AList"
begin

text \<open>
  The USB multiplexer (\<open>native/carplay/src/protocol/usb_mux.rs\<close>): envelopes and TCP-like
  packets, splitting of the bulk input, and the event loop over at most four connections with
  32-bit sequence numbers. USB transfers and client pipes are the environment: a write to the
  device fails after \<open>mx_room\<close> messages, a write to a client has the outcome its event carries.
\<close>

definition MUX_MAX :: nat where [consts_simps]: "MUX_MAX = 65536"

section \<open>Envelopes and packets\<close>

definition envelope :: "u32 \<Rightarrow> u16 \<Rightarrow> u8 list \<Rightarrow> proto_error + u8 list" where
  "envelope protocol seq body =
     (if length body + 16 > MUX_MAX then Inl Bounds
      else Inr (to_be32 protocol @ to_be32 (of_nat (length body + 16)) @ to_be32 0xfeedface
                @ to_be16 seq @ [0, 0] @ body))"

record mux_packet =
  mp_source :: u16
  mp_destination :: u16
  mp_sequence :: u32
  mp_ack :: u32
  mp_flags :: u8
  mp_payload :: "u8 list"

definition mux_packet_decode :: "u8 list \<Rightarrow> proto_error + mux_packet" where
  "mux_packet_decode bytes =
     (if length bytes < 36 \<or> length bytes > MUX_MAX \<or> take 4 bytes \<noteq> to_be32 6
        \<or> take 4 (drop 4 bytes) \<noteq> to_be32 (of_nat (length bytes))
        \<or> take 4 (drop 8 bytes) \<noteq> to_be32 0xfaceface then Inl Malformed
      else
        let header = unat (drop_bit 4 (bytes ! 28)) * 4 in
        if header < 20 \<or> 16 + header > length bytes then Inl Bounds
        else Inr \<lparr>mp_source = from_be16 (bytes ! 16) (bytes ! 17),
                  mp_destination = from_be16 (bytes ! 18) (bytes ! 19),
                  mp_sequence = from_be32 (bytes ! 20) (bytes ! 21) (bytes ! 22) (bytes ! 23),
                  mp_ack = from_be32 (bytes ! 24) (bytes ! 25) (bytes ! 26) (bytes ! 27),
                  mp_flags = bytes ! 29, mp_payload = drop (16 + header) bytes\<rparr>)"

text \<open>One message at the front of the bulk input that was collected so far.\<close>

definition mux_size :: "u8 list \<Rightarrow> nat" where
  "mux_size buf = unat (from_be32 (buf ! 4) (buf ! 5) (buf ! 6) (buf ! 7))"

definition mux_parse :: "u8 list \<Rightarrow> proto_error + (u8 list \<times> nat) option" where
  "mux_parse buf =
     (if length buf < 8 then Inr None
      else if \<not> (16 \<le> mux_size buf \<and> mux_size buf \<le> MUX_MAX) then Inl Bounds
      else if length buf < mux_size buf then Inr None
      else Inr (Some (take (mux_size buf) buf, mux_size buf)))"

lemma mux_size_append: "\<not> length bs < 8 \<Longrightarrow> mux_size (bs @ ys) = mux_size bs"
  by (simp add: mux_size_def nth_append)

interpretation mux_stream: stream_framer mux_parse
proof unfold_locales
  fix bs ys m n e
  show "mux_parse bs = Inr (Some (m, n)) \<Longrightarrow> 0 < n \<and> n \<le> length bs"
    by (simp add: mux_parse_def split: if_splits)
  show "mux_parse bs = Inr (Some (m, n)) \<Longrightarrow> mux_parse (bs @ ys) = Inr (Some (m, n))"
    by (auto simp: mux_parse_def mux_size_append split: if_splits)
  show "mux_parse bs = Inl e \<Longrightarrow> mux_parse (bs @ ys) = Inl e"
    by (simp add: mux_parse_def mux_size_append split: if_splits)
qed

text \<open>One completed bulk transfer: the messages it completes and the bytes kept.\<close>

definition mux_incoming :: "u8 list \<Rightarrow> u8 list \<Rightarrow> proto_error + (u8 list list \<times> u8 list)" where
  "mux_incoming kept bytes =
     (if length kept + length bytes > MUX_MAX * 2 then Inl Bounds
      else drain mux_parse (kept @ bytes))"

lemma from_be32_less: "unat (from_be32 a b c d) < 4294967296"
  by (rule unat_bounds)

lemma mux_incoming_kept:
  assumes "mux_incoming kept bytes = Inr (ms, r)"
  shows "length r < MUX_MAX"
proof -
  from assms have d: "drain mux_parse (kept @ bytes) = Inr (ms, r)"
    by (simp add: mux_incoming_def split: if_splits)
  show ?thesis using mux_stream.drain_rest [OF d]
    by (simp add: mux_parse_def MUX_MAX_def split: if_splits)
qed

section \<open>The event loop\<close>

text \<open>\<open>mc_ready\<close>: the requester still waits for the connection, whose client end is kept.\<close>

record mux_conn =
  mc_remote :: u16
  mc_sent :: u32
  mc_received :: u32
  mc_acknowledged :: u32
  mc_ready :: bool
  mc_client :: bool

definition conn_encode :: "mux_conn \<Rightarrow> u8 \<Rightarrow> u8 list \<Rightarrow> u8 list" where
  "conn_encode c fl pl =
     [0, 0] @ to_be16 (mc_remote c) @ to_be32 (mc_sent c) @ to_be32 (mc_received c)
     @ [0x50, fl, 2, 0, 0, 0, 0, 0] @ pl"

datatype mux_event =
    MxOpen u16
  | MxData u16 "u8 list"
  | MxClosed u16
  | MxPacket "u8 list" bool "proto_error option"
  | MxReaderEnded
  | MxInputFailed proto_error

datatype mux_note = OpenRefused | ClientReady u16

text \<open>
  The local variables of the loop, the messages written to the device and the bytes handed to
  each client. \<open>mx_tasks\<close> counts the reader of the device and the readers of the clients.
\<close>

record mux =
  mx_conns :: "(u16 \<times> mux_conn) list"
  mx_port :: u16
  mx_sequence :: u16
  mx_tasks :: nat
  mx_out :: "u8 list list"
  mx_room :: nat
  mx_fault :: proto_error
  mx_delivered :: "(u16 \<times> u8 list) list"

definition mux_write :: "u8 list \<Rightarrow> mux \<Rightarrow> mux \<times> (proto_error + unit)" where
  "mux_write bytes m =
     (if mx_room m = 0 then (m, Inl (mx_fault m))
      else (m\<lparr>mx_out := mx_out m @ [bytes], mx_room := mx_room m - 1\<rparr>, Inr ()))"

definition mux_send :: "u16 \<Rightarrow> mux_conn \<Rightarrow> u8 \<Rightarrow> u8 list \<Rightarrow> mux \<Rightarrow> mux \<times> (proto_error + unit)" where
  "mux_send local c fl bytes m =
     (let tcp = to_be16 local @ drop 2 (conn_encode c fl bytes) in
      case envelope 6 (mx_sequence m) tcp of
        Inl e \<Rightarrow> (m, Inl e)
      | Inr msg \<Rightarrow> mux_write msg (m\<lparr>mx_sequence := mx_sequence m + 1\<rparr>))"

definition set_conn :: "u16 \<Rightarrow> mux_conn \<Rightarrow> mux \<Rightarrow> mux" where
  "set_conn local c m = m\<lparr>mx_conns := AList.update local c (mx_conns m)\<rparr>"

definition drop_conn :: "u16 \<Rightarrow> mux \<Rightarrow> mux" where
  "drop_conn local m = m\<lparr>mx_conns := AList.delete local (mx_conns m)\<rparr>"

definition mux_open :: "u16 \<Rightarrow> mux \<Rightarrow> mux \<times> (proto_error + mux_note list)" where
  "mux_open remote m =
     (if length (mx_conns m) \<ge> 4 \<or> mx_tasks m \<ge> 9 \<or> mx_port m = 65535 then (m, Inr [OpenRefused])
      else
        let local = mx_port m;
            c = \<lparr>mc_remote = remote, mc_sent = 0, mc_received = 0, mc_acknowledged = 0,
                 mc_ready = True, mc_client = True\<rparr>;
            m = m\<lparr>mx_port := mx_port m + 1, mx_tasks := mx_tasks m + 1\<rparr> in
        bindS (mux_send local c 2 []) (\<lambda>_ m. (set_conn local c m, Inr [])) m)"

definition mux_data :: "u16 \<Rightarrow> u8 list \<Rightarrow> mux \<Rightarrow> mux \<times> (proto_error + mux_note list)" where
  "mux_data local bytes m =
     (case map_of (mx_conns m) local of
        None \<Rightarrow> (m, Inr [])
      | Some c \<Rightarrow>
          if mc_ready c \<or> mc_sent c - mc_acknowledged c > 131072 then (m, Inl Bounds)
          else bindS (mux_send local c 16 bytes) (\<lambda>_ m.
                 (set_conn local (c\<lparr>mc_sent := mc_sent c + of_nat (length bytes)\<rparr>) m, Inr [])) m)"

definition mux_closed :: "u16 \<Rightarrow> mux \<Rightarrow> mux \<times> (proto_error + mux_note list)" where
  "mux_closed local m =
     (case map_of (mx_conns m) local of
        None \<Rightarrow> (m, Inr [])
      | Some c \<Rightarrow> bindS (mux_send local c 17 []) (\<lambda>_. retS []) (drop_conn local m))"

text \<open>The handshake answer, and the three steps for a packet of an established connection.\<close>

definition mux_syn_ack :: "u16 \<Rightarrow> mux_conn \<Rightarrow> mux_packet \<Rightarrow> bool \<Rightarrow> mux \<Rightarrow> mux \<times> (proto_error + mux_note list)" where
  "mux_syn_ack local c p waiting m =
     (if mp_ack p \<noteq> 1 then (m, Inl Sequence)
      else
        let c = c\<lparr>mc_sent := 1, mc_acknowledged := 1, mc_received := mp_sequence p + 1\<rparr> in
        bindS (mux_send local c 16 []) (\<lambda>_ m.
          if \<not> mc_client c then (m, Inl State)
          else if waiting
          then (set_conn local (c\<lparr>mc_client := False, mc_ready := False\<rparr>) m, Inr [ClientReady local])
          else (drop_conn local m, Inr [])) m)"

definition mux_ack :: "mux_packet \<Rightarrow> mux_conn \<Rightarrow> proto_error + mux_conn" where
  "mux_ack p c =
     (if mp_flags p AND 16 = 0 then Inr c
      else if mp_ack p - mc_acknowledged c \<le> mc_sent c - mc_acknowledged c
      then Inr (c\<lparr>mc_acknowledged := mp_ack p\<rparr>)
      else Inl Sequence)"

definition mux_payload ::
  "u16 \<Rightarrow> mux_packet \<Rightarrow> proto_error option \<Rightarrow> mux_conn \<Rightarrow> mux \<Rightarrow> mux \<times> (proto_error + mux_conn)" where
  "mux_payload local p outcome c m =
     (if mp_payload p = [] then (m, Inr c)
      else if mp_sequence p = mc_received c then
        (case outcome of
           Some e \<Rightarrow> (m, Inl e)
         | None \<Rightarrow>
             let c = c\<lparr>mc_received := mc_received c + of_nat (length (mp_payload p))\<rparr> in
             bindS (mux_send local c 16 []) (\<lambda>_. retS c)
               (m\<lparr>mx_delivered := mx_delivered m @ [(local, mp_payload p)]\<rparr>))
      else if mp_sequence p + of_nat (length (mp_payload p)) \<noteq> mc_received c then (m, Inl Sequence)
      else bindS (mux_send local c 16 []) (\<lambda>_. retS c) m)"

definition mux_fin :: "u16 \<Rightarrow> mux_packet \<Rightarrow> mux_conn \<Rightarrow> mux \<Rightarrow> mux \<times> (proto_error + mux_note list)" where
  "mux_fin local p c m =
     (if mp_flags p AND 1 = 0 then (set_conn local c m, Inr [])
      else
        bindS (mux_send local (c\<lparr>mc_received := mc_received c + 1\<rparr>) 16 [])
          (\<lambda>_ m. (drop_conn local m, Inr [])) m)"

definition mux_received ::
  "u8 list \<Rightarrow> bool \<Rightarrow> proto_error option \<Rightarrow> mux \<Rightarrow> mux \<times> (proto_error + mux_note list)" where
  "mux_received bytes waiting outcome m =
     (if take 4 bytes \<noteq> to_be32 6 then (m, Inr [])
      else case mux_packet_decode bytes of
        Inl e \<Rightarrow> (m, Inl e)
      | Inr p \<Rightarrow>
          let local = mp_destination p in
          (case map_of (mx_conns m) local of
             None \<Rightarrow> (m, Inr [])
           | Some c \<Rightarrow>
               if mp_source p \<noteq> mc_remote c then (m, Inl Malformed)
               else if mp_flags p AND 4 \<noteq> 0 then (drop_conn local m, Inr [])
               else if mp_flags p AND 18 = 18 \<and> mc_ready c then mux_syn_ack local c p waiting m
               else if mc_ready c then (m, Inl State)
               else bindS (liftS id (mux_ack p c)) (\<lambda>c.
                    bindS (mux_payload local p outcome c) (\<lambda>c. mux_fin local p c)) m))"

fun mux_step :: "mux \<Rightarrow> mux_event \<Rightarrow> mux \<times> (proto_error + mux_note list)" where
  "mux_step m (MxOpen remote) = mux_open remote m"
| "mux_step m (MxData local bytes) = mux_data local bytes m"
| "mux_step m (MxClosed local) = mux_closed local m"
| "mux_step m (MxPacket bytes waiting outcome) = mux_received bytes waiting outcome m"
| "mux_step m MxReaderEnded = (m\<lparr>mx_tasks := mx_tasks m - 1\<rparr>, Inr [])"
| "mux_step m (MxInputFailed e) = (m, Inl e)"

text \<open>The loop ends with the first error.\<close>

fun mux_run :: "mux \<Rightarrow> mux_event list \<Rightarrow> mux \<times> (proto_error + unit)" where
  "mux_run m [] = (m, Inr ())"
| "mux_run m (e # es) =
     (case mux_step m e of
        (m', Inl err) \<Rightarrow> (m', Inl err)
      | (m', Inr _) \<Rightarrow> mux_run m' es)"

definition mux_new :: "nat \<Rightarrow> proto_error \<Rightarrow> mux" where
  "mux_new room fault = \<lparr>mx_conns = [], mx_port = 1, mx_sequence = 1, mx_tasks = 1, mx_out = [],
     mx_room = room, mx_fault = fault, mx_delivered = []\<rparr>"

section \<open>Windows\<close>

lemma mux_send_frame:
  "mux_send local c fl bs m = (m', r) \<Longrightarrow>
     mx_conns m' = mx_conns m \<and> mx_port m' = mx_port m \<and> mx_delivered m' = mx_delivered m"
  by (auto simp: mux_send_def mux_write_def Let_def split: sum.splits if_splits)

definition conn_ok :: "mux_conn \<Rightarrow> bool" where
  "conn_ok c \<longleftrightarrow> mc_client c = mc_ready c \<and> unat (mc_sent c - mc_acknowledged c) \<le> 147456"

definition mux_inv :: "mux \<Rightarrow> bool" where
  "mux_inv m \<longleftrightarrow> distinct (map fst (mx_conns m)) \<and> length (mx_conns m) \<le> 4 \<and>
     (\<forall>(l, c) \<in> set (mx_conns m). l < mx_port m \<and> conn_ok c)"

lemma mux_inv_same:
  "mx_conns m' = mx_conns m \<Longrightarrow> mx_port m' = mx_port m \<Longrightarrow> mux_inv m' = mux_inv m"
  by (simp add: mux_inv_def)

lemma delete_props:
  "length (AList.delete l xs) \<le> length xs" "set (AList.delete l xs) \<subseteq> set xs"
  "distinct (map fst xs) \<Longrightarrow> distinct (map fst (AList.delete l xs))"
  by (auto simp: AList.delete_eq distinct_map_filter)

lemma mux_inv_drop: "mux_inv m \<Longrightarrow> mux_inv (drop_conn l m)"
  using delete_props [where l = l and xs = "mx_conns m"] by (auto simp: mux_inv_def drop_conn_def)

lemma length_update_present:
  "l \<in> fst ` set xs \<Longrightarrow> length (AList.update l c xs) = length xs"
  by (induction xs) auto

lemma set_update_subset: "set (AList.update l c xs) \<subseteq> insert (l, c) (set xs)"
  by (induction xs) auto

lemma map_of_key: "map_of xs l = Some c \<Longrightarrow> l \<in> fst ` set xs"
  by (metis map_of_SomeD fst_conv image_eqI)

lemma mux_inv_set:
  assumes "mux_inv m" and "map_of (mx_conns m) l = Some c0" and "conn_ok c"
  shows "mux_inv (set_conn l c m)"
proof -
  from assms(1,2) have "l < mx_port m" by (auto simp: mux_inv_def dest!: map_of_SomeD)
  then show ?thesis
    using assms map_of_key [OF assms(2)] set_update_subset [of l c "mx_conns m"]
    by (auto simp: mux_inv_def set_conn_def length_update_present AList.distinct_update)
qed

lemma inc_port: "(p :: u16) \<noteq> 65535 \<Longrightarrow> p < p + 1"
  using inc_less_eq_triv_imp [of p] by (force simp: not_less)

lemma mux_open_inv:
  assumes "mux_inv m" and "mux_open remote m = (m', r)"
  shows "mux_inv m'"
proof (cases "length (mx_conns m) \<ge> 4 \<or> mx_tasks m \<ge> 9 \<or> mx_port m = 65535")
  case False
  let ?c = "\<lparr>mc_remote = remote, mc_sent = 0, mc_received = 0, mc_acknowledged = 0,
                 mc_ready = True, mc_client = True\<rparr>"
  let ?m = "m\<lparr>mx_port := mx_port m + 1, mx_tasks := mx_tasks m + 1\<rparr>"
  obtain m1 q where s: "mux_send (mx_port m) ?c 2 [] ?m = (m1, q)" by (cases "mux_send (mx_port m) ?c 2 [] ?m")
  note k = mux_send_frame [OF s]
  from False have lt: "mx_port m < mx_port m + 1" by (simp add: inc_port)
  have fresh: "mx_port m \<notin> fst ` set (mx_conns m)" using assms(1) by (auto simp: mux_inv_def)
  have upd: "AList.update l c xs = xs @ [(l, c)]" if "l \<notin> fst ` set xs" for l xs and c :: mux_conn
    using that by (induction xs) auto
  have less: "x < mx_port m \<Longrightarrow> x < mx_port m + 1" for x using lt by (rule order.strict_trans [rotated])
  have m1: "mux_inv m1" and "mux_inv (set_conn (mx_port m) ?c m1)"
    using assms(1) k less lt fresh False
    by (auto simp: mux_inv_def set_conn_def upd conn_ok_def not_le)
  with assms(2) False s show ?thesis
    by (auto simp: mux_open_def Let_def bindS_def split: sum.splits)
qed (use assms in \<open>simp add: mux_open_def\<close>)

lemma mux_data_inv:
  assumes "mux_inv m" and "length bytes \<le> 16384" and "mux_data local bytes m = (m', r)"
  shows "mux_inv m'"
proof (cases "map_of (mx_conns m) local")
  case (Some c)
  show ?thesis
  proof (cases "mc_ready c \<or> mc_sent c - mc_acknowledged c > 131072")
    case False
    obtain m1 q where s: "mux_send local c 16 bytes m = (m1, q)" by (cases "mux_send local c 16 bytes m")
    note k = mux_send_frame [OF s]
    have i1: "mux_inv m1" using assms(1) k by (simp add: mux_inv_same [of m1 m])
    let ?c = "c\<lparr>mc_sent := mc_sent c + of_nat (length bytes)\<rparr>"
    from assms(1) Some have ok: "conn_ok c" by (auto simp: mux_inv_def dest!: map_of_SomeD)
    let ?d = "mc_sent c - mc_acknowledged c"
    from False have d: "unat ?d \<le> 131072" by (simp add: not_less word_le_nat_alt)
    have "unat (?d + of_nat (length bytes)) = unat ?d + length bytes"
      using d assms(2) by (simp add: unat_word_ariths unat_of_nat)
    moreover have "mc_sent ?c - mc_acknowledged ?c = ?d + of_nat (length bytes)" by simp
    ultimately have "conn_ok ?c" using ok d assms(2) by (simp only: conn_ok_def) simp
    with i1 k Some have "mux_inv (set_conn local ?c m1)" by (intro mux_inv_set) auto
    with i1 assms(3) Some False s show ?thesis
      by (auto simp: mux_data_def bindS_def split: sum.splits)
  qed (use assms Some in \<open>simp add: mux_data_def\<close>)
qed (use assms in \<open>simp add: mux_data_def\<close>)

lemma mux_closed_inv:
  assumes "mux_inv m" and "mux_closed local m = (m', r)"
  shows "mux_inv m'"
  using assms mux_inv_drop [OF assms(1), of local]
  by (auto simp: mux_closed_def bindS_def split: option.splits sum.splits prod.splits
      dest!: mux_send_frame mux_inv_same)

lemma mux_ack_ok: "conn_ok c \<Longrightarrow> mux_ack p c = Inr c' \<Longrightarrow>
   conn_ok c' \<and> mc_received c' = mc_received c \<and> mc_ready c' = mc_ready c"
proof -
  assume ok: "conn_ok c" and a: "mux_ack p c = Inr c'"
  let ?x = "mp_ack p - mc_acknowledged c" let ?y = "mc_sent c - mc_acknowledged c"
  have "unat (mc_sent c - mp_ack p) \<le> unat ?y" if "?x \<le> ?y"
  proof -
    have "mc_sent c - mp_ack p = ?y - ?x" by simp
    then show ?thesis using that by (metis diff_le_self unat_sub)
  qed
  with ok a show ?thesis by (auto simp: mux_ack_def conn_ok_def split: if_splits)
qed

lemma mux_payload_keeps:
  assumes "mux_payload local p outcome c m = (m', r)"
  shows "mx_conns m' = mx_conns m \<and> mx_port m' = mx_port m"
    and "r = Inr c' \<Longrightarrow> conn_ok c \<Longrightarrow> conn_ok c' \<and> mc_ready c' = mc_ready c"
  using assms
  by (auto simp: mux_payload_def bindS_def Let_def conn_ok_def retS_def
      split: if_splits option.splits prod.splits sum.splits dest!: mux_send_frame)

lemma mux_fin_inv:
  assumes "mux_inv m" and "map_of (mx_conns m) local = Some c0" and "conn_ok c"
    and "mux_fin local p c m = (m', r)"
  shows "mux_inv m'"
  using assms mux_inv_set [OF assms(1,2,3)] mux_inv_drop
  by (auto simp: mux_fin_def bindS_def split: if_splits prod.splits sum.splits
      dest!: mux_send_frame mux_inv_same)

lemma mux_syn_ack_inv:
  assumes "mux_inv m" and "map_of (mx_conns m) local = Some c" and "mux_syn_ack local c p waiting m = (m', r)"
  shows "mux_inv m'"
proof -
  let ?c = "c\<lparr>mc_sent := 1, mc_acknowledged := 1, mc_received := mp_sequence p + 1\<rparr>"
  obtain m1 q where s: "mux_send local ?c 16 [] m = (m1, q)" by (cases "mux_send local ?c 16 [] m")
  note k = mux_send_frame [OF s]
  have i1: "mux_inv m1" using assms(1) k by (simp add: mux_inv_same [of m1 m])
  have "mux_inv (set_conn local (?c\<lparr>mc_client := False, mc_ready := False\<rparr>) m1)"
    by (rule mux_inv_set [OF i1]) (use k assms(2) in \<open>simp_all add: conn_ok_def\<close>)
  with i1 mux_inv_drop [OF i1, of local] assms s show ?thesis
    by (auto simp: mux_syn_ack_def Let_def bindS_def split: if_splits sum.splits)
qed

lemma mux_received_inv:
  assumes "mux_inv m" and "mux_received bytes waiting outcome m = (m', r)"
  shows "mux_inv m'"
proof (cases "take 4 bytes \<noteq> to_be32 6")
  case False
  show ?thesis
  proof (cases "mux_packet_decode bytes")
    case (Inr p)
    let ?l = "mp_destination p"
    show ?thesis
    proof (cases "map_of (mx_conns m) ?l")
      case (Some c)
      then have ok: "conn_ok c" using assms(1) by (auto simp: mux_inv_def dest!: map_of_SomeD)
      have data: "mux_inv m'" if d: "bindS (liftS id (mux_ack p c)) (\<lambda>c.
                    bindS (mux_payload ?l p outcome c) (\<lambda>c. mux_fin ?l p c)) m = (m', r)"
      proof (cases "mux_ack p c")
        case (Inr c1)
        note ok1 = mux_ack_ok [OF ok Inr]
        obtain m1 q where pl: "mux_payload ?l p outcome c1 m = (m1, q)" by (cases "mux_payload ?l p outcome c1 m")
        note k = mux_payload_keeps(1) [OF pl]
        have i1: "mux_inv m1" using assms(1) k by (simp add: mux_inv_same [of m1 m])
        show ?thesis
        proof (cases q)
          case (Inr c2)
          with ok1 mux_payload_keeps(2) [OF pl] have "conn_ok c2" by blast
          with i1 k Some d \<open>mux_ack p c = Inr c1\<close> pl Inr show ?thesis
            by (auto simp: bindS_def liftS_def intro: mux_fin_inv)
        qed (use d pl Inr i1 in \<open>simp add: bindS_def liftS_def\<close>)
      qed (use d assms(1) in \<open>simp add: bindS_def liftS_def\<close>)
      from assms False Inr Some show ?thesis
        by (auto simp: mux_received_def Let_def mux_inv_drop mux_syn_ack_inv split: if_splits dest!: data)
    qed (use assms False Inr in \<open>simp add: mux_received_def Let_def\<close>)
  qed (use assms False in \<open>simp add: mux_received_def\<close>)
qed (use assms in \<open>simp add: mux_received_def\<close>)

section \<open>Delivery in order\<close>

text \<open>
  The phone's side of connection \<open>l\<close> is a byte string \<open>S\<close> numbered from \<open>isn + 1\<close>: its data
  packets carry slices of \<open>S\<close>, in any order and as often as it likes, and its handshake
  carries \<open>isn\<close>. \<open>delivered l m\<close> is what the client of that connection has been given.
\<close>

definition delivered :: "u16 \<Rightarrow> mux \<Rightarrow> u8 list" where
  "delivered l m = concat (map snd (filter (\<lambda>(k, b). k = l) (mx_delivered m)))"

definition slice_packet :: "u32 \<Rightarrow> u8 list \<Rightarrow> mux_packet \<Rightarrow> bool" where
  "slice_packet isn S p \<longleftrightarrow>
     (mp_flags p AND 18 = 18 \<longrightarrow> mp_sequence p = isn \<and> mp_payload p = [])
     \<and> (mp_payload p \<noteq> [] \<longrightarrow> (\<exists>i. mp_sequence p = isn + 1 + of_nat i \<and> i + length (mp_payload p) \<le> length S
            \<and> mp_payload p = take (length (mp_payload p)) (drop i S)))"

fun from_phone :: "u16 \<Rightarrow> u32 \<Rightarrow> u8 list \<Rightarrow> mux_event \<Rightarrow> bool" where
  "from_phone l isn S (MxPacket bytes _ _) =
     (case mux_packet_decode bytes of
        Inr p \<Rightarrow> mp_destination p = l \<longrightarrow> slice_packet isn S p
      | Inl _ \<Rightarrow> True)"
| "from_phone l isn S (MxData _ bytes) = (length bytes \<le> 16384)"
| "from_phone l isn S _ = True"

definition conn_at :: "u32 \<Rightarrow> nat \<Rightarrow> mux_conn \<Rightarrow> bool" where
  "conn_at isn k c \<longleftrightarrow> (if mc_ready c then k = 0 else mc_received c = isn + 1 + of_nat k)"

definition delivery_at :: "u16 \<Rightarrow> u32 \<Rightarrow> u8 list \<Rightarrow> nat \<Rightarrow> mux \<Rightarrow> bool" where
  "delivery_at l isn S k m \<longleftrightarrow>
     k \<le> length S \<and> delivered l m = take k S \<and> (k = 0 \<or> l < mx_port m)
     \<and> (\<forall>c. map_of (mx_conns m) l = Some c \<longrightarrow> conn_at isn k c)"

lemma delivery_same:
  assumes "delivery_at l isn S k m" and "mx_conns m' = mx_conns m" and "mx_port m' = mx_port m"
    and "mx_delivered m' = mx_delivered m"
  shows "delivery_at l isn S k m'"
  using assms by (simp add: delivery_at_def delivered_def)

lemma delivery_drop: "delivery_at l isn S k m \<Longrightarrow> delivery_at l isn S k (drop_conn j m)"
  by (auto simp: delivery_at_def delivered_def drop_conn_def AList.delete_conv' split: if_splits)

lemma delivery_set:
  assumes "delivery_at l isn S k m" and "map_of (mx_conns m) j = Some c0"
    and "j = l \<Longrightarrow> mc_received c = mc_received c0 \<and> mc_ready c = mc_ready c0"
  shows "delivery_at l isn S k (set_conn j c m)"
proof (cases "j = l")
  case True
  with assms have "conn_at isn k c0" "conn_at isn k c = conn_at isn k c0"
    by (simp add: delivery_at_def, simp add: conn_at_def)
  with assms(1) True show ?thesis
    by (simp add: delivery_at_def delivered_def set_conn_def AList.update_conv')
next
  case False
  with assms(1) show ?thesis
    by (simp add: delivery_at_def delivered_def set_conn_def AList.update_conv')
qed

lemma of_nat_u32_inj: "m < 4294967296 \<Longrightarrow> n < 4294967296 \<Longrightarrow> (of_nat m :: u32) = of_nat n \<Longrightarrow> m = n"
  by (metis unat_of_nat_u32)

lemma take_extend: "i + n \<le> length S \<Longrightarrow> take i S @ take n (drop i S) = take (i + n) S"
  by (simp add: take_add)

text \<open>A data packet at the expected number extends the delivered prefix by exactly its bytes.\<close>

lemma delivery_slice:
  assumes "length S < 4294967295" and "slice_packet isn S p" and "mp_payload p \<noteq> []"
    and "k \<le> length S" and "mp_sequence p = isn + 1 + of_nat k"
  shows "k + length (mp_payload p) \<le> length S \<and> take k S @ mp_payload p = take (k + length (mp_payload p)) S"
proof -
  from assms(2,3) obtain i where i: "mp_sequence p = isn + 1 + of_nat i"
    "i + length (mp_payload p) \<le> length S" "mp_payload p = take (length (mp_payload p)) (drop i S)"
    unfolding slice_packet_def by blast
  from i(1) assms(5) have "(of_nat i :: u32) = of_nat k" by simp
  then have "i = k" by (rule of_nat_u32_inj [rotated 2]) (use assms(1,4) i(2) in simp_all)
  with i(2,3) take_extend [of k "length (mp_payload p)" S] show ?thesis by simp
qed

lemma delivery_open:
  assumes d: "delivery_at l isn S k m" and "mux_open remote m = (m', r)"
  shows "delivery_at l isn S k m'"
proof (cases "length (mx_conns m) \<ge> 4 \<or> mx_tasks m \<ge> 9 \<or> mx_port m = 65535")
  case False
  let ?c = "\<lparr>mc_remote = remote, mc_sent = 0, mc_received = 0, mc_acknowledged = 0,
                 mc_ready = True, mc_client = True\<rparr>"
  let ?m = "m\<lparr>mx_port := mx_port m + 1, mx_tasks := mx_tasks m + 1\<rparr>"
  obtain m1 q where s: "mux_send (mx_port m) ?c 2 [] ?m = (m1, q)" by (cases "mux_send (mx_port m) ?c 2 [] ?m")
  note k = mux_send_frame [OF s]
  from False have lt: "mx_port m < mx_port m + 1" by (simp add: inc_port)
  have le: "l < mx_port m \<Longrightarrow> l < mx_port m + 1" using lt by (rule order.strict_trans [rotated])
  have port: "conn_at isn k ?c" if "l = mx_port m" using d that by (auto simp: delivery_at_def conn_at_def)
  from d k le have "delivery_at l isn S k m1"
    by (simp add: delivery_at_def delivered_def) blast
  moreover have "delivery_at l isn S k (set_conn (mx_port m) ?c m1)" if "delivery_at l isn S k m1"
    using that port by (simp add: delivery_at_def delivered_def set_conn_def AList.update_conv')
  moreover from assms(2) False s have "m' = m1 \<or> m' = set_conn (mx_port m) ?c m1"
    by (auto simp: mux_open_def Let_def bindS_def split: sum.splits)
  ultimately show ?thesis by blast
qed (use assms in \<open>simp add: mux_open_def\<close>)

lemma delivery_data:
  assumes d: "delivery_at l isn S k m" and "mux_data j bytes m = (m', r)"
  shows "delivery_at l isn S k m'"
proof (cases "map_of (mx_conns m) j")
  case (Some c)
  obtain m1 q where s: "mux_send j c 16 bytes m = (m1, q)" by (cases "mux_send j c 16 bytes m")
  note f = mux_send_frame [OF s]
  have "delivery_at l isn S k m1" by (rule delivery_same [OF d]) (simp_all add: f)
  moreover from this have "delivery_at l isn S k (set_conn j (c\<lparr>mc_sent := n\<rparr>) m1)" for n
    by (rule delivery_set) (simp_all add: f Some)
  ultimately show ?thesis
    using assms Some s by (auto simp: mux_data_def bindS_def split: if_splits sum.splits)
qed (use assms in \<open>simp add: mux_data_def\<close>)

lemma delivery_send:
  assumes "delivery_at l isn S k m" and "mux_send j c fl bs m = (m', r)"
  shows "delivery_at l isn S k m'"
  by (rule delivery_same [OF assms(1)]) (simp_all add: mux_send_frame [OF assms(2)])

lemma delivery_closed:
  assumes d: "delivery_at l isn S k m" and "mux_closed j m = (m', r)"
  shows "delivery_at l isn S k m'"
  using assms delivery_send [OF delivery_drop [OF d, of j]]
  by (auto simp: mux_closed_def bindS_def split: option.splits sum.splits prod.splits)

lemma delivery_syn_ack:
  assumes d: "delivery_at l isn S k m" and c: "map_of (mx_conns m) j = Some c" "mc_ready c"
    and "j = l \<Longrightarrow> mp_sequence p = isn" and r: "mux_syn_ack j c p waiting m = (m', r)"
  shows "delivery_at l isn S k m'"
proof -
  let ?c = "c\<lparr>mc_sent := 1, mc_acknowledged := 1, mc_received := mp_sequence p + 1\<rparr>"
  let ?c' = "?c\<lparr>mc_client := False, mc_ready := False\<rparr>"
  obtain m1 q where s: "mux_send j ?c 16 [] m = (m1, q)" by (cases "mux_send j ?c 16 [] m")
  note d1 = delivery_send [OF d s]
  from r s have "m' = m \<or> m' = m1 \<or> m' = set_conn j ?c' m1 \<or> m' = drop_conn j m1"
    by (auto simp: mux_syn_ack_def Let_def bindS_def split: if_splits sum.splits)
  moreover have "delivery_at l isn S k (set_conn j ?c' m1)"
  proof (cases "j = l")
    case True
    with d c have "conn_at isn k c" by (simp add: delivery_at_def)
    then have "k = 0" using c(2) by (simp add: conn_at_def)
    then have "conn_at isn k ?c'" using assms(4) True by (simp add: conn_at_def)
    with d1 True show ?thesis
      by (simp add: delivery_at_def delivered_def set_conn_def AList.update_conv')
  next
    case False
    with d1 show ?thesis
      by (simp add: delivery_at_def delivered_def set_conn_def AList.update_conv')
  qed
  ultimately show ?thesis using d d1 delivery_drop [OF d1, of j] by auto
qed

text \<open>The payload step: a delivered slice moves the count of the connection it belongs to.\<close>

definition delivery_next :: "u16 \<Rightarrow> u32 \<Rightarrow> u8 list \<Rightarrow> nat \<Rightarrow> mux_conn \<Rightarrow> mux \<Rightarrow> bool" where
  "delivery_next l isn S k c m \<longleftrightarrow>
     k \<le> length S \<and> delivered l m = take k S \<and> (k = 0 \<or> l < mx_port m)
     \<and> mc_received c = isn + 1 + of_nat k \<and> \<not> mc_ready c"

lemma delivery_nextI:
  "delivery_at l isn S k m \<Longrightarrow> map_of (mx_conns m) l = Some c \<Longrightarrow> \<not> mc_ready c \<Longrightarrow> delivery_next l isn S k c m"
  by (auto simp: delivery_at_def delivery_next_def conn_at_def)

lemma delivery_next_set: "delivery_next l isn S k c m \<Longrightarrow> delivery_at l isn S k (set_conn l c m)"
  by (auto simp: delivery_at_def delivery_next_def delivered_def set_conn_def AList.update_conv' conn_at_def)

lemma delivery_next_drop: "delivery_next l isn S k c m \<Longrightarrow> delivery_at l isn S k (drop_conn l m)"
  by (auto simp: delivery_at_def delivery_next_def delivered_def drop_conn_def AList.delete_conv')

lemma delivery_next_payload:
  assumes d: "delivery_next l isn S k c m" and S: "length S < 4294967295" and p: "slice_packet isn S p"
    and r: "mux_payload l p outcome c m = (m', Inr c')" and port: "l < mx_port m"
  shows "\<exists>k' \<ge> k. delivery_next l isn S k' c' m'"
proof -
  let ?n = "length (mp_payload p)"
  consider (empty) "mp_payload p = []" | (fresh) "mp_payload p \<noteq> []" "mp_sequence p = mc_received c"
    | (old) "mp_payload p \<noteq> []" "mp_sequence p \<noteq> mc_received c" by blast
  then show ?thesis
  proof cases
    case empty
    with d r show ?thesis by (auto simp: mux_payload_def)
  next
    case old
    then obtain q where "mux_send l c 16 [] m = (m', q)" "c' = c"
      using r by (auto simp: mux_payload_def bindS_eq_Inr split: if_splits)
    then show ?thesis using d mux_send_frame by (auto simp: delivery_next_def delivered_def)
  next
    case fresh
    have k: "k \<le> length S" "mp_sequence p = isn + 1 + of_nat k" using d fresh by (auto simp: delivery_next_def)
    note ext = delivery_slice [OF S p fresh(1) k]
    let ?c = "c\<lparr>mc_received := mc_received c + of_nat ?n\<rparr>"
    let ?m = "m\<lparr>mx_delivered := mx_delivered m @ [(l, mp_payload p)]\<rparr>"
    from r fresh obtain q where s: "mux_send l ?c 16 [] ?m = (m', q)" and c': "c' = ?c"
      by (auto simp: mux_payload_def bindS_eq_Inr Let_def split: option.splits)
    have "delivered l m' = take (k + ?n) S"
      using d ext mux_send_frame [OF s] by (simp add: delivery_next_def delivered_def)
    then have "delivery_next l isn S (k + ?n) c' m'"
      using d ext port mux_send_frame [OF s] by (auto simp: delivery_next_def c' algebra_simps)
    then show ?thesis by (intro exI [of _ "k + ?n"]) simp
  qed
qed

lemma mux_ack_keeps:
  "mux_ack p c = Inr c' \<Longrightarrow> mc_received c' = mc_received c \<and> mc_ready c' = mc_ready c"
  by (auto simp: mux_ack_def split: if_splits)

lemma mux_payload_error:
  "mux_payload j p outcome c m = (m', Inl e) \<Longrightarrow> delivery_at l isn S k m \<Longrightarrow> j \<noteq> l \<Longrightarrow>
   delivery_at l isn S k m'"
  by (auto simp: mux_payload_def bindS_def Let_def delivery_at_def delivered_def retS_def
      split: if_splits option.splits prod.splits sum.splits dest!: mux_send_frame)

lemma delivery_other_payload:
  assumes d: "delivery_at l isn S k m" and "j \<noteq> l" and r: "mux_payload j p outcome c m = (m', q)"
  shows "delivery_at l isn S k m'"
proof -
  have d': "delivery_at l isn S k (m\<lparr>mx_delivered := mx_delivered m @ [(j, b)]\<rparr>)" for b
    using d assms(2) by (simp add: delivery_at_def delivered_def)
  from r show ?thesis
    using d delivery_send [OF d] delivery_send [OF d']
    by (auto simp: mux_payload_def bindS_def Let_def split: if_splits option.splits prod.splits sum.splits)
qed

lemma delivery_other_fin:
  assumes d: "delivery_at l isn S k m" and "j \<noteq> l" and "map_of (mx_conns m) j = Some c0"
    and r: "mux_fin j p c m = (m', q)"
  shows "delivery_at l isn S k m'"
proof -
  have "delivery_at l isn S k (set_conn j c m)" using delivery_set [OF d assms(3)] assms(2) by blast
  with r show ?thesis
    using delivery_send [OF d] delivery_drop
    by (auto simp: mux_fin_def bindS_def split: if_splits prod.splits sum.splits)
qed

lemma delivery_next_fin:
  assumes d: "delivery_next l isn S k c m" and r: "mux_fin l p c m = (m', Inr q)"
  shows "delivery_at l isn S k m'"
proof (cases "mp_flags p AND 1 = 0")
  case True
  with d r show ?thesis by (auto simp: mux_fin_def intro: delivery_next_set)
next
  case False
  with r obtain m1 u where s: "mux_send l (c\<lparr>mc_received := mc_received c + 1\<rparr>) 16 [] m = (m1, u)"
    and m': "m' = drop_conn l m1"
    by (auto simp: mux_fin_def bindS_eq_Inr)
  have "delivery_next l isn S k c m1"
    using d mux_send_frame [OF s] by (auto simp: delivery_next_def delivered_def)
  then show ?thesis by (simp add: m' delivery_next_drop)
qed

lemma delivery_received:
  assumes d: "delivery_at l isn S k m" and inv: "mux_inv m" and S: "length S < 4294967295"
    and ph: "from_phone l isn S (MxPacket bytes waiting outcome)"
    and r: "mux_received bytes waiting outcome m = (m', Inr ns)"
  shows "\<exists>k' \<ge> k. delivery_at l isn S k' m'"
proof (cases "take 4 bytes \<noteq> to_be32 6")
  case False
  with r obtain p where p: "mux_packet_decode bytes = Inr p"
    by (auto simp: mux_received_def split: sum.splits)
  let ?j = "mp_destination p"
  show ?thesis
  proof (cases "map_of (mx_conns m) ?j")
    case (Some c)
    consider (rst) "mp_flags p AND 4 \<noteq> 0"
      | (syn) "mp_flags p AND 4 = 0" "mp_flags p AND 18 = 18" "mc_ready c"
      | (data) "mp_flags p AND 4 = 0" "\<not> mc_ready c"
      | (bad) "mp_flags p AND 4 = 0" "mp_flags p AND 18 \<noteq> 18" "mc_ready c" by blast
    then show ?thesis
    proof cases
      case rst
      with r False p Some have "m' = drop_conn ?j m" by (auto simp: mux_received_def Let_def split: if_splits)
      with delivery_drop [OF d] show ?thesis by blast
    next
      case syn
      with r False p Some have "mux_syn_ack ?j c p waiting m = (m', Inr ns)"
        by (auto simp: mux_received_def Let_def split: if_splits)
      moreover have "?j = l \<Longrightarrow> mp_sequence p = isn" using ph p syn by (simp add: slice_packet_def)
      ultimately show ?thesis using delivery_syn_ack [OF d Some syn(3)] by blast
    next
      case data
      with r False p Some obtain c1 m1 c2 where a: "mux_ack p c = Inr c1"
        and pl: "mux_payload ?j p outcome c1 m = (m1, Inr c2)" and f: "mux_fin ?j p c2 m1 = (m', Inr ns)"
        by (auto simp: mux_received_def Let_def bindS_eq_Inr split: if_splits)
      show ?thesis
      proof (cases "?j = l")
        case True
        from d Some data(2) True have "delivery_next l isn S k c m" by (auto intro: delivery_nextI)
        then have n1: "delivery_next l isn S k c1 m" using mux_ack_keeps [OF a] by (simp add: delivery_next_def)
        have port: "l < mx_port m" using inv Some True by (auto simp: mux_inv_def dest!: map_of_SomeD)
        have "slice_packet isn S p" using ph p True by simp
        from delivery_next_payload [OF n1 S this pl [unfolded True] port] obtain k' where
          "k' \<ge> k" "delivery_next l isn S k' c2 m1" by blast
        with delivery_next_fin [OF _ f [unfolded True]] show ?thesis by blast
      next
        case False
        have "map_of (mx_conns m1) ?j = Some c" using mux_payload_keeps(1) [OF pl] Some by simp
        from delivery_other_fin [OF delivery_other_payload [OF d False pl] False this f] show ?thesis by blast
      qed
    next
      case bad
      with r False p Some show ?thesis by (auto simp: mux_received_def Let_def split: if_splits)
    qed
  next
    case None
    with r False p d show ?thesis by (auto simp: mux_received_def Let_def)
  qed
qed (use r d in \<open>auto simp: mux_received_def\<close>)

lemma mux_step_inv:
  "mux_inv m \<Longrightarrow> from_phone l isn S e \<Longrightarrow> mux_step m e = (m', r) \<Longrightarrow> mux_inv m'"
  by (cases e) (auto simp: mux_inv_same [of "m\<lparr>mx_tasks := n\<rparr>" m for n]
      intro: mux_open_inv mux_data_inv mux_closed_inv mux_received_inv)

lemma delivery_step:
  assumes "delivery_at l isn S k m" and "mux_inv m" and "length S < 4294967295"
    and "from_phone l isn S e" and "mux_step m e = (m', Inr ns)"
  shows "\<exists>k' \<ge> k. delivery_at l isn S k' m'"
proof (cases e)
  case (MxPacket bytes waiting outcome)
  with delivery_received [of l isn S k m bytes waiting outcome m' ns] assms show ?thesis by simp
next
  case MxReaderEnded
  with assms delivery_same [OF assms(1), of m'] show ?thesis by auto
qed (use assms in \<open>auto dest: delivery_open delivery_data delivery_closed\<close>)

lemma mux_run_delivery:
  "delivery_at l isn S k m \<Longrightarrow> mux_inv m \<Longrightarrow> length S < 4294967295 \<Longrightarrow>
   \<forall>e \<in> set es. from_phone l isn S e \<Longrightarrow> mux_run m es = (m', Inr ()) \<Longrightarrow>
   mux_inv m' \<and> (\<exists>k' \<ge> k. delivery_at l isn S k' m')"
proof (induction es arbitrary: m k)
  case (Cons e es)
  then obtain m1 ns where s: "mux_step m e = (m1, Inr ns)" and r: "mux_run m1 es = (m', Inr ())"
    by (auto split: prod.splits sum.splits)
  from Cons.prems s delivery_step [of l isn S k m e m1 ns] obtain k1 where
    "k1 \<ge> k" "delivery_at l isn S k1 m1" by auto
  moreover have "mux_inv m1" using mux_step_inv [OF Cons.prems(2) _ s, of l isn S] Cons.prems(4) by simp
  ultimately show ?case using Cons.IH [of k1 m1] Cons.prems r by (auto intro: order.trans)
qed auto

section \<open>Properties\<close>



text \<open>Splitting the bulk input does not depend on how the device groups the bytes: feeding the
  transfers one after the other gives the messages, and the rest, of the whole input.\<close>

theorem mux_split_fragmentation: "feed mux_parse [] transfers = drain mux_parse (concat transfers)"
  by (subst mux_stream.feed_concat) (simp_all add: mux_parse_def)

end
