(* ===== verification/Ncm.thy ===== *)
theory Ncm
  imports Protocol Text
begin

text \<open>
  USB-NCM framing (\<open>native/carplay/src/protocol/ncm.rs\<close>): taking the Ethernet frames out of a
  transfer block, building a block, and reading the interface descriptors and the adapter's
  address. The TAP device, NetworkManager and the USB transfers are not modelled.
\<close>

section \<open>Transfer blocks\<close>

definition u16le :: "u8 list \<Rightarrow> nat \<Rightarrow> proto_error + nat" where
  "u16le bytes i =
     bindr (ok_or Bounds (get_range bytes i (i + 2))) (\<lambda>b. Inr (unat (from_le16 (b ! 0) (b ! 1))))"

type_synonym range = "nat \<times> nat"

text \<open>\<open>any(|&(a, b)| start < b && end > a)\<close>\<close>

definition overlaps :: "nat \<Rightarrow> nat \<Rightarrow> range list \<Rightarrow> bool" where
  "overlaps s e rs \<longleftrightarrow> (\<exists>(a, b) \<in> set rs. s < b \<and> e > a)"

text \<open>The loop over the entries of one table: the ranges found and whether it was terminated.\<close>

fun entries_loop :: "u8 list \<Rightarrow> nat list \<Rightarrow> range list \<Rightarrow> proto_error + (range list \<times> bool)" where
  "entries_loop bytes [] rs = Inr (rs, False)"
| "entries_loop bytes (entry # es) rs =
     bindr (u16le bytes entry) (\<lambda>start.
     bindr (u16le bytes (entry + 2)) (\<lambda>size.
       if start = 0 \<and> size = 0 then Inr (rs, True)
       else if start < 12 \<or> \<not> (14 \<le> size \<and> size \<le> 4096) \<or> start + size > length bytes
         \<or> length rs \<ge> 32 then Inl Bounds
       else if overlaps start (start + size) rs then Inl Malformed
       else entries_loop bytes es (rs @ [(start, start + size)])))"

definition entry_positions :: "nat \<Rightarrow> nat \<Rightarrow> nat list" where
  "entry_positions offset sz = map (\<lambda>i. offset + 8 + 4 * i) [0..<(sz - 8) div 4]"

text \<open>The loop over the tables; at most nine are recorded, so it ends.\<close>

function tables_loop ::
  "u8 list \<Rightarrow> nat \<Rightarrow> range list \<Rightarrow> range list \<Rightarrow> proto_error + (range list \<times> range list)" where
  "tables_loop bytes offset ts rs =
     (if offset = 0 then Inr (ts, rs)
      else if offset < 12 \<or> offset mod 4 \<noteq> 0 \<or> length ts > 8 then Inl Bounds
      else if get_range bytes offset (offset + 4) \<noteq> Some (str ''NCM0'') then Inl Unsupported
      else
        bindr (u16le bytes (offset + 4)) (\<lambda>size.
          if size < 12 \<or> size mod 4 \<noteq> 0 \<or> offset + size > length bytes then Inl Bounds
          else if overlaps offset (offset + size) ts then Inl Malformed
          else
            bindr (entries_loop bytes (entry_positions offset size) rs) (\<lambda>(rs', terminated).
              if \<not> terminated then Inl Malformed
              else bindr (u16le bytes (offset + 6)) (\<lambda>next.
                   tables_loop bytes next (ts @ [(offset, offset + size)]) rs'))))"
  by pat_completeness auto
termination
  by (relation "measure (\<lambda>(bytes, offset, ts, rs). 9 - length ts)") auto

declare tables_loop.simps [simp del]

definition frame_slice :: "u8 list \<Rightarrow> range \<Rightarrow> u8 list" where
  "frame_slice bytes r = take (snd r - fst r) (drop (fst r) bytes)"

definition ethernet_frames :: "u8 list \<Rightarrow> proto_error + u8 list list" where
  "ethernet_frames bytes =
     (if length bytes < 12 \<or> take 4 bytes \<noteq> str ''NCMH'' \<or> u16le bytes 4 \<noteq> Inr 12 then Inl Malformed
      else
        bindr (u16le bytes 8) (\<lambda>len.
          if \<not> (12 \<le> len \<and> len \<le> 32768) \<or> len > length bytes then Inl Bounds
          else
            let bytes = take len bytes in
            bindr (u16le bytes 10) (\<lambda>offset.
            bindr (tables_loop bytes offset [(0, 12)] []) (\<lambda>(ts, rs).
              if \<exists>(s, e) \<in> set rs. overlaps s e ts then Inl Malformed
              else Inr (map (frame_slice bytes) rs)))))"

text \<open>The block for one frame: written front to back instead of by index, with the zero byte
  that keeps the transfer from ending on a packet boundary.\<close>

definition ntb :: "u8 list \<Rightarrow> u16 \<Rightarrow> proto_error + u8 list" where
  "ntb frame sequence =
     (if \<not> (14 \<le> length frame \<and> length frame \<le> 4096) then Inl Bounds
      else
        let len = length frame + 28 in
        Inr (str ''NCMH'' @ to_le16 12 @ to_le16 sequence @ to_le16 (of_nat len) @ to_le16 12
             @ str ''NCM0'' @ to_le16 16 @ [0, 0] @ to_le16 28 @ to_le16 (of_nat (length frame))
             @ [0, 0, 0, 0] @ frame @ (if len mod 512 = 0 then [0] else [])))"

subsection \<open>Round trip\<close>

lemma from_to_le16_cons: "from_le16 (to_le16 w ! 0) (to_le16 w ! Suc 0) = w"
  by (simp add: to_le16_def from_le16_def to_be16_def from_be16_parts)

lemma to_le16_cons: "to_le16 w = [ucast w, ucast (drop_bit 8 w)]"
  by (simp add: to_le16_def to_be16_def)

lemma from_le16_parts: "from_le16 (ucast w) (ucast (drop_bit 8 w)) = w"
  by (simp add: from_le16_def from_be16_parts)

lemma u16le_at:
  assumes "bs = pre @ to_le16 w @ post" and "length pre = i"
  shows "u16le bs i = Inr (unat w)"
  using assms by (simp add: u16le_def get_range_def to_le16_cons from_le16_parts)

lemma u16le_prefix: "i + 2 \<le> n \<Longrightarrow> n \<le> length bs \<Longrightarrow> u16le (take n bs) i = u16le bs i"
  by (simp add: u16le_def get_range_def drop_take min_def)

lemma ethernet_frames_ntb:
  assumes "ntb frame sequence = Inr out"
  shows "ethernet_frames out = Inr [frame]"
proof -
  let ?n = "length frame" let ?len = "?n + 28"
  let ?h1 = "str ''NCMH''" let ?h2 = "str ''NCM0''"
  let ?body = "?h1 @ to_le16 12 @ to_le16 sequence @ to_le16 (of_nat ?len) @ to_le16 12
             @ ?h2 @ to_le16 16 @ [0, 0] @ to_le16 28 @ to_le16 (of_nat ?n) @ [0, 0, 0, 0] @ frame"
  from assms have n: "14 \<le> ?n" "?n \<le> 4096" and out: "\<exists>pad. out = ?body @ pad"
    by (auto simp: ntb_def Let_def split: if_splits)
  from out obtain pad where out: "out = ?body @ pad" ..
  have lb: "length ?body = ?len" by simp
  have small: "unat (of_nat ?len :: u16) = ?len" "unat (of_nat ?n :: u16) = ?n"
    using n unat_of_nat_u16 [of ?len] unat_of_nat_u16 [of ?n] by auto
  have zz: "to_le16 0 = [0, 0]" by (simp add: to_le16_cons)
  have f4: "u16le out 4 = Inr 12" by (rule u16le_at [where pre = ?h1 and w = 12, THEN trans]) (simp_all add: out)
  have f8: "u16le out 8 = Inr ?len"
    by (rule u16le_at [where pre = "?h1 @ to_le16 12 @ to_le16 sequence" and w = "of_nat ?len", THEN trans])
      (simp_all only: out small append_assoc, simp_all)
  have tk: "take ?len out = ?body" unfolding out by (metis lb append_eq_conv_conj)
  have at: "u16le ?body i = Inr (unat w)" if "?body = pre @ to_le16 w @ post" "length pre = i" for pre w post i
    using u16le_at [OF that] .
  have b10: "u16le ?body 10 = Inr 12"
    by (rule at [where pre = "?h1 @ to_le16 12 @ to_le16 sequence @ to_le16 (of_nat ?len)" and w = 12, THEN trans])
      (simp_all only: append_assoc, simp_all)
  let ?p16 = "?h1 @ to_le16 12 @ to_le16 sequence @ to_le16 (of_nat ?len) @ to_le16 12 @ ?h2"
  have b16: "u16le ?body 16 = Inr 16"
    by (rule at [where pre = "?p16" and w = 16, THEN trans]) (simp_all only: append_assoc, simp_all)
  have b18: "u16le ?body 18 = Inr 0"
    by (rule at [where pre = "?p16 @ to_le16 16" and w = 0, THEN trans]) (simp_all only: append_assoc zz, simp_all)
  have b20: "u16le ?body 20 = Inr 28"
    by (rule at [where pre = "?p16 @ to_le16 16 @ [0, 0]" and w = 28, THEN trans]) (simp_all only: append_assoc, simp_all)
  have b22: "u16le ?body 22 = Inr ?n"
    by (rule at [where pre = "?p16 @ to_le16 16 @ [0, 0] @ to_le16 28" and w = "of_nat ?n", THEN trans])
      (simp_all only: append_assoc small, simp_all)
  have b24: "u16le ?body 24 = Inr 0"
    by (rule at [where pre = "?p16 @ to_le16 16 @ [0, 0] @ to_le16 28 @ to_le16 (of_nat ?n)" and w = 0
          and post = "[0, 0] @ frame", THEN trans])
      (simp_all only: append_assoc zz, simp_all)
  have b26: "u16le ?body 26 = Inr 0"
    by (rule at [where pre = "?p16 @ to_le16 16 @ [0, 0] @ to_le16 28 @ to_le16 (of_nat ?n) @ [0, 0]" and w = 0
          and post = "frame", THEN trans])
      (simp_all only: append_assoc zz, simp_all)
  have sig: "get_range ?body 12 16 = Some ?h2"
    by (simp add: get_range_def str_def to_le16_cons)
  have pos: "entry_positions 12 16 = [20, 24]" by (simp add: entry_positions_def upt_rec)
  define B where "B = ?body"
  note B = b16 b18 b20 b22 b24 b26 b10 sig lb tk
  note B' = B [folded B_def]
  have "entries_loop B [20, 24] [] = Inr ([(28, ?len)], True)"
    using n B' by (simp add: overlaps_def)
  then have tables: "tables_loop B 12 [(0, 12)] [] = Inr ([(0, 12), (12, 28)], [(28, ?len)])"
    using B' pos by (simp add: tables_loop.simps overlaps_def)
  have sl: "frame_slice B (28, ?len) = frame" by (simp add: B_def frame_slice_def to_le16_cons str_def)
  have hd: "\<not> (length out < 12 \<or> take 4 out \<noteq> ?h1)" by (simp add: out str_def)
  have "length out \<ge> ?len" by (simp add: out)
  with f4 f8 B' n tables sl hd show ?thesis
    by (simp add: ethernet_frames_def Let_def overlaps_def)
qed

subsection \<open>Safety of the frames taken out\<close>

definition apart :: "range \<Rightarrow> range \<Rightarrow> bool" where
  "apart x y \<longleftrightarrow> snd x \<le> fst y \<or> snd y \<le> fst x"

definition range_ok :: "nat \<Rightarrow> range \<Rightarrow> bool" where
  "range_ok n r \<longleftrightarrow> 12 \<le> fst r \<and> snd r \<le> n \<and> fst r + 14 \<le> snd r \<and> snd r \<le> fst r + 4096"

definition ranges_ok :: "nat \<Rightarrow> range list \<Rightarrow> bool" where
  "ranges_ok n rs \<longleftrightarrow> sorted_wrt apart rs \<and> list_all (range_ok n) rs \<and> length rs \<le> 32"

lemma overlaps_apart: "s < e \<Longrightarrow> \<not> overlaps s e rs \<longleftrightarrow> (\<forall>r \<in> set rs. apart r (s, e))"
  by (auto simp: overlaps_def apart_def not_less)

lemma ranges_ok_snoc:
  "ranges_ok n rs \<Longrightarrow> range_ok n (s, e) \<Longrightarrow> \<not> overlaps s e rs \<Longrightarrow> length rs < 32 \<Longrightarrow> ranges_ok n (rs @ [(s, e)])"
  by (auto simp: ranges_ok_def sorted_wrt_append overlaps_apart range_ok_def)

lemma entries_loop_ok:
  "entries_loop bytes es rs = Inr (rs', t) \<Longrightarrow> ranges_ok (length bytes) rs \<Longrightarrow> ranges_ok (length bytes) rs'"
proof (induction bytes es rs rule: entries_loop.induct)
  case (2 bytes entry es rs)
  from 2(2) obtain start sz where u: "u16le bytes entry = Inr start" "u16le bytes (entry + 2) = Inr sz"
    by auto
  show ?case
  proof (cases "start = 0 \<and> sz = 0")
    case True
    with 2(2,3) u show ?thesis by auto
  next
    case False
    with 2(2) u have g: "\<not> (start < 12 \<or> \<not> (14 \<le> sz \<and> sz \<le> 4096) \<or> start + sz > length bytes \<or> length rs \<ge> 32)"
      "\<not> overlaps start (start + sz) rs"
      and r: "entries_loop bytes es (rs @ [(start, start + sz)]) = Inr (rs', t)"
      by (auto split: if_splits)
    have "ranges_ok (length bytes) (rs @ [(start, start + sz)])"
      using 2(3) g by (intro ranges_ok_snoc) (auto simp: range_ok_def)
    with 2(1) [OF False g r] show ?thesis by blast
  qed
qed auto

lemma tables_loop_ok:
  "tables_loop bytes offset ts rs = Inr (ts', rs') \<Longrightarrow> ranges_ok (length bytes) rs \<Longrightarrow>
     ranges_ok (length bytes) rs' \<and> length ts' \<le> max (length ts) 9"
proof (induction bytes offset ts rs rule: tables_loop.induct)
  case (1 bytes offset ts rs)
  show ?case
  proof (cases "offset = 0")
    case True
    with 1(2,3) show ?thesis by (simp add: tables_loop.simps)
  next
    case False
    with 1(2) have g1: "\<not> (offset < 12 \<or> offset mod 4 \<noteq> 0 \<or> length ts > 8)"
      and g2: "\<not> get_range bytes offset (offset + 4) \<noteq> Some (str ''NCM0'')"
      by (auto simp: tables_loop.simps [of bytes offset] split: if_splits)
    from 1(2) False g1 g2 obtain sz rs1 nx where u: "u16le bytes (offset + 4) = Inr sz"
      and g3: "\<not> (sz < 12 \<or> sz mod 4 \<noteq> 0 \<or> offset + sz > length bytes)" "\<not> overlaps offset (offset + sz) ts"
      and e: "entries_loop bytes (entry_positions offset sz) rs = Inr (rs1, True)"
      and nx: "u16le bytes (offset + 6) = Inr nx"
      and r: "tables_loop bytes nx (ts @ [(offset, offset + sz)]) rs1 = Inr (ts', rs')"
      by (auto simp: tables_loop.simps [of bytes offset] split: if_splits)
    have ok: "ranges_ok (length bytes) rs1" by (rule entries_loop_ok [OF e 1(3)])
    have "ranges_ok (length bytes) rs' \<and> length ts' \<le> max (length (ts @ [(offset, offset + sz)])) 9"
      by (rule 1(1) [OF False g1 g2 g3 _ r ok]) simp
    with g1 show ?thesis by auto
  qed
qed

section \<open>Interface and descriptor selection\<close>

text \<open>What the loop of \<open>Bridge::start\<close> reads from one alternate setting: interface number, class,
  subclass, alternate setting and the addresses of the bulk endpoints.\<close>

record alt_setting =
  as_number :: u8
  as_class :: u8
  as_subclass :: u8
  as_alternate :: u8
  as_bulk :: "u8 list"

record ncm_found =
  nf_control :: "u8 option"
  nf_data :: "(u8 \<times> u8 \<times> u8) option"
  nf_mux :: "u8 option"

definition data_endpoints :: "alt_setting \<Rightarrow> proto_error + (u8 \<times> u8 \<times> u8)" where
  "data_endpoints d =
     bindr (ok_or Malformed (find (\<lambda>e. e AND 128 \<noteq> 0) (as_bulk d))) (\<lambda>input.
     bindr (ok_or Malformed (find (\<lambda>e. e AND 128 = 0) (as_bulk d))) (\<lambda>output.
       Inr (as_number d, input, output)))"

definition ncm_visit :: "ncm_found \<Rightarrow> alt_setting \<Rightarrow> proto_error + ncm_found" where
  "ncm_visit f d =
     (let control = (if nf_control f = None \<and> as_class d = 2 \<and> as_subclass d = 13
                     then Some (as_number d) else nf_control f);
          mux = (if as_class d = 0xff \<and> as_subclass d = 0xfe then Some (as_number d) else nf_mux f);
          f = \<lparr>nf_control = control, nf_data = nf_data f, nf_mux = mux\<rparr> in
      if nf_data f = None \<and> control \<noteq> None \<and> as_class d = 10 \<and> as_alternate d = 1
        \<and> length (as_bulk d) = 2
      then bindr (data_endpoints d) (\<lambda>x. Inr (f\<lparr>nf_data := Some x\<rparr>))
      else Inr f)"

fun ncm_scan :: "ncm_found \<Rightarrow> alt_setting list \<Rightarrow> proto_error + ncm_found" where
  "ncm_scan f [] = Inr f"
| "ncm_scan f (d # ds) = bindr (ncm_visit f d) (\<lambda>f. ncm_scan f ds)"

definition ncm_select :: "alt_setting list \<Rightarrow> proto_error + (u8 \<times> u8 \<times> u8 \<times> u8)" where
  "ncm_select ds =
     bindr (ncm_scan \<lparr>nf_control = None, nf_data = None, nf_mux = None\<rparr> ds) (\<lambda>f.
     bindr (ok_or Unsupported (nf_mux f)) (\<lambda>_.
     bindr (ok_or Unsupported (nf_control f)) (\<lambda>control.
     bindr (ok_or Unsupported (nf_data f)) (\<lambda>data. Inr (control, data)))))"

text \<open>\<open>mac_address\<close>: the walk over the raw descriptors, \<open>fuel\<close> bounded by their length because
  every descriptor has at least two bytes.\<close>

function mac_walk :: "u8 list \<Rightarrow> nat \<Rightarrow> bool \<Rightarrow> u8 \<Rightarrow> proto_error + u8 option" where
  "mac_walk ds offset selected control =
     (if \<not> offset + 2 \<le> length ds then Inr None
      else
        let sz = unat (ds ! offset) in
        if sz < 2 \<or> offset + sz > length ds then Inl Malformed
        else
          let item = take sz (drop offset ds);
              selected = (if item ! 1 = 4 \<and> sz \<ge> 9 then item ! 2 = control else selected) in
          if selected \<and> sz \<ge> 4 \<and> take 2 (drop 1 item) = [0x24, 0x0f] then Inr (Some (item ! 3))
          else mac_walk ds (offset + sz) selected control)"
  by pat_completeness auto
termination
  by (relation "measure (\<lambda>(ds, offset, _). length ds - offset)") auto

declare mac_walk.simps [simp del]

text \<open>\<open>String::from_utf16\<close> fails on an unpaired surrogate.\<close>

fun utf16_ok :: "u16 list \<Rightarrow> bool" where
  "utf16_ok [] = True"
| "utf16_ok (c # cs) =
     (if 0xd800 \<le> c \<and> c \<le> 0xdbff then
        (case cs of d # ds \<Rightarrow> 0xdc00 \<le> d \<and> d \<le> 0xdfff \<and> utf16_ok ds | [] \<Rightarrow> False)
      else \<not> (0xdc00 \<le> c \<and> c \<le> 0xdfff) \<and> utf16_ok cs)"

definition is_hex_u16 :: "u16 \<Rightarrow> bool" where
  "is_hex_u16 c \<longleftrightarrow> 0x30 \<le> c \<and> c \<le> 0x39 \<or> 0x41 \<le> c \<and> c \<le> 0x46 \<or> 0x61 \<le> c \<and> c \<le> 0x66"

definition lower_u16 :: "u16 \<Rightarrow> u8" where
  "lower_u16 c = (if 0x41 \<le> c \<and> c \<le> 0x5a then ucast c + 0x20 else ucast c)"

fun le_pairs :: "u8 list \<Rightarrow> u16 list" where
  "le_pairs (a # b # r) = from_le16 a b # le_pairs r"
| "le_pairs _ = []"

fun mac_join :: "u8 list \<Rightarrow> u8 list" where
  "mac_join (a # b # c # r) = [a, b, 0x3a] @ mac_join (c # r)"
| "mac_join xs = xs"

text \<open>The reply of the device to the string request. A text of twelve hexadecimal digits is ASCII,
  so its UTF-8 length is its number of code units; any other text is rejected.\<close>

definition mac_text :: "u8 list \<Rightarrow> proto_error + u8 list" where
  "mac_text bytes =
     (if length bytes < 26 \<or> bytes ! 0 \<noteq> 26 \<or> bytes ! 1 \<noteq> 3 then Inl Malformed
      else
        let cs = le_pairs (take 24 (drop 2 bytes)) in
        if \<not> utf16_ok cs then Inl Rejected
        else if \<not> list_all is_hex_u16 cs then Inl Malformed
        else Inr (mac_join (map lower_u16 cs)))"

lemma ncm_visit_data:
  "ncm_visit f d = Inr f' \<Longrightarrow>
     (\<forall>x. nf_data f = Some x \<longrightarrow> nf_data f' = Some x) \<and> (nf_data f = None \<longrightarrow> nf_data f' \<noteq> None \<longrightarrow> nf_control f' \<noteq> None)"
  by (auto simp: ncm_visit_def Let_def split: if_splits)

section \<open>Properties\<close>

lemma pad_512: "(n + (if n mod 512 = 0 then 1 else 0)) mod 512 \<noteq> (0 :: nat)"
  by (auto simp: mod_Suc)

text \<open>Every frame the host may send survives the block format: for every frame \<open>ntb\<close> accepts,
  the block it builds decodes to exactly that frame, and it never ends on a 512-byte boundary.\<close>

theorem ncm_round_trip:
  assumes "ntb frame sequence = Inr out"
  shows "ethernet_frames out = Inr [frame] \<and> length out mod 512 \<noteq> 0"
proof -
  have "length out = length frame + 28 + (if (length frame + 28) mod 512 = 0 then 1 else 0)"
    using assms by (auto simp: ntb_def Let_def split: if_splits)
  then have "length out mod 512 \<noteq> 0" using pad_512 [of "length frame + 28"] by simp
  with ethernet_frames_ntb [OF assms] show ?thesis by blast
qed

definition wit_frame :: "u8 list" where
  "wit_frame = replicate 484 7"

lemma wit_frame_length [simp]: "length wit_frame = 484"
  by (simp only: wit_frame_def length_replicate)

theorem ncm_round_trip_witness:
  "\<exists>out. ntb wit_frame 3 = Inr out \<and> ethernet_frames out = Inr [wit_frame] \<and> length out mod 512 \<noteq> 0"
proof -
  obtain out where out: "ntb wit_frame 3 = Inr out" by (simp add: ntb_def Let_def)
  from ncm_round_trip [OF out] out show ?thesis by blast
qed

text \<open>Whatever the phone sends, the accepted frames are at most 32 slices of the block, each
  within the declared length and outside its header, 14 to 4096 bytes long, and no two of them
  overlap.\<close>

theorem ncm_frames_disjoint:
  assumes "ethernet_frames bytes = Inr frames"
  shows "\<exists>n rs. n \<le> length bytes \<and> n \<le> 32768 \<and> frames = map (frame_slice (take n bytes)) rs
     \<and> sorted_wrt apart rs \<and> list_all (range_ok n) rs \<and> length rs \<le> 32"
proof -
  from assms obtain n offset ts rs where n: "n \<le> 32768" "n \<le> length bytes"
    and r: "tables_loop (take n bytes) offset [(0, 12)] [] = Inr (ts, rs)"
    and f: "frames = map (frame_slice (take n bytes)) rs"
    by (auto simp: ethernet_frames_def Let_def not_less split: if_splits)
  have "ranges_ok (length (take n bytes)) rs" using tables_loop_ok [OF r] by (simp add: ranges_ok_def)
  then have "ranges_ok n rs" using n(2) by (simp add: min_absorb2)
  with n f show ?thesis unfolding ranges_ok_def by blast
qed

theorem ncm_frames_disjoint_witness:
  "\<exists>out n rs. ntb wit_frame 3 = Inr out \<and> [wit_frame] = map (frame_slice (take n out)) rs
     \<and> sorted_wrt apart rs \<and> list_all (range_ok n) rs"
proof -
  obtain out where out: "ntb wit_frame 3 = Inr out" by (simp add: ntb_def Let_def)
  from ncm_frames_disjoint [OF ethernet_frames_ntb [OF out]] out show ?thesis by metis
qed

end
