(* ===== verification/Airplay.thy ===== *)
theory Airplay
  imports Protocol Text
begin

text \<open>
  AirPlay envelopes (\<open>native/carplay/src/protocol/airplay.rs\<close>): the bounded decoder of RTSP-like
  control requests, the header of a screen record and the negotiated audio formats.
\<close>

definition MAX_HEADERS :: nat where [consts_simps]: "MAX_HEADERS = 16 * 1024"
definition MAX_BODY :: nat where [consts_simps]: "MAX_BODY = 1024 * 1024"
definition SCREEN_HEADER_BYTES :: nat where [consts_simps]: "SCREEN_HEADER_BYTES = 128"
definition MAX_SCREEN_BODY :: nat where [consts_simps]: "MAX_SCREEN_BODY = 8 * 1024 * 1024"

section \<open>Text of a request\<close>

definition CRLF2 :: "u8 list" where "CRLF2 = [0x0d, 0x0a, 0x0d, 0x0a]"

text \<open>\<open>windows(4).position(|b| b == b"\\r\\n\\r\\n")\<close>\<close>

fun head_end :: "u8 list \<Rightarrow> nat option" where
  "head_end bs =
     (if length bs < 4 then None
      else if take 4 bs = CRLF2 then Some 0
      else map_option Suc (head_end (tl bs)))"

declare head_end.simps [simp del]

lemma head_end_simps [simp]:
  "head_end [] = None"
  "head_end (a # bs) = (if length (a # bs) < 4 then None else if take 4 (a # bs) = CRLF2 then Some 0
     else map_option Suc (head_end bs))"
  by (simp_all add: head_end.simps [of "[]"] head_end.simps [of "a # bs"])

text \<open>\<open>split("\\r\\n")\<close>: the pieces between the separators, at least one.\<close>

fun split_lines :: "u8 list \<Rightarrow> u8 list list" where
  "split_lines [] = [[]]"
| "split_lines (a # bs) =
     (if a = 0x0d \<and> bs \<noteq> [] \<and> hd bs = 0x0a then [] # split_lines (tl bs)
      else case split_lines bs of l # ls \<Rightarrow> (a # l) # ls | [] \<Rightarrow> [[a]])"

text \<open>\<open>split_once(c)\<close> and \<open>splitn(3, ' ')\<close>\<close>

fun split_once :: "u8 \<Rightarrow> u8 list \<Rightarrow> (u8 list \<times> u8 list) option" where
  "split_once c [] = None"
| "split_once c (a # bs) =
     (if a = c then Some ([], bs) else map_option (\<lambda>(x, y). (a # x, y)) (split_once c bs))"

definition split_words :: "u8 list \<Rightarrow> u8 list list" where
  "split_words bs =
     (case split_once 0x20 bs of
        None \<Rightarrow> [bs]
      | Some (x, r) \<Rightarrow> (case split_once 0x20 r of None \<Rightarrow> [x, r] | Some (y, z) \<Rightarrow> [x, y, z]))"

definition ascii_digit :: "u8 \<Rightarrow> bool" where
  "ascii_digit b \<longleftrightarrow> 0x30 \<le> b \<and> b \<le> 0x39"

definition ascii_upper :: "u8 \<Rightarrow> bool" where
  "ascii_upper b \<longleftrightarrow> 0x41 \<le> b \<and> b \<le> 0x5a"

definition ascii_alnum :: "u8 \<Rightarrow> bool" where
  "ascii_alnum b \<longleftrightarrow> ascii_digit b \<or> ascii_upper b \<or> 0x61 \<le> b \<and> b \<le> 0x7a"

definition ascii_control :: "u8 \<Rightarrow> bool" where
  "ascii_control b \<longleftrightarrow> b < 0x20 \<or> b = 0x7f"

definition ascii_lower :: "u8 \<Rightarrow> u8" where
  "ascii_lower b = (if ascii_upper b then b + 0x20 else b)"

text \<open>\<open>trim\<close> on ASCII text.\<close>

definition ascii_space :: "u8 \<Rightarrow> bool" where
  "ascii_space b \<longleftrightarrow> b = 0x20 \<or> 0x09 \<le> b \<and> b \<le> 0x0d"

definition ascii_trim :: "u8 list \<Rightarrow> u8 list" where
  "ascii_trim bs = rev (dropWhile ascii_space (rev (dropWhile ascii_space bs)))"

definition parse_decimal :: "u8 list \<Rightarrow> nat" where
  "parse_decimal bs = foldl (\<lambda>n b. 10 * n + (unat b - 0x30)) 0 bs"

section \<open>Requests\<close>

text \<open>The headers are the insertions into the map, in order; names never repeat.\<close>

record request =
  rq_method :: "u8 list"
  rq_target :: "u8 list"
  rq_protocol :: "u8 list"
  rq_headers :: "(u8 list \<times> u8 list) list"
  rq_body :: "u8 list"

definition protocols :: "u8 list set" where
  "protocols = {str ''RTSP/1.0'', str ''HTTP/1.1''}"

definition start_line_ok :: "u8 list \<Rightarrow> u8 list \<Rightarrow> u8 list \<Rightarrow> bool" where
  "start_line_ok w0 w1 w2 \<longleftrightarrow>
     (if w0 \<in> protocols
      then length w1 = 3 \<and> list_all ascii_digit w1 \<and> \<not> list_ex ascii_control w2
      else w0 \<noteq> [] \<and> length w0 \<le> 32 \<and> list_all (\<lambda>b. ascii_upper b \<or> b = 0x5f) w0
        \<and> w1 \<noteq> [] \<and> length w1 \<le> 2048 \<and> \<not> list_ex ascii_control w1 \<and> w2 \<in> protocols)"

definition header_line :: "u8 list \<Rightarrow> proto_error + (u8 list \<times> u8 list)" where
  "header_line line =
     (case split_once 0x3a line of
        None \<Rightarrow> Inl Malformed
      | Some (name, value) \<Rightarrow>
          if name = [] \<or> \<not> list_all (\<lambda>b. ascii_alnum b \<or> b = 0x2d) name
            \<or> list_ex (\<lambda>b. ascii_control b \<and> b \<noteq> 0x09) value then Inl Malformed
          else Inr (map ascii_lower name, ascii_trim value))"

fun header_lines :: "(u8 list \<times> u8 list) list \<Rightarrow> u8 list list \<Rightarrow> proto_error + (u8 list \<times> u8 list) list" where
  "header_lines hs [] = Inr hs"
| "header_lines hs (line # ls) =
     (if length hs \<ge> 64 then Inl Bounds
      else bindr (header_line line) (\<lambda>(name, value).
             if name \<in> fst ` set hs then Inl Malformed else header_lines (hs @ [(name, value)]) ls))"

definition content_length :: "(u8 list \<times> u8 list) list \<Rightarrow> proto_error + nat" where
  "content_length hs =
     (case map_of hs (str ''content-length'') of
        None \<Rightarrow> Inr 0
      | Some v \<Rightarrow>
          if v \<noteq> [] \<and> list_all ascii_digit v
          then (if parse_decimal v \<ge> 2 ^ 64 then Inl Bounds else Inr (parse_decimal v))
          else Inl Malformed)"

text \<open>The head of a request, up to the blank line: start line, headers and body length. Text that
  is not UTF-8 and text that is not ASCII are rejected with the same error.\<close>

definition parse_head :: "u8 list \<Rightarrow> proto_error + (request \<times> nat)" where
  "parse_head text =
     (if list_ex (\<lambda>b. b \<ge> 0x80) text then Inl Malformed
      else case split_lines text of
        [] \<Rightarrow> Inl Malformed
      | first # ls \<Rightarrow>
          (case split_words first of
             [w0, w1, w2] \<Rightarrow>
               if \<not> start_line_ok w0 w1 w2 then Inl Malformed
               else bindr (header_lines [] ls) (\<lambda>hs.
                 if map_of hs (str ''transfer-encoding'') \<noteq> None then Inl Unsupported
                 else bindr (content_length hs) (\<lambda>len.
                   if len > MAX_BODY then Inl Bounds
                   else Inr (\<lparr>rq_method = w0, rq_target = w1, rq_protocol = w2, rq_headers = hs,
                             rq_body = []\<rparr>, len)))
           | _ \<Rightarrow> Inl Malformed))"

definition request_parse :: "u8 list \<Rightarrow> proto_error + (request \<times> nat) option" where
  "request_parse buf =
     (case head_end buf of
        None \<Rightarrow> if length buf > MAX_HEADERS then Inl Bounds else Inr None
      | Some split \<Rightarrow>
          if split + 4 > MAX_HEADERS then Inl Bounds
          else bindr (parse_head (take split buf)) (\<lambda>(rq, len).
            let end = split + 4 + len in
            if length buf < end then Inr None
            else Inr (Some (rq\<lparr>rq_body := take len (drop (split + 4) buf)\<rparr>, end))))"

definition request_push :: "u8 list \<Rightarrow> u8 list \<Rightarrow> proto_error + u8 list" where
  "request_push buf bytes =
     (if length buf + length bytes > MAX_HEADERS + MAX_BODY then Inl Bounds else Inr (buf @ bytes))"

definition next_request :: "u8 list \<Rightarrow> u8 list \<times> (proto_error + request option)" where
  "next_request buf =
     (case request_parse buf of
        Inl e \<Rightarrow> (buf, Inl e)
      | Inr None \<Rightarrow> (buf, Inr None)
      | Inr (Some (rq, n)) \<Rightarrow> (drop n buf, Inr (Some rq)))"

subsection \<open>The decoder is a stream framer\<close>

lemma head_end_bound: "head_end bs = Some n \<Longrightarrow> n + 4 \<le> length bs"
proof (induction bs arbitrary: n rule: head_end.induct)
  case (1 bs)
  then show ?case
    by (subst (asm) (2) head_end.simps) (cases bs, auto split: if_splits)
qed

lemma head_end_append: "head_end bs = Some n \<Longrightarrow> head_end (bs @ ys) = Some n"
proof (induction bs arbitrary: n rule: head_end.induct)
  case (1 bs)
  show ?case
  proof (cases "length bs < 4 \<or> take 4 bs = CRLF2")
    case True
    with 1(2) show ?thesis
      by (subst head_end.simps, subst (asm) head_end.simps) (auto split: if_splits)
  next
    case False
    then obtain a as where bs: "bs = a # as" by (cases bs) auto
    from False 1(2) obtain m where m: "head_end as = Some m" "n = Suc m"
      by (subst (asm) head_end.simps) (auto simp: bs)
    with 1(1) False have "head_end (as @ ys) = Some m" by (simp add: bs)
    with False m show ?thesis by (subst head_end.simps) (simp add: bs)
  qed
qed

lemma head_end_late: "head_end bs = None \<Longrightarrow> head_end (bs @ ys) = Some n \<Longrightarrow> length bs < n + 4"
proof (induction bs arbitrary: n)
  case (Cons a bs)
  show ?case
  proof (cases "length (a # bs) < 4")
    case False
    with Cons.prems(1) have ne: "take 4 (a # bs) \<noteq> CRLF2" and none: "head_end bs = None"
      by (subst (asm) head_end.simps, simp split: if_splits)+
    from False have "take 4 ((a # bs) @ ys) = take 4 (a # bs)" by simp
    with ne False Cons.prems(2) obtain m where "head_end (bs @ ys) = Some m" "n = Suc m"
      by (subst (asm) head_end.simps) (auto split: if_splits)
    with Cons.IH [OF none] show ?thesis by simp
  qed simp
qed simp

interpretation request_stream: stream_framer request_parse
proof unfold_locales
  fix bs ys m n
  show "request_parse bs = Inr (Some (m, n)) \<Longrightarrow> 0 < n \<and> n \<le> length bs"
    by (auto simp: request_parse_def Let_def split: option.splits if_splits)
  assume a: "request_parse bs = Inr (Some (m, n))"
  then obtain split where s: "head_end bs = Some split"
    by (auto simp: request_parse_def split: option.splits if_splits)
  from a s obtain rq len where p: "parse_head (take split bs) = Inr (rq, len)" "\<not> split + 4 > MAX_HEADERS"
    "split + 4 + len \<le> length bs" "m = rq\<lparr>rq_body := take len (drop (split + 4) bs)\<rparr>" "n = split + 4 + len"
    by (auto simp: request_parse_def Let_def not_less split: if_splits)
  with head_end_append [OF s, of ys] head_end_bound [OF s]
  show "request_parse (bs @ ys) = Inr (Some (m, n))"
    by (simp add: request_parse_def Let_def)
next
  fix bs ys e
  assume a: "request_parse bs = Inl e"
  show "request_parse (bs @ ys) = Inl e"
  proof (cases "head_end bs")
    case None
    with a have "length bs > MAX_HEADERS" "e = Bounds" by (auto simp: request_parse_def split: if_splits)
    with head_end_late [OF None, of ys] show ?thesis
      by (auto simp: request_parse_def split: option.splits)
  next
    case (Some split)
    with a head_end_append [OF Some, of ys] head_end_bound [OF Some] show ?thesis
      by (auto simp: request_parse_def Let_def bindr_eq_Inl split: if_splits)
  qed
qed

subsection \<open>What an accepted request guarantees\<close>

definition header_ok :: "u8 list \<times> u8 list \<Rightarrow> bool" where
  "header_ok h \<longleftrightarrow> fst h \<noteq> [] \<and> (\<forall>b \<in> set (fst h). \<not> ascii_upper b) \<and> \<not> list_ex (\<lambda>b. ascii_control b \<and> b \<noteq> 9) (snd h)"

definition headers_ok :: "(u8 list \<times> u8 list) list \<Rightarrow> bool" where
  "headers_ok hs \<longleftrightarrow> distinct (map fst hs) \<and> length hs \<le> 64 \<and> (\<forall>h \<in> set hs. header_ok h)"

lemma ascii_lower_not_upper: "\<not> ascii_upper (ascii_lower b)"
proof (cases "ascii_upper b")
  case True
  then have "0x41 \<le> unat b" "unat b \<le> 0x5a" by (simp_all add: ascii_upper_def word_le_nat_alt)
  then have "unat (b + 0x20) = unat b + 0x20" by (simp add: unat_word_ariths)
  with True \<open>0x41 \<le> unat b\<close> show ?thesis by (simp add: ascii_lower_def ascii_upper_def word_le_nat_alt)
qed (simp add: ascii_lower_def)

lemma set_ascii_trim: "set (ascii_trim v) \<subseteq> set v"
  by (auto simp: ascii_trim_def dest!: set_dropWhileD)

lemma header_line_ok: "header_line l = Inr h \<Longrightarrow> header_ok h"
  using set_ascii_trim
  by (fastforce simp: header_line_def header_ok_def ascii_lower_not_upper list_ex_iff
      split: option.splits if_splits)

lemma header_lines_ok: "header_lines hs ls = Inr hs' \<Longrightarrow> headers_ok hs \<Longrightarrow> headers_ok hs'"
proof (induction hs ls rule: header_lines.induct)
  case (2 hs line ls)
  from 2(2) obtain name val where h: "header_line line = Inr (name, val)" and g: "\<not> length hs \<ge> 64"
    "name \<notin> fst ` set hs" and r: "header_lines (hs @ [(name, val)]) ls = Inr hs'"
    by (auto split: if_splits)
  have "headers_ok (hs @ [(name, val)])"
    using 2(3) g header_line_ok [OF h] by (auto simp: headers_ok_def)
  with 2(1) [OF g r] show ?case by blast
qed simp

lemma parse_head_ok:
  assumes "parse_head text = Inr (rq, len)"
  shows "headers_ok (rq_headers rq) \<and> content_length (rq_headers rq) = Inr len \<and> len \<le> MAX_BODY
    \<and> map_of (rq_headers rq) (str ''transfer-encoding'') = None
    \<and> start_line_ok (rq_method rq) (rq_target rq) (rq_protocol rq)"
proof -
  have "headers_ok []" by (simp add: headers_ok_def)
  with assms show ?thesis
    by (auto simp: parse_head_def split: if_splits list.splits intro: header_lines_ok)
qed

section \<open>Screen records\<close>

datatype screen_kind = EncryptedAccessUnit | CodecConfiguration | Ignore

record screen_header =
  sh_kind :: screen_kind
  sh_body_length :: nat

definition screen_kind_of :: "u8 \<Rightarrow> nat \<Rightarrow> proto_error + screen_kind" where
  "screen_kind_of b len =
     (if b = 0 then Inr EncryptedAccessUnit
      else if b = 1 \<and> len = 0 then Inr Ignore
      else if b = 1 then Inr CodecConfiguration
      else if 2 \<le> b \<and> b \<le> 5 then Inr Ignore
      else Inl Unsupported)"

definition screen_parse :: "u8 list \<Rightarrow> proto_error + screen_header" where
  "screen_parse bytes =
     (if length bytes \<noteq> SCREEN_HEADER_BYTES then Inl Bounds
      else
        let len = unat (from_le32 (bytes ! 0) (bytes ! 1) (bytes ! 2) (bytes ! 3)) in
        bindr (screen_kind_of (bytes ! 4) len) (\<lambda>kind.
          if len > MAX_SCREEN_BODY \<or> (len = 0 \<and> kind \<noteq> Ignore)
            \<or> (kind = EncryptedAccessUnit \<and> len < 16)
            \<or> (kind = CodecConfiguration \<and> len > 65536)
            \<or> (kind = Ignore \<and> len > 65536) then Inl Bounds
          else Inr \<lparr>sh_kind = kind, sh_body_length = len\<rparr>))"

section \<open>Audio formats\<close>

datatype audio_codec = SignedPcm16 | AacLc | Opus

record audio_format =
  af_codec :: audio_codec
  af_sample_rate :: nat
  af_channels :: nat

definition set_bits_of :: "u64 \<Rightarrow> nat list" where
  "set_bits_of b = filter (bit b) [0..<64]"

definition is_power_of_two :: "u64 \<Rightarrow> bool" where
  "is_power_of_two b \<longleftrightarrow> length (set_bits_of b) = 1"

definition trailing_zeros :: "u64 \<Rightarrow> nat" where
  "trailing_zeros b = (case set_bits_of b of [] \<Rightarrow> 64 | i # _ \<Rightarrow> i)"

definition audio_selected :: "u64 \<Rightarrow> proto_error + audio_format" where
  "audio_selected b =
     (if \<not> is_power_of_two b then Inl Malformed
      else
        bindr
          (if 0x4 \<le> b \<and> b \<le> 0x800 then
             (let index = trailing_zeros b - 2 in
              bindr (ok_or Unsupported (get_at [8000, 16000, 24000, 32000, 44100] (index div 2))) (\<lambda>rate.
                Inr (SignedPcm16, rate, 1 + index mod 2)))
           else if b = 0x4000 then Inr (SignedPcm16, 48000, 1)
           else if b = 0x8000 then Inr (SignedPcm16, 48000, 2)
           else if b = 0x400000 then Inr (AacLc, 44100, 2)
           else if b = 0x800000 then Inr (AacLc, 48000, 2)
           else if b = 0x10000000 then Inr (Opus, 16000, 1)
           else if b = 0x20000000 then Inr (Opus, 24000, 1)
           else if b = 0x40000000 then Inr (Opus, 48000, 1)
           else Inl Unsupported)
          (\<lambda>(codec, rate, channels).
             Inr \<lparr>af_codec = codec, af_sample_rate = rate, af_channels = channels\<rparr>))"

lemma single_bit:
  assumes "is_power_of_two b"
  shows "b = push_bit (trailing_zeros b) 1 \<and> trailing_zeros b < 64"
proof -
  from assms obtain i where i: "set_bits_of b = [i]" by (auto simp: is_power_of_two_def length_Suc_conv)
  then have tz: "trailing_zeros b = i" by (simp add: trailing_zeros_def)
  have s: "set (set_bits_of b) = {n. n < 64 \<and> bit b n}" by (auto simp: set_bits_of_def)
  then have "{n. n < 64 \<and> bit b n} = {i}" using i by simp
  then have bits: "n < 64 \<Longrightarrow> bit b n \<longleftrightarrow> n = i" and lt: "i < 64" for n by auto
  have "b = push_bit i 1"
    by (rule bit_word_eqI) (auto simp: bits bit_simps lt)
  with tz lt show ?thesis by simp
qed

lemma unat_push_bit_1: "i < 64 \<Longrightarrow> unat (push_bit i 1 :: u64) = 2 ^ i"
proof -
  assume "i < 64"
  then have "(2 :: nat) ^ i < 2 ^ 64" by (rule power_strict_increasing) simp
  then have "unat (of_nat (2 ^ i) :: u64) = 2 ^ i" by (simp add: unat_of_nat del: of_nat_power of_nat_numeral)
  then show ?thesis by simp
qed

lemma push_bit_1_compare:
  assumes "i < 64"
  shows "(push_bit j 1 :: u64) \<le> push_bit i 1 \<longleftrightarrow> j \<le> i \<or> 64 \<le> j"
    and "j < 64 \<Longrightarrow> (push_bit i 1 :: u64) = push_bit j 1 \<longleftrightarrow> i = j"
proof -
  show eq: "(push_bit i 1 :: u64) = push_bit j 1 \<longleftrightarrow> i = j" if "j < 64"
    using assms that unat_push_bit_1 by (metis power_inject_exp one_less_numeral_iff semiring_norm(76))
  show "(push_bit j 1 :: u64) \<le> push_bit i 1 \<longleftrightarrow> j \<le> i \<or> 64 \<le> j"
  proof (cases "j < 64")
    case True
    then show ?thesis
      unfolding word_le_nat_alt unat_push_bit_1 [OF assms] unat_push_bit_1 [OF True] by simp
  next
    case False
    have "(push_bit j 1 :: u64) = 0" by (rule bit_word_eqI) (use False in \<open>auto simp: bit_simps\<close>)
    then have "push_bit j 1 \<le> (push_bit i 1 :: u64)" by (simp only: word_zero_le)
    with False show ?thesis by simp
  qed
qed

lemma audio_bits:
  "(0x4 :: u64) = push_bit 2 1" "(0x800 :: u64) = push_bit 11 1" "(0x4000 :: u64) = push_bit 14 1"
  "(0x8000 :: u64) = push_bit 15 1" "(0x400000 :: u64) = push_bit 22 1" "(0x800000 :: u64) = push_bit 23 1"
  "(0x10000000 :: u64) = push_bit 28 1" "(0x20000000 :: u64) = push_bit 29 1" "(0x40000000 :: u64) = push_bit 30 1"
  by (simp_all add: push_bit_eq_mult)

text \<open>The bit a format was selected by, read off the format.\<close>

definition format_bit :: "audio_format \<Rightarrow> nat" where
  "format_bit f =
     (case af_codec f of
        SignedPcm16 \<Rightarrow>
          (if af_sample_rate f = 8000 then 1 else if af_sample_rate f = 16000 then 3
           else if af_sample_rate f = 24000 then 5 else if af_sample_rate f = 32000 then 7
           else if af_sample_rate f = 44100 then 9 else 13) + af_channels f
      | AacLc \<Rightarrow> if af_sample_rate f = 44100 then 22 else 23
      | Opus \<Rightarrow> if af_sample_rate f = 16000 then 28 else if af_sample_rate f = 24000 then 29 else 30)"

lemma pcm_index: "2 \<le> i \<Longrightarrow> i \<le> (11 :: nat) \<Longrightarrow> i \<in> {2, 3, 4, 5, 6, 7, 8, 9, 10, 11}"
  by (simp, arith)

lemma audio_selected_bit:
  assumes "audio_selected b = Inr f"
  shows "b = push_bit (format_bit f) 1 \<and> format_bit f < 64 \<and> af_channels f \<in> {1, 2}
    \<and> af_sample_rate f \<le> 48000"
proof -
  let ?i = "trailing_zeros b"
  from assms have p: "is_power_of_two b" by (auto simp: audio_selected_def split: if_splits)
  from single_bit [OF p] have b: "b = push_bit ?i 1" and lt: "?i < 64" by auto
  note cmp = push_bit_1_compare [OF lt]
  have le: "b \<le> push_bit 11 1 \<longleftrightarrow> ?i \<le> 11" "push_bit 2 1 \<le> b \<longleftrightarrow> 2 \<le> ?i"
    using b cmp(1) [of 2] push_bit_1_compare(1) [of 11 ?i] lt by auto
  have eq: "b = push_bit 14 1 \<longleftrightarrow> ?i = 14" "b = push_bit 15 1 \<longleftrightarrow> ?i = 15" "b = push_bit 22 1 \<longleftrightarrow> ?i = 22"
    "b = push_bit 23 1 \<longleftrightarrow> ?i = 23" "b = push_bit 28 1 \<longleftrightarrow> ?i = 28" "b = push_bit 29 1 \<longleftrightarrow> ?i = 29"
    "b = push_bit 30 1 \<longleftrightarrow> ?i = 30"
    using b cmp(2) [of 14] cmp(2) [of 15] cmp(2) [of 22] cmp(2) [of 23] cmp(2) [of 28] cmp(2) [of 29]
      cmp(2) [of 30] by auto
  define i where "i = ?i"
  have "format_bit f = i \<and> af_channels f \<in> {1, 2} \<and> af_sample_rate f \<le> 48000"
  proof (cases "2 \<le> i \<and> i \<le> 11")
    case True
    with pcm_index have "i \<in> {2, 3, 4, 5, 6, 7, 8, 9, 10, 11}" by blast
    with assms p True show ?thesis
      unfolding audio_selected_def audio_bits le eq i_def [symmetric]
      by (auto simp: get_at_def format_bit_def Let_def)
  next
    case False
    with assms p show ?thesis
      unfolding audio_selected_def audio_bits le eq i_def [symmetric]
      by (auto simp: format_bit_def split: if_splits)
  qed
  with b lt show ?thesis by (simp add: i_def)
qed

section \<open>Properties\<close>

text \<open>The control decoder does not depend on how the network fragments the stream: feeding the
  pieces gives the requests, the rest or the error of the whole stream.\<close>

theorem request_fragmentation: "feed request_parse [] pieces = drain request_parse (concat pieces)"
  by (subst request_stream.feed_concat) (simp_all add: request_parse_def)

text \<open>No request smuggling: in every accepted request header names are lower case and pairwise
  distinct, at most 64, there is no transfer encoding, and the body has exactly the length of the
  one content-length header (none means no body), at most one mebibyte; the decoder takes exactly
  the head and the body from the stream.\<close>

theorem request_unambiguous:
  assumes "request_parse buf = Inr (Some (rq, n))"
  shows "headers_ok (rq_headers rq) \<and> map_of (rq_headers rq) (str ''transfer-encoding'') = None
    \<and> content_length (rq_headers rq) = Inr (length (rq_body rq)) \<and> length (rq_body rq) \<le> MAX_BODY
    \<and> (\<exists>head. take n buf = head @ CRLF2 @ rq_body rq \<and> length head + 4 \<le> MAX_HEADERS)"
proof -
  from assms obtain split q len where s: "head_end buf = Some split" "\<not> split + 4 > MAX_HEADERS"
    and h: "parse_head (take split buf) = Inr (q, len)" and l: "split + 4 + len \<le> length buf"
    and rq: "rq = q\<lparr>rq_body := take len (drop (split + 4) buf)\<rparr>" and n: "n = split + 4 + len"
    by (auto simp: request_parse_def Let_def not_less split: option.splits if_splits)
  have crlf: "take 4 (drop m bs) = CRLF2" if "head_end bs = Some m" for m and bs :: "u8 list"
    using that
  proof (induction bs arbitrary: m rule: head_end.induct)
    case (1 bs)
    then show ?case
      by (subst (asm) (2) head_end.simps) (cases bs, auto split: if_splits)
  qed
  have "take n buf = take split buf @ take (4 + len) (drop split buf)"
    unfolding n by (simp add: take_add add.assoc)
  also have "take (4 + len) (drop split buf) = take 4 (drop split buf) @ take len (drop (split + 4) buf)"
    by (simp only: take_add drop_drop) (simp add: add.commute)
  finally have "take n buf = take split buf @ take 4 (drop split buf) @ take len (drop (split + 4) buf)" .
  then have "take n buf = take split buf @ CRLF2 @ rq_body rq" using crlf [OF s(1)] by (simp add: rq)
  moreover have "length (rq_body rq) = len" using l by (simp add: rq)
  moreover have "length (take split buf) + 4 \<le> MAX_HEADERS" using s(2) by simp
  ultimately show ?thesis using parse_head_ok [OF h] by (auto simp: rq)
qed

definition wit_request :: "u8 list" where
  "wit_request = str ''GET /i HTTP/1.1'' @ CRLF2"

theorem request_unambiguous_witness:
  "\<exists>rq n. request_parse wit_request = Inr (Some (rq, n)) \<and> content_length (rq_headers rq) = Inr (length (rq_body rq))"
proof -
  have "\<exists>rq n. request_parse wit_request = Inr (Some (rq, n))"
    by (simp add: wit_request_def str_def CRLF2_def request_parse_def parse_head_def
        split_words_def start_line_ok_def protocols_def ascii_upper_def ascii_control_def content_length_def
        consts_simps Let_def)
  then obtain rq n where r: "request_parse wit_request = Inr (Some (rq, n))" by blast
  with request_unambiguous [OF r] show ?thesis by blast
qed

text \<open>A screen record never makes the receiver allocate more than 8 MiB, a video record always
  has room for its authentication tag, and only record types 0 and 1 reach the decoder.\<close>

theorem screen_header_bounded:
  assumes "screen_parse bytes = Inr h"
  shows "sh_body_length h \<le> 8388608 \<and> length bytes = 128
    \<and> (sh_kind h = EncryptedAccessUnit \<longrightarrow> bytes ! 4 = 0 \<and> 16 \<le> sh_body_length h)
    \<and> (sh_kind h = CodecConfiguration \<longrightarrow> bytes ! 4 = 1 \<and> 0 < sh_body_length h \<and> sh_body_length h \<le> 65536)
    \<and> (sh_kind h = Ignore \<longrightarrow> sh_body_length h \<le> 65536)"
  using assms
  by (auto simp: screen_parse_def screen_kind_of_def Let_def consts_simps not_less split: if_splits)

definition wit_screen :: "u8 list" where
  "wit_screen = [39, 0, 0, 0, 1] @ replicate 123 0"

theorem screen_header_bounded_witness:
  "\<exists>h. screen_parse wit_screen = Inr h \<and> sh_kind h = CodecConfiguration \<and> 0 < sh_body_length h"
proof -
  have l: "length wit_screen = 128" by (simp only: wit_screen_def length_append length_replicate) simp
  have n: "wit_screen ! 0 = 39" "wit_screen ! 1 = 0" "wit_screen ! 2 = 0" "wit_screen ! 3 = 0" "wit_screen ! 4 = 1"
    by (simp_all only: wit_screen_def append.simps nth_Cons_0) (simp_all add: nth_append)
  have "\<exists>h. screen_parse wit_screen = Inr h \<and> sh_kind h = CodecConfiguration"
    using l n by (simp add: screen_parse_def screen_kind_of_def consts_simps from_le32_def from_be32_def
        from_be16_def word_cat_eq Let_def)
  then obtain h where h: "screen_parse wit_screen = Inr h" "sh_kind h = CodecConfiguration" by blast
  with screen_header_bounded [OF h(1)] show ?thesis by blast
qed

text \<open>An accepted audio selection is a single bit, and the format determines it: two different
  selections never give the same format, so a capability mask is never taken for a selection.\<close>

theorem audio_selection_injective:
  assumes "audio_selected b = Inr f"
  shows "b = push_bit (format_bit f) 1 \<and> format_bit f < 64 \<and> af_channels f \<in> {1, 2}"
  using audio_selected_bit [OF assms] by blast

theorem audio_selection_injective_witness:
  "(0x8000 :: u64) = push_bit (format_bit \<lparr>af_codec = SignedPcm16, af_sample_rate = 48000, af_channels = 2\<rparr>) 1"
proof -
  have "audio_selected 0x8000 = Inr \<lparr>af_codec = SignedPcm16, af_sample_rate = 48000, af_channels = 2\<rparr>"
    by (simp add: audio_selected_def is_power_of_two_def set_bits_of_def upt_rec)
  from audio_selection_injective [OF this] show ?thesis by blast
qed

end
