(* ===== verification/Crypto.thy ===== *)
theory Crypto
  imports Protocol Text
begin

text \<open>
  The cryptographic helpers of \<open>native/carplay/src/protocol/pairing.rs\<close> over OpenSSL's primitives,
  which are a parameter: a record of functions that answer \<open>None\<close> where OpenSSL reports an error.
  The record counter cipher of the control connection is here too, with what follows from the
  documented behaviour of an authenticated cipher.
\<close>

record crypto =
  cy_sha512 :: "u8 list \<Rightarrow> u8 list option"
  cy_sha256 :: "u8 list \<Rightarrow> u8 list option"
  cy_sha1 :: "u8 list \<Rightarrow> u8 list option"
  cy_hmac_sha512 :: "u8 list \<Rightarrow> u8 list \<Rightarrow> u8 list option"
  cy_encrypt :: "u8 list \<Rightarrow> u8 list \<Rightarrow> u8 list \<Rightarrow> u8 list \<Rightarrow> (u8 list \<times> u8 list) option"
  cy_decrypt :: "u8 list \<Rightarrow> u8 list \<Rightarrow> u8 list \<Rightarrow> u8 list \<Rightarrow> u8 list \<Rightarrow> u8 list option"
  cy_aes_ctr :: "u8 list \<Rightarrow> u8 list \<Rightarrow> u8 list \<Rightarrow> u8 list option"
  cy_x25519_public :: "u8 list \<Rightarrow> u8 list"
  cy_x25519 :: "u8 list \<Rightarrow> u8 list \<Rightarrow> u8 list option"
  cy_ed25519_public :: "u8 list \<Rightarrow> u8 list option"
  cy_ed25519_sign :: "u8 list \<Rightarrow> u8 list \<Rightarrow> u8 list option"
  cy_ed25519_verify :: "u8 list \<Rightarrow> u8 list \<Rightarrow> u8 list \<Rightarrow> bool option"
  cy_prime_3072 :: nat

text \<open>\<open>From<ErrorStack>\<close>\<close>

definition from_openssl :: "'a option \<Rightarrow> proto_error + 'a" where
  "from_openssl v = ok_or Rejected v"

definition digest :: "crypto \<Rightarrow> u8 list list \<Rightarrow> proto_error + u8 list" where
  "digest cy parts = from_openssl (cy_sha512 cy (concat parts))"

definition hmac :: "crypto \<Rightarrow> u8 list \<Rightarrow> u8 list \<Rightarrow> proto_error + u8 list" where
  "hmac cy key bytes = from_openssl (cy_hmac_sha512 cy key bytes)"

definition derive_key :: "crypto \<Rightarrow> u8 list \<Rightarrow> string \<Rightarrow> string \<Rightarrow> proto_error + u8 list" where
  "derive_key cy secret salt info =
     bindr (hmac cy (str salt) secret) (\<lambda>extracted.
     bindr (hmac cy extracted (str info @ [1])) (\<lambda>expanded. Inr (take 32 expanded)))"

definition label_nonce :: "string \<Rightarrow> u8 list" where
  "label_nonce label = [0, 0, 0, 0] @ str label"

definition seal :: "crypto \<Rightarrow> u8 list \<Rightarrow> u8 list \<Rightarrow> u8 list \<Rightarrow> u8 list \<Rightarrow> proto_error + u8 list" where
  "seal cy key nonce aad plain =
     bindr (from_openssl (cy_encrypt cy key nonce aad plain)) (\<lambda>(cipher, tag). Inr (cipher @ tag))"

definition open_sealed :: "crypto \<Rightarrow> u8 list \<Rightarrow> u8 list \<Rightarrow> u8 list \<Rightarrow> u8 list \<Rightarrow> proto_error + u8 list" where
  "open_sealed cy key nonce aad sealed =
     (if length sealed < 16 then Inl Malformed
      else
        let split = length sealed - 16 in
        from_openssl (cy_decrypt cy key nonce aad (take split sealed) (drop split sealed)))"

definition shared :: "crypto \<Rightarrow> u8 list \<Rightarrow> u8 list \<Rightarrow> proto_error + u8 list" where
  "shared cy private peer =
     (if length peer \<noteq> 32 then Inl Bounds
      else bindr (from_openssl (cy_x25519 cy private peer)) (\<lambda>secret.
        if length secret \<noteq> 32 \<or> list_all (\<lambda>b. b = 0) secret then Inl Rejected else Inr secret))"

definition ed_sign :: "crypto \<Rightarrow> u8 list \<Rightarrow> u8 list \<Rightarrow> proto_error + u8 list" where
  "ed_sign cy key bytes = from_openssl (cy_ed25519_sign cy key bytes)"

definition ed_verify :: "crypto \<Rightarrow> u8 list \<Rightarrow> u8 list \<Rightarrow> u8 list \<Rightarrow> proto_error + unit" where
  "ed_verify cy key bytes signature =
     (if length key \<noteq> 32 \<or> length signature \<noteq> 64 then Inl Bounds
      else bindr (from_openssl (cy_ed25519_verify cy key bytes signature)) (\<lambda>valid.
        if \<not> valid then Inl Rejected else Inr ()))"

text \<open>
  What an authenticated cipher with 16-byte tags documents: encryption keeps the length and is
  undone by decryption under the same key, nonce and associated data, and decryption accepts
  nothing else than what encryption produces.
\<close>

definition aead_correct :: "crypto \<Rightarrow> bool" where
  "aead_correct cy \<longleftrightarrow>
     (\<forall>k n a p c t. cy_encrypt cy k n a p = Some (c, t) \<longrightarrow>
        length c = length p \<and> length t = 16 \<and> cy_decrypt cy k n a c t = Some p)"

definition aead_authentic :: "crypto \<Rightarrow> bool" where
  "aead_authentic cy \<longleftrightarrow>
     (\<forall>k n a c t p. length t = 16 \<longrightarrow> cy_decrypt cy k n a c t = Some p \<longrightarrow> cy_encrypt cy k n a p = Some (c, t))"

lemma open_seal:
  "aead_correct cy \<Longrightarrow> seal cy k n a p = Inr s \<Longrightarrow> length s = length p + 16 \<and> open_sealed cy k n a s = Inr p"
  by (fastforce simp: aead_correct_def seal_def open_sealed_def from_openssl_def)

lemma seal_open:
  assumes "aead_authentic cy" and "open_sealed cy k n a s = Inr p"
  shows "seal cy k n a p = Inr s"
proof -
  from assms(2) have l: "16 \<le> length s"
    and d: "cy_decrypt cy k n a (take (length s - 16) s) (drop (length s - 16) s) = Some p"
    by (auto simp: open_sealed_def from_openssl_def Let_def split: if_splits)
  have "length (drop (length s - 16) s) = 16" using l by simp
  with assms(1) d have "cy_encrypt cy k n a p = Some (take (length s - 16) s, drop (length s - 16) s)"
    by (simp add: aead_authentic_def)
  then show ?thesis by (simp add: seal_def from_openssl_def)
qed

section \<open>The control cipher\<close>

record control_cipher =
  cc_key :: "u8 list"
  cc_counter :: u64
  cc_failed :: bool

definition cipher_new :: "u8 list \<Rightarrow> control_cipher" where
  "cipher_new key = \<lparr>cc_key = key, cc_counter = 0, cc_failed = False\<rparr>"

definition cipher_nonce :: "control_cipher \<Rightarrow> proto_error + u8 list" where
  "cipher_nonce c =
     (if cc_failed c \<or> cc_counter c = 0xffffffffffffffff then Inl State
      else Inr ([0, 0, 0, 0] @ to_le64 (cc_counter c)))"

definition cipher_encrypt :: "crypto \<Rightarrow> control_cipher \<Rightarrow> u8 list \<Rightarrow> control_cipher \<times> (proto_error + u8 list)" where
  "cipher_encrypt cy c plain =
     (if plain = [] \<or> length plain > 16384 then (c, Inl Bounds)
      else
        let header = to_le16 (of_nat (length plain)) in
        case bindr (cipher_nonce c) (\<lambda>nonce. seal cy (cc_key c) nonce header plain) of
          Inl e \<Rightarrow> (c, Inl e)
        | Inr sealed \<Rightarrow> (c\<lparr>cc_counter := cc_counter c + 1\<rparr>, Inr (header @ sealed)))"

definition cipher_decrypt :: "crypto \<Rightarrow> control_cipher \<Rightarrow> u8 list \<Rightarrow> control_cipher \<times> (proto_error + u8 list)" where
  "cipher_decrypt cy c frame =
     (case cipher_nonce c of
        Inl e \<Rightarrow> (c, Inl e)
      | Inr nonce \<Rightarrow>
          let c = c\<lparr>cc_failed := True\<rparr> in
          if length frame < 18 then (c, Inl Bounds)
          else
            let size = unat (from_le16 (frame ! 0) (frame ! 1)) in
            if size > 16384 \<or> length frame \<noteq> size + 18 then (c, Inl Bounds)
            else case open_sealed cy (cc_key c) nonce (take 2 frame) (drop 2 frame) of
              Inl e \<Rightarrow> (c, Inl e)
            | Inr plain \<Rightarrow> (c\<lparr>cc_counter := cc_counter c + 1, cc_failed := False\<rparr>, Inr plain))"

text \<open>A receiver as a machine: one frame per step; a failed direction stays failed.\<close>

interpretation cipher_machine: absorbing_machine "cipher_decrypt cy" "\<lambda>_. True" cc_failed
  by unfold_locales (simp_all add: cipher_decrypt_def cipher_nonce_def)

lemma to_le16_Cons: "to_le16 w = [ucast w, ucast (drop_bit 8 w)]"
  by (simp add: to_le16_def to_be16_def)

lemma from_le16_parts': "from_le16 (ucast w) (ucast (drop_bit 8 w)) = w"
  by (simp add: from_le16_def from_be16_parts)

text \<open>One frame, from one side to the other.\<close>

lemma cipher_step:
  assumes cy: "aead_correct cy" and e: "cipher_encrypt cy s plain = (s', Inr frame)"
    and k: "cc_key r = cc_key s" "cc_counter r = cc_counter s" "\<not> cc_failed r"
  shows "cipher_decrypt cy r frame = (r\<lparr>cc_counter := cc_counter s'\<rparr>, Inr plain)
    \<and> cc_counter s' = cc_counter s + 1 \<and> cc_key s' = cc_key s \<and> \<not> cc_failed s'"
proof -
  let ?h = "to_le16 (of_nat (length plain))"
  from e obtain nonce sealed where n: "cipher_nonce s = Inr nonce" and sl: "seal cy (cc_key s) nonce ?h plain = Inr sealed"
    and f: "frame = ?h @ sealed" and s': "s' = s\<lparr>cc_counter := cc_counter s + 1\<rparr>" and l: "plain \<noteq> []" "length plain \<le> 16384"
    by (auto simp: cipher_encrypt_def Let_def split: if_splits sum.splits)
  from n have nr: "cipher_nonce r = Inr nonce" and nf: "\<not> cc_failed s"
    using k by (auto simp: cipher_nonce_def split: if_splits)
  note o = open_seal [OF cy sl]
  have u: "unat (of_nat (length plain) :: u16) = length plain" by (rule unat_of_nat_u16) (use l in simp)
  have lf: "length frame = length plain + 18" using o by (simp add: f)
  have hd: "unat (from_le16 (frame ! 0) (frame ! 1)) = length plain"
    by (simp add: f to_le16_Cons from_le16_parts' u)
  have tk: "take 2 frame = ?h" "drop 2 frame = sealed" by (simp_all add: f to_le16_Cons)
  have "cipher_decrypt cy r frame = (r\<lparr>cc_counter := cc_counter r + 1, cc_failed := False\<rparr>, Inr plain)"
    using lf hd tk o l k(1) by (simp add: cipher_decrypt_def nr Let_def)
  then show ?thesis using k s' nf by simp
qed

text \<open>The frames of successive encryptions.\<close>

fun encrypt_all :: "crypto \<Rightarrow> control_cipher \<Rightarrow> u8 list list \<Rightarrow> control_cipher \<times> (proto_error + u8 list list)" where
  "encrypt_all cy c [] = (c, Inr [])"
| "encrypt_all cy c (p # ps) =
     (case cipher_encrypt cy c p of
        (c, Inl e) \<Rightarrow> (c, Inl e)
      | (c, Inr frame) \<Rightarrow>
          (case encrypt_all cy c ps of (c, Inl e) \<Rightarrow> (c, Inl e) | (c, Inr frames) \<Rightarrow> (c, Inr (frame # frames))))"

lemma cipher_run:
  "aead_correct cy \<Longrightarrow> encrypt_all cy s ps = (s', Inr frames) \<Longrightarrow>
   cc_key r = cc_key s \<Longrightarrow> cc_counter r = cc_counter s \<Longrightarrow> \<not> cc_failed r \<Longrightarrow>
   run_machine (cipher_decrypt cy) r frames = (r\<lparr>cc_counter := cc_counter s'\<rparr>, map Inr ps)"
proof (induction ps arbitrary: s r frames)
  case Nil
  then show ?case by simp
next
  case (Cons p ps)
  then obtain s1 frame frames' where e: "cipher_encrypt cy s p = (s1, Inr frame)"
    and r: "encrypt_all cy s1 ps = (s', Inr frames')" and f: "frames = frame # frames'"
    by (auto split: prod.splits sum.splits)
  from cipher_step [OF Cons.prems(1) e Cons.prems(3,4,5)] Cons.IH [OF Cons.prems(1) r, of "r\<lparr>cc_counter := cc_counter s1\<rparr>"] Cons.prems
  show ?case by (simp add: f)
qed

lemma cipher_failure_closes: "snd (cipher_decrypt cy c f) = Inl e \<Longrightarrow>
   cc_failed (fst (cipher_decrypt cy c f)) \<or> cc_counter c = 0xffffffffffffffff"
  by (auto simp: cipher_decrypt_def cipher_nonce_def Let_def split: sum.splits if_splits)

lemma cipher_closed_answer: "cc_failed c \<Longrightarrow> cipher_decrypt cy c f = (c, Inl State)"
  by (simp add: cipher_decrypt_def cipher_nonce_def)

lemma cipher_exhausted_answer:
  "cc_counter c = 0xffffffffffffffff \<Longrightarrow> cipher_decrypt cy c f = (c, Inl State)"
  by (simp add: cipher_decrypt_def cipher_nonce_def)

lemma cipher_final:
  assumes "snd (cipher_decrypt cy c f) = Inl e"
  shows "snd (run_machine (cipher_decrypt cy) (fst (cipher_decrypt cy c f)) fs) = map (\<lambda>_. Inl State) fs"
proof -
  let ?c = "fst (cipher_decrypt cy c f)"
  have st: "cc_failed ?c \<or> cc_counter ?c = 0xffffffffffffffff"
    using cipher_failure_closes [OF assms] cipher_exhausted_answer [of c cy f] by auto
  then have "cipher_decrypt cy ?c g = (?c, Inl State)" for g
    using cipher_closed_answer cipher_exhausted_answer by blast
  then have "run_machine (cipher_decrypt cy) ?c fs = (?c, map (\<lambda>_. Inl State) fs)"
    by (induction fs) simp_all
  then show ?thesis by simp
qed

text \<open>The nonces of successive encryptions.\<close>

fun nonces_used :: "crypto \<Rightarrow> control_cipher \<Rightarrow> u8 list list \<Rightarrow> u8 list list" where
  "nonces_used cy c [] = []"
| "nonces_used cy c (p # ps) =
     (case cipher_encrypt cy c p of
        (c', Inl e) \<Rightarrow> []
      | (c', Inr frame) \<Rightarrow> projr (cipher_nonce c) # nonces_used cy c' ps)"

definition nonce_of :: "u64 \<Rightarrow> u8 list" where
  "nonce_of n = [0, 0, 0, 0] @ to_le64 n"

lemma to_be64_inj: "to_be64 a = to_be64 b \<Longrightarrow> a = b"
proof -
  assume e: "to_be64 a = to_be64 b"
  have rd: "from_be32 (to_be32 x ! 0) (to_be32 x ! 1) (to_be32 x ! 2) (to_be32 x ! 3) = x" for x
    by (simp only: to_be32_def to_be16_def) (simp add: from_be32_parts)
  then have parts: "to_be32 x = to_be32 y \<Longrightarrow> x = y" for x y by metis
  from e have w: "to_be32 (ucast (drop_bit 32 a)) = to_be32 (ucast (drop_bit 32 b))"
    "to_be32 (ucast a) = to_be32 (ucast b)" by (simp_all add: to_be64_def)
  have hi: "(ucast (drop_bit 32 a) :: u32) = ucast (drop_bit 32 b)" and lo: "(ucast a :: u32) = ucast b"
    by (rule parts [OF w(1)], rule parts [OF w(2)])
  show "a = b"
  proof (rule bit_word_eqI)
    fix n
    assume n: "n < LENGTH(64)"
    show "bit a n = bit b n"
    proof (cases "n < 32")
      case True
      with lo have "bit (ucast a :: u32) n = bit (ucast b :: u32) n" by simp
      with True show ?thesis by (simp add: bit_simps)
    next
      case False
      from hi have "bit (ucast (drop_bit 32 a) :: u32) (n - 32) = bit (ucast (drop_bit 32 b) :: u32) (n - 32)" by simp
      moreover have "n - 32 < 32" using n False by simp
      ultimately show ?thesis using False by (simp add: bit_simps)
    qed
  qed
qed

lemma nonce_of_inj: "nonce_of a = nonce_of b \<longleftrightarrow> a = b"
  using to_be64_inj [of a b] by (auto simp: nonce_of_def to_le64_def)

lemma encrypt_step_counter:
  "cipher_encrypt cy c p = (c', Inr f) \<Longrightarrow> cipher_nonce c = Inr (nonce_of (cc_counter c))
     \<and> cc_counter c \<noteq> 0xffffffffffffffff \<and> c' = c\<lparr>cc_counter := cc_counter c + 1\<rparr>"
  by (auto simp: cipher_encrypt_def cipher_nonce_def nonce_of_def Let_def split: if_splits sum.splits)

lemma encrypt_counters:
  "encrypt_all cy c ps = (s, Inr frames) \<Longrightarrow> cc_counter c = of_nat k \<Longrightarrow> k < 2 ^ 64 \<Longrightarrow>
   nonces_used cy c ps = map (\<lambda>i. nonce_of (of_nat i)) [k..<k + length ps] \<and> k + length ps < 2 ^ 64"
proof (induction ps arbitrary: c k frames)
  case (Cons p ps)
  then obtain c1 f frames' where e: "cipher_encrypt cy c p = (c1, Inr f)"
    and r: "encrypt_all cy c1 ps = (s, Inr frames')"
    by (auto split: prod.splits sum.splits)
  note st = encrypt_step_counter [OF e]
  have "k \<noteq> 2 ^ 64 - 1"
  proof
    assume "k = 2 ^ 64 - 1"
    then have "cc_counter c = 0xffffffffffffffff" using Cons.prems(2) by simp
    with st show False by simp
  qed
  with Cons.prems(3) have k: "Suc k < 2 ^ 64" by simp
  have "cc_counter c1 = of_nat (Suc k)" using st Cons.prems(2) by (simp add: add.commute)
  from Cons.IH [OF r this k] e st Cons.prems(2) show ?case
    by (simp add: upt_conv_Cons del: upt_Suc)
qed simp

text \<open>A cipher that only appends a tag, to evaluate the definitions on.\<close>

definition plain_crypto :: crypto where
  "plain_crypto = \<lparr>cy_sha512 = Some, cy_sha256 = Some, cy_sha1 = Some, cy_hmac_sha512 = (\<lambda>k m. Some (k @ m)),
     cy_encrypt = (\<lambda>k n a p. Some (p, replicate 16 0)),
     cy_decrypt = (\<lambda>k n a c t. if t = replicate 16 0 then Some c else None),
     cy_aes_ctr = (\<lambda>k iv p. Some p), cy_x25519_public = id, cy_x25519 = (\<lambda>k p. Some p),
     cy_ed25519_public = Some, cy_ed25519_sign = (\<lambda>k m. Some (replicate 64 1)),
     cy_ed25519_verify = (\<lambda>k m s. Some True), cy_prime_3072 = 23\<rparr>"

lemma plain_crypto_aead: "aead_correct plain_crypto" "aead_authentic plain_crypto"
  by (auto simp: aead_correct_def aead_authentic_def plain_crypto_def split: if_splits)

section \<open>Properties\<close>

text \<open>The encrypted control connection: with a correct authenticated cipher a receiver that
  starts in step with the sender gets back exactly the plaintexts, in order, and stays in step.\<close>

theorem control_cipher_round_trip:
  assumes "aead_correct cy" and "encrypt_all cy (cipher_new key) plains = (s, Inr frames)"
  shows "run_machine (cipher_decrypt cy) (cipher_new key) frames
    = ((cipher_new key)\<lparr>cc_counter := cc_counter s\<rparr>, map Inr plains)"
  by (rule cipher_run [OF assms]) (simp_all add: cipher_new_def)

theorem control_cipher_round_trip_witness:
  "\<exists>s frames. encrypt_all plain_crypto (cipher_new [1]) [[5], [6, 7]] = (s, Inr frames)
     \<and> snd (run_machine (cipher_decrypt plain_crypto) (cipher_new [1]) frames) = [Inr [5], Inr [6, 7]]"
proof -
  obtain s frames where e: "encrypt_all plain_crypto (cipher_new [1]) [[5], [6, 7]] = (s, Inr frames)"
    by (simp add: cipher_encrypt_def cipher_nonce_def cipher_new_def seal_def from_openssl_def plain_crypto_def Let_def)
  from control_cipher_round_trip [OF plain_crypto_aead(1) e] e show ?thesis by auto
qed

text \<open>A direction that failed once is dead: after the first frame that is rejected (tampered,
  replayed, out of order, or past the last counter) every later frame is answered \<open>Error::State\<close>.\<close>

theorem control_cipher_poisoned:
  assumes "i < j" and "j < length frames"
    and "snd (run_machine (cipher_decrypt cy) c frames) ! i = Inl e"
  shows "snd (run_machine (cipher_decrypt cy) c frames) ! j = Inl State"
proof -
  let ?c = "fst (run_machine (cipher_decrypt cy) c (take i frames))"
  have i: "i < length frames" using assms by simp
  have e: "snd (cipher_decrypt cy ?c (frames ! i)) = Inl e"
    using assms(3) run_machine_nth [OF i, of "cipher_decrypt cy" c] by simp
  have "frames = take i frames @ frames ! i # drop (Suc i) frames" by (rule id_take_nth_drop [OF i])
  then have "snd (run_machine (cipher_decrypt cy) c frames)
      = snd (run_machine (cipher_decrypt cy) c (take i frames)) @ snd (cipher_decrypt cy ?c (frames ! i))
        # snd (run_machine (cipher_decrypt cy) (fst (cipher_decrypt cy ?c (frames ! i))) (drop (Suc i) frames))"
    by (metis run_machine_append run_machine_Cons snd_conv)
  then show ?thesis
    using cipher_final [OF e] assms(1,2) by (simp add: nth_append nth_Cons')
qed

theorem control_cipher_poisoned_witness:
  "snd (run_machine (cipher_decrypt plain_crypto) (cipher_new [1]) [[], []]) ! 1 = Inl State"
  by (rule control_cipher_poisoned [where i = 0 and e = Bounds])
    (simp_all add: cipher_decrypt_def cipher_nonce_def cipher_new_def)

text \<open>No nonce is ever used twice under one key: the nonces of any sequence of successful
  encryptions are pairwise distinct, because the counter stops before it would wrap.\<close>

theorem control_nonces_distinct:
  assumes "encrypt_all cy (cipher_new key) plains = (s, Inr frames)"
  shows "distinct (nonces_used cy (cipher_new key) plains)
    \<and> length (nonces_used cy (cipher_new key) plains) = length plains"
proof -
  have "cc_counter (cipher_new key) = of_nat 0" by (simp add: cipher_new_def)
  from encrypt_counters [OF assms this] have n: "nonces_used cy (cipher_new key) plains
      = map (\<lambda>i. nonce_of (of_nat i)) [0..<length plains]" and l: "length plains < 2 ^ 64" by auto
  have "inj_on (\<lambda>i. nonce_of (of_nat i)) {0..<length plains}"
  proof (rule inj_onI)
    fix i j
    assume ij: "i \<in> {0..<length plains}" "j \<in> {0..<length plains}" "nonce_of (of_nat i) = nonce_of (of_nat j)"
    then have "unat (of_nat i :: u64) = unat (of_nat j :: u64)" by (simp add: nonce_of_inj)
    with ij(1,2) l show "i = j" by (simp add: unat_of_nat)
  qed
  then show ?thesis by (simp add: n distinct_map)
qed

theorem control_nonces_distinct_witness:
  "distinct (nonces_used plain_crypto (cipher_new [1]) [[5], [6, 7]])"
proof -
  obtain s frames where e: "encrypt_all plain_crypto (cipher_new [1]) [[5], [6, 7]] = (s, Inr frames)"
    by (simp add: cipher_encrypt_def cipher_nonce_def cipher_new_def seal_def from_openssl_def plain_crypto_def Let_def)
  from control_nonces_distinct [OF e] show ?thesis by blast
qed

end
