(* ===== verification/Srp.thy ===== *)
theory Srp
  imports Crypto "HOL-Library.Power_By_Squaring"
begin

text \<open>
  The SRP-6a server of the pairing (\<open>Srp\<close> in \<open>native/carplay/src/protocol/pairing.rs\<close>). OpenSSL's
  numbers are natural numbers with their big-endian bytes; the random salt and private exponent
  are arguments.
\<close>

section \<open>Big-endian numbers\<close>

definition be_nat :: "u8 list \<Rightarrow> nat" where
  "be_nat bs = foldl (\<lambda>n b. 256 * n + unat b) 0 bs"

fun nat_be :: "nat \<Rightarrow> u8 list" where
  "nat_be n = (if n = 0 then [] else nat_be (n div 256) @ [of_nat (n mod 256)])"

declare nat_be.simps [simp del]

text \<open>\<open>to_vec_padded(len)\<close> fails when the number does not fit.\<close>

definition nat_be_padded :: "nat \<Rightarrow> nat \<Rightarrow> proto_error + u8 list" where
  "nat_be_padded len n =
     (let bs = nat_be n in
      if length bs > len then Inl Rejected else Inr (replicate (len - length bs) 0 @ bs))"

lemma be_nat_snoc: "be_nat (bs @ [b]) = 256 * be_nat bs + unat b"
  by (simp add: be_nat_def)

lemma be_nat_nat_be [simp]: "be_nat (nat_be n) = n"
proof (induction n rule: nat_be.induct)
  case (1 n)
  show ?case
  proof (cases "n = 0")
    case True
    then show ?thesis by (simp add: nat_be.simps be_nat_def)
  next
    case False
    with 1 show ?thesis
      by (subst nat_be.simps) (simp add: be_nat_snoc)
  qed
qed

lemma be_nat_padding: "be_nat (replicate k 0 @ bs) = be_nat bs"
  by (induction k) (simp_all add: be_nat_def)

lemma be_nat_padded: "nat_be_padded len n = Inr bs \<Longrightarrow> length bs = len \<and> be_nat bs = n"
  by (auto simp: nat_be_padded_def Let_def be_nat_padding split: if_splits)

section \<open>The server\<close>

definition mod_exp :: "nat \<Rightarrow> nat \<Rightarrow> nat \<Rightarrow> nat" where
  "mod_exp b e n = b ^ e mod n"

record srp =
  sr_modulus :: nat
  sr_verifier :: nat
  sr_private :: nat
  sr_public :: "u8 list"
  sr_salt :: "u8 list"

text \<open>The private exponent of the password, and the multiplier.\<close>

definition srp_exponent :: "crypto \<Rightarrow> u8 list \<Rightarrow> proto_error + nat" where
  "srp_exponent cy salt =
     bindr (digest cy [str ''Pair-Setup:3939'']) (\<lambda>inner.
     bindr (digest cy [salt, inner]) (\<lambda>d. Inr (be_nat d)))"

definition srp_multiplier :: "crypto \<Rightarrow> nat \<Rightarrow> proto_error + nat" where
  "srp_multiplier cy modulus =
     bindr (nat_be_padded 384 5) (\<lambda>g.
     bindr (digest cy [nat_be modulus, g]) (\<lambda>d. Inr (be_nat d)))"

definition srp_new :: "crypto \<Rightarrow> u8 list \<Rightarrow> u8 list \<Rightarrow> proto_error + srp" where
  "srp_new cy salt private_bytes =
     (let modulus = cy_prime_3072 cy; generator = 5; private = be_nat private_bytes in
      bindr (srp_exponent cy salt) (\<lambda>exponent.
      let verifier = mod_exp generator exponent modulus in
      bindr (srp_multiplier cy modulus) (\<lambda>multiplier.
      let gb = mod_exp generator private modulus;
          kv = multiplier * verifier mod modulus;
          public = (kv + gb) mod modulus in
      bindr (nat_be_padded 384 public) (\<lambda>public_bytes.
        Inr \<lparr>sr_modulus = modulus, sr_verifier = verifier, sr_private = private,
             sr_public = public_bytes, sr_salt = salt\<rparr>))))"

definition server_secret :: "srp \<Rightarrow> nat \<Rightarrow> nat \<Rightarrow> nat" where
  "server_secret s a u =
     mod_exp (a * mod_exp (sr_verifier s) u (sr_modulus s) mod sr_modulus s) (sr_private s) (sr_modulus s)"

definition xor_bytes :: "u8 list \<Rightarrow> u8 list \<Rightarrow> u8 list" where
  "xor_bytes xs ys = map (\<lambda>(x, y). x XOR y) (zip xs ys)"

text \<open>The proof the phone has to send, and the server's answer to it.\<close>

definition expected_proof :: "crypto \<Rightarrow> srp \<Rightarrow> u8 list \<Rightarrow> u8 list \<Rightarrow> proto_error + u8 list" where
  "expected_proof cy s public key =
     bindr (digest cy [nat_be (sr_modulus s)]) (\<lambda>hn.
     bindr (digest cy [[5]]) (\<lambda>hg.
     bindr (digest cy [str ''Pair-Setup'']) (\<lambda>name.
       digest cy [xor_bytes hn hg, name, sr_salt s, public, sr_public s, key])))"

definition srp_verify :: "crypto \<Rightarrow> srp \<Rightarrow> u8 list \<Rightarrow> u8 list \<Rightarrow> proto_error + (u8 list \<times> u8 list)" where
  "srp_verify cy s public proof_bytes =
     (if length public \<noteq> 384 \<or> length proof_bytes \<noteq> 64 then Inl Bounds
      else
        let a = be_nat public in
        if a mod sr_modulus s = 0 then Inl Rejected
        else
          bindr (digest cy [public, sr_public s]) (\<lambda>d.
          let u = be_nat d in
          if u = 0 then Inl Rejected
          else
            bindr (digest cy [nat_be (server_secret s a u)]) (\<lambda>key.
            bindr (expected_proof cy s public key) (\<lambda>expected.
            if expected \<noteq> proof_bytes then Inl Rejected
            else bindr (digest cy [public, proof_bytes, key]) (\<lambda>reply. Inr (key, reply))))))"

section \<open>Agreement\<close>

text \<open>The phone's side of SRP-6a: from the password it knows the exponent \<open>x\<close>, from the server its
  public number; \<open>a\<close> is its own private exponent.\<close>

definition client_secret :: "nat \<Rightarrow> nat \<Rightarrow> nat \<Rightarrow> nat \<Rightarrow> nat \<Rightarrow> nat \<Rightarrow> nat" where
  "client_secret modulus k x public a u =
     nat ((int public - int k * 5 ^ x) ^ (a + u * x) mod int modulus)"

lemma mod_exp_mod: "mod_exp (b mod n) e n = b ^ e mod n"
  by (simp add: mod_exp_def power_mod)

lemma srp_secrets_agree:
  assumes "sr_modulus s = n" and "sr_verifier s = mod_exp 5 x n"
    and "be_nat (sr_public s) = (k * mod_exp 5 x n mod n + mod_exp 5 (sr_private s) n) mod n"
  shows "server_secret s (mod_exp 5 a n) u = client_secret n k x (be_nat (sr_public s)) a u"
proof -
  let ?b = "sr_private s"
  have pub: "int (be_nat (sr_public s)) mod int n = (int k * 5 ^ x + 5 ^ ?b) mod int n"
    unfolding assms(3) mod_exp_def
    by (simp add: zmod_int of_nat_mod mod_simps)
  have "(int (be_nat (sr_public s)) - int k * 5 ^ x) mod int n = 5 ^ ?b mod int n"
  proof -
    have "(int (be_nat (sr_public s)) - int k * 5 ^ x) mod int n
        = (int (be_nat (sr_public s)) mod int n - int k * 5 ^ x) mod int n"
      by (simp add: mod_simps)
    also have "\<dots> = ((int k * 5 ^ x + 5 ^ ?b) - int k * 5 ^ x) mod int n"
      unfolding pub by (simp add: mod_simps)
    finally show ?thesis by simp
  qed
  then have client: "(int (be_nat (sr_public s)) - int k * 5 ^ x) ^ (a + u * x) mod int n
      = (5 ^ ?b) ^ (a + u * x) mod int n"
    by (metis power_mod)
  have "server_secret s (mod_exp 5 a n) u = (5 ^ a * (5 ^ x) ^ u) ^ ?b mod n"
    by (simp add: server_secret_def assms(1,2) mod_exp_def power_mod mod_simps)
  also have "(5 ^ a * (5 ^ x) ^ u) ^ ?b = ((5 :: nat) ^ ?b) ^ (a + u * x)"
    by (simp add: power_add [symmetric] power_mult [symmetric] algebra_simps)
  finally have "server_secret s (mod_exp 5 a n) u = ((5 :: nat) ^ ?b) ^ (a + u * x) mod n" .
  moreover have "nat ((5 ^ ?b) ^ (a + u * x) mod int n) = ((5 :: nat) ^ ?b) ^ (a + u * x) mod n"
    by (simp add: nat_mod_distrib nat_power_eq)
  ultimately show ?thesis by (simp add: client_secret_def client)
qed

text \<open>The phone's computation with the same primitives: public number, session key, the proof it sends
  and the answer it expects. It takes the salt and the public number from the server's message.\<close>

definition srp_phone :: "crypto \<Rightarrow> u8 list \<Rightarrow> u8 list \<Rightarrow> nat
    \<Rightarrow> proto_error + (u8 list \<times> u8 list \<times> u8 list \<times> u8 list)" where
  "srp_phone cy salt server_public a =
     (let n = cy_prime_3072 cy in
      bindr (srp_exponent cy salt) (\<lambda>x.
      bindr (srp_multiplier cy n) (\<lambda>k.
      bindr (nat_be_padded 384 (mod_exp 5 a n)) (\<lambda>public.
      bindr (digest cy [public, server_public]) (\<lambda>d.
      if mod_exp 5 a n = 0 \<or> be_nat d = 0 then Inl Rejected
      else
        bindr (digest cy [nat_be (client_secret n k x (be_nat server_public) a (be_nat d))]) (\<lambda>key.
        bindr (digest cy [nat_be n]) (\<lambda>hn.
        bindr (digest cy [[5]]) (\<lambda>hg.
        bindr (digest cy [str ''Pair-Setup'']) (\<lambda>name.
        bindr (digest cy [xor_bytes hn hg, name, salt, public, server_public, key]) (\<lambda>m1.
        bindr (digest cy [public, m1, key]) (\<lambda>m2. Inr (public, key, m1, m2))))))))))))"

definition sha512_length :: "crypto \<Rightarrow> bool" where
  "sha512_length cy \<longleftrightarrow> (\<forall>m d. cy_sha512 cy m = Some d \<longrightarrow> length d = 64)"

lemma digest_length: "sha512_length cy \<Longrightarrow> digest cy parts = Inr d \<Longrightarrow> length d = 64"
  by (auto simp: sha512_length_def digest_def from_openssl_def)

lemma srp_new_parts:
  assumes "srp_new cy salt private = Inr s"
  obtains x k where "srp_exponent cy salt = Inr x" and "srp_multiplier cy (cy_prime_3072 cy) = Inr k"
    and "sr_modulus s = cy_prime_3072 cy" and "sr_salt s = salt"
    and "sr_verifier s = mod_exp 5 x (cy_prime_3072 cy)"
    and "be_nat (sr_public s) = (k * mod_exp 5 x (cy_prime_3072 cy) mod cy_prime_3072 cy
      + mod_exp 5 (sr_private s) (cy_prime_3072 cy)) mod cy_prime_3072 cy"
  using assms by (auto simp: srp_new_def Let_def dest!: be_nat_padded)

lemma mod_exp_reduced: "mod_exp b e n mod n = mod_exp b e n"
  by (simp add: mod_exp_def)

section \<open>Property\<close>

lemma srp_agrees:
  assumes "sha512_length cy" and "srp_new cy salt private = Inr s"
    and "srp_phone cy (sr_salt s) (sr_public s) a = Inr (public, key, m1, m2)"
  shows "srp_verify cy s public m1 = Inr (key, m2)"
proof -
  obtain x k where x: "srp_exponent cy salt = Inr x" and k: "srp_multiplier cy (cy_prime_3072 cy) = Inr k"
    and s: "sr_modulus s = cy_prime_3072 cy" "sr_salt s = salt"
      "sr_verifier s = mod_exp 5 x (cy_prime_3072 cy)"
    and b: "be_nat (sr_public s) = (k * mod_exp 5 x (cy_prime_3072 cy) mod cy_prime_3072 cy
      + mod_exp 5 (sr_private s) (cy_prime_3072 cy)) mod cy_prime_3072 cy"
    by (rule srp_new_parts [OF assms(2)])
  note agree = srp_secrets_agree [OF s(1,3) b]
  from assms(3) obtain d hn hg name where
    pub: "nat_be_padded 384 (mod_exp 5 a (cy_prime_3072 cy)) = Inr public"
    and d: "digest cy [public, sr_public s] = Inr d" "be_nat d \<noteq> 0"
    and nz: "mod_exp 5 a (cy_prime_3072 cy) \<noteq> 0"
    and key: "digest cy [nat_be (client_secret (cy_prime_3072 cy) k x (be_nat (sr_public s)) a (be_nat d))] = Inr key"
    and h: "digest cy [nat_be (cy_prime_3072 cy)] = Inr hn" "digest cy [[5]] = Inr hg"
      "digest cy [str ''Pair-Setup''] = Inr name"
    and m1: "digest cy [xor_bytes hn hg, name, salt, public, sr_public s, key] = Inr m1"
    and m2: "digest cy [public, m1, key] = Inr m2"
    by (auto simp: srp_phone_def Let_def s x k split: if_splits)
  note p = be_nat_padded [OF pub]
  have lm: "length m1 = 64" by (rule digest_length [OF assms(1) m1])
  have "expected_proof cy s public key = Inr m1"
    by (simp add: expected_proof_def s h m1)
  then show ?thesis
    using p lm d nz key m2 by (simp add: srp_verify_def Let_def s mod_exp_reduced agree)
qed

text \<open>The SRP exchange agrees: whenever the phone knows the password and gets as far as sending its
  proof, the server accepts that proof, derives the same session key and answers with exactly the proof
  the phone expects. The two sides compute the shared secret by different formulas.\<close>

theorem srp_agreement:
  assumes "sha512_length cy" and "srp_new cy salt private = Inr s"
    and "srp_phone cy (sr_salt s) (sr_public s) a = Inr (public, key, m1, m2)"
  shows "srp_verify cy s public m1 = Inr (key, m2)"
  by (rule srp_agrees [OF assms])

text \<open>A toy group and hash for the witness.\<close>

definition toy_digest :: "u8 list" where
  "toy_digest = replicate 63 0 @ [1]"

definition toy_crypto :: crypto where
  "toy_crypto = plain_crypto\<lparr>cy_sha512 := (\<lambda>_. Some toy_digest)\<rparr>"

lemma toy_digest_simps: "length toy_digest = 64" "be_nat toy_digest = 1"
  by (simp add: toy_digest_def) (unfold toy_digest_def be_nat_padding, simp add: be_nat_def)

lemma toy_crypto_simps: "digest toy_crypto parts = Inr toy_digest" "cy_prime_3072 toy_crypto = 23"
  "sha512_length toy_crypto"
  by (simp_all add: digest_def toy_crypto_def plain_crypto_def from_openssl_def sha512_length_def toy_digest_simps)

lemma nat_be_padded_byte:
  assumes "n < 256" shows "\<exists>bs. nat_be_padded 384 n = Inr bs \<and> be_nat bs = n"
proof -
  have "length (nat_be n) \<le> 1" using assms by (simp add: nat_be.simps [of n] nat_be.simps [of 0])
  then have "\<exists>bs. nat_be_padded 384 n = Inr bs" by (simp add: nat_be_padded_def Let_def)
  then show ?thesis using be_nat_padded by blast
qed

lemma toy_srp_new:
  assumes "\<And>parts. digest cy parts = Inr toy_digest" and "cy_prime_3072 cy = 23"
  shows "\<exists>s. srp_new cy salt [3] = Inr s"
proof -
  obtain g where g: "nat_be_padded 384 5 = Inr g" using nat_be_padded_byte [of 5] by auto
  obtain b where b: "nat_be_padded 384 15 = Inr b" using nat_be_padded_byte [of 15] by auto
  have p3: "be_nat [3] = 3" by (simp add: be_nat_def)
  show ?thesis
    by (simp add: srp_new_def srp_exponent_def srp_multiplier_def assms toy_digest_simps mod_exp_def p3 g b)
qed

lemma toy_srp_phone:
  assumes "\<And>parts. digest cy parts = Inr toy_digest" and "cy_prime_3072 cy = 23"
  shows "\<exists>public key m1 m2. srp_phone cy salt b 1 = Inr (public, key, m1, m2) \<and> length public = 384 \<and> length m1 = 64"
proof -
  obtain g where g: "nat_be_padded 384 5 = Inr g" using nat_be_padded_byte [of 5] by auto
  with be_nat_padded [OF g] show ?thesis
    by (simp add: srp_phone_def srp_exponent_def srp_multiplier_def assms toy_digest_simps mod_exp_def)
qed

theorem srp_agreement_witness:
  "\<exists>s public key m1 m2. srp_new toy_crypto [1, 2] [3] = Inr s
     \<and> srp_verify toy_crypto s public m1 = Inr (key, m2)"
proof -
  obtain s where s: "srp_new toy_crypto [1, 2] [3] = Inr s"
    using toy_srp_new [OF toy_crypto_simps(1,2)] by blast
  obtain public key m1 m2 where p: "srp_phone toy_crypto (sr_salt s) (sr_public s) 1 = Inr (public, key, m1, m2)"
    using toy_srp_phone [OF toy_crypto_simps(1,2)] by blast
  from srp_agreement [OF toy_crypto_simps(3) s p] s show ?thesis by blast
qed

end
