(* ===== verification/Assoc.thy ===== *)
theory Assoc
  imports "HOL-Library.AList"
begin

text \<open>Association lists with unique keys, the model of the sources' ordered maps: facts about
  updates at a fresh key and about sizes that several components share.\<close>

lemma update_fresh: "k \<notin> fst ` set xs \<Longrightarrow> AList.update k v xs = xs @ [(k, v)]"
  by (induction xs) auto

lemma update_last: "k \<notin> fst ` set xs \<Longrightarrow> AList.update k v (xs @ [(k, w)]) = xs @ [(k, v)]"
  by (induction xs) auto

lemma delete_last: "k \<notin> fst ` set xs \<Longrightarrow> AList.delete k (xs @ [(k, w)]) = xs"
  by (induction xs) (auto simp: AList.delete_eq)

lemma length_update_le: "length (AList.update k v xs) \<le> (if map_of xs k = None then Suc (length xs) else length xs)"
  by (induction xs) auto

lemma map_of_None_fst: "map_of xs k = None \<longleftrightarrow> k \<notin> fst ` set xs"
  by (rule map_of_eq_None_iff)

lemma map_of_snoc_fresh: "map_of xs k = None \<Longrightarrow> map_of (xs @ [(k, v)]) k = Some v"
  by (simp add: map_add_def)

lemma distinct_fst_update: "distinct (map fst xs) \<Longrightarrow> distinct (map fst (AList.update k v xs))"
  by (rule distinct_update)

lemma distinct_fst_delete: "distinct (map fst xs) \<Longrightarrow> distinct (map fst (AList.delete k xs))"
  by (rule distinct_delete)

text \<open>A sum over the values, at an update and a deletion of a present key.\<close>

lemma sum_update:
  "distinct (map fst xs) \<Longrightarrow> map_of xs k = Some w \<Longrightarrow>
   sum_list (map (\<lambda>(_, v). f v) (AList.update k v' xs)) + f w = sum_list (map (\<lambda>(_, v). f v) xs) + (f v' :: nat)"
proof (induction xs)
  case (Cons x xs)
  then show ?case by (cases x) (auto split: if_splits)
qed simp

lemma sum_delete_le: "sum_list (map (\<lambda>(_, v). f v) (AList.delete k xs)) \<le> sum_list (map (\<lambda>(_, v). (f v :: nat)) xs)"
  by (induction xs) (auto simp: AList.delete_eq)

lemma length_delete_le: "length (AList.delete k xs) \<le> length xs"
  by (simp add: AList.delete_eq)

end
