(* ===== verification/Tlv.thy ===== *)
theory Tlv
  imports Protocol Assoc
begin

text \<open>
  The type-length-value format of the pairing messages (\<open>decode_tlv\<close>, \<open>encode_tlv\<close> and \<open>field\<close> of
  \<open>native/carplay/src/protocol/pairing.rs\<close>). The map of the fields is the list of its entries in
  the order they were first seen; keys never repeat.
\<close>

type_synonym tlv = "(u8 \<times> u8 list) list"

text \<open>\<open>fields.entry(kind).or_default().extend_from_slice(value)\<close>\<close>

definition tlv_extend :: "u8 \<Rightarrow> u8 list \<Rightarrow> tlv \<Rightarrow> tlv" where
  "tlv_extend kind v fs =
     AList.update kind ((case map_of fs kind of None \<Rightarrow> [] | Some w \<Rightarrow> w) @ v) fs"

function tlv_loop :: "(u8 \<times> nat) option \<Rightarrow> tlv \<Rightarrow> u8 list \<Rightarrow> proto_error + tlv" where
  "tlv_loop previous fs [] = Inr fs"
| "tlv_loop previous fs [_] = Inl Malformed"
| "tlv_loop previous fs (kind # n # bs) =
     (let len = unat n in
      if length bs < len then Inl Malformed
      else if kind \<in> fst ` set fs \<and> previous \<noteq> Some (kind, 255) then Inl Malformed
      else
        let fs = tlv_extend kind (take len bs) fs in
        if length fs > 16 then Inl Bounds
        else tlv_loop (Some (kind, len)) fs (drop len bs))"
  by pat_completeness auto
termination
  by (relation "measure (\<lambda>(previous, fs, bs). length bs)") auto

definition decode_tlv :: "u8 list \<Rightarrow> proto_error + tlv" where
  "decode_tlv bytes = (if length bytes > 8192 then Inl Bounds else tlv_loop None [] bytes)"

definition tlv_parts :: "u8 \<Rightarrow> u8 list \<Rightarrow> u8 list" where
  "tlv_parts kind bytes =
     (if bytes = [] then [kind, 0]
      else concat (map (\<lambda>part. kind # of_nat (length part) # part) (chunks 255 bytes)))"

fun encode_loop :: "u8 set \<Rightarrow> tlv \<Rightarrow> proto_error + u8 list" where
  "encode_loop seen [] = Inr []"
| "encode_loop seen ((kind, bytes) # fs) =
     (if kind \<in> seen then Inl Malformed
      else bindr (encode_loop (insert kind seen) fs) (\<lambda>out. Inr (tlv_parts kind bytes @ out)))"

definition encode_tlv :: "tlv \<Rightarrow> proto_error + u8 list" where
  "encode_tlv fs =
     bindr (encode_loop {} fs) (\<lambda>out. if length out > 8192 then Inl Bounds else Inr out)"

definition tlv_field :: "tlv \<Rightarrow> u8 \<Rightarrow> proto_error + u8 list" where
  "tlv_field fs kind = ok_or Malformed (map_of fs kind)"

section \<open>Round trip\<close>

lemma tlv_extend_fresh: "k \<notin> fst ` set fs \<Longrightarrow> tlv_extend k v fs = fs @ [(k, v)]"
  using map_of_eq_None_iff [of fs k] by (simp add: tlv_extend_def update_fresh)

lemma tlv_extend_last: "k \<notin> fst ` set fs \<Longrightarrow> tlv_extend k v (fs @ [(k, w)]) = fs @ [(k, w @ v)]"
proof -
  assume k: "k \<notin> fst ` set fs"
  then have "map_of (fs @ [(k, w)]) k = Some w" 
    using map_of_eq_None_iff [of fs k] by (simp add: map_add_def)
  with k show ?thesis by (simp add: tlv_extend_def update_last)
qed

definition tlv_chunks :: "u8 \<Rightarrow> u8 list \<Rightarrow> u8 list" where
  "tlv_chunks kind v = concat (map (\<lambda>part. kind # of_nat (length part) # part) (chunks 255 v))"

lemma tlv_chunks_step:
  "v \<noteq> [] \<Longrightarrow> tlv_chunks k v = k # of_nat (length (take 255 v)) # take 255 v @ tlv_chunks k (drop 255 v)"
  by (simp add: tlv_chunks_def chunks_Cons del: length_take)

lemma tlv_loop_part:
  assumes "length p \<le> 255" and "k \<in> fst ` set fs \<Longrightarrow> previous = Some (k, 255)"
    and "length (tlv_extend k p fs) \<le> 16"
  shows "tlv_loop previous fs (k # of_nat (length p) # p @ r)
    = tlv_loop (Some (k, length p)) (tlv_extend k p fs) r"
proof -
  have "unat (of_nat (length p) :: u8) = length p" by (rule unat_of_nat_u8) (use assms(1) in simp)
  with assms show ?thesis by (auto simp: Let_def)
qed

lemma tlv_chunks_cases:
  assumes "v \<noteq> []"
  obtains (last) "length v \<le> 255" "tlv_chunks k v = k # of_nat (length v) # v"
  | (more) p q where "v = p @ q" "length p = 255" "q \<noteq> []" "tlv_chunks k v = k # of_nat (length p) # p @ tlv_chunks k q"
proof (cases "length v \<le> 255")
  case True
  with tlv_chunks_step [OF assms, of k] show thesis by (intro last) (simp_all add: tlv_chunks_def)
next
  case False
  with tlv_chunks_step [OF assms, of k] show thesis
    by (intro more [of "take 255 v" "drop 255 v"]) (simp_all del: of_nat_numeral)
qed

lemma tlv_loop_continue:
  assumes "v \<noteq> []" and k: "k \<notin> fst ` set fs" and n: "length fs < 16"
  shows "\<exists>m. tlv_loop (Some (k, 255)) (fs @ [(k, acc)]) (tlv_chunks k v @ r)
           = tlv_loop (Some (k, m)) (fs @ [(k, acc @ v)]) r"
  using assms(1)
proof (induction "length v" arbitrary: v acc rule: less_induct)
  case less
  from less.prems show ?case
  proof (cases rule: tlv_chunks_cases [where k = k])
    case last
    with n k show ?thesis
      using tlv_loop_part [of v k "fs @ [(k, acc)]" "Some (k, 255)" r] by (auto simp: tlv_extend_last)
  next
    case (more p q)
    then have "length q < length v" by simp
    from less.hyps [OF this more(3), of "acc @ p"] more n k show ?thesis
      using tlv_loop_part [of p k "fs @ [(k, acc)]" "Some (k, 255)" "tlv_chunks k q @ r"]
      by (simp add: tlv_extend_last)
  qed
qed

lemma tlv_loop_field:
  assumes k: "k \<notin> fst ` set fs" and n: "length fs < 16"
  shows "\<exists>m. tlv_loop previous fs (tlv_parts k v @ r) = tlv_loop (Some (k, m)) (fs @ [(k, v)]) r"
proof (cases "v = []")
  case True
  with k n show ?thesis using tlv_loop_part [of "[]" k fs previous r] by (auto simp: tlv_parts_def tlv_extend_fresh)
next
  case False
  then have parts: "tlv_parts k v = tlv_chunks k v" by (simp add: tlv_parts_def tlv_chunks_def)
  from False show ?thesis
  proof (cases rule: tlv_chunks_cases [where k = k])
    case last
    with k n show ?thesis
      using tlv_loop_part [of v k fs previous r] by (auto simp: parts tlv_extend_fresh)
  next
    case (more p q)
    with k n tlv_loop_continue [OF more(3) k n, of p r] show ?thesis
      using tlv_loop_part [of p k fs previous "tlv_chunks k q @ r"] parts by (simp add: tlv_extend_fresh)
  qed
qed

lemma tlv_loop_encoded:
  "encode_loop (fst ` set fs) gs = Inr out \<Longrightarrow> length fs + length gs \<le> 16 \<Longrightarrow>
   tlv_loop previous fs out = Inr (fs @ gs)"
proof (induction gs arbitrary: fs out previous)
  case (Cons g gs)
  obtain k v where g: "g = (k, v)" by (cases g)
  from Cons.prems(1) obtain out' where k: "k \<notin> fst ` set fs" and o: "encode_loop (insert k (fst ` set fs)) gs = Inr out'"
    and out: "out = tlv_parts k v @ out'"
    by (auto simp: g split: if_splits)
  from tlv_loop_field [OF k, of previous v out'] Cons.prems(2) obtain m where
    "tlv_loop previous fs out = tlv_loop (Some (k, m)) (fs @ [(k, v)]) out'" by (auto simp: out)
  with Cons.IH [of "fs @ [(k, v)]" out' "Some (k, m)"] o Cons.prems(2) show ?case by (simp add: g)
qed simp

lemma encode_tlv_distinct: "encode_loop seen fs = Inr out \<Longrightarrow> distinct (map fst fs) \<and> seen \<inter> fst ` set fs = {}"
proof (induction fs arbitrary: seen out)
  case (Cons f fs)
  obtain k v where f: "f = (k, v)" by (cases f)
  with Cons.prems obtain out' where "k \<notin> seen" "encode_loop (insert k seen) fs = Inr out'"
    by (auto split: if_splits)
  with Cons.IH [of "insert k seen" out'] show ?case by (auto simp: f)
qed simp

lemma decode_encode_tlv:
  "encode_tlv fs = Inr bs \<Longrightarrow> length fs \<le> 16 \<Longrightarrow> decode_tlv bs = Inr fs"
  using tlv_loop_encoded [of "[]" fs] by (auto simp: encode_tlv_def decode_tlv_def split: if_splits)

text \<open>Small fields always fit.\<close>

definition tlv_bound :: "tlv \<Rightarrow> nat" where
  "tlv_bound fs = sum_list (map (\<lambda>(k, v). 3 * length v + 2) fs)"

lemma tlv_parts_length: "length (tlv_parts k v) \<le> 3 * length v + 2"
proof -
  have l: "(\<forall>p \<in> set ps. p \<noteq> []) \<Longrightarrow>
      length (concat (map (\<lambda>part. k # of_nat (length part) # part) ps)) \<le> 3 * length (concat ps)" for ps
    by (induction ps) (auto simp: neq_Nil_conv)
  have "\<forall>p \<in> set (chunks 255 v). p \<noteq> []" using chunks_size by blast
  then have "length (concat (map (\<lambda>part. k # of_nat (length part) # part) (chunks 255 v))) \<le> 3 * length v"
    using l [of "chunks 255 v"] concat_chunks [of 255 v] by simp
  then show ?thesis by (simp add: tlv_parts_def)
qed

lemma encode_loop_ok:
  "distinct (map fst fs) \<Longrightarrow> seen \<inter> fst ` set fs = {} \<Longrightarrow>
   \<exists>out. encode_loop seen fs = Inr out \<and> length out \<le> tlv_bound fs"
proof (induction fs arbitrary: seen)
  case (Cons f fs)
  obtain k v where f: "f = (k, v)" by (cases f)
  with Cons.prems have "insert k seen \<inter> fst ` set fs = {}" by auto
  with Cons obtain out where "encode_loop (insert k seen) fs = Inr out" "length out \<le> tlv_bound fs"
    by (metis distinct.simps(2) list.simps(9))
  with Cons.prems tlv_parts_length [of k v] show ?case by (auto simp: f tlv_bound_def)
qed (simp add: tlv_bound_def)

lemma encode_tlv_ok:
  assumes "distinct (map fst fs)" and "tlv_bound fs \<le> 8192" and "length fs \<le> 16"
  shows "\<exists>bs. encode_tlv fs = Inr bs \<and> decode_tlv bs = Inr fs \<and> length bs \<le> tlv_bound fs"
proof -
  from encode_loop_ok [OF assms(1), of "{}"] obtain out where o: "encode_loop {} fs = Inr out" "length out \<le> tlv_bound fs"
    by auto
  then have "encode_tlv fs = Inr out" using assms(2) by (simp add: encode_tlv_def)
  with decode_encode_tlv [OF this assms(3)] o show ?thesis by blast
qed

section \<open>Properties\<close>

text \<open>Pairing messages survive the wire: every list of at most 16 fields the encoder accepts is
  decoded back to exactly those fields, values longer than 255 bytes included, which the format
  splits into fragments.\<close>

theorem tlv_round_trip:
  assumes "encode_tlv fs = Inr bs" and "length fs \<le> 16"
  shows "decode_tlv bs = Inr fs \<and> distinct (map fst fs) \<and> length bs \<le> 8192"
  using decode_encode_tlv [OF assms] assms encode_tlv_distinct
  by (auto simp: encode_tlv_def split: if_splits)

definition wit_tlv :: tlv where
  "wit_tlv = [(6, [1]), (3, [23, 23]), (7, [])]"

theorem tlv_round_trip_witness: "\<exists>bs. encode_tlv wit_tlv = Inr bs \<and> decode_tlv bs = Inr wit_tlv"
proof -
  obtain bs where bs: "encode_tlv wit_tlv = Inr bs"
    by (simp add: encode_tlv_def wit_tlv_def tlv_parts_def chunks_Cons)
  from tlv_round_trip [OF bs] bs show ?thesis by (simp add: wit_tlv_def)
qed

end
