(* ===== verification/Pairing.thy ===== *)
theory Pairing
  imports Srp Tlv Link
begin

text \<open>
  Pairing with the phone (\<open>native/carplay/src/protocol/pairing.rs\<close>): the signing identity, the
  bounded store of paired phones, the three-message set-up, the verification that opens the
  encrypted control connection, and the MFi exchange \<open>auth_setup\<close>. Random values (the SRP salt
  and exponent, the ephemeral X25519 key) are arguments of the step that draws them.
\<close>

section \<open>Identity and paired phones\<close>

record identity =
  id_identifier :: "u8 list"
  id_key :: "u8 list"

text \<open>\<open>char::is_control\<close> on UTF-8: U+0000 to U+001F, U+007F and the pairs of U+0080 to U+009F.\<close>

fun has_control :: "u8 list \<Rightarrow> bool" where
  "has_control [] = False"
| "has_control [b] = (b < 0x20 \<or> b = 0x7f)"
| "has_control (b # c # bs) =
     (b < 0x20 \<or> b = 0x7f \<or> b = 0xc2 \<and> 0x80 \<le> c \<and> c \<le> 0x9f \<or> has_control (c # bs))"

definition identity_generate :: "u8 list \<Rightarrow> u8 list \<Rightarrow> proto_error + identity" where
  "identity_generate identifier key =
     (if identifier = [] \<or> length identifier > 128 \<or> has_control identifier then Inl Bounds
      else Inr \<lparr>id_identifier = identifier, id_key = key\<rparr>)"

definition identity_public :: "crypto \<Rightarrow> identity \<Rightarrow> proto_error + u8 list" where
  "identity_public cy i = from_openssl (cy_ed25519_public cy (id_key i))"

text \<open>The ordered map of the source, by identifier.\<close>

type_synonym peers = "(u8 list \<times> u8 list) list"

definition peers_register :: "u8 list \<Rightarrow> u8 list \<Rightarrow> peers \<Rightarrow> proto_error + peers" where
  "peers_register identifier key ps =
     (if identifier = [] \<or> length identifier > 128 \<or> length key \<noteq> 32 then Inl Bounds
      else if length ps \<ge> 16 \<and> map_of ps identifier = None then Inl Bounds
      else Inr (AList.update identifier key ps))"

fun peers_load_loop :: "peers \<Rightarrow> (u8 list \<times> u8 list) list \<Rightarrow> proto_error + peers" where
  "peers_load_loop ps [] = Inr ps"
| "peers_load_loop ps ((identifier, key) # es) =
     (if map_of ps identifier \<noteq> None then Inl Malformed
      else bindr (peers_register identifier key ps) (\<lambda>ps. peers_load_loop ps es))"

definition peers_load :: "(u8 list \<times> u8 list) list \<Rightarrow> proto_error + peers" where
  "peers_load entries = (if length entries > 16 then Inl Bounds else peers_load_loop [] entries)"

section \<open>Set-up\<close>

record pair_setup =
  ps_srp :: "srp option"
  ps_key :: "u8 list option"
  ps_step :: u8

definition setup_new :: pair_setup where
  "setup_new = \<lparr>ps_srp = None, ps_key = None, ps_step = 0\<rparr>"

text \<open>What the phone signs in the third message, and the check of that signature.\<close>

definition controller_proof :: "crypto \<Rightarrow> u8 list \<Rightarrow> tlv \<Rightarrow> proto_error + (u8 list \<times> u8 list)" where
  "controller_proof cy secret controller =
     bindr (tlv_field controller 1) (\<lambda>identifier.
     bindr (tlv_field controller 3) (\<lambda>public.
     bindr (derive_key cy secret ''Pair-Setup-Controller-Sign-Salt'' ''Pair-Setup-Controller-Sign-Info'') (\<lambda>proof_key.
     bindr (tlv_field controller 10) (\<lambda>signature.
     bindr (ed_verify cy public (proof_key @ identifier @ public) signature) (\<lambda>_.
       Inr (identifier, public))))))"

definition accessory_reply :: "crypto \<Rightarrow> identity \<Rightarrow> u8 list \<Rightarrow> u8 list \<Rightarrow> proto_error + u8 list" where
  "accessory_reply cy ident secret key =
     bindr (identity_public cy ident) (\<lambda>own_key.
     bindr (derive_key cy secret ''Pair-Setup-Accessory-Sign-Salt'' ''Pair-Setup-Accessory-Sign-Info'') (\<lambda>proof_key.
     bindr (ed_sign cy (id_key ident) (proof_key @ id_identifier ident @ own_key)) (\<lambda>signature.
     bindr (encode_tlv [(1, id_identifier ident), (3, own_key), (10, signature)]) (\<lambda>reply.
     bindr (seal cy key (label_nonce ''PS-Msg06'') [] reply) (\<lambda>sealed.
       encode_tlv [(6, [6]), (5, sealed)])))))"

definition setup_exchange ::
  "crypto \<Rightarrow> identity \<Rightarrow> u8 list \<Rightarrow> tlv \<Rightarrow> proto_error + (u8 list \<times> u8 list \<times> u8 list)" where
  "setup_exchange cy ident secret fs =
     bindr (derive_key cy secret ''Pair-Setup-Encrypt-Salt'' ''Pair-Setup-Encrypt-Info'') (\<lambda>key.
     bindr (tlv_field fs 5) (\<lambda>sealed.
     bindr (open_sealed cy key (label_nonce ''PS-Msg05'') [] sealed) (\<lambda>plain.
     bindr (decode_tlv plain) (\<lambda>controller.
     bindr (controller_proof cy secret controller) (\<lambda>(identifier, public).
     bindr (accessory_reply cy ident secret key) (\<lambda>response.
       Inr (identifier, public, response)))))))"

text \<open>One message: the random salt and exponent, and the bytes received.\<close>

type_synonym setup_input = "u8 list \<times> u8 list \<times> u8 list"

definition setup_advance ::
  "crypto \<Rightarrow> identity \<Rightarrow> pair_setup \<times> peers \<Rightarrow> setup_input \<Rightarrow> (pair_setup \<times> peers) \<times> (proto_error + u8 list)" where
  "setup_advance cy ident sp input = (case (sp, input) of ((s, ps), (salt, private, bytes)) \<Rightarrow>
     (case bindr (decode_tlv bytes) (\<lambda>fs. bindr (tlv_field fs 6) (\<lambda>method. Inr (fs, method))) of
        Inl e \<Rightarrow> ((s, ps), Inl e)
      | Inr (fs, method) \<Rightarrow>
          if ps_step s = 0 \<and> method = [1] then
            (case bindr (tlv_field fs 0) (\<lambda>kind.
                  if kind \<noteq> [0] then Inl Unsupported
                  else bindr (srp_new cy salt private) (\<lambda>srp.
                    bindr (encode_tlv [(6, [2]), (2, sr_salt srp), (3, sr_public srp)]) (\<lambda>response.
                      Inr (srp, response)))) of
               Inl e \<Rightarrow> ((s, ps), Inl e)
             | Inr (srp, response) \<Rightarrow> ((s\<lparr>ps_srp := Some srp, ps_step := 2\<rparr>, ps), Inr response))
          else if ps_step s = 2 \<and> method = [3] then
            (let s' = s\<lparr>ps_srp := None\<rparr> in
             case bindr (ok_or State (ps_srp s)) (\<lambda>srp.
                  bindr (tlv_field fs 3) (\<lambda>public.
                  bindr (tlv_field fs 4) (\<lambda>proof_bytes. srp_verify cy srp public proof_bytes))) of
               Inl e \<Rightarrow> ((s', ps), Inl e)
             | Inr (key, reply) \<Rightarrow>
                 ((s'\<lparr>ps_key := Some key, ps_step := 4\<rparr>, ps), encode_tlv [(6, [4]), (4, reply)]))
          else if ps_step s = 4 \<and> method = [5] then
            (let s' = s\<lparr>ps_key := None\<rparr> in
             case bindr (ok_or State (ps_key s)) (\<lambda>secret. setup_exchange cy ident secret fs) of
               Inl e \<Rightarrow> ((s', ps), Inl e)
             | Inr (identifier, public, response) \<Rightarrow>
                 (case peers_register identifier public ps of
                    Inl e \<Rightarrow> ((s', ps), Inl e)
                  | Inr ps' \<Rightarrow> ((s'\<lparr>ps_step := 6\<rparr>, ps'), Inr response)))
          else ((s, ps), Inl State)))"

definition setup_handle ::
  "crypto \<Rightarrow> identity \<Rightarrow> pair_setup \<times> peers \<Rightarrow> setup_input \<Rightarrow> (pair_setup \<times> peers) \<times> (proto_error + u8 list)" where
  "setup_handle cy ident sp input =
     (case setup_advance cy ident sp input of
        ((s, ps), Inl e) \<Rightarrow> ((s\<lparr>ps_srp := None, ps_key := None, ps_step := 255\<rparr>, ps), Inl e)
      | (sp', Inr response) \<Rightarrow> (sp', Inr response))"

section \<open>Verification\<close>

record pending_verify =
  pv_ours :: "u8 list"
  pv_theirs :: "u8 list"
  pv_secret :: "u8 list"
  pv_key :: "u8 list"

record pair_verify =
  pv_pending :: "pending_verify option"
  pv_used :: bool

definition verify_new :: pair_verify where
  "verify_new = \<lparr>pv_pending = None, pv_used = False\<rparr>"

record verified =
  vf_secret :: "u8 list"
  vf_read :: "u8 list"
  vf_write :: "u8 list"

definition verify_exchange ::
  "crypto \<Rightarrow> identity \<Rightarrow> u8 list \<Rightarrow> u8 list \<Rightarrow> proto_error + (pending_verify \<times> u8 list)" where
  "verify_exchange cy ident ephemeral bytes =
     bindr (decode_tlv bytes) (\<lambda>fs.
     bindr (tlv_field fs 6) (\<lambda>method.
     if method \<noteq> [1] then Inl State else
     bindr (tlv_field fs 3) (\<lambda>theirs.
     let ours = cy_x25519_public cy ephemeral in
     bindr (shared cy ephemeral theirs) (\<lambda>secret.
     bindr (derive_key cy secret ''Pair-Verify-Encrypt-Salt'' ''Pair-Verify-Encrypt-Info'') (\<lambda>key.
     bindr (ed_sign cy (id_key ident) (ours @ id_identifier ident @ theirs)) (\<lambda>signature.
     bindr (encode_tlv [(1, id_identifier ident), (10, signature)]) (\<lambda>reply.
     bindr (seal cy key (label_nonce ''PV-Msg02'') [] reply) (\<lambda>sealed.
     bindr (encode_tlv [(6, [2]), (3, ours), (5, sealed)]) (\<lambda>response.
       Inr (\<lparr>pv_ours = ours, pv_theirs = theirs, pv_secret = secret, pv_key = key\<rparr>, response))))))))))"

definition verify_start ::
  "crypto \<Rightarrow> identity \<Rightarrow> u8 list \<Rightarrow> u8 list \<Rightarrow> pair_verify \<Rightarrow> pair_verify \<times> (proto_error + u8 list)" where
  "verify_start cy ident ephemeral bytes v =
     (if pv_used v then (v, Inl State)
      else
        let v = v\<lparr>pv_used := True\<rparr> in
        case verify_exchange cy ident ephemeral bytes of
          Inl e \<Rightarrow> (v, Inl e)
        | Inr (pending, response) \<Rightarrow> (v\<lparr>pv_pending := Some pending\<rparr>, Inr response))"

definition verify_check ::
  "crypto \<Rightarrow> peers \<Rightarrow> pending_verify \<Rightarrow> u8 list \<Rightarrow> proto_error + (u8 list \<times> verified)" where
  "verify_check cy ps p bytes =
     bindr (decode_tlv bytes) (\<lambda>fs.
     bindr (tlv_field fs 6) (\<lambda>method.
     if method \<noteq> [3] then Inl State else
     bindr (tlv_field fs 5) (\<lambda>sealed.
     bindr (open_sealed cy (pv_key p) (label_nonce ''PV-Msg03'') [] sealed) (\<lambda>plain.
     bindr (decode_tlv plain) (\<lambda>controller.
     bindr (tlv_field controller 1) (\<lambda>identifier.
     bindr (ok_or Rejected (map_of ps identifier)) (\<lambda>public.
     bindr (tlv_field controller 10) (\<lambda>signature.
     bindr (ed_verify cy public (pv_theirs p @ identifier @ pv_ours p) signature) (\<lambda>_.
     bindr (derive_key cy (pv_secret p) ''Control-Salt'' ''Control-Write-Encryption-Key'') (\<lambda>read.
     bindr (derive_key cy (pv_secret p) ''Control-Salt'' ''Control-Read-Encryption-Key'') (\<lambda>write.
     bindr (encode_tlv [(6, [4])]) (\<lambda>reply.
       Inr (reply, \<lparr>vf_secret = pv_secret p, vf_read = read, vf_write = write\<rparr>)))))))))))))"

definition verify_finish ::
  "crypto \<Rightarrow> peers \<Rightarrow> u8 list \<Rightarrow> pair_verify \<Rightarrow> pair_verify \<times> (proto_error + (u8 list \<times> verified))" where
  "verify_finish cy ps bytes v =
     (v\<lparr>pv_pending := None\<rparr>,
      bindr (ok_or State (pv_pending v)) (\<lambda>pending. verify_check cy ps pending bytes))"

section \<open>The MFi exchange\<close>

definition mfi_digest :: "crypto \<Rightarrow> u8 \<Rightarrow> u8 list \<Rightarrow> proto_error + u8 list" where
  "mfi_digest cy major m =
     (if major = 2 then from_openssl (cy_sha1 cy m)
      else if major = 3 then from_openssl (cy_sha256 cy m)
      else Inl Unsupported)"

definition setup_response :: "crypto \<Rightarrow> u8 list \<Rightarrow> u8 list \<Rightarrow> u8 list \<Rightarrow> u8 list \<Rightarrow> proto_error + u8 list" where
  "setup_response cy public secret certificate signature =
     bindr (from_openssl (cy_sha1 cy (str ''AES-KEY'' @ secret))) (\<lambda>key.
     bindr (from_openssl (cy_sha1 cy (str ''AES-IV'' @ secret))) (\<lambda>iv.
     bindr (from_openssl (cy_aes_ctr cy (take 16 key) (take 16 iv) signature)) (\<lambda>sealed.
       Inr (public @ to_be32 (of_nat (length certificate)) @ certificate
         @ to_be32 (of_nat (length sealed)) @ sealed))))"

text \<open>Every error of the coprocessor link is \<open>Rejected\<close>.\<close>

definition link_reply :: "link_client \<times> (link_error + 'a) \<Rightarrow> link_client \<times> (proto_error + 'a)" where
  "link_reply = (\<lambda>(k, r). (k, map_sum (\<lambda>_. Rejected) id r))"

definition auth_setup ::
  "crypto \<Rightarrow> u8 list \<Rightarrow> link_env \<Rightarrow> link_env \<Rightarrow> link_env \<Rightarrow> u8 list \<Rightarrow> link_client
    \<Rightarrow> link_client \<times> (proto_error + u8 list)" where
  "auth_setup cy ephemeral env1 env2 env3 bytes k =
     (if length bytes \<noteq> 33 \<or> bytes ! 0 \<noteq> 1 then (k, Inl Malformed)
      else
        let public = cy_x25519_public cy ephemeral in
        bindS (liftS id (shared cy ephemeral (drop 1 bytes))) (\<lambda>secret.
        bindS (\<lambda>k. link_reply (authentication_certificate k env1)) (\<lambda>certificate.
        bindS (\<lambda>k. link_reply (protocol_major k env2)) (\<lambda>major.
        bindS (liftS id (mfi_digest cy major (public @ drop 1 bytes))) (\<lambda>challenge.
        bindS (\<lambda>k. link_reply (link_sign k env3 challenge)) (\<lambda>signature.
          liftS id (setup_response cy public secret certificate signature)))))) k)"

section \<open>Set-up, message by message\<close>

definition setup_closed :: "peers \<Rightarrow> pair_setup \<times> peers \<Rightarrow> bool" where
  "setup_closed ps0 = (\<lambda>(s, ps). ps_step s \<notin> {0, 2, 4} \<and> ps = ps0)"

lemma setup_closed_step:
  assumes "ps_step s \<notin> {0, 2, 4}"
  shows "\<exists>e. setup_handle cy ident (s, ps) input
    = ((s\<lparr>ps_srp := None, ps_key := None, ps_step := 255\<rparr>, ps), Inl e)"
  using assms by (auto simp: setup_handle_def setup_advance_def split: prod.splits sum.splits if_splits)

interpretation setup_machine: absorbing_machine "setup_handle cy ident" "\<lambda>_. True" "setup_closed ps0"
proof
  fix s i
  assume "setup_closed ps0 s"
  then obtain t where t: "s = (t, ps0)" "ps_step t \<notin> {0, 2, 4}" by (auto simp: setup_closed_def)
  from setup_closed_step [OF t(2), of cy ident ps0 i] show "setup_closed ps0 (fst (setup_handle cy ident s i))"
    by (auto simp: t(1) setup_closed_def)
qed simp

lemma setup_error_closes:
  "setup_handle cy ident (s, ps) input = ((s', ps'), Inl e) \<Longrightarrow>
     s' = \<lparr>ps_srp = None, ps_key = None, ps_step = 255\<rparr> \<and> ps' = ps"
  by (auto simp: setup_handle_def setup_advance_def Let_def split: prod.splits sum.splits if_splits)

lemma setup_step_0:
  assumes "setup_handle cy ident (s, ps) (salt, expo, bytes) = ((s', ps'), Inr r)" "ps_step s = 0"
  shows "ps' = ps \<and> ps_step s' = 2 \<and> (\<exists>srp. srp_new cy salt expo = Inr srp \<and> ps_srp s' = Some srp)"
  using assms by (auto simp: setup_handle_def setup_advance_def Let_def split: prod.splits sum.splits if_splits)

lemma setup_step_2:
  assumes "setup_handle cy ident (s, ps) (salt, expo, bytes) = ((s', ps'), Inr r)" "ps_step s = 2"
  shows "ps' = ps \<and> ps_step s' = 4 \<and> (\<exists>srp fs public proof_bytes key reply. ps_srp s = Some srp
    \<and> decode_tlv bytes = Inr fs \<and> tlv_field fs 3 = Inr public \<and> tlv_field fs 4 = Inr proof_bytes
    \<and> srp_verify cy srp public proof_bytes = Inr (key, reply) \<and> ps_key s' = Some key)"
  using assms by (auto simp: setup_handle_def setup_advance_def Let_def split: prod.splits sum.splits if_splits)

lemma setup_step_4:
  assumes "setup_handle cy ident (s, ps) (salt, expo, bytes) = ((s', ps'), Inr r)" "ps_step s = 4"
  shows "ps_step s' = 6 \<and> (\<exists>secret fs identifier public. ps_key s = Some secret
    \<and> decode_tlv bytes = Inr fs \<and> setup_exchange cy ident secret fs = Inr (identifier, public, r)
    \<and> peers_register identifier public ps = Inr ps')"
  using assms by (auto simp: setup_handle_def setup_advance_def Let_def split: prod.splits sum.splits if_splits)

lemma setup_exchange_signed:
  assumes "setup_exchange cy ident secret fs = Inr (identifier, public, r)"
  shows "\<exists>proof_key signature.
    derive_key cy secret ''Pair-Setup-Controller-Sign-Salt'' ''Pair-Setup-Controller-Sign-Info'' = Inr proof_key
    \<and> ed_verify cy public (proof_key @ identifier @ public) signature = Inr ()"
  using assms by (auto simp: setup_exchange_def controller_proof_def)

lemma setup_closed_rest:
  assumes "ps_step s \<notin> {0, 2, 4}" and "run_machine (setup_handle cy ident) (s, ps) msgs = ((s', ps'), outs)"
  shows "ps' = ps"
  using setup_machine.dead_run [of ps "(s, ps)" cy ident msgs] assms by (simp add: setup_closed_def)

text \<open>One message of a run, from a state that is still open.\<close>

lemma setup_run_cases:
  assumes "run_machine (setup_handle cy ident) (s, ps) msgs = ((s', ps'), outs)" and "ps' \<noteq> ps"
  obtains salt expo bytes rest t qs r outs' where "msgs = (salt, expo, bytes) # rest"
    and "setup_handle cy ident (s, ps) (salt, expo, bytes) = ((t, qs), Inr r)"
    and "run_machine (setup_handle cy ident) (t, qs) rest = ((s', ps'), outs')"
proof -
  from assms obtain m rest where m: "msgs = m # rest" by (cases msgs) auto
  obtain salt expo bytes where i: "m = (salt, expo, bytes)" by (cases m)
  obtain t qs r where h: "setup_handle cy ident (s, ps) m = ((t, qs), r)" by (metis surj_pair)
  with assms(1) obtain outs' where run: "run_machine (setup_handle cy ident) (t, qs) rest = ((s', ps'), outs')"
    by (auto simp: m split: prod.splits)
  show thesis
  proof (cases r)
    case (Inl e)
    from setup_error_closes [OF h [unfolded Inl]] have "ps_step t \<notin> {0, 2, 4}" "qs = ps" by auto
    with setup_closed_rest [OF _ run] assms(2) show thesis by simp
  next
    case (Inr x)
    from that [OF m [unfolded i] h [unfolded i Inr] run] show thesis .
  qed
qed

section \<open>An honest phone completes the set-up\<close>

text \<open>What OpenSSL documents of the primitives: keys and nonces of the right length are accepted, hashes
  have their length, and a signature made with a key verifies under its public key.\<close>

definition crypto_sound :: "crypto \<Rightarrow> bool" where
  "crypto_sound cy \<longleftrightarrow> aead_correct cy \<and> sha512_length cy \<and> (\<forall>m. cy_sha512 cy m \<noteq> None)
     \<and> (\<forall>k m. \<exists>d. cy_hmac_sha512 cy k m = Some d \<and> length d = 64)
     \<and> (\<forall>k n a p. length k = 32 \<longrightarrow> length n = 12 \<longrightarrow> cy_encrypt cy k n a p \<noteq> None)
     \<and> (\<forall>k. length k = 32 \<longrightarrow> (\<exists>pk. cy_ed25519_public cy k = Some pk \<and> length pk = 32 \<and>
          (\<forall>m. \<exists>sg. cy_ed25519_sign cy k m = Some sg \<and> length sg = 64 \<and> cy_ed25519_verify cy pk m sg = Some True)))"

lemma sound_derive: "crypto_sound cy \<Longrightarrow> \<exists>k. derive_key cy secret salt info = Inr k \<and> length k = 32"
proof -
  assume s: "crypto_sound cy"
  then have h: "\<exists>d. hmac cy k m = Inr d \<and> length d = 64" for k m
    by (simp add: crypto_sound_def hmac_def from_openssl_def)
  obtain d where d: "hmac cy (str salt) secret = Inr d" using h by blast
  obtain e where "hmac cy d (str info @ [1]) = Inr e" "length e = 64" using h by blast
  with d show ?thesis by (simp add: derive_key_def)
qed

lemma sound_seal:
  assumes "crypto_sound cy" and "length k = 32" and "length n = 12"
  shows "\<exists>s. seal cy k n a p = Inr s \<and> length s = length p + 16 \<and> open_sealed cy k n a s = Inr p"
proof -
  from assms obtain c t where "cy_encrypt cy k n a p = Some (c, t)"
    by (fastforce simp: crypto_sound_def)
  then have s: "seal cy k n a p = Inr (c @ t)" by (simp add: seal_def from_openssl_def)
  with open_seal [OF _ s] assms(1) show ?thesis by (simp add: crypto_sound_def)
qed

lemma sound_sign:
  assumes "crypto_sound cy" and "length k = 32"
  obtains pk where "from_openssl (cy_ed25519_public cy k) = Inr pk" and "length pk = 32"
    and "\<And>m. \<exists>sg. ed_sign cy k m = Inr sg \<and> length sg = 64 \<and> ed_verify cy pk m sg = Inr ()"
proof -
  from assms obtain pk where pk: "cy_ed25519_public cy k = Some pk" "length pk = 32"
    and s: "\<forall>m. \<exists>sg. cy_ed25519_sign cy k m = Some sg \<and> length sg = 64 \<and> cy_ed25519_verify cy pk m sg = Some True"
    unfolding crypto_sound_def by blast
  have "\<exists>sg. ed_sign cy k m = Inr sg \<and> length sg = 64 \<and> ed_verify cy pk m sg = Inr ()" for m
  proof -
    from s obtain sg where "cy_ed25519_sign cy k m = Some sg" "length sg = 64" "cy_ed25519_verify cy pk m sg = Some True"
      by blast
    with pk(2) show ?thesis by (simp add: ed_sign_def ed_verify_def from_openssl_def)
  qed
  with pk that show thesis by (simp add: from_openssl_def)
qed

lemma label_nonce_length: "length (label_nonce ''PS-Msg05'') = 12" "length (label_nonce ''PS-Msg06'') = 12"
  "length (label_nonce ''PV-Msg02'') = 12" "length (label_nonce ''PV-Msg03'') = 12"
  by (simp_all add: label_nonce_def str_def)

lemma accessory_reply_ok:
  assumes s: "crypto_sound cy" and i: "length (id_key ident) = 32" "length (id_identifier ident) \<le> 128"
    and k: "length key = 32"
  shows "\<exists>r. accessory_reply cy ident secret key = Inr r"
proof -
  obtain pk where pk: "from_openssl (cy_ed25519_public cy (id_key ident)) = Inr pk" "length pk = 32"
    and sg: "\<And>m. \<exists>sg. ed_sign cy (id_key ident) m = Inr sg \<and> length sg = 64 \<and> ed_verify cy pk m sg = Inr ()"
    using sound_sign [OF s i(1)] by blast
  obtain d where d: "derive_key cy secret ''Pair-Setup-Accessory-Sign-Salt'' ''Pair-Setup-Accessory-Sign-Info'' = Inr d"
    using sound_derive [OF s] by blast
  obtain g where g: "ed_sign cy (id_key ident) (d @ id_identifier ident @ pk) = Inr g" "length g = 64" using sg by blast
  obtain m where m: "encode_tlv [(1, id_identifier ident), (3, pk), (10, g)] = Inr m" "length m \<le> 1000"
    using encode_tlv_ok [of "[(1, id_identifier ident), (3, pk), (10, g)]"] i pk g by (auto simp: tlv_bound_def)
  obtain c where c: "seal cy key (label_nonce ''PS-Msg06'') [] m = Inr c" "length c = length m + 16"
    using sound_seal [OF s k label_nonce_length(2)] by blast
  obtain r where "encode_tlv [(6, [6]), (5, c)] = Inr r"
    using encode_tlv_ok [of "[(6, [6]), (5, c)]"] m c by (auto simp: tlv_bound_def)
  then show ?thesis by (simp add: accessory_reply_def identity_public_def pk d g m c)
qed

text \<open>The phone's third message, under the session key of the SRP exchange.\<close>

definition phone_exchange :: "crypto \<Rightarrow> identity \<Rightarrow> u8 list \<Rightarrow> proto_error + u8 list" where
  "phone_exchange cy phone secret =
     bindr (derive_key cy secret ''Pair-Setup-Encrypt-Salt'' ''Pair-Setup-Encrypt-Info'') (\<lambda>key.
     bindr (identity_public cy phone) (\<lambda>pk.
     bindr (derive_key cy secret ''Pair-Setup-Controller-Sign-Salt'' ''Pair-Setup-Controller-Sign-Info'') (\<lambda>proof_key.
     bindr (ed_sign cy (id_key phone) (proof_key @ id_identifier phone @ pk)) (\<lambda>sg.
     bindr (encode_tlv [(1, id_identifier phone), (3, pk), (10, sg)]) (\<lambda>plain.
     bindr (seal cy key (label_nonce ''PS-Msg05'') [] plain) (\<lambda>sealed.
       encode_tlv [(6, [5]), (5, sealed)]))))))"

lemma setup_exchange_honest:
  assumes s: "crypto_sound cy" and i: "length (id_key ident) = 32" "length (id_identifier ident) \<le> 128"
    and p: "length (id_key phone) = 32" "identity_public cy phone = Inr pk"
    and m: "phone_exchange cy phone secret = Inr b"
  shows "\<exists>sealed r. decode_tlv b = Inr [(6, [5]), (5, sealed)] \<and> length pk = 32
    \<and> setup_exchange cy ident secret [(6, [5]), (5, sealed)] = Inr (id_identifier phone, pk, r)"
proof -
  obtain key where key: "derive_key cy secret ''Pair-Setup-Encrypt-Salt'' ''Pair-Setup-Encrypt-Info'' = Inr key" "length key = 32"
    using sound_derive [OF s] by blast
  obtain r where r: "accessory_reply cy ident secret key = Inr r" using accessory_reply_ok [OF s i key(2)] by blast
  obtain pk' where pk: "from_openssl (cy_ed25519_public cy (id_key phone)) = Inr pk'" "length pk' = 32"
    and sg: "\<And>m. \<exists>sg. ed_sign cy (id_key phone) m = Inr sg \<and> length sg = 64 \<and> ed_verify cy pk' m sg = Inr ()"
    using sound_sign [OF s p(1)] by blast
  have pk': "pk' = pk" using p(2) pk(1) by (simp add: identity_public_def)
  from m key p obtain d g plain c where
    d: "derive_key cy secret ''Pair-Setup-Controller-Sign-Salt'' ''Pair-Setup-Controller-Sign-Info'' = Inr d"
    and g: "ed_sign cy (id_key phone) (d @ id_identifier phone @ pk) = Inr g"
    and e: "encode_tlv [(1, id_identifier phone), (3, pk), (10, g)] = Inr plain"
    and c: "seal cy key (label_nonce ''PS-Msg05'') [] plain = Inr c" "encode_tlv [(6, [5]), (5, c)] = Inr b"
    by (auto simp: phone_exchange_def)
  have o: "open_sealed cy key (label_nonce ''PS-Msg05'') [] c = Inr plain"
    using sound_seal [OF s key(2) label_nonce_length(1)] c(1) by (metis sum.inject(2))
  have v: "ed_verify cy pk (d @ id_identifier phone @ pk) g = Inr ()"
    using sg [of "d @ id_identifier phone @ pk"] g pk' by auto
  have "controller_proof cy secret [(1, id_identifier phone), (3, pk), (10, g)] = Inr (id_identifier phone, pk)"
    by (simp add: controller_proof_def tlv_field_def d v)
  then have "setup_exchange cy ident secret [(6, [5]), (5, c)] = Inr (id_identifier phone, pk, r)"
    using decode_encode_tlv [OF e] by (simp add: setup_exchange_def key tlv_field_def o r)
  with decode_encode_tlv [OF c(2)] pk(2) pk' show ?thesis by auto
qed

lemma setup_first_ok:
  assumes "srp_new cy salt expo = Inr srp" and "length salt = 16" and "encode_tlv [(6, [1]), (0, [0])] = Inr b1"
  shows "\<exists>r. setup_handle cy ident (setup_new, ps) (salt, expo, b1)
      = (((setup_new\<lparr>ps_srp := Some srp, ps_step := 2\<rparr>), ps), Inr r)
    \<and> decode_tlv r = Inr [(6, [2]), (2, salt), (3, sr_public srp)]"
proof -
  have l: "length (sr_public srp) = 384" and s: "sr_salt srp = salt"
    using assms(1) by (auto simp: srp_new_def Let_def dest!: be_nat_padded)
  from encode_tlv_ok [of "[(6, [2]), (2, salt), (3, sr_public srp)]"] obtain r where
    r: "encode_tlv [(6, [2]), (2, salt), (3, sr_public srp)] = Inr r" "decode_tlv r = Inr [(6, [2]), (2, salt), (3, sr_public srp)]"
    using l assms(2) by (auto simp: tlv_bound_def)
  have d: "decode_tlv b1 = Inr [(6, [1]), (0, [0])]" by (rule decode_encode_tlv [OF assms(3)]) simp
  show ?thesis
    by (simp add: setup_handle_def setup_advance_def d tlv_field_def assms(1) s r) (simp add: setup_new_def)
qed

lemma setup_second_ok:
  assumes "srp_verify cy srp public m1 = Inr (key, m2)" and "length m2 = 64"
    and "encode_tlv [(6, [3]), (3, public), (4, m1)] = Inr b2"
    and "ps_srp s = Some srp" and "ps_step s = 2"
  shows "\<exists>r. setup_handle cy ident (s, ps) (x, y, b2)
      = ((s\<lparr>ps_srp := None, ps_key := Some key, ps_step := 4\<rparr>, ps), Inr r)
    \<and> decode_tlv r = Inr [(6, [4]), (4, m2)]"
proof -
  from encode_tlv_ok [of "[(6, [4]), (4, m2)]"] obtain r where
    r: "encode_tlv [(6, [4]), (4, m2)] = Inr r" "decode_tlv r = Inr [(6, [4]), (4, m2)]"
    using assms(2) by (auto simp: tlv_bound_def)
  have d: "decode_tlv b2 = Inr [(6, [3]), (3, public), (4, m1)]" by (rule decode_encode_tlv [OF assms(3)]) simp
  show ?thesis
    by (simp add: setup_handle_def setup_advance_def d tlv_field_def assms r)
qed

lemma setup_third_ok:
  assumes "setup_exchange cy ident key [(6, [5]), (5, sealed)] = Inr (name, pk, r)"
    and "decode_tlv b3 = Inr [(6, [5]), (5, sealed)]" and "peers_register name pk ps = Inr ps'"
    and "ps_key s = Some key" and "ps_step s = 4"
  shows "setup_handle cy ident (s, ps) (x, y, b3) = ((s\<lparr>ps_key := None, ps_step := 6\<rparr>, ps'), Inr r)"
  by (simp add: setup_handle_def setup_advance_def assms tlv_field_def)

lemma srp_phone_reply: "sha512_length cy \<Longrightarrow> srp_phone cy salt b a = Inr (public, key, m1, m2) \<Longrightarrow> length m2 = 64"
  by (auto simp: srp_phone_def Let_def split: if_splits dest: digest_length)

lemma setup_honest_run:
  assumes s: "crypto_sound cy" and salt: "length salt = 16"
    and srp: "srp_new cy salt expo = Inr srp"
    and phone: "srp_phone cy salt (sr_public srp) a = Inr (public, key, m1, m2)"
    and i: "length (id_key ident) = 32" "length (id_identifier ident) \<le> 128"
    and p: "length (id_key phone) = 32" "identity_public cy phone = Inr pk"
      "id_identifier phone \<noteq> []" "length (id_identifier phone) \<le> 128"
    and b: "encode_tlv [(6, [1]), (0, [0])] = Inr b1" "encode_tlv [(6, [3]), (3, public), (4, m1)] = Inr b2"
      "phone_exchange cy phone key = Inr b3"
    and ps: "length ps < 16"
  shows "\<exists>s r1 r2 r3. run_machine (setup_handle cy ident) (setup_new, ps)
      [(salt, expo, b1), (x2, y2, b2), (x3, y3, b3)]
      = ((s, AList.update (id_identifier phone) pk ps), [Inr r1, Inr r2, Inr r3])
    \<and> decode_tlv r1 = Inr [(6, [2]), (2, salt), (3, sr_public srp)] \<and> decode_tlv r2 = Inr [(6, [4]), (4, m2)]"
proof -
  have h: "sha512_length cy" using s by (simp add: crypto_sound_def)
  have salt': "sr_salt srp = salt" using srp by (auto simp: srp_new_def Let_def)
  have v: "srp_verify cy srp public m1 = Inr (key, m2)"
    by (rule srp_agrees [OF h srp, of a]) (simp add: salt' phone)
  note m2 = srp_phone_reply [OF h phone]
  obtain r1 where 1: "setup_handle cy ident (setup_new, ps) (salt, expo, b1)
      = (((setup_new\<lparr>ps_srp := Some srp, ps_step := 2\<rparr>), ps), Inr r1)"
    "decode_tlv r1 = Inr [(6, [2]), (2, salt), (3, sr_public srp)]"
    using setup_first_ok [OF srp salt b(1)] by blast
  let ?s1 = "setup_new\<lparr>ps_srp := Some srp, ps_step := 2\<rparr>"
  let ?s2 = "?s1\<lparr>ps_srp := None, ps_key := Some key, ps_step := 4\<rparr>"
  obtain r2 where 2: "setup_handle cy ident (?s1, ps) (x2, y2, b2) = ((?s2, ps), Inr r2)"
    "decode_tlv r2 = Inr [(6, [4]), (4, m2)]"
    using setup_second_ok [OF v m2 b(2), where s = ?s1 and ident = ident and ps = ps and x = x2 and y = y2] by auto
  obtain sealed r3 where e: "decode_tlv b3 = Inr [(6, [5]), (5, sealed)]" "length pk = 32"
    "setup_exchange cy ident key [(6, [5]), (5, sealed)] = Inr (id_identifier phone, pk, r3)"
    using setup_exchange_honest [OF s i p(1,2) b(3)] by blast
  have reg: "peers_register (id_identifier phone) pk ps = Inr (AList.update (id_identifier phone) pk ps)"
    using p e(2) ps by (simp add: peers_register_def)
  have 3: "setup_handle cy ident (?s2, ps) (x3, y3, b3)
      = ((?s2\<lparr>ps_key := None, ps_step := 6\<rparr>, AList.update (id_identifier phone) pk ps), Inr r3)"
    by (rule setup_third_ok [OF e(3,1) reg]) simp_all
  show ?thesis
    using 1 2 3 by simp
qed

section \<open>Properties of set-up\<close>

text \<open>C5. A phone is only ever added to the store by a complete set-up: the first three messages of the
  session were accepted in order, the SRP proof in the second was checked against the verifier of the
  first, and the third carried a signature under the registered key over the session's proof key, the
  identifier and that key. Nothing else is changed in the store, and later messages change nothing.\<close>

theorem pair_setup_registration:
  assumes "run_machine (setup_handle cy ident) (setup_new, ps) msgs = ((s, ps'), outs)" and "ps' \<noteq> ps"
  shows "\<exists>salt expo b1 x2 y2 b2 x3 y3 b3 rest srp fs public proof_bytes secret reply identifier pk proof_key signature.
    msgs = (salt, expo, b1) # (x2, y2, b2) # (x3, y3, b3) # rest
    \<and> srp_new cy salt expo = Inr srp
    \<and> decode_tlv (b2) = Inr fs \<and> tlv_field fs 3 = Inr public \<and> tlv_field fs 4 = Inr proof_bytes
    \<and> srp_verify cy srp public proof_bytes = Inr (secret, reply)
    \<and> derive_key cy secret ''Pair-Setup-Controller-Sign-Salt'' ''Pair-Setup-Controller-Sign-Info'' = Inr proof_key
    \<and> ed_verify cy pk (proof_key @ identifier @ pk) signature = Inr ()
    \<and> ps' = AList.update identifier pk ps"
proof -
  obtain salt expo b1 rest1 s1 p1 r1 o1 where 1: "msgs = (salt, expo, b1) # rest1"
    "setup_handle cy ident (setup_new, ps) (salt, expo, b1) = ((s1, p1), Inr r1)"
    "run_machine (setup_handle cy ident) (s1, p1) rest1 = ((s, ps'), o1)"
    by (rule setup_run_cases [OF assms])
  from setup_step_0 [OF 1(2)] obtain srp where a: "p1 = ps" "ps_step s1 = 2" "srp_new cy salt expo = Inr srp"
    "ps_srp s1 = Some srp" by (auto simp: setup_new_def)
  note run1 = 1(3) [unfolded a(1)]
  obtain x2 y2 b2 rest2 s2 p2 r2 o2 where 2: "rest1 = (x2, y2, b2) # rest2"
    "setup_handle cy ident (s1, ps) (x2, y2, b2) = ((s2, p2), Inr r2)"
    "run_machine (setup_handle cy ident) (s2, p2) rest2 = ((s, ps'), o2)"
    by (rule setup_run_cases [OF run1 assms(2)])
  from setup_step_2 [OF 2(2) a(2)] a(4) obtain fs public proof_bytes secret reply where
    b: "p2 = ps" "ps_step s2 = 4" "decode_tlv b2 = Inr fs" "tlv_field fs 3 = Inr public"
      "tlv_field fs 4 = Inr proof_bytes" "srp_verify cy srp public proof_bytes = Inr (secret, reply)"
      "ps_key s2 = Some secret" by auto
  note run2 = 2(3) [unfolded b(1)]
  obtain x3 y3 b3 rest3 s3 p3 r3 o3 where 3: "rest2 = (x3, y3, b3) # rest3"
    "setup_handle cy ident (s2, ps) (x3, y3, b3) = ((s3, p3), Inr r3)"
    "run_machine (setup_handle cy ident) (s3, p3) rest3 = ((s, ps'), o3)"
    by (rule setup_run_cases [OF run2 assms(2)])
  from setup_step_4 [OF 3(2) b(2)] b(7) obtain fs3 name pk where
    c: "ps_step s3 = 6" "setup_exchange cy ident secret fs3 = Inr (name, pk, r3)"
      "peers_register name pk ps = Inr p3" by auto
  have "ps' = p3" by (rule setup_closed_rest [OF _ 3(3)]) (simp add: c(1))
  moreover have "p3 = AList.update name pk ps" using c(3) by (simp add: peers_register_def split: if_splits)
  moreover note setup_exchange_signed [OF c(2)]
  ultimately show ?thesis
    using a(3) b(3,4,5,6) unfolding 1(1) 2(1) 3(1) by blast
qed

text \<open>A toy cipher suite for the witnesses.\<close>

definition toy_suite :: crypto where
  "toy_suite = toy_crypto\<lparr>cy_hmac_sha512 := (\<lambda>_ _. Some toy_digest),
     cy_x25519 := (\<lambda>k p. Some (map (\<lambda>(x, y). x + y) (zip k p)))\<rparr>"

lemma toy_suite_sound: "crypto_sound toy_suite"
proof -
  have "aead_correct toy_suite"
    using plain_crypto_aead by (simp add: aead_correct_def toy_suite_def toy_crypto_def)
  then show ?thesis
    by (auto simp: crypto_sound_def sha512_length_def toy_suite_def toy_crypto_def plain_crypto_def toy_digest_simps)
qed

lemma toy_suite_simps: "digest toy_suite parts = Inr toy_digest" "cy_prime_3072 toy_suite = 23"
  by (simp_all add: toy_suite_def digest_def toy_crypto_def plain_crypto_def from_openssl_def)

definition toy_identity :: identity where
  "toy_identity = \<lparr>id_identifier = [65], id_key = replicate 32 7\<rparr>"

lemma toy_identity_simps: "length (id_key toy_identity) = 32" "length (id_identifier toy_identity) \<le> 128"
  "id_identifier toy_identity \<noteq> []" "identity_public toy_suite toy_identity = Inr (replicate 32 7)"
  by (simp_all add: toy_identity_def identity_public_def from_openssl_def toy_suite_def toy_crypto_def plain_crypto_def)

lemma phone_exchange_ok:
  assumes s: "crypto_sound cy" and i: "length (id_key phone) = 32" "length (id_identifier phone) \<le> 128"
  shows "\<exists>b. phone_exchange cy phone secret = Inr b"
proof -
  obtain pk where pk: "from_openssl (cy_ed25519_public cy (id_key phone)) = Inr pk" "length pk = 32"
    and sg: "\<And>m. \<exists>sg. ed_sign cy (id_key phone) m = Inr sg \<and> length sg = 64 \<and> ed_verify cy pk m sg = Inr ()"
    using sound_sign [OF s i(1)] by blast
  obtain d where d: "derive_key cy secret ''Pair-Setup-Controller-Sign-Salt'' ''Pair-Setup-Controller-Sign-Info'' = Inr d"
    using sound_derive [OF s] by blast
  obtain key where k: "derive_key cy secret ''Pair-Setup-Encrypt-Salt'' ''Pair-Setup-Encrypt-Info'' = Inr key" "length key = 32"
    using sound_derive [OF s] by blast
  obtain g where g: "ed_sign cy (id_key phone) (d @ id_identifier phone @ pk) = Inr g" "length g = 64" using sg by blast
  obtain m where m: "encode_tlv [(1, id_identifier phone), (3, pk), (10, g)] = Inr m" "length m \<le> 1000"
    using encode_tlv_ok [of "[(1, id_identifier phone), (3, pk), (10, g)]"] i pk g by (auto simp: tlv_bound_def)
  obtain c where c: "seal cy key (label_nonce ''PS-Msg05'') [] m = Inr c" "length c = length m + 16"
    using sound_seal [OF s k(2) label_nonce_length(1)] by blast
  obtain r where "encode_tlv [(6, [5]), (5, c)] = Inr r"
    using encode_tlv_ok [of "[(6, [5]), (5, c)]"] m c by (auto simp: tlv_bound_def)
  then show ?thesis by (simp add: phone_exchange_def identity_public_def pk d g m c k)
qed

text \<open>The inputs of an honest run of the toy suite.\<close>

lemma toy_run_inputs:
  obtains srp public key m1 m2 b1 b2 b3 where "srp_new toy_suite (replicate 16 1) [3] = Inr srp"
    and "srp_phone toy_suite (replicate 16 1) (sr_public srp) 1 = Inr (public, key, m1, m2)"
    and "encode_tlv [(6, [1]), (0, [0])] = Inr b1" and "encode_tlv [(6, [3]), (3, public), (4, m1)] = Inr b2"
    and "phone_exchange toy_suite toy_identity key = Inr b3"
proof -
  obtain srp where 1: "srp_new toy_suite (replicate 16 1) [3] = Inr srp"
    using toy_srp_new [OF toy_suite_simps] by blast
  obtain public key m1 m2 where 2: "srp_phone toy_suite (replicate 16 1) (sr_public srp) 1 = Inr (public, key, m1, m2)"
    "length public = 384" "length m1 = 64"
    using toy_srp_phone [OF toy_suite_simps] by blast
  obtain b1 where 3: "encode_tlv [(6, [1]), (0, [0])] = Inr b1"
    using encode_tlv_ok [of "[(6, [1]), (0, [0])]"] by (auto simp: tlv_bound_def)
  obtain b2 where 4: "encode_tlv [(6, [3]), (3, public), (4, m1)] = Inr b2"
    using encode_tlv_ok [of "[(6, [3]), (3, public), (4, m1)]"] 2 by (auto simp: tlv_bound_def)
  obtain b3 where 5: "phone_exchange toy_suite toy_identity key = Inr b3"
    using phone_exchange_ok [OF toy_suite_sound toy_identity_simps(1,2)] by blast
  from that [OF 1 2(1) 3 4 5] show thesis .
qed

theorem pair_setup_registration_witness:
  "\<exists>msgs s ps' outs. run_machine (setup_handle toy_suite toy_identity) (setup_new, []) msgs = ((s, ps'), outs)
     \<and> ps' = [(id_identifier toy_identity, replicate 32 7)] \<and> 3 \<le> length msgs"
proof -
  obtain srp public key m1 m2 b1 b2 b3 where r: "srp_new toy_suite (replicate 16 1) [3] = Inr srp"
    "srp_phone toy_suite (replicate 16 1) (sr_public srp) 1 = Inr (public, key, m1, m2)"
    "encode_tlv [(6, [1]), (0, [0])] = Inr b1" "encode_tlv [(6, [3]), (3, public), (4, m1)] = Inr b2"
    "phone_exchange toy_suite toy_identity key = Inr b3" by (rule toy_run_inputs)
  let ?msgs = "[(replicate 16 1, [3], b1), ([], [], b2), ([], [], b3)]"
  obtain s outs where run: "run_machine (setup_handle toy_suite toy_identity) (setup_new, []) ?msgs
      = ((s, [(id_identifier toy_identity, replicate 32 7)]), outs)"
    using setup_honest_run [OF toy_suite_sound _ r(1,2) toy_identity_simps(1,2,1,4,3,2) r(3,4,5), where ps = "[]"]
    by fastforce
  from pair_setup_registration [OF run] have "3 \<le> length ?msgs" by auto
  with run show ?thesis by blast
qed

text \<open>C27. Pairing completes: a phone that knows the password and answers as the protocol says is accepted
  in all three messages, can check the server's SRP answer, and ends up registered under its own
  identifier and public key, whatever OpenSSL's primitives are as long as they do what they document.\<close>

theorem pair_setup_completes:
  assumes "crypto_sound cy" and "length salt = 16" and "srp_new cy salt expo = Inr srp"
    and "srp_phone cy salt (sr_public srp) a = Inr (public, key, m1, m2)"
    and "length (id_key ident) = 32" and "length (id_identifier ident) \<le> 128"
    and "length (id_key phone) = 32" and "identity_public cy phone = Inr pk"
    and "id_identifier phone \<noteq> []" and "length (id_identifier phone) \<le> 128"
    and "encode_tlv [(6, [1]), (0, [0])] = Inr b1" and "encode_tlv [(6, [3]), (3, public), (4, m1)] = Inr b2"
    and "phone_exchange cy phone key = Inr b3" and "length ps < 16"
  shows "\<exists>s r1 r2 r3. run_machine (setup_handle cy ident) (setup_new, ps)
      [(salt, expo, b1), (x2, y2, b2), (x3, y3, b3)]
      = ((s, AList.update (id_identifier phone) pk ps), [Inr r1, Inr r2, Inr r3])
    \<and> decode_tlv r1 = Inr [(6, [2]), (2, salt), (3, sr_public srp)] \<and> decode_tlv r2 = Inr [(6, [4]), (4, m2)]"
  by (rule setup_honest_run [OF assms])

theorem pair_setup_completes_witness:
  "\<exists>msgs s r1 r2 r3. run_machine (setup_handle toy_suite toy_identity) (setup_new, []) msgs
     = ((s, [(id_identifier toy_identity, replicate 32 7)]), [Inr r1, Inr r2, Inr r3])"
proof -
  obtain srp public key m1 m2 b1 b2 b3 where r: "srp_new toy_suite (replicate 16 1) [3] = Inr srp"
    "srp_phone toy_suite (replicate 16 1) (sr_public srp) 1 = Inr (public, key, m1, m2)"
    "encode_tlv [(6, [1]), (0, [0])] = Inr b1" "encode_tlv [(6, [3]), (3, public), (4, m1)] = Inr b2"
    "phone_exchange toy_suite toy_identity key = Inr b3" by (rule toy_run_inputs)
  have l: "length (replicate 16 (1 :: u8)) = 16" "length ([] :: peers) < 16" by simp_all
  from pair_setup_completes [OF toy_suite_sound l(1) r(1,2) toy_identity_simps(1,2,1,4,3,2) r(3,4,5) l(2),
    where ?x2.0 = "[]" and ?y2.0 = "[]" and ?x3.0 = "[]" and ?y3.0 = "[]"]
  show ?thesis by (simp only: update.simps) blast
qed

end
