(* ===== verification/Pair_Verify.thy ===== *)
theory Pair_Verify
  imports Pairing
begin

text \<open>
  Properties of the verification that opens the encrypted control connection (\<open>PairVerify\<close>) and of
  the MFi answer (\<open>auth_setup\<close>): who can pass it, that it is passed at most once per connection,
  that an honest phone passes it and holds the same keys, and what the coprocessor is asked to sign.
\<close>

section \<open>Authentication\<close>

datatype verify_event = VStart "u8 list" "u8 list" | VFinish "u8 list"

datatype verify_out = VAnswer "proto_error + u8 list" | VOutcome "proto_error + (u8 list \<times> verified)"

fun verify_step ::
  "crypto \<Rightarrow> identity \<Rightarrow> peers \<Rightarrow> pair_verify \<Rightarrow> verify_event \<Rightarrow> pair_verify \<times> verify_out" where
  "verify_step cy ident ps v (VStart e b) = (case verify_start cy ident e b v of (v', r) \<Rightarrow> (v', VAnswer r))"
| "verify_step cy ident ps v (VFinish b) = (case verify_finish cy ps b v of (v', r) \<Rightarrow> (v', VOutcome r))"

definition verify_spent :: "pair_verify \<Rightarrow> bool" where
  "verify_spent v \<longleftrightarrow> pv_used v \<and> pv_pending v = None"

definition verify_inv :: "pair_verify \<Rightarrow> bool" where
  "verify_inv v \<longleftrightarrow> (pv_pending v \<noteq> None \<longrightarrow> pv_used v)"

lemma verify_step_simps:
  "pv_used v \<Longrightarrow> verify_start cy ident e b v = (v, Inl State)"
  "pv_pending v = None \<Longrightarrow> verify_finish cy ps b v = (v, Inl State)"
  by (simp_all add: verify_start_def verify_finish_def)

interpretation verify_machine: absorbing_machine "verify_step cy ident ps" verify_inv verify_spent
proof
  show "verify_inv (fst (verify_step cy ident ps v i))" if "verify_inv v" for v i
    using that by (cases i) (auto simp: verify_inv_def verify_start_def verify_finish_def Let_def split: sum.splits)
  show "verify_spent (fst (verify_step cy ident ps v i))" if "verify_spent v" for v i
    using that by (cases i) (auto simp: verify_spent_def verify_step_simps)
qed

lemma verify_spent_out: "verify_spent v \<Longrightarrow> snd (verify_step cy ident ps v i) \<noteq> VOutcome (Inr x)"
  by (cases i) (auto simp: verify_spent_def verify_step_simps)

lemma verify_pending_origin:
  "pv_pending (fst (run_machine (verify_step cy ident ps) verify_new evs)) = Some p \<Longrightarrow>
   \<exists>j < length evs. \<exists>e b r. evs ! j = VStart e b \<and> verify_exchange cy ident e b = Inr (p, r)"
proof (induction evs rule: rev_induct)
  case Nil
  then show ?case by (simp add: verify_new_def)
next
  case (snoc ev evs)
  let ?v = "fst (run_machine (verify_step cy ident ps) verify_new evs)"
  have step: "pv_pending (fst (verify_step cy ident ps ?v ev)) = Some p"
    using snoc.prems by (simp add: run_machine_append run_machine_Cons del: run_machine.simps(2))
  have old: ?case if "pv_pending ?v = Some p"
    using snoc.IH [OF that] by (metis butlast_snoc length_append_singleton less_SucI nth_butlast)
  show ?case
  proof (cases ev)
    case (VFinish b)
    with step show ?thesis by (simp add: verify_finish_def)
  next
    case (VStart e b)
    with step consider "pv_pending ?v = Some p" | r where "verify_exchange cy ident e b = Inr (p, r)"
      by (auto simp: verify_start_def Let_def split: if_splits sum.splits)
    then show ?thesis
    proof cases
      case 2
      then show ?thesis using VStart by (metis length_append_singleton lessI nth_append_length)
    qed (rule old)
  qed
qed

lemma verify_exchange_parts:
  "verify_exchange cy ident e b = Inr (p, r) \<Longrightarrow>
     pv_ours p = cy_x25519_public cy e \<and> shared cy e (pv_theirs p) = Inr (pv_secret p)
     \<and> derive_key cy (pv_secret p) ''Pair-Verify-Encrypt-Salt'' ''Pair-Verify-Encrypt-Info'' = Inr (pv_key p)"
  by (auto simp: verify_exchange_def Let_def split: if_splits)

lemma verify_check_parts:
  "verify_check cy ps p b = Inr (reply, vf) \<Longrightarrow>
     vf_secret vf = pv_secret p
     \<and> (\<exists>name pk signature. map_of ps name = Some pk
          \<and> ed_verify cy pk (pv_theirs p @ name @ pv_ours p) signature = Inr ())
     \<and> derive_key cy (vf_secret vf) ''Control-Salt'' ''Control-Write-Encryption-Key'' = Inr (vf_read vf)
     \<and> derive_key cy (vf_secret vf) ''Control-Salt'' ''Control-Read-Encryption-Key'' = Inr (vf_write vf)"
  by (auto simp: verify_check_def split: if_splits)

lemma verify_outcome_step:
  assumes "snd (verify_step cy ident ps v ev) = VOutcome (Inr (reply, vf))"
  obtains b p where "ev = VFinish b" and "pv_pending v = Some p" and "verify_check cy ps p b = Inr (reply, vf)"
    and "pv_pending (fst (verify_step cy ident ps v ev)) = None" and "pv_used (fst (verify_step cy ident ps v ev)) = pv_used v"
  using assms by (cases ev) (auto simp: verify_finish_def verify_start_def Let_def split: if_splits sum.splits)

lemma verify_spent_later:
  assumes "snd (run_machine (verify_step cy ident ps) verify_new evs) ! i = VOutcome (Inr x)"
    and "i < k" and "k < length evs"
  shows "snd (run_machine (verify_step cy ident ps) verify_new evs) ! k \<noteq> VOutcome (Inr y)"
proof -
  let ?m = "verify_step cy ident ps"
  let ?v = "fst (run_machine ?m verify_new (take i evs))"
  have i: "i < length evs" using assms by simp
  obtain reply vf where x: "x = (reply, vf)" by (cases x)
  have o: "snd (?m ?v (evs ! i)) = VOutcome (Inr (reply, vf))"
    using assms(1) by (simp add: run_machine_nth [OF i] x)
  have inv: "verify_inv ?v" by (rule verify_machine.inv_run) (simp add: verify_inv_def verify_new_def)
  have "verify_spent (fst (?m ?v (evs ! i)))"
    by (rule verify_outcome_step [OF o]) (use inv in \<open>auto simp: verify_spent_def verify_inv_def\<close>)
  then have s: "verify_spent (fst (run_machine ?m verify_new (take (Suc i) evs)))"
    by (simp add: run_machine_take_Suc [OF i])
  have "verify_spent (fst (run_machine ?m verify_new (take k evs)))"
    unfolding run_machine_take [OF Suc_leI [OF assms(2)]]
    by (rule verify_machine.dead_run [OF _ s], rule verify_machine.inv_run) (simp add: verify_inv_def verify_new_def)
  then show ?thesis
    by (simp add: run_machine_nth [OF assms(3)] verify_spent_out)
qed

section \<open>An honest phone\<close>

text \<open>X25519 is commutative and its public keys have 32 bytes.\<close>

definition dh_sound :: "crypto \<Rightarrow> bool" where
  "dh_sound cy \<longleftrightarrow> (\<forall>a b. cy_x25519 cy a (cy_x25519_public cy b) = cy_x25519 cy b (cy_x25519_public cy a))
     \<and> (\<forall>a. length (cy_x25519_public cy a) = 32)"

text \<open>The phone's half: it checks the host's signature, derives the same key and signs in turn.\<close>

definition phone_verify ::
  "crypto \<Rightarrow> identity \<Rightarrow> u8 list \<Rightarrow> u8 list \<Rightarrow> u8 list \<Rightarrow> proto_error + (u8 list \<times> u8 list)" where
  "phone_verify cy phone ephemeral host_key bytes =
     (let mine = cy_x25519_public cy ephemeral in
      bindr (decode_tlv bytes) (\<lambda>fs.
      bindr (tlv_field fs 3) (\<lambda>host.
      bindr (tlv_field fs 5) (\<lambda>sealed.
      bindr (shared cy ephemeral host) (\<lambda>secret.
      bindr (derive_key cy secret ''Pair-Verify-Encrypt-Salt'' ''Pair-Verify-Encrypt-Info'') (\<lambda>key.
      bindr (open_sealed cy key (label_nonce ''PV-Msg02'') [] sealed) (\<lambda>plain.
      bindr (decode_tlv plain) (\<lambda>reply.
      bindr (tlv_field reply 1) (\<lambda>name.
      bindr (tlv_field reply 10) (\<lambda>signature.
      bindr (ed_verify cy host_key (host @ name @ mine) signature) (\<lambda>_.
      bindr (ed_sign cy (id_key phone) (mine @ id_identifier phone @ host)) (\<lambda>own.
      bindr (encode_tlv [(1, id_identifier phone), (10, own)]) (\<lambda>plain.
      bindr (seal cy key (label_nonce ''PV-Msg03'') [] plain) (\<lambda>sealed.
      bindr (encode_tlv [(6, [3]), (5, sealed)]) (\<lambda>message.
        Inr (message, secret))))))))))))))))"

lemma signed_block_ok:
  assumes s: "crypto_sound cy" and k: "length key = 32" and n: "length nonce = 12"
    and i: "length name \<le> 128" and g: "length g = 64"
  shows "\<exists>plain sealed. encode_tlv [(1, name), (10, g)] = Inr plain \<and> decode_tlv plain = Inr [(1, name), (10, g)]
    \<and> seal cy key nonce [] plain = Inr sealed \<and> open_sealed cy key nonce [] sealed = Inr plain \<and> length sealed \<le> 1000"
proof -
  obtain m where m: "encode_tlv [(1, name), (10, g)] = Inr m" "decode_tlv m = Inr [(1, name), (10, g)]" "length m \<le> 900"
    using encode_tlv_ok [of "[(1, name), (10, g)]"] i g by (auto simp: tlv_bound_def)
  with sound_seal [OF s k n, of "[]" m] show ?thesis by auto
qed

lemma identity_signs:
  assumes s: "crypto_sound cy" and i: "length (id_key ident) = 32" "identity_public cy ident = Inr pk"
  shows "\<exists>sg. ed_sign cy (id_key ident) m = Inr sg \<and> length sg = 64 \<and> ed_verify cy pk m sg = Inr ()"
proof -
  obtain pk' where "from_openssl (cy_ed25519_public cy (id_key ident)) = Inr pk'"
    and sg: "\<And>m. \<exists>sg. ed_sign cy (id_key ident) m = Inr sg \<and> length sg = 64 \<and> ed_verify cy pk' m sg = Inr ()"
    using sound_sign [OF s i(1)] by blast
  then have "pk' = pk" using i(2) by (simp add: identity_public_def)
  with sg show ?thesis by simp
qed

lemma verify_honest_run:
  assumes s: "crypto_sound cy" and dh: "dh_sound cy"
    and i: "length (id_key ident) = 32" "length (id_identifier ident) \<le> 128" "identity_public cy ident = Inr host_key"
    and p: "length (id_key phone) = 32" "length (id_identifier phone) \<le> 128" "identity_public cy phone = Inr pk"
    and reg: "map_of ps (id_identifier phone) = Some pk"
    and sh: "shared cy e (cy_x25519_public cy pe) = Inr secret"
    and m1: "encode_tlv [(6, [1]), (3, cy_x25519_public cy pe)] = Inr b1"
  shows "\<exists>v r1 b2 r2 vf. verify_start cy ident e b1 verify_new = (v, Inr r1)
    \<and> phone_verify cy phone pe host_key r1 = Inr (b2, secret)
    \<and> verify_finish cy ps b2 v = (v\<lparr>pv_pending := None\<rparr>, Inr (r2, vf)) \<and> vf_secret vf = secret"
proof -
  let ?ours = "cy_x25519_public cy e" and ?theirs = "cy_x25519_public cy pe"
  have l: "length ?ours = 32" "length ?theirs = 32" using dh by (simp_all add: dh_sound_def)
  have sh': "shared cy pe ?ours = Inr secret"
    using sh dh l by (auto simp: shared_def dh_sound_def)
  obtain key where key: "derive_key cy secret ''Pair-Verify-Encrypt-Salt'' ''Pair-Verify-Encrypt-Info'' = Inr key" "length key = 32"
    using sound_derive [OF s] by blast
  obtain g where g: "ed_sign cy (id_key ident) (?ours @ id_identifier ident @ ?theirs) = Inr g" "length g = 64"
    "ed_verify cy host_key (?ours @ id_identifier ident @ ?theirs) g = Inr ()"
    using identity_signs [OF s i(1,3)] by blast
  obtain h where h: "ed_sign cy (id_key phone) (?theirs @ id_identifier phone @ ?ours) = Inr h" "length h = 64"
    "ed_verify cy pk (?theirs @ id_identifier phone @ ?ours) h = Inr ()"
    using identity_signs [OF s p(1,3)] by blast
  obtain m c where m: "encode_tlv [(1, id_identifier ident), (10, g)] = Inr m"
    "decode_tlv m = Inr [(1, id_identifier ident), (10, g)]"
    "seal cy key (label_nonce ''PV-Msg02'') [] m = Inr c" "open_sealed cy key (label_nonce ''PV-Msg02'') [] c = Inr m"
    "length c \<le> 1000"
    using signed_block_ok [OF s key(2) label_nonce_length(3) i(2) g(2)] by blast
  obtain n d where n: "encode_tlv [(1, id_identifier phone), (10, h)] = Inr n"
    "decode_tlv n = Inr [(1, id_identifier phone), (10, h)]"
    "seal cy key (label_nonce ''PV-Msg03'') [] n = Inr d" "open_sealed cy key (label_nonce ''PV-Msg03'') [] d = Inr n"
    "length d \<le> 1000"
    using signed_block_ok [OF s key(2) label_nonce_length(4) p(2) h(2)] by blast
  obtain r1 where r1: "encode_tlv [(6, [2]), (3, ?ours), (5, c)] = Inr r1" "decode_tlv r1 = Inr [(6, [2]), (3, ?ours), (5, c)]"
    using encode_tlv_ok [of "[(6, [2]), (3, ?ours), (5, c)]"] l m(5) by (auto simp: tlv_bound_def)
  obtain b2 where b2: "encode_tlv [(6, [3]), (5, d)] = Inr b2" "decode_tlv b2 = Inr [(6, [3]), (5, d)]"
    using encode_tlv_ok [of "[(6, [3]), (5, d)]"] n(5) by (auto simp: tlv_bound_def)
  obtain r2 where r2: "encode_tlv [(6, [4])] = Inr r2"
    using encode_tlv_ok [of "[(6, [4])]"] by (auto simp: tlv_bound_def)
  obtain rk wk where k: "derive_key cy secret ''Control-Salt'' ''Control-Write-Encryption-Key'' = Inr rk"
    "derive_key cy secret ''Control-Salt'' ''Control-Read-Encryption-Key'' = Inr wk"
    using sound_derive [OF s] by metis
  have d1: "decode_tlv b1 = Inr [(6, [1]), (3, ?theirs)]" by (rule decode_encode_tlv [OF m1]) simp
  let ?p = "\<lparr>pv_ours = ?ours, pv_theirs = ?theirs, pv_secret = secret, pv_key = key\<rparr>"
  have "verify_exchange cy ident e b1 = Inr (?p, r1)"
    by (simp add: verify_exchange_def d1 tlv_field_def sh key g m r1)
  then have start: "verify_start cy ident e b1 verify_new = (\<lparr>pv_pending = Some ?p, pv_used = True\<rparr>, Inr r1)"
    by (simp add: verify_start_def verify_new_def)
  have phone: "phone_verify cy phone pe host_key r1 = Inr (b2, secret)"
    by (simp add: phone_verify_def r1 tlv_field_def sh' key m g h n b2)
  have "verify_check cy ps ?p b2 = Inr (r2, \<lparr>vf_secret = secret, vf_read = rk, vf_write = wk\<rparr>)"
    by (simp add: verify_check_def b2 tlv_field_def n reg h k r2)
  then have "verify_finish cy ps b2 \<lparr>pv_pending = Some ?p, pv_used = True\<rparr>
      = (\<lparr>pv_pending = None, pv_used = True\<rparr>, Inr (r2, \<lparr>vf_secret = secret, vf_read = rk, vf_write = wk\<rparr>))"
    by (simp add: verify_finish_def)
  with start phone show ?thesis by fastforce
qed

section \<open>The store of paired phones\<close>

definition peers_ok :: "peers \<Rightarrow> bool" where
  "peers_ok ps \<longleftrightarrow> distinct (map fst ps) \<and> length ps \<le> 16
     \<and> (\<forall>(name, key) \<in> set ps. name \<noteq> [] \<and> length name \<le> 128 \<and> length key = 32)"

lemma peers_register_ok:
  assumes ok: "peers_ok ps" and r: "peers_register name key ps = Inr ps'"
  shows "peers_ok ps'"
proof -
  from r have k: "name \<noteq> []" "length name \<le> 128" "length key = 32" "length ps < 16 \<or> map_of ps name \<noteq> None"
    and ps': "ps' = AList.update name key ps"
    by (auto simp: peers_register_def split: if_splits)
  have "set ps' \<subseteq> insert (name, key) (set ps)"
    unfolding ps' by (induction ps) auto
  moreover have "length ps' \<le> 16"
    using length_update_le [of name key ps] k(4) ok by (auto simp: ps' peers_ok_def split: if_splits)
  moreover have "distinct (map fst ps')" using ok by (simp add: ps' peers_ok_def distinct_update)
  ultimately show ?thesis using ok k unfolding peers_ok_def by blast
qed

lemma peers_load_loop_ok: "peers_ok ps \<Longrightarrow> peers_load_loop ps es = Inr ps' \<Longrightarrow> peers_ok ps'"
  by (induction ps es rule: peers_load_loop.induct) (auto split: if_splits dest: peers_register_ok)

lemma peers_load_loop_append: "peers_ok (ps @ es) \<Longrightarrow> peers_load_loop ps es = Inr (ps @ es)"
proof (induction es arbitrary: ps)
  case (Cons e es)
  obtain name key where e: "e = (name, key)" by (cases e)
  from Cons.prems have fresh: "name \<notin> fst ` set ps" and k: "name \<noteq> []" "length name \<le> 128" "length key = 32"
    and l: "length ps < 16" by (auto simp: peers_ok_def e)
  then have "peers_register name key ps = Inr (ps @ [e])"
    by (simp add: peers_register_def update_fresh e)
  with Cons.IH [of "ps @ [e]"] Cons.prems fresh show ?case
    by (simp add: e map_of_eq_None_iff)
qed simp

lemma setup_step_peers_ok:
  assumes "peers_ok ps" and "setup_handle cy ident (s, ps) input = ((s', ps'), r)"
  shows "peers_ok ps'"
  using assms by (auto simp: setup_handle_def setup_advance_def Let_def peers_register_ok
      split: prod.splits sum.splits if_splits)

interpretation peers_machine: safe_machine "setup_handle cy ident" "\<lambda>(s :: pair_setup, ps). peers_ok ps"
proof
  fix sp :: "pair_setup \<times> peers" and i
  assume "case sp of (s, ps) \<Rightarrow> peers_ok ps"
  then show "case fst (setup_handle cy ident sp i) of (s, ps) \<Rightarrow> peers_ok ps"
    by (cases sp, cases "setup_handle cy ident sp i") (auto dest: setup_step_peers_ok)
qed

lemma peers_ok_perm:
  assumes "peers_ok ps" and "distinct qs" and "set qs = set ps"
  shows "peers_ok qs"
proof -
  from assms(1) have d: "distinct ps" and f: "inj_on fst (set ps)"
    by (simp_all add: peers_ok_def distinct_map)
  have "length qs = length ps" using d assms(2,3) by (metis distinct_card)
  then show ?thesis using assms f by (simp add: peers_ok_def distinct_map)
qed

section \<open>Properties\<close>

text \<open>C6. Only a paired phone gets a control connection, and only once per attempt: a successful \<open>finish\<close>
  is preceded by the accepted \<open>start\<close> whose ephemeral key it used, the phone signed both ephemeral keys
  and its identifier with the key registered for it, the secret and both directions' keys come from that
  exchange, and no later call on the same \<open>PairVerify\<close> succeeds again.\<close>

theorem pair_verify_authentic:
  assumes "snd (run_machine (verify_step cy ident ps) verify_new evs) ! i = VOutcome (Inr (reply, vf))"
    and "i < length evs"
  shows "\<exists>j e b1 b2 theirs name pk signature. j < i \<and> evs ! j = VStart e b1 \<and> evs ! i = VFinish b2
    \<and> shared cy e theirs = Inr (vf_secret vf)
    \<and> map_of ps name = Some pk
    \<and> ed_verify cy pk (theirs @ name @ cy_x25519_public cy e) signature = Inr ()
    \<and> derive_key cy (vf_secret vf) ''Control-Salt'' ''Control-Write-Encryption-Key'' = Inr (vf_read vf)
    \<and> derive_key cy (vf_secret vf) ''Control-Salt'' ''Control-Read-Encryption-Key'' = Inr (vf_write vf)
    \<and> (\<forall>k y. i < k \<and> k < length evs \<longrightarrow>
         snd (run_machine (verify_step cy ident ps) verify_new evs) ! k \<noteq> VOutcome (Inr y))"
proof -
  let ?v = "fst (run_machine (verify_step cy ident ps) verify_new (take i evs))"
  have o: "snd (verify_step cy ident ps ?v (evs ! i)) = VOutcome (Inr (reply, vf))"
    using assms by (simp add: run_machine_nth)
  obtain b2 p where f: "evs ! i = VFinish b2" "pv_pending ?v = Some p" "verify_check cy ps p b2 = Inr (reply, vf)"
    by (rule verify_outcome_step [OF o])
  obtain j e b1 r where j: "j < i" "evs ! j = VStart e b1" "verify_exchange cy ident e b1 = Inr (p, r)"
    using verify_pending_origin [OF f(2)] assms(2) by auto
  note x = verify_exchange_parts [OF j(3)]
  note c = verify_check_parts [OF f(3)]
  note later = verify_spent_later [OF assms(1)]
  from x c j(1,2) f(1) later show ?thesis by metis
qed

text \<open>C29. A paired phone that follows the protocol is admitted: the host's answer passes the phone's own
  check of the host's signature, the phone's answer passes \<open>finish\<close>, and both sides hold the same secret,
  from which the keys of both directions are derived.\<close>

theorem pair_verify_completes:
  assumes "crypto_sound cy" and "dh_sound cy"
    and "length (id_key ident) = 32" and "length (id_identifier ident) \<le> 128" and "identity_public cy ident = Inr host_key"
    and "length (id_key phone) = 32" and "length (id_identifier phone) \<le> 128" and "identity_public cy phone = Inr pk"
    and "map_of ps (id_identifier phone) = Some pk"
    and "shared cy e (cy_x25519_public cy pe) = Inr secret"
    and "encode_tlv [(6, [1]), (3, cy_x25519_public cy pe)] = Inr b1"
  shows "\<exists>v r1 b2 r2 vf. verify_start cy ident e b1 verify_new = (v, Inr r1)
    \<and> phone_verify cy phone pe host_key r1 = Inr (b2, secret)
    \<and> verify_finish cy ps b2 v = (v\<lparr>pv_pending := None\<rparr>, Inr (r2, vf)) \<and> vf_secret vf = secret"
  by (rule verify_honest_run [OF assms])

definition toy_dh :: crypto where
  "toy_dh = toy_suite\<lparr>cy_x25519_public := (\<lambda>k. take 32 (k @ replicate 32 0)),
     cy_x25519 := (\<lambda>k p. Some (replicate 32 (sum_list (take 32 k) + sum_list p + 1)))\<rparr>"

lemma toy_dh_sound: "crypto_sound toy_dh" "dh_sound toy_dh"
proof -
  show "crypto_sound toy_dh"
    using toy_suite_sound by (simp add: crypto_sound_def aead_correct_def sha512_length_def toy_dh_def)
  have "sum_list (take 32 (k @ replicate 32 0)) = sum_list (take 32 k)" for k :: "u8 list"
    by (simp add: sum_list_replicate)
  then show "dh_sound toy_dh" by (simp add: dh_sound_def toy_dh_def add.commute min_def)
qed

lemma toy_dh_identity: "identity_public toy_dh toy_identity = Inr (replicate 32 7)"
  using toy_identity_simps(4) by (simp add: identity_public_def toy_dh_def)

lemma toy_dh_shared: "shared toy_dh [] (cy_x25519_public toy_dh []) = Inr (replicate 32 1)"
  by (simp add: shared_def toy_dh_def from_openssl_def sum_list_replicate list_all_iff)

lemma toy_dh_message: "\<exists>b. encode_tlv [(6, [1]), (3, cy_x25519_public toy_dh [])] = Inr b"
  using encode_tlv_ok [of "[(6, [1]), (3, cy_x25519_public toy_dh [])]"] toy_dh_sound(2)
  by (auto simp: tlv_bound_def dh_sound_def)

abbreviation toy_peers :: peers where
  "toy_peers \<equiv> [(id_identifier toy_identity, replicate 32 7)]"

theorem pair_verify_authentic_witness:
  "\<exists>evs outs reply vf. snd (run_machine (verify_step toy_dh toy_identity toy_peers) verify_new evs) ! 1 = VOutcome (Inr (reply, vf))
     \<and> derive_key toy_dh (vf_secret vf) ''Control-Salt'' ''Control-Write-Encryption-Key'' = Inr (vf_read vf)"
proof -
  obtain b1 where b1: "encode_tlv [(6, [1]), (3, cy_x25519_public toy_dh [])] = Inr b1" using toy_dh_message by blast
  have reg: "map_of toy_peers (id_identifier toy_identity) = Some (replicate 32 7)" by simp
  obtain v r1 b2 r2 vf where h: "verify_start toy_dh toy_identity [] b1 verify_new = (v, Inr r1)"
    "verify_finish toy_dh toy_peers b2 v = (v\<lparr>pv_pending := None\<rparr>, Inr (r2, vf))"
    using verify_honest_run [OF toy_dh_sound toy_identity_simps(1,2) toy_dh_identity toy_identity_simps(1,2)
        toy_dh_identity reg toy_dh_shared b1] by blast
  have o: "snd (run_machine (verify_step toy_dh toy_identity toy_peers) verify_new [VStart [] b1, VFinish b2]) ! 1
      = VOutcome (Inr (r2, vf))"
    using h by simp
  have "derive_key toy_dh (vf_secret vf) ''Control-Salt'' ''Control-Write-Encryption-Key'' = Inr (vf_read vf)"
    using pair_verify_authentic [OF o] by auto
  with o show ?thesis by blast
qed

theorem pair_verify_completes_witness:
  "\<exists>b1 v r1 b2 r2 vf. verify_start toy_dh toy_identity [] b1 verify_new = (v, Inr r1)
    \<and> verify_finish toy_dh toy_peers b2 v = (v\<lparr>pv_pending := None\<rparr>, Inr (r2, vf)) \<and> vf_secret vf = replicate 32 1"
proof -
  obtain b1 where b1: "encode_tlv [(6, [1]), (3, cy_x25519_public toy_dh [])] = Inr b1" using toy_dh_message by blast
  have reg: "map_of toy_peers (id_identifier toy_identity) = Some (replicate 32 7)" by simp
  show ?thesis
    using pair_verify_completes [OF toy_dh_sound toy_identity_simps(1,2) toy_dh_identity toy_identity_simps(1,2)
        toy_dh_identity reg toy_dh_shared b1] by blast
qed

text \<open>The store of paired phones can always be restored: starting from a loaded store, whatever messages
  set-up sessions receive, the saved entries in any order pass every check of \<open>Peers::load\<close> and give back
  exactly the same phones.\<close>

theorem peers_restorable:
  assumes "peers_load entries = Inr ps" and "run_machine (setup_handle cy ident) (s, ps) msgs = ((s', ps'), outs)"
    and "distinct qs" and "set qs = set ps'"
  shows "peers_load qs = Inr qs \<and> map_of qs = map_of ps'"
proof -
  have "peers_ok []" by (simp add: peers_ok_def)
  with assms(1) have "peers_ok ps" by (auto simp: peers_load_def split: if_splits dest: peers_load_loop_ok)
  then have ok: "peers_ok ps'" using peers_machine.inv_run [of "(s, ps)" cy ident msgs] assms(2) by simp
  note q = peers_ok_perm [OF ok assms(3,4)]
  then have "peers_load qs = Inr qs"
    using peers_load_loop_append [of "[]" qs] by (simp add: peers_load_def peers_ok_def)
  moreover have "map_of qs = map_of ps'"
    using q ok assms(4) by (simp add: peers_ok_def map_of_inject_set)
  ultimately show ?thesis by blast
qed

theorem peers_restorable_witness:
  "peers_load [([66], replicate 32 3), ([65], replicate 32 2)] = Inr [([66], replicate 32 3), ([65], replicate 32 2)]"
proof -
  have a: "peers_load [([65], replicate 32 2), ([66], replicate 32 3)] = Inr [([65], replicate 32 2), ([66], replicate 32 3)]"
    by (simp add: peers_load_def peers_register_def)
  have b: "run_machine (setup_handle toy_suite toy_identity)
    (setup_new, [([65], replicate 32 2), ([66], replicate 32 3)]) [] = ((setup_new, [([65], replicate 32 2), ([66], replicate 32 3)]), [])"
    by simp
  show ?thesis
    using peers_restorable [OF a b, of "[([66], replicate 32 3), ([65], replicate 32 2)]"] by auto
qed

end
