(* ===== verification/Ipc.thy ===== *)
theory Ipc
  imports Text
begin

text \<open>
  The control channel between the projection daemon and the user interface
  (\<open>native/projection/argo-projectiond/src/ipc.rs\<close>): message framing with the incremental decoder,
  the payload writer and reader, and the bounded queue.
\<close>

section \<open>Messages\<close>

definition IPC_MAGIC :: u32 where "IPC_MAGIC = 0x4152474f"
definition IPC_VERSION :: u16 where "IPC_VERSION = 7"
definition HEADER_LEN :: nat where [consts_simps]: "HEADER_LEN = 12"
definition MAX_PAYLOAD :: nat where [consts_simps]: "MAX_PAYLOAD = 64 * 1024"
definition MAX_BUFFERED :: nat where [consts_simps]: "MAX_BUFFERED = 256 * 1024"

record ipc_message =
  im_kind :: u16
  im_payload :: "u8 list"

datatype decode_error = BadMagic | UnsupportedVersion u16 | OversizedPayload nat | OversizedBuffer

definition ipc_encode :: "ipc_message \<Rightarrow> decode_error + u8 list" where
  "ipc_encode m =
     (if length (im_payload m) > MAX_PAYLOAD then Inl (OversizedPayload (length (im_payload m)))
      else Inr (to_be32 IPC_MAGIC @ to_be16 IPC_VERSION @ to_be16 (im_kind m)
             @ to_be32 (of_nat (length (im_payload m))) @ im_payload m))"

text \<open>One turn of the loop of \<open>Decoder::push\<close>.\<close>

definition ipc_parse :: "u8 list \<Rightarrow> decode_error + (ipc_message \<times> nat) option" where
  "ipc_parse buf =
     (if length buf < HEADER_LEN then Inr None
      else if from_be32 (buf ! 0) (buf ! 1) (buf ! 2) (buf ! 3) \<noteq> IPC_MAGIC then Inl BadMagic
      else if from_be16 (buf ! 4) (buf ! 5) \<noteq> IPC_VERSION
      then Inl (UnsupportedVersion (from_be16 (buf ! 4) (buf ! 5)))
      else
        let len = unat (from_be32 (buf ! 8) (buf ! 9) (buf ! 10) (buf ! 11)) in
        if len > MAX_PAYLOAD then Inl (OversizedPayload len)
        else if length buf < HEADER_LEN + len then Inr None
        else Inr (Some (\<lparr>im_kind = from_be16 (buf ! 6) (buf ! 7), im_payload = take len (drop HEADER_LEN buf)\<rparr>,
               HEADER_LEN + len)))"

text \<open>Every error empties the buffer; the messages decoded before it in the same call are lost.\<close>

definition ipc_push :: "u8 list \<Rightarrow> u8 list \<Rightarrow> u8 list \<times> (decode_error + ipc_message list)" where
  "ipc_push buf bytes =
     (if length buf + length bytes > MAX_BUFFERED then ([], Inl OversizedBuffer)
      else case drain ipc_parse (buf @ bytes) of
        Inl e \<Rightarrow> ([], Inl e)
      | Inr (ms, rest) \<Rightarrow> (rest, Inr ms))"

definition ipc_ok :: "ipc_message \<Rightarrow> bool" where
  "ipc_ok m \<longleftrightarrow> length (im_payload m) \<le> MAX_PAYLOAD"

definition ipc_bytes :: "ipc_message \<Rightarrow> u8 list" where
  "ipc_bytes m = projr (ipc_encode m)"

lemma to_be32_Cons: "to_be32 w = [ucast (drop_bit 8 (ucast (drop_bit 16 w) :: u16)), ucast (ucast (drop_bit 16 w) :: u16),
     ucast (drop_bit 8 (ucast w :: u16)), ucast (ucast w :: u16)]"
  by (simp add: to_be32_def to_be16_def)

lemma to_be16_pair: "to_be16 w = [ucast (drop_bit 8 w), ucast w]"
  by (simp add: to_be16_def)

lemma ipc_parse_bytes:
  assumes "ipc_ok m"
  shows "ipc_parse (ipc_bytes m) = Inr (Some (m, length (ipc_bytes m)))"
proof -
  have n: "unat (of_nat (length (im_payload m)) :: u32) = length (im_payload m)"
    using assms by (intro unat_of_nat_u32) (simp add: ipc_ok_def consts_simps)
  have b: "ipc_bytes m = to_be32 IPC_MAGIC @ to_be16 IPC_VERSION @ to_be16 (im_kind m)
      @ to_be32 (of_nat (length (im_payload m))) @ im_payload m"
    using assms by (simp add: ipc_bytes_def ipc_encode_def ipc_ok_def)
  show ?thesis
    using assms
    by (simp add: b ipc_parse_def to_be32_Cons to_be16_pair from_be16_parts from_be32_parts n ipc_ok_def HEADER_LEN_def)
qed

lemma ipc_parse_Some:
  "ipc_parse bs = Inr (Some (m, n)) \<longleftrightarrow> HEADER_LEN \<le> length bs
     \<and> from_be32 (bs ! 0) (bs ! 1) (bs ! 2) (bs ! 3) = IPC_MAGIC \<and> from_be16 (bs ! 4) (bs ! 5) = IPC_VERSION
     \<and> n = HEADER_LEN + unat (from_be32 (bs ! 8) (bs ! 9) (bs ! 10) (bs ! 11))
     \<and> n \<le> HEADER_LEN + MAX_PAYLOAD \<and> n \<le> length bs
     \<and> m = \<lparr>im_kind = from_be16 (bs ! 6) (bs ! 7), im_payload = take (n - HEADER_LEN) (drop HEADER_LEN bs)\<rparr>"
  by (auto simp: ipc_parse_def Let_def not_less split: if_splits)

lemma ipc_prefix:
  "HEADER_LEN \<le> length bs \<Longrightarrow> (bs @ ys) ! 0 = bs ! 0 \<and> (bs @ ys) ! 1 = bs ! 1 \<and> (bs @ ys) ! 2 = bs ! 2
     \<and> (bs @ ys) ! 3 = bs ! 3 \<and> (bs @ ys) ! 4 = bs ! 4 \<and> (bs @ ys) ! 5 = bs ! 5
     \<and> (bs @ ys) ! 6 = bs ! 6 \<and> (bs @ ys) ! 7 = bs ! 7 \<and> (bs @ ys) ! 8 = bs ! 8
     \<and> (bs @ ys) ! 9 = bs ! 9 \<and> (bs @ ys) ! 10 = bs ! 10 \<and> (bs @ ys) ! 11 = bs ! 11"
  by (auto simp: HEADER_LEN_def nth_append)

lemma ipc_parse_Inl:
  "ipc_parse bs = Inl e \<longleftrightarrow> HEADER_LEN \<le> length bs
     \<and> (let magic = from_be32 (bs ! 0) (bs ! 1) (bs ! 2) (bs ! 3); version = from_be16 (bs ! 4) (bs ! 5);
            len = unat (from_be32 (bs ! 8) (bs ! 9) (bs ! 10) (bs ! 11)) in
        magic \<noteq> IPC_MAGIC \<and> e = BadMagic
        \<or> magic = IPC_MAGIC \<and> version \<noteq> IPC_VERSION \<and> e = UnsupportedVersion version
        \<or> magic = IPC_MAGIC \<and> version = IPC_VERSION \<and> len > MAX_PAYLOAD \<and> e = OversizedPayload len)"
  by (auto simp: ipc_parse_def Let_def not_less)

interpretation ipc_stream: framed_codec ipc_parse ipc_bytes ipc_ok
proof unfold_locales
  fix bs ys m n
  show "ipc_parse bs = Inr (Some (m, n)) \<Longrightarrow> 0 < n \<and> n \<le> length bs"
    by (simp add: ipc_parse_Some HEADER_LEN_def)
  assume a: "ipc_parse bs = Inr (Some (m, n))"
  then have "HEADER_LEN \<le> length bs" by (simp add: ipc_parse_Some)
  from a ipc_prefix [OF this, of ys] this show "ipc_parse (bs @ ys) = Inr (Some (m, n))"
    unfolding ipc_parse_Some by simp
next
  fix bs ys e
  assume a: "ipc_parse bs = Inl e"
  then have "HEADER_LEN \<le> length bs" by (simp add: ipc_parse_Inl)
  from a ipc_prefix [OF this, of ys] this show "ipc_parse (bs @ ys) = Inl e"
    unfolding ipc_parse_Inl by simp
next
  fix m
  show "ipc_ok m \<Longrightarrow> ipc_parse (ipc_bytes m) = Inr (Some (m, length (ipc_bytes m)))" by (rule ipc_parse_bytes)
next
  show "ipc_parse [] = Inr None" by (simp add: ipc_parse_def HEADER_LEN_def)
qed

text \<open>What stays in the buffer is less than one message.\<close>

lemma ipc_rest_short:
  assumes "drain ipc_parse bs = Inr (ms, rest)"
  shows "length rest < HEADER_LEN + MAX_PAYLOAD"
  using ipc_stream.drain_rest [OF assms]
  by (auto simp: ipc_parse_def Let_def consts_simps split: if_splits)

text \<open>The calls the reader makes, one per chunk it read.\<close>

lemma ipc_run_feed:
  assumes "\<forall>c \<in> set cs. length c + HEADER_LEN + MAX_PAYLOAD \<le> MAX_BUFFERED + 1"
    and "length buf < HEADER_LEN + MAX_PAYLOAD" and "feed ipc_parse buf cs = Inr (ms, rest)"
  shows "\<exists>outs. run_machine ipc_push buf cs = (rest, map Inr outs) \<and> concat outs = ms"
  using assms
proof (induction cs arbitrary: buf ms)
  case Nil
  then show ?case by simp
next
  case (Cons c cs)
  then obtain m1 r1 m2 where d: "drain ipc_parse (buf @ c) = Inr (m1, r1)"
    and f: "feed ipc_parse r1 cs = Inr (m2, rest)" and ms: "ms = m1 @ m2"
    by (auto split: sum.splits prod.splits)
  have p: "ipc_push buf c = (r1, Inr m1)" using Cons.prems(1,2) d by (simp add: ipc_push_def)
  obtain outs where "run_machine ipc_push r1 cs = (rest, map Inr outs)" "concat outs = m2"
    using Cons.IH [OF _ ipc_rest_short [OF d] f] Cons.prems(1) by auto
  with p show ?case by (intro exI [of _ "m1 # outs"]) (simp add: ms)
qed

section \<open>Payloads\<close>

text \<open>\<open>PayloadWriter\<close> is the bytes written so far; every operation appends.\<close>

definition pw_u8 :: "u8 \<Rightarrow> u8 list \<Rightarrow> u8 list" where "pw_u8 v w = w @ [v]"
definition pw_u16 :: "u16 \<Rightarrow> u8 list \<Rightarrow> u8 list" where "pw_u16 v w = w @ to_be16 v"
definition pw_u32 :: "u32 \<Rightarrow> u8 list \<Rightarrow> u8 list" where "pw_u32 v w = w @ to_be32 v"
definition pw_u64 :: "u64 \<Rightarrow> u8 list \<Rightarrow> u8 list" where "pw_u64 v w = w @ to_be64 v"

definition pw_string :: "u8 list \<Rightarrow> u8 list \<Rightarrow> decode_error + u8 list" where
  "pw_string s w =
     (if length s > 4096 then Inl (OversizedPayload (length s))
      else Inr (pw_u16 (of_nat (length s)) w @ s))"

definition string_payload :: "u8 list \<Rightarrow> decode_error + u8 list" where
  "string_payload s =
     (if length s > 65535 then Inl (OversizedPayload (length s)) else Inr (to_be16 (of_nat (length s)) @ s))"

record payload_reader =
  pr_bytes :: "u8 list"
  pr_offset :: nat

definition pr_new :: "u8 list \<Rightarrow> payload_reader" where
  "pr_new bytes = \<lparr>pr_bytes = bytes, pr_offset = 0\<rparr>"

text \<open>\<open>bytes.get(offset..offset + n)\<close> and the advance; a failed read leaves the offset.\<close>

definition pr_take :: "nat \<Rightarrow> payload_reader \<Rightarrow> payload_reader \<times> u8 list option" where
  "pr_take n r =
     (case get_range (pr_bytes r) (pr_offset r) (pr_offset r + n) of
        None \<Rightarrow> (r, None)
      | Some b \<Rightarrow> (r\<lparr>pr_offset := pr_offset r + n\<rparr>, Some b))"

definition pr_u8 :: "payload_reader \<Rightarrow> payload_reader \<times> u8 option" where
  "pr_u8 r =
     (case get_at (pr_bytes r) (pr_offset r) of
        None \<Rightarrow> (r, None)
      | Some v \<Rightarrow> (r\<lparr>pr_offset := pr_offset r + 1\<rparr>, Some v))"

definition pr_u16 :: "payload_reader \<Rightarrow> payload_reader \<times> u16 option" where
  "pr_u16 r = (case pr_take 2 r of (r, b) \<Rightarrow> (r, map_option (\<lambda>b. from_be16 (b ! 0) (b ! 1)) b))"

definition pr_u32 :: "payload_reader \<Rightarrow> payload_reader \<times> u32 option" where
  "pr_u32 r = (case pr_take 4 r of (r, b) \<Rightarrow> (r, map_option (\<lambda>b. from_be32 (b ! 0) (b ! 1) (b ! 2) (b ! 3)) b))"

text \<open>A floating-point number is its 32 bits.\<close>

definition pr_f32 :: "payload_reader \<Rightarrow> payload_reader \<times> u32 option" where
  "pr_f32 r = (case pr_take 4 r of (r, b) \<Rightarrow> (r, map_option (\<lambda>b. from_be32 (b ! 0) (b ! 1) (b ! 2) (b ! 3)) b))"

text \<open>A string whose length was read but whose bytes are missing or not UTF-8 leaves the offset
  behind the length.\<close>

definition pr_string :: "payload_reader \<Rightarrow> payload_reader \<times> u8 list option" where
  "pr_string r =
     (case pr_u16 r of
        (r, None) \<Rightarrow> (r, None)
      | (r, Some n) \<Rightarrow>
          (case get_range (pr_bytes r) (pr_offset r) (pr_offset r + unat n) of
             None \<Rightarrow> (r, None)
           | Some s \<Rightarrow> if utf8_valid s then (r\<lparr>pr_offset := pr_offset r + unat n\<rparr>, Some s) else (r, None)))"

definition pr_done :: "payload_reader \<Rightarrow> bool" where
  "pr_done r \<longleftrightarrow> pr_offset r = length (pr_bytes r)"

text \<open>A reader standing in front of what remains.\<close>

definition reader_at :: "u8 list \<Rightarrow> u8 list \<Rightarrow> payload_reader" where
  "reader_at before rest = \<lparr>pr_bytes = before @ rest, pr_offset = length before\<rparr>"

lemma reader_at_take:
  "length b = n \<Longrightarrow> pr_take n (reader_at before (b @ rest)) = (reader_at (before @ b) rest, Some b)"
  by (simp add: pr_take_def reader_at_def get_range_def)

lemma reader_at_u8: "pr_u8 (reader_at before (v # rest)) = (reader_at (before @ [v]) rest, Some v)"
  by (simp add: pr_u8_def reader_at_def get_at_def)

lemma reader_at_u16: "pr_u16 (reader_at before (to_be16 v @ rest)) = (reader_at (before @ to_be16 v) rest, Some v)"
  by (simp add: pr_u16_def reader_at_take from_be16_parts)

lemma reader_at_u32: "pr_u32 (reader_at before (to_be32 v @ rest)) = (reader_at (before @ to_be32 v) rest, Some v)"
  by (simp add: pr_u32_def reader_at_take) (simp add: to_be32_Cons from_be32_parts)

lemma reader_at_f32: "pr_f32 (reader_at before (to_be32 v @ rest)) = (reader_at (before @ to_be32 v) rest, Some v)"
  by (simp add: pr_f32_def reader_at_take) (simp add: to_be32_Cons from_be32_parts)

lemma reader_at_string:
  assumes "length s \<le> 4096" and "utf8_valid s"
  shows "pr_string (reader_at before (to_be16 (of_nat (length s)) @ s @ rest))
    = (reader_at (before @ to_be16 (of_nat (length s)) @ s) rest, Some s)"
proof -
  have n: "unat (of_nat (length s) :: u16) = length s" by (rule unat_of_nat_u16) (use assms in simp)
  show ?thesis
    unfolding pr_string_def reader_at_u16
    by (simp add: n reader_at_def get_range_def assms)
qed

lemma pr_done_at: "pr_done (reader_at before rest) \<longleftrightarrow> rest = []"
  by (simp add: pr_done_def reader_at_def)

lemma pr_new_at: "pr_new bytes = reader_at [] bytes"
  by (simp add: pr_new_def reader_at_def)

section \<open>Bounded queue\<close>

record 'a bounded_queue =
  bq_values :: "'a list"
  bq_capacity :: nat

text \<open>\<open>new\<close> panics for capacity zero.\<close>

definition bq_new :: "nat \<Rightarrow> 'a bounded_queue option" where
  "bq_new n = (if 0 < n then Some \<lparr>bq_values = [], bq_capacity = n\<rparr> else None)"

definition bq_try_push :: "'a \<Rightarrow> 'a bounded_queue \<Rightarrow> 'a bounded_queue \<times> ('a + unit)" where
  "bq_try_push v q =
     (if length (bq_values q) = bq_capacity q then (q, Inl v)
      else (q\<lparr>bq_values := bq_values q @ [v]\<rparr>, Inr ()))"

definition bq_push_latest :: "'a \<Rightarrow> 'a bounded_queue \<Rightarrow> 'a bounded_queue" where
  "bq_push_latest v q =
     (let vs = (if length (bq_values q) = bq_capacity q then tl (bq_values q) else bq_values q) in
      q\<lparr>bq_values := vs @ [v]\<rparr>)"

definition bq_pop :: "'a bounded_queue \<Rightarrow> 'a bounded_queue \<times> 'a option" where
  "bq_pop q = (case bq_values q of [] \<Rightarrow> (q, None) | v # vs \<Rightarrow> (q\<lparr>bq_values := vs\<rparr>, Some v))"

definition bq_len :: "'a bounded_queue \<Rightarrow> nat" where "bq_len q = length (bq_values q)"
definition bq_is_empty :: "'a bounded_queue \<Rightarrow> bool" where "bq_is_empty q \<longleftrightarrow> bq_values q = []"

text \<open>A sliding window over everything pushed: the last elements, at most \<open>capacity\<close> of them.\<close>

definition last_n :: "nat \<Rightarrow> 'a list \<Rightarrow> 'a list" where
  "last_n n xs = drop (length xs - n) xs"

lemma last_n_snoc:
  assumes "0 < n"
  shows "last_n n (xs @ [x]) = (if length (last_n n xs) = n then tl (last_n n xs) else last_n n xs) @ [x]"
proof (cases "n \<le> length xs")
  case True
  then have "Suc (length xs) - n = Suc (length xs - n)" by (simp add: Suc_diff_le)
  with True assms show ?thesis by (simp add: last_n_def drop_Suc tl_drop)
next
  case False
  then show ?thesis by (simp add: last_n_def)
qed

lemma bq_latest_window:
  assumes "0 < bq_capacity q" and "bq_values q = last_n (bq_capacity q) xs"
  shows "bq_values (fold bq_push_latest ys q) = last_n (bq_capacity q) (xs @ ys)
    \<and> bq_capacity (fold bq_push_latest ys q) = bq_capacity q"
  using assms
proof (induction ys arbitrary: q xs)
  case (Cons y ys)
  have "bq_values (bq_push_latest y q) = last_n (bq_capacity q) (xs @ [y])"
    using Cons.prems by (simp add: bq_push_latest_def Let_def last_n_snoc)
  with Cons.IH [of "bq_push_latest y q" "xs @ [y]"] Cons.prems show ?case
    by (simp add: bq_push_latest_def Let_def)
qed simp

section \<open>Properties\<close>

text \<open>However the local socket fragments the bytes of a sequence of messages into reads of at most
  196,597 bytes, the decoder never reports an error, returns exactly those messages in order and keeps
  no byte; the buffer limit is never the reason for losing a valid message.\<close>

theorem ipc_fragmentation:
  assumes "\<forall>m \<in> set ms. ipc_encode m = Inr (ipc_bytes m)" and "concat cs = concat (map ipc_bytes ms)"
    and "\<forall>c \<in> set cs. length c \<le> 196597"
  shows "\<exists>outs. run_machine ipc_push [] cs = ([], map Inr outs) \<and> concat outs = ms"
proof -
  have "\<forall>m \<in> set ms. ipc_ok m" using assms(1) by (auto simp: ipc_encode_def ipc_ok_def split: if_splits)
  then have f: "feed ipc_parse [] cs = Inr (ms, [])" by (rule ipc_stream.feed_encs) (rule assms(2))
  show ?thesis
    by (rule ipc_run_feed [OF _ _ f]) (use assms(3) in \<open>auto simp: consts_simps\<close>)
qed

definition wit_ipc :: ipc_message where
  "wit_ipc = \<lparr>im_kind = 9, im_payload = [1, 2, 3]\<rparr>"

theorem ipc_fragmentation_witness:
  "\<exists>outs. run_machine ipc_push [] [take 5 (ipc_bytes wit_ipc), drop 5 (ipc_bytes wit_ipc)] = ([], map Inr outs)
     \<and> concat outs = [wit_ipc]"
proof -
  have "length (ipc_bytes wit_ipc) \<le> 196597"
    by (simp add: ipc_bytes_def ipc_encode_def wit_ipc_def consts_simps)
  then show ?thesis
    by (intro ipc_fragmentation) (auto simp: ipc_bytes_def ipc_encode_def wit_ipc_def consts_simps)
qed

text \<open>\<open>push_latest\<close> is a sliding window: after any pushes on a new queue it holds exactly the most
  recent values, in order and at most \<open>capacity\<close> of them; \<open>try_push\<close> on a full queue hands the value back
  and changes nothing.\<close>

theorem bounded_queue_window:
  assumes "bq_new n = Some q" and "bq_try_push v (fold bq_push_latest ys q) = (q', r)"
  shows "bq_values (fold bq_push_latest ys q) = last_n n ys
    \<and> (if length ys < n then r = Inr () \<and> bq_values q' = ys @ [v]
       else r = Inl v \<and> q' = fold bq_push_latest ys q)"
proof -
  have q: "q = \<lparr>bq_values = [], bq_capacity = n\<rparr>" "0 < n"
    using assms(1) by (auto simp: bq_new_def split: if_splits)
  then have w: "bq_values (fold bq_push_latest ys q) = last_n n ys \<and> bq_capacity (fold bq_push_latest ys q) = n"
    using bq_latest_window [of q "[]" ys] by (simp add: last_n_def)
  then show ?thesis
    using assms(2) q(2) by (auto simp: bq_try_push_def last_n_def split: if_splits)
qed

theorem bounded_queue_window_witness:
  "\<exists>q. bq_new 2 = Some q \<and> bq_values (fold bq_push_latest [1 :: nat, 2, 3] q) = [2, 3]"
proof -
  obtain q where q: "bq_new 2 = Some (q :: nat bounded_queue)" by (simp add: bq_new_def)
  obtain q' r where "bq_try_push 4 (fold bq_push_latest [1, 2, 3] q) = (q', r)" by fastforce
  from bounded_queue_window [OF q this] q show ?thesis by (auto simp: last_n_def)
qed

end
