(* ===== verification/Proto.thy ===== *)
theory Proto
  imports Text Assoc
begin

text \<open>
  The protocol-buffer subset of the Android Auto messages: the writer \<open>Proto\<close> and the reader
  \<open>numbers\<close> of \<open>native/projection/argo-projectiond/src/aa_channels.rs\<close>, and the reader \<open>fields\<close> of
  \<open>metadata.rs\<close>. Both readers use the same variable-length integers with different error texts.
\<close>

lemma unat_drop7: "unat (drop_bit 7 (v :: u64)) = unat v div 128"
  by (simp only: unat_drop_bit_eq) (simp add: drop_bit_eq_div)

section \<open>Writer\<close>

function var_bytes :: "u64 \<Rightarrow> u8 list" where
  "var_bytes v = (if v \<ge> 128 then (ucast v OR 128) # var_bytes (drop_bit 7 v) else [ucast v])"
  by pat_completeness auto
termination
proof (relation "measure unat")
  fix v :: u64
  assume "128 \<le> v"
  then have "128 \<le> unat v" by (simp add: word_le_nat_alt)
  then show "(drop_bit 7 v, v) \<in> measure unat"
    by (simp add: unat_drop7 del: drop_bit_numeral_minus_bit1)
qed simp

declare var_bytes.simps [simp del]

definition pb_number :: "u32 \<Rightarrow> u64 \<Rightarrow> u8 list \<Rightarrow> u8 list" where
  "pb_number field v p = p @ var_bytes (push_bit 3 (ucast field)) @ var_bytes v"

definition pb_bytes :: "u32 \<Rightarrow> u8 list \<Rightarrow> u8 list \<Rightarrow> u8 list" where
  "pb_bytes field bs p = p @ var_bytes (push_bit 3 (ucast field) OR 2) @ var_bytes (of_nat (length bs)) @ bs"

definition pb_nested :: "u32 \<Rightarrow> u8 list \<Rightarrow> u8 list \<Rightarrow> u8 list" where
  "pb_nested field v p = pb_bytes field v p"

section \<open>Readers\<close>

text \<open>The loop over the shifts 0, 7, ..., 63; the first text is for a truncated number, the second
  for one that does not fit.\<close>

fun var_loop :: "u8 list \<Rightarrow> u8 list \<Rightarrow> nat list \<Rightarrow> u64 \<Rightarrow> u8 list \<Rightarrow> u8 list + (u64 \<times> u8 list)" where
  "var_loop short wide [] value input = Inl wide"
| "var_loop short wide (shift # shifts) value [] = Inl short"
| "var_loop short wide (shift # shifts) value (b # rest) =
     (if shift = 63 \<and> b > 1 then Inl wide
      else
        let value = value OR push_bit shift (ucast (b AND 127)) in
        if b < 128 then Inr (value, rest) else var_loop short wide shifts value rest)"

definition var_shifts :: "nat list" where
  "var_shifts = [0, 7, 14, 21, 28, 35, 42, 49, 56, 63]"

definition pb_var :: "u8 list \<Rightarrow> u8 list + (u64 \<times> u8 list)" where
  "pb_var input = var_loop (str ''truncated protobuf varint'') (str ''protobuf integer overflow'') var_shifts 0 input"

definition meta_varint :: "u8 list \<Rightarrow> u8 list + (u64 \<times> u8 list)" where
  "meta_varint input = var_loop (str ''truncated field'') (str ''integer overflow'') var_shifts 0 input"

lemma var_loop_shorter: "var_loop a b shifts v bs = Inr (x, r) \<Longrightarrow> length r < length bs"
  by (induction a b shifts v bs rule: var_loop.induct) (fastforce simp: Let_def split: if_splits)+

lemma pb_var_shorter [simp]: "pb_var bs = Inr (x, r) \<Longrightarrow> length r < length bs"
  unfolding pb_var_def by (rule var_loop_shorter)

lemma meta_varint_shorter [simp]: "meta_varint bs = Inr (x, r) \<Longrightarrow> length r < length bs"
  unfolding meta_varint_def by (rule var_loop_shorter)

text \<open>One field of \<open>numbers\<close>: the tag, then its value. \<open>None\<close> for a field that is only skipped.\<close>

definition numbers_field :: "u8 list \<Rightarrow> u8 list + ((u32 \<times> u64) option \<times> u8 list)" where
  "numbers_field input =
     bindr (pb_var input) (\<lambda>(tag, input).
       let field = drop_bit 3 tag in
       if field = 0 \<or> field > 0x1fffffff then Inl (str ''invalid protobuf tag'')
       else
         let skip = (\<lambda>n input. case get_range input n (length input) of
                None \<Rightarrow> Inl (str ''truncated protobuf field'') | Some rest \<Rightarrow> Inr (None, rest)) in
         if tag AND 7 = 0 then bindr (pb_var input) (\<lambda>(v, rest). Inr (Some (ucast field, v), rest))
         else if tag AND 7 = 1 then skip 8 input
         else if tag AND 7 = 5 then skip 4 input
         else if tag AND 7 = 2 then bindr (pb_var input) (\<lambda>(n, rest). skip (unat n) rest)
         else Inl (str ''unsupported protobuf wire type''))"

lemma get_range_end: "get_range xs n (length xs) = (if n \<le> length xs then Some (drop n xs) else None)"
  by (simp add: get_range_def)

lemma numbers_field_shorter: "numbers_field bs = Inr (o', r) \<Longrightarrow> length r < length bs"
  by (fastforce simp: numbers_field_def Let_def get_range_end split: if_splits dest: pb_var_shorter)

function numbers_loop :: "nat \<Rightarrow> (u32 \<times> u64) list \<Rightarrow> u8 list \<Rightarrow> u8 list + (u32 \<times> u64) list" where
  "numbers_loop count fs input =
     (if input = [] then Inr fs
      else if Suc count > 1024 then Inl (str ''protobuf field limit'')
      else case numbers_field input of
        Inl e \<Rightarrow> Inl e
      | Inr (None, rest) \<Rightarrow> numbers_loop (Suc count) fs rest
      | Inr (Some (f, v), rest) \<Rightarrow> numbers_loop (Suc count) (AList.update f v fs) rest)"
  by pat_completeness auto
termination
  by (relation "measure (\<lambda>(count, fs, input). length input)") (auto dest: numbers_field_shorter)

declare numbers_loop.simps [simp del]

definition numbers :: "u8 list \<Rightarrow> u8 list + (u32 \<times> u64) list" where
  "numbers bytes = numbers_loop 0 [] bytes"

datatype pb_value = Number u64 | Bytes "u8 list" | Other

definition meta_field :: "u8 list \<Rightarrow> u8 list + ((u32 \<times> pb_value) \<times> u8 list)" where
  "meta_field input =
     bindr (meta_varint input) (\<lambda>(tag, input).
       if drop_bit 3 tag = 0 \<or> drop_bit 3 tag > 0x1fffffff then Inl (str ''invalid tag'')
       else
         let field = ucast (drop_bit 3 tag);
             data = (\<lambda>n mk input. case get_range input 0 n of
                None \<Rightarrow> Inl (str ''truncated bytes'') | Some d \<Rightarrow> Inr ((field, mk d), drop n input)) in
         if tag AND 7 = 0 then bindr (meta_varint input) (\<lambda>(v, rest). Inr ((field, Number v), rest))
         else if tag AND 7 = 1 then data 8 (\<lambda>_. Other) input
         else if tag AND 7 = 5 then data 4 (\<lambda>_. Other) input
         else if tag AND 7 = 2 then bindr (meta_varint input) (\<lambda>(n, rest). data (unat n) Bytes rest)
         else Inl (str ''unsupported wire type''))"

lemma meta_field_shorter: "meta_field bs = Inr (o', r) \<Longrightarrow> length r < length bs"
  by (fastforce simp: meta_field_def Let_def split: if_splits option.splits dest: meta_varint_shorter)

function meta_loop :: "nat \<Rightarrow> (u32 \<times> pb_value) list \<Rightarrow> u8 list \<Rightarrow> u8 list + (u32 \<times> pb_value) list" where
  "meta_loop count fs input =
     (if input = [] then Inr fs
      else if Suc count > 1024 then Inl (str ''field limit'')
      else case meta_field input of
        Inl e \<Rightarrow> Inl e
      | Inr ((f, v), rest) \<Rightarrow> meta_loop (Suc count) (AList.update f v fs) rest)"
  by pat_completeness auto
termination
  by (relation "measure (\<lambda>(count, fs, input). length input)") (auto dest: meta_field_shorter)

declare meta_loop.simps [simp del]

definition meta_fields :: "u8 list \<Rightarrow> u8 list + (u32 \<times> pb_value) list" where
  "meta_fields input =
     (if length input > 4 * 1024 * 1024 then Inl (str ''metadata size limit'') else meta_loop 0 [] input)"

section \<open>Round trip\<close>

lemma mask7: "(127 :: u8) = mask 7" "(127 :: u64) = mask 7" "(128 :: u8) = 2 ^ 7"
  by (simp_all add: mask_eq_exp_minus_1)

lemma bit128: "bit (128 :: int) n \<longleftrightarrow> n = 7"
proof -
  have w: "(128 :: int) = 2 ^ 7" by simp
  show ?thesis unfolding w by (simp only: bit_exp_iff) simp
qed

lemma low7: "ucast ((ucast v OR 128 :: u8) AND 127) = (take_bit 7 (v :: u64) :: u64)"
proof -
  have "(ucast v OR 128 :: u8) AND mask 7 = ucast v AND mask 7"
    by (rule bit_word_eqI) (auto simp: bit_and_iff bit_or_iff bit_mask_iff bit128)
  then show ?thesis
    unfolding mask7(1) by (simp only:) (rule bit_word_eqI, auto simp: bit_simps)
qed

lemma low7_small: 
  assumes "v < 128" shows "(ucast ((ucast v :: u8) AND 127) :: u64) = v"
proof -
  have "unat v < 128" using assms by (simp add: word_less_nat_alt)
  then have t: "take_bit 7 v = v"
    by (simp only: word_unat_eq_iff unsigned_take_bit_eq) (simp add: take_bit_eq_mod)
  have "(ucast ((ucast v :: u8) AND 127) :: u64) = take_bit 7 v"
    unfolding mask7 by (rule bit_word_eqI) (auto simp: bit_simps)
  with t show ?thesis by simp
qed

lemma split7: "push_bit k (take_bit 7 v) OR push_bit (k + 7) (drop_bit 7 v) = push_bit k (v :: u64)"
proof (rule bit_word_eqI)
  fix n
  assume "n < LENGTH(64)"
  show "bit (push_bit k (take_bit 7 v) OR push_bit (k + 7) (drop_bit 7 v)) n = bit (push_bit k v) n"
  proof (cases "n < k + 7")
    case False
    then have "7 + (n - (k + 7)) = n - k" by simp
    with False show ?thesis by (auto simp: bit_simps)
  qed (auto simp: bit_simps)
qed

lemma top_bit_set: "128 \<le> v \<Longrightarrow> \<not> ((ucast v OR 128 :: u8) < 128)"
proof -
  have "bit (ucast v OR 128 :: u8) 7" by (simp add: bit_or_iff bit128)
  moreover have "\<not> bit (b :: u8) 7" if "b < 128" for b
  proof -
    have "unat b < 2 ^ 7" using that by (simp add: word_less_nat_alt)
    then have "take_bit 7 (unat b) = unat b" by (simp add: take_bit_nat_eq_self_iff)
    then have "\<not> bit (unat b) 7" by (metis bit_take_bit_iff less_irrefl)
    then show ?thesis by (simp add: bit_unsigned_iff)
  qed
  ultimately show ?thesis by blast
qed

text \<open>The shifts that are left after \<open>k\<close> bytes.\<close>

definition shifts_from :: "nat \<Rightarrow> nat list" where
  "shifts_from k = map (\<lambda>i. 7 * i) [k..<10]"

lemma shifts_from_Cons: "k < 10 \<Longrightarrow> shifts_from k = 7 * k # shifts_from (Suc k)"
  by (simp add: shifts_from_def upt_conv_Cons)

lemma var_shifts_from: "var_shifts = shifts_from 0"
  by (simp add: var_shifts_def shifts_from_def upt_rec)

lemma var_loop_bytes:
  "k < 10 \<Longrightarrow> unat v < 2 ^ (64 - 7 * k) \<Longrightarrow>
   var_loop a b (shifts_from k) acc (var_bytes v @ rest) = Inr (acc OR push_bit (7 * k) v, rest)"
proof (induction v arbitrary: k acc rule: var_bytes.induct)
  case (1 v)
  show ?case
  proof (cases "128 \<le> v")
    case True
    then have v: "128 \<le> unat v" by (simp add: word_le_nat_alt)
    have k9: "k < 9"
    proof (rule ccontr)
      assume "\<not> k < 9"
      with 1(2) have "k = 9" by simp
      with 1(3) v show False by simp
    qed
    have d: "unat (drop_bit 7 v) < 2 ^ (64 - 7 * Suc k)"
    proof -
      have "(2 :: nat) ^ (64 - 7 * k) = 2 ^ (64 - 7 * Suc k) * 2 ^ 7"
        using k9 by (simp only: power_add [symmetric]) simp
      with 1(3) show ?thesis
        by (simp only: unat_drop7) (rule less_mult_imp_div_less, simp)
    qed
    have IH: "var_loop a b (shifts_from (Suc k)) acc' (var_bytes (drop_bit 7 v) @ rest)
        = Inr (acc' OR push_bit (7 * Suc k) (drop_bit 7 v), rest)" for acc'
      by (rule 1(1) [OF True _ d]) (use k9 in simp)
    have s: "7 * Suc k = 7 * k + 7" by simp
    show ?thesis
      using True k9 top_bit_set [OF True]
      by (subst var_bytes.simps, subst shifts_from_Cons)
        (simp_all add: Let_def low7 IH s or.assoc split7 del: mult_Suc_right)
  next
    case False
    then have v: "v < 128" by simp
    have g: "\<not> (7 * k = 63 \<and> (ucast v :: u8) > 1)"
    proof
      assume a: "7 * k = 63 \<and> (ucast v :: u8) > 1"
      then have "k = 9" by simp
      with 1(3) have "unat v < 2" by simp
      then have "unat (ucast v :: u8) < 2"
        by (simp add: unsigned_ucast_eq take_bit_eq_mod)
      with a show False by (simp add: word_less_nat_alt)
    qed
    have u: "(ucast v :: u8) < 128"
      using v by (simp add: word_less_nat_alt unsigned_ucast_eq take_bit_eq_mod)
    show ?thesis
      using v g u 1(2)
      by (subst var_bytes.simps, subst shifts_from_Cons) (auto simp: Let_def low7_small)
  qed
qed

lemma pb_var_bytes: "pb_var (var_bytes v @ rest) = Inr (v, rest)"
  unfolding pb_var_def var_shifts_from
  using var_loop_bytes [of 0 v _ _ 0 rest] unsigned_less [of v] by simp

lemma meta_varint_bytes: "meta_varint (var_bytes v @ rest) = Inr (v, rest)"
  unfolding meta_varint_def var_shifts_from
  using var_loop_bytes [of 0 v _ _ 0 rest] unsigned_less [of v] by simp

section \<open>Messages\<close>

lemma bit7: "bit (7 :: int) n \<longleftrightarrow> n < 3" "bit (2 :: int) n \<longleftrightarrow> n = 1"
proof -
  have "(7 :: int) = mask 3" by (simp add: mask_eq_exp_minus_1)
  then show "bit (7 :: int) n \<longleftrightarrow> n < 3" by (simp only: bit_mask_iff) simp
  have "bit (2 ^ 1 :: int) n \<longleftrightarrow> n = 1" by (simp only: bit_exp_iff) simp
  then show "bit (2 :: int) n \<longleftrightarrow> n = 1" by (simp only: power_one_right)
qed

lemma tag_bits:
  "drop_bit 3 (push_bit 3 (ucast (f :: u32)) :: u64) = ucast f"
  "drop_bit 3 (push_bit 3 (ucast f) OR 2 :: u64) = ucast f"
  "(push_bit 3 (ucast f) :: u64) AND 7 = 0"
  "(push_bit 3 (ucast f) OR 2 :: u64) AND 7 = 2"
proof -
  have l: "bit f n \<Longrightarrow> n < 32" for n using bit_imp_le_length [of f n] by simp
  show "drop_bit 3 (push_bit 3 (ucast f) :: u64) = ucast f"
    by (rule bit_word_eqI) (auto simp: bit_simps dest: l)
  show "drop_bit 3 (push_bit 3 (ucast f) OR 2 :: u64) = ucast f"
    by (rule bit_word_eqI) (auto simp: bit_simps bit7 dest: l)
  show "(push_bit 3 (ucast f) :: u64) AND 7 = 0"
    by (rule bit_word_eqI) (simp add: bit_simps bit7)
  show "(push_bit 3 (ucast f) OR 2 :: u64) AND 7 = 2"
    by (rule bit_word_eqI) (auto simp: bit_simps bit7)
qed

lemma ucast_u32_u64: "(ucast (ucast (f :: u32) :: u64) :: u32) = f"
  "(ucast f :: u64) = 0 \<longleftrightarrow> f = 0" "(ucast f :: u64) > 0x1fffffff \<longleftrightarrow> f > 0x1fffffff"
proof -
  have u: "unat (ucast f :: u64) = unat f"
    using unat_bounds(3) [of f] by (simp add: unsigned_ucast_eq take_bit_eq_mod)
  show "(ucast (ucast f :: u64) :: u32) = f"
    by (rule bit_word_eqI) (auto simp: bit_simps)
  show "(ucast f :: u64) = 0 \<longleftrightarrow> f = 0" by (simp add: word_unat_eq_iff u)
  show "(ucast f :: u64) > 0x1fffffff \<longleftrightarrow> f > 0x1fffffff" by (simp add: word_less_nat_alt u)
qed

datatype pb_item = PNum u32 u64 | PBytes u32 "u8 list"

fun pb_put :: "pb_item \<Rightarrow> u8 list \<Rightarrow> u8 list" where
  "pb_put (PNum f v) p = pb_number f v p"
| "pb_put (PBytes f bs) p = pb_bytes f bs p"

definition pb_message :: "pb_item list \<Rightarrow> u8 list" where
  "pb_message is = fold pb_put is []"

fun pb_item_ok :: "pb_item \<Rightarrow> bool" where
  "pb_item_ok (PNum f v) = (f \<noteq> 0 \<and> f \<le> 0x1fffffff)"
| "pb_item_ok (PBytes f bs) = (f \<noteq> 0 \<and> f \<le> 0x1fffffff \<and> length bs < 2 ^ 64)"

text \<open>What the two readers keep of an item; a later item with the same number replaces an earlier one.\<close>

fun item_number :: "pb_item \<Rightarrow> (u32 \<times> u64) list \<Rightarrow> (u32 \<times> u64) list" where
  "item_number (PNum f v) fs = AList.update f v fs"
| "item_number (PBytes f bs) fs = fs"

fun item_value :: "pb_item \<Rightarrow> (u32 \<times> pb_value) list \<Rightarrow> (u32 \<times> pb_value) list" where
  "item_value (PNum f v) fs = AList.update f (Number v) fs"
| "item_value (PBytes f bs) fs = AList.update f (Bytes bs) fs"

lemma pb_put_append: "pb_put i p = p @ pb_put i []"
  by (cases i) (simp_all add: pb_number_def pb_bytes_def)

lemma pb_message_concat: "fold pb_put is p = p @ concat (map (\<lambda>i. pb_put i []) is)"
proof (induction "is" arbitrary: p)
  case (Cons i "is")
  then show ?case by (simp add: pb_put_append [of i p])
qed simp

lemma var_bytes_nonempty [simp]: "var_bytes v \<noteq> []"
  by (subst var_bytes.simps) simp

lemma pb_put_nonempty: "pb_put i [] \<noteq> []"
  by (cases i) (simp_all add: pb_number_def pb_bytes_def)

lemma unat_of_nat_u64: "n < 2 ^ 64 \<Longrightarrow> unat (of_nat n :: u64) = n"
  by (simp add: unat_of_nat)

lemma numbers_field_item:
  "pb_item_ok i \<Longrightarrow> numbers_field (pb_put i [] @ rest)
     = Inr (case i of PNum f v \<Rightarrow> (Some (f, v), rest) | PBytes f bs \<Rightarrow> (None, rest))"
  by (cases i) (auto simp: numbers_field_def pb_number_def pb_bytes_def pb_var_bytes tag_bits ucast_u32_u64
      Let_def get_range_end unat_of_nat_u64 not_less [symmetric])

lemma meta_field_item:
  "pb_item_ok i \<Longrightarrow> meta_field (pb_put i [] @ rest)
     = Inr (case i of PNum f v \<Rightarrow> ((f, Number v), rest) | PBytes f bs \<Rightarrow> ((f, Bytes bs), rest))"
  by (cases i) (auto simp: meta_field_def pb_number_def pb_bytes_def meta_varint_bytes tag_bits ucast_u32_u64
      Let_def get_range_def unat_of_nat_u64 not_less [symmetric])

lemma numbers_loop_items:
  "\<forall>i \<in> set is. pb_item_ok i \<Longrightarrow> count + length is \<le> 1024 \<Longrightarrow>
   numbers_loop count fs (concat (map (\<lambda>i. pb_put i []) is)) = Inr (fold item_number is fs)"
proof (induction "is" arbitrary: count fs)
  case Nil
  then show ?case by (simp add: numbers_loop.simps)
next
  case (Cons i "is")
  then show ?case
    by (subst numbers_loop.simps) (simp add: pb_put_nonempty numbers_field_item split: pb_item.splits)
qed

lemma meta_loop_items:
  "\<forall>i \<in> set is. pb_item_ok i \<Longrightarrow> count + length is \<le> 1024 \<Longrightarrow>
   meta_loop count fs (concat (map (\<lambda>i. pb_put i []) is)) = Inr (fold item_value is fs)"
proof (induction "is" arbitrary: count fs)
  case Nil
  then show ?case by (simp add: meta_loop.simps)
next
  case (Cons i "is")
  then show ?case
    by (subst meta_loop.simps) (simp add: pb_put_nonempty meta_field_item split: pb_item.splits)
qed

lemma numbers_message:
  "\<forall>i \<in> set is. pb_item_ok i \<Longrightarrow> length is \<le> 1024 \<Longrightarrow> numbers (pb_message is) = Inr (fold item_number is [])"
  using numbers_loop_items [of "is" 0 "[]"] by (simp add: numbers_def pb_message_def pb_message_concat)

lemma meta_message:
  "\<forall>i \<in> set is. pb_item_ok i \<Longrightarrow> length is \<le> 1024 \<Longrightarrow> length (pb_message is) \<le> 4 * 1024 * 1024 \<Longrightarrow>
   meta_fields (pb_message is) = Inr (fold item_value is [])"
  using meta_loop_items [of "is" 0 "[]"] by (simp add: meta_fields_def pb_message_def pb_message_concat)

section \<open>Properties\<close>

text \<open>The writer and both readers agree: for every message of at most 1024 fields with valid numbers
  (and at most 4 MiB for the metadata reader), \<open>numbers\<close> returns the numeric fields and skips the others,
  and \<open>fields\<close> returns numbers and byte strings, each with the last value of a repeated field.\<close>

theorem proto_round_trip:
  assumes "\<forall>i \<in> set is. pb_item_ok i" and "length is \<le> 1024" and "length (pb_message is) \<le> 4 * 1024 * 1024"
  shows "numbers (pb_message is) = Inr (fold item_number is [])
    \<and> meta_fields (pb_message is) = Inr (fold item_value is [])"
  using numbers_message [OF assms(1,2)] meta_message [OF assms] by blast

theorem proto_round_trip_witness:
  "numbers (pb_message [PNum 1 300, PBytes 2 [65], PNum 1 2]) = Inr [(1, 2)]
   \<and> meta_fields (pb_message [PNum 1 300, PBytes 2 [65], PNum 1 2]) = Inr [(1, Number 2), (2, Bytes [65])]"
proof -
  have l: "length (pb_message [PNum 1 300, PBytes 2 [65], PNum 1 2]) \<le> 4 * 1024 * 1024"
    by (simp add: pb_message_def pb_number_def pb_bytes_def var_bytes.simps)
  show ?thesis using proto_round_trip [OF _ _ l] by simp
qed

end
