(* ===== verification/Display.thy ===== *)
theory Display
  imports Ipc Proto
begin

text \<open>
  The configuration catalogue of the projection daemon (\<open>configuration.rs\<close>), the media descriptors
  (\<open>media.rs\<close>) and \<open>DisplayConfig\<close> of \<open>aa_channels.rs\<close>, all under
  \<open>native/projection/argo-projectiond/src\<close>.
\<close>

section \<open>Media descriptors\<close>

datatype video_codec = H264 | Hevc | Vp9 | Av1

fun codec_wire :: "video_codec \<Rightarrow> u8" where
  "codec_wire H264 = 0"
| "codec_wire Hevc = 1"
| "codec_wire Vp9 = 2"
| "codec_wire Av1 = 3"

fun codec_parameter :: "video_codec \<Rightarrow> u8 \<Rightarrow> bool" where
  "codec_parameter H264 nal = (nal = 7 \<or> nal = 8)"
| "codec_parameter Hevc nal = (32 \<le> nal \<and> nal \<le> 34)"
| "codec_parameter _ nal = False"

section \<open>Catalogue\<close>

definition MODES :: "(u16 \<times> u16) list" where
  "MODES = [(800, 480), (1280, 720), (1920, 1080)]"

definition FPS :: "u8 list" where
  "FPS = [30, 60]"

record audio_fmt =
  af_channel :: u8
  af_role :: u8
  af_rate :: u16
  af_bits :: u8
  af_channels :: u8
  af_pipewire_role :: "u8 list"

definition AUDIO :: "audio_fmt list" where
  "AUDIO =
     [\<lparr>af_channel = 4, af_role = 3, af_rate = 48000, af_bits = 16, af_channels = 2, af_pipewire_role = str ''Music''\<rparr>,
      \<lparr>af_channel = 5, af_role = 1, af_rate = 16000, af_bits = 16, af_channels = 1, af_pipewire_role = str ''Navigation''\<rparr>,
      \<lparr>af_channel = 6, af_role = 2, af_rate = 16000, af_bits = 16, af_channels = 1, af_pipewire_role = str ''Notification''\<rparr>]"

definition audio_format_for :: "u8 \<Rightarrow> u8 list + audio_fmt" where
  "audio_format_for channel = ok_or (str ''unsupported audio channel'') (find (\<lambda>f. af_channel f = channel) AUDIO)"

text \<open>\<open>resolve_endpoint\<close>: the explicit value, or the default below the runtime directory.\<close>

definition resolve_endpoint :: "u8 list option \<Rightarrow> u8 list option \<Rightarrow> u8 list \<Rightarrow> u8 list + u8 list" where
  "resolve_endpoint value_text runtime filename =
     (let path = (case value_text of
            Some v \<Rightarrow> v
          | None \<Rightarrow> (case runtime of Some r \<Rightarrow> r | None \<Rightarrow> str ''/run'') @ str ''/argo/'' @ filename) in
      if take 1 path \<noteq> [0x2f] \<or> str_trim path \<noteq> path \<or> 0 \<in> set path \<or> length path \<ge> 108 \<or> last path = 0x2f
      then Inl (str ''Projection socket must be an absolute nonempty Unix path under 108 bytes, without surrounding whitespace'')
      else Inr path)"

definition protocol_minor :: "u8 list option \<Rightarrow> u8 list + u16" where
  "protocol_minor v =
     (if v = None \<or> v = Some (str ''1.1'') then Inr 1
      else if v = Some (str ''1.7'') then Inr 7
      else Inl (str ''ARGO_ANDROID_AUTO_PROTOCOL_VERSION must be 1.1 or 1.7''))"

section \<open>Display\<close>

text \<open>Left, top, right, bottom.\<close>

type_synonym insets = "u16 \<times> u16 \<times> u16 \<times> u16"

record display_config =
  dc_width :: u16
  dc_height :: u16
  dc_dpi :: u16
  dc_fps :: u8
  dc_right_driver :: bool
  dc_view :: insets
  dc_safe :: insets

definition display_default :: display_config where
  "display_default = \<lparr>dc_width = 1280, dc_height = 720, dc_dpi = 160, dc_fps = 30, dc_right_driver = False,
     dc_view = (0, 0, 0, 0), dc_safe = (0, 0, 0, 0)\<rparr>"

definition content_width :: "display_config \<Rightarrow> u16" where
  "content_width d = (case dc_view d of (l, t, r, b) \<Rightarrow> dc_width d - l - r)"

definition content_height :: "display_config \<Rightarrow> u16" where
  "content_height d = (case dc_view d of (l, t, r, b) \<Rightarrow> dc_height d - t - b)"

definition pb_insets :: "insets \<Rightarrow> u8 list" where
  "pb_insets = (\<lambda>(l, t, r, b).
     pb_number 4 (ucast r) (pb_number 3 (ucast l) (pb_number 2 (ucast b) (pb_number 1 (ucast t) []))))"

definition ui_config :: "display_config \<Rightarrow> u8 list" where
  "ui_config d =
     pb_nested 3 (pb_insets (dc_safe d)) (pb_nested 2 (pb_insets (dc_safe d)) (pb_nested 1 (pb_insets (dc_view d)) []))"

text \<open>The sums are taken in 32 bits.\<close>

definition insets_fit :: "insets \<Rightarrow> u16 \<Rightarrow> u16 \<Rightarrow> bool" where
  "insets_fit = (\<lambda>(l, t, r, b) w h. (ucast l + ucast r :: u32) < ucast w \<and> (ucast t + ucast b :: u32) < ucast h)"

definition display_validate :: "display_config \<Rightarrow> u8 list + unit" where
  "display_validate d =
     (if (dc_width d, dc_height d) \<notin> set MODES \<or> dc_fps d \<notin> set FPS \<or> \<not> (80 \<le> dc_dpi d \<and> dc_dpi d \<le> 640)
      then Inl (str ''AA display requires 800x480, 1280x720 or 1920x1080, 30/60 FPS and 80..640 DPI'')
      else if \<not> insets_fit (dc_view d) (dc_width d) (dc_height d)
      then Inl (str ''View Area must leave nonempty encoded content'')
      else if \<not> insets_fit (dc_safe d) (content_width d) (content_height d)
      then Inl (str ''Safe Area must leave nonempty visible content'')
      else Inr ())"

definition bool_u8 :: "bool \<Rightarrow> u8" where
  "bool_u8 b = (if b then 1 else 0)"

definition write_insets :: "insets \<Rightarrow> u8 list \<Rightarrow> u8 list" where
  "write_insets = (\<lambda>(l, t, r, b) w. pw_u16 b (pw_u16 r (pw_u16 t (pw_u16 l w))))"

definition write_display :: "display_config \<Rightarrow> u8 list \<Rightarrow> u8 list" where
  "write_display d w =
     write_insets (dc_safe d) (write_insets (dc_view d)
       (pw_u8 (bool_u8 (dc_right_driver d)) (pw_u8 (dc_fps d) (pw_u16 (dc_dpi d) (pw_u16 (dc_height d) (pw_u16 (dc_width d) w))))))"

text \<open>Reading with \<open>?\<close>: the reader reached so far is kept.\<close>

definition bindP :: "('s \<Rightarrow> 's \<times> 'a option) \<Rightarrow> ('a \<Rightarrow> 's \<Rightarrow> 's \<times> 'b option) \<Rightarrow> 's \<Rightarrow> 's \<times> 'b option" where
  "bindP m f s = (case m s of (s', None) \<Rightarrow> (s', None) | (s', Some x) \<Rightarrow> f x s')"

lemma bindP_Some [simp]: "m s = (s', Some x) \<Longrightarrow> bindP m f s = f x s'"
  by (simp add: bindP_def)

definition read_insets :: "payload_reader \<Rightarrow> payload_reader \<times> insets option" where
  "read_insets =
     bindP pr_u16 (\<lambda>l. bindP pr_u16 (\<lambda>t. bindP pr_u16 (\<lambda>r. bindP pr_u16 (\<lambda>b s. (s, Some (l, t, r, b))))))"

definition read_display :: "payload_reader \<Rightarrow> payload_reader \<times> display_config option" where
  "read_display =
     bindP pr_u16 (\<lambda>w. bindP pr_u16 (\<lambda>h. bindP pr_u16 (\<lambda>dpi. bindP pr_u8 (\<lambda>fps. bindP pr_u8 (\<lambda>side s.
       if side > 1 then (s, None)
       else bindP read_insets (\<lambda>view. bindP read_insets (\<lambda>safe s.
         (s, Some \<lparr>dc_width = w, dc_height = h, dc_dpi = dpi, dc_fps = fps, dc_right_driver = (side = 1),
                   dc_view = view, dc_safe = safe\<rparr>))) s)))))"

text \<open>\<open>capabilities\<close> unwraps the result of writing the text: an error is a panic.\<close>

definition capabilities :: "u8 \<Rightarrow> u8 list \<Rightarrow> decode_error + ipc_message" where
  "capabilities readiness detail =
     bindr (pw_string detail (pw_u8 readiness [])) (\<lambda>w.
       let w = pw_u8 (of_nat (length MODES)) w;
           w = foldl (\<lambda>w (a, b). pw_u16 b (pw_u16 a w)) w MODES;
           w = pw_u8 (of_nat (length FPS)) w;
           w = foldl (\<lambda>w f. pw_u8 f w) w FPS;
           w = pw_u16 640 (pw_u16 80 w);
           w = write_display display_default w;
           w = pw_u8 (of_nat (length AUDIO)) w;
           w = foldl (\<lambda>w (role, f). pw_u8 (af_channels f) (pw_u8 (af_bits f) (pw_u16 (af_rate f) (pw_u8 (of_nat role) w))))
                 w (zip [0..<length AUDIO] AUDIO) in
       Inr \<lparr>im_kind = 9, im_payload = w\<rparr>)"

section \<open>Lemmas\<close>

lemma read_insets_at:
  "read_insets (reader_at before (write_insets i [] @ rest)) = (reader_at (before @ write_insets i []) rest, Some i)"
proof -
  obtain l t r b where i: "i = (l, t, r, b)" by (cases i)
  have w: "write_insets i [] @ rest = to_be16 l @ to_be16 t @ to_be16 r @ to_be16 b @ rest"
    by (simp add: i write_insets_def pw_u16_def)
  have w': "before @ write_insets i [] = (((before @ to_be16 l) @ to_be16 t) @ to_be16 r) @ to_be16 b"
    by (simp add: i write_insets_def pw_u16_def)
  show ?thesis
    unfolding w w' read_insets_def by (simp add: reader_at_u16 i del: append_assoc)
qed

lemma write_insets_append: "write_insets i w = w @ write_insets i []"
  by (cases i) (simp add: write_insets_def pw_u16_def)

lemma write_display_append: "write_display d w = w @ write_display d []"
  by (simp add: write_display_def pw_u16_def pw_u8_def write_insets_append [of "dc_safe d" "_ @ _"]
      write_insets_append [of "dc_view d" "_ @ _"])

lemma read_display_at:
  "read_display (reader_at before (write_display d [] @ rest)) = (reader_at (before @ write_display d []) rest, Some d)"
proof -
  have w: "write_display d [] @ rest = to_be16 (dc_width d) @ to_be16 (dc_height d) @ to_be16 (dc_dpi d)
      @ dc_fps d # bool_u8 (dc_right_driver d) # write_insets (dc_view d) [] @ write_insets (dc_safe d) [] @ rest"
    by (simp add: write_display_def pw_u16_def pw_u8_def write_insets_append [of "dc_safe d" "_ @ _"]
        write_insets_append [of "dc_view d" "_ @ _"])
  have w': "before @ write_display d [] = ((((((before @ to_be16 (dc_width d)) @ to_be16 (dc_height d)) @ to_be16 (dc_dpi d))
      @ [dc_fps d]) @ [bool_u8 (dc_right_driver d)]) @ write_insets (dc_view d) []) @ write_insets (dc_safe d) []"
    by (simp add: write_display_def pw_u16_def pw_u8_def write_insets_append [of "dc_safe d" "_ @ _"]
        write_insets_append [of "dc_view d" "_ @ _"])
  have s: "\<not> bool_u8 (dc_right_driver d) > 1" "(bool_u8 (dc_right_driver d) = 1) = dc_right_driver d"
    by (simp_all add: bool_u8_def)
  show ?thesis
    unfolding w w' read_display_def
    by (simp add: reader_at_u16 reader_at_u8 read_insets_at s del: append_assoc)
qed

lemma content_no_wrap:
  assumes "insets_fit (dc_view d) (dc_width d) (dc_height d)"
  shows "case dc_view d of (l, t, r, b) \<Rightarrow>
    unat (content_width d) + unat l + unat r = unat (dc_width d)
    \<and> unat (content_height d) + unat t + unat b = unat (dc_height d)
    \<and> 0 < content_width d \<and> 0 < content_height d"
proof -
  obtain l t r b where v: "dc_view d = (l, t, r, b)" by (cases "dc_view d")
  have u: "unat (ucast x + ucast y :: u32) = unat x + unat y" for x y :: u16
    using unat_bounds(2) [of x] unat_bounds(2) [of y]
    by (simp add: unat_word_ariths unsigned_ucast_eq take_bit_eq_mod)
  have c: "unat (ucast x :: u32) = unat x" for x :: u16
    using unat_bounds(2) [of x] by (simp add: unsigned_ucast_eq take_bit_eq_mod)
  have sub: "unat (w - x - y) = unat w - unat x - unat y \<and> 0 < w - x - y" if "unat x + unat y < unat w" for w x y :: u16
  proof -
    from that have "x \<le> w" by (simp add: word_le_nat_alt)
    then have 1: "unat (w - x) = unat w - unat x" by (rule unat_sub)
    with that have "y \<le> w - x" by (simp add: word_le_nat_alt)
    then have 2: "unat (w - x - y) = unat (w - x) - unat y" by (rule unat_sub)
    with 1 that show ?thesis by (simp add: word_less_nat_alt)
  qed
  from assms have f: "unat l + unat r < unat (dc_width d)" "unat t + unat b < unat (dc_height d)"
    by (simp_all add: insets_fit_def v word_less_nat_alt u c)
  with sub [OF f(1)] sub [OF f(2)] show ?thesis
    by (auto simp: v content_width_def content_height_def)
qed

section \<open>Properties\<close>

text \<open>A display configuration survives the control channel unchanged, at any position of a payload, and
  a validated one leaves a visible area: the 16-bit subtractions of the content size never wrap, and the
  content and the part of it inside the safe area are not empty.\<close>

theorem display_config_sound:
  "read_display (reader_at before (write_display d [] @ rest)) = (reader_at (before @ write_display d []) rest, Some d)
   \<and> (display_validate d = Inr () \<longrightarrow>
       (case dc_view d of (l, t, r, b) \<Rightarrow>
         unat (content_width d) + unat l + unat r = unat (dc_width d)
         \<and> unat (content_height d) + unat t + unat b = unat (dc_height d)
         \<and> 0 < content_width d \<and> 0 < content_height d)
       \<and> insets_fit (dc_safe d) (content_width d) (content_height d))"
  using read_display_at [of before d rest] content_no_wrap [of d]
  by (auto simp: display_validate_def split: if_splits)

theorem display_config_sound_witness:
  "display_validate display_default = Inr () \<and> 0 < content_width display_default"
proof -
  have "display_validate display_default = Inr ()"
    by (simp add: display_validate_def display_default_def MODES_def FPS_def insets_fit_def content_width_def content_height_def)
  with display_config_sound [of "[]" display_default "[]"] show ?thesis
    by (auto split: prod.splits)
qed

end
