(* ===== verification/Playback.thy ===== *)
theory Playback
  imports Display
begin

text \<open>
  The native video feed (\<open>native/projection/argo-projectiond/src/native_playback.rs\<close>): cutting a video buffer
  into its units, and the cache of codec parameters that is replayed to every view that attaches. The socket
  and the queue are events: a view attaches (and takes the replay or not), a packet is taken from the queue
  (and the attached view takes it or not).
\<close>

section \<open>Units\<close>

definition nal_type :: "u8 list \<Rightarrow> video_codec \<Rightarrow> u8 option" where
  "nal_type bytes codec =
     (let offset = (if take 4 bytes = [0, 0, 0, 1] then Some 4 else if take 3 bytes = [0, 0, 1] then Some 3 else None) in
      Option.bind offset (\<lambda>offset. map_option
        (\<lambda>b. if codec = Hevc then drop_bit 1 b AND 63 else b AND 31) (get_at bytes offset)))"

definition start_code :: "u8 list \<Rightarrow> nat" where
  "start_code bytes = (if take 4 bytes = [0, 0, 0, 1] then 4 else if take 3 bytes = [0, 0, 1] then 3 else 0)"

function nal_starts :: "u8 list \<Rightarrow> nat \<Rightarrow> nat list" where
  "nal_starts bytes i =
     (if i + 3 < length bytes then
        (if start_code (drop i bytes) = 0 then nal_starts bytes (i + 1)
         else i # nal_starts bytes (i + start_code (drop i bytes)))
      else [])"
  by pat_completeness auto
termination by (relation "measure (\<lambda>(bytes, i). length bytes - i)") auto

declare nal_starts.simps [simp del]

fun cut_units :: "u8 list \<Rightarrow> nat list \<Rightarrow> u8 list list" where
  "cut_units bytes [] = []"
| "cut_units bytes [s] = [drop s bytes]"
| "cut_units bytes (s # s' # ss) = take (s' - s) (drop s bytes) # cut_units bytes (s' # ss)"

definition annex_b_units :: "u8 list \<Rightarrow> video_codec \<Rightarrow> (u8 \<times> u8 list) list" where
  "annex_b_units bytes codec =
     List.map_filter (\<lambda>nal. map_option (\<lambda>t. (t, nal)) (nal_type nal codec)) (cut_units bytes (nal_starts bytes 0))"

section \<open>Feed\<close>

record video_feed =
  fd_parameters :: "u8 list list"
  fd_codec :: video_codec
  fd_client :: bool

definition feed_new :: video_feed where
  "feed_new = \<lparr>fd_parameters = [], fd_codec = H264, fd_client = False\<rparr>"

text \<open>The order of \<open>Option<u8>\<close>.\<close>

definition nal_key :: "video_codec \<Rightarrow> u8 list \<Rightarrow> nat" where
  "nal_key codec p = (case nal_type p codec of None \<Rightarrow> 0 | Some t \<Rightarrow> Suc (unat t))"

definition feed_parameter :: "video_codec \<Rightarrow> u8 \<times> u8 list \<Rightarrow> u8 list list \<Rightarrow> u8 list list" where
  "feed_parameter codec = (\<lambda>(t, nal) ps.
     if codec_parameter codec t \<and> length nal \<le> 64 * 1024
     then sort_key (nal_key codec) (filter (\<lambda>old. nal_type old codec \<noteq> Some t) ps @ [nal])
     else ps)"

datatype feed_event = Attach bool | Codec video_codec | Packet "u8 list" bool

text \<open>The output is what is written to a view.\<close>

fun feed_step :: "video_feed \<Rightarrow> feed_event \<Rightarrow> video_feed \<times> u8 list" where
  "feed_step f (Attach healthy) =
     (if healthy then (f\<lparr>fd_client := True\<rparr>, concat (fd_parameters f)) else (f, []))"
| "feed_step f (Codec selected) =
     (if fd_codec f \<noteq> selected then f\<lparr>fd_parameters := [], fd_codec := selected\<rparr> else f, [])"
| "feed_step f (Packet bytes written) =
     (let f = f\<lparr>fd_parameters := fold (feed_parameter (fd_codec f)) (annex_b_units bytes (fd_codec f)) (fd_parameters f)\<rparr> in
      if fd_client f then (f\<lparr>fd_client := written\<rparr>, if written then bytes else []) else (f, []))"

section \<open>Lemmas\<close>

definition cached :: "video_codec \<Rightarrow> u8 list list \<Rightarrow> u8 \<Rightarrow> u8 list option" where
  "cached codec ps t = find (\<lambda>p. nal_type p codec = Some t) ps"

definition cache_ok :: "video_codec \<Rightarrow> u8 list list \<Rightarrow> bool" where
  "cache_ok codec ps \<longleftrightarrow>
     sorted_wrt (<) (map (nal_key codec) ps)
     \<and> (\<forall>p \<in> set ps. length p \<le> 64 * 1024 \<and> (\<exists>t. nal_type p codec = Some t \<and> codec_parameter codec t))"

lemma annex_b_unit_type: "(t, nal) \<in> set (annex_b_units bytes codec) \<Longrightarrow> nal_type nal codec = Some t"
  by (auto simp: annex_b_units_def List.map_filter_def)

lemma nal_key_eq: "nal_type p codec = Some t \<Longrightarrow> nal_key codec p = Suc (unat t)"
  by (simp add: nal_key_def)

lemma nal_key_inj: "nal_key codec p = nal_key codec q \<Longrightarrow> nal_type p codec = nal_type q codec"
  by (auto simp: nal_key_def word_unat_eq_iff split: option.splits)

lemma sorted_distinct_strict: "sorted xs \<Longrightarrow> distinct xs \<Longrightarrow> sorted_wrt (<) (xs :: nat list)"
  by (induction xs) (auto simp: le_less)

lemma feed_parameter_ok:
  assumes "cache_ok codec ps" and "nal_type nal codec = Some t"
  shows "cache_ok codec (feed_parameter codec (t, nal) ps)"
proof (cases "codec_parameter codec t \<and> length nal \<le> 64 * 1024")
  case True
  let ?q = "filter (\<lambda>old. nal_type old codec \<noteq> Some t) ps @ [nal]"
  have "sorted_wrt (<) (map (nal_key codec) ps)" using assms(1) by (simp add: cache_ok_def)
  then have d: "distinct (map (nal_key codec) ps)" by (rule strict_sorted_iff [THEN iffD1, THEN conjunct2])
  have "nal_key codec nal \<notin> nal_key codec ` set (filter (\<lambda>old. nal_type old codec \<noteq> Some t) ps)"
    using assms(2) by (auto dest!: nal_key_inj)
  then have "distinct (map (nal_key codec) ?q)" using distinct_map_filter [OF d] by simp
  then have "distinct (map (nal_key codec) (sort_key (nal_key codec) ?q))"
    unfolding distinct_map set_sort distinct_sort .
  then have "sorted_wrt (<) (map (nal_key codec) (sort_key (nal_key codec) ?q))"
    by (intro sorted_distinct_strict) simp_all
  moreover have "\<forall>p \<in> set ?q. length p \<le> 64 * 1024 \<and> (\<exists>t. nal_type p codec = Some t \<and> codec_parameter codec t)"
    using assms True by (auto simp: cache_ok_def)
  ultimately show ?thesis using True by (simp add: feed_parameter_def cache_ok_def)
qed (use assms(1) in \<open>auto simp: feed_parameter_def\<close>)

text \<open>With different types the cache is a map from types to units.\<close>

lemma cached_iff:
  assumes "cache_ok codec ps"
  shows "cached codec ps t = Some p \<longleftrightarrow> p \<in> set ps \<and> nal_type p codec = Some t"
proof -
  have d: "distinct (map (nal_key codec) ps)"
    using assms by (auto simp: cache_ok_def strict_sorted_iff)
  have u: "p = q" if "p \<in> set ps" "q \<in> set ps" "nal_type p codec = nal_type q codec" for p q
  proof -
    have "nal_key codec p = nal_key codec q" using that(3) by (simp add: nal_key_def)
    with d that(1,2) show ?thesis by (auto simp: distinct_map dest: inj_onD)
  qed
  show ?thesis
  proof
    assume "cached codec ps t = Some p"
    then show "p \<in> set ps \<and> nal_type p codec = Some t" by (auto simp: cached_def find_Some_iff)
  next
    assume p: "p \<in> set ps \<and> nal_type p codec = Some t"
    then have "cached codec ps t \<noteq> None" by (auto simp: cached_def find_None_iff)
    then obtain q where q: "cached codec ps t = Some q" by auto
    then have "q \<in> set ps \<and> nal_type q codec = Some t" by (auto simp: cached_def find_Some_iff)
    with u p q show "cached codec ps t = Some p" by metis
  qed
qed

lemma cached_feed:
  assumes "cache_ok codec ps" and "nal_type nal codec = Some t"
  shows "cached codec (feed_parameter codec (t, nal) ps) t' =
    (if t' = t \<and> codec_parameter codec t \<and> length nal \<le> 64 * 1024 then Some nal else cached codec ps t')"
proof (cases "codec_parameter codec t \<and> length nal \<le> 64 * 1024")
  case True
  let ?n = "feed_parameter codec (t, nal) ps"
  have s: "set ?n = insert nal {p \<in> set ps. nal_type p codec \<noteq> Some t}"
    using True by (auto simp: feed_parameter_def)
  note c = cached_iff [OF feed_parameter_ok [OF assms]] cached_iff [OF assms(1)]
  have "cached codec ?n t' = Some p \<longleftrightarrow> (if t' = t then Some nal else cached codec ps t') = Some p" for p
    using assms(2) by (auto simp: c s)
  then show ?thesis using True by (metis option.exhaust)
qed (auto simp: feed_parameter_def)

lemma cache_ok_Nil: "cache_ok codec []"
  by (simp add: cache_ok_def)

lemma cache_length:
  assumes "cache_ok codec ps"
  shows "length ps \<le> 3"
proof -
  have d: "distinct (map (nal_key codec) ps)" using assms by (auto simp: cache_ok_def strict_sorted_iff)
  let ?K = "if codec = Hevc then {33, 34, 35} else {8, 9 :: nat}"
  have "nal_key codec p \<in> ?K" if "p \<in> set ps" for p
  proof -
    from that assms obtain t where t: "nal_type p codec = Some t" "codec_parameter codec t" by (auto simp: cache_ok_def)
    then have "unat t \<in> (if codec = Hevc then {32, 33, 34} else {7, 8 :: nat})"
      by (cases codec) (auto simp: word_le_nat_alt)
    with t(1) show ?thesis by (auto simp: nal_key_eq split: if_splits)
  qed
  then have "nal_key codec ` set ps \<subseteq> ?K" by blast
  then have "card (nal_key codec ` set ps) \<le> card ?K" by (intro card_mono) auto
  also have "\<dots> \<le> 3" by simp
  finally show ?thesis using d by (simp add: distinct_card [symmetric] flip: set_map) (metis distinct_card length_map list.set_map)
qed

text \<open>What the cache stands for: the last unit of every parameter type since the codec was chosen.\<close>

definition note_unit :: "video_codec \<Rightarrow> u8 \<times> u8 list \<Rightarrow> (u8 \<rightharpoonup> u8 list) \<Rightarrow> (u8 \<rightharpoonup> u8 list)" where
  "note_unit codec = (\<lambda>(t, nal) m. if codec_parameter codec t \<and> length nal \<le> 64 * 1024 then m(t \<mapsto> nal) else m)"

fun latest :: "feed_event \<Rightarrow> video_codec \<times> (u8 \<rightharpoonup> u8 list) \<Rightarrow> video_codec \<times> (u8 \<rightharpoonup> u8 list)" where
  "latest (Attach healthy) (codec, m) = (codec, m)"
| "latest (Codec selected) (codec, m) = (selected, if codec \<noteq> selected then Map.empty else m)"
| "latest (Packet bytes written) (codec, m) = (codec, fold (note_unit codec) (annex_b_units bytes codec) m)"

lemma fold_units:
  assumes "cache_ok codec ps" and "\<forall>(t, nal) \<in> set us. nal_type nal codec = Some t"
  shows "cache_ok codec (fold (feed_parameter codec) us ps)
    \<and> cached codec (fold (feed_parameter codec) us ps) = fold (note_unit codec) us (cached codec ps)"
  using assms
proof (induction us arbitrary: ps)
  case (Cons u us)
  obtain t nal where u: "u = (t, nal)" by (cases u)
  with Cons.prems have n: "nal_type nal codec = Some t" by simp
  have "cached codec (feed_parameter codec u ps) = note_unit codec u (cached codec ps)"
    unfolding u by (rule ext) (simp add: cached_feed [OF Cons.prems(1) n] note_unit_def)
  with Cons.IH [OF feed_parameter_ok [OF Cons.prems(1) n]] Cons.prems(2) show ?case by (simp add: u)
qed simp

lemma feed_step_latest:
  assumes "cache_ok (fd_codec f) (fd_parameters f)"
  shows "cache_ok (fd_codec (fst (feed_step f e))) (fd_parameters (fst (feed_step f e)))
    \<and> (fd_codec (fst (feed_step f e)), cached (fd_codec (fst (feed_step f e))) (fd_parameters (fst (feed_step f e))))
      = latest e (fd_codec f, cached (fd_codec f) (fd_parameters f))"
proof (cases e)
  case (Packet bytes written)
  have "\<forall>(t, nal) \<in> set (annex_b_units bytes (fd_codec f)). nal_type nal (fd_codec f) = Some t"
    using annex_b_unit_type by blast
  from fold_units [OF assms this] show ?thesis by (simp add: Packet Let_def)
next
  case (Codec selected)
  with assms show ?thesis by (auto simp: cache_ok_Nil cached_def)
qed (use assms in simp)

lemma feed_run_latest:
  assumes "cache_ok (fd_codec f) (fd_parameters f)"
  shows "cache_ok (fd_codec (fst (run_machine feed_step f es))) (fd_parameters (fst (run_machine feed_step f es)))
    \<and> (fd_codec (fst (run_machine feed_step f es)),
       cached (fd_codec (fst (run_machine feed_step f es))) (fd_parameters (fst (run_machine feed_step f es))))
      = fold latest es (fd_codec f, cached (fd_codec f) (fd_parameters f))"
  using assms
proof (induction es arbitrary: f)
  case (Cons e es)
  from feed_step_latest [OF Cons.prems, of e] Cons.IH [of "fst (feed_step f e)"] show ?case
    by (simp add: run_machine_Cons del: run_machine.simps(2))
qed simp

interpretation feed_machine: safe_machine feed_step "\<lambda>f. cache_ok (fd_codec f) (fd_parameters f)"
  by unfold_locales (simp add: feed_step_latest)

section \<open>Properties\<close>

text \<open>A view that attaches at any time can decode from there: whatever the phone sent and however views come
  and go, the replay a view receives consists of exactly the last unit of each parameter type of the current
  codec, in the order of the types, at most three units of at most 64 KiB, and none of another codec.\<close>

theorem video_replay_latest:
  "case fold latest es (H264, Map.empty) of (codec, m) \<Rightarrow>
     \<exists>ps. snd (feed_step (fst (run_machine feed_step feed_new es)) (Attach True)) = concat ps
       \<and> fd_codec (fst (run_machine feed_step feed_new es)) = codec \<and> cache_ok codec ps \<and> length ps \<le> 3
       \<and> (\<forall>t p. m t = Some p \<longleftrightarrow> p \<in> set ps \<and> nal_type p codec = Some t)"
proof -
  have c: "cache_ok (fd_codec feed_new) (fd_parameters feed_new)" by (simp add: feed_new_def cache_ok_Nil)
  have n: "cached (fd_codec feed_new) (fd_parameters feed_new) = Map.empty" by (rule ext) (simp add: feed_new_def cached_def)
  let ?f = "fst (run_machine feed_step feed_new es)"
  have r: "cache_ok (fd_codec ?f) (fd_parameters ?f)"
    "(fd_codec ?f, cached (fd_codec ?f) (fd_parameters ?f)) = fold latest es (H264, Map.empty)"
    using feed_run_latest [OF c, of es] unfolding n by (simp_all add: feed_new_def)
  show ?thesis
    unfolding r(2) [symmetric]
    using r(1) cache_length [OF r(1)] cached_iff [OF r(1)] by (auto intro!: exI [of _ "fd_parameters ?f"])
qed

theorem video_replay_latest_witness:
  "snd (feed_step (fst (run_machine feed_step feed_new [Packet [0, 0, 1, 0x67, 1, 0, 0, 1, 0x68, 2] True])) (Attach True))
     = [0, 0, 1, 0x67, 1, 0, 0, 1, 0x68, 2]
   \<and> (\<exists>ps. cache_ok H264 ps \<and> concat ps = [0, 0, 1, 0x67, 1, 0, 0, 1, 0x68, 2])"
proof -
  let ?es = "[Packet [0, 0, 1, 0x67, 1, 0, 0, 1, 0x68, 2] True]"
  have e: "snd (feed_step (fst (run_machine feed_step feed_new ?es)) (Attach True)) = [0, 0, 1, 0x67, 1, 0, 0, 1, 0x68, 2]"
    by (simp add: feed_new_def annex_b_units_def nal_starts.simps start_code_def nal_type_def get_at_def
        List.map_filter_def feed_parameter_def nal_key_def Let_def)
  have "fst (fold latest ?es (H264, Map.empty)) = H264" by simp
  with video_replay_latest [of ?es] e show ?thesis by (auto split: prod.splits)
qed

end
