(* ===== verification/Aa_Wire.thy ===== *)
theory Aa_Wire
  imports Text Assoc
begin

text \<open>
  Android Auto framing after the version exchange
  (\<open>native/projection/argo-projectiond/src/aa_wire.rs\<close>): the packet decoder, the reassembly of
  fragments per channel, and the framing of outgoing TLS records. Error texts are the bytes of the
  source's strings.
\<close>

section \<open>Packets\<close>

definition MAX_MESSAGE_AA :: nat where [consts_simps]: "MAX_MESSAGE_AA = 4 * 1024 * 1024"

record aa_packet =
  ap_channel :: u8
  ap_flags :: u8
  ap_bytes :: "u8 list"

definition aa_header :: "u8 \<Rightarrow> nat" where
  "aa_header fl = (if fl AND 3 = 1 then 8 else 4)"

definition aa_parse :: "u8 list \<Rightarrow> u8 list + (aa_packet \<times> nat) option" where
  "aa_parse buf =
     (if length buf < 4 then Inr None
      else
        let fl = buf ! 1 in
        if fl AND NOT 0x0f \<noteq> 0 then Inl (str ''unknown AA frame flags'')
        else
          let len = unat (from_be16 (buf ! 2) (buf ! 3)) in
          if len = 0 then Inl (str ''empty AA frame'')
          else
            let header = aa_header fl in
            if length buf < header then Inr None
            else if header = 8 \<and>
                (let total = unat (from_be32 (buf ! 4) (buf ! 5) (buf ! 6) (buf ! 7)) in
                 total = 0 \<or> total > MAX_MESSAGE_AA) then Inl (str ''AA fragment declaration limit'')
            else if length buf < header + len then Inr None
            else Inr (Some (\<lparr>ap_channel = buf ! 0, ap_flags = fl, ap_bytes = take len (drop header buf)\<rparr>,
                   header + len)))"

definition aa_push :: "u8 list \<Rightarrow> u8 list \<Rightarrow> u8 list + u8 list" where
  "aa_push buf bytes =
     (if length buf + length bytes > 128 * 1024 then Inl (str ''AA receive buffer limit'') else Inr (buf @ bytes))"

definition aa_packet_next :: "u8 list \<Rightarrow> u8 list \<times> (u8 list + aa_packet option)" where
  "aa_packet_next buf =
     (case aa_parse buf of
        Inl e \<Rightarrow> (buf, Inl e)
      | Inr None \<Rightarrow> (buf, Inr None)
      | Inr (Some (p, n)) \<Rightarrow> (drop n buf, Inr (Some p)))"

definition aa_disconnect :: "u8 list \<Rightarrow> u8 list + unit" where
  "aa_disconnect buf = (if buf = [] then Inr () else Inl (str ''AA disconnected mid-frame''))"

lemma aa_parse_Some:
  "aa_parse bs = Inr (Some (p, n)) \<longleftrightarrow> 4 \<le> length bs \<and> aa_header (bs ! 1) \<le> length bs
     \<and> bs ! 1 AND NOT 0x0f = 0 \<and> unat (from_be16 (bs ! 2) (bs ! 3)) \<noteq> 0
     \<and> (aa_header (bs ! 1) = 8 \<longrightarrow> unat (from_be32 (bs ! 4) (bs ! 5) (bs ! 6) (bs ! 7)) \<noteq> 0
          \<and> unat (from_be32 (bs ! 4) (bs ! 5) (bs ! 6) (bs ! 7)) \<le> MAX_MESSAGE_AA)
     \<and> n = aa_header (bs ! 1) + unat (from_be16 (bs ! 2) (bs ! 3)) \<and> n \<le> length bs
     \<and> p = \<lparr>ap_channel = bs ! 0, ap_flags = bs ! 1,
            ap_bytes = take (n - aa_header (bs ! 1)) (drop (aa_header (bs ! 1)) bs)\<rparr>"
  by (auto simp: aa_parse_def Let_def not_less)

lemma aa_parse_Inl:
  "aa_parse bs = Inl e \<longleftrightarrow> 4 \<le> length bs \<and>
     (bs ! 1 AND NOT 0x0f \<noteq> 0 \<and> e = str ''unknown AA frame flags''
      \<or> bs ! 1 AND NOT 0x0f = 0 \<and> unat (from_be16 (bs ! 2) (bs ! 3)) = 0 \<and> e = str ''empty AA frame''
      \<or> bs ! 1 AND NOT 0x0f = 0 \<and> unat (from_be16 (bs ! 2) (bs ! 3)) \<noteq> 0
        \<and> aa_header (bs ! 1) = 8 \<and> 8 \<le> length bs
        \<and> (unat (from_be32 (bs ! 4) (bs ! 5) (bs ! 6) (bs ! 7)) = 0
           \<or> unat (from_be32 (bs ! 4) (bs ! 5) (bs ! 6) (bs ! 7)) > MAX_MESSAGE_AA)
        \<and> e = str ''AA fragment declaration limit'')"
  by (auto simp: aa_parse_def Let_def not_less not_le)

lemma aa_prefix4:
  "4 \<le> length bs \<Longrightarrow> (bs @ ys) ! 0 = bs ! 0 \<and> (bs @ ys) ! 1 = bs ! 1 \<and> (bs @ ys) ! 2 = bs ! 2 \<and> (bs @ ys) ! 3 = bs ! 3"
  by (auto simp: nth_append)

lemma aa_prefix8:
  "8 \<le> length bs \<Longrightarrow> (bs @ ys) ! 4 = bs ! 4 \<and> (bs @ ys) ! 5 = bs ! 5 \<and> (bs @ ys) ! 6 = bs ! 6 \<and> (bs @ ys) ! 7 = bs ! 7"
  by (auto simp: nth_append)

lemma aa_header_cases: "aa_header fl = 4 \<or> aa_header fl = 8"
  by (simp add: aa_header_def)

interpretation aa_stream: stream_framer aa_parse
proof unfold_locales
  fix bs ys m n
  show "aa_parse bs = Inr (Some (m, n)) \<Longrightarrow> 0 < n \<and> n \<le> length bs"
    by (auto simp: aa_parse_Some)
  assume a: "aa_parse bs = Inr (Some (m, n))"
  then have 4: "4 \<le> length bs" and 8: "aa_header (bs ! 1) = 8 \<longrightarrow> 8 \<le> length bs" by (auto simp: aa_parse_Some)
  from a 8 aa_prefix4 [OF 4, of ys] aa_prefix8 [of bs ys] show "aa_parse (bs @ ys) = Inr (Some (m, n))"
    unfolding aa_parse_Some by auto
next
  fix bs ys e
  assume a: "aa_parse bs = Inl e"
  then have 4: "4 \<le> length bs" by (simp add: aa_parse_Inl)
  from a aa_prefix4 [OF 4, of ys] aa_prefix8 [of bs ys] show "aa_parse (bs @ ys) = Inl e"
    unfolding aa_parse_Inl by auto
qed

section \<open>Reassembly\<close>

type_synonym fragments = "(u8 \<times> (u8 \<times> u8 list)) list"

definition fragment_total :: "fragments \<Rightarrow> nat" where
  "fragment_total fs = sum_list (map (\<lambda>(_, _, b). length b) fs)"

text \<open>The part of \<open>accept\<close> after a first fragment was registered.\<close>

definition fragment_extend ::
  "u8 \<Rightarrow> u8 \<Rightarrow> u8 list \<Rightarrow> fragments \<Rightarrow> fragments \<times> (u8 list + u8 list option)" where
  "fragment_extend channel fl bytes fs =
     (if fragment_total fs + length bytes > MAX_MESSAGE_AA then (fs, Inl (str ''AA reassembly limit''))
      else case map_of fs channel of
        None \<Rightarrow> (fs, Inl (str ''AA continuation without first fragment''))
      | Some (original, data) \<Rightarrow>
          if original \<noteq> fl AND 0x0c then (fs, Inl (str ''AA fragment flags changed''))
          else if fl AND 2 \<noteq> 0 then (AList.delete channel fs, Inr (Some (data @ bytes)))
          else (AList.update channel (original, data @ bytes) fs, Inr None))"

definition aa_accept ::
  "fragments \<Rightarrow> u8 \<times> u8 \<times> u8 list \<Rightarrow> fragments \<times> (u8 list + u8 list option)" where
  "aa_accept fs p = (case p of (channel, fl, bytes) \<Rightarrow>
     (if fl AND 1 \<noteq> 0 then
        (if map_of fs channel \<noteq> None then (fs, Inl (str ''AA fragment overwritten''))
         else if fl AND 2 \<noteq> 0 then (fs, Inr (Some bytes))
         else if length fs \<ge> 16 then (fs, Inl (str ''too many AA fragment channels''))
         else fragment_extend channel fl bytes (AList.update channel (fl AND 0x0c, []) fs))
      else fragment_extend channel fl bytes fs))"

section \<open>Outgoing frames\<close>

definition aa_frame :: "u8 \<Rightarrow> u8 \<Rightarrow> u8 list \<Rightarrow> u8 list + u8 list" where
  "aa_frame channel fl payload =
     (if payload = [] \<or> length payload > 65535 then Inl (str ''AA outbound frame limit'')
      else Inr ([channel, fl] @ to_be16 (of_nat (length payload)) @ payload))"

text \<open>The TLS records of the ciphertext.\<close>

function tls_records :: "u8 list \<Rightarrow> u8 list + u8 list list" where
  "tls_records rs =
     (if rs = [] then Inr []
      else if length rs < 5 then Inl (str ''short outbound TLS header'')
      else
        let len = 5 + unat (from_be16 (rs ! 3) (rs ! 4)) in
        if len > length rs then Inl (str ''short outbound TLS record'')
        else bindr (tls_records (drop len rs)) (\<lambda>ps. Inr (take len rs # ps)))"
  by pat_completeness auto
termination by (relation "measure length") auto

declare tls_records.simps [simp del]

definition aa_out_flags :: "bool \<Rightarrow> bool \<Rightarrow> bool \<Rightarrow> u8" where
  "aa_out_flags control first final =
     8 OR (if control then 4 else 0) OR (if first then 1 else 0) OR (if final then 2 else 0)"

text \<open>The frames of the records; the first of several carries the total length behind its header.\<close>

definition aa_out_packet :: "u8 \<Rightarrow> u8 \<Rightarrow> nat \<Rightarrow> u8 list \<Rightarrow> u8 list + u8 list" where
  "aa_out_packet channel fl whole bytes =
     bindr (aa_frame channel fl bytes) (\<lambda>p.
       Inr (if fl AND 3 = 1 then take 4 p @ to_be32 (of_nat whole) @ drop 4 p else p))"

fun aa_out_loop :: "u8 \<Rightarrow> bool \<Rightarrow> nat \<Rightarrow> bool \<Rightarrow> u8 list list \<Rightarrow> u8 list + u8 list" where
  "aa_out_loop channel control whole first [] = Inr []"
| "aa_out_loop channel control whole first (p # ps) =
     bindr (aa_out_packet channel (aa_out_flags control first (ps = [])) whole p) (\<lambda>packet.
     bindr (aa_out_loop channel control whole False ps) (\<lambda>wire. Inr (packet @ wire)))"

definition encrypted_frames :: "u8 \<Rightarrow> bool \<Rightarrow> u8 list \<Rightarrow> u8 list + u8 list" where
  "encrypted_frames channel control records =
     bindr (tls_records records) (\<lambda>pieces. aa_out_loop channel control (length records) True pieces)"

section \<open>Outgoing frames arrive\<close>

lemma tls_records_parts:
  "tls_records rs = Inr ps \<Longrightarrow> concat ps = rs \<and> (\<forall>p \<in> set ps. p \<noteq> []) \<and> (rs \<noteq> [] \<longrightarrow> ps \<noteq> [])"
proof (induction rs arbitrary: ps rule: tls_records.induct)
  case (1 rs)
  show ?case
  proof (cases "rs = []")
    case True
    with 1(2) show ?thesis by (simp add: tls_records.simps)
  next
    case False
    let ?n = "5 + unat (from_be16 (rs ! 3) (rs ! 4))"
    from False 1(2) obtain qs where l: "\<not> length rs < 5" "\<not> ?n > length rs"
      and q: "tls_records (drop ?n rs) = Inr qs" and ps: "ps = take ?n rs # qs"
      by (subst (asm) (2) tls_records.simps) (auto simp: Let_def split: if_splits)
    from 1(1) [OF False l(1) refl l(2) q] ps False show ?thesis by auto
  qed
qed

lemma aa_out_flags_bits:
  "aa_out_flags c f l AND NOT 0x0f = 0" "aa_out_flags c f l AND 0x0c = (if c then 12 else 8)"
  "aa_out_flags c f l AND 1 \<noteq> 0 \<longleftrightarrow> f" "aa_out_flags c f l AND 2 \<noteq> 0 \<longleftrightarrow> l"
  "aa_out_flags c f l AND 3 = 1 \<longleftrightarrow> f \<and> \<not> l"
  by (cases c; cases f; cases l; simp add: aa_out_flags_def)+

lemma aa_out_packet_parse:
  assumes "aa_out_packet ch fl whole p = Inr wire" and "fl AND NOT 0x0f = 0"
    and "0 < whole" and "whole \<le> MAX_MESSAGE_AA"
  shows "aa_parse wire = Inr (Some (\<lparr>ap_channel = ch, ap_flags = fl, ap_bytes = p\<rparr>, length wire))"
proof -
  from assms(1) obtain q where q: "aa_frame ch fl p = Inr q"
    and w: "wire = (if fl AND 3 = 1 then take 4 q @ to_be32 (of_nat whole) @ drop 4 q else q)"
    by (auto simp: aa_out_packet_def)
  from q have p: "p \<noteq> []" "length p \<le> 65535" and qs: "q = [ch, fl] @ to_be16 (of_nat (length p)) @ p"
    by (auto simp: aa_frame_def split: if_splits)
  have n: "unat (of_nat (length p) :: u16) = length p" by (rule unat_of_nat_u16) (use p in simp)
  have t: "unat (of_nat whole :: u32) = whole" by (rule unat_of_nat_u32) (use assms(4) in \<open>simp add: consts_simps\<close>)
  show ?thesis
  proof (cases "fl AND 3 = 1")
    case True
    then have "wire = [ch, fl] @ to_be16 (of_nat (length p)) @ to_be32 (of_nat whole) @ p"
      by (simp add: w qs to_be16_def)
    with True assms p show ?thesis
      by (simp add: aa_parse_Some aa_header_def to_be16_def to_be32_def from_be16_parts from_be32_parts n t)
  next
    case False
    then have "wire = [ch, fl] @ to_be16 (of_nat (length p)) @ p" by (simp add: w qs)
    with False assms p show ?thesis
      by (simp add: aa_parse_Some aa_header_def to_be16_def from_be16_parts n)
  qed
qed

fun aa_out_packets :: "u8 \<Rightarrow> bool \<Rightarrow> bool \<Rightarrow> u8 list list \<Rightarrow> aa_packet list" where
  "aa_out_packets ch control first [] = []"
| "aa_out_packets ch control first (p # ps) =
     \<lparr>ap_channel = ch, ap_flags = aa_out_flags control first (ps = []), ap_bytes = p\<rparr>
       # aa_out_packets ch control False ps"

lemma aa_parse_empty: "aa_parse [] = Inr None"
  by (simp add: aa_parse_def)

lemma aa_out_loop_drain:
  "aa_out_loop ch control whole first ps = Inr wire \<Longrightarrow> 0 < whole \<Longrightarrow> whole \<le> MAX_MESSAGE_AA \<Longrightarrow>
   drain aa_parse wire = Inr (aa_out_packets ch control first ps, [])"
proof (induction ps arbitrary: first wire)
  case Nil
  then show ?case by (simp add: aa_parse_empty)
next
  case (Cons p ps)
  then obtain q w where q: "aa_out_packet ch (aa_out_flags control first (ps = [])) whole p = Inr q"
    and w: "aa_out_loop ch control whole False ps = Inr w" and wire: "wire = q @ w"
    by auto
  have "aa_parse (q @ w) = Inr (Some (\<lparr>ap_channel = ch, ap_flags = aa_out_flags control first (ps = []), ap_bytes = p\<rparr>, length q))"
    by (rule aa_stream.extends) (rule aa_out_packet_parse [OF q aa_out_flags_bits(1) Cons.prems(2,3)])
  from aa_stream.drain_msg [OF this] Cons.IH [OF w Cons.prems(2,3)] show ?case by (simp add: wire)
qed

definition to_accept :: "(u8 list \<Rightarrow> u8 list) \<Rightarrow> aa_packet \<Rightarrow> u8 \<times> u8 \<times> u8 list" where
  "to_accept dec p = (ap_channel p, ap_flags p, dec (ap_bytes p))"

lemma fragment_total_snoc: "fragment_total (fs @ [(c, fl, d)]) = fragment_total fs + length d"
  by (simp add: fragment_total_def)

text \<open>The continuation fragments of one message.\<close>

lemma aa_accept_rest:
  assumes "c \<notin> fst ` set fs" and "ps \<noteq> []"
    and "fragment_total fs + length (d @ concat (map dec ps)) \<le> MAX_MESSAGE_AA"
  shows "run_machine aa_accept (fs @ [(c, (if control then 12 else 8), d)]) (map (to_accept dec) (aa_out_packets c control False ps))
    = (fs, map Inr (replicate (length ps - 1) None @ [Some (d @ concat (map dec ps))]))"
  using assms
proof (induction ps arbitrary: d)
  case (Cons p ps)
  let ?fl = "if control then 12 else 8 :: u8"
  have mo: "map_of (fs @ [(c, ?fl, d)]) c = Some (?fl, d)"
    by (rule map_of_snoc_fresh) (simp add: map_of_None_fst Cons.prems(1))
  have l: "fragment_total (fs @ [(c, ?fl, d)]) + length (dec p) \<le> MAX_MESSAGE_AA"
    using Cons.prems(3) by (simp add: fragment_total_snoc)
  show ?case
  proof (cases "ps = []")
    case True
    have "aa_accept (fs @ [(c, ?fl, d)]) (c, aa_out_flags control False True, dec p) = (fs, Inr (Some (d @ dec p)))"
      using l Cons.prems(1) by (simp add: aa_accept_def aa_out_flags_bits fragment_extend_def mo delete_last del: map_of_append)
    with True show ?thesis by (simp add: to_accept_def)
  next
    case False
    have "aa_accept (fs @ [(c, ?fl, d)]) (c, aa_out_flags control False False, dec p)
        = (fs @ [(c, ?fl, d @ dec p)], Inr None)"
      using l Cons.prems(1) by (simp add: aa_accept_def aa_out_flags_bits fragment_extend_def mo update_last del: map_of_append)
    with Cons.IH [of "d @ dec p"] Cons.prems False show ?thesis
      by (cases ps) (simp_all add: to_accept_def)
  qed
qed simp

lemma aa_accept_message:
  assumes "c \<notin> fst ` set fs" and "length fs < 16" and "ps \<noteq> []"
    and "fragment_total fs + length (concat (map dec ps)) \<le> MAX_MESSAGE_AA"
  shows "run_machine aa_accept fs (map (to_accept dec) (aa_out_packets c control True ps))
    = (fs, map Inr (replicate (length ps - 1) None @ [Some (concat (map dec ps))]))"
proof -
  obtain p qs where ps: "ps = p # qs" using assms(3) by (cases ps) auto
  have fresh: "map_of fs c = None" using assms(1) by (simp add: map_of_None_fst)
  let ?fl = "if control then 12 else 8 :: u8"
  show ?thesis
  proof (cases "qs = []")
    case True
    then show ?thesis by (simp add: ps to_accept_def aa_accept_def aa_out_flags_bits fresh)
  next
    case False
    have l: "fragment_total fs + length (dec p) \<le> MAX_MESSAGE_AA" using assms(4) by (simp add: ps)
    have "aa_accept fs (c, aa_out_flags control True False, dec p) = (fs @ [(c, ?fl, dec p)], Inr None)"
      using l assms(1,2) fresh
      by (simp add: aa_accept_def aa_out_flags_bits fragment_extend_def update_fresh update_last
          fragment_total_snoc map_of_snoc_fresh del: map_of_append)
    with aa_accept_rest [OF assms(1) False, of "dec p" dec control] assms(4) False show ?thesis
      by (cases qs) (simp_all add: ps to_accept_def)
  qed
qed

section \<open>Channels do not interfere\<close>

text \<open>One channel on its own, without the bounds of the shared buffer.\<close>

fun channel_step :: "(u8 \<times> u8 list) option \<Rightarrow> u8 \<times> u8 list \<Rightarrow> (u8 \<times> u8 list) option \<times> u8 list option" where
  "channel_step st (fl, bytes) =
     (if fl AND 1 \<noteq> 0 then
        (if fl AND 2 \<noteq> 0 then (st, Some bytes) else (Some (fl AND 0x0c, bytes), None))
      else case st of
        None \<Rightarrow> (None, None)
      | Some (original, data) \<Rightarrow>
          if fl AND 2 \<noteq> 0 then (None, Some (data @ bytes)) else (Some (original, data @ bytes), None))"

definition fragments_ok :: "fragments \<Rightarrow> bool" where
  "fragments_ok fs \<longleftrightarrow> distinct (map fst fs) \<and> length fs \<le> 16 \<and> fragment_total fs \<le> MAX_MESSAGE_AA"

lemma length_update_known: "map_of fs c \<noteq> None \<Longrightarrow> length (AList.update c v fs) = length fs"
  by (induction fs) auto

lemma fragment_total_update:
  "distinct (map fst fs) \<Longrightarrow> map_of fs c = Some (o', d) \<Longrightarrow>
   fragment_total (AList.update c (x, d @ b) fs) = fragment_total fs + length b"
  using sum_update [of fs c "(o', d)" "\<lambda>(_, b). length b" "(x, d @ b)"]
  by (simp add: fragment_total_def split_def)

lemma fragment_total_delete: "fragment_total (AList.delete c fs) \<le> fragment_total fs"
  using sum_delete_le [of "\<lambda>(_, b). length b" c fs] by (simp add: fragment_total_def split_def)

lemma fragment_extend_ok:
  assumes "fragments_ok fs" and "fragment_extend c fl b fs = (fs', r)"
  shows "fragments_ok fs'"
  using assms length_delete_le [of c fs] fragment_total_delete [of c fs]
  by (auto simp: fragment_extend_def fragments_ok_def fragment_total_update length_update_known
      intro: distinct_update distinct_delete split: if_splits option.splits)

lemma aa_accept_ok:
  assumes "fragments_ok fs" and "aa_accept fs p = (fs', r)"
  shows "fragments_ok fs'"
proof -
  obtain c fl b where p: "p = (c, fl, b)" by (cases p)
  have ext: "fragments_ok (AList.update c (fl AND 0x0c, []) fs)" if "map_of fs c = None" "length fs < 16"
    using assms(1) that by (simp add: fragments_ok_def map_of_None_fst update_fresh fragment_total_snoc)
  show ?thesis
  proof (cases "fl AND 1 \<noteq> 0 \<and> map_of fs c = None \<and> fl AND 2 = 0 \<and> length fs < 16")
    case True
    with assms(2) have "fragment_extend c fl b (AList.update c (fl AND 0x0c, []) fs) = (fs', r)"
      by (simp add: aa_accept_def p)
    with True show ?thesis using ext fragment_extend_ok by blast
  next
    case False
    with assms show ?thesis by (auto simp: aa_accept_def p split: if_splits dest: fragment_extend_ok)
  qed
qed

interpretation aa_reassembly: safe_machine aa_accept fragments_ok
  by unfold_locales (metis aa_accept_ok prod.collapse)

lemma fragment_extend_channel:
  assumes "distinct (map fst fs)" and "fragment_extend c fl b fs = (fs', Inr o')" and "fl AND 1 = 0"
  shows "channel_step (map_of fs c) (fl, b) = (map_of fs' c, o') \<and> (\<forall>d. d \<noteq> c \<longrightarrow> map_of fs' d = map_of fs d)"
  using assms by (auto simp: fragment_extend_def update_conv' delete_conv'
      simp del: map_of_eq_Some_iff split: if_splits option.splits)

lemma aa_accept_channel:
  assumes "distinct (map fst fs)" and "aa_accept fs (c, fl, b) = (fs', Inr o')"
  shows "channel_step (map_of fs c) (fl, b) = (map_of fs' c, o') \<and> (\<forall>d. d \<noteq> c \<longrightarrow> map_of fs' d = map_of fs d)"
proof (cases "fl AND 1 = 0")
  case True
  then show ?thesis using assms fragment_extend_channel by (simp add: aa_accept_def)
next
  case False
  with assms show ?thesis
    by (auto simp: aa_accept_def fragment_extend_def update_conv' delete_conv'
        simp del: map_of_eq_Some_iff split: if_splits)
qed

lemma aa_run_channel:
  assumes "fragments_ok fs" and "run_machine aa_accept fs ps = (fs', map Inr outs)"
  shows "run_machine channel_step (map_of fs c) (map snd (filter (\<lambda>p. fst p = c) ps))
    = (map_of fs' c, map snd (filter (\<lambda>(p, _). fst p = c) (zip ps outs)))"
  using assms
proof (induction ps arbitrary: fs outs)
  case (Cons p ps)
  obtain ch fl b where p: "p = (ch, fl, b)" by (cases p)
  from Cons.prems(2) obtain fs1 o1 outs' where s: "aa_accept fs (ch, fl, b) = (fs1, Inr o1)"
    and r: "run_machine aa_accept fs1 ps = (fs', map Inr outs')" and o: "outs = o1 # outs'"
    by (auto simp: p split: prod.splits)
  have d: "distinct (map fst fs)" using Cons.prems(1) by (simp add: fragments_ok_def)
  note st = aa_accept_channel [OF d s]
  note IH = Cons.IH [OF aa_accept_ok [OF Cons.prems(1) s] r]
  show ?case
    using st IH by (auto simp: p o)
qed simp

section \<open>Properties\<close>

text \<open>C36. A message survives framing: the frames written for a sequence of TLS records parse back to one
  packet per record, and feeding them to a receiver that has no open fragment on that channel (with
  whatever is pending on others) yields nothing before the last packet and then exactly the
  concatenation of what each record decrypts to; the other channels are left as they were.\<close>

theorem aa_wire_round_trip:
  assumes "encrypted_frames channel control records = Inr wire" and "tls_records records = Inr pieces"
    and "records \<noteq> []" and "length records \<le> MAX_MESSAGE_AA"
    and "channel \<notin> fst ` set fs" and "length fs < 16"
    and "fragment_total fs + length (concat (map dec pieces)) \<le> MAX_MESSAGE_AA"
  shows "\<exists>packets. drain aa_parse wire = Inr (packets, []) \<and> map ap_bytes packets = pieces
    \<and> run_machine aa_accept fs (map (to_accept dec) packets)
      = (fs, map Inr (replicate (length pieces - 1) None @ [Some (concat (map dec pieces))]))"
proof -
  have ne: "pieces \<noteq> []" using tls_records_parts [OF assms(2)] assms(3) by simp
  have w: "aa_out_loop channel control (length records) True pieces = Inr wire"
    using assms(1,2) by (simp add: encrypted_frames_def)
  have "map ap_bytes (aa_out_packets channel control first ps) = ps" for first ps
    by (induction ps arbitrary: first) simp_all
  with aa_out_loop_drain [OF w _ assms(4)] aa_accept_message [OF assms(5,6) ne assms(7), of control] assms(3)
  show ?thesis by blast
qed

definition wit_record :: "u8 list" where
  "wit_record = [23, 3, 3, 0, 1, 99]"

theorem aa_wire_round_trip_witness:
  "\<exists>wire packets. encrypted_frames 3 False (wit_record @ wit_record) = Inr wire
     \<and> drain aa_parse wire = Inr (packets, [])
     \<and> run_machine aa_accept [] (map (to_accept (drop 5)) packets) = ([], [Inr None, Inr (Some [99, 99])])"
proof -
  have r: "tls_records (wit_record @ wit_record) = Inr [wit_record, wit_record]"
    by (simp add: wit_record_def tls_records.simps from_be16_def word_cat_eq)
  obtain wire where w: "encrypted_frames 3 False (wit_record @ wit_record) = Inr wire"
    by (simp add: encrypted_frames_def r aa_out_packet_def aa_frame_def) (simp add: wit_record_def)
  have h: "wit_record @ wit_record \<noteq> []" "length (wit_record @ wit_record) \<le> MAX_MESSAGE_AA"
    "3 \<notin> fst ` set ([] :: fragments)" "length ([] :: fragments) < 16"
    "fragment_total [] + length (concat (map (drop 5) [wit_record, wit_record])) \<le> MAX_MESSAGE_AA"
    by (simp_all add: wit_record_def consts_simps fragment_total_def)
  from aa_wire_round_trip [OF w r h] w show ?thesis
    by (auto simp: wit_record_def numeral_2_eq_2)
qed

text \<open>C38. Reassembly is isolated per channel and bounded: as long as no packet is rejected, what is
  returned for a channel is what a reassembler that sees only that channel's packets returns, however
  the channels interleave; and at most sixteen channels with at most 4 MiB together are ever pending.\<close>

theorem aa_reassembly_isolated:
  assumes "run_machine aa_accept [] ps = (fs, map Inr outs)"
  shows "run_machine channel_step None (map snd (filter (\<lambda>p. fst p = c) ps))
      = (map_of fs c, map snd (filter (\<lambda>(p, _). fst p = c) (zip ps outs)))
    \<and> length fs \<le> 16 \<and> fragment_total fs \<le> MAX_MESSAGE_AA"
proof -
  have ok: "fragments_ok []" by (simp add: fragments_ok_def fragment_total_def)
  from aa_reassembly.inv_run [OF ok, of ps] assms have "fragments_ok fs" by simp
  with aa_run_channel [OF ok assms, of c] show ?thesis by (simp add: fragments_ok_def)
qed

theorem aa_reassembly_isolated_witness:
  "run_machine channel_step None [(1, [7]), (2, [8])] = (None, [None, Some [7, 8]])"
proof -
  have r: "run_machine aa_accept [] [(4, 1, [7]), (5, 3, [1]), (4, 2, [8])] = ([], map Inr [None, Some [1], Some [7, 8]])"
    by (simp add: aa_accept_def fragment_extend_def fragment_total_def consts_simps AList.delete_eq)
  from aa_reassembly_isolated [OF r, of 4] show ?thesis by simp
qed

end
