(* ===== verification/Metadata.thy ===== *)
theory Metadata
  imports Display
begin

text \<open>
  The media and phone metadata of an Android Auto session
  (\<open>native/projection/argo-projectiond/src/metadata.rs\<close>) and the validation of cover pictures
  (\<open>artwork.rs\<close>). Storing a picture is the validation followed by file operations, whose outcome (the
  path, or an error) is an argument, as is the clock.
\<close>

section \<open>Pictures\<close>

definition ART_MAX_BYTES :: nat where [consts_simps]: "ART_MAX_BYTES = 1024 * 1024"
definition MAX_SIDE :: nat where [consts_simps]: "MAX_SIDE = 2048"

text \<open>The scan of the JPEG segments for a frame header.\<close>

function jpeg_scan :: "u8 list \<Rightarrow> nat \<Rightarrow> (nat \<times> nat) option" where
  "jpeg_scan d i =
     (if \<not> i + 4 \<le> length d \<or> d ! i \<noteq> 0xff then None
      else
        let marker = d ! (i + 1) in
        if marker = 0xff then jpeg_scan d (i + 1)
        else if marker = 0xda \<or> marker = 0xd9 then None
        else if marker = 0x01 \<or> 0xd0 \<le> marker \<and> marker \<le> 0xd7 then jpeg_scan d (i + 2)
        else
          let j = i + 2; len = unat (from_be16 (d ! j) (d ! (j + 1))) in
          if len < 2 \<or> j + len > length d then None
          else if marker \<in> {0xc0, 0xc1, 0xc2, 0xc3, 0xc5, 0xc6, 0xc7, 0xc9, 0xca, 0xcb, 0xcd, 0xce, 0xcf} \<and> len \<ge> 8
          then Some (unat (from_be16 (d ! (j + 5)) (d ! (j + 6))), unat (from_be16 (d ! (j + 3)) (d ! (j + 4))))
          else jpeg_scan d (j + len))"
  by pat_completeness auto
termination by (relation "measure (\<lambda>(d, i). length d - i)") auto

declare jpeg_scan.simps [simp del]

definition PNG_SIGNATURE :: "u8 list" where
  "PNG_SIGNATURE = [0x89, 0x50, 0x4e, 0x47, 0x0d, 0x0a, 0x1a, 0x0a]"

definition art_dimensions :: "u8 list \<Rightarrow> (nat \<times> nat) option" where
  "art_dimensions d =
     (if take 8 d = PNG_SIGNATURE \<and> length d \<ge> 33 \<and> take 4 (drop 12 d) = str ''IHDR''
      then Some (unat (from_be32 (d ! 16) (d ! 17) (d ! 18) (d ! 19)), unat (from_be32 (d ! 20) (d ! 21) (d ! 22) (d ! 23)))
      else if take 2 d = [0xff, 0xd8] then jpeg_scan d 2
      else None)"

definition art_validate :: "u8 list \<Rightarrow> u8 list + unit" where
  "art_validate d =
     (if length d > ART_MAX_BYTES then Inl (str ''Artwork exceeds 1 MiB'')
      else case art_dimensions d of
        Some (w, h) \<Rightarrow>
          if w > 0 \<and> h > 0 \<and> w \<le> MAX_SIDE \<and> h \<le> MAX_SIDE then Inr ()
          else Inl (str ''Artwork requires bounded PNG/JPEG dimensions'')
      | None \<Rightarrow> Inl (str ''Artwork requires bounded PNG/JPEG dimensions''))"

record image =
  im_path :: "u8 list"
  im_data :: "u8 list"

definition art_matches :: "image \<Rightarrow> u8 list \<Rightarrow> bool" where
  "art_matches img d \<longleftrightarrow> im_data img = d"

definition art_store :: "u8 list + u8 list \<Rightarrow> u8 list \<Rightarrow> u8 list + image" where
  "art_store disk d =
     bindr (art_validate d) (\<lambda>_. bindr disk (\<lambda>path. Inr \<lparr>im_path = path, im_data = d\<rparr>))"

section \<open>Snapshot\<close>

definition META_CHANNEL :: u8 where "META_CHANNEL = 10"

record metadata =
  md_media_received :: bool
  md_title :: "u8 list option"
  md_artist :: "u8 list option"
  md_album :: "u8 list option"
  md_artwork :: "image option"
  md_playback :: u8
  md_application :: "u8 list option"
  md_position_ms :: "u64 option"
  md_duration_ms :: "u64 option"
  md_device_name :: "u8 list option"
  md_manufacturer :: "u8 list option"
  md_model :: "u8 list option"
  md_battery :: "u8 option"
  md_critical :: "bool option"

definition metadata_default :: metadata where
  "metadata_default = \<lparr>md_media_received = False, md_title = None, md_artist = None, md_album = None,
     md_artwork = None, md_playback = 0, md_application = None, md_position_ms = None, md_duration_ms = None,
     md_device_name = None, md_manufacturer = None, md_model = None, md_battery = None, md_critical = None\<rparr>"

record meta_snapshot =
  ms_data :: metadata
  ms_revision :: u32
  ms_updated_at_ms :: u64
  ms_last_diagnostic_ms :: u64

definition meta_snapshot_default :: meta_snapshot where
  "meta_snapshot_default = \<lparr>ms_data = metadata_default, ms_revision = 0, ms_updated_at_ms = 0, ms_last_diagnostic_ms = 0\<rparr>"

datatype meta_update =
    Track "u8 list option" "u8 list option" "u8 list option" "u8 list option" "u64 option"
  | Playback "u8 option" "u8 list option" "u64 option"
  | Phone "u8 list option" "u8 list option"
  | Battery "u8 option" "bool option"

definition sat_inc32 :: "u32 \<Rightarrow> u32" where
  "sat_inc32 n = (if n = 0xffffffff then n else n + 1)"

definition sat_sub64 :: "u64 \<Rightarrow> u64 \<Rightarrow> u64" where
  "sat_sub64 a b = (if b \<le> a then a - b else 0)"

text \<open>The picture of a track message: kept when its bytes are those already stored.\<close>

definition track_artwork :: "u8 list + u8 list \<Rightarrow> image option \<Rightarrow> u8 list option \<Rightarrow> image option" where
  "track_artwork disk old bytes =
     Option.bind bytes (\<lambda>b.
       case old of
         Some img \<Rightarrow> if art_matches img b then Some img else (case art_store disk b of Inr i \<Rightarrow> Some i | Inl _ \<Rightarrow> None)
       | None \<Rightarrow> (case art_store disk b of Inr i \<Rightarrow> Some i | Inl _ \<Rightarrow> None))"

fun meta_patch :: "u8 list + u8 list \<Rightarrow> meta_update \<Rightarrow> metadata \<Rightarrow> metadata" where
  "meta_patch disk (Track t ar al art dur) d =
     (let d = (if (md_title d, md_artist d, md_album d) \<noteq> (t, ar, al)
               then d\<lparr>md_position_ms := None, md_duration_ms := None\<rparr> else d) in
      d\<lparr>md_title := t, md_artist := ar, md_album := al, md_duration_ms := dur,
        md_artwork := track_artwork disk (md_artwork d) art, md_media_received := True\<rparr>)"
| "meta_patch disk (Playback st app pos) d =
     (let d = (case app of
            None \<Rightarrow> d
          | Some a \<Rightarrow>
              (let d = (if (case md_application d of Some old \<Rightarrow> old \<noteq> a | None \<Rightarrow> False)
                        then d\<lparr>md_title := None, md_artist := None, md_album := None, md_artwork := None,
                               md_position_ms := None, md_duration_ms := None\<rparr> else d) in
               d\<lparr>md_application := Some a\<rparr>));
          d = (case st of None \<Rightarrow> d | Some s \<Rightarrow> d\<lparr>md_playback := s\<rparr>);
          d = (case pos of None \<Rightarrow> d | Some p \<Rightarrow> d\<lparr>md_position_ms := Some p\<rparr>) in
      d\<lparr>md_media_received := True\<rparr>)"
| "meta_patch disk (Phone n m) d = d\<lparr>md_device_name := n, md_manufacturer := m\<rparr>"
| "meta_patch disk (Battery l c) d =
     (let d = (case l of None \<Rightarrow> d | Some l \<Rightarrow> d\<lparr>md_battery := Some l\<rparr>) in
      case c of None \<Rightarrow> d | Some c \<Rightarrow> d\<lparr>md_critical := Some c\<rparr>)"

definition meta_apply ::
  "u8 list + u8 list \<Rightarrow> u64 \<Rightarrow> meta_update \<Rightarrow> meta_snapshot \<Rightarrow> meta_snapshot \<times> bool" where
  "meta_apply disk now u s =
     (let d = meta_patch disk u (ms_data s) in
      if d = ms_data s then (s, False)
      else (s\<lparr>ms_data := d, ms_revision := sat_inc32 (ms_revision s), ms_updated_at_ms := now,
              ms_last_diagnostic_ms :=
                (if sat_sub64 now (ms_last_diagnostic_ms s) \<ge> 3000 then now else ms_last_diagnostic_ms s)\<rparr>, True))"

definition pw_optional :: "u8 list option \<Rightarrow> u8 list \<Rightarrow> decode_error + u8 list" where
  "pw_optional v w = (case v of None \<Rightarrow> Inr (pw_u8 0 w) | Some s \<Rightarrow> pw_string s (pw_u8 1 w))"

fun pw_optionals :: "u8 list option list \<Rightarrow> u8 list \<Rightarrow> decode_error + u8 list" where
  "pw_optionals [] w = Inr w"
| "pw_optionals (v # vs) w = bindr (pw_optional v w) (pw_optionals vs)"

definition pw_optional_u64 :: "u64 option \<Rightarrow> u8 list \<Rightarrow> u8 list" where
  "pw_optional_u64 v w = (case v of None \<Rightarrow> pw_u8 0 w | Some n \<Rightarrow> pw_u64 n (pw_u8 1 w))"

definition meta_message_of :: "u8 list \<Rightarrow> u8 list \<Rightarrow> meta_snapshot \<Rightarrow> decode_error + ipc_message" where
  "meta_message_of session device s =
     bindr (pw_string session []) (\<lambda>w.
     bindr (pw_string device w) (\<lambda>w.
     let d = ms_data s;
         w = pw_u8 (bool_u8 (md_media_received d)) (pw_u64 (ms_updated_at_ms s) (pw_u32 (ms_revision s) w)) in
     bindr (pw_optionals [md_title d, md_artist d, md_album d] w) (\<lambda>w.
     bindr (pw_optional (md_application d) (pw_u8 (md_playback d) w)) (\<lambda>w.
     bindr (pw_optionals [md_device_name d, md_manufacturer d, md_model d]
              (pw_optional_u64 (md_duration_ms d) (pw_optional_u64 (md_position_ms d) w))) (\<lambda>w.
     let w = pw_u8 (case md_battery d of None \<Rightarrow> 255 | Some b \<Rightarrow> b) w;
         w = pw_u8 (case md_critical d of None \<Rightarrow> 0 | Some False \<Rightarrow> 1 | Some True \<Rightarrow> 2) w in
     bindr (pw_optional (map_option im_path (md_artwork d)) w) (\<lambda>w.
       Inr \<lparr>im_kind = 11, im_payload = w\<rparr>))))))"

section \<open>Parsing\<close>

definition meta_text :: "(u32 \<times> pb_value) list \<Rightarrow> u32 \<Rightarrow> u8 list + u8 list option" where
  "meta_text f key =
     (case map_of f key of
        None \<Rightarrow> Inr None
      | Some (Bytes b) \<Rightarrow>
          if length b > 1024 then Inl (str ''invalid or oversized text'')
          else if \<not> utf8_valid b then Inl (str ''invalid UTF-8'')
          else if 0 \<in> set b then Inl (str ''NUL in text'')
          else Inr (if str_trim b = [] then None else Some (str_trim b))
      | Some _ \<Rightarrow> Inl (str ''invalid or oversized text''))"

definition meta_number :: "(u32 \<times> pb_value) list \<Rightarrow> u32 \<Rightarrow> u8 list + u64 option" where
  "meta_number f key =
     (case map_of f key of
        None \<Rightarrow> Inr None
      | Some (Number n) \<Rightarrow> Inr (Some n)
      | Some _ \<Rightarrow> Inl (str ''invalid number''))"

definition parse_track :: "(u32 \<times> pb_value) list \<Rightarrow> u8 list + meta_update" where
  "parse_track f =
     bindr (meta_text f 1) (\<lambda>t.
     bindr (meta_text f 2) (\<lambda>ar.
     bindr (meta_text f 3) (\<lambda>al.
     let art = (case map_of f 4 of Some (Bytes b) \<Rightarrow> if length b \<le> ART_MAX_BYTES then Some b else None | _ \<Rightarrow> None) in
     bindr (meta_number f 6) (\<lambda>n.
       Inr (Track t ar al art
             (case n of Some v \<Rightarrow> if v \<le> 0xffffffff then Some (v * 1000) else None | None \<Rightarrow> None))))))"

definition parse_playback :: "(u32 \<times> pb_value) list \<Rightarrow> u8 list + meta_update" where
  "parse_playback f =
     bindr (meta_number f 1) (\<lambda>st.
     bindr (meta_number f 3) (\<lambda>pos.
       if (case st of Some s \<Rightarrow> s > 4 | None \<Rightarrow> False) \<or> (case pos of Some p \<Rightarrow> p > 0xffffffff | None \<Rightarrow> False)
       then Inl (str ''invalid playback value'')
       else bindr (meta_text f 2) (\<lambda>app.
         Inr (Playback (map_option ucast st) app (map_option (\<lambda>p. p * 1000) pos)))))"

definition parse_battery :: "(u32 \<times> pb_value) list \<Rightarrow> u8 list + meta_update" where
  "parse_battery f =
     bindr (meta_number f 1) (\<lambda>level.
     bindr (meta_number f 3) (\<lambda>critical.
       if (case level of Some v \<Rightarrow> v > 100 | None \<Rightarrow> False) \<or> (case critical of Some v \<Rightarrow> v > 1 | None \<Rightarrow> False)
       then Inl (str ''invalid battery value'')
       else Inr (Battery (map_option ucast level) (map_option (\<lambda>v. v = 1) critical))))"

definition meta_parse :: "u8 \<Rightarrow> u16 \<Rightarrow> u8 list \<Rightarrow> u8 list + meta_update" where
  "meta_parse channel mid body =
     bindr (meta_fields body) (\<lambda>f.
       if channel = META_CHANNEL \<and> mid = 0x8003 then parse_track f
       else if channel = META_CHANNEL \<and> mid = 0x8001 then parse_playback f
       else if channel = 0 \<and> mid = 5 then
         bindr (meta_text f 4) (\<lambda>n. bindr (meta_text f 5) (\<lambda>m. Inr (Phone n m)))
       else if channel = 0 \<and> mid = 23 then parse_battery f
       else Inl (str ''unsupported metadata message''))"

section \<open>Lemmas\<close>

lemma art_store_data: "art_store disk b = Inr i \<Longrightarrow> im_data i = b"
  by (auto simp: art_store_def)

lemma track_artwork_data: "track_artwork disk old art = Some i \<Longrightarrow> art = Some (im_data i)"
  by (auto simp: track_artwork_def art_matches_def bind_eq_Some_conv art_store_data split: option.splits if_splits sum.splits)

lemma track_artwork_again:
  assumes "is_ok disk1 \<or> \<not> is_ok disk2"
  shows "track_artwork disk2 (track_artwork disk1 old art) art = track_artwork disk1 old art"
proof (cases art)
  case None
  then show ?thesis by (simp add: track_artwork_def)
next
  case (Some b)
  show ?thesis
  proof (cases "track_artwork disk1 old art")
    case None
    with Some have "\<not> is_ok (art_store disk1 b)"
      by (auto simp: track_artwork_def is_ok_iff split: option.splits if_splits sum.splits)
    then have "\<not> is_ok (art_store disk2 b)"
      using assms by (auto simp: art_store_def is_ok_iff)
    with None Some show ?thesis
      by (auto simp: track_artwork_def is_ok_iff split: sum.splits)
  next
    case s: (Some i)
    with Some track_artwork_data have "im_data i = b" by fastforce
    with s Some show ?thesis by (simp add: track_artwork_def art_matches_def)
  qed
qed

lemma meta_patch_again:
  assumes "is_ok disk1 \<or> \<not> is_ok disk2"
  shows "meta_patch disk2 u (meta_patch disk1 u d) = meta_patch disk1 u d"
  using track_artwork_again [OF assms]
  by (cases u) (auto simp: Let_def split: option.splits)

text \<open>Texts that fit the control channel: every text but the path of the picture.\<close>

definition fits :: "u8 list option \<Rightarrow> bool" where
  "fits t \<longleftrightarrow> (\<forall>s. t = Some s \<longrightarrow> length s \<le> 1024)"

fun update_fits :: "meta_update \<Rightarrow> bool" where
  "update_fits (Track t ar al art dur) = (fits t \<and> fits ar \<and> fits al)"
| "update_fits (Playback st app pos) = (fits app \<and> (\<forall>s. st = Some s \<longrightarrow> s \<le> 4))"
| "update_fits (Phone n m) = (fits n \<and> fits m)"
| "update_fits (Battery l c) = (\<forall>v. l = Some v \<longrightarrow> v \<le> 100)"

definition meta_fits :: "metadata \<Rightarrow> bool" where
  "meta_fits d \<longleftrightarrow> fits (md_title d) \<and> fits (md_artist d) \<and> fits (md_album d) \<and> fits (md_application d)
     \<and> fits (md_device_name d) \<and> fits (md_manufacturer d) \<and> md_model d = None
     \<and> md_playback d \<le> 4 \<and> (\<forall>v. md_battery d = Some v \<longrightarrow> v \<le> 100)
     \<and> (\<forall>i. md_artwork d = Some i \<longrightarrow> length (im_path i) \<le> 4096)"

lemma meta_text_fits: "meta_text f k = Inr t \<Longrightarrow> fits t"
  by (auto simp: meta_text_def fits_def not_less split: option.splits pb_value.splits if_splits
      intro: le_trans [OF str_trim_length])

lemma ucast_small: "(v :: u64) \<le> 4 \<Longrightarrow> (ucast v :: u8) \<le> 4" "(v :: u64) \<le> 100 \<Longrightarrow> (ucast v :: u8) \<le> 100"
  by (simp_all add: word_le_nat_alt unsigned_ucast_eq take_bit_eq_mod)

lemma meta_parse_fits: "meta_parse ch i body = Inr u \<Longrightarrow> update_fits u"
  by (auto simp: meta_parse_def parse_track_def parse_playback_def parse_battery_def Let_def meta_text_fits not_less
      ucast_small split: if_splits option.splits)

lemma meta_patch_fits:
  assumes "meta_fits d" and "update_fits u" and "\<forall>p. disk = Inr p \<longrightarrow> length p \<le> 4096"
  shows "meta_fits (meta_patch disk u d)"
proof (cases u)
  case (Track t ar al art dur)
  have "length (im_path i) \<le> 4096" if "track_artwork disk (md_artwork d) art = Some i" for i
    using that assms(1,3)
    by (auto simp: track_artwork_def art_store_def meta_fits_def bind_eq_Some_conv split: option.splits if_splits sum.splits)
  with Track assms show ?thesis by (auto simp: meta_fits_def Let_def)
qed (use assms in \<open>auto simp: meta_fits_def fits_def Let_def split: option.splits\<close>)

lemma meta_default_fits: "meta_fits metadata_default"
  by (simp add: meta_fits_def metadata_default_def fits_def)

text \<open>Writing adds at most so many bytes.\<close>

lemma pw_string_fits:
  "length s \<le> 4096 \<Longrightarrow> \<exists>w'. pw_string s w = Inr w' \<and> length w' = length w + 2 + length s"
  by (simp add: pw_string_def pw_u16_def to_be16_def)

lemma pw_optional_fits:
  "(\<forall>s. v = Some s \<longrightarrow> length s \<le> n) \<Longrightarrow> n \<le> 4096 \<Longrightarrow>
   \<exists>w'. pw_optional v w = Inr w' \<and> length w' \<le> length w + 3 + n"
  using pw_string_fits [of "the v" "pw_u8 1 w"]
  by (cases v) (auto simp: pw_optional_def pw_u8_def)

lemma pw_optionals_fit:
  "(\<forall>v \<in> set vs. fits v) \<Longrightarrow> \<exists>w'. pw_optionals vs w = Inr w' \<and> length w' \<le> length w + 1027 * length vs"
proof (induction vs arbitrary: w)
  case (Cons v vs)
  then obtain w1 where w1: "pw_optional v w = Inr w1" "length w1 \<le> length w + 1027"
    using pw_optional_fits [of v 1024 w] by (auto simp: fits_def)
  with Cons.IH [of w1] Cons.prems show ?case by fastforce
qed simp

lemma pw_optional_u64_length: "length (pw_optional_u64 v w) \<le> length w + 9"
  by (cases v) (simp_all add: pw_optional_u64_def pw_u8_def pw_u64_def to_be64_def to_be32_def to_be16_def)

lemma meta_message_fits:
  assumes f: "meta_fits (ms_data s)" and "length session \<le> 4096" "length device \<le> 4096"
  shows "\<exists>m. meta_message_of session device s = Inr m \<and> im_kind m = 11 \<and> length (im_payload m) \<le> MAX_PAYLOAD"
proof -
  let ?d = "ms_data s"
  obtain w1 where w1: "pw_string session [] = Inr w1" "length w1 = 2 + length session"
    using pw_string_fits [OF assms(2), of "[]"] by auto
  obtain w2 where w2: "pw_string device w1 = Inr w2" "length w2 = length w1 + 2 + length device"
    using pw_string_fits [OF assms(3), of w1] by auto
  let ?w = "pw_u8 (bool_u8 (md_media_received ?d)) (pw_u64 (ms_updated_at_ms s) (pw_u32 (ms_revision s) w2))"
  have w: "length ?w = length w2 + 13" by (simp add: pw_u8_def pw_u64_def pw_u32_def to_be64_def to_be32_def to_be16_def)
  obtain w3 where w3: "pw_optionals [md_title ?d, md_artist ?d, md_album ?d] ?w = Inr w3" "length w3 \<le> length ?w + 3081"
    using pw_optionals_fit [of "[md_title ?d, md_artist ?d, md_album ?d]" ?w] f by (auto simp: meta_fits_def)
  obtain w4 where w4: "pw_optional (md_application ?d) (pw_u8 (md_playback ?d) w3) = Inr w4" "length w4 \<le> length w3 + 1028"
    using pw_optional_fits [of "md_application ?d" 1024 "pw_u8 (md_playback ?d) w3"] f
    by (auto simp: meta_fits_def fits_def pw_u8_def)
  let ?p = "pw_optional_u64 (md_duration_ms ?d) (pw_optional_u64 (md_position_ms ?d) w4)"
  have p: "length ?p \<le> length w4 + 18"
    using pw_optional_u64_length [of "md_duration_ms ?d" "pw_optional_u64 (md_position_ms ?d) w4"]
      pw_optional_u64_length [of "md_position_ms ?d" w4] by linarith
  obtain w5 where w5: "pw_optionals [md_device_name ?d, md_manufacturer ?d, md_model ?d] ?p = Inr w5" "length w5 \<le> length ?p + 3081"
    using pw_optionals_fit [of "[md_device_name ?d, md_manufacturer ?d, md_model ?d]" ?p] f by (auto simp: meta_fits_def fits_def)
  let ?q = "pw_u8 (case md_critical ?d of None \<Rightarrow> 0 | Some False \<Rightarrow> 1 | Some True \<Rightarrow> 2)
      (pw_u8 (case md_battery ?d of None \<Rightarrow> 255 | Some b \<Rightarrow> b) w5)"
  obtain w6 where w6: "pw_optional (map_option im_path (md_artwork ?d)) ?q = Inr w6" "length w6 \<le> length ?q + 4099"
  proof -
    have "\<forall>p. map_option im_path (md_artwork ?d) = Some p \<longrightarrow> length p \<le> 4096" using f by (auto simp: meta_fits_def)
    from pw_optional_fits [OF this, of ?q] that show thesis by auto
  qed
  have q: "length ?q = length w5 + 2" by (simp add: pw_u8_def)
  have "meta_message_of session device s = Inr \<lparr>im_kind = 11, im_payload = w6\<rparr>"
    unfolding meta_message_of_def Let_def w1 w2 bindr.simps w3 w4 w5 w6 ..
  moreover have "length w6 \<le> MAX_PAYLOAD"
    using w1(2) w2(2) w w3(2) w4(2) p w5(2) w6(2) q assms(2,3) by (simp add: MAX_PAYLOAD_def)
  ultimately show ?thesis by simp
qed

text \<open>What the daemon does with the metadata messages of a session.\<close>

fun meta_run :: "(u8 \<times> u16 \<times> u8 list \<times> (u8 list + u8 list) \<times> u64) list \<Rightarrow> meta_snapshot \<Rightarrow> meta_snapshot" where
  "meta_run [] s = s"
| "meta_run ((ch, i, body, disk, now) # ms) s =
     meta_run ms (case meta_parse ch i body of Inl _ \<Rightarrow> s | Inr u \<Rightarrow> fst (meta_apply disk now u s))"

lemma meta_run_fits:
  "meta_fits (ms_data s) \<Longrightarrow> (\<forall>(ch, i, body, disk, now) \<in> set ms. \<forall>p. disk = Inr p \<longrightarrow> length p \<le> 4096) \<Longrightarrow>
   meta_fits (ms_data (meta_run ms s))"
proof (induction ms arbitrary: s)
  case (Cons m ms)
  obtain ch i body disk now where m: "m = (ch, i, body, disk, now)" by (cases m)
  show ?case
  proof (cases "meta_parse ch i body")
    case (Inr u)
    have "meta_fits (ms_data (fst (meta_apply disk now u s)))"
      using meta_patch_fits [OF Cons.prems(1) meta_parse_fits [OF Inr], of disk] Cons.prems
      by (auto simp: meta_apply_def Let_def m)
    with Cons m Inr show ?thesis by simp
  qed (use Cons m in simp)
qed simp

section \<open>Properties\<close>

text \<open>An update of the metadata settles: applying it again reports no change and keeps the snapshot, its
  revision and its picture file included, whatever the clock says. A snapshot changes its revision, by one,
  exactly when its data changed. A track replaces every descriptive field, and a kept or stored picture is
  the one the track carries.\<close>

theorem metadata_update_settles:
  assumes "is_ok disk1 \<or> \<not> is_ok disk2" and "meta_apply disk1 now1 u s = (s', changed)"
  shows "meta_apply disk2 now2 u s' = (s', False)
    \<and> (changed \<longleftrightarrow> ms_data s' \<noteq> ms_data s) \<and> ms_revision s' = (if changed then sat_inc32 (ms_revision s) else ms_revision s)
    \<and> (case u of Track t ar al art dur \<Rightarrow>
          md_title (ms_data s') = t \<and> md_artist (ms_data s') = ar \<and> md_album (ms_data s') = al
          \<and> md_duration_ms (ms_data s') = dur \<and> (\<forall>i. md_artwork (ms_data s') = Some i \<longrightarrow> art = Some (im_data i))
        | _ \<Rightarrow> True)"
proof -
  have d: "ms_data s' = meta_patch disk1 u (ms_data s)"
    using assms(2) by (auto simp: meta_apply_def Let_def split: if_splits)
  then have "meta_apply disk2 now2 u s' = (s', False)"
    using meta_patch_again [OF assms(1), of u "ms_data s"] by (simp add: meta_apply_def)
  moreover have "(changed \<longleftrightarrow> ms_data s' \<noteq> ms_data s)
      \<and> ms_revision s' = (if changed then sat_inc32 (ms_revision s) else ms_revision s)"
    using assms(2) by (auto simp: meta_apply_def Let_def split: if_splits)
  ultimately show ?thesis
    using track_artwork_data by (cases u) (auto simp: d Let_def)
qed

theorem metadata_update_settles_witness:
  "meta_apply (Inr []) 9 (Battery (Some 70) None) (fst (meta_apply (Inr []) 5 (Battery (Some 70) None) meta_snapshot_default))
     = (fst (meta_apply (Inr []) 5 (Battery (Some 70) None) meta_snapshot_default), False)"
proof -
  have o: "is_ok (Inr [] :: u8 list + u8 list) \<or> \<not> is_ok (Inr [] :: u8 list + u8 list)" by simp
  show ?thesis
    using metadata_update_settles [OF o, of 5 "Battery (Some 70) None" meta_snapshot_default
        "fst (meta_apply (Inr []) 5 (Battery (Some 70) None) meta_snapshot_default)"
        "snd (meta_apply (Inr []) 5 (Battery (Some 70) None) meta_snapshot_default)" 9]
    by simp
qed

text \<open>Whatever metadata messages a phone sends, the snapshot can be reported: as long as session, device and
  picture paths have at most 4096 bytes, its message is written without error and fits one frame.\<close>

theorem metadata_reportable:
  assumes "\<forall>(ch, i, body, disk, now) \<in> set ms. \<forall>p. disk = Inr p \<longrightarrow> length p \<le> 4096"
    and "length session \<le> 4096" and "length device \<le> 4096"
  shows "\<exists>m. meta_message_of session device (meta_run ms meta_snapshot_default) = Inr m \<and> is_ok (ipc_encode m)"
proof -
  have "meta_fits (ms_data (meta_run ms meta_snapshot_default))"
    by (rule meta_run_fits [OF _ assms(1)]) (simp add: meta_snapshot_default_def meta_default_fits)
  then obtain m where "meta_message_of session device (meta_run ms meta_snapshot_default) = Inr m"
      "length (im_payload m) \<le> MAX_PAYLOAD"
    using meta_message_fits [OF _ assms(2,3)] by blast
  then show ?thesis by (simp add: ipc_encode_def)
qed

theorem metadata_reportable_witness:
  "\<exists>m. meta_message_of (str ''s'') (str ''d'') (meta_run [(0, 23, pb_message [PNum 1 70], Inr [], 5)] meta_snapshot_default) = Inr m
     \<and> is_ok (ipc_encode m)"
  by (rule metadata_reportable) simp_all

end
