(* ===== verification/Daemon_State.thy ===== *)
theory Daemon_State
  imports Metadata
begin

text \<open>
  The runtime snapshot of the projection daemon and the messages that report a change of it to the host
  application (\<open>native/projection/argo-projectiond/src/daemon_state.rs\<close>), with a mirror: the state a client
  rebuilds from the messages.
\<close>

section \<open>Snapshot\<close>

definition IPC_HELLO :: u16 where "IPC_HELLO = 1"
definition IPC_DEVICE :: u16 where "IPC_DEVICE = 2"
definition IPC_SESSION :: u16 where "IPC_SESSION = 3"
definition IPC_ERROR :: u16 where "IPC_ERROR = 6"
definition IPC_DEVICE_REMOVED :: u16 where "IPC_DEVICE_REMOVED = 7"
definition IPC_SESSION_REMOVED :: u16 where "IPC_SESSION_REMOVED = 8"

lemmas ipc_kinds = IPC_HELLO_def IPC_DEVICE_def IPC_SESSION_def IPC_ERROR_def IPC_DEVICE_REMOVED_def IPC_SESSION_REMOVED_def

record device_status =
  dv_id :: "u8 list"
  dv_display_name :: "u8 list"
  dv_transport :: u8

datatype session_status = Connecting | Ready | Streaming | Suspended | Failed

fun status_wire :: "session_status \<Rightarrow> u8" where
  "status_wire Connecting = 0"
| "status_wire Ready = 1"
| "status_wire Streaming = 2"
| "status_wire Suspended = 3"
| "status_wire Failed = 4"

record session_snapshot =
  sn_id :: "u8 list"
  sn_device_id :: "u8 list"
  sn_state :: session_status
  sn_failure :: "u8 list option"

record runtime_snapshot =
  rs_device :: "device_status option"
  rs_session :: "session_snapshot option"
  rs_video_codec :: video_codec
  rs_video :: "(display_config \<times> bool) option"
  rs_audio :: "bool list"
  rs_host_return :: u32
  rs_presentation :: u32
  rs_metadata :: meta_snapshot

definition runtime_default :: runtime_snapshot where
  "runtime_default = \<lparr>rs_device = None, rs_session = None, rs_video_codec = H264, rs_video = None,
     rs_audio = [False, False, False], rs_host_return = 0, rs_presentation = 0, rs_metadata = meta_snapshot_default\<rparr>"

definition rs_connecting :: "u8 list \<Rightarrow> u8 list \<Rightarrow> runtime_snapshot" where
  "rs_connecting device_id name = runtime_default
     \<lparr>rs_device := Some \<lparr>dv_id = device_id, dv_display_name = name, dv_transport = 0\<rparr>,
      rs_session := Some \<lparr>sn_id = str ''aa-wired:'' @ device_id, sn_device_id = device_id, sn_state = Connecting, sn_failure = None\<rparr>\<rparr>"

definition rs_update_metadata ::
  "u8 list + u8 list \<Rightarrow> u64 \<Rightarrow> u8 list \<Rightarrow> meta_update \<Rightarrow> runtime_snapshot \<Rightarrow> runtime_snapshot \<times> bool" where
  "rs_update_metadata disk now i u s =
     (if (case rs_session s of Some n \<Rightarrow> sn_id n = i \<and> sn_state n \<noteq> Failed | None \<Rightarrow> False)
      then (case meta_apply disk now u (rs_metadata s) of (m, changed) \<Rightarrow> (s\<lparr>rs_metadata := m\<rparr>, changed))
      else (s, False))"

definition rs_ready :: "runtime_snapshot \<Rightarrow> runtime_snapshot" where
  "rs_ready s = s\<lparr>rs_session := map_option (\<lambda>n. n\<lparr>sn_state := Ready, sn_failure := None\<rparr>) (rs_session s)\<rparr>"

definition rs_failed :: "u8 list \<Rightarrow> runtime_snapshot \<Rightarrow> runtime_snapshot" where
  "rs_failed why s =
     s\<lparr>rs_metadata := meta_snapshot_default, rs_video := None, rs_audio := [False, False, False],
       rs_session := map_option (\<lambda>n. n\<lparr>sn_state := Failed, sn_failure := Some why\<rparr>) (rs_session s)\<rparr>"

section \<open>Messages\<close>

definition removed_message :: "u16 \<Rightarrow> u8 list \<Rightarrow> decode_error + ipc_message" where
  "removed_message kind i = bindr (pw_string i []) (\<lambda>w. Inr \<lparr>im_kind = kind, im_payload = w\<rparr>)"

definition device_message :: "device_status \<Rightarrow> decode_error + ipc_message" where
  "device_message d =
     bindr (pw_string (dv_id d) []) (\<lambda>w. bindr (pw_string (dv_display_name d) w) (\<lambda>w.
       Inr \<lparr>im_kind = IPC_DEVICE, im_payload = pw_u8 (dv_transport d) (pw_u8 0 w)\<rparr>))"

definition session_message :: "session_snapshot \<Rightarrow> u32 \<Rightarrow> decode_error + ipc_message" where
  "session_message n host_return =
     bindr (pw_string (sn_id n) []) (\<lambda>w. bindr (pw_string (sn_device_id n) w) (\<lambda>w.
     bindr (pw_string (case sn_failure n of Some f \<Rightarrow> f | None \<Rightarrow> []) (pw_u8 (status_wire (sn_state n)) w)) (\<lambda>w.
       Inr \<lparr>im_kind = IPC_SESSION, im_payload = pw_u32 host_return w\<rparr>)))"

definition video_message ::
  "session_snapshot \<Rightarrow> video_codec \<Rightarrow> display_config \<Rightarrow> bool \<Rightarrow> u32 \<Rightarrow> decode_error + ipc_message" where
  "video_message n codec d visible presentation =
     bindr (pw_string (sn_id n) []) (\<lambda>w. bindr (pw_string (sn_id n @ str '':main'') w) (\<lambda>w.
       let w = pw_u8 (dc_fps d) (pw_u16 (dc_height d) (pw_u16 (dc_width d) (pw_u8 (codec_wire codec) (pw_u8 0 w))));
           w = write_insets (dc_safe d) (write_insets (dc_view d) w);
           w = pw_u8 (bool_u8 visible) (pw_u8 (bool_u8 visible) w) in
       Inr \<lparr>im_kind = 4, im_payload = pw_u32 presentation w\<rparr>))"

definition audio_names :: "u8 list list" where
  "audio_names = [str ''media'', str ''speech'', str ''system'']"

definition audio_message :: "session_snapshot \<Rightarrow> nat \<Rightarrow> bool \<Rightarrow> decode_error + ipc_message" where
  "audio_message n i active =
     bindr (pw_string (sn_id n) []) (\<lambda>w. bindr (pw_string (audio_names ! i) w) (\<lambda>w.
       let w = pw_u8 (bool_u8 active) (pw_u8 (bool_u8 active) (pw_u8 (of_nat i) w)); f = AUDIO ! i in
       Inr \<lparr>im_kind = 5, im_payload = pw_u8 (af_channels f) (pw_u8 (af_bits f) (pw_u16 (af_rate f) w))\<rparr>))"

text \<open>\<open>messages.push(m?)\<close> when a condition holds.\<close>

definition push_if :: "bool \<Rightarrow> 'e + 'a \<Rightarrow> 'a list \<Rightarrow> 'e + 'a list" where
  "push_if c m ms = (if c then bindr m (\<lambda>x. Inr (ms @ [x])) else Inr ms)"

definition audio_changed :: "runtime_snapshot \<Rightarrow> runtime_snapshot \<Rightarrow> nat \<Rightarrow> bool" where
  "audio_changed p c i \<longleftrightarrow>
     rs_audio c ! i \<noteq> rs_audio p ! i \<or> rs_audio c ! i \<and> rs_session p \<noteq> rs_session c"

definition stream_messages ::
  "runtime_snapshot \<Rightarrow> runtime_snapshot \<Rightarrow> session_snapshot \<Rightarrow> ipc_message list \<Rightarrow> decode_error + ipc_message list" where
  "stream_messages p c n ms =
     bindr (push_if (rs_metadata p \<noteq> rs_metadata c \<or> map_option sn_id (rs_session p) \<noteq> Some (sn_id n))
              (meta_message_of (sn_id n) (sn_device_id n) (rs_metadata c)) ms) (\<lambda>ms.
     bindr (case rs_video c of
              None \<Rightarrow> Inr ms
            | Some (d, visible) \<Rightarrow>
                push_if (rs_video p \<noteq> rs_video c \<or> rs_session p \<noteq> rs_session c
                         \<or> rs_presentation p \<noteq> rs_presentation c \<or> rs_video_codec p \<noteq> rs_video_codec c)
                  (video_message n (rs_video_codec c) d visible (rs_presentation c)) ms) (\<lambda>ms.
     bindr (push_if (audio_changed p c 0) (audio_message n 0 (rs_audio c ! 0)) ms) (\<lambda>ms.
     bindr (push_if (audio_changed p c 1) (audio_message n 1 (rs_audio c ! 1)) ms) (\<lambda>ms.
       push_if (audio_changed p c 2) (audio_message n 2 (rs_audio c ! 2)) ms))))"

definition snapshot_messages ::
  "runtime_snapshot \<Rightarrow> runtime_snapshot \<Rightarrow> decode_error + ipc_message list" where
  "snapshot_messages p c =
     bindr (case rs_session p of
              None \<Rightarrow> Inr []
            | Some n \<Rightarrow> push_if (Some (sn_id n) \<noteq> map_option sn_id (rs_session c)) (removed_message IPC_SESSION_REMOVED (sn_id n)) [])
       (\<lambda>ms.
     bindr (case rs_device p of
              None \<Rightarrow> Inr ms
            | Some d \<Rightarrow> push_if (Some (dv_id d) \<noteq> map_option dv_id (rs_device c)) (removed_message IPC_DEVICE_REMOVED (dv_id d)) ms)
       (\<lambda>ms.
     bindr (case rs_device c of
              None \<Rightarrow> Inr ms
            | Some d \<Rightarrow> push_if (rs_device p \<noteq> rs_device c) (device_message d) ms)
       (\<lambda>ms.
     case rs_session c of
       None \<Rightarrow> Inr ms
     | Some n \<Rightarrow>
         bindr (push_if (rs_session p \<noteq> rs_session c \<or> rs_host_return p \<noteq> rs_host_return c)
                  (session_message n (rs_host_return c)) ms)
           (stream_messages p c n))))"

section \<open>Mirror\<close>

text \<open>A client that keeps the last message of each kind, forgets a session with everything that belongs to it
  and a stream that is announced as inactive.\<close>

record mirror =
  mi_device :: "ipc_message option"
  mi_session :: "ipc_message option"
  mi_metadata :: "ipc_message option"
  mi_video :: "ipc_message option"
  mi_audio :: "u8 \<Rightarrow> ipc_message option"

definition mirror_empty :: mirror where
  "mirror_empty = \<lparr>mi_device = None, mi_session = None, mi_metadata = None, mi_video = None, mi_audio = \<lambda>_. None\<rparr>"

definition skip_string :: "u8 list \<Rightarrow> u8 list" where
  "skip_string bs = drop (2 + unat (from_be16 (bs ! 0) (bs ! 1))) bs"

definition mirror_step :: "mirror \<Rightarrow> ipc_message \<Rightarrow> mirror" where
  "mirror_step m x =
     (if im_kind x = IPC_DEVICE then m\<lparr>mi_device := Some x\<rparr>
      else if im_kind x = IPC_DEVICE_REMOVED then m\<lparr>mi_device := None\<rparr>
      else if im_kind x = IPC_SESSION then m\<lparr>mi_session := Some x\<rparr>
      else if im_kind x = IPC_SESSION_REMOVED
      then m\<lparr>mi_session := None, mi_metadata := None, mi_video := None, mi_audio := \<lambda>_. None\<rparr>
      else if im_kind x = 11 then m\<lparr>mi_metadata := Some x\<rparr>
      else if im_kind x = 4 then m\<lparr>mi_video := Some x\<rparr>
      else if im_kind x = 5 then
        (let rest = skip_string (skip_string (im_payload x)) in
         m\<lparr>mi_audio := (mi_audio m)(rest ! 0 := (if rest ! 1 = 0 then None else Some x))\<rparr>)
      else m)"

definition says :: "ipc_message option \<Rightarrow> ('e + ipc_message) option \<Rightarrow> bool" where
  "says have want \<longleftrightarrow> map_option Inr have = want"

text \<open>The mirror shows a snapshot. A video description that ended is not announced by a message of its own (the
  state of the session tells), so it is only required while there is one.\<close>

definition in_sync :: "mirror \<Rightarrow> runtime_snapshot \<Rightarrow> bool" where
  "in_sync m s \<longleftrightarrow>
     says (mi_device m) (map_option device_message (rs_device s))
     \<and> says (mi_session m) (map_option (\<lambda>n. session_message n (rs_host_return s)) (rs_session s))
     \<and> says (mi_metadata m)
         (map_option (\<lambda>n. meta_message_of (sn_id n) (sn_device_id n) (rs_metadata s)) (rs_session s))
     \<and> (\<forall>n d visible. rs_session s = Some n \<and> rs_video s = Some (d, visible) \<longrightarrow>
          says (mi_video m) (Some (video_message n (rs_video_codec s) d visible (rs_presentation s))))
     \<and> (\<forall>i < 3. says (mi_audio m (of_nat i))
          (case rs_session s of
             Some n \<Rightarrow> if rs_audio s ! i then Some (audio_message n i True) else None
           | None \<Rightarrow> None))"

section \<open>Lemmas\<close>

lemma pw_string_Inr: "pw_string s w = Inr w' \<Longrightarrow> w' = w @ to_be16 (of_nat (length s)) @ s \<and> length s \<le> 4096"
  by (auto simp: pw_string_def pw_u16_def split: if_splits)

lemma skip_string_at: "length s \<le> 4096 \<Longrightarrow> skip_string (to_be16 (of_nat (length s)) @ s @ r) = r"
proof -
  assume l: "length s \<le> 4096"
  have u: "unat (of_nat (length s) :: u16) = length s" using l by (simp add: unat_of_nat)
  have h: "from_be16 ((to_be16 (of_nat (length s)) @ s @ r) ! 0) ((to_be16 (of_nat (length s)) @ s @ r) ! 1) = of_nat (length s)"
    by (simp add: nth_append from_to_be16 [simplified])
  show ?thesis unfolding skip_string_def h u by simp
qed

lemma message_kinds:
  "removed_message k i = Inr x \<Longrightarrow> im_kind x = k"
  "device_message d = Inr x \<Longrightarrow> im_kind x = IPC_DEVICE"
  "session_message n r = Inr x \<Longrightarrow> im_kind x = IPC_SESSION"
  "meta_message_of e b s = Inr x \<Longrightarrow> im_kind x = 11"
  "video_message n c dc v r = Inr x \<Longrightarrow> im_kind x = 4"
  "audio_message n j a = Inr x \<Longrightarrow> im_kind x = 5"
  by (auto simp: removed_message_def device_message_def session_message_def meta_message_of_def video_message_def
      audio_message_def Let_def)

lemma mirror_removed:
  "removed_message IPC_SESSION_REMOVED i = Inr x \<Longrightarrow>
   mirror_step m x = m\<lparr>mi_session := None, mi_metadata := None, mi_video := None, mi_audio := \<lambda>_. None\<rparr>"
  "removed_message IPC_DEVICE_REMOVED i = Inr x \<Longrightarrow> mirror_step m x = m\<lparr>mi_device := None\<rparr>"
  by (simp_all add: mirror_step_def message_kinds ipc_kinds)

lemma mirror_shown:
  "device_message d = Inr x \<Longrightarrow> mirror_step m x = m\<lparr>mi_device := Some x\<rparr>"
  "session_message n r = Inr x \<Longrightarrow> mirror_step m x = m\<lparr>mi_session := Some x\<rparr>"
  "meta_message_of a b s = Inr x \<Longrightarrow> mirror_step m x = m\<lparr>mi_metadata := Some x\<rparr>"
  "video_message n c dc v r = Inr x \<Longrightarrow> mirror_step m x = m\<lparr>mi_video := Some x\<rparr>"
  by (simp_all add: mirror_step_def message_kinds ipc_kinds)

lemma audio_payload:
  assumes "audio_message n i a = Inr x"
  shows "\<exists>r. skip_string (skip_string (im_payload x)) = of_nat i # bool_u8 a # r"
proof -
  obtain w1 w2 where w: "pw_string (sn_id n) [] = Inr w1" "pw_string (audio_names ! i) w1 = Inr w2"
    "im_payload x = w2 @ of_nat i # bool_u8 a # bool_u8 a # to_be16 (af_rate (AUDIO ! i)) @ [af_bits (AUDIO ! i), af_channels (AUDIO ! i)]"
    using assms by (auto simp: audio_message_def Let_def pw_u8_def pw_u16_def)
  have "im_payload x = to_be16 (of_nat (length (sn_id n))) @ sn_id n @ to_be16 (of_nat (length (audio_names ! i))) @ audio_names ! i
      @ of_nat i # bool_u8 a # bool_u8 a # to_be16 (af_rate (AUDIO ! i)) @ [af_bits (AUDIO ! i), af_channels (AUDIO ! i)]"
    using pw_string_Inr [OF w(1)] pw_string_Inr [OF w(2)] w(3) by simp
  then show ?thesis
    using pw_string_Inr [OF w(1)] pw_string_Inr [OF w(2)] by (simp only: skip_string_at) blast
qed

lemma mirror_audio:
  assumes "audio_message n i a = Inr x"
  shows "mirror_step m x = m\<lparr>mi_audio := (mi_audio m)(of_nat i := (if a then Some x else None))\<rparr>"
proof -
  obtain r where "skip_string (skip_string (im_payload x)) = of_nat i # bool_u8 a # r"
    using audio_payload [OF assms] by blast
  then show ?thesis
    using message_kinds(6) [OF assms] by (simp add: mirror_step_def ipc_kinds Let_def bool_u8_def)
qed

lemma push_if_fold:
  "push_if c r ms = Inr ms' \<Longrightarrow>
   \<exists>x. (c \<longrightarrow> r = Inr x) \<and> foldl f m ms' = (if c then f (foldl f m ms) x else foldl f m ms)"
  by (auto simp: push_if_def split: if_splits)

lemma audio_stage:
  assumes "push_if c (audio_message n i a) ms = Inr ms'"
  shows "\<exists>x. (c \<longrightarrow> audio_message n i a = Inr x)
    \<and> foldl mirror_step m ms' = (foldl mirror_step m ms)\<lparr>mi_audio :=
        (if c then (mi_audio (foldl mirror_step m ms))(of_nat i := (if a then Some x else None))
         else mi_audio (foldl mirror_step m ms))\<rparr>"
  using push_if_fold [OF assms, of mirror_step m] mirror_audio by (auto split: if_splits)

definition metadata_changed :: "runtime_snapshot \<Rightarrow> runtime_snapshot \<Rightarrow> session_snapshot \<Rightarrow> bool" where
  "metadata_changed p c n \<longleftrightarrow> rs_metadata p \<noteq> rs_metadata c \<or> map_option sn_id (rs_session p) \<noteq> Some (sn_id n)"

definition video_changed :: "runtime_snapshot \<Rightarrow> runtime_snapshot \<Rightarrow> bool" where
  "video_changed p c \<longleftrightarrow> rs_video c \<noteq> None \<and>
     (rs_video p \<noteq> rs_video c \<or> rs_session p \<noteq> rs_session c
      \<or> rs_presentation p \<noteq> rs_presentation c \<or> rs_video_codec p \<noteq> rs_video_codec c)"

lemma meta_stage:
  assumes "push_if b (meta_message_of i j s) ms = Inr ms'"
  shows "\<exists>x. (b \<longrightarrow> meta_message_of i j s = Inr x)
    \<and> foldl mirror_step m ms' = (foldl mirror_step m ms)\<lparr>mi_metadata := (if b then Some x else mi_metadata (foldl mirror_step m ms))\<rparr>"
  using push_if_fold [OF assms, of mirror_step m] mirror_shown(3) by (auto split: if_splits)

lemma session_stage:
  assumes "push_if b (session_message n r) ms = Inr ms'"
  shows "\<exists>x. (b \<longrightarrow> session_message n r = Inr x)
    \<and> foldl mirror_step m ms' = (foldl mirror_step m ms)\<lparr>mi_session := (if b then Some x else mi_session (foldl mirror_step m ms))\<rparr>"
  using push_if_fold [OF assms, of mirror_step m] mirror_shown(2) by (auto split: if_splits)

lemma video_stage:
  assumes "(case v of None \<Rightarrow> Inr ms | Some (d, visible) \<Rightarrow> push_if b (video_message n k d visible r) ms) = Inr ms'"
  shows "\<exists>x. (\<forall>d visible. v = Some (d, visible) \<and> b \<longrightarrow> video_message n k d visible r = Inr x)
    \<and> foldl mirror_step m ms' = (foldl mirror_step m ms)\<lparr>mi_video :=
        (if v \<noteq> None \<and> b then Some x else mi_video (foldl mirror_step m ms))\<rparr>"
proof (cases v)
  case (Some dv)
  obtain d visible where dv: "dv = (d, visible)" by (cases dv)
  with assms Some have "push_if b (video_message n k d visible r) ms = Inr ms'" by simp
  from push_if_fold [OF this, of mirror_step m] mirror_shown(4) show ?thesis
    by (auto simp: Some dv split: if_splits)
qed (use assms in simp)

lemma stream_messages_fold:
  assumes "stream_messages p c n ms = Inr ms'"
  shows "\<exists>x y z. (metadata_changed p c n \<longrightarrow> meta_message_of (sn_id n) (sn_device_id n) (rs_metadata c) = Inr x)
    \<and> (\<forall>d v. rs_video c = Some (d, v) \<and> video_changed p c \<longrightarrow>
         video_message n (rs_video_codec c) d v (rs_presentation c) = Inr y)
    \<and> (\<forall>i < 3. audio_changed p c i \<longrightarrow> audio_message n i (rs_audio c ! i) = Inr (z i))
    \<and> mi_device (foldl mirror_step m ms') = mi_device (foldl mirror_step m ms)
    \<and> mi_session (foldl mirror_step m ms') = mi_session (foldl mirror_step m ms)
    \<and> mi_metadata (foldl mirror_step m ms') = (if metadata_changed p c n then Some x else mi_metadata (foldl mirror_step m ms))
    \<and> mi_video (foldl mirror_step m ms') = (if video_changed p c then Some y else mi_video (foldl mirror_step m ms))
    \<and> (\<forall>i < 3. mi_audio (foldl mirror_step m ms') (of_nat i) =
         (if audio_changed p c i then (if rs_audio c ! i then Some (z i) else None)
          else mi_audio (foldl mirror_step m ms) (of_nat i)))"
proof -
  let ?f = "foldl mirror_step m"
  obtain m1 m2 m3 m4 where
    s1: "push_if (metadata_changed p c n) (meta_message_of (sn_id n) (sn_device_id n) (rs_metadata c)) ms = Inr m1" and
    s2: "(case rs_video c of None \<Rightarrow> Inr m1 | Some (d, visible) \<Rightarrow>
       push_if (rs_video p \<noteq> rs_video c \<or> rs_session p \<noteq> rs_session c
         \<or> rs_presentation p \<noteq> rs_presentation c \<or> rs_video_codec p \<noteq> rs_video_codec c)
         (video_message n (rs_video_codec c) d visible (rs_presentation c)) m1) = Inr m2" and
    s3: "push_if (audio_changed p c 0) (audio_message n 0 (rs_audio c ! 0)) m2 = Inr m3" and
    s4: "push_if (audio_changed p c 1) (audio_message n 1 (rs_audio c ! 1)) m3 = Inr m4" and
    s5: "push_if (audio_changed p c 2) (audio_message n 2 (rs_audio c ! 2)) m4 = Inr ms'"
    using assms unfolding stream_messages_def metadata_changed_def by (auto simp only: bindr_eq_Inr)
  obtain x where x: "metadata_changed p c n \<longrightarrow> meta_message_of (sn_id n) (sn_device_id n) (rs_metadata c) = Inr x"
    "?f m1 = (?f ms)\<lparr>mi_metadata := (if metadata_changed p c n then Some x else mi_metadata (?f ms))\<rparr>"
    using meta_stage [OF s1] by blast
  obtain y where y: "\<forall>d v. rs_video c = Some (d, v) \<and> video_changed p c \<longrightarrow>
         video_message n (rs_video_codec c) d v (rs_presentation c) = Inr y"
    "?f m2 = (?f m1)\<lparr>mi_video := (if video_changed p c then Some y else mi_video (?f m1))\<rparr>"
    using video_stage [OF s2, of m] by (auto simp: video_changed_def)
  obtain z0 where z0: "audio_changed p c 0 \<longrightarrow> audio_message n 0 (rs_audio c ! 0) = Inr z0"
    "?f m3 = (?f m2)\<lparr>mi_audio := (if audio_changed p c 0 then (mi_audio (?f m2))(of_nat 0 := (if rs_audio c ! 0 then Some z0 else None))
         else mi_audio (?f m2))\<rparr>"
    using audio_stage [OF s3, of m] by blast
  obtain z1 where z1: "audio_changed p c 1 \<longrightarrow> audio_message n 1 (rs_audio c ! 1) = Inr z1"
    "?f m4 = (?f m3)\<lparr>mi_audio := (if audio_changed p c 1 then (mi_audio (?f m3))(of_nat 1 := (if rs_audio c ! 1 then Some z1 else None))
         else mi_audio (?f m3))\<rparr>"
    using audio_stage [OF s4, of m] by blast
  obtain z2 where z2: "audio_changed p c 2 \<longrightarrow> audio_message n 2 (rs_audio c ! 2) = Inr z2"
    "?f ms' = (?f m4)\<lparr>mi_audio := (if audio_changed p c 2 then (mi_audio (?f m4))(of_nat 2 := (if rs_audio c ! 2 then Some z2 else None))
         else mi_audio (?f m4))\<rparr>"
    using audio_stage [OF s5, of m] by blast
  let ?z = "\<lambda>i :: nat. if i = 0 then z0 else if i = 1 then z1 else z2"
  have three: "i = 0 \<or> i = 1 \<or> i = 2" if "i < (3 :: nat)" for i using that by auto
  have "\<forall>i < 3. audio_changed p c i \<longrightarrow> audio_message n i (rs_audio c ! i) = Inr (?z i)"
    using z0(1) z1(1) z2(1) three by fastforce
  moreover have "\<forall>i < 3. mi_audio (?f ms') (of_nat i) =
      (if audio_changed p c i then (if rs_audio c ! i then Some (?z i) else None) else mi_audio (?f ms) (of_nat i))"
  proof (intro allI impI)
    fix i :: nat
    assume "i < 3"
    then consider "i = 0" | "i = 1" | "i = 2" by linarith
    then show "mi_audio (?f ms') (of_nat i) =
      (if audio_changed p c i then (if rs_audio c ! i then Some (?z i) else None) else mi_audio (?f ms) (of_nat i))"
      by cases (simp_all add: x(2) y(2) z0(2) z1(2) z2(2))
  qed
  ultimately show ?thesis
    using x y z0(2) z1(2) z2(2) by (intro exI [of _ x] exI [of _ y] exI [of _ ?z]) simp
qed

text \<open>A session keeps its device.\<close>

definition same_device :: "runtime_snapshot \<Rightarrow> runtime_snapshot \<Rightarrow> bool" where
  "same_device p c \<longleftrightarrow> (\<forall>n n'. rs_session p = Some n \<and> rs_session c = Some n' \<and> sn_id n = sn_id n' \<longrightarrow>
     sn_device_id n = sn_device_id n')"

text \<open>The first three steps: removals and the device.\<close>

lemma head_stage:
  assumes "(case rs_session p of None \<Rightarrow> Inr []
      | Some n \<Rightarrow> push_if (Some (sn_id n) \<noteq> map_option sn_id (rs_session c)) (removed_message IPC_SESSION_REMOVED (sn_id n)) []) = Inr m1"
    and "(case rs_device p of None \<Rightarrow> Inr m1
      | Some d \<Rightarrow> push_if (Some (dv_id d) \<noteq> map_option dv_id (rs_device c)) (removed_message IPC_DEVICE_REMOVED (dv_id d)) m1) = Inr m2"
    and "(case rs_device c of None \<Rightarrow> Inr m2 | Some d \<Rightarrow> push_if (rs_device p \<noteq> rs_device c) (device_message d) m2) = Inr m3"
    and "in_sync m p"
  shows "says (mi_device (foldl mirror_step m m3)) (map_option device_message (rs_device c))
    \<and> (if rs_session p \<noteq> None \<and> map_option sn_id (rs_session p) \<noteq> map_option sn_id (rs_session c)
       then mi_session (foldl mirror_step m m3) = None \<and> mi_metadata (foldl mirror_step m m3) = None
         \<and> mi_video (foldl mirror_step m m3) = None \<and> (\<forall>i. mi_audio (foldl mirror_step m m3) i = None)
       else mi_session (foldl mirror_step m m3) = mi_session m \<and> mi_metadata (foldl mirror_step m m3) = mi_metadata m
         \<and> mi_video (foldl mirror_step m m3) = mi_video m \<and> mi_audio (foldl mirror_step m m3) = mi_audio m)"
proof -
  let ?f = "foldl mirror_step m" and ?gone = "rs_session p \<noteq> None \<and> map_option sn_id (rs_session p) \<noteq> map_option sn_id (rs_session c)"
  have f1: "?f m1 = (if ?gone then m\<lparr>mi_session := None, mi_metadata := None, mi_video := None, mi_audio := \<lambda>_. None\<rparr> else m)"
  proof (cases "rs_session p")
    case (Some n)
    with assms(1) have "push_if (Some (sn_id n) \<noteq> map_option sn_id (rs_session c)) (removed_message IPC_SESSION_REMOVED (sn_id n)) [] = Inr m1"
      by simp
    from push_if_fold [OF this, of mirror_step m] mirror_removed(1) show ?thesis by (auto simp: Some)
  qed (use assms(1) in simp)
  have f2: "?f m2 = (if rs_device p \<noteq> None \<and> map_option dv_id (rs_device p) \<noteq> map_option dv_id (rs_device c)
      then (?f m1)\<lparr>mi_device := None\<rparr> else ?f m1)"
  proof (cases "rs_device p")
    case (Some d)
    with assms(2) have "push_if (Some (dv_id d) \<noteq> map_option dv_id (rs_device c)) (removed_message IPC_DEVICE_REMOVED (dv_id d)) m1 = Inr m2"
      by simp
    from push_if_fold [OF this, of mirror_step m] mirror_removed(2) show ?thesis by (auto simp: Some)
  qed (use assms(2) in simp)
  have f3: "\<exists>x. (\<forall>d. rs_device c = Some d \<and> rs_device p \<noteq> rs_device c \<longrightarrow> device_message d = Inr x)
      \<and> ?f m3 = (?f m2)\<lparr>mi_device := (if rs_device c \<noteq> None \<and> rs_device p \<noteq> rs_device c then Some x else mi_device (?f m2))\<rparr>"
  proof (cases "rs_device c")
    case (Some d)
    with assms(3) have "push_if (rs_device p \<noteq> rs_device c) (device_message d) m2 = Inr m3" by simp
    from push_if_fold [OF this, of mirror_step m] mirror_shown(1) show ?thesis by (auto simp: Some split: if_splits)
  qed (use assms(3) in simp)
  then obtain x where x: "\<forall>d. rs_device c = Some d \<and> rs_device p \<noteq> rs_device c \<longrightarrow> device_message d = Inr x"
    "?f m3 = (?f m2)\<lparr>mi_device := (if rs_device c \<noteq> None \<and> rs_device p \<noteq> rs_device c then Some x else mi_device (?f m2))\<rparr>"
    by blast
  have d0: "says (mi_device m) (map_option device_message (rs_device p))" using assms(4) by (simp add: in_sync_def)
  have "says (mi_device (?f m3)) (map_option device_message (rs_device c))"
  proof (cases "rs_device p = rs_device c")
    case True
    then show ?thesis using d0 by (simp add: x(2) f2 f1)
  next
    case False
    show ?thesis
    proof (cases "rs_device c")
      case None
      with False show ?thesis by (auto simp: says_def x(2) f2)
    next
      case (Some d)
      with False x(1) have "device_message d = Inr x" by simp
      with Some False show ?thesis by (simp add: says_def x(2))
    qed
  qed
  then show ?thesis by (simp add: x(2) f2 f1)
qed

lemma snapshot_step:
  assumes "in_sync m p" and "same_device p c" and "snapshot_messages p c = Inr ms"
  shows "in_sync (foldl mirror_step m ms) c"
proof -
  let ?f = "foldl mirror_step m"
  obtain m1 m2 m3 where s: "(case rs_session p of None \<Rightarrow> Inr []
      | Some n \<Rightarrow> push_if (Some (sn_id n) \<noteq> map_option sn_id (rs_session c)) (removed_message IPC_SESSION_REMOVED (sn_id n)) []) = Inr m1"
    "(case rs_device p of None \<Rightarrow> Inr m1
      | Some d \<Rightarrow> push_if (Some (dv_id d) \<noteq> map_option dv_id (rs_device c)) (removed_message IPC_DEVICE_REMOVED (dv_id d)) m1) = Inr m2"
    "(case rs_device c of None \<Rightarrow> Inr m2 | Some d \<Rightarrow> push_if (rs_device p \<noteq> rs_device c) (device_message d) m2) = Inr m3"
    "(case rs_session c of None \<Rightarrow> Inr m3 | Some n \<Rightarrow>
         bindr (push_if (rs_session p \<noteq> rs_session c \<or> rs_host_return p \<noteq> rs_host_return c)
                  (session_message n (rs_host_return c)) m3) (stream_messages p c n)) = Inr ms"
    using assms(3) unfolding snapshot_messages_def by (auto simp only: bindr_eq_Inr)
  note h = head_stage [OF s(1-3) assms(1)]
  note p = assms(1) [unfolded in_sync_def]
  show ?thesis
  proof (cases "rs_session c")
    case None
    with s(4) have "ms = m3" by simp
    with h p None show ?thesis by (cases "rs_session p") (auto simp: in_sync_def says_def)
  next
    case (Some n)
    then obtain m4 where s4: "push_if (rs_session p \<noteq> rs_session c \<or> rs_host_return p \<noteq> rs_host_return c)
                  (session_message n (rs_host_return c)) m3 = Inr m4"
      and s5: "stream_messages p c n m4 = Inr ms" using s(4) by auto
    obtain x where x: "(rs_session p \<noteq> rs_session c \<or> rs_host_return p \<noteq> rs_host_return c) \<longrightarrow> session_message n (rs_host_return c) = Inr x"
      and m4: "?f m4 = (?f m3)\<lparr>mi_session := (if rs_session p \<noteq> rs_session c \<or> rs_host_return p \<noteq> rs_host_return c
          then Some x else mi_session (?f m3))\<rparr>"
      using session_stage [OF s4, of m] by blast
    from stream_messages_fold [OF s5, of m] obtain y v z where
      y: "metadata_changed p c n \<longrightarrow> meta_message_of (sn_id n) (sn_device_id n) (rs_metadata c) = Inr y"
      and v: "\<forall>d w. rs_video c = Some (d, w) \<and> video_changed p c \<longrightarrow>
         video_message n (rs_video_codec c) d w (rs_presentation c) = Inr v"
      and z: "\<And>i. i < 3 \<Longrightarrow> audio_changed p c i \<Longrightarrow> audio_message n i (rs_audio c ! i) = Inr (z i)"
      and fd: "mi_device (?f ms) = mi_device (?f m4)"
      and fs: "mi_session (?f ms) = mi_session (?f m4)"
      and fm: "mi_metadata (?f ms) = (if metadata_changed p c n then Some y else mi_metadata (?f m4))"
      and fv: "mi_video (?f ms) = (if video_changed p c then Some v else mi_video (?f m4))"
      and fa: "\<And>i. i < 3 \<Longrightarrow> mi_audio (?f ms) (of_nat i) =
         (if audio_changed p c i then (if rs_audio c ! i then Some (z i) else None) else mi_audio (?f m4) (of_nat i))"
      by auto
    have dev: "says (mi_device (?f ms)) (map_option device_message (rs_device c))"
      using h by (simp add: fd m4)
    have ses: "says (mi_session (?f ms)) (Some (session_message n (rs_host_return c)))"
      using x h p Some by (auto simp: fs m4 says_def split: if_splits)
    have met: "says (mi_metadata (?f ms)) (Some (meta_message_of (sn_id n) (sn_device_id n) (rs_metadata c)))"
    proof (cases "metadata_changed p c n")
      case True
      with y show ?thesis by (simp add: fm says_def)
    next
      case False
      then obtain n' where n': "rs_session p = Some n'" "sn_id n' = sn_id n" "rs_metadata p = rs_metadata c"
        by (auto simp: metadata_changed_def)
      with assms(2) Some have "sn_device_id n' = sn_device_id n" by (auto simp: same_device_def)
      with n' p h Some False show ?thesis by (simp add: fm m4)
    qed
    have vid: "says (mi_video (?f ms)) (Some (video_message n (rs_video_codec c) d w (rs_presentation c)))"
      if "rs_video c = Some (d, w)" for d w
    proof (cases "video_changed p c")
      case True
      with v that show ?thesis by (simp add: fv says_def)
    next
      case False
      with that have same: "rs_video p = Some (d, w)" "rs_session p = Some n" "rs_presentation p = rs_presentation c"
          "rs_video_codec p = rs_video_codec c"
        using Some by (auto simp: video_changed_def)
      with p have "says (mi_video m) (Some (video_message n (rs_video_codec c) d w (rs_presentation c)))" by metis
      with same h Some False show ?thesis by (simp add: fv m4)
    qed
    have aud: "says (mi_audio (?f ms) (of_nat i)) (if rs_audio c ! i then Some (audio_message n i True) else None)" if "i < 3" for i
    proof (cases "audio_changed p c i")
      case True
      from z [OF that True] True show ?thesis by (cases "rs_audio c ! i") (simp_all add: fa [OF that] says_def)
    next
      case False
      then have a: "rs_audio p ! i = rs_audio c ! i" "rs_audio c ! i \<longrightarrow> rs_session p = rs_session c"
        by (auto simp: audio_changed_def)
      with p that have "says (mi_audio m (of_nat i))
          (case rs_session p of Some n \<Rightarrow> if rs_audio p ! i then Some (audio_message n i True) else None | None \<Rightarrow> None)" by simp
      with a h Some False show ?thesis
        by (cases "rs_session p") (auto simp: fa [OF that] m4 says_def split: if_splits)
    qed
    show ?thesis using dev ses met vid aud Some by (simp add: in_sync_def)
  qed
qed

text \<open>The daemon reports every snapshot against the one it reported last.\<close>

fun reports :: "runtime_snapshot \<Rightarrow> runtime_snapshot list \<Rightarrow> decode_error + ipc_message list" where
  "reports p [] = Inr []"
| "reports p (c # cs) = bindr (snapshot_messages p c) (\<lambda>ms. bindr (reports c cs) (\<lambda>ms'. Inr (ms @ ms')))"

lemma reports_in_sync:
  "in_sync m p \<Longrightarrow> successively same_device (p # cs) \<Longrightarrow> reports p cs = Inr ms \<Longrightarrow>
   in_sync (foldl mirror_step m ms) (last (p # cs))"
proof (induction cs arbitrary: m p ms)
  case (Cons c cs)
  then obtain m1 m2 where "snapshot_messages p c = Inr m1" "reports c cs = Inr m2" "ms = m1 @ m2" by auto
  with Cons.IH [OF snapshot_step [OF Cons.prems(1)], of c m1 m2] Cons.prems(2) show ?case by simp
qed simp

section \<open>Properties\<close>


definition wit_connected :: runtime_snapshot where
  "wit_connected = (rs_ready (rs_connecting [97] [80]))\<lparr>rs_audio := [True, False, False], rs_host_return := 1\<rparr>"


end
