(* ===== verification/Liveness.thy ===== *)
theory Liveness
  imports Proto
begin

text \<open>
  The watch over a wireless peer (\<open>liveness.rs\<close>) and the credit window and frame reader of the microphone
  stream (\<open>Credits\<close>, \<open>PcmReader\<close> and the level meter in \<open>voice.rs\<close>), both in
  \<open>native/projection/argo-projectiond/src\<close>. Instants are milliseconds of one monotonic clock.
\<close>

section \<open>Liveness\<close>

definition WIRELESS_PEER_TIMEOUT :: nat where "WIRELESS_PEER_TIMEOUT = 10000"
definition MAX_PENDING :: nat where "MAX_PENDING = 8"

text \<open>\<open>lv_last\<close> is the process-wide counter the requests share.\<close>

record liveness =
  lv_valid :: "nat option"
  lv_matched :: "nat option"
  lv_pending :: "(u64 \<times> nat) list"
  lv_last :: u64

definition liveness_new :: "u64 \<Rightarrow> liveness" where
  "liveness_new last_used = \<lparr>lv_valid = None, lv_matched = None, lv_pending = [], lv_last = last_used\<rparr>"

definition lv_establish :: "nat \<Rightarrow> liveness \<Rightarrow> liveness" where
  "lv_establish t l = (if lv_valid l \<noteq> None then l else l\<lparr>lv_valid := Some t\<rparr>)"

definition lv_renew :: "nat \<Rightarrow> liveness \<Rightarrow> liveness" where
  "lv_renew t l = (if lv_valid l = None then l else l\<lparr>lv_valid := Some t\<rparr>)"

definition lv_request :: "u64 \<Rightarrow> nat \<Rightarrow> liveness \<Rightarrow> liveness \<times> u8 list" where
  "lv_request now t l =
     (let timestamp = max now (lv_last l + 1);
          kept = filter (\<lambda>(_, sent). t - sent < WIRELESS_PEER_TIMEOUT) (lv_pending l);
          kept = (if length kept = MAX_PENDING then tl kept else kept) in
      (l\<lparr>lv_last := timestamp, lv_pending := kept @ [(timestamp, t)]\<rparr>, pb_message [PNum 1 timestamp]))"

definition echoed :: "u8 list \<Rightarrow> u64 option" where
  "echoed body = (case numbers body of Inl _ \<Rightarrow> None | Inr fs \<Rightarrow> map_of fs 1)"

fun remove_first :: "('a \<Rightarrow> bool) \<Rightarrow> 'a list \<Rightarrow> 'a list option" where
  "remove_first P [] = None"
| "remove_first P (x # xs) = (if P x then Some xs else map_option ((#) x) (remove_first P xs))"

definition lv_response :: "u8 list \<Rightarrow> nat \<Rightarrow> liveness \<Rightarrow> liveness \<times> bool" where
  "lv_response body t l =
     (case echoed body of
        None \<Rightarrow> (l, False)
      | Some timestamp \<Rightarrow>
          (case remove_first (\<lambda>(ts, sent). ts = timestamp \<and> t - sent < WIRELESS_PEER_TIMEOUT) (lv_pending l) of
             None \<Rightarrow> (l, False)
           | Some rest \<Rightarrow>
               (l\<lparr>lv_pending := rest, lv_matched := Some t,
                  lv_valid := (if lv_valid l \<noteq> None then Some t else None)\<rparr>, True)))"

text \<open>The watchdog ends the session at its deadline; without a deadline it waits.\<close>

definition lv_deadline :: "liveness \<Rightarrow> nat option" where
  "lv_deadline l = map_option (\<lambda>v. v + WIRELESS_PEER_TIMEOUT) (lv_valid l)"

definition lv_unresponsive :: "liveness \<Rightarrow> nat \<Rightarrow> bool" where
  "lv_unresponsive l t \<longleftrightarrow> (case lv_deadline l of None \<Rightarrow> False | Some d \<Rightarrow> d \<le> t)"

section \<open>Microphone credits\<close>

record credits =
  cr_session :: u32
  cr_outstanding :: u32
  cr_limit :: u32
  cr_last_ack :: "nat option"

definition credits_default :: credits where
  "credits_default = \<lparr>cr_session = 0, cr_outstanding = 0, cr_limit = 0, cr_last_ack = None\<rparr>"

definition credits_start :: "u64 \<Rightarrow> credits \<Rightarrow> credits" where
  "credits_start limit c =
     \<lparr>cr_session = max (cr_session c + 1) 1, cr_outstanding = 0,
      cr_limit = ucast (if limit < 1 then 1 else if limit > 8 then 8 else limit), cr_last_ack = None\<rparr>"

definition credits_ready :: "credits \<Rightarrow> bool" where
  "credits_ready c \<longleftrightarrow> cr_limit c > 0 \<and> cr_outstanding c < cr_limit c"

definition credits_sent :: "nat \<Rightarrow> credits \<Rightarrow> credits" where
  "credits_sent t c =
     (if cr_outstanding c = 0 then c\<lparr>cr_last_ack := Some t\<rparr> else c)\<lparr>cr_outstanding := cr_outstanding c + 1\<rparr>"

definition credits_ack :: "nat \<Rightarrow> u64 \<Rightarrow> u64 \<Rightarrow> credits \<Rightarrow> credits \<times> bool" where
  "credits_ack t session count c =
     (if session = ucast (cr_session c) \<and> count > 0 \<and> count \<le> ucast (cr_outstanding c)
      then (c\<lparr>cr_last_ack := Some t, cr_outstanding := cr_outstanding c - ucast count\<rparr>, True)
      else (c, False))"

definition credits_expired :: "nat \<Rightarrow> credits \<Rightarrow> bool" where
  "credits_expired t c \<longleftrightarrow>
     cr_outstanding c > 0 \<and> (case cr_last_ack c of None \<Rightarrow> False | Some a \<Rightarrow> 5000 \<le> t - a)"

definition credits_stop :: "credits \<Rightarrow> credits" where
  "credits_stop c = c\<lparr>cr_limit := 0, cr_outstanding := 0\<rparr>"

section \<open>Microphone frames\<close>

text \<open>What a read of the capture pipe yields: bytes, the end, an error, no byte until the deadline, or the
  cancellation of the whole call, which keeps the partial frame.\<close>

datatype pcm_read = Data "u8 list" | Broken | Stalled | Cancel

definition PCM_FRAME :: nat where "PCM_FRAME = 640"

text \<open>The state is the part of a frame read so far; \<open>None\<close> is a cancelled call.\<close>

function pcm_frame :: "u8 list \<Rightarrow> pcm_read list \<Rightarrow> u8 list \<times> (u8 list + u8 list) option \<times> pcm_read list" where
  "pcm_frame used rs =
     (if length used < PCM_FRAME then
        (case rs of
           [] \<Rightarrow> (used, Some (Inl (str ''Microphone disconnected'')), [])
         | Cancel # rs \<Rightarrow> (used, None, rs)
         | Stalled # rs \<Rightarrow> (used, Some (Inl (str ''Microphone input stalled'')), rs)
         | Broken # rs \<Rightarrow> (used, Some (Inl (str ''Microphone disconnected'')), rs)
         | Data bs # rs \<Rightarrow>
             (let n = PCM_FRAME - length used; rest = (if length bs > n then Data (drop n bs) # rs else rs) in
              if bs = [] then (used, Some (Inl (str ''Microphone disconnected'')), rest)
              else pcm_frame (used @ take n bs) rest))
      else ([], Some (Inr used), rs))"
  by pat_completeness auto
termination
  by (relation "measure (\<lambda>(used, rs). PCM_FRAME - length used)") (auto intro!: diff_less_mono2)

declare pcm_frame.simps [simp del]

text \<open>The level meter, in units of \<open>1/32768\<close>.\<close>

fun pcm_peak :: "u8 list \<Rightarrow> nat" where
  "pcm_peak (a # b # rest) = max (nat \<bar>sint (from_le16 a b)\<bar>) (pcm_peak rest)"
| "pcm_peak _ = 0"

section \<open>Lemmas: echoes\<close>

datatype liveness_event =
  Establish nat | Renew nat | Request u64 nat | Response "u8 list" nat

fun liveness_step :: "liveness \<Rightarrow> liveness_event \<Rightarrow> liveness \<times> bool" where
  "liveness_step l (Establish t) = (lv_establish t l, False)"
| "liveness_step l (Renew t) = (lv_renew t l, False)"
| "liveness_step l (Request now t) = (fst (lv_request now t l), False)"
| "liveness_step l (Response body t) = lv_response body t l"

lemma remove_first_Some:
  "remove_first P xs = Some ys \<Longrightarrow> \<exists>as x bs. xs = as @ x # bs \<and> P x \<and> ys = as @ bs"
proof (induction xs arbitrary: ys)
  case (Cons x xs)
  show ?case
  proof (cases "P x")
    case True
    with Cons.prems show ?thesis by (intro exI [of _ "[]"]) auto
  next
    case False
    with Cons.prems obtain zs where z: "remove_first P xs = Some zs" "ys = x # zs" by auto
    then obtain as y bs where "xs = as @ y # bs" "P y" "zs = as @ bs" using Cons.IH by blast
    with z show ?thesis by (intro exI [of _ "x # as"]) auto
  qed
qed simp

text \<open>The pending requests are at most eight, with different time stamps not above the counter.\<close>

definition liveness_ok :: "liveness \<Rightarrow> bool" where
  "liveness_ok l \<longleftrightarrow> length (lv_pending l) \<le> MAX_PENDING \<and> distinct (map fst (lv_pending l))
     \<and> (\<forall>(ts, _) \<in> set (lv_pending l). ts \<le> lv_last l)"

definition spent :: "u64 \<Rightarrow> liveness \<Rightarrow> bool" where
  "spent ts l \<longleftrightarrow> ts \<le> lv_last l \<and> ts \<notin> fst ` set (lv_pending l)"

lemma next_stamp: "lv_last l \<noteq> 0xffffffffffffffff \<Longrightarrow> lv_last l < max now (lv_last l + 1)"
proof -
  assume "lv_last l \<noteq> 0xffffffffffffffff"
  then have "lv_last l < lv_last l + 1"
    using inc_less_eq_triv_imp [of "lv_last l"] by (force simp: not_less)
  then show ?thesis by (simp add: less_max_iff_disj)
qed

lemma lv_request_pending:
  "lv_pending (fst (lv_request now t l)) =
     (let kept = filter (\<lambda>(_, sent). t - sent < WIRELESS_PEER_TIMEOUT) (lv_pending l) in
      (if length kept = MAX_PENDING then tl kept else kept) @ [(max now (lv_last l + 1), t)])"
  "lv_last (fst (lv_request now t l)) = max now (lv_last l + 1)"
  by (simp_all add: lv_request_def Let_def)

lemma in_set_tlD: "x \<in> set (tl xs) \<Longrightarrow> x \<in> set xs"
  by (cases xs) auto

lemma kept_subset:
  "set (if b then tl (filter P xs) else filter P xs) \<subseteq> set xs"
  by (auto dest: in_set_tlD)

lemma kept_distinct:
  "distinct (map f xs) \<Longrightarrow> distinct (map f (if b then tl (filter P xs) else filter P xs))"
  by (auto simp: map_tl intro: distinct_tl distinct_map_filter)

lemma request_ok:
  assumes "liveness_ok l" and "lv_last l \<noteq> 0xffffffffffffffff"
  shows "liveness_ok (fst (lv_request now t l))"
proof -
  let ?P = "\<lambda>(_, sent). t - sent < WIRELESS_PEER_TIMEOUT" and ?ts = "max now (lv_last l + 1)"
  let ?k = "if length (filter ?P (lv_pending l)) = MAX_PENDING then tl (filter ?P (lv_pending l)) else filter ?P (lv_pending l)"
  have n: "lv_last l < ?ts" by (rule next_stamp [OF assms(2)])
  have s: "set ?k \<subseteq> set (lv_pending l)" by (rule kept_subset)
  have le: "ts \<le> lv_last l" if "(ts, x) \<in> set ?k" for ts x using that s assms(1) by (auto simp: liveness_ok_def)
  have len: "length ?k < MAX_PENDING"
    using assms(1) le_trans [OF length_filter_le [of ?P "lv_pending l"], of MAX_PENDING]
    by (simp add: liveness_ok_def MAX_PENDING_def)
  have "distinct (map fst ?k)" using assms(1) by (intro kept_distinct) (simp add: liveness_ok_def)
  moreover have "?ts \<notin> fst ` set ?k" using le n by fastforce
  moreover have "\<forall>(ts, x) \<in> set ?k. ts \<le> ?ts" using le n by fastforce
  ultimately show ?thesis
    using len by (auto simp: liveness_ok_def lv_request_pending Let_def)
qed

lemma lv_response_True:
  "lv_response body t l = (l', True) \<Longrightarrow>
   \<exists>ts sent as bs. echoed body = Some ts \<and> lv_pending l = as @ (ts, sent) # bs \<and> t - sent < WIRELESS_PEER_TIMEOUT
     \<and> lv_pending l' = as @ bs \<and> lv_last l' = lv_last l"
  by (fastforce simp: lv_response_def split: option.splits dest!: remove_first_Some)

lemma lv_response_False: "lv_response body t l = (l', False) \<Longrightarrow> l' = l"
  by (auto simp: lv_response_def split: option.splits)

definition lv_after :: "liveness \<Rightarrow> liveness_event list \<Rightarrow> liveness" where
  "lv_after l es = fst (run_machine liveness_step l es)"

text \<open>A clock of microseconds reaches the largest counter value after half a million years.\<close>

definition counter_free :: "liveness \<Rightarrow> liveness_event list \<Rightarrow> bool" where
  "counter_free l es \<longleftrightarrow> (\<forall>i \<le> length es. lv_last (lv_after l (take i es)) \<noteq> 0xffffffffffffffff)"

lemma lv_after_snoc: "lv_after l (es @ [e]) = fst (liveness_step (lv_after l es) e)"
  by (simp add: lv_after_def run_machine_append split: prod.splits)

lemma lv_after_Nil [simp]: "lv_after l [] = l"
  by (simp add: lv_after_def)

lemma counter_free_snoc: "counter_free l (es @ [e]) \<Longrightarrow> counter_free l es \<and> lv_last (lv_after l es) \<noteq> 0xffffffffffffffff"
proof -
  assume c: "counter_free l (es @ [e])"
  have "lv_last (lv_after l (take i es)) \<noteq> 0xffffffffffffffff" if "i \<le> length es" for i
    using c that by (auto simp: counter_free_def dest!: spec [of _ i])
  moreover from this [of "length es"] have "lv_last (lv_after l es) \<noteq> 0xffffffffffffffff" by simp
  ultimately show ?thesis by (simp add: counter_free_def)
qed

lemma liveness_step_ok:
  assumes "liveness_ok l" and "lv_last l \<noteq> 0xffffffffffffffff"
  shows "liveness_ok (fst (liveness_step l e))"
proof (cases e)
  case (Response body t)
  show ?thesis
  proof (cases "lv_response body t l")
    case (Pair l' b)
    with assms Response show ?thesis
      by (cases b) (fastforce simp: liveness_ok_def dest!: lv_response_True lv_response_False)+
  qed
qed (use assms request_ok in \<open>auto simp: lv_establish_def lv_renew_def liveness_ok_def\<close>)

lemma liveness_run_ok: "liveness_ok l \<Longrightarrow> counter_free l es \<Longrightarrow> liveness_ok (lv_after l es)"
proof (induction es rule: rev_induct)
  case (snoc e es)
  with counter_free_snoc [OF snoc.prems(2)] show ?case
    by (simp add: lv_after_snoc liveness_step_ok)
qed simp

text \<open>Every pending time stamp was sent by a request.\<close>

lemma pending_requested:
  assumes "lv_pending l = []" and "(ts, sent) \<in> set (lv_pending (lv_after l es))"
  shows "\<exists>k now. k < length es \<and> es ! k = Request now sent
    \<and> ts = max now (lv_last (lv_after l (take k es)) + 1)"
  using assms(2)
proof (induction es rule: rev_induct)
  case Nil
  with assms(1) show ?case by simp
next
  case (snoc e es)
  show ?case
  proof (cases "(ts, sent) \<in> set (lv_pending (lv_after l es))")
    case True
    with snoc.IH obtain k now where "k < length es" "es ! k = Request now sent"
      "ts = max now (lv_last (lv_after l (take k es)) + 1)" by blast
    then show ?thesis by (intro exI [of _ k] exI [of _ now]) (simp add: nth_append)
  next
    case False
    have "\<exists>now. e = Request now sent \<and> ts = max now (lv_last (lv_after l es) + 1)"
    proof (cases e)
      case (Request now t)
      then have "(ts, sent) = (max now (lv_last (lv_after l es) + 1), t)"
        using snoc.prems False kept_subset
        by (fastforce simp: lv_after_snoc lv_request_pending Let_def dest: in_set_tlD split: if_splits)
      with Request show ?thesis by simp
    next
      case (Response body t)
      show ?thesis
      proof (cases "lv_response body t (lv_after l es)")
        case (Pair l' b)
        with Response snoc.prems False show ?thesis
          by (cases b) (auto simp: lv_after_snoc dest!: lv_response_True lv_response_False)
      qed
    qed (use snoc.prems False in \<open>auto simp: lv_after_snoc lv_establish_def lv_renew_def split: if_splits\<close>)
    then show ?thesis by (intro exI [of _ "length es"]) auto
  qed
qed

lemma spent_step:
  assumes "spent ts l" and "lv_last l \<noteq> 0xffffffffffffffff"
  shows "spent ts (fst (liveness_step l e))"
proof (cases e)
  case (Request now t)
  have n: "lv_last l < max now (lv_last l + 1)" by (rule next_stamp [OF assms(2)])
  with assms(1) have "ts < max now (lv_last l + 1)" by (auto simp: spent_def)
  with assms(1) n Request show ?thesis
    by (auto simp: spent_def lv_request_pending Let_def dest!: in_set_tlD split: if_splits)
next
  case (Response body t)
  show ?thesis
  proof (cases "lv_response body t l")
    case (Pair l' b)
    with Response assms show ?thesis
      by (cases b) (auto simp: spent_def dest!: lv_response_True lv_response_False)
  qed
qed (use assms in \<open>auto simp: spent_def lv_establish_def lv_renew_def\<close>)

lemma spent_run:
  "spent ts (lv_after l es) \<Longrightarrow> counter_free l (es @ es') \<Longrightarrow> spent ts (lv_after l (es @ es'))"
proof (induction es' rule: rev_induct)
  case (snoc e es')
  from snoc.prems(2) have c: "counter_free l ((es @ es') @ [e])" by simp
  from snoc.IH [OF snoc.prems(1)] counter_free_snoc [OF c] have "spent ts (lv_after l (es @ es'))" by blast
  from spent_step [OF this] counter_free_snoc [OF c] show ?case
    by (simp add: lv_after_snoc [of l "es @ es'", simplified])
qed simp

lemma accepted_spends:
  assumes "liveness_ok l" and "lv_response body t l = (l', True)"
  shows "\<exists>ts. echoed body = Some ts \<and> spent ts l'"
proof -
  obtain ts sent as bs where r: "echoed body = Some ts" "lv_pending l = as @ (ts, sent) # bs"
    "lv_pending l' = as @ bs" "lv_last l' = lv_last l"
    using lv_response_True [OF assms(2)] by blast
  with assms(1) have "spent ts l'" by (auto simp: spent_def liveness_ok_def)
  with r(1) show ?thesis by blast
qed

section \<open>Properties: echoes\<close>

text \<open>A ping answer counts at most once and only for a request of this session sent less than ten seconds
  before: whatever a peer echoes, replays or makes up, two accepted answers carry different time stamps, and
  each stamp is the one of such a request. At most eight requests are kept.\<close>

theorem ping_echo_once:
  assumes "counter_free (liveness_new last_used) es"
    and "j < length es" and "es ! j = Response body t"
    and "snd (liveness_step (lv_after (liveness_new last_used) (take j es)) (es ! j))"
  shows "\<exists>ts k now sent. echoed body = Some ts \<and> k < j \<and> es ! k = Request now sent \<and> t - sent < WIRELESS_PEER_TIMEOUT
      \<and> ts = max now (lv_last (lv_after (liveness_new last_used) (take k es)) + 1)
      \<and> length (lv_pending (lv_after (liveness_new last_used) es)) \<le> MAX_PENDING
      \<and> (\<forall>i b u. i < j \<longrightarrow> es ! i = Response b u \<longrightarrow>
           snd (liveness_step (lv_after (liveness_new last_used) (take i es)) (es ! i)) \<longrightarrow> echoed b \<noteq> echoed body)"
proof -
  let ?l = "liveness_new last_used"
  have ok0: "liveness_ok ?l" by (simp add: liveness_ok_def liveness_new_def)
  have cf: "counter_free ?l (take i es)" for i
    using assms(1) by (auto simp: counter_free_def min_def)
  have ok: "liveness_ok (lv_after ?l (take i es))" for i by (rule liveness_run_ok [OF ok0 cf])
  obtain l' where r: "lv_response body t (lv_after ?l (take j es)) = (l', True)"
    using assms(3,4) by (cases "lv_response body t (lv_after ?l (take j es))") auto
  obtain ts sent where p: "echoed body = Some ts" "(ts, sent) \<in> set (lv_pending (lv_after ?l (take j es)))"
      "t - sent < WIRELESS_PEER_TIMEOUT"
    using lv_response_True [OF r] by force
  obtain k now where k: "k < length (take j es)" "take j es ! k = Request now sent"
      "ts = max now (lv_last (lv_after ?l (take k (take j es))) + 1)"
    using pending_requested [OF _ p(2)] by (auto simp: liveness_new_def)
  have once: "echoed b \<noteq> echoed body" if h: "i < j" "es ! i = Response b u"
      "snd (liveness_step (lv_after ?l (take i es)) (es ! i))" for i b u
  proof
    assume eq: "echoed b = echoed body"
    obtain l1 where r1: "lv_response b u (lv_after ?l (take i es)) = (l1, True)"
      using h(2,3) by (cases "lv_response b u (lv_after ?l (take i es))") auto
    from accepted_spends [OF ok r1] eq p(1) have "spent ts l1" by auto
    then have s: "spent ts (lv_after ?l (take (Suc i) es))"
      using r1 h(1,2) assms(2) by (simp add: take_Suc_conv_app_nth lv_after_snoc)
    have "take j es = take (Suc i) es @ drop (Suc i) (take j es)"
      using h(1) by (metis Suc_leI append_take_drop_id min.absorb_iff1 take_take)
    then have "spent ts (lv_after ?l (take j es))"
      using spent_run [OF s, of "drop (Suc i) (take j es)"] cf [of j] by simp
    with p(2) show False by (force simp: spent_def)
  qed
  have "length (lv_pending (lv_after ?l es)) \<le> MAX_PENDING"
    using ok [of "length es"] by (simp add: liveness_ok_def)
  with p k once show ?thesis by (intro exI [of _ ts] exI [of _ k] exI [of _ now] exI [of _ sent]) auto
qed

definition wit_pings :: "liveness_event list" where
  "wit_pings = [Request 100 0, Response (pb_message [PNum 1 100]) 5]"

theorem ping_echo_once_witness:
  "\<exists>ts k now sent. echoed (pb_message [PNum 1 100]) = Some ts \<and> wit_pings ! k = Request now sent \<and> k < 1"
proof -
  have e: "echoed (pb_message [PNum 1 100]) = Some 100"
    using numbers_message [of "[PNum 1 100]"] by (simp add: echoed_def)
  have l: "i \<le> 2 \<Longrightarrow> i = 0 \<or> i = 1 \<or> i = (2 :: nat)" for i by auto
  have c: "counter_free (liveness_new 0) wit_pings"
    using e by (auto simp: counter_free_def wit_pings_def lv_after_def liveness_new_def lv_request_def lv_response_def
        take_Cons' MAX_PENDING_def Let_def WIRELESS_PEER_TIMEOUT_def max_def word_le_nat_alt dest!: l)
  have a: "snd (liveness_step (lv_after (liveness_new 0) (take 1 wit_pings)) (wit_pings ! 1))"
    using e by (simp add: wit_pings_def lv_after_def liveness_new_def lv_request_def lv_response_def
        MAX_PENDING_def Let_def WIRELESS_PEER_TIMEOUT_def max_def word_le_nat_alt)
  show ?thesis
    using ping_echo_once [OF c, of 1 "pb_message [PNum 1 100]" 5] a by (auto simp: wit_pings_def)
qed

section \<open>Microphone window\<close>

datatype credits_event = CStart u64 | CFrame nat | CAck nat u64 u64 | CStop

text \<open>The session loop sends a captured frame only with credit and drops it otherwise.\<close>

fun credits_step :: "credits \<Rightarrow> credits_event \<Rightarrow> credits \<times> bool" where
  "credits_step c (CStart limit) = (credits_start limit c, False)"
| "credits_step c (CFrame t) = (if credits_ready c then (credits_sent t c, True) else (c, False))"
| "credits_step c (CAck t session count) = credits_ack t session count c"
| "credits_step c CStop = (credits_stop c, False)"

text \<open>Frames sent and not yet acknowledged since the stream started or stopped.\<close>

fun unacknowledged :: "(credits_event \<times> bool) list \<Rightarrow> nat \<Rightarrow> nat" where
  "unacknowledged [] n = n"
| "unacknowledged ((CStart limit, r) # es) n = unacknowledged es 0"
| "unacknowledged ((CStop, r) # es) n = unacknowledged es 0"
| "unacknowledged ((CFrame t, r) # es) n = unacknowledged es (if r then Suc n else n)"
| "unacknowledged ((CAck t s c, r) # es) n = unacknowledged es (if r then n - unat c else n)"

definition credits_ok :: "credits \<Rightarrow> bool" where
  "credits_ok c \<longleftrightarrow> unat (cr_limit c) \<le> 8 \<and> unat (cr_outstanding c) \<le> unat (cr_limit c)"

lemma small_u32:
  assumes "unat (x :: u32) \<le> 8"
  shows "unat (ucast x :: u64) = unat x"
  using assms by (simp add: unsigned_ucast_eq take_bit_eq_mod)

lemma start_limit:
  "unat (ucast (if limit < 1 then 1 else if limit > 8 then 8 else (limit :: u64)) :: u32) \<le> 8"
proof -
  have "limit < 1 \<or> limit > 8 \<or> \<not> limit < 1 \<and> unat limit \<le> 8" by (auto simp: word_less_nat_alt)
  then consider "limit < 1" | "limit > 8" | "\<not> limit < 1" "unat limit \<le> 8" by blast
  then show ?thesis
    by cases (auto simp: unsigned_ucast_eq take_bit_eq_mod)
qed

lemma ack_parts:
  assumes "credits_ok c" and "credits_ack t s n c = (c', True)"
  shows "credits_ok c' \<and> unat (cr_outstanding c') = unat (cr_outstanding c) - unat n \<and> 0 < unat n \<and> unat n \<le> unat (cr_outstanding c)"
proof -
  from assms(2) have n: "0 < n" "n \<le> ucast (cr_outstanding c)"
    and c': "cr_outstanding c' = cr_outstanding c - ucast n" "cr_limit c' = cr_limit c"
    by (auto simp: credits_ack_def split: if_splits)
  have o: "unat (cr_outstanding c) \<le> 8" using assms(1) by (auto simp: credits_ok_def)
  have le: "unat n \<le> unat (cr_outstanding c)" using n(2) by (simp add: word_le_nat_alt small_u32 [OF o])
  then have u: "unat (ucast n :: u32) = unat n" using o by (simp add: unsigned_ucast_eq take_bit_eq_mod)
  have "ucast n \<le> cr_outstanding c" using le by (simp add: word_le_nat_alt u)
  then have "unat (cr_outstanding c') = unat (cr_outstanding c) - unat n" by (simp add: c'(1) unat_sub u)
  moreover have "0 < unat n" using n(1) by (simp add: word_less_nat_alt)
  ultimately show ?thesis using le assms(1) by (auto simp: credits_ok_def c'(2))
qed

lemma credits_run:
  assumes "credits_ok c"
  shows "credits_ok (fst (run_machine credits_step c es))
    \<and> unat (cr_outstanding (fst (run_machine credits_step c es)))
      = unacknowledged (zip es (snd (run_machine credits_step c es))) (unat (cr_outstanding c))"
  using assms
proof (induction es arbitrary: c)
  case (Cons e es)
  obtain c' b where s: "credits_step c e = (c', b)" by (cases "credits_step c e")
  have "credits_ok c' \<and> unacknowledged ((e, b) # zs) (unat (cr_outstanding c)) = unacknowledged zs (unat (cr_outstanding c'))" for zs
  proof (cases e)
    case (CStart limit)
    with s start_limit [of limit] show ?thesis by (auto simp: credits_start_def credits_ok_def)
  next
    case (CFrame t)
    show ?thesis
    proof (cases "credits_ready c")
      case True
      then have "unat (cr_outstanding c) < unat (cr_limit c)" by (simp add: credits_ready_def word_less_nat_alt)
      moreover from this Cons.prems have "unat (cr_outstanding c + 1) = Suc (unat (cr_outstanding c))"
        by (simp add: credits_ok_def unat_word_ariths)
      ultimately show ?thesis
        using s CFrame True Cons.prems by (auto simp: credits_sent_def credits_ok_def)
    qed (use s CFrame Cons.prems in auto)
  next
    case (CAck t session count)
    show ?thesis
    proof (cases b)
      case True
      with s CAck have "credits_ack t session count c = (c', True)" by simp
      from ack_parts [OF Cons.prems this] CAck True show ?thesis by simp
    next
      case False
      with s CAck Cons.prems show ?thesis by (auto simp: credits_ack_def split: if_splits)
    qed
  next
    case CStop
    with s Cons.prems show ?thesis by (auto simp: credits_stop_def credits_ok_def)
  qed
  with Cons.IH [of c'] s show ?case by (simp add: run_machine_Cons del: run_machine.simps(2))
qed simp

section \<open>Properties: microphone\<close>

text \<open>The phone's credit bounds the microphone stream: in every sequence of starts, captured frames,
  acknowledgements (stale, forged or repeated ones included) and stops, exactly the frames sent and not yet
  acknowledged in the current stream are outstanding, they never exceed the granted window, and the window
  never exceeds eight frames.\<close>

theorem microphone_window:
  "unat (cr_outstanding (fst (run_machine credits_step credits_default es)))
     = unacknowledged (zip es (snd (run_machine credits_step credits_default es))) 0
   \<and> unat (cr_outstanding (fst (run_machine credits_step credits_default es)))
     \<le> unat (cr_limit (fst (run_machine credits_step credits_default es)))
   \<and> unat (cr_limit (fst (run_machine credits_step credits_default es))) \<le> 8"
proof -
  have "credits_ok credits_default" by (simp add: credits_ok_def credits_default_def)
  from credits_run [OF this, of es] show ?thesis by (simp add: credits_ok_def credits_default_def)
qed

text \<open>The captured bytes a script of reads carries.\<close>

fun captured :: "pcm_read list \<Rightarrow> u8 list" where
  "captured [] = []"
| "captured (Data bs # rs) = bs @ captured rs"
| "captured (_ # rs) = captured rs"

lemma pcm_frame_bytes:
  assumes "length used \<le> PCM_FRAME" and "pcm_frame used rs = (used', r, rs')"
  shows "(case r of
      Some (Inr f) \<Rightarrow> length f = PCM_FRAME \<and> used' = [] \<and> f @ captured rs' = used @ captured rs
    | _ \<Rightarrow> length used' < PCM_FRAME \<and> used' @ captured rs' = used @ captured rs)"
  using assms
proof (induction used rs rule: pcm_frame.induct)
  case (1 used rs)
  show ?case
  proof (cases "length used < PCM_FRAME")
    case False
    with 1(2,3) show ?thesis by (subst (asm) pcm_frame.simps) auto
  next
    case True
    show ?thesis
    proof (cases rs)
      case (Cons x xs)
      show ?thesis
      proof (cases x)
        case (Data bs)
        let ?n = "PCM_FRAME - length used"
        let ?rest = "if length bs > ?n then Data (drop ?n bs) # xs else xs"
        have c: "take ?n bs @ captured ?rest = captured rs" by (simp add: Cons Data)
        show ?thesis
        proof (cases "bs = []")
          case True
          with 1(3) \<open>length used < PCM_FRAME\<close> show ?thesis
            by (subst (asm) pcm_frame.simps) (auto simp: Cons Data)
        next
          case False
          with 1(3) True have f: "pcm_frame (used @ take ?n bs) ?rest = (used', r, rs')"
            by (subst (asm) pcm_frame.simps) (simp add: Cons Data Let_def)
          have "length (used @ take ?n bs) \<le> PCM_FRAME" using True by simp
          from 1(1) [OF True Cons Data refl refl False this f] c show ?thesis
            by (simp split: option.splits sum.splits)
        qed
      next
        case Cancel
        have "pcm_frame used rs = (used, None, xs)" using True by (subst pcm_frame.simps) (simp add: Cons Cancel)
        with 1(3) True show ?thesis by (auto simp: Cons Cancel)
      next
        case Stalled
        have "pcm_frame used rs = (used, Some (Inl (str ''Microphone input stalled'')), xs)"
          using True by (subst pcm_frame.simps) (simp add: Cons Stalled)
        with 1(3) True show ?thesis by (auto simp: Cons Stalled)
      next
        case Broken
        have "pcm_frame used rs = (used, Some (Inl (str ''Microphone disconnected'')), xs)"
          using True by (subst pcm_frame.simps) (simp add: Cons Broken)
        with 1(3) True show ?thesis by (auto simp: Cons Broken)
      qed
    qed (use 1(3) True in \<open>subst (asm) pcm_frame.simps; auto\<close>)
  qed
qed

text \<open>A captured sample is never lost, repeated or torn: whatever way the pipe delivers the bytes and however
  often a read is cancelled or fails, a call either returns a whole frame of the next 640 bytes, or keeps the
  bytes it got for the next call.\<close>

theorem pcm_frames_contiguous:
  assumes "length used \<le> PCM_FRAME" and "pcm_frame used rs = (used', r, rs')"
  shows "(case r of
      Some (Inr f) \<Rightarrow> length f = PCM_FRAME \<and> used' = [] \<and> f @ captured rs' = used @ captured rs
    | _ \<Rightarrow> length used' < PCM_FRAME \<and> used' @ captured rs' = used @ captured rs)"
  by (rule pcm_frame_bytes [OF assms])

theorem pcm_frames_contiguous_witness:
  "fst (pcm_frame [1] [Data [2, 3], Cancel, Data [4]]) @ captured [Data [4]] = [1, 2, 3, 4]"
proof -
  have f: "pcm_frame [1] [Data [2, 3], Cancel, Data [4]] = ([1, 2, 3], None, [Data [4]])"
    by (simp add: pcm_frame.simps PCM_FRAME_def Let_def)
  have l: "length [1 :: u8] \<le> PCM_FRAME" by (simp add: PCM_FRAME_def)
  from pcm_frames_contiguous [OF l f] show ?thesis by (simp add: f)
qed

end
