(* ===== verification/Aa_Channels.thy ===== *)
theory Aa_Channels
  imports Metadata "HOL-Library.Sublist"
begin

text \<open>
  The channels of an Android Auto session (\<open>Channels\<close> in
  \<open>native/projection/argo-projectiond/src/aa_channels.rs\<close>): service discovery, channel opening, stream
  set-up, focus, microphone requests, media keys and touch input. The sets of the code are sets, its ordered
  map of contacts is an association list sorted by key. Coordinates arrive as IEEE single precision numbers
  and are kept as their 32-bit patterns. Log lines are left out.
\<close>

section \<open>Service discovery\<close>

definition video_config_message :: "display_config \<Rightarrow> u64 \<Rightarrow> u8 list" where
  "video_config_message d codec =
     (case dc_view d of (l, t, r, b) \<Rightarrow> pb_message
       [PNum 1 (if dc_width d = 800 then 1 else if dc_width d = 1920 then 3 else 2),
        PNum 2 (if dc_fps d = 60 then 1 else 2),
        PNum 3 (ucast (l + r)), PNum 4 (ucast (t + b)),
        PBytes 11 (ui_config d), PNum 5 (ucast (dc_dpi d)), PNum 8 10000, PNum 10 codec])"

definition video_service :: "display_config \<Rightarrow> bool \<Rightarrow> u8 list" where
  "video_service d hevc = pb_message
     [PNum 1 3,
      PBytes 3 (pb_message
        ([PNum 1 3, PBytes 4 (video_config_message d 3)]
         @ (if hevc then [PBytes 4 (video_config_message d 7)] else [])
         @ [PNum 5 1, PNum 7 0]))]"

definition audio_service :: "audio_fmt \<Rightarrow> u8 list" where
  "audio_service f = pb_message
     [PNum 1 (ucast (af_channel f)),
      PBytes 3 (pb_message
        [PNum 1 1, PNum 2 (ucast (af_role f)),
         PBytes 3 (pb_message [PNum 1 (ucast (af_rate f)), PNum 2 (ucast (af_bits f)), PNum 3 (ucast (af_channels f))]),
         PNum 5 1])]"

definition microphone_service :: "u8 list" where
  "microphone_service = pb_message
     [PNum 1 9, PBytes 5 (pb_message [PNum 1 1, PBytes 2 (pb_message [PNum 1 16000, PNum 2 16, PNum 3 1]), PNum 3 1])]"

definition sensor_service :: "u8 list" where
  "sensor_service = pb_message
     [PNum 1 1, PBytes 2 (pb_message [PBytes 1 (pb_message [PNum 1 10]), PBytes 1 (pb_message [PNum 1 13])])]"

definition input_service :: "display_config \<Rightarrow> u8 list" where
  "input_service d = pb_message
     [PNum 1 8,
      PBytes 4 (pb_message
        [PNum 1 87, PNum 1 88, PNum 1 126, PNum 1 127,
         PBytes 2 (pb_message [PNum 1 (ucast (content_width d)), PNum 2 (ucast (content_height d))])])]"

definition head_unit_items :: "display_config \<Rightarrow> pb_item list" where
  "head_unit_items d =
     (let ping = pb_message [PNum 1 5000, PNum 2 1500, PNum 3 500, PNum 4 5];
          connection = pb_message [PBytes 1 ping];
          headunit_info = pb_message
            [PBytes 1 (str ''Project Argo''), PBytes 2 (str ''Universal''), PBytes 3 (str ''2026''),
             PBytes 4 (str ''argo-001''), PBytes 5 (str ''Project Argo''), PBytes 6 (str ''Argo Head Unit''),
             PBytes 7 (str ''1''), PBytes 8 (str ''1.0'')] in
      [PBytes 2 (str ''Project Argo''), PBytes 3 (str ''Universal''), PBytes 4 (str ''2026''),
       PBytes 5 (str ''argo-001''), PNum 6 (if dc_right_driver d then 1 else 0), PBytes 7 (str ''Project Argo''),
       PBytes 8 (str ''Argo Head Unit''), PBytes 9 (str ''1''), PBytes 10 (str ''1.0''), PNum 11 1,
       PBytes 14 (str ''Project Argo''), PNum 15 0, PBytes 16 connection, PBytes 17 headunit_info])"

definition discovery_codecs :: "display_config \<Rightarrow> bool \<Rightarrow> u8 list" where
  "discovery_codecs d hevc = pb_message
     (head_unit_items d @
      map (PBytes 1)
        ([sensor_service, video_service d hevc] @ map audio_service AUDIO
         @ [microphone_service, pb_message [PNum 1 (ucast META_CHANNEL), PBytes 9 (pb_message [])], input_service d]))"

section \<open>Replies, effects and state\<close>

record aa_reply =
  rp_channel :: u8
  rp_id :: u16
  rp_control :: bool
  rp_body :: "u8 list"

definition reply_new :: "u8 \<Rightarrow> u16 \<Rightarrow> u8 list \<Rightarrow> aa_reply" where
  "reply_new ch i body =
     \<lparr>rp_channel = ch, rp_id = i, rp_control = (7 \<le> i \<and> i \<le> 9 \<or> 0x18 \<le> i \<and> i \<le> 0x1a), rp_body = body\<rparr>"

datatype aa_effect =
    EVideoCodec video_codec
  | EReply aa_reply
  | EVideo bool
  | EEstablished
  | EHostReturn
  | EAudio u8 bool
  | EMicrophone bool u64
  | EMicrophoneAck u64 u64
  | EMicrophoneStop
  | EMedia u8 "u8 list"
  | EEnd
  | EMetadata meta_update

record channels =
  ch_offer_hevc :: bool
  ch_video_config :: u64
  ch_display :: display_config
  ch_open :: "u8 set"
  ch_setup :: "u8 set"
  ch_sessions :: "u8 \<rightharpoonup> u64"
  ch_pointers :: "(u16 \<times> u8 \<times> u32 \<times> u32) list"
  ch_reported_large :: bool
  ch_discovered :: bool
  ch_video_requested :: bool
  ch_warnings :: "(u8 \<times> u16) set"

definition channels_new :: "display_config \<Rightarrow> channels" where
  "channels_new d = \<lparr>ch_offer_hevc = False, ch_video_config = 0, ch_display = d, ch_open = {}, ch_setup = {},
     ch_sessions = Map.empty, ch_pointers = [], ch_reported_large = False, ch_discovered = False,
     ch_video_requested = True, ch_warnings = {}\<rparr>"

definition channels_with_hevc :: "display_config \<Rightarrow> bool \<Rightarrow> channels" where
  "channels_with_hevc d hevc = (channels_new d)\<lparr>ch_offer_hevc := hevc\<rparr>"

definition set_video_requested :: "bool \<Rightarrow> channels \<Rightarrow> channels" where
  "set_video_requested r c = c\<lparr>ch_video_requested := r\<rparr>"

section \<open>Incoming messages\<close>

definition reply1 :: "u8 \<Rightarrow> u16 \<Rightarrow> u8 list \<Rightarrow> aa_effect" where
  "reply1 ch i body = EReply (reply_new ch i body)"

text \<open>Media data, with or without a time stamp.\<close>

definition handle_media :: "u8 \<Rightarrow> u16 \<Rightarrow> u8 list \<Rightarrow> channels \<Rightarrow> u8 list + aa_effect list" where
  "handle_media channel i body c =
     (case ch_sessions c channel of
        None \<Rightarrow> Inl (str ''AA media before stream start'')
      | Some session \<Rightarrow>
          bindr (if i = 0 then ok_or (str ''short timestamped AA media'') (get_range body 8 (length body)) else Inr body) (\<lambda>data.
            if length data > 4 * 1024 * 1024 then Inl (str ''AA media size limit'')
            else Inr [EMedia channel data, reply1 channel 0x8004 (pb_message [PNum 1 session, PNum 2 1])]))"

definition metadata_message :: "u8 \<Rightarrow> u16 \<Rightarrow> bool" where
  "metadata_message channel i \<longleftrightarrow>
     channel = 0 \<and> (i = 5 \<or> i = 23) \<or> channel = META_CHANNEL \<and> (i = 0x8001 \<or> i = 0x8003)"

text \<open>Metadata, service discovery included: a message that does not parse is dropped.\<close>

definition handle_metadata :: "u8 \<Rightarrow> u16 \<Rightarrow> u8 list \<Rightarrow> channels \<Rightarrow> channels \<times> aa_effect list" where
  "handle_metadata channel i body c =
     (let update = (if channel = 0 \<or> channel \<in> ch_open c then meta_parse channel i body
                    else Inl (str ''metadata channel not open''));
          (c, effects) = (case update of
              Inr v \<Rightarrow> (c, [EMetadata v])
            | Inl _ \<Rightarrow> (c\<lparr>ch_warnings := insert (channel, i) (ch_warnings c)\<rparr>, [])) in
      if channel = 0 \<and> i = 5
      then (c\<lparr>ch_discovered := True\<rparr>, reply1 0 6 (discovery_codecs (ch_display c) (ch_offer_hevc c)) # effects)
      else (c, effects))"

definition service_ids :: "u64 list" where
  "service_ids = [1, 3, 4, 5, 6, 8, 9, 10]"

definition handle_open :: "u8 \<Rightarrow> (u32 \<times> u64) list \<Rightarrow> channels \<Rightarrow> channels \<times> (u8 list + aa_effect list)" where
  "handle_open channel fs c =
     (case map_of fs 2 of
        None \<Rightarrow> (c, Inl (str ''channel open missing service''))
      | Some target \<Rightarrow>
          let supported = (ch_discovered c \<and> target \<in> set service_ids) in
          (if supported then c\<lparr>ch_open := insert (ucast target) (ch_open c)\<rparr> else c,
           Inr [reply1 channel 8 (pb_message [PNum 1 (if supported then 0 else 1)])]))"

definition focus_state :: "u64 \<Rightarrow> u64" where
  "focus_state t = (if t = 1 then 1 else if t = 2 then 2 else if t = 3 then 2 else if t = 4 then 3 else 3)"

definition or_default :: "'a \<Rightarrow> 'a option \<Rightarrow> 'a" where
  "or_default d v = (case v of None \<Rightarrow> d | Some x \<Rightarrow> x)"

text \<open>The control channel; message 5 never reaches it (\<open>metadata_message\<close>).\<close>

definition handle_control :: "u16 \<Rightarrow> u8 list \<Rightarrow> (u32 \<times> u64) list \<Rightarrow> channels \<Rightarrow> channels \<times> aa_effect list" where
  "handle_control i body fs c =
     (if i = 5 then (c\<lparr>ch_discovered := True\<rparr>, [reply1 0 6 (discovery_codecs (ch_display c) (ch_offer_hevc c))])
      else (c,
        if i = 11 then [reply1 0 12 body]
        else if i = 13 then [reply1 0 14 (pb_message [PNum 1 1])]
        else if i = 15 then [reply1 0 16 [], EEnd]
        else if i = 18 then [reply1 0 19 (pb_message [PNum 1 (focus_state (or_default 0 (map_of fs 1)))])]
        else []))"

definition handle_sensor :: "(u32 \<times> u64) list \<Rightarrow> u8 list + aa_effect list" where
  "handle_sensor fs =
     (case map_of fs 1 of
        None \<Rightarrow> Inl (str ''sensor request missing type'')
      | Some kind \<Rightarrow>
          if kind \<noteq> 10 \<and> kind \<noteq> 13 then Inr [reply1 1 0x8002 (pb_message [PNum 1 1])]
          else Inr [reply1 1 0x8002 (pb_message [PNum 1 0]),
                    reply1 1 0x8003 (pb_message [PBytes (ucast kind) (pb_message [PNum 1 (if kind = 13 then 31 else 0)])])])"

definition handle_microphone :: "u16 \<Rightarrow> (u32 \<times> u64) list \<Rightarrow> channels \<Rightarrow> channels \<times> (u8 list + aa_effect list)" where
  "handle_microphone i fs c =
     (if i = 0x8000 then
        (if map_of fs 1 \<noteq> Some 1 then (c, Inl (str ''AA requested unsupported microphone codec''))
         else (c\<lparr>ch_setup := insert 9 (ch_setup c)\<rparr>,
               Inr [reply1 9 0x8003 (pb_message [PNum 1 2, PNum 2 1, PNum 3 0])]))
      else if i = 0x8005 then
        (if 9 \<notin> ch_setup c then (c, Inl (str ''Microphone opened before setup''))
         else (c, Inr [EMicrophone (or_default 0 (map_of fs 1) \<noteq> 0) (or_default 1 (map_of fs 4))]))
      else if i = 0x8002 then (c, Inr [EMicrophoneStop])
      else if i = 0x8004 then (c, Inr [EMicrophoneAck (or_default 0 (map_of fs 1)) (or_default 0 (map_of fs 2))])
      else (c, Inr []))"

definition av_setup :: "u8 \<Rightarrow> (u32 \<times> u64) list \<Rightarrow> channels \<Rightarrow> channels \<times> (u8 list + aa_effect list)" where
  "av_setup channel fs c =
     (let codec = map_of fs 1;
          supported = (if channel = 3 then codec = Some 3 \<or> ch_offer_hevc c \<and> codec = Some 7 else codec = Some 1);
          index = (if channel = 3 \<and> codec = Some 7 then 1 else 0) in
      if \<not> supported then (c, Inl (str ''AA requested an unadvertised media codec''))
      else if channel = 3 \<and> 3 \<in> ch_setup c \<and> ch_video_config c \<noteq> index
      then (c, Inl (str ''AA video codec is fixed for this session''))
      else
        let c = (if channel = 3 then c\<lparr>ch_video_config := index\<rparr> else c);
            c = c\<lparr>ch_setup := insert channel (ch_setup c)\<rparr> in
        (c, Inr (reply1 channel 0x8003 (pb_message [PNum 1 2, PNum 2 4, PNum 3 index])
                 # (if channel = 3 then [EVideoCodec (if index = 1 then Hevc else H264)] else []))))"

definition av_start :: "u8 \<Rightarrow> (u32 \<times> u64) list \<Rightarrow> channels \<Rightarrow> channels \<times> (u8 list + aa_effect list)" where
  "av_start channel fs c =
     (let expected = (if channel = 3 then ch_video_config c else 0) in
      if channel \<notin> ch_setup c \<or> or_default 0 (map_of fs 2) \<noteq> expected
      then (c, Inl (str ''AA invalid stream configuration''))
      else case map_of fs 1 of
        None \<Rightarrow> (c, Inl (str ''AA stream session missing''))
      | Some session \<Rightarrow>
          (c\<lparr>ch_sessions := (ch_sessions c)(channel \<mapsto> session)\<rparr>,
           Inr (if channel = 3
                then [EEstablished, EVideo (ch_video_requested c),
                      reply1 3 0x8008 (pb_message [PNum 1 (if ch_video_requested c then 1 else 2), PNum 2 0])]
                else [EAudio channel True])))"

definition av_stop :: "u8 \<Rightarrow> channels \<Rightarrow> channels \<times> aa_effect list" where
  "av_stop channel c =
     (c\<lparr>ch_sessions := (ch_sessions c)(channel := None)\<rparr>,
      if channel = 3 then [EVideo False] else [EAudio channel False])"

definition av_focus :: "(u32 \<times> u64) list \<Rightarrow> channels \<Rightarrow> channels \<times> aa_effect list" where
  "av_focus fs c =
     (let mode = map_of fs 2;
          c = (if mode = Some 2 then c\<lparr>ch_video_requested := False\<rparr> else c);
          focused = (mode = Some 1 \<and> ch_video_requested c) in
      (c, [reply1 3 0x8008 (pb_message [PNum 1 (if focused then 1 else 2), PNum 2 0]), EVideo focused]
          @ (if mode = Some 2 then [EHostReturn] else [])))"

definition handle_av :: "u8 \<Rightarrow> u16 \<Rightarrow> (u32 \<times> u64) list \<Rightarrow> channels \<Rightarrow> channels \<times> (u8 list + aa_effect list)" where
  "handle_av channel i fs c =
     (if i = 0x8000 then av_setup channel fs c
      else if i = 0x8001 then av_start channel fs c
      else if i = 0x8002 then apsnd Inr (av_stop channel c)
      else if i = 0x8007 \<and> channel = 3 then apsnd Inr (av_focus fs c)
      else (c, Inr []))"

definition av_channel :: "u8 \<Rightarrow> bool" where
  "av_channel ch \<longleftrightarrow> 3 \<le> ch \<and> ch \<le> 6"

definition handle :: "u8 \<Rightarrow> u16 \<Rightarrow> u8 list \<Rightarrow> channels \<Rightarrow> channels \<times> (u8 list + aa_effect list)" where
  "handle channel i body c =
     (if i \<le> 1 \<and> av_channel channel then (c, handle_media channel i body c)
      else if metadata_message channel i then apsnd Inr (handle_metadata channel i body c)
      else if channel = META_CHANNEL \<and> i \<noteq> 7 then (c, Inr [])
      else case numbers body of
        Inl e \<Rightarrow> (c, Inl e)
      | Inr fs \<Rightarrow>
          if i = 7 then handle_open channel fs c
          else if channel = 0 then apsnd Inr (handle_control i body fs c)
          else if channel \<notin> ch_open c
          then (c, Inl (str ''AA message for unopened channel '' @ decimal (unat channel)))
          else if channel = 1 \<and> i = 0x8001 then (c, handle_sensor fs)
          else if channel = 8 \<and> (i = 0x8002 \<or> i = 0x19)
          then (c, Inr [reply1 8 (if i = 0x19 then 0x1a else 0x8003) (pb_message [PNum 1 0])])
          else if channel = 9 then handle_microphone i fs c
          else if av_channel channel then handle_av channel i fs c
          else (c, Inr []))"

section \<open>Media keys\<close>

text \<open>The time stamp is the session clock in microseconds; adding one to it does not wrap in practice, and
  wraps here like in a release build.\<close>

definition key_report :: "u64 \<Rightarrow> u64 \<Rightarrow> bool \<Rightarrow> aa_reply" where
  "key_report code timestamp pressed = reply_new 8 0x8001 (pb_message
     [PNum 1 (timestamp + (if pressed then 0 else 1)),
      PBytes 4 (pb_message [PBytes 1 (pb_message
        [PNum 1 code, PNum 2 (if pressed then 1 else 0), PNum 3 0, PNum 4 0])])])"

definition media_key :: "u64 \<Rightarrow> u64 \<Rightarrow> channels \<Rightarrow> u8 list + aa_reply \<times> aa_reply" where
  "media_key code timestamp c =
     (if 8 \<notin> ch_open c then Inl (str ''Android Auto input channel is not ready'')
      else if code \<noteq> 87 \<and> code \<noteq> 88 \<and> code \<noteq> 126 \<and> code \<noteq> 127 then Inl (str ''Unsupported Android Auto media key'')
      else Inr (key_report code timestamp True, key_report code timestamp False))"

section \<open>Single precision coordinates\<close>

text \<open>
  A non-negative single precision number \<open>b\<close> is \<open>f32_units b\<close> times two to the power \<open>-149\<close>. The product
  with a small integer is rounded to 24 significant bits, ties to even (the exponent neither underflows,
  since the exact product is a multiple of the smallest number, nor overflows below \<open>2^16\<close>).
\<close>

definition f32_unit_interval :: "u32 \<Rightarrow> bool" where
  "f32_unit_interval b \<longleftrightarrow> b \<le> 0x3f800000 \<or> b = 0x80000000"

definition f32_units :: "u32 \<Rightarrow> nat" where
  "f32_units b =
     (let n = unat b mod 2 ^ 31; e = n div 2 ^ 23; f = n mod 2 ^ 23 in
      if e = 0 then f else (2 ^ 23 + f) * 2 ^ (e - 1))"

fun bit_length :: "nat \<Rightarrow> nat" where
  "bit_length n = (if n = 0 then 0 else Suc (bit_length (n div 2)))"

declare bit_length.simps [simp del]

definition round24 :: "nat \<Rightarrow> nat" where
  "round24 p =
     (let s = bit_length p - 24; q = p div 2 ^ s; r = p mod 2 ^ s in
      if 2 * r > 2 ^ s \<or> 2 * r = 2 ^ s \<and> odd q then Suc q * 2 ^ s else q * 2 ^ s)"

text \<open>\<open>(x * m as f32).round() as u32\<close>: half away from zero.\<close>

definition touch_coordinate :: "u32 \<Rightarrow> u16 \<Rightarrow> u32" where
  "touch_coordinate x m = of_nat ((round24 (f32_units x * unat m) + 2 ^ 148) div 2 ^ 149)"

section \<open>Touch\<close>

fun ptr_insert :: "u16 \<Rightarrow> 'a \<Rightarrow> (u16 \<times> 'a) list \<Rightarrow> (u16 \<times> 'a) list" where
  "ptr_insert k v [] = [(k, v)]"
| "ptr_insert k v ((k', v') # ps) =
     (if k < k' then (k, v) # (k', v') # ps
      else if k = k' then (k, v) # ps
      else (k', v') # ptr_insert k v ps)"

text \<open>The first contact identity below ten that no pointer uses. The code expects one: without it this is
  a panic, the value \<open>None\<close>.\<close>

definition free_contact :: "(u16 \<times> u8 \<times> u32 \<times> u32) list \<Rightarrow> u8 option" where
  "free_contact ps = find (\<lambda>i. i \<notin> (fst \<circ> snd) ` set ps) [0, 1, 2, 3, 4, 5, 6, 7, 8, 9]"

definition pointer_message :: "u16 \<times> u8 \<times> u32 \<times> u32 \<Rightarrow> pb_item" where
  "pointer_message = (\<lambda>(_, w, x, y). PBytes 1 (pb_message [PNum 1 (ucast x), PNum 2 (ucast y), PNum 3 (ucast w)]))"

fun ptr_index :: "u16 \<Rightarrow> (u16 \<times> 'a) list \<Rightarrow> nat" where
  "ptr_index k [] = 0"
| "ptr_index k ((k', v) # ps) = (if k = k' then 0 else Suc (ptr_index k ps))"

definition touch_action :: "u8 \<Rightarrow> nat \<Rightarrow> u64" where
  "touch_action phase n =
     (if phase = 0 then (if n > 1 then 5 else 0)
      else if phase = 1 then 2
      else if phase = 2 then (if n > 1 then 6 else 1)
      else 3)"

text \<open>The outer option is the panic, the inner one the code's own.\<close>

definition touch ::
  "u16 \<Rightarrow> u8 \<Rightarrow> u32 \<Rightarrow> u32 \<Rightarrow> u64 \<Rightarrow> channels \<Rightarrow> (channels \<times> (u8 list + aa_reply option)) option" where
  "touch pointer phase x y timestamp c =
     (if 8 \<notin> ch_open c then Some (c, Inr None)
      else if \<not> f32_unit_interval x \<or> \<not> f32_unit_interval y \<or> phase > 3
      then Some (c, Inl (str ''invalid projection touch''))
      else
        let px = touch_coordinate x (content_width (ch_display c) - 1);
            py = touch_coordinate y (content_height (ch_display c) - 1);
            known = map_of (ch_pointers c) pointer in
        if phase = 0 \<and> (length (ch_pointers c) \<ge> 10 \<or> known \<noteq> None) then Some (c, Inr None)
        else if phase \<noteq> 0 \<and> known = None then Some (c, Inr None)
        else case (case known of Some (w, _) \<Rightarrow> Some w | None \<Rightarrow> free_contact (ch_pointers c)) of
          None \<Rightarrow> None
        | Some w \<Rightarrow>
            let c = (if pointer > 31 then c\<lparr>ch_reported_large := True\<rparr> else c);
                ps = ptr_insert pointer (w, px, py) (ch_pointers c);
                body = pb_message (map pointer_message ps
                  @ [PNum 2 (of_nat (ptr_index pointer ps)), PNum 3 (touch_action phase (length ps))]);
                rest = (if phase = 3 then [] else if phase = 2 then filter (\<lambda>(k, _). k \<noteq> pointer) ps else ps) in
            Some (c\<lparr>ch_pointers := rest\<rparr>,
                  Inr (Some (reply_new 8 0x8001 (pb_message [PNum 1 timestamp, PBytes 3 body])))))"

section \<open>Contacts\<close>

definition contacts_ok :: "display_config \<Rightarrow> (u16 \<times> u8 \<times> u32 \<times> u32) list \<Rightarrow> bool" where
  "contacts_ok d ps \<longleftrightarrow>
     sorted_wrt (<) (map fst ps) \<and> length ps \<le> 10 \<and> distinct (map (fst \<circ> snd) ps)
     \<and> (\<forall>(k, w, x, y) \<in> set ps. w < 10 \<and> x < ucast (content_width d) \<and> y < ucast (content_height d))"

lemma ptr_insert_new:
  "map_of ps k = None \<Longrightarrow> \<exists>as bs. ps = as @ bs \<and> ptr_insert k v ps = as @ (k, v) # bs"
proof (induction ps)
  case (Cons p ps)
  obtain k' v' where p: "p = (k', v')" by (cases p)
  show ?case
  proof (cases "k < k'")
    case True
    then show ?thesis by (intro exI [of _ "[]"] exI [of _ "p # ps"]) (simp add: p)
  next
    case False
    from Cons.prems p have "map_of ps k = None" "k \<noteq> k'" by (simp_all split: if_splits)
    with Cons.IH obtain as bs where "ps = as @ bs" "ptr_insert k v ps = as @ (k, v) # bs" by blast
    with False \<open>k \<noteq> k'\<close> show ?thesis by (intro exI [of _ "(k', v') # as"] exI [of _ bs]) (simp add: p)
  qed
qed simp

lemma map_of_ptr_insert: "map_of (ptr_insert k v ps) = (map_of ps)(k \<mapsto> v)"
  by (induction ps) auto

lemma ptr_insert_keys: "set (map fst (ptr_insert k v ps)) = insert k (set (map fst ps))"
  by (induction k v ps rule: ptr_insert.induct) (simp_all add: insert_commute)

lemma sorted_ptr_insert: "sorted_wrt (<) (map fst ps) \<Longrightarrow> sorted_wrt (<) (map fst (ptr_insert k v ps))"
proof (induction ps)
  case (Cons p ps)
  obtain k' v' where "p = (k', v')" by (cases p)
  with Cons show ?case using ptr_insert_keys [of k v ps] by (auto simp: less_trans not_less_iff_gr_or_eq)
qed simp

lemma ptr_insert_known:
  "sorted_wrt (<) (map fst ps) \<Longrightarrow> map_of ps k = Some (w, a) \<Longrightarrow>
   map (fst \<circ> snd) (ptr_insert k (w, b) ps) = map (fst \<circ> snd) ps"
proof (induction ps)
  case (Cons p ps)
  obtain k' v' where p: "p = (k', v')" by (cases p)
  show ?case
  proof (cases "k = k'")
    case False
    with Cons.prems p have m: "map_of ps k = Some (w, a)" by simp
    then have "k \<in> set (map fst ps)" by (metis map_of_eq_None_iff option.distinct(1) set_map)
    with Cons.prems p have "k' < k" by auto
    with Cons m p show ?thesis by auto
  qed (use Cons.prems p in auto)
qed simp

lemma set_ptr_insert: "set (ptr_insert k v ps) \<subseteq> insert (k, v) (set ps)"
  by (induction k v ps rule: ptr_insert.induct) auto

lemma find_SomeD: "find P xs = Some x \<Longrightarrow> P x \<and> x \<in> set xs"
  by (induction xs) (auto split: if_splits)

lemma free_contact_Some: "free_contact ps = Some w \<Longrightarrow> w < 10 \<and> w \<notin> (fst \<circ> snd) ` set ps"
  unfolding free_contact_def by (drule find_SomeD) auto

lemma free_contact_exists:
  assumes "length ps < 10"
  shows "free_contact ps \<noteq> None"
proof
  assume "free_contact ps = None"
  then have "{0, 1, 2, 3, 4, 5, 6, 7, 8, 9} \<subseteq> (fst \<circ> snd) ` set ps"
    unfolding free_contact_def find_None_iff by auto
  then have "card {0 :: u8, 1, 2, 3, 4, 5, 6, 7, 8, 9} \<le> card ((fst \<circ> snd) ` set ps)" by (intro card_mono) auto
  also have "\<dots> \<le> card (set ps)" by (rule card_image_le) simp
  also have "\<dots> \<le> length ps" by (rule card_length)
  finally show False using assms by simp
qed

section \<open>Coordinates\<close>

lemma bit_length_bound: "p < 2 ^ k \<Longrightarrow> bit_length p \<le> k"
proof (induction k arbitrary: p)
  case 0
  then show ?case by (simp add: bit_length.simps)
next
  case (Suc k)
  then have "p div 2 < 2 ^ k" by simp
  with Suc.IH show ?case by (subst bit_length.simps) simp
qed

lemma round24_le:
  assumes "p \<le> M" and "2 ^ (bit_length p - 24) dvd M"
  shows "round24 p \<le> M"
proof -
  define s where "s = bit_length p - 24"
  define q r where "q = p div 2 ^ s" and "r = p mod 2 ^ s"
  obtain k where k: "M = k * 2 ^ s" using assms(2) by (auto simp: s_def mult.commute)
  have pq: "p = q * 2 ^ s + r" unfolding q_def r_def by (rule div_mult_mod_eq [symmetric])
  have qk: "q \<le> k"
    using div_le_mono [OF assms(1), of "2 ^ s"] by (simp add: q_def k)
  have up: "q < k" if "0 < r"
  proof -
    from that pq assms(1) k have "q * 2 ^ s < k * 2 ^ s" by linarith
    then show ?thesis by simp
  qed
  have "Suc q * 2 ^ s \<le> M" if "0 < r" using up [OF that] k mult_le_mono1 [of "Suc q" k "2 ^ s"] by simp
  moreover have "q * 2 ^ s \<le> M" using qk k by simp
  ultimately show ?thesis
    by (cases "r = 0") (auto simp: round24_def Let_def s_def [symmetric] q_def [symmetric] r_def [symmetric])
qed

lemma f32_units_le:
  assumes "f32_unit_interval b"
  shows "f32_units b \<le> 2 ^ 149"
proof (cases "b = 0x80000000")
  case False
  define e f where "e = unat b div 2 ^ 23" and "f = unat b mod 2 ^ 23"
  from False assms have le: "unat b \<le> 0x3f800000"
    by (simp add: f32_unit_interval_def word_le_nat_alt)
  then have n: "unat b mod 2 ^ 31 = unat b" by simp
  have b: "unat b = e * 2 ^ 23 + f" by (simp add: e_def f_def)
  have units: "f32_units b = (if e = 0 then f else (2 ^ 23 + f) * 2 ^ (e - 1))"
    unfolding f32_units_def n Let_def e_def f_def by (rule refl)
  have f: "f < 2 ^ 23" by (simp add: f_def)
  from le have "e \<le> 127" by (simp add: e_def)
  show ?thesis
  proof (cases "e = 127")
    case True
    with b le have "f = 0" by simp
    with True show ?thesis by (simp add: units)
  next
    case False
    with \<open>e \<le> 127\<close> have e: "e - 1 \<le> 125" by simp
    have "(2 ^ 23 + f) * 2 ^ (e - 1) \<le> 2 ^ 24 * (2 ^ 125 :: nat)"
      using f e by (intro mult_le_mono power_increasing) auto
    moreover have "f \<le> 2 ^ 149" using f by simp
    ultimately show ?thesis
      by (simp add: units)
  qed
qed (simp add: f32_units_def Let_def)

lemma touch_coordinate_le:
  assumes "f32_unit_interval x"
  shows "touch_coordinate x m \<le> ucast m"
proof -
  let ?p = "f32_units x * unat m" and ?M = "unat m * 2 ^ 149"
  have p: "?p \<le> ?M" using f32_units_le [OF assms] by (simp add: mult.commute)
  have m: "unat m < 2 ^ 16" using unat_bounds(2) [of m] by simp
  then have "?M < 2 ^ 16 * 2 ^ 149" by simp
  then have "?p < 2 ^ 165" by (intro le_less_trans [OF p]) simp
  then have "bit_length ?p \<le> 165" by (rule bit_length_bound)
  then have "(2 :: nat) ^ (bit_length ?p - 24) dvd 2 ^ 149" by (intro le_imp_power_dvd) simp
  then have r: "round24 ?p \<le> ?M" by (intro round24_le [OF p]) simp
  have "(round24 ?p + 2 ^ 148) div 2 ^ 149 \<le> (?M + 2 ^ 148) div 2 ^ 149" using r by (intro div_le_mono) simp
  also have "\<dots> = unat m" by simp
  finally have c: "(round24 ?p + 2 ^ 148) div 2 ^ 149 \<le> unat m" .
  have u: "unat (ucast m :: u32) = unat m" using m by (simp add: unsigned_ucast_eq take_bit_eq_mod)
  show ?thesis
    using c m by (simp add: touch_coordinate_def word_le_nat_alt u unat_of_nat)
qed

section \<open>The session's use of its channels\<close>

text \<open>The session loop calls these four operations, in the order the phone and the host cause them.\<close>

datatype channel_event =
    Message u8 u16 "u8 list"
  | Touch u16 u8 u32 u32 u64
  | Request bool
  | Key u64 u64

datatype channel_answer =
    Handled "u8 list + aa_effect list"
  | Touched "u8 list + aa_reply option"
  | Requested
  | Keyed "u8 list + aa_reply \<times> aa_reply"
  | Panic

fun channel_step :: "channels \<Rightarrow> channel_event \<Rightarrow> channels \<times> channel_answer" where
  "channel_step c (Message ch i body) = apsnd Handled (handle ch i body c)"
| "channel_step c (Touch pointer phase x y t) =
     (case touch pointer phase x y t c of Some (c', r) \<Rightarrow> (c', Touched r) | None \<Rightarrow> (c, Panic))"
| "channel_step c (Request r) = (set_video_requested r c, Requested)"
| "channel_step c (Key code t) = (c, Keyed (media_key code t c))"

section \<open>Invariant\<close>

definition channels_ok :: "display_config \<Rightarrow> bool \<Rightarrow> channels \<Rightarrow> bool" where
  "channels_ok d hevc c \<longleftrightarrow>
     ch_display c = d \<and> ch_offer_hevc c = hevc
     \<and> (ch_open c \<noteq> {} \<longrightarrow> ch_discovered c) \<and> ch_open c \<subseteq> ucast ` set service_ids
     \<and> ch_setup c \<subseteq> ch_open c \<and> (\<forall>ch. ch_sessions c ch \<noteq> None \<longrightarrow> ch \<in> ch_setup c \<and> av_channel ch)
     \<and> (ch_video_config c = 0 \<or> ch_video_config c = 1 \<and> hevc)
     \<and> (ch_pointers c \<noteq> [] \<longrightarrow> 8 \<in> ch_open c) \<and> contacts_ok d (ch_pointers c)"

lemma channels_ok_new: "channels_ok d hevc (channels_with_hevc d hevc)"
  by (simp add: channels_ok_def channels_with_hevc_def channels_new_def contacts_ok_def)

lemmas handle_defs = handle_def handle_metadata_def handle_open_def handle_control_def handle_microphone_def
  handle_av_def av_setup_def av_start_def av_stop_def av_focus_def Let_def

lemma handle_metadata_ok: "channels_ok d hevc c \<Longrightarrow> channels_ok d hevc (fst (handle_metadata ch i body c))"
  by (auto simp: handle_metadata_def Let_def channels_ok_def split: sum.splits)

lemma handle_open_ok: "channels_ok d hevc c \<Longrightarrow> channels_ok d hevc (fst (handle_open ch fs c))"
  by (auto simp: handle_open_def Let_def channels_ok_def split: option.splits)

lemma handle_microphone_ok: "channels_ok d hevc c \<Longrightarrow> 9 \<in> ch_open c \<Longrightarrow> channels_ok d hevc (fst (handle_microphone i fs c))"
  by (auto simp: handle_microphone_def channels_ok_def)

lemma av_setup_ok: "channels_ok d hevc c \<Longrightarrow> ch \<in> ch_open c \<Longrightarrow> channels_ok d hevc (fst (av_setup ch fs c))"
  by (auto simp: av_setup_def Let_def channels_ok_def)

lemma av_start_ok: "channels_ok d hevc c \<Longrightarrow> av_channel ch \<Longrightarrow> channels_ok d hevc (fst (av_start ch fs c))"
  by (auto simp: av_start_def Let_def channels_ok_def split: option.splits)

lemma av_stop_ok: "channels_ok d hevc c \<Longrightarrow> channels_ok d hevc (fst (av_stop ch c))"
  by (auto simp: av_stop_def channels_ok_def)

lemma av_focus_ok: "channels_ok d hevc c \<Longrightarrow> channels_ok d hevc (fst (av_focus fs c))"
  by (auto simp: av_focus_def Let_def channels_ok_def)

lemma handle_av_ok:
  "channels_ok d hevc c \<Longrightarrow> ch \<in> ch_open c \<Longrightarrow> av_channel ch \<Longrightarrow> channels_ok d hevc (fst (handle_av ch i fs c))"
  by (simp add: handle_av_def av_setup_ok av_start_ok av_stop_ok av_focus_ok)

lemma handle_control_ok: "channels_ok d hevc c \<Longrightarrow> channels_ok d hevc (fst (handle_control i body fs c))"
  by (auto simp: handle_control_def channels_ok_def)

lemma handle_ok: "channels_ok d hevc c \<Longrightarrow> channels_ok d hevc (fst (handle ch i body c))"
  by (auto simp: handle_def handle_metadata_ok handle_open_ok handle_microphone_ok handle_av_ok handle_control_ok
      split: sum.splits)

text \<open>The content of a display: the highest coordinate is one below its size.\<close>

definition has_content :: "display_config \<Rightarrow> bool" where
  "has_content d \<longleftrightarrow> 0 < content_width d \<and> 0 < content_height d"

lemma touch_coordinate_less:
  assumes "f32_unit_interval x" and "0 < (m :: u16)"
  shows "touch_coordinate x (m - 1) < ucast m"
proof -
  have u: "unat (ucast k :: u32) = unat k" for k :: u16
    using unat_bounds(2) [of k] by (simp add: unsigned_ucast_eq take_bit_eq_mod)
  have "unat (m - 1) < unat m"
    using assms(2) by (simp add: unat_minus_one word_neq_0_conv [symmetric] unat_gt_0)
  with touch_coordinate_le [OF assms(1), of "m - 1"] show ?thesis
    by (simp add: word_le_nat_alt word_less_nat_alt u)
qed

lemma contacts_ok_insert_known:
  assumes "contacts_ok d ps" and "map_of ps k = Some (w, a)"
    and "x < ucast (content_width d)" and "y < ucast (content_height d)"
  shows "contacts_ok d (ptr_insert k (w, x, y) ps)"
proof -
  have s: "sorted_wrt (<) (map fst ps)" using assms(1) by (simp add: contacts_ok_def)
  have m: "map (fst \<circ> snd) (ptr_insert k (w, x, y) ps) = map (fst \<circ> snd) ps"
    using ptr_insert_known [OF s assms(2)] .
  then have "length (ptr_insert k (w, x, y) ps) = length ps" by (metis length_map)
  moreover have "(k, w, a) \<in> set ps" using assms(2) by (rule map_of_SomeD)
  ultimately show ?thesis
    using assms m sorted_ptr_insert [OF s, of k "(w, x, y)"] set_ptr_insert [of k "(w, x, y)" ps]
    by (fastforce simp: contacts_ok_def)
qed

lemma contacts_ok_insert_new:
  assumes "contacts_ok d ps" and "map_of ps k = None" and "length ps < 10" and "free_contact ps = Some w"
    and "x < ucast (content_width d)" and "y < ucast (content_height d)"
  shows "contacts_ok d (ptr_insert k (w, x, y) ps)"
proof -
  have s: "sorted_wrt (<) (map fst ps)" using assms(1) by (simp add: contacts_ok_def)
  obtain as bs where p: "ps = as @ bs" "ptr_insert k (w, x, y) ps = as @ (k, w, x, y) # bs"
    using ptr_insert_new [OF assms(2)] by blast
  with assms free_contact_Some [OF assms(4)] sorted_ptr_insert [OF s, of k "(w, x, y)"] show ?thesis
    by (auto simp: contacts_ok_def image_Un)
qed

lemma contacts_ok_filter: "contacts_ok d ps \<Longrightarrow> contacts_ok d (filter P ps)"
proof -
  assume c: "contacts_ok d ps"
  have "sorted_wrt (<) (map fst (filter P ps))"
    using c by (simp add: contacts_ok_def sorted_wrt_map sorted_wrt_filter)
  moreover have "length (filter P ps) \<le> 10"
    using c by (auto simp: contacts_ok_def intro: le_trans [OF length_filter_le])
  ultimately show ?thesis using c by (auto simp: contacts_ok_def distinct_map_filter)
qed

lemma touch_ok:
  assumes "channels_ok d hevc c" and "has_content d"
  shows "\<exists>c' r. touch pointer phase x y t c = Some (c', r) \<and> channels_ok d hevc c'"
proof (cases "8 \<in> ch_open c \<and> f32_unit_interval x \<and> f32_unit_interval y \<and> phase \<le> 3
    \<and> \<not> (phase = 0 \<and> (length (ch_pointers c) \<ge> 10 \<or> map_of (ch_pointers c) pointer \<noteq> None))
    \<and> \<not> (phase \<noteq> 0 \<and> map_of (ch_pointers c) pointer = None)")
  case False
  then show ?thesis using assms by (auto simp: touch_def Let_def not_le)
next
  case True
  let ?ps = "ch_pointers c"
  let ?x = "touch_coordinate x (content_width (ch_display c) - 1)"
  let ?y = "touch_coordinate y (content_height (ch_display c) - 1)"
  have d: "ch_display c = d" "contacts_ok d ?ps" using assms(1) by (auto simp: channels_ok_def)
  have xy: "?x < ucast (content_width d)" "?y < ucast (content_height d)"
    using True assms(2) by (auto simp: d(1) has_content_def intro: touch_coordinate_less)
  obtain w where w: "(case map_of ?ps pointer of Some (w, _) \<Rightarrow> Some w | None \<Rightarrow> free_contact ?ps) = Some w"
    and ok: "contacts_ok d (ptr_insert pointer (w, ?x, ?y) ?ps)"
  proof (cases "map_of ?ps pointer")
    case None
    with True have l: "length ?ps < 10" by auto
    with None show thesis
      using that free_contact_exists [OF l] contacts_ok_insert_new [OF d(2) None l _ xy] by auto
  next
    case (Some v)
    then obtain w a where "map_of ?ps pointer = Some (w, a)" by (cases v) auto
    then show thesis using that contacts_ok_insert_known [OF d(2) _ xy] by auto
  qed
  have nil: "contacts_ok d []" by (simp add: contacts_ok_def)
  show ?thesis
    using True w assms(1) ok contacts_ok_filter [OF ok] nil
    by (auto simp: touch_def Let_def channels_ok_def not_less)
qed

lemma channel_step_ok:
  "channels_ok d hevc c \<Longrightarrow> has_content d \<Longrightarrow>
   channels_ok d hevc (fst (channel_step c e)) \<and> snd (channel_step c e) \<noteq> Panic"
proof (cases e)
  case (Touch pointer phase x y t)
  assume "channels_ok d hevc c" "has_content d"
  with Touch touch_ok [of d hevc c pointer phase x y t] show ?thesis by auto
next
  case (Message ch i body)
  assume "channels_ok d hevc c"
  then have "channels_ok d hevc (fst (handle ch i body c))" by (rule handle_ok)
  with Message show ?thesis by simp
next
  case (Request r)
  assume "channels_ok d hevc c"
  with Request show ?thesis by (simp add: set_video_requested_def channels_ok_def)
next
  case (Key code t)
  assume "channels_ok d hevc c"
  with Key show ?thesis by simp
qed

interpretation channel_machine: safe_machine channel_step "\<lambda>c. channels_ok d hevc c \<and> has_content d" for d hevc
  by unfold_locales (simp add: channel_step_ok)

lemma validated_content: "display_validate d = Inr () \<Longrightarrow> has_content d"
  using content_no_wrap [of d]
  by (auto simp: display_validate_def has_content_def split: if_splits)

lemma channels_run_ok:
  assumes "display_validate d = Inr ()"
  shows "channels_ok d hevc (fst (run_machine channel_step (channels_with_hevc d hevc) es))"
  using channel_machine.inv_run [of d hevc "channels_with_hevc d hevc" es] validated_content [OF assms]
  by (simp add: channels_ok_new)

lemma channels_run_no_panic:
  assumes "display_validate d = Inr ()"
  shows "Panic \<notin> set (snd (run_machine channel_step (channels_with_hevc d hevc) es))"
proof
  assume "Panic \<in> set (snd (run_machine channel_step (channels_with_hevc d hevc) es))"
  then obtain i where "i < length es" "snd (run_machine channel_step (channels_with_hevc d hevc) es) ! i = Panic"
    by (auto simp: in_set_conv_nth)
  then show False
    using channel_step_ok [OF channels_run_ok [OF assms, of hevc "take i es"] validated_content [OF assms], of "es ! i"]
    by (simp add: run_machine_nth)
qed

section \<open>What makes a stream\<close>

text \<open>An answer of the step that follows a run.\<close>

definition granted :: "channels \<Rightarrow> channel_event list \<Rightarrow> channel_event \<Rightarrow> aa_effect \<Rightarrow> bool" where
  "granted c0 es e effect \<longleftrightarrow>
     (\<exists>effects. snd (channel_step (fst (run_machine channel_step c0 es)) e) = Handled (Inr effects) \<and> effect \<in> set effects)"

lemma touch_keeps:
  "touch pointer phase x y t c = Some (c', r) \<Longrightarrow>
   ch_open c' = ch_open c \<and> ch_setup c' = ch_setup c \<and> ch_sessions c' = ch_sessions c \<and> ch_discovered c' = ch_discovered c"
  by (auto simp: touch_def Let_def split: if_splits option.splits)

lemma handle_metadata_keeps:
  "ch_open (fst (handle_metadata ch i body c)) = ch_open c
   \<and> ch_setup (fst (handle_metadata ch i body c)) = ch_setup c
   \<and> ch_sessions (fst (handle_metadata ch i body c)) = ch_sessions c"
  by (auto simp: handle_metadata_def Let_def split: sum.splits)

lemma handlers_keep_open:
  "ch_open (fst (handle_control i body fs c)) = ch_open c"
  "ch_open (fst (handle_microphone i fs c)) = ch_open c"
  "ch_open (fst (av_setup ch fs c)) = ch_open c"
  "ch_open (fst (av_start ch fs c)) = ch_open c"
  "ch_open (fst (av_stop ch c)) = ch_open c"
  "ch_open (fst (av_focus fs c)) = ch_open c"
  by (auto simp: handle_control_def handle_microphone_def av_setup_def av_start_def av_stop_def av_focus_def Let_def
      split: option.splits)

lemma handle_av_keeps_open: "ch_open (fst (handle_av ch i fs c)) = ch_open c"
  by (simp add: handle_av_def handlers_keep_open)

lemma handlers_keep_discovered:
  "ch_discovered (fst (handle_open ch fs c)) = ch_discovered c"
  "ch_discovered (fst (handle_microphone i fs c)) = ch_discovered c"
  "ch_discovered (fst (av_setup ch fs c)) = ch_discovered c"
  "ch_discovered (fst (av_start ch fs c)) = ch_discovered c"
  "ch_discovered (fst (av_stop ch c)) = ch_discovered c"
  "ch_discovered (fst (av_focus fs c)) = ch_discovered c"
  "i \<noteq> 5 \<Longrightarrow> ch_discovered (fst (handle_control i body fs c)) = ch_discovered c"
  by (auto simp: handle_open_def handle_control_def handle_microphone_def av_setup_def av_start_def av_stop_def
      av_focus_def Let_def split: option.splits)

lemma handle_cases:
  obtains (same) "fst (handle ch i body c) = c"
    | (meta) "metadata_message ch i" "handle ch i body c = apsnd Inr (handle_metadata ch i body c)"
    | (op) fs where "i = 7" "numbers body = Inr fs" "handle ch i body c = handle_open ch fs c"
    | (mic) fs where "ch = 9" "9 \<in> ch_open c" "handle ch i body c = handle_microphone i fs c"
    | (av) fs where "av_channel ch" "ch \<in> ch_open c" "handle ch i body c = handle_av ch i fs c"
proof (cases "i \<le> 1 \<and> av_channel ch \<or> metadata_message ch i \<or> ch = META_CHANNEL \<and> i \<noteq> 7")
  case True
  then consider "i \<le> 1 \<and> av_channel ch" | "\<not> (i \<le> 1 \<and> av_channel ch)" "metadata_message ch i"
    | "\<not> (i \<le> 1 \<and> av_channel ch)" "\<not> metadata_message ch i" "ch = META_CHANNEL \<and> i \<noteq> 7" by blast
  then show thesis
  proof cases
    case 1
    show thesis by (rule same) (simp add: handle_def 1)
  next
    case 2
    have "handle ch i body c = apsnd Inr (handle_metadata ch i body c)"
      unfolding handle_def if_not_P [OF 2(1)] if_P [OF 2(2)] by (rule refl)
    with 2(2) show thesis by (rule meta)
  next
    case 3
    show thesis using 3 by (intro same) (simp add: handle_def)
  qed
next
  case False
  show thesis
  proof (cases "numbers body")
    case (Inl e)
    with False show thesis by (intro same) (auto simp: handle_def)
  next
    case (Inr fs)
    show thesis
    proof (cases "i = 7")
      case True
      with False Inr show thesis by (intro op [of fs]) (auto simp: handle_def)
    next
      case i7: False
      from False have n: "\<not> (i \<le> 1 \<and> av_channel ch)" "\<not> metadata_message ch i" "\<not> (ch = META_CHANNEL \<and> i \<noteq> 7)" by auto
      have c: "fst (handle_control i body fs c) = c" if "ch = 0"
        using that False by (auto simp: handle_control_def metadata_message_def)
      have h: "handle ch i body c =
          (if ch = 0 then apsnd Inr (handle_control i body fs c)
           else if ch \<notin> ch_open c then (c, Inl (str ''AA message for unopened channel '' @ decimal (unat ch)))
           else if ch = 1 \<and> i = 0x8001 then (c, handle_sensor fs)
           else if ch = 8 \<and> (i = 0x8002 \<or> i = 0x19)
           then (c, Inr [reply1 8 (if i = 0x19 then 0x1a else 0x8003) (pb_message [PNum 1 0])])
           else if ch = 9 then handle_microphone i fs c
           else if av_channel ch then handle_av ch i fs c
           else (c, Inr []))"
        unfolding handle_def if_not_P [OF n(1)] if_not_P [OF n(2)] if_not_P [OF n(3)] Inr sum.case if_not_P [OF i7]
        by (rule refl)
      consider (m) "ch = 9" "ch \<in> ch_open c" | (a) "av_channel ch" "ch \<in> ch_open c" "ch \<noteq> 0" "ch \<noteq> 1" "ch \<noteq> 8" "ch \<noteq> 9"
        | (o) "ch = 9 \<longrightarrow> ch \<notin> ch_open c" "av_channel ch \<longrightarrow> ch \<notin> ch_open c \<or> ch = 0 \<or> ch = 1 \<or> ch = 8 \<or> ch = 9"
        by blast
      then show thesis
      proof cases
        case m
        have "handle ch i body c = handle_microphone i fs c" unfolding h using m by simp
        with m show thesis by (intro mic [of fs]) simp_all
      next
        case a
        have "handle ch i body c = handle_av ch i fs c" unfolding h using a by simp
        with a show thesis by (intro av [of fs]) simp_all
      next
        case o
        have "fst (handle ch i body c) = c"
        proof (cases "ch = 0")
          case True
          then show ?thesis unfolding h using c by simp
        next
          case ch0: False
          show ?thesis
          proof (cases "ch \<in> ch_open c")
            case True
            with o have "ch \<noteq> 9" "av_channel ch \<longrightarrow> ch = 1 \<or> ch = 8" using ch0 by auto
            moreover have "\<not> av_channel 1" "\<not> av_channel 8" by (auto simp: av_channel_def word_le_nat_alt)
            ultimately have "ch \<noteq> 9" "\<not> av_channel ch" by auto
            with ch0 True show ?thesis unfolding h by simp
          qed (simp add: h ch0)
        qed
        then show thesis by (rule same)
      qed
    qed
  qed
qed

lemma handle_open_keeps:
  "ch_setup (fst (handle_open ch fs c)) = ch_setup c" "ch_sessions (fst (handle_open ch fs c)) = ch_sessions c"
  by (auto simp: handle_open_def Let_def split: option.splits)

lemma handle_starts:
  assumes "ch_sessions c ch = None" and "ch_sessions (fst (handle ch' i body c)) ch \<noteq> None"
  shows "ch' = ch \<and> i = 0x8001 \<and> ch \<in> ch_setup c \<and>
    (\<exists>effects. snd (handle ch' i body c) = Inr effects \<and> (if ch = 3 then EEstablished else EAudio ch True) \<in> set effects)"
proof (cases rule: handle_cases [of ch' i body c])
  case (av fs)
  with assms show ?thesis
    by (auto simp: handle_av_def av_setup_def av_start_def av_stop_def av_focus_def Let_def split: if_splits option.splits)
next
  case (mic fs)
  with assms show ?thesis by (auto simp: handle_microphone_def split: if_splits)
qed (use assms handle_metadata_keeps [of ch' i body c] in \<open>simp_all add: handle_open_keeps\<close>)

lemma handle_sets_up:
  assumes "ch \<notin> ch_setup c" and "ch \<in> ch_setup (fst (handle ch' i body c))"
  shows "ch' = ch \<and> i = 0x8000 \<and> ch \<in> ch_open c \<and>
    (\<exists>effects index. snd (handle ch' i body c) = Inr effects \<and>
       reply1 ch 0x8003 (pb_message [PNum 1 2, PNum 2 (if ch = 9 then 1 else 4), PNum 3 index]) \<in> set effects)"
proof (cases rule: handle_cases [of ch' i body c])
  case (av fs)
  then have "ch' \<noteq> 9" by (auto simp: av_channel_def word_le_nat_alt)
  with av assms show ?thesis
    by (auto simp: handle_av_def av_setup_def av_start_def av_stop_def av_focus_def Let_def split: if_splits option.splits)
next
  case (mic fs)
  with assms show ?thesis by (auto simp: handle_microphone_def split: if_splits)
qed (use assms handle_metadata_keeps [of ch' i body c] in \<open>simp_all add: handle_open_keeps\<close>)

lemma handle_opens:
  assumes "ch \<notin> ch_open c" and "ch \<in> ch_open (fst (handle ch' i body c))"
  shows "i = 7 \<and> ch_discovered c \<and>
    (\<exists>fs target. numbers body = Inr fs \<and> map_of fs 2 = Some target \<and> target \<in> set service_ids \<and> ch = ucast target
       \<and> snd (handle ch' i body c) = Inr [reply1 ch' 8 (pb_message [PNum 1 0])])"
proof (cases rule: handle_cases [of ch' i body c])
  case (op fs)
  with assms show ?thesis by (auto simp: handle_open_def Let_def split: if_splits option.splits)
qed (use assms handle_metadata_keeps [of ch' i body c] in \<open>simp_all add: handlers_keep_open handle_av_keeps_open\<close>)

lemma handle_discovers:
  assumes "\<not> ch_discovered c" and "ch_discovered (fst (handle ch' i body c))"
  shows "ch' = 0 \<and> i = 5 \<and>
    (\<exists>effects. snd (handle ch' i body c) = Inr effects
       \<and> reply1 0 6 (discovery_codecs (ch_display c) (ch_offer_hevc c)) \<in> set effects)"
proof (cases "ch' = 0 \<and> i = 5")
  case True
  have "handle 0 5 body c = apsnd Inr (handle_metadata 0 5 body c)"
    by (simp add: handle_def metadata_message_def av_channel_def)
  with True show ?thesis by (simp add: handle_metadata_def Let_def split: sum.splits)
next
  case False
  have "ch_discovered (fst (handle_metadata ch' i body c)) = ch_discovered c"
    using False by (auto simp: handle_metadata_def Let_def split: sum.splits)
  then have "ch_discovered (fst (handle ch' i body c)) = ch_discovered c"
    by (cases rule: handle_cases [of ch' i body c]) (simp_all add: handle_av_def handlers_keep_discovered)
  with assms show ?thesis by simp
qed

text \<open>What the phone has to be answered for a stream to run.\<close>

definition started :: "u8 \<Rightarrow> aa_effect" where
  "started ch = (if ch = 3 then EEstablished else EAudio ch True)"

definition set_up :: "u8 \<Rightarrow> u64 \<Rightarrow> aa_effect" where
  "set_up ch index = reply1 ch 0x8003 (pb_message [PNum 1 2, PNum 2 (if ch = 9 then 1 else 4), PNum 3 index])"

definition opened :: "u8 \<Rightarrow> aa_effect" where
  "opened via = reply1 via 8 (pb_message [PNum 1 0])"

definition open_request :: "u8 \<Rightarrow> u8 list \<Rightarrow> bool" where
  "open_request ch body \<longleftrightarrow>
     (\<exists>fs target. numbers body = Inr fs \<and> map_of fs 2 = Some target \<and> target \<in> set service_ids \<and> ch = ucast target)"

abbreviation after :: "channels \<Rightarrow> channel_event list \<Rightarrow> channels" where
  "after c es \<equiv> fst (run_machine channel_step c es)"

lemma after_snoc: "after c (es @ [e]) = fst (channel_step (after c es) e)"
  by (simp add: run_machine_append split: prod.splits)

lemma granted_message:
  "granted c es (Message ch i body) effect \<longleftrightarrow>
     (\<exists>effects. snd (handle ch i body (after c es)) = Inr effects \<and> effect \<in> set effects)"
  by (simp add: granted_def)

lemma handle_stops:
  assumes "av_channel ch" and "snd (handle ch 0x8002 body c) = Inr effects"
  shows "ch_sessions (fst (handle ch 0x8002 body c)) ch = None"
proof -
  have "ch \<noteq> 0" "ch \<noteq> META_CHANNEL" "ch \<noteq> 1" "ch \<noteq> 8" "ch \<noteq> 9"
    using assms(1) by (auto simp: av_channel_def META_CHANNEL_def word_le_nat_alt)
  moreover have "\<not> (0x8002 :: u16) \<le> 1" by (simp add: word_le_nat_alt)
  ultimately show ?thesis
    using assms by (simp add: handle_def metadata_message_def handle_av_def av_stop_def split: sum.splits if_splits)
qed

text \<open>The other operations touch none of the four.\<close>

lemma step_keeps:
  assumes "\<forall>ch i body. e \<noteq> Message ch i body"
  shows "ch_open (fst (channel_step c e)) = ch_open c \<and> ch_setup (fst (channel_step c e)) = ch_setup c
    \<and> ch_sessions (fst (channel_step c e)) = ch_sessions c \<and> ch_discovered (fst (channel_step c e)) = ch_discovered c"
  using assms by (cases e) (auto simp: set_video_requested_def split: option.splits dest: touch_keeps)

lemma became:
  assumes "\<not> P c" and "P (after c es)"
    and "\<And>c' e. \<forall>ch i body. e \<noteq> Message ch i body \<Longrightarrow> P (fst (channel_step c' e)) = P c'"
  shows "\<exists>xs ch i body ys. es = xs @ Message ch i body # ys \<and> \<not> P (after c xs)
    \<and> P (fst (handle ch i body (after c xs)))
    \<and> (\<forall>zs ws. ys = zs @ ws \<longrightarrow> P (after c (xs @ Message ch i body # zs)))"
proof -
  obtain xs e ys where es: "es = xs @ e # ys" "\<not> P (after c xs)"
      "\<And>zs ws. ys = zs @ ws \<Longrightarrow> P (after c (xs @ e # zs))"
    using run_machine_since [of P c channel_step es] assms(1,2) by blast
  from es(3) [of "[]" ys] have p: "P (fst (channel_step (after c xs) e))" by (simp add: after_snoc)
  obtain ch i body where e: "e = Message ch i body"
    using assms(3) [of e "after c xs"] p es(2) by blast
  then show ?thesis using es(1,2) es(3) p
    by (intro exI [of _ xs] exI [of _ ch] exI [of _ i] exI [of _ body] exI [of _ ys]) (simp add: e)
qed

lemma stream_discovered:
  assumes "display_validate d = Inr ()" and "ch_discovered (after (channels_with_hevc d hevc) es)"
  shows "\<exists>xs body ys. es = xs @ Message 0 5 body # ys
    \<and> granted (channels_with_hevc d hevc) xs (Message 0 5 body) (reply1 0 6 (discovery_codecs d hevc))"
proof -
  let ?c = "channels_with_hevc d hevc"
  have init: "\<not> ch_discovered ?c" by (simp add: channels_with_hevc_def channels_new_def)
  obtain xs ch i body ys where es: "es = xs @ Message ch i body # ys" "\<not> ch_discovered (after ?c xs)"
      "ch_discovered (fst (handle ch i body (after ?c xs)))"
    using became [of ch_discovered ?c es, OF init assms(2)] by (simp add: step_keeps) blast
  have "ch_display (after ?c xs) = d" "ch_offer_hevc (after ?c xs) = hevc"
    using channels_run_ok [OF assms(1), of hevc xs] by (auto simp: channels_ok_def)
  with handle_discovers [OF es(2,3)] have "ch = 0 \<and> i = 5
      \<and> granted ?c xs (Message ch i body) (reply1 0 6 (discovery_codecs d hevc))"
    by (auto simp: granted_message)
  with es(1) show ?thesis by blast
qed

lemma stream_opened:
  assumes "ch \<in> ch_open (after (channels_with_hevc d hevc) es)"
  shows "\<exists>xs via body ys. es = xs @ Message via 7 body # ys \<and> open_request ch body
    \<and> granted (channels_with_hevc d hevc) xs (Message via 7 body) (opened via)
    \<and> ch_discovered (after (channels_with_hevc d hevc) xs)"
proof -
  let ?c = "channels_with_hevc d hevc" and ?P = "\<lambda>c. ch \<in> ch_open c"
  have init: "\<not> ?P ?c" by (simp add: channels_with_hevc_def channels_new_def)
  obtain xs via i body ys where es: "es = xs @ Message via i body # ys" "\<not> ?P (after ?c xs)"
      "?P (fst (handle via i body (after ?c xs)))"
    using became [of ?P ?c es, OF init assms] by (simp add: step_keeps) blast
  note h = handle_opens [OF es(2,3)]
  then have "granted ?c xs (Message via 7 body) (opened via)" "open_request ch body"
    by (auto simp: granted_message opened_def open_request_def)
  with es(1) h show ?thesis by blast
qed

lemma stream_set_up:
  assumes "ch \<in> ch_setup (after (channels_with_hevc d hevc) es)"
  shows "\<exists>xs body index ys. es = xs @ Message ch 0x8000 body # ys
    \<and> granted (channels_with_hevc d hevc) xs (Message ch 0x8000 body) (set_up ch index)
    \<and> ch \<in> ch_open (after (channels_with_hevc d hevc) xs)"
proof -
  let ?c = "channels_with_hevc d hevc" and ?P = "\<lambda>c. ch \<in> ch_setup c"
  have init: "\<not> ?P ?c" by (simp add: channels_with_hevc_def channels_new_def)
  obtain xs ch' i body ys where es: "es = xs @ Message ch' i body # ys" "\<not> ?P (after ?c xs)"
      "?P (fst (handle ch' i body (after ?c xs)))"
    using became [of ?P ?c es, OF init assms] by (simp add: step_keeps) blast
  note h = handle_sets_up [OF es(2,3)]
  then obtain index where "granted ?c xs (Message ch 0x8000 body) (set_up ch index)"
    by (auto simp: granted_message set_up_def)
  with es(1) h show ?thesis by blast
qed

lemma stream_started:
  assumes "av_channel ch" and "ch_sessions (after (channels_with_hevc d hevc) es) ch \<noteq> None"
  shows "\<exists>xs body ys. es = xs @ Message ch 0x8001 body # ys
    \<and> granted (channels_with_hevc d hevc) xs (Message ch 0x8001 body) (started ch)
    \<and> ch \<in> ch_setup (after (channels_with_hevc d hevc) xs)
    \<and> (\<forall>zs b ws effect. ys = zs @ Message ch 0x8002 b # ws \<longrightarrow>
         \<not> granted (channels_with_hevc d hevc) (xs @ Message ch 0x8001 body # zs) (Message ch 0x8002 b) effect)"
proof -
  let ?c = "channels_with_hevc d hevc" and ?P = "\<lambda>c. ch_sessions c ch \<noteq> None"
  have init: "\<not> ?P ?c" by (simp add: channels_with_hevc_def channels_new_def)
  have keep: "?P (fst (channel_step c' e)) = ?P c'" if "\<forall>ch i body. e \<noteq> Message ch i body" for c' e
    using step_keeps [OF that, of c'] by simp
  obtain xs ch' i body ys where es: "es = xs @ Message ch' i body # ys" "\<not> ?P (after ?c xs)"
      "?P (fst (handle ch' i body (after ?c xs)))"
      "\<And>zs ws. ys = zs @ ws \<Longrightarrow> ?P (after ?c (xs @ Message ch' i body # zs))"
    using became [of ?P ?c es, OF init assms(2) keep] by blast
  from es(2) have "ch_sessions (after ?c xs) ch = None" by simp
  note h = handle_starts [OF this es(3)]
  have "\<not> granted ?c (xs @ Message ch 0x8001 body # zs) (Message ch 0x8002 b) effect"
    if "ys = zs @ Message ch 0x8002 b # ws" for zs b ws effect
  proof
    assume g: "granted ?c (xs @ Message ch 0x8001 body # zs) (Message ch 0x8002 b) effect"
    let ?s = "after ?c (xs @ Message ch 0x8001 body # zs)"
    from that have "?P (after ?c ((xs @ Message ch 0x8001 body # zs) @ [Message ch 0x8002 b]))"
      using es(4) [of "zs @ [Message ch 0x8002 b]" ws] h by simp
    then have "?P (fst (handle ch 0x8002 b ?s))" unfolding after_snoc by simp
    moreover from g obtain effects where "snd (handle ch 0x8002 b ?s) = Inr effects"
      unfolding granted_message by blast
    ultimately show False using handle_stops [OF assms(1)] by simp
  qed
  moreover have "es = xs @ Message ch 0x8001 body # ys" "ch \<in> ch_setup (after ?c xs)" using es(1) h by simp_all
  moreover have "granted ?c xs (Message ch 0x8001 body) (started ch)"
    using h by (auto simp: granted_message started_def)
  ultimately show ?thesis by blast
qed

lemma media_has_session:
  assumes "granted c es (Message ch' i body) (EMedia ch data)"
  shows "ch' = ch \<and> i \<le> 1 \<and> av_channel ch \<and> length data \<le> 4 * 1024 * 1024 \<and> suffix data body
    \<and> ch_sessions (after c es) ch \<noteq> None"
  using assms
  by (auto simp: granted_message handle_def handle_media_def handle_metadata_def handle_open_def handle_control_def
      handle_sensor_def handle_microphone_def handle_av_def av_setup_def av_start_def av_stop_def av_focus_def reply1_def
      get_range_def Let_def suffix_drop split: if_splits option.splits sum.splits)

section \<open>Properties\<close>

text \<open>C12. For a validated display, whatever the phone sends and however the host interleaves touches, media
  keys and visibility requests, the session never panics (a contact always finds a free identity), its
  channels stay consistent: only advertised services are open, streams are set up on open channels and
  started on set-up ones, HEVC is configured only when offered, at most ten contacts have different
  identities below ten and lie inside the visible content.\<close>

theorem aa_channels_safe:
  assumes "display_validate d = Inr ()"
  shows "Panic \<notin> set (snd (run_machine channel_step (channels_with_hevc d hevc) es))
    \<and> channels_ok d hevc (after (channels_with_hevc d hevc) es)"
  using channels_run_no_panic [OF assms] channels_run_ok [OF assms] by blast

definition wit_events :: "channel_event list" where
  "wit_events = [Message 0 5 [], Message 0 7 (pb_message [PNum 2 4]), Message 4 0x8000 (pb_message [PNum 1 1]),
     Message 4 0x8001 (pb_message [PNum 1 9])]"

lemma display_default_valid: "display_validate display_default = Inr ()"
  by (simp add: display_validate_def display_default_def MODES_def FPS_def insets_fit_def content_width_def content_height_def)

theorem aa_channels_safe_witness:
  "display_validate display_default = Inr ()
   \<and> Panic \<notin> set (snd (run_machine channel_step (channels_with_hevc display_default True) wit_events))"
  using aa_channels_safe [OF display_default_valid, of True wit_events] display_default_valid by simp

text \<open>The complete negotiation of a stream that is still running.\<close>

definition negotiated :: "display_config \<Rightarrow> bool \<Rightarrow> u8 \<Rightarrow> channel_event list \<Rightarrow> bool" where
  "negotiated d hevc ch es \<longleftrightarrow>
    (\<exists>e1 e2 e3 e4 e5 b1 via b2 b3 b4 index.
       es = e1 @ Message 0 5 b1 # e2 @ Message via 7 b2 # e3 @ Message ch 0x8000 b3 # e4 @ Message ch 0x8001 b4 # e5
       \<and> granted (channels_with_hevc d hevc) e1 (Message 0 5 b1) (reply1 0 6 (discovery_codecs d hevc))
       \<and> open_request ch b2
       \<and> granted (channels_with_hevc d hevc) (e1 @ Message 0 5 b1 # e2) (Message via 7 b2) (opened via)
       \<and> granted (channels_with_hevc d hevc) (e1 @ Message 0 5 b1 # e2 @ Message via 7 b2 # e3)
           (Message ch 0x8000 b3) (set_up ch index)
       \<and> granted (channels_with_hevc d hevc) (e1 @ Message 0 5 b1 # e2 @ Message via 7 b2 # e3 @ Message ch 0x8000 b3 # e4)
           (Message ch 0x8001 b4) (started ch)
       \<and> (\<forall>zs b ws effect. e5 = zs @ Message ch 0x8002 b # ws \<longrightarrow>
            \<not> granted (channels_with_hevc d hevc)
                (e1 @ Message 0 5 b1 # e2 @ Message via 7 b2 # e3 @ Message ch 0x8000 b3 # e4 @ Message ch 0x8001 b4 # zs)
                (Message ch 0x8002 b) effect))"

text \<open>C9. Media data reaches playback only through a stream the phone has negotiated completely: before it, in
  this order, service discovery was answered, the channel was opened, the stream set up and started, and it
  has not been stopped since. The data is at most 4 MiB of the message's own body.\<close>

theorem aa_media_ordered:
  assumes "display_validate d = Inr ()"
    and "granted (channels_with_hevc d hevc) es (Message ch' i body) (EMedia ch data)"
  shows "ch' = ch \<and> av_channel ch \<and> length data \<le> 4 * 1024 * 1024 \<and> suffix data body
    \<and> negotiated d hevc ch es"
proof -
  note m = media_has_session [OF assms(2)]
  obtain x4 b4 e5 where s4: "es = x4 @ Message ch 0x8001 b4 # e5"
      "granted (channels_with_hevc d hevc) x4 (Message ch 0x8001 b4) (started ch)"
      "ch \<in> ch_setup (after (channels_with_hevc d hevc) x4)"
      "\<And>zs b ws effect. e5 = zs @ Message ch 0x8002 b # ws \<Longrightarrow>
         \<not> granted (channels_with_hevc d hevc) (x4 @ Message ch 0x8001 b4 # zs) (Message ch 0x8002 b) effect"
    using stream_started [of ch d hevc es] m by blast
  obtain x3 b3 index e4 where s3: "x4 = x3 @ Message ch 0x8000 b3 # e4"
      "granted (channels_with_hevc d hevc) x3 (Message ch 0x8000 b3) (set_up ch index)"
      "ch \<in> ch_open (after (channels_with_hevc d hevc) x3)"
    using stream_set_up [OF s4(3)] by blast
  obtain x2 via b2 e3 where s2: "x3 = x2 @ Message via 7 b2 # e3" "open_request ch b2"
      "granted (channels_with_hevc d hevc) x2 (Message via 7 b2) (opened via)"
      "ch_discovered (after (channels_with_hevc d hevc) x2)"
    using stream_opened [OF s3(3)] by blast
  obtain e1 b1 e2 where s1: "x2 = e1 @ Message 0 5 b1 # e2"
      "granted (channels_with_hevc d hevc) e1 (Message 0 5 b1) (reply1 0 6 (discovery_codecs d hevc))"
    using stream_discovered [OF assms(1) s2(4)] by blast
  have "negotiated d hevc ch es"
    unfolding negotiated_def
    by (rule exI [of _ e1], rule exI [of _ e2], rule exI [of _ e3], rule exI [of _ e4], rule exI [of _ e5],
        rule exI [of _ b1], rule exI [of _ via], rule exI [of _ b2], rule exI [of _ b3], rule exI [of _ b4],
        rule exI [of _ index]) (use s1 s2 s3 s4 in simp)
  with m show ?thesis by simp
qed

lemma wit_numbers: "numbers (pb_message [PNum f v]) = Inr [(f, v)]" if "f \<noteq> 0" "f \<le> 0x1fffffff"
  using numbers_message [of "[PNum f v]"] that by simp

theorem aa_media_ordered_witness:
  "negotiated display_default False 4 wit_events
     \<and> granted (channels_with_hevc display_default False) wit_events (Message 4 1 [0xaa]) (EMedia 4 [0xaa])"
proof -
  have g: "granted (channels_with_hevc display_default False) wit_events (Message 4 1 [0xaa]) (EMedia 4 [0xaa])"
    by (simp add: granted_message wit_events_def wit_numbers handle_def handle_metadata_def handle_open_def handle_av_def
        av_setup_def av_start_def handle_media_def channels_with_hevc_def channels_new_def metadata_message_def av_channel_def
        META_CHANNEL_def service_ids_def or_default_def word_le_nat_alt split: sum.splits)
  from aa_media_ordered [OF display_default_valid g] g show ?thesis by auto
qed

end
