(* ===== verification/Host_Control.thy ===== *)
theory Host_Control
  imports Aa_Channels
begin

text \<open>
  The host's side of a projection session (\<open>native/projection/argo-projectiond/src/host_control.rs\<close>): the
  configuration with the display a running session is frozen to, the start-up checks, and the commands of
  the control channel. The environment, the identity check and the decoder check are arguments.
\<close>

section \<open>Configuration\<close>

record session_config =
  sc_display :: display_config
  sc_offer_hevc :: bool
  sc_active :: "(u8 list \<times> display_config) option"
  sc_identity :: "(u8 list \<times> u8 list) option"
  sc_media_socket :: "u8 list option"

definition session_config_default :: session_config where
  "session_config_default = \<lparr>sc_display = display_default, sc_offer_hevc = False, sc_active = None,
     sc_identity = None, sc_media_socket = None\<rparr>"

record host_control =
  hc_config :: session_config
  hc_readiness :: u8
  hc_detail :: "u8 list"

definition host_control_default :: host_control where
  "host_control_default = \<lparr>hc_config = session_config_default, hc_readiness = 1,
     hc_detail = str ''Configure ARGO_ANDROID_AUTO_CERT_FILE and ARGO_ANDROID_AUTO_KEY_FILE on argo-projectiond, then restart it.''\<rparr>"

text \<open>\<open>env\<close> looks a variable up, \<open>tls\<close> checks an identity, \<open>hevc\<close> is the decoder check and \<open>complete\<close> tells
  whether the build has the USB and media features.\<close>

definition not_ready :: "u8 \<Rightarrow> u8 list \<Rightarrow> host_control \<Rightarrow> host_control" where
  "not_ready r d h = h\<lparr>hc_readiness := r, hc_detail := d\<rparr>"

definition check_identity ::
  "(string \<Rightarrow> u8 list option) \<Rightarrow> (u8 list \<times> u8 list \<Rightarrow> u8 list + unit) \<Rightarrow> host_control \<Rightarrow> host_control" where
  "check_identity env tls h =
     (case (env ''ARGO_ANDROID_AUTO_CERT_FILE'', env ''ARGO_ANDROID_AUTO_KEY_FILE'') of
        (Some certificate, Some key) \<Rightarrow>
          (case tls (certificate, key) of
             Inr _ \<Rightarrow> h\<lparr>hc_readiness := 0, hc_detail := str ''Ready'',
                        hc_config := (hc_config h)\<lparr>sc_identity := Some (certificate, key)\<rparr>\<rparr>
           | Inl e \<Rightarrow> not_ready 2 (str ''Daemon identity invalid: '' @ e @ str ''. Check daemon identity files and restart.'') h)
      | _ \<Rightarrow> h)"

definition from_environment ::
  "(string \<Rightarrow> u8 list option) \<Rightarrow> (u8 list \<times> u8 list \<Rightarrow> u8 list + unit) \<Rightarrow> u8 list + unit \<Rightarrow> bool \<Rightarrow> host_control" where
  "from_environment env tls hevc complete =
     (let h = host_control_default; wanted = env ''ARGO_ANDROID_AUTO_HEVC'' in
      case protocol_minor (env ''ARGO_ANDROID_AUTO_PROTOCOL_VERSION'') of
        Inl e \<Rightarrow> not_ready 3 e h
      | Inr _ \<Rightarrow>
          if wanted \<noteq> None \<and> wanted \<noteq> Some (str ''0'') \<and> wanted \<noteq> Some (str ''1'')
          then not_ready 3 (str ''ARGO_ANDROID_AUTO_HEVC must be 0 or 1'') h
          else case (if wanted = Some (str ''1'') then hevc else Inr ()) of
            Inl e \<Rightarrow> not_ready 3 e h
          | Inr _ \<Rightarrow>
              let h = (if wanted = Some (str ''1'') then h\<lparr>hc_config := (hc_config h)\<lparr>sc_offer_hevc := True\<rparr>\<rparr> else h) in
              (case resolve_endpoint (env ''ARGO_PROJECTION_MEDIA_SOCKET'') (env ''XDG_RUNTIME_DIR'') (str ''projection-video.sock'') of
                 Inl e \<Rightarrow> not_ready 3 e h
               | Inr path \<Rightarrow>
                   let h = check_identity env tls (h\<lparr>hc_config := (hc_config h)\<lparr>sc_media_socket := Some path\<rparr>\<rparr>) in
                   if hc_readiness h = 0 \<and> \<not> complete
                   then not_ready 3 (str ''Rebuild argo-projectiond with linux-usb,linux-media.'') h
                   else h))"

text \<open>The frozen copy a session works with, and the end of the session.\<close>

definition begin_session :: "u8 list \<Rightarrow> session_config \<Rightarrow> session_config \<times> session_config" where
  "begin_session i c =
     (let selected = (case sc_active c of
              Some (session, d) \<Rightarrow> if session = i then d else sc_display c
            | None \<Rightarrow> sc_display c);
          c = c\<lparr>sc_active := Some (i, selected)\<rparr> in
      (c, c\<lparr>sc_display := selected\<rparr>))"

definition end_session :: "u8 list \<Rightarrow> session_config \<Rightarrow> session_config" where
  "end_session i c = (if (case sc_active c of Some (session, _) \<Rightarrow> session = i | None \<Rightarrow> False) then c\<lparr>sc_active := None\<rparr> else c)"

text \<open>\<open>unwrap\<close> of a failed write would be a panic: the left value.\<close>

definition configuration_message :: "u32 \<Rightarrow> bool \<Rightarrow> u8 list \<Rightarrow> session_config \<Rightarrow> decode_error + ipc_message" where
  "configuration_message revision accepted reason c =
     bindr (pw_string reason (pw_u8 (bool_u8 accepted) (pw_u32 revision []))) (\<lambda>w.
       let w = write_display (sc_display c) w in
       bindr (case sc_active c of
                Some (i, d) \<Rightarrow> bindr (pw_string i w) (\<lambda>w. Inr (write_display d w))
              | None \<Rightarrow> pw_string [] w) (\<lambda>w.
         Inr \<lparr>im_kind = 10, im_payload = w\<rparr>))"

section \<open>Commands\<close>

text \<open>The media key command comes from another part of the daemon, with its deadline and the place for its
  result, which tells whether anyone still waits.\<close>

datatype command =
    Disconnect "u8 list"
  | Activate "u8 list"
  | TouchAt "u8 list" u16 u8 u32 u32
  | Visibility "u8 list" bool
  | Gain "u8 list" "u8 list" u32
  | MediaKey "u8 list" u64 nat bool

definition need :: "string \<Rightarrow> (payload_reader \<Rightarrow> payload_reader \<times> 'a option) \<Rightarrow> ('a \<Rightarrow> payload_reader \<Rightarrow> u8 list + 'b)
    \<Rightarrow> payload_reader \<Rightarrow> u8 list + 'b" where
  "need message take_field k r = (case take_field r of (_, None) \<Rightarrow> Inl (str message) | (r, Some v) \<Rightarrow> k v r)"

definition command_body :: "u16 \<Rightarrow> u8 list \<Rightarrow> payload_reader \<Rightarrow> u8 list + (command \<times> payload_reader)" where
  "command_body kind target r =
     (if kind = 21 then Inr (Disconnect target, r)
      else if kind = 22 then Inr (Activate target, r)
      else if kind = 23 then
        need ''missing pointer'' pr_u16 (\<lambda>p. need ''missing phase'' pr_u8 (\<lambda>ph.
        need ''missing x'' pr_f32 (\<lambda>x. need ''missing y'' pr_f32 (\<lambda>y r. Inr (TouchAt target p ph x y, r))))) r
      else if kind = 26 then
        (case pr_u8 r of
           (r, Some b) \<Rightarrow> if b = 0 \<or> b = 1 then Inr (Visibility target (b = 1), r) else Inl (str ''invalid visibility'')
         | (_, None) \<Rightarrow> Inl (str ''invalid visibility''))
      else if kind = 27 then
        need ''missing stream'' pr_string (\<lambda>stream. need ''missing gain'' pr_f32 (\<lambda>gain r.
          if \<not> f32_unit_interval gain then Inl (str ''invalid gain'') else Inr (Gain target stream gain, r))) r
      else Inl (str ''unsupported projection command''))"

definition host_command :: "ipc_message \<Rightarrow> u8 list + command" where
  "host_command m =
     need ''missing command target'' pr_string (\<lambda>target r.
       bindr (command_body (im_kind m) target r) (\<lambda>(c, r).
         if \<not> pr_done r then Inl (str ''trailing projection command bytes'') else Inr c))
       (pr_new (im_payload m))"

section \<open>Lemmas\<close>

text \<open>How a client writes a command.\<close>

fun command_payload :: "command \<Rightarrow> u8 list" where
  "command_payload (Disconnect t) = to_be16 (of_nat (length t)) @ t"
| "command_payload (Activate t) = to_be16 (of_nat (length t)) @ t"
| "command_payload (TouchAt t p ph x y) =
     to_be16 (of_nat (length t)) @ t @ to_be16 p @ [ph] @ to_be32 x @ to_be32 y"
| "command_payload (Visibility t b) = to_be16 (of_nat (length t)) @ t @ [bool_u8 b]"
| "command_payload (Gain t s g) =
     to_be16 (of_nat (length t)) @ t @ to_be16 (of_nat (length s)) @ s @ to_be32 g"
| "command_payload (MediaKey s c d w) = []"

fun command_kind :: "command \<Rightarrow> u16" where
  "command_kind (Disconnect t) = 21"
| "command_kind (Activate t) = 22"
| "command_kind (TouchAt t p ph x y) = 23"
| "command_kind (Visibility t b) = 26"
| "command_kind (Gain t s g) = 27"
| "command_kind (MediaKey s c d w) = 0"

definition text_ok :: "u8 list \<Rightarrow> bool" where
  "text_ok s \<longleftrightarrow> length s \<le> 4096 \<and> utf8_valid s"

fun command_ok :: "command \<Rightarrow> bool" where
  "command_ok (Disconnect t) = text_ok t"
| "command_ok (Activate t) = text_ok t"
| "command_ok (TouchAt t p ph x y) = text_ok t"
| "command_ok (Visibility t b) = text_ok t"
| "command_ok (Gain t s g) = (text_ok t \<and> text_ok s \<and> f32_unit_interval g)"
| "command_ok (MediaKey s c d w) = False"

lemma need_Some: "take_field r = (r', Some v) \<Longrightarrow> need m take_field k r = k v r'"
  by (simp add: need_def)

lemma command_target:
  assumes "text_ok t"
  shows "host_command \<lparr>im_kind = kind, im_payload = to_be16 (of_nat (length t)) @ t @ rest\<rparr> =
    bindr (command_body kind t (reader_at (to_be16 (of_nat (length t)) @ t) rest)) (\<lambda>(c, r).
         if \<not> pr_done r then Inl (str ''trailing projection command bytes'') else Inr c)"
proof -
  have "pr_string (reader_at [] (to_be16 (of_nat (length t)) @ t @ rest)) = (reader_at (to_be16 (of_nat (length t)) @ t) rest, Some t)"
    using reader_at_string [of t "[]" rest] assms by (simp add: text_ok_def)
  then show ?thesis by (simp add: host_command_def pr_new_at need_Some)
qed

lemma command_round_trip:
  assumes "command_ok c"
  shows "host_command \<lparr>im_kind = command_kind c, im_payload = command_payload c\<rparr> = Inr c"
proof (cases c)
  case (Disconnect t)
  with assms command_target [of t 21 "[]"] show ?thesis by (simp add: command_body_def pr_done_at)
next
  case (Activate t)
  with assms command_target [of t 22 "[]"] show ?thesis by (simp add: command_body_def pr_done_at)
next
  case (Visibility t b)
  with assms command_target [of t 26 "[bool_u8 b]"] show ?thesis
    by (simp add: command_body_def reader_at_u8 pr_done_at bool_u8_def)
next
  case (TouchAt t p ph x y)
  let ?h = "to_be16 (of_nat (length t)) @ t"
  have "command_body 23 t (reader_at ?h (to_be16 p @ ph # to_be32 x @ to_be32 y @ []))
      = Inr (c, reader_at ((((?h @ to_be16 p) @ [ph]) @ to_be32 x) @ to_be32 y) [])"
    unfolding command_body_def TouchAt
    by (simp add: need_Some reader_at_u16 reader_at_u8 reader_at_f32 del: append_Nil2 append_assoc)
  with assms command_target [of t 23 "to_be16 p @ [ph] @ to_be32 x @ to_be32 y"] show ?thesis
    by (simp add: TouchAt pr_done_at)
next
  case (Gain t s g)
  let ?h = "to_be16 (of_nat (length t)) @ t"
  have s: "length s \<le> 4096" "utf8_valid s" and g: "f32_unit_interval g" using assms Gain by (auto simp: text_ok_def)
  have "command_body 27 t (reader_at ?h (to_be16 (of_nat (length s)) @ s @ to_be32 g @ []))
      = Inr (c, reader_at ((?h @ to_be16 (of_nat (length s)) @ s) @ to_be32 g) [])"
    unfolding command_body_def Gain
    by (simp add: need_Some reader_at_string [OF s] reader_at_f32 g del: append_Nil2 append_assoc)
  with assms command_target [of t 27 "to_be16 (of_nat (length s)) @ s @ to_be32 g"] show ?thesis
    by (simp add: Gain pr_done_at)
qed (use assms in simp)

section \<open>Properties\<close>

text \<open>Every command a client can write is understood as it was meant: for each kind, texts of up to 4096 bytes
  of UTF-8 and a gain between zero and one, the daemon reads back the same command with all its fields.\<close>

theorem host_command_round_trip:
  assumes "command_ok c"
  shows "host_command \<lparr>im_kind = command_kind c, im_payload = command_payload c\<rparr> = Inr c"
  by (rule command_round_trip [OF assms])

theorem host_command_round_trip_witness:
  "host_command \<lparr>im_kind = 23, im_payload = command_payload (TouchAt [97] 4 0 0x3f800000 0)\<rparr>
     = Inr (TouchAt [97] 4 0 0x3f800000 0)"
  using host_command_round_trip [of "TouchAt [97] 4 0 0x3f800000 0"] by (simp add: text_ok_def)

text \<open>The display of a running session is frozen: however often the host changes its configuration while the
  session runs, beginning the same session again (a retry) selects the same display, other sessions
  begin with the new one, and the end of the session, but of no other, releases it.\<close>

theorem session_display_frozen:
  assumes "begin_session i c = (c1, frozen)"
  shows "sc_display frozen = (case sc_active c of Some (j, d) \<Rightarrow> if j = i then d else sc_display c | None \<Rightarrow> sc_display c)
    \<and> sc_display c1 = sc_display c
    \<and> (let c2 = fold (\<lambda>d c. c\<lparr>sc_display := d\<rparr>) displays c1 in
        sc_display (snd (begin_session i c2)) = sc_display frozen
        \<and> (j \<noteq> i \<longrightarrow> sc_display (snd (begin_session j c2)) = last (sc_display c # displays)
            \<and> end_session j c2 = c2)
        \<and> sc_active (end_session i c2) = None)"
proof -
  have a: "sc_active c1 = Some (i, sc_display frozen)" "sc_display c1 = sc_display c"
    "sc_display frozen = (case sc_active c of Some (j, d) \<Rightarrow> if j = i then d else sc_display c | None \<Rightarrow> sc_display c)"
    using assms by (auto simp: begin_session_def Let_def)
  have f: "sc_active (fold (\<lambda>d c. c\<lparr>sc_display := d\<rparr>) displays c) = sc_active c
      \<and> sc_display (fold (\<lambda>d c. c\<lparr>sc_display := d\<rparr>) displays c) = last (sc_display c # displays)" for c :: session_config
    by (induction displays arbitrary: c) auto
  show ?thesis
    using a f [of c1] by (simp add: Let_def begin_session_def end_session_def)
qed

theorem session_display_frozen_witness:
  "sc_display (snd (begin_session [1] session_config_default)) = display_default"
  using session_display_frozen [of "[1]" session_config_default _ _ "[]" "[2]"]
  by (cases "begin_session [1] session_config_default") (simp add: session_config_default_def)

end
