(* ===== verification/Negotiation.thy ===== *)
theory Negotiation
  imports Display
begin

text \<open>
  The termination policy of the projection daemon (\<open>failure.rs\<close>) and the opening of an Android Auto
  connection (\<open>session.rs\<close>): plaintext frames, version negotiation over a byte stream and the phases of the
  session engine. A transport is the list of the outcomes of its reads: bytes that arrived together, or an
  error; an exhausted list is the end of the stream. Both files are in
  \<open>native/projection/argo-projectiond/src\<close>.
\<close>

section \<open>Failures\<close>

datatype io_kind =
    UnexpectedEof | ConnectionReset | ConnectionAborted | BrokenPipe | NotConnected | TimedOut
  | NetworkDown | NetworkUnreachable | HostUnreachable | InvalidData | InvalidInput | OtherIo

record io_error =
  io_kind :: io_kind
  io_text :: "u8 list"

datatype failure_kind =
    TransportLoss | NetworkLoss | SetupTimeout | Cancelled | Authorization | ProtocolKind | Configuration | Cleanup
  | BootstrapClosed

record failure =
  fl_kind :: failure_kind
  fl_detail :: "u8 list"
  fl_cleanup :: "u8 list option"

definition failure_new :: "failure_kind \<Rightarrow> u8 list \<Rightarrow> failure" where
  "failure_new k d = \<lparr>fl_kind = k, fl_detail = d, fl_cleanup = None\<rparr>"

definition failure_configuration :: "u8 list \<Rightarrow> failure" where
  "failure_configuration d = failure_new Configuration d"

definition failure_network :: "u8 list \<Rightarrow> failure" where
  "failure_network d = failure_new NetworkLoss d"

definition failure_timeout :: "u8 list \<Rightarrow> failure" where
  "failure_timeout d = failure_new SetupTimeout d"

definition failure_cancelled :: failure where
  "failure_cancelled = failure_new Cancelled (str ''Explicit connection request stopped'')"

definition retryable :: "failure \<Rightarrow> bool" where
  "retryable f \<longleftrightarrow> fl_cleanup f = None \<and> fl_kind f \<in> {TransportLoss, NetworkLoss, SetupTimeout}"

definition failure_text :: "failure \<Rightarrow> u8 list" where
  "failure_text f = fl_detail f @ (case fl_cleanup f of None \<Rightarrow> [] | Some c \<Rightarrow> str ''; cleanup: '' @ c)"

definition failure_from_text :: "u8 list \<Rightarrow> failure" where
  "failure_from_text s = failure_new ProtocolKind s"

definition failure_from_io :: "io_error \<Rightarrow> failure" where
  "failure_from_io e =
     failure_new
       (if io_kind e \<in> {UnexpectedEof, ConnectionReset, ConnectionAborted, BrokenPipe, NotConnected, TimedOut} then TransportLoss
        else if io_kind e \<in> {NetworkDown, NetworkUnreachable, HostUnreachable} then NetworkLoss
        else if io_kind e = InvalidData then ProtocolKind
        else Configuration)
       (io_text e)"

section \<open>Frames\<close>

definition FRAME_HEADER_BYTES :: nat where [consts_simps]: "FRAME_HEADER_BYTES = 4"
definition MAX_FRAME_PAYLOAD_BYTES :: nat where [consts_simps]: "MAX_FRAME_PAYLOAD_BYTES = 32 * 1024"
definition MAX_BUFFERED_BYTES :: nat where [consts_simps]: "MAX_BUFFERED_BYTES = 64 * 1024"
definition FLAGS_PLAINTEXT_SINGLE_FRAME :: u8 where "FLAGS_PLAINTEXT_SINGLE_FRAME = 3"

datatype frame_error =
    UnsupportedFlags u8
  | InvalidLength nat
  | OversizedFrameBuffer
  | OversizedFrame nat
  | DisconnectMidFrame nat

record plain_frame =
  fr_channel :: u8
  fr_flags :: u8
  fr_payload :: "u8 list"

definition encode_frame :: "plain_frame \<Rightarrow> frame_error + u8 list" where
  "encode_frame f =
     (if length (fr_payload f) > MAX_FRAME_PAYLOAD_BYTES then Inl (OversizedFrame (length (fr_payload f)))
      else Inr (fr_channel f # fr_flags f # to_be16 (of_nat (length (fr_payload f))) @ fr_payload f))"

text \<open>One turn of the decoder's loop.\<close>

definition frame_parse :: "u8 list \<Rightarrow> frame_error + (plain_frame \<times> nat) option" where
  "frame_parse buf =
     (if length buf < FRAME_HEADER_BYTES then Inr None
      else
        let len = unat (from_be16 (buf ! 2) (buf ! 3)); flags = buf ! 1 in
        if flags \<noteq> FLAGS_PLAINTEXT_SINGLE_FRAME then Inl (UnsupportedFlags flags)
        else if len < 2 then Inl (InvalidLength len)
        else if len > MAX_FRAME_PAYLOAD_BYTES then Inl (OversizedFrame len)
        else if length buf < FRAME_HEADER_BYTES + len then Inr None
        else Inr (Some (\<lparr>fr_channel = buf ! 0, fr_flags = flags, fr_payload = take len (drop FRAME_HEADER_BYTES buf)\<rparr>,
                        FRAME_HEADER_BYTES + len)))"

definition frame_push :: "u8 list \<Rightarrow> u8 list \<Rightarrow> u8 list \<times> (frame_error + plain_frame list)" where
  "frame_push buf bytes =
     (if length buf + length bytes > MAX_BUFFERED_BYTES then ([], Inl OversizedFrameBuffer)
      else case drain frame_parse (buf @ bytes) of
        Inl e \<Rightarrow> ([], Inl e)
      | Inr (fs, rest) \<Rightarrow> (rest, Inr fs))"

definition frame_disconnect :: "u8 list \<Rightarrow> u8 list \<times> (frame_error + unit)" where
  "frame_disconnect buf = ([], if buf = [] then Inr () else Inl (DisconnectMidFrame (length buf)))"

section \<open>Version negotiation\<close>

record version_response =
  vr_major :: u16
  vr_minor :: u16

datatype version_error =
    Transport io_error
  | FrameFault frame_error
  | Disconnected
  | UnexpectedFrame
  | MalformedResponse
  | VersionMismatch u16 u16
  | RejectedStatus u16

definition version_request_frame :: "u16 \<Rightarrow> plain_frame" where
  "version_request_frame minor =
     \<lparr>fr_channel = 0, fr_flags = FLAGS_PLAINTEXT_SINGLE_FRAME, fr_payload = to_be16 1 @ to_be16 1 @ to_be16 minor\<rparr>"

definition parse_version_response :: "plain_frame \<Rightarrow> version_error + version_response" where
  "parse_version_response f =
     (if fr_channel f \<noteq> 0 \<or> fr_flags f \<noteq> FLAGS_PLAINTEXT_SINGLE_FRAME then Inl UnexpectedFrame
      else if length (fr_payload f) < 8 then Inl MalformedResponse
      else
        let p = fr_payload f in
        if from_be16 (p ! 0) (p ! 1) \<noteq> 2 then Inl UnexpectedFrame
        else
          let major = from_be16 (p ! 2) (p ! 3); minor = from_be16 (p ! 4) (p ! 5); status = from_be16 (p ! 6) (p ! 7) in
          if major = 0 then Inl MalformedResponse
          else if status = 0xffff then Inl (VersionMismatch major minor)
          else if status \<noteq> 0 then Inl (RejectedStatus status)
          else Inr \<lparr>vr_major = major, vr_minor = minor\<rparr>)"

type_synonym reads = "(io_error + u8 list) list"

text \<open>Reading up to \<open>n\<close> bytes: what does not fit stays for the next read.\<close>

fun transport_read :: "nat \<Rightarrow> reads \<Rightarrow> (io_error + u8 list) \<times> reads" where
  "transport_read n [] = (Inr [], [])"
| "transport_read n (Inl e # rs) = (Inl e, rs)"
| "transport_read n (Inr bs # rs) = (Inr (take n bs), if length bs > n then Inr (drop n bs) # rs else rs)"

lemma transport_read_length: "transport_read n rs = (Inr bs, rs') \<Longrightarrow> length bs \<le> n"
  by (cases "(n, rs)" rule: transport_read.cases) auto

definition short_read :: "nat \<Rightarrow> version_error" where
  "short_read offset = (if offset = 0 then Disconnected else FrameFault (DisconnectMidFrame offset))"

text \<open>The two loops of \<open>negotiate_version\<close>: fill a buffer of \<open>need\<close> bytes of which \<open>got\<close> have arrived.\<close>

function fill :: "nat \<Rightarrow> u8 list \<Rightarrow> reads \<Rightarrow> (version_error + u8 list) \<times> reads" where
  "fill need got rs =
     (if length got < need then
        (case transport_read (need - length got) rs of
           (Inl e, rs') \<Rightarrow>
             (Inl (if length got > 0 then FrameFault (DisconnectMidFrame (length got)) else Transport e), rs')
         | (Inr bs, rs') \<Rightarrow>
             if bs = [] then (Inl (short_read (length got)), rs') else fill need (got @ bs) rs')
      else (Inr got, rs))"
  by pat_completeness auto
termination
  by (relation "measure (\<lambda>(need, got, rs). need - length got)") (auto intro!: diff_less_mono2)

declare fill.simps [simp del]

definition read_frame :: "reads \<Rightarrow> (version_error + u8 list) \<times> reads" where
  "read_frame rs =
     (case fill 4 [] rs of
        (Inl e, rs) \<Rightarrow> (Inl e, rs)
      | (Inr wire, rs) \<Rightarrow>
          let len = unat (from_be16 (wire ! 2) (wire ! 3)) in
          if \<not> (2 \<le> len \<and> len \<le> MAX_FRAME_PAYLOAD_BYTES) then (Inl (FrameFault (InvalidLength len)), rs)
          else fill (4 + len) wire rs)"

text \<open>The result, the bytes written and the rest of the transport. \<open>write\<close> is the outcome of sending the request.\<close>

definition negotiate_version ::
  "u8 list option \<Rightarrow> io_error + unit \<Rightarrow> reads \<Rightarrow> (version_error + version_response) \<times> u8 list \<times> reads" where
  "negotiate_version configured write rs =
     (case protocol_minor configured of
        Inl e \<Rightarrow> (Inl (Transport \<lparr>io_kind = InvalidInput, io_text = e\<rparr>), [], rs)
      | Inr minor \<Rightarrow>
          (case encode_frame (version_request_frame minor) of
             Inl e \<Rightarrow> (Inl (FrameFault e), [], rs)
           | Inr request \<Rightarrow>
               (case write of
                  Inl e \<Rightarrow> (Inl (Transport e), request, rs)
                | Inr _ \<Rightarrow>
                    (case read_frame rs of
                       (Inl e, rs) \<Rightarrow> (Inl e, request, rs)
                     | (Inr wire, rs) \<Rightarrow>
                         (case snd (frame_push [] wire) of
                            Inl e \<Rightarrow> (Inl (FrameFault e), request, rs)
                          | Inr fs \<Rightarrow> (parse_version_response (hd fs), request, rs))))))"

section \<open>Failures of the negotiation\<close>

text \<open>\<open>text\<close> is the Display form of the error.\<close>

definition version_text :: "version_error \<Rightarrow> u8 list" where
  "version_text e = (case e of
       Transport io \<Rightarrow> str ''transport: '' @ io_text io
     | FrameFault f \<Rightarrow> str ''frame: '' @
         (case f of
            UnsupportedFlags b \<Rightarrow> str ''UnsupportedFlags('' @ decimal (unat b) @ str '')''
          | InvalidLength n \<Rightarrow> str ''InvalidLength('' @ decimal n @ str '')''
          | OversizedFrameBuffer \<Rightarrow> str ''OversizedBuffer''
          | OversizedFrame n \<Rightarrow> str ''OversizedPayload('' @ decimal n @ str '')''
          | DisconnectMidFrame n \<Rightarrow> str ''DisconnectMidFrame('' @ decimal n @ str '')'')
     | Disconnected \<Rightarrow> str ''transport disconnected before VersionResponse''
     | UnexpectedFrame \<Rightarrow> str ''unexpected frame before VersionResponse''
     | MalformedResponse \<Rightarrow> str ''malformed Android Auto VersionResponse''
     | VersionMismatch a b \<Rightarrow> str ''phone rejected Android Auto protocol '' @ decimal (unat a) @ str ''.'' @ decimal (unat b)
     | RejectedStatus s \<Rightarrow>
         str ''VersionResponse returned status 0x'' @ hex2 (ucast (drop_bit 8 s)) @ hex2 (ucast s))"

definition failure_from_version :: "version_error \<Rightarrow> failure" where
  "failure_from_version e =
     (case e of
        Transport io \<Rightarrow> failure_from_io io
      | Disconnected \<Rightarrow> failure_new TransportLoss (version_text e)
      | FrameFault (DisconnectMidFrame _) \<Rightarrow> failure_new TransportLoss (version_text e)
      | _ \<Rightarrow> failure_new ProtocolKind (version_text e))"

section \<open>Session phases\<close>

datatype session_phase =
  VersionNegotiation | WaitingForTls | TlsHandshake | ServiceDiscovery | Running | Closed | FailedPhase

datatype channel_role = Control | MainVideo | MediaAudio | SpeechAudio | SystemAudio | Input | Microphone

record engine =
  en_phase :: session_phase
  en_channels :: "u8 \<rightharpoonup> channel_role"

definition engine_new :: engine where
  "engine_new = \<lparr>en_phase = VersionNegotiation, en_channels = Map.empty\<rparr>"

datatype engine_event =
    VersionAccepted
  | BeginTls
  | TlsEstablished
  | ServicesDiscovered "(u8 \<times> channel_role) list"
  | EngineDisconnect

fun engine_step :: "engine \<Rightarrow> engine_event \<Rightarrow> engine" where
  "engine_step e VersionAccepted =
     (if en_phase e = VersionNegotiation then e\<lparr>en_phase := WaitingForTls\<rparr> else e)"
| "engine_step e BeginTls = (if en_phase e = WaitingForTls then e\<lparr>en_phase := TlsHandshake\<rparr> else e)"
| "engine_step e TlsEstablished = (if en_phase e = TlsHandshake then e\<lparr>en_phase := ServiceDiscovery\<rparr> else e)"
| "engine_step e (ServicesDiscovered cs) =
     (if en_phase e \<noteq> ServiceDiscovery then e
      else e\<lparr>en_channels := en_channels e ++ map_of (rev cs), en_phase := Running\<rparr>)"
| "engine_step e EngineDisconnect = \<lparr>en_phase = Closed, en_channels = Map.empty\<rparr>"

section \<open>Lemmas\<close>

lemma frame_parse_Some:
  "frame_parse bs = Inr (Some (f, n)) \<longleftrightarrow> 4 \<le> length bs \<and> bs ! 1 = 3
     \<and> n = 4 + unat (from_be16 (bs ! 2) (bs ! 3)) \<and> 6 \<le> n \<and> n \<le> 4 + MAX_FRAME_PAYLOAD_BYTES \<and> n \<le> length bs
     \<and> f = \<lparr>fr_channel = bs ! 0, fr_flags = 3, fr_payload = take (n - 4) (drop 4 bs)\<rparr>"
  by (auto simp: frame_parse_def Let_def FRAME_HEADER_BYTES_def FLAGS_PLAINTEXT_SINGLE_FRAME_def not_less split: if_splits)

lemma frame_parse_Inl:
  "frame_parse bs = Inl e \<longleftrightarrow> 4 \<le> length bs \<and>
     (let len = unat (from_be16 (bs ! 2) (bs ! 3)) in
        bs ! 1 \<noteq> 3 \<and> e = UnsupportedFlags (bs ! 1)
        \<or> bs ! 1 = 3 \<and> len < 2 \<and> e = InvalidLength len
        \<or> bs ! 1 = 3 \<and> len > MAX_FRAME_PAYLOAD_BYTES \<and> e = OversizedFrame len)"
  by (auto simp: frame_parse_def Let_def FRAME_HEADER_BYTES_def FLAGS_PLAINTEXT_SINGLE_FRAME_def not_less consts_simps)

lemma frame_prefix:
  "4 \<le> length bs \<Longrightarrow> (bs @ ys) ! 0 = bs ! 0 \<and> (bs @ ys) ! 1 = bs ! 1 \<and> (bs @ ys) ! 2 = bs ! 2 \<and> (bs @ ys) ! 3 = bs ! 3"
  by (auto simp: nth_append)

definition frame_ok :: "plain_frame \<Rightarrow> bool" where
  "frame_ok f \<longleftrightarrow> fr_flags f = 3 \<and> 2 \<le> length (fr_payload f) \<and> length (fr_payload f) \<le> MAX_FRAME_PAYLOAD_BYTES"

definition frame_bytes :: "plain_frame \<Rightarrow> u8 list" where
  "frame_bytes f = fr_channel f # fr_flags f # to_be16 (of_nat (length (fr_payload f))) @ fr_payload f"

lemma frame_length:
  assumes "length (fr_payload f) \<le> MAX_FRAME_PAYLOAD_BYTES"
  shows "unat (from_be16 (frame_bytes f ! 2) (frame_bytes f ! 3)) = length (fr_payload f)"
  using assms by (simp add: frame_bytes_def to_be16_pair from_be16_parts unat_of_nat consts_simps)

lemma frame_parse_bytes: "frame_ok f \<Longrightarrow> frame_parse (frame_bytes f) = Inr (Some (f, length (frame_bytes f)))"
  using frame_length [of f]
  by (auto simp: frame_parse_Some frame_ok_def frame_bytes_def)

interpretation plain_stream: framed_codec frame_parse frame_bytes frame_ok
proof unfold_locales
  fix bs ys m n
  show "frame_parse bs = Inr (Some (m, n)) \<Longrightarrow> 0 < n \<and> n \<le> length bs"
    by (auto simp: frame_parse_Some)
  assume a: "frame_parse bs = Inr (Some (m, n))"
  then have "4 \<le> length bs" by (simp add: frame_parse_Some)
  from a frame_prefix [OF this, of ys] this show "frame_parse (bs @ ys) = Inr (Some (m, n))"
    unfolding frame_parse_Some by simp
next
  fix bs ys e
  assume a: "frame_parse bs = Inl e"
  then have "4 \<le> length bs" by (simp add: frame_parse_Inl)
  from a frame_prefix [OF this, of ys] this show "frame_parse (bs @ ys) = Inl e"
    unfolding frame_parse_Inl by simp
next
  fix m
  show "frame_ok m \<Longrightarrow> frame_parse (frame_bytes m) = Inr (Some (m, length (frame_bytes m)))" by (rule frame_parse_bytes)
next
  show "frame_parse [] = Inr None" by (simp add: frame_parse_def FRAME_HEADER_BYTES_def)
qed

text \<open>What the reads carry, and the bytes a transport still holds.\<close>

definition carried :: "reads \<Rightarrow> u8 list" where
  "carried rs = concat (map projr rs)"

lemma fill_carried:
  "\<forall>r \<in> set rs. \<exists>bs. r = Inr bs \<and> bs \<noteq> [] \<Longrightarrow> length got \<le> need \<Longrightarrow> need \<le> length got + length (carried rs) \<Longrightarrow>
   \<exists>rs'. fill need got rs = (Inr (got @ take (need - length got) (carried rs)), rs')
     \<and> carried rs' = drop (need - length got) (carried rs) \<and> (\<forall>r \<in> set rs'. \<exists>bs. r = Inr bs \<and> bs \<noteq> [])"
proof (induction need got rs rule: fill.induct)
  case (1 need got rs)
  show ?case
  proof (cases "length got < need")
    case False
    with 1(3) show ?thesis using 1(2) by (subst fill.simps) auto
  next
    case True
    let ?n = "need - length got"
    from True 1(4) have "carried rs \<noteq> []" by auto
    then obtain r rs1 where rs: "rs = r # rs1" by (cases rs) (auto simp: carried_def)
    with 1(2) obtain bs where r: "r = Inr bs" "bs \<noteq> []" by auto
    let ?rs' = "if length bs > ?n then Inr (drop ?n bs) # rs1 else rs1"
    have t: "transport_read ?n rs = (Inr (take ?n bs), ?rs')" by (simp add: rs r)
    have ne: "take ?n bs \<noteq> []" using True r by simp
    have ok: "\<forall>r \<in> set ?rs'. \<exists>bs. r = Inr bs \<and> bs \<noteq> []" using 1(2) rs by auto
    have c: "carried rs = take ?n bs @ carried ?rs'" by (simp add: carried_def rs r)
    have l: "length (got @ take ?n bs) \<le> need" using True by simp
    have l2: "need \<le> length (got @ take ?n bs) + length (carried ?rs')" using 1(4) by (simp add: c)
    have f: "fill need got rs = fill need (got @ take ?n bs) ?rs'"
      using True ne by (subst fill.simps) (simp add: t)
    from 1(1) [OF True t [symmetric] refl ne ok l l2] show ?thesis
      unfolding f c by (auto simp: take_append drop_append)
  qed
qed

lemma negotiate_frame:
  assumes "protocol_minor configured = Inr minor" and "frame_ok f"
    and "\<forall>r \<in> set rs. \<exists>bs. r = Inr bs \<and> bs \<noteq> []" and "carried rs = frame_bytes f @ later"
  shows "\<exists>rs'. negotiate_version configured (Inr ()) rs
      = (parse_version_response f, frame_bytes (version_request_frame minor), rs') \<and> carried rs' = later"
proof -
  let ?w = "frame_bytes f"
  have len: "length ?w = 4 + length (fr_payload f)" by (simp add: frame_bytes_def)
  have l: "2 \<le> length (fr_payload f)" "length (fr_payload f) \<le> MAX_FRAME_PAYLOAD_BYTES" "fr_flags f = 3"
    using assms(2) by (simp_all add: frame_ok_def)
  obtain rs1 where f1: "fill 4 [] rs = (Inr (take 4 ?w), rs1)" "carried rs1 = drop 4 ?w @ later"
      "\<forall>r \<in> set rs1. \<exists>bs. r = Inr bs \<and> bs \<noteq> []"
    using fill_carried [OF assms(3), of "[]" 4] by (auto simp: assms(4) len)
  obtain rs2 where f2: "fill (4 + length (fr_payload f)) (take 4 ?w) rs1 = (Inr ?w, rs2)" "carried rs2 = later"
    using fill_carried [OF f1(3), of "take 4 ?w" "4 + length (fr_payload f)"]
    by (auto simp: f1(2) len)
  have r: "read_frame rs = (Inr ?w, rs2)"
    using l f2(1) by (simp add: read_frame_def f1(1) frame_length [OF l(2)] Let_def)
  have p: "snd (frame_push [] ?w) = Inr [f]"
    using plain_stream.drain_encs [of "[f]"] assms(2) l len
    by (simp add: frame_push_def consts_simps)
  have e: "encode_frame (version_request_frame minor) = Inr (frame_bytes (version_request_frame minor))"
    by (simp add: encode_frame_def frame_bytes_def version_request_frame_def consts_simps)
  show ?thesis
    using f2(2) by (simp add: negotiate_version_def assms(1) e r p)
qed

section \<open>Properties\<close>

text \<open>The version exchange does not depend on how the transport cuts the stream: whenever the phone's first
  frame has arrived, in pieces of any size and followed by anything, exactly that frame is consumed and
  judged, and every later byte is left for the next stage.\<close>

theorem negotiation_reads_one_frame:
  assumes "protocol_minor configured = Inr minor" and "frame_ok f"
    and "\<forall>r \<in> set rs. \<exists>bs. r = Inr bs \<and> bs \<noteq> []" and "carried rs = frame_bytes f @ later"
  shows "\<exists>rs'. negotiate_version configured (Inr ()) rs
      = (parse_version_response f, frame_bytes (version_request_frame minor), rs') \<and> carried rs' = later"
  by (rule negotiate_frame [OF assms])

theorem negotiation_reads_one_frame_witness:
  "\<exists>rs'. negotiate_version None (Inr ()) [Inr [0, 3, 0], Inr [8, 0, 2, 0, 1, 0], Inr [7, 0, 0, 9]]
     = (Inr \<lparr>vr_major = 1, vr_minor = 7\<rparr>, frame_bytes (version_request_frame 1), rs') \<and> carried rs' = [9]"
proof -
  let ?f = "\<lparr>fr_channel = 0, fr_flags = 3, fr_payload = [0, 2, 0, 1, 0, 7, 0, 0]\<rparr>"
  have p: "protocol_minor None = Inr 1" by (simp add: protocol_minor_def)
  have ok: "frame_ok ?f" by (simp add: frame_ok_def consts_simps)
  have v: "parse_version_response ?f = Inr \<lparr>vr_major = 1, vr_minor = 7\<rparr>"
    by (simp add: parse_version_response_def FLAGS_PLAINTEXT_SINGLE_FRAME_def from_be16_def word_cat_eq Let_def)
  have c: "carried [Inr [0, 3, 0], Inr [8, 0, 2, 0, 1, 0], Inr [7, 0, 0, 9]] = frame_bytes ?f @ [9]"
    by (simp add: carried_def frame_bytes_def to_be16_def)
  show ?thesis
    using negotiation_reads_one_frame [OF p ok _ c] by (simp add: v)
qed

text \<open>A negotiation that ends early is retried exactly when the transport is to blame: a lost connection or a
  frame cut short is retryable, a wrong, malformed or refused answer and a wrong setting are not.\<close>

theorem negotiation_retry_policy:
  "retryable (failure_from_version e) \<longleftrightarrow>
     (case e of
        Transport io \<Rightarrow> io_kind io \<notin> {InvalidData, InvalidInput, OtherIo}
      | Disconnected \<Rightarrow> True
      | FrameFault (DisconnectMidFrame _) \<Rightarrow> True
      | _ \<Rightarrow> False)"
proof (cases e)
  case (Transport io)
  then show ?thesis
    by (cases "io_kind io") (simp_all add: retryable_def failure_from_version_def failure_from_io_def failure_new_def)
qed (auto simp: retryable_def failure_from_version_def failure_new_def split: frame_error.splits)

end
