(* ===== verification/Aa_Session.thy ===== *)
theory Aa_Session
  imports Aa_Wire Daemon_State Liveness Host_Control Negotiation
begin

text \<open>
  One established Android Auto session (\<open>native/projection/argo-projectiond/src/aa_session.rs\<close>, after the TLS
  handshake): reassembly, dispatch to the channels, and the effects on the runtime snapshot, the playback, the
  microphone and the peer. TLS, the transport, the native playback and the capture process are outside the
  sources or are operating system objects: the outcomes of their calls are the fields of \<open>env\<close>, one record
  per step of the session. Playback queues and the capture process are kept as whether they are open.
\<close>

section \<open>State\<close>

record env =
  en_encrypt :: "nat \<Rightarrow> u8 list \<Rightarrow> u8 list + u8 list"
  en_decrypt :: "u8 list \<Rightarrow> u8 list + u8 list"
  en_write :: "nat \<Rightarrow> io_error option"
  en_capture_open :: "u8 list + unit"
  en_capture_frame :: "u8 list + u8 list"
  en_capture_close :: "u8 list + unit"
  en_codec :: "u8 list + unit"
  en_video_push :: "u8 list + unit"
  en_audio_open :: "u8 list + unit"
  en_audio_push :: "u8 list + unit"
  en_audio_gain :: "u8 list + unit"
  en_artwork :: "u8 list + u8 list"
  en_now_ms :: u64
  en_now_us :: u64
  en_clock :: nat
  en_clock_us :: u64
  en_clock_ms :: nat
  en_entertainment :: "u64 \<times> bool"
  en_poll :: "(u8 list + u8 list) option"

record aa_session =
  ss_id :: "u8 list"
  ss_wireless :: bool
  ss_display :: display_config
  ss_decoder :: "u8 list"
  ss_channels :: channels
  ss_fragments :: fragments
  ss_liveness :: liveness
  ss_credits :: credits
  ss_snapshot :: runtime_snapshot
  ss_detail :: "u8 list"
  ss_media_gain :: u32
  ss_entertainment_ack :: u64
  ss_capture :: bool
  ss_frame :: "(u8 list + u8 list) option"
  ss_video :: bool
  ss_audio :: "u8 set"
  ss_gains :: "(u8 \<times> u32) list"
  ss_awaiting_video :: bool
  ss_streaming :: bool
  ss_discovery_sent :: bool
  ss_established :: bool
  ss_ready :: bool
  ss_last_rx :: "(u8 \<times> u16) option"
  ss_last_reply :: "(u8 \<times> u16) option"
  ss_ping_enabled :: bool
  ss_next_ping :: nat
  ss_sent :: "(bool \<times> aa_reply) list"

text \<open>The wire bytes of the messages are not kept: \<open>ss_sent\<close> lists what was sent, encrypted or plain.\<close>

datatype stop = Finished | Broke failure

definition broke :: "u8 list \<Rightarrow> stop" where
  "broke t = Broke (failure_from_text t)"

type_synonym 'a step = "aa_session \<Rightarrow> aa_session \<times> (stop + 'a)"

definition modify :: "(aa_session \<Rightarrow> aa_session) \<Rightarrow> unit step" where
  "modify f s = (f s, Inr ())"

text \<open>\<open>r.map_err(conv)?\<close> for an outcome.\<close>

definition attempt :: "('e \<Rightarrow> stop) \<Rightarrow> 'e + 'a \<Rightarrow> 'a step" where
  "attempt conv r = liftS conv r"

definition only_if :: "bool \<Rightarrow> unit step \<Rightarrow> unit step" where
  "only_if b m = (if b then m else retS ())"

section \<open>Sending\<close>

definition write_wire :: "env \<Rightarrow> bool \<Rightarrow> aa_reply \<Rightarrow> unit step" where
  "write_wire e encrypted r s =
     (case en_write e (length (ss_sent s)) of
        Some err \<Rightarrow> (s, Inl (Broke (failure_from_io err)))
      | None \<Rightarrow> (s\<lparr>ss_sent := ss_sent s @ [(encrypted, r)]\<rparr>, Inr ()))"

definition send :: "env \<Rightarrow> aa_reply \<Rightarrow> unit step" where
  "send e r s =
     bindS (attempt broke (en_encrypt e (length (ss_sent s)) (to_be16 (rp_id r) @ rp_body r))) (\<lambda>records.
     bindS (attempt broke (encrypted_frames (rp_channel r) (rp_control r) records)) (\<lambda>_.
       write_wire e True r)) s"

definition send_plain :: "env \<Rightarrow> u8 \<Rightarrow> u16 \<Rightarrow> u8 list \<Rightarrow> unit step" where
  "send_plain e channel i body =
     bindS (attempt broke (aa_frame channel 0x03 (to_be16 i @ body))) (\<lambda>_.
       write_wire e False \<lparr>rp_channel = channel, rp_id = i, rp_control = False, rp_body = body\<rparr>)"

section \<open>Snapshot\<close>

definition own :: "u8 list \<Rightarrow> runtime_snapshot \<Rightarrow> bool" where
  "own i r \<longleftrightarrow> (case rs_session r of Some n \<Rightarrow> sn_id n = i | None \<Rightarrow> False)"

definition with_state :: "session_status \<Rightarrow> runtime_snapshot \<Rightarrow> runtime_snapshot" where
  "with_state st r = r\<lparr>rs_session := map_option (\<lambda>n. n\<lparr>sn_state := st\<rparr>) (rs_session r)\<rparr>"

definition set_visibility :: "u8 list \<Rightarrow> bool \<Rightarrow> runtime_snapshot \<Rightarrow> runtime_snapshot" where
  "set_visibility i visible r =
     (case rs_video r of
        Some (d, _) \<Rightarrow>
          if own i r
          then with_state (if visible then Streaming else Suspended)
                 (r\<lparr>rs_presentation := sat_inc32 (rs_presentation r), rs_video := Some (d, visible)\<rparr>)
          else r
      | None \<Rightarrow> r)"

definition snapshot_video :: "u8 list \<Rightarrow> display_config \<Rightarrow> bool \<Rightarrow> runtime_snapshot \<Rightarrow> runtime_snapshot" where
  "snapshot_video i d visible r =
     (if own i r
      then (with_state (if visible then Streaming else Suspended) r)\<lparr>rs_video := Some (d, visible)\<rparr>
      else r)"

definition on_snapshot :: "(runtime_snapshot \<Rightarrow> runtime_snapshot) \<Rightarrow> unit step" where
  "on_snapshot f = modify (\<lambda>s. s\<lparr>ss_snapshot := f (ss_snapshot s)\<rparr>)"

section \<open>Effects\<close>

definition capture_close :: "env \<Rightarrow> unit step" where
  "capture_close e = attempt (\<lambda>t. Broke (failure_configuration t)) (en_capture_close e)"

text \<open>Opening yields the status the phone is told.\<close>

definition microphone_open :: "env \<Rightarrow> u64 \<Rightarrow> u64 step" where
  "microphone_open e limit =
     (case en_capture_open e of
        Inl err \<Rightarrow> bindS (modify (\<lambda>s. s\<lparr>ss_detail := err\<rparr>)) (\<lambda>_. retS 1)
      | Inr _ \<Rightarrow>
          bindS (modify (\<lambda>s. s\<lparr>ss_capture := True\<rparr>)) (\<lambda>_.
            case en_capture_frame e of
              Inr frame \<Rightarrow>
                bindS (modify (\<lambda>s. s\<lparr>ss_frame := Some (Inr frame), ss_credits := credits_start limit (ss_credits s)\<rparr>)) (\<lambda>_. retS 0)
            | Inl err \<Rightarrow>
                bindS (modify (\<lambda>s. s\<lparr>ss_detail := err\<rparr>)) (\<lambda>_.
                bindS (capture_close e) (\<lambda>_.
                bindS (modify (\<lambda>s. s\<lparr>ss_capture := False\<rparr>)) (\<lambda>_. retS 1)))))"

definition microphone_request :: "env \<Rightarrow> bool \<Rightarrow> u64 \<Rightarrow> unit step" where
  "microphone_request e opening limit s =
     (let had = ss_capture s in
      bindS (modify (\<lambda>s. s\<lparr>ss_frame := None, ss_credits := credits_stop (ss_credits s), ss_capture := False\<rparr>)) (\<lambda>_.
      bindS (only_if had (capture_close e)) (\<lambda>_.
      bindS (if opening then microphone_open e limit else retS 0) (\<lambda>status.
      bindS (\<lambda>s. send e (reply_new 9 0x8006 (pb_message [PNum 1 status, PNum 2 (ucast (cr_session (ss_credits s)))])) s) (\<lambda>_.
        only_if (opening \<and> status = 0)
          (\<lambda>s. send e (reply_new 9 0x8001 (pb_message [PNum 1 (ucast (cr_session (ss_credits s))), PNum 2 0])) s))))) s)"

definition microphone_stop :: "env \<Rightarrow> unit step" where
  "microphone_stop e s =
     (let had = ss_capture s in
      bindS (modify (\<lambda>s. s\<lparr>ss_frame := None, ss_credits := credits_stop (ss_credits s)\<rparr>)) (\<lambda>_.
      bindS (only_if had (capture_close e)) (\<lambda>_.
        modify (\<lambda>s. s\<lparr>ss_capture := False\<rparr>))) s)"

definition media_volume :: "env \<Rightarrow> aa_session \<Rightarrow> u32" where
  "media_volume e s = (if snd (en_entertainment e) then ss_media_gain s else 0)"

definition playback_gain :: "env \<Rightarrow> u8 \<Rightarrow> u32 \<Rightarrow> unit step" where
  "playback_gain e channel gain =
     bindS (modify (\<lambda>s. s\<lparr>ss_gains := ss_gains s @ [(channel, gain)]\<rparr>)) (\<lambda>_. attempt broke (en_audio_gain e))"

definition audio_effect :: "env \<Rightarrow> u8 \<Rightarrow> bool \<Rightarrow> unit step" where
  "audio_effect e channel active =
     bindS (if active
            then bindS (attempt (\<lambda>t. Broke (failure_configuration t)) (en_audio_open e)) (\<lambda>_.
                 bindS (\<lambda>s. only_if (channel = 4) (playback_gain e channel (media_volume e s)) s) (\<lambda>_.
                   modify (\<lambda>s. s\<lparr>ss_audio := insert channel (ss_audio s)\<rparr>)))
            else modify (\<lambda>s. s\<lparr>ss_audio := ss_audio s - {channel}\<rparr>)) (\<lambda>_ s.
       on_snapshot (\<lambda>r. if own (ss_id s) r then r\<lparr>rs_audio := (rs_audio r)[unat (channel - 4) := active]\<rparr> else r) s)"

fun effect :: "env \<Rightarrow> aa_effect \<Rightarrow> unit step" where
  "effect e (EVideoCodec codec) = (\<lambda>s.
     if \<not> ss_video s then (s, Inl (broke (str ''video feed unavailable'')))
     else bindS (attempt broke (en_codec e)) (\<lambda>_. on_snapshot (\<lambda>r. r\<lparr>rs_video_codec := codec\<rparr>)) s)"
| "effect e (EMicrophone opening limit) = microphone_request e opening limit"
| "effect e EMicrophoneStop = microphone_stop e"
| "effect e (EMicrophoneAck session count) = (\<lambda>s.
     case credits_ack (en_clock e) session count (ss_credits s) of (c, accepted) \<Rightarrow>
       (s\<lparr>ss_credits := c,
          ss_liveness := (if accepted then lv_renew (en_clock e) (ss_liveness s) else ss_liveness s)\<rparr>, Inr ()))"
| "effect e (EReply r) =
     bindS (send e r) (\<lambda>_. modify (\<lambda>s. s\<lparr>ss_last_reply := Some (rp_channel r, rp_id r),
       ss_discovery_sent := (ss_discovery_sent s \<or> (rp_channel r, rp_id r) = (0, 6))\<rparr>))"
| "effect e EEnd = failS Finished"
| "effect e (EMetadata u) = (\<lambda>s.
     on_snapshot (\<lambda>r. fst (rs_update_metadata (en_artwork e) (en_now_ms e) (ss_id s) u r)) s)"
| "effect e (EMedia channel bytes) = (\<lambda>s.
     if channel = 3 then
       (if \<not> ss_video s then (s, Inl (broke (str ''video feed closed'')))
        else bindS (attempt broke (en_video_push e)) (\<lambda>_ s.
          if ss_awaiting_video s
          then (s\<lparr>ss_awaiting_video := False, ss_snapshot := set_visibility (ss_id s) True (ss_snapshot s)\<rparr>, Inr ())
          else (s, Inr ())) s)
     else if channel \<notin> ss_audio s then (s, Inl (broke (str ''AA audio without playback'')))
     else attempt broke (en_audio_push e) s)"
| "effect e EHostReturn = (\<lambda>s.
     on_snapshot (\<lambda>r. if own (ss_id s) r then r\<lparr>rs_host_return := sat_inc32 (rs_host_return r)\<rparr> else r)
       (s\<lparr>ss_awaiting_video := False\<rparr>))"
| "effect e (EAudio channel active) = audio_effect e channel active"
| "effect e EEstablished =
     modify (\<lambda>s. s\<lparr>ss_established := True, ss_liveness := lv_establish (en_clock e) (ss_liveness s), ss_ready := True\<rparr>)"
| "effect e (EVideo visible) = (\<lambda>s.
     on_snapshot (snapshot_video (ss_id s) (ss_display s) (visible \<and> \<not> ss_awaiting_video s)) (s\<lparr>ss_streaming := True\<rparr>))"

fun effects :: "env \<Rightarrow> aa_effect list \<Rightarrow> unit step" where
  "effects e [] = retS ()"
| "effects e (x # xs) = bindS (effect e x) (\<lambda>_. effects e xs)"

section \<open>Incoming packets\<close>

definition reassemble :: "u8 \<Rightarrow> u8 \<Rightarrow> u8 list \<Rightarrow> u8 list option step" where
  "reassemble channel flags bytes s =
     (case aa_accept (ss_fragments s) (channel, flags, bytes) of
        (fs, r) \<Rightarrow> liftS broke r (s\<lparr>ss_fragments := fs\<rparr>))"

definition is_ack :: "aa_effect \<Rightarrow> bool" where
  "is_ack x = (case x of EMicrophoneAck _ _ \<Rightarrow> True | _ \<Rightarrow> False)"

text \<open>A plaintext message after authentication: only pings.\<close>

definition plain_message :: "env \<Rightarrow> u8 \<Rightarrow> u16 \<Rightarrow> u8 list \<Rightarrow> unit step" where
  "plain_message e channel i body s =
     (if channel \<noteq> 0 \<or> i \<noteq> 0x000b \<and> i \<noteq> 0x000c
      then (s, Inl (broke (str ''unexpected plaintext AA message after authentication: ch='' @ decimal (unat channel)
              @ str '' id=0x'' @ hex2 (ucast (drop_bit 8 i)) @ hex2 (ucast i))))
      else if i = 0x000c then (s\<lparr>ss_liveness := fst (lv_response body (en_clock e) (ss_liveness s))\<rparr>, Inr ())
      else send_plain e 0 0x000c body s)"

definition handle_message :: "u8 \<Rightarrow> u16 \<Rightarrow> u8 list \<Rightarrow> aa_effect list step" where
  "handle_message channel i body s =
     (case handle channel i body (ss_channels s) of (c, r) \<Rightarrow> liftS broke r (s\<lparr>ss_channels := c\<rparr>))"

definition sealed_message :: "env \<Rightarrow> u8 \<Rightarrow> u16 \<Rightarrow> u8 list \<Rightarrow> unit step" where
  "sealed_message e channel i body s =
     (if channel = 0 \<and> i = 0x000c then (s\<lparr>ss_liveness := fst (lv_response body (en_clock e) (ss_liveness s))\<rparr>, Inr ())
      else if channel = 0 \<and> i = 0x000b \<and> echoed body = None then (s, Inr ())
      else
        bindS (handle_message channel i body) (\<lambda>xs.
        bindS (modify (\<lambda>s. s\<lparr>ss_last_rx := Some (channel, i),
           ss_liveness := (if \<exists>x \<in> set xs. \<not> is_ack x then lv_renew (en_clock e) (ss_liveness s) else ss_liveness s)\<rparr>)) (\<lambda>_.
        bindS (effects e xs) (\<lambda>_.
          only_if (channel = 0 \<and> i = 0x0005)
            (\<lambda>s. case lv_request (en_now_us e) (en_clock e) (ss_liveness s) of
               (l, payload) \<Rightarrow> send_plain e 0 0x000b payload (s\<lparr>ss_ping_enabled := True, ss_liveness := l\<rparr>))))) s)"

definition receive :: "env \<Rightarrow> aa_packet \<Rightarrow> unit step" where
  "receive e p =
     (let encrypted = ap_flags p AND 8 \<noteq> 0 in
      bindS (if encrypted then attempt broke (en_decrypt e (ap_bytes p)) else retS (ap_bytes p)) (\<lambda>decoded.
      bindS (reassemble (ap_channel p) (ap_flags p) decoded) (\<lambda>r.
        case r of
          None \<Rightarrow> retS ()
        | Some body \<Rightarrow>
            if length body < 2 then failS (broke (str ''short AA message''))
            else
              let i = from_be16 (body ! 0) (body ! 1) in
              if encrypted then sealed_message e (ap_channel p) i (drop 2 body)
              else plain_message e (ap_channel p) i (drop 2 body))))"

section \<open>Pings and microphone frames\<close>

definition ping_due :: "env \<Rightarrow> unit step" where
  "ping_due e s =
     (if ss_ping_enabled s \<and> ss_next_ping s \<le> en_clock e
      then (case lv_request (en_now_us e) (en_clock e) (ss_liveness s) of
              (l, payload) \<Rightarrow>
                bindS (send_plain e 0 0x000b payload) (\<lambda>_. modify (\<lambda>s. s\<lparr>ss_next_ping := en_clock e + 1500\<rparr>))
                  (s\<lparr>ss_liveness := l\<rparr>))
      else (s, Inr ()))"

definition microphone_turn :: "env \<Rightarrow> unit step" where
  "microphone_turn e s =
     (case ss_frame s of
        None \<Rightarrow> (s, Inr ())
      | Some frame \<Rightarrow>
          let s = s\<lparr>ss_frame := None\<rparr>;
              frame = (if credits_expired (en_clock e) (ss_credits s)
                       then Inl (str ''Microphone acknowledgements stalled for five seconds'') else frame) in
          (case frame of
             Inr bytes \<Rightarrow>
               if credits_ready (ss_credits s)
               then bindS (send e (reply_new 9 1 bytes)) (\<lambda>_.
                      modify (\<lambda>s. s\<lparr>ss_credits := credits_sent (en_clock e) (ss_credits s)\<rparr>)) s
               else (s, Inr ())
           | Inl err \<Rightarrow>
               bindS (modify (\<lambda>s. s\<lparr>ss_credits := credits_stop (ss_credits s)\<rparr>)) (\<lambda>_.
               bindS (only_if (ss_capture s) (capture_close e)) (\<lambda>_.
               bindS (modify (\<lambda>s. s\<lparr>ss_capture := False, ss_detail := err\<rparr>)) (\<lambda>_.
                 send e (reply_new 9 0x8002 [])))) s))"

section \<open>Commands of the host\<close>

definition visibility_reply :: "bool \<Rightarrow> aa_reply" where
  "visibility_reply visible = reply_new 3 0x8008 (pb_message [PNum 1 (if visible then 1 else 2), PNum 2 1])"

definition request_video :: "env \<Rightarrow> bool \<Rightarrow> unit step" where
  "request_video e visible =
     bindS (modify (\<lambda>s. s\<lparr>ss_channels := set_video_requested visible (ss_channels s), ss_awaiting_video := visible,
         ss_snapshot := set_visibility (ss_id s) False (ss_snapshot s)\<rparr>)) (\<lambda>_.
       send e (visibility_reply visible))"

definition gain_channel :: "u8 list \<Rightarrow> u8 option" where
  "gain_channel stream =
     (if stream = str ''media'' then Some 4 else if stream = str ''speech'' then Some 5
      else if stream = str ''system'' then Some 6 else None)"

text \<open>The result of a media key goes back to whoever asked; here only what the session does is kept.\<close>

definition run_command :: "env \<Rightarrow> command \<Rightarrow> unit step" where
  "run_command e c s =
     (case c of
        Disconnect target \<Rightarrow>
          if target = ss_id s
          then bindS (send e (reply_new 0 15 (pb_message [PNum 1 1]))) (\<lambda>_. failS Finished) s
          else (s, Inr ())
      | MediaKey session code deadline waiting \<Rightarrow>
          if session \<noteq> ss_id s \<or> deadline \<le> en_clock e \<or> \<not> waiting then (s, Inr ())
          else (case media_key code (en_clock_us e) (ss_channels s) of
                  Inl _ \<Rightarrow> (s, Inr ())
                | Inr (press, release) \<Rightarrow> bindS (send e press) (\<lambda>_. send e release) s)
      | TouchAt target pointer phase x y \<Rightarrow>
          if target = ss_id s
          then (case touch pointer phase x y (en_clock_us e) (ss_channels s) of
                  None \<Rightarrow> (s, Inl (broke (str ''panic'')))
                | Some (ch, r) \<Rightarrow>
                    bindS (liftS broke r) (\<lambda>r. case r of None \<Rightarrow> retS () | Some reply \<Rightarrow> send e reply) (s\<lparr>ss_channels := ch\<rparr>))
          else (s, Inr ())
      | Activate target \<Rightarrow> if target = ss_id s then request_video e True s else (s, Inr ())
      | Visibility target visible \<Rightarrow>
          if target = ss_id s @ str '':main'' then request_video e visible s else (s, Inr ())
      | Gain target stream gain \<Rightarrow>
          if target = ss_id s
          then (case gain_channel stream of
                  None \<Rightarrow> (s, Inl (broke (str ''unknown native audio stream'')))
                | Some channel \<Rightarrow>
                    bindS (modify (\<lambda>s. if channel = 4 then s\<lparr>ss_media_gain := gain\<rparr> else s)) (\<lambda>_ s.
                      only_if (channel \<in> ss_audio s)
                        (playback_gain e channel (if channel = 4 \<and> \<not> snd (en_entertainment e) then 0 else gain)) s) s)
          else (s, Inr ()))"

definition entertainment_changed :: "env \<Rightarrow> unit step" where
  "entertainment_changed e =
     bindS (\<lambda>s. only_if (4 \<in> ss_audio s) (playback_gain e 4 (media_volume e s)) s) (\<lambda>_.
       modify (\<lambda>s. s\<lparr>ss_entertainment_ack := fst (en_entertainment e)\<rparr>))"

section \<open>The loop of the session\<close>

text \<open>What ends the wait of a turn without a buffered packet.\<close>

datatype wakeup =
  MicFrame "u8 list + u8 list" | Entertainment | Read "io_error + u8 list" | Lagged | HostGone | Run command
| PingTimer | SetupDeadline

definition debug_pair :: "(u8 \<times> u16) option \<Rightarrow> u8 list" where
  "debug_pair v =
     (case v of None \<Rightarrow> str ''None''
      | Some (a, b) \<Rightarrow> str ''Some(('' @ decimal (unat a) @ str '', '' @ decimal (unat b) @ str ''))'')"

definition debug_bool :: "bool \<Rightarrow> u8 list" where
  "debug_bool b = str (if b then ''true'' else ''false'')"

definition disconnected :: "env \<Rightarrow> aa_session \<Rightarrow> failure" where
  "disconnected e s = failure_new TransportLoss
     ((case aa_disconnect (ss_decoder s) of Inl t \<Rightarrow> t | Inr _ \<Rightarrow> str ''Android phone transport disconnected'')
      @ str ''; '' @ str (if ss_established s then ''established'' else ''startup'')
      @ str '': discovery_sent='' @ debug_bool (ss_discovery_sent s)
      @ str '', last_valid_rx='' @ debug_pair (ss_last_rx s)
      @ str '', last_completed_reply='' @ debug_pair (ss_last_reply s)
      @ str '', post_tls_ms='' @ decimal (en_clock_ms e))"

fun wake :: "env \<Rightarrow> wakeup \<Rightarrow> unit step" where
  "wake e (MicFrame frame) = (\<lambda>s. (if ss_capture s then s\<lparr>ss_frame := Some frame\<rparr> else s, Inr ()))"
| "wake e Entertainment = entertainment_changed e"
| "wake e (Read r) = (\<lambda>s.
     case r of
       Inl err \<Rightarrow> (s, Inl (Broke (failure_from_io err)))
     | Inr bytes \<Rightarrow>
         if bytes = [] then (s, Inl (Broke (disconnected e s)))
         else (case aa_push (ss_decoder s) bytes of
                 Inl t \<Rightarrow> (s, Inl (broke t))
               | Inr buf \<Rightarrow> (s\<lparr>ss_decoder := buf\<rparr>, Inr ())))"
| "wake e Lagged = failS (broke (str ''projection control queue overflow''))"
| "wake e HostGone = failS Finished"
| "wake e (Run c) = run_command e c"
| "wake e PingTimer = retS ()"
| "wake e SetupDeadline = (\<lambda>s.
     (s, if ss_streaming s then Inr () else Inl (Broke (failure_timeout (str ''AA video setup timeout after TLS'')))))"

definition microphone_poll :: "env \<Rightarrow> unit step" where
  "microphone_poll e =
     modify (\<lambda>s. if ss_frame s = None \<and> ss_capture s then s\<lparr>ss_frame := en_poll e\<rparr> else s)"

definition session_turn :: "env \<Rightarrow> wakeup \<Rightarrow> unit step" where
  "session_turn e w =
     bindS (ping_due e) (\<lambda>_.
     bindS (microphone_poll e) (\<lambda>_.
     bindS (microphone_turn e) (\<lambda>_ s.
       case aa_packet_next (ss_decoder s) of
         (buf, Inl t) \<Rightarrow> (s, Inl (broke t))
       | (buf, Inr (Some p)) \<Rightarrow> receive e p (s\<lparr>ss_decoder := buf\<rparr>)
       | (buf, Inr None) \<Rightarrow> wake e w s)))"

text \<open>The watchdog of a wireless session is polled before the engine; a session that has stopped stays so.\<close>

type_synonym session_run = "aa_session \<times> stop option"

definition unresponsive :: failure where
  "unresponsive = failure_new TransportLoss
     (str ''Wireless AA peer unresponsive: no valid inbound activity for 10 seconds'')"

definition session_step :: "session_run \<Rightarrow> env \<times> wakeup \<Rightarrow> session_run \<times> unit" where
  "session_step run i =
     (case (run, i) of ((s, ended), (e, w)) \<Rightarrow>
        if ended \<noteq> None then (run, ())
        else if ss_wireless s \<and> lv_unresponsive (ss_liveness s) (en_clock e) then ((s, Some (Broke unresponsive)), ())
        else (case session_turn e w s of
                (s', Inl why) \<Rightarrow> ((s', Some why), ())
              | (s', Inr _) \<Rightarrow> ((s', None), ())))"

section \<open>What every step keeps\<close>

text \<open>The session's view is visible only with its stream state, and never while the host waits for video.\<close>

definition visible_ok :: "aa_session \<Rightarrow> bool" where
  "visible_ok s \<longleftrightarrow> (own (ss_id s) (ss_snapshot s) \<longrightarrow>
     (\<forall>d f. rs_video (ss_snapshot s) = Some (d, f) \<longrightarrow>
        (ss_awaiting_video s \<longrightarrow> \<not> f) \<and> (map_option sn_state (rs_session (ss_snapshot s)) = Some Streaming \<longleftrightarrow> f)))"

text \<open>A snapshot of another session: only the codec may change.\<close>

definition foreign_kept :: "aa_session \<Rightarrow> aa_session \<Rightarrow> bool" where
  "foreign_kept s s' \<longleftrightarrow> (\<not> own (ss_id s) (ss_snapshot s) \<longrightarrow>
     (\<exists>k. ss_snapshot s' = (ss_snapshot s)\<lparr>rs_video_codec := k\<rparr>))"

definition keeps :: "aa_session \<Rightarrow> aa_session \<Rightarrow> bool" where
  "keeps s s' \<longleftrightarrow> ss_id s' = ss_id s \<and> own (ss_id s) (ss_snapshot s') = own (ss_id s) (ss_snapshot s)
     \<and> (visible_ok s \<longrightarrow> visible_ok s') \<and> foreign_kept s s'"

definition quiet :: "'a step \<Rightarrow> bool" where
  "quiet m \<longleftrightarrow> (\<forall>s. keeps s (fst (m s)))"

named_theorems quiet_intros \<open>steps that keep the visibility and foreign snapshots\<close>

lemma same_codec: "\<exists>k. r = r\<lparr>rs_video_codec := k\<rparr>"
  by (rule exI [of _ "rs_video_codec r"]) simp

lemma keeps_refl: "keeps s s"
  by (simp add: keeps_def foreign_kept_def same_codec)

lemma keeps_trans: "keeps s s1 \<Longrightarrow> keeps s1 s2 \<Longrightarrow> keeps s s2"
  by (auto simp: keeps_def foreign_kept_def)

lemma keeps_same:
  "ss_id s' = ss_id s \<Longrightarrow> ss_snapshot s' = ss_snapshot s \<Longrightarrow> ss_awaiting_video s' = ss_awaiting_video s \<Longrightarrow> keeps s s'"
  unfolding keeps_def foreign_kept_def visible_ok_def by (auto simp: same_codec)

lemma quiet_bindS [quiet_intros]: "quiet m \<Longrightarrow> (\<And>x. quiet (f x)) \<Longrightarrow> quiet (bindS m f)"
  unfolding quiet_def
proof
  fix s
  assume m: "\<forall>s. keeps s (fst (m s))" and f: "\<And>x. \<forall>s. keeps s (fst (f x s))"
  show "keeps s (fst (bindS m f s))"
    using m [rule_format, of s] f
    by (auto simp: bindS_def split: prod.splits sum.splits intro: keeps_trans)
qed

lemma quiet_simple [quiet_intros]: "quiet (retS x)" "quiet (failS e)" "quiet (liftS c r)" "quiet (attempt c r)"
  by (auto simp: quiet_def keeps_refl retS_def failS_def liftS_def attempt_def)

lemma quiet_if [quiet_intros]: "quiet m \<Longrightarrow> quiet n \<Longrightarrow> quiet (if b then m else n)"
  by simp

lemma quiet_only_if [quiet_intros]: "quiet m \<Longrightarrow> quiet (only_if b m)"
  by (simp add: only_if_def quiet_simple)

text \<open>A step that looks at the state first.\<close>

lemma quiet_state: "(\<And>s. quiet (m s)) \<Longrightarrow> quiet (\<lambda>s. m s s)"
  by (simp add: quiet_def)

lemma quiet_modify [quiet_intros]: "(\<And>s. keeps s (f s)) \<Longrightarrow> quiet (modify f)"
  by (simp add: quiet_def modify_def)

lemma quiet_write [quiet_intros]: "quiet (write_wire e b r)"
  by (auto simp: quiet_def write_wire_def keeps_refl keeps_same split: option.splits)

lemma quiet_send [quiet_intros]: "quiet (send e r)"
proof -
  have "quiet (\<lambda>s. bindS (attempt broke (en_encrypt e (length (ss_sent s)) (to_be16 (rp_id r) @ rp_body r))) (\<lambda>records.
     bindS (attempt broke (encrypted_frames (rp_channel r) (rp_control r) records)) (\<lambda>_.
       write_wire e True r)) s)"
    by (rule quiet_state) (intro quiet_intros)
  moreover have "send e r = (\<lambda>s. bindS (attempt broke (en_encrypt e (length (ss_sent s)) (to_be16 (rp_id r) @ rp_body r))) (\<lambda>records.
     bindS (attempt broke (encrypted_frames (rp_channel r) (rp_control r) records)) (\<lambda>_.
       write_wire e True r)) s)" by (rule ext) (rule send_def)
  ultimately show ?thesis by simp
qed

lemma quiet_send_plain [quiet_intros]: "quiet (send_plain e ch i body)"
  unfolding send_plain_def by (intro quiet_intros)

lemma quiet_send_of [quiet_intros]: "quiet (\<lambda>s. send e (f s) s)"
  by (rule quiet_state) (rule quiet_send)

text \<open>Updates of the snapshot.\<close>

lemma own_simps [simp]:
  "own i (r\<lparr>rs_video_codec := k\<rparr>) = own i r" "own i (r\<lparr>rs_video := v\<rparr>) = own i r"
  "own i (r\<lparr>rs_presentation := n\<rparr>) = own i r" "own i (r\<lparr>rs_host_return := n\<rparr>) = own i r"
  "own i (r\<lparr>rs_audio := a\<rparr>) = own i r" "own i (r\<lparr>rs_metadata := m\<rparr>) = own i r"
  "own i (with_state st r) = own i r" "rs_video (with_state st r) = rs_video r"
  by (auto simp: own_def with_state_def split: option.splits)

lemma with_state_session: "own i r \<Longrightarrow> map_option sn_state (rs_session (with_state st r)) = Some st"
  by (auto simp: own_def with_state_def split: option.splits)

lemma own_update:
  "own (ss_id s) r' = own (ss_id s) (ss_snapshot s) \<Longrightarrow>
   (\<not> own (ss_id s) (ss_snapshot s) \<Longrightarrow> r' = ss_snapshot s) \<Longrightarrow>
   (own (ss_id s) (ss_snapshot s) \<Longrightarrow> visible_ok s \<Longrightarrow> visible_ok (s\<lparr>ss_awaiting_video := w, ss_snapshot := r'\<rparr>)) \<Longrightarrow>
   keeps s (s\<lparr>ss_awaiting_video := w, ss_snapshot := r'\<rparr>)"
  unfolding keeps_def foreign_kept_def visible_ok_def by (auto simp: same_codec)

lemma set_visibility_keeps: "v \<and> w \<longrightarrow> False \<Longrightarrow>
  keeps s (s\<lparr>ss_awaiting_video := w, ss_snapshot := set_visibility (ss_id s) v (ss_snapshot s)\<rparr>)"
proof (rule own_update)
  assume vw: "v \<and> w \<longrightarrow> False"
  show "own (ss_id s) (set_visibility (ss_id s) v (ss_snapshot s)) = own (ss_id s) (ss_snapshot s)"
    by (auto simp: set_visibility_def split: option.splits)
  show "set_visibility (ss_id s) v (ss_snapshot s) = ss_snapshot s" if "\<not> own (ss_id s) (ss_snapshot s)"
    using that by (auto simp: set_visibility_def split: option.splits)
  assume o: "own (ss_id s) (ss_snapshot s)" and "visible_ok s"
  show "visible_ok (s\<lparr>ss_awaiting_video := w, ss_snapshot := set_visibility (ss_id s) v (ss_snapshot s)\<rparr>)"
  proof (cases "rs_video (ss_snapshot s)")
    case None
    then show ?thesis by (simp add: visible_ok_def set_visibility_def)
  next
    case (Some df)
    obtain d f where "df = (d, f)" by (cases df)
    then show ?thesis
      using Some o vw by (auto simp: visible_ok_def set_visibility_def with_state_session)
  qed
qed

lemma snapshot_video_keeps:
  "keeps s (s\<lparr>ss_streaming := b, ss_snapshot := snapshot_video (ss_id s) d (v \<and> \<not> ss_awaiting_video s) (ss_snapshot s)\<rparr>)"
proof -
  have "keeps s (s\<lparr>ss_awaiting_video := ss_awaiting_video s,
    ss_snapshot := snapshot_video (ss_id s) d (v \<and> \<not> ss_awaiting_video s) (ss_snapshot s)\<rparr>)"
  proof (rule own_update)
    let ?r = "snapshot_video (ss_id s) d (v \<and> \<not> ss_awaiting_video s) (ss_snapshot s)"
    show "own (ss_id s) ?r = own (ss_id s) (ss_snapshot s)" by (simp add: snapshot_video_def)
    show "?r = ss_snapshot s" if "\<not> own (ss_id s) (ss_snapshot s)" using that by (simp add: snapshot_video_def)
    assume "own (ss_id s) (ss_snapshot s)"
    then show "visible_ok (s\<lparr>ss_awaiting_video := ss_awaiting_video s, ss_snapshot := ?r\<rparr>)"
      by (auto simp: visible_ok_def snapshot_video_def with_state_session)
  qed
  then show ?thesis by (rule keeps_trans) (simp add: keeps_same)
qed

text \<open>An update of the snapshot that touches neither the session nor the video, and only the own snapshot.\<close>

lemma keeps_side:
  assumes "ss_id s' = ss_id s" "ss_awaiting_video s' = ss_awaiting_video s \<or> \<not> ss_awaiting_video s'"
    and "rs_session (ss_snapshot s') = rs_session (ss_snapshot s)" "rs_video (ss_snapshot s') = rs_video (ss_snapshot s)"
    and "\<not> own (ss_id s) (ss_snapshot s) \<Longrightarrow> \<exists>k. ss_snapshot s' = (ss_snapshot s)\<lparr>rs_video_codec := k\<rparr>"
  shows "keeps s s'"
proof -
  have "own (ss_id s) (ss_snapshot s') = own (ss_id s) (ss_snapshot s)" by (simp add: own_def assms(3))
  then show ?thesis using assms unfolding keeps_def foreign_kept_def visible_ok_def by auto
qed

lemma metadata_side:
  "rs_session (fst (rs_update_metadata disk now i u r)) = rs_session r"
  "rs_video (fst (rs_update_metadata disk now i u r)) = rs_video r"
  "\<not> own i r \<Longrightarrow> fst (rs_update_metadata disk now i u r) = r"
  by (auto simp: rs_update_metadata_def own_def split: option.splits prod.splits)

lemma quietI: "(\<And>s. keeps s (fst (m s))) \<Longrightarrow> quiet m"
  by (simp add: quiet_def)

lemma keeps_by: "quiet m \<Longrightarrow> keeps s (fst (m s))"
  by (simp add: quiet_def)

lemma quiet_capture_close [quiet_intros]: "quiet (capture_close e)"
  unfolding capture_close_def by (intro quiet_intros)

lemma quiet_microphone_open [quiet_intros]: "quiet (microphone_open e limit)"
  unfolding microphone_open_def
  by (auto intro!: quiet_intros keeps_same split: sum.split)

lemma quiet_microphone_request [quiet_intros]: "quiet (microphone_request e opening limit)"
  by (rule quietI, unfold microphone_request_def Let_def, rule keeps_by)
    (auto intro!: quiet_intros keeps_same)

lemma quiet_microphone_stop [quiet_intros]: "quiet (microphone_stop e)"
  by (rule quietI, unfold microphone_stop_def Let_def, rule keeps_by)
    (auto intro!: quiet_intros keeps_same)

lemma quiet_playback_gain [quiet_intros]: "quiet (playback_gain e ch g)"
  unfolding playback_gain_def by (auto intro!: quiet_intros keeps_same)

lemma quiet_media_gain [quiet_intros]: "quiet (\<lambda>s. only_if (b s) (playback_gain e ch (g s)) s)"
  by (rule quiet_state) (intro quiet_intros)

lemma quiet_audio_flag [quiet_intros]:
  "quiet (\<lambda>s. on_snapshot (\<lambda>r. if own (ss_id s) r then r\<lparr>rs_audio := f r\<rparr> else r) s)"
  by (rule quietI, rule keeps_side) (auto simp: on_snapshot_def modify_def same_codec)

lemma quiet_audio_effect [quiet_intros]: "quiet (audio_effect e ch active)"
  unfolding audio_effect_def by (intro quiet_intros keeps_same) simp_all

lemma quiet_effect [quiet_intros]: "quiet (effect e x)"
proof (cases x)
  case (EVideoCodec codec)
  have "quiet (\<lambda>s. bindS (attempt broke (en_codec e)) (\<lambda>_. on_snapshot (\<lambda>r. r\<lparr>rs_video_codec := codec\<rparr>)) s)"
    unfolding on_snapshot_def by (rule quiet_state) (intro quiet_intros keeps_side; auto)
  then show ?thesis unfolding EVideoCodec by (auto simp: quiet_def keeps_refl)
next
  case (EMicrophoneAck session count)
  then show ?thesis by (auto simp: quiet_def intro!: keeps_same split: prod.splits)
next
  case (EReply r)
  then show ?thesis by (auto intro!: quiet_intros keeps_same)
next
  case (EMetadata u)
  then show ?thesis
    by (auto simp: quiet_def on_snapshot_def modify_def metadata_side same_codec intro!: keeps_side)
next
  case (EMedia ch bytes)
  have "quiet (\<lambda>s. if ss_awaiting_video s
     then (s\<lparr>ss_awaiting_video := False, ss_snapshot := set_visibility (ss_id s) True (ss_snapshot s)\<rparr>, Inr ())
     else (s, Inr ()))"
    by (auto simp: quiet_def keeps_refl intro: set_visibility_keeps)
  then have "quiet (bindS (attempt broke (en_video_push e)) (\<lambda>_ s. if ss_awaiting_video s
     then (s\<lparr>ss_awaiting_video := False, ss_snapshot := set_visibility (ss_id s) True (ss_snapshot s)\<rparr>, Inr ())
     else (s, Inr ())))" by (intro quiet_intros)
  then show ?thesis using quiet_simple(4) [of broke "en_audio_push e"]
    unfolding EMedia by (auto simp: quiet_def keeps_refl)
next
  case (EVideo visible)
  then show ?thesis by (auto simp: quiet_def on_snapshot_def modify_def intro: snapshot_video_keeps)
next
  case EHostReturn
  then show ?thesis
    by (auto simp: quiet_def on_snapshot_def modify_def same_codec intro!: keeps_side)
qed (auto intro!: quiet_intros keeps_same)

lemma quiet_effects [quiet_intros]: "quiet (effects e xs)"
  by (induction xs) (auto intro!: quiet_intros)

lemma quiet_reassemble [quiet_intros]: "quiet (reassemble ch flags bytes)"
  by (auto simp: quiet_def reassemble_def liftS_def intro!: keeps_same split: prod.splits)

lemma quiet_plain_message [quiet_intros]: "quiet (plain_message e ch i body)"
  using quiet_send_plain [of e 0 "0x000c" body]
  by (auto simp: quiet_def plain_message_def keeps_refl intro!: keeps_same)

lemma quiet_handle_message [quiet_intros]: "quiet (handle_message ch i body)"
  by (auto simp: quiet_def handle_message_def liftS_def intro!: keeps_same split: prod.splits)

text \<open>A quiet step after a change that keeps what \<open>keeps\<close> looks at.\<close>

lemma quiet_after: "quiet m \<Longrightarrow> (\<And>s. keeps s (f s)) \<Longrightarrow> quiet (\<lambda>s. m (f s))"
  by (auto simp: quiet_def intro: keeps_trans)

lemma quiet_first_ping [quiet_intros]:
  "quiet (\<lambda>s. case lv_request us now (ss_liveness s) of
     (l, payload) \<Rightarrow> send_plain e 0 0x000b payload (s\<lparr>ss_ping_enabled := True, ss_liveness := l\<rparr>))"
  by (rule quietI) (auto split: prod.split intro!: keeps_trans [OF keeps_same keeps_by] quiet_intros)

lemma quiet_sealed_message [quiet_intros]: "quiet (sealed_message e ch i body)"
proof -
  have "quiet (bindS (handle_message ch i body) (\<lambda>xs.
        bindS (modify (\<lambda>s. s\<lparr>ss_last_rx := Some (ch, i),
           ss_liveness := (if \<exists>x \<in> set xs. \<not> is_ack x then lv_renew (en_clock e) (ss_liveness s) else ss_liveness s)\<rparr>)) (\<lambda>_.
        bindS (effects e xs) (\<lambda>_.
          only_if (ch = 0 \<and> i = 0x0005)
            (\<lambda>s. case lv_request (en_now_us e) (en_clock e) (ss_liveness s) of
               (l, payload) \<Rightarrow> send_plain e 0 0x000b payload (s\<lparr>ss_ping_enabled := True, ss_liveness := l\<rparr>))))))"
    by (intro quiet_intros keeps_same) simp_all
  then show ?thesis by (auto simp: quiet_def sealed_message_def keeps_refl intro!: keeps_same)
qed

lemma quiet_receive [quiet_intros]: "quiet (receive e p)"
  unfolding receive_def Let_def by (auto intro!: quiet_intros split: option.split)

lemma quiet_ping_due [quiet_intros]: "quiet (ping_due e)"
proof (rule quietI)
  fix s
  have "keeps s (fst (bindS (send_plain e 0 0x000b payload) (\<lambda>_. modify (\<lambda>s. s\<lparr>ss_next_ping := en_clock e + 1500\<rparr>))
                  (s\<lparr>ss_liveness := l\<rparr>)))" for l payload
    by (rule keeps_trans [OF keeps_same keeps_by]) (auto intro!: quiet_intros keeps_same)
  then show "keeps s (fst (ping_due e s))"
    by (simp add: ping_due_def keeps_refl split: prod.split)
qed

lemma quiet_microphone_turn [quiet_intros]: "quiet (microphone_turn e)"
proof (rule quietI)
  fix s
  have after: "keeps s (fst (m (s\<lparr>ss_frame := None\<rparr>)))" if "quiet m" for m :: "unit step"
    by (rule keeps_trans [OF keeps_same keeps_by [OF that]]) simp_all
  show "keeps s (fst (microphone_turn e s))"
    unfolding microphone_turn_def Let_def
    by (auto split: option.split sum.split intro!: after quiet_intros keeps_same keeps_refl)
qed

lemma quiet_request_video [quiet_intros]: "quiet (request_video e v)"
  unfolding request_video_def
proof (intro quiet_intros)
  fix s
  have "keeps s (s\<lparr>ss_awaiting_video := v, ss_snapshot := set_visibility (ss_id s) False (ss_snapshot s)\<rparr>)"
    by (rule set_visibility_keeps) simp
  then show "keeps s (s\<lparr>ss_channels := set_video_requested v (ss_channels s), ss_awaiting_video := v,
         ss_snapshot := set_visibility (ss_id s) False (ss_snapshot s)\<rparr>)"
    by (rule keeps_trans) (simp add: keeps_same)
qed

lemma quiet_gain [quiet_intros]:
  "quiet (\<lambda>s. bindS (modify (\<lambda>s. if ch = 4 then s\<lparr>ss_media_gain := gain\<rparr> else s)) (\<lambda>_ s.
     only_if (ch \<in> ss_audio s)
       (playback_gain e ch (if ch = 4 \<and> \<not> snd (en_entertainment e) then 0 else gain)) s) s)"
  by (rule quiet_state) (auto intro!: quiet_intros keeps_same split: if_splits)

lemma quiet_touch_reply [quiet_intros]:
  "quiet (bindS (liftS broke r) (\<lambda>r. case r of None \<Rightarrow> retS () | Some reply \<Rightarrow> send e reply))"
  by (auto intro!: quiet_intros split: option.split)

lemma quiet_run_command [quiet_intros]: "quiet (run_command e c)"
proof (rule quietI)
  fix s
  note q = keeps_by [OF quiet_bindS] keeps_by [OF quiet_request_video] keeps_by [OF quiet_touch_reply]
  show "keeps s (fst (run_command e c s))"
  proof (cases c)
    case (TouchAt target pointer phase x y)
    have "keeps s (fst (bindS (liftS broke r) (\<lambda>r. case r of None \<Rightarrow> retS () | Some reply \<Rightarrow> send e reply) (s\<lparr>ss_channels := ch\<rparr>)))" for r ch
      by (rule keeps_trans [OF keeps_same keeps_by [OF quiet_touch_reply]]) simp_all
    then show ?thesis unfolding run_command_def TouchAt
      by (auto simp: keeps_refl split: option.split)
  next
    case (MediaKey session code deadline waiting)
    have "keeps s (fst (bindS (send e p) (\<lambda>_. send e q) s))" for p q
      by (rule keeps_by) (intro quiet_intros)
    then show ?thesis unfolding run_command_def MediaKey
      by (auto simp: keeps_refl split: sum.split prod.split)
  next
    case (Disconnect target)
    have "keeps s (fst (bindS (send e p) (\<lambda>_. failS Finished) s :: aa_session \<times> (stop + unit)))" for p
      by (rule keeps_by) (intro quiet_intros)
    then show ?thesis unfolding run_command_def Disconnect by (simp add: keeps_refl)
  next
    case (Gain target stream gain)
    then show ?thesis unfolding run_command_def Gain
      using keeps_by [OF quiet_gain, of s]
      by (auto simp: keeps_refl split: option.split)
  qed (use q(2) in \<open>auto simp: run_command_def keeps_refl\<close>)
qed

lemma quiet_entertainment_changed [quiet_intros]: "quiet (entertainment_changed e)"
  unfolding entertainment_changed_def by (intro quiet_intros keeps_same) simp_all

lemma quiet_wake [quiet_intros]: "quiet (wake e w)"
proof (cases w)
  case (MicFrame frame)
  then show ?thesis by (auto simp: quiet_def keeps_refl intro!: keeps_same)
next
  case (Read r)
  then show ?thesis by (auto simp: quiet_def keeps_refl intro!: keeps_same split: sum.split)
next
  case SetupDeadline
  then show ?thesis by (simp add: quiet_def keeps_refl)
qed (auto intro!: quiet_intros)

lemma quiet_microphone_poll [quiet_intros]: "quiet (microphone_poll e)"
  unfolding microphone_poll_def by (auto intro!: quiet_intros keeps_same split: if_splits)

lemma quiet_take_packet [quiet_intros]:
  "quiet (\<lambda>s. case aa_packet_next (ss_decoder s) of
         (buf, Inl t) \<Rightarrow> (s, Inl (broke t))
       | (buf, Inr (Some p)) \<Rightarrow> receive e p (s\<lparr>ss_decoder := buf\<rparr>)
       | (buf, Inr None) \<Rightarrow> wake e w s)"
proof (rule quietI)
  fix s
  have "keeps s (fst (receive e p (s\<lparr>ss_decoder := buf\<rparr>)))" for p buf
    by (rule keeps_trans [OF keeps_same keeps_by [OF quiet_receive]]) simp_all
  then show "keeps s (fst (case aa_packet_next (ss_decoder s) of
         (buf, Inl t) \<Rightarrow> (s, Inl (broke t))
       | (buf, Inr (Some p)) \<Rightarrow> receive e p (s\<lparr>ss_decoder := buf\<rparr>)
       | (buf, Inr None) \<Rightarrow> wake e w s))"
    using keeps_by [OF quiet_wake] by (auto simp: keeps_refl split: prod.split sum.split option.split)
qed

lemma quiet_session_turn: "quiet (session_turn e w)"
  unfolding session_turn_def by (intro quiet_intros)

lemma session_step_keeps: "keeps (fst run) (fst (fst (session_step run i)))"
  using keeps_by [OF quiet_session_turn [of "fst i" "snd i"], of "fst run"]
  by (auto simp: session_step_def keeps_refl split: prod.splits sum.splits)

interpretation session_machine: absorbing_machine session_step "\<lambda>run. visible_ok (fst run)" "\<lambda>run. snd run = Some why" for why
proof unfold_locales
  show "visible_ok (fst run) \<Longrightarrow> visible_ok (fst (fst (session_step run i)))" for run i
    using session_step_keeps [of run i] by (simp add: keeps_def)
  show "snd run = Some why \<Longrightarrow> snd (fst (session_step run i)) = Some why" for run i
    by (cases run, cases i) (simp add: session_step_def)
qed

lemma session_keeps: "keeps (fst run) (fst (fst (run_machine session_step run is)))"
proof (induction "is" arbitrary: run)
  case Nil
  then show ?case by (simp add: keeps_refl)
next
  case (Cons i "is")
  have "keeps (fst run) (fst (fst (run_machine session_step (fst (session_step run i)) is)))"
    by (rule keeps_trans [OF session_step_keeps Cons.IH])
  then show ?case by (simp add: run_machine_Cons del: run_machine.simps(2))
qed

section \<open>Properties\<close>

definition session_after :: "aa_session \<Rightarrow> (env \<times> wakeup) list \<Rightarrow> aa_session" where
  "session_after s is = fst (fst (run_machine session_step (s, None) is))"

text \<open>C13. Whatever the phone sends, the host asks and the devices answer, in any order: the view of a session is
  visible exactly while its state is Streaming and never while the host waits for the first picture, and the
  snapshot of another session stays as it is but for the selected codec.\<close>

theorem aa_session_visibility:
  assumes "visible_ok s"
  shows "visible_ok (session_after s is) \<and> foreign_kept s (session_after s is)"
  using assms session_keeps [of "(s, None)" "is"] by (simp add: session_after_def keeps_def)

definition pong :: "u8 list \<Rightarrow> bool \<times> aa_reply" where
  "pong body = (False, \<lparr>rp_channel = 0, rp_id = 0x000c, rp_control = False, rp_body = body\<rparr>)"

lemma send_pong: "fst (send_plain e 0 0x000c body s) \<in> {s, s\<lparr>ss_sent := ss_sent s @ [pong body]\<rparr>}"
  by (auto simp: send_plain_def pong_def bindS_def attempt_def liftS_def write_wire_def split: sum.splits option.splits)

text \<open>What an unencrypted packet may change.\<close>

definition harmless :: "nat \<Rightarrow> aa_session \<Rightarrow> aa_session \<Rightarrow> bool" where
  "harmless t s s' \<longleftrightarrow> (\<exists>fs l rs. s' = s\<lparr>ss_fragments := fs, ss_liveness := l, ss_sent := ss_sent s @ rs\<rparr>
     \<and> (rs = [] \<or> (\<exists>body. rs = [pong body]))
     \<and> (l = ss_liveness s \<or> (\<exists>body. lv_response body t (ss_liveness s) = (l, True))))"

lemma plain_message_harmless: "\<exists>l rs. fst (plain_message e ch i body s) = s\<lparr>ss_liveness := l, ss_sent := ss_sent s @ rs\<rparr>
     \<and> (rs = [] \<or> (\<exists>body. rs = [pong body]))
     \<and> (l = ss_liveness s \<or> (\<exists>body. lv_response body (en_clock e) (ss_liveness s) = (l, True)))"
proof -
  have keep: "\<exists>l rs. s = s\<lparr>ss_liveness := l, ss_sent := ss_sent s @ rs\<rparr>
     \<and> (rs = [] \<or> (\<exists>body. rs = [pong body]))
     \<and> (l = ss_liveness s \<or> (\<exists>body. lv_response body (en_clock e) (ss_liveness s) = (l, True)))"
    by (rule exI [of _ "ss_liveness s"], rule exI [of _ "[]"]) simp
  show ?thesis
  proof (cases "ch \<noteq> 0 \<or> i \<noteq> 0x000b \<and> i \<noteq> 0x000c")
    case True
    then show ?thesis using keep by (simp add: plain_message_def)
  next
    case known: False
    show ?thesis
    proof (cases "i = 0x000c")
      case True
      obtain l b where r: "lv_response body (en_clock e) (ss_liveness s) = (l, b)" by fastforce
      have l: "l = ss_liveness s \<or> (\<exists>body. lv_response body (en_clock e) (ss_liveness s) = (l, True))"
        using r lv_response_False [of body "en_clock e" "ss_liveness s" l] by (cases b) auto
      have "fst (plain_message e ch i body s) = s\<lparr>ss_liveness := l, ss_sent := ss_sent s @ []\<rparr>"
        using known True r by (simp add: plain_message_def)
      then show ?thesis using l by blast
    next
      case False
      obtain rs where rs: "fst (send_plain e 0 0x000c body s) = s\<lparr>ss_sent := ss_sent s @ rs\<rparr>"
        "rs = [] \<or> rs = [pong body]"
      proof (cases "fst (send_plain e 0 0x000c body s) = s")
        case True
        then show ?thesis by (intro that [of "[]"]) simp_all
      next
        case False
        then show ?thesis using send_pong [of e body s] by (intro that [of "[pong body]"]) auto
      qed
      have "fst (plain_message e ch i body s) = s\<lparr>ss_liveness := ss_liveness s, ss_sent := ss_sent s @ rs\<rparr>"
        using known False rs(1) by (simp add: plain_message_def)
      then show ?thesis using rs(2) by blast
    qed
  qed
qed

lemma receive_plain: "ap_flags p AND 8 = 0 \<Longrightarrow> receive e p =
  bindS (reassemble (ap_channel p) (ap_flags p) (ap_bytes p)) (\<lambda>r.
    case r of
      None \<Rightarrow> retS ()
    | Some body \<Rightarrow>
        if length body < 2 then failS (broke (str ''short AA message''))
        else plain_message e (ap_channel p) (from_be16 (body ! 0) (body ! 1)) (drop 2 body))"
  by (auto simp: receive_def Let_def bindS_def retS_def fun_eq_iff split: prod.split sum.split option.split)

lemma receive_plain_harmless:
  assumes "ap_flags p AND 8 = 0"
  shows "harmless (en_clock e) s (fst (receive e p s))"
proof -
  obtain fs r where acc: "aa_accept (ss_fragments s) (ap_channel p, ap_flags p, ap_bytes p) = (fs, r)" by fastforce
  let ?s = "s\<lparr>ss_fragments := fs\<rparr>"
  have keep: "harmless (en_clock e) s ?s" unfolding harmless_def
    by (rule exI [of _ fs], rule exI [of _ "ss_liveness s"], rule exI [of _ "[]"]) simp
  have msg: "harmless (en_clock e) s (fst (plain_message e ch i body ?s))" for ch i body
    using plain_message_harmless [of e ch i body ?s] unfolding harmless_def by auto
  show ?thesis
    unfolding receive_plain [OF assms]
    by (auto simp: reassemble_def acc bindS_def liftS_def retS_def failS_def keep msg split: sum.splits option.splits)
qed


section \<open>Example\<close>

definition example_env :: env where
  "example_env = \<lparr>en_encrypt = (\<lambda>_ x. Inr ([23, 3, 3] @ to_be16 (of_nat (length x)) @ x)), en_decrypt = Inr, en_write = (\<lambda>_. None), en_capture_open = Inr (),
     en_capture_frame = Inr [], en_capture_close = Inr (), en_codec = Inr (), en_video_push = Inr (),
     en_audio_open = Inr (), en_audio_push = Inr (), en_audio_gain = Inr (), en_artwork = Inl [],
     en_now_ms = 0, en_now_us = 0, en_clock = 0, en_clock_us = 0, en_clock_ms = 0,
     en_entertainment = (0, True), en_poll = None\<rparr>"

definition example_view :: runtime_snapshot where
  "example_view = runtime_default\<lparr>
     rs_session := Some \<lparr>sn_id = [1], sn_device_id = [], sn_state = Streaming, sn_failure = None\<rparr>,
     rs_video := Some (display_default, True)\<rparr>"

definition example_session :: aa_session where
  "example_session = \<lparr>ss_id = [1], ss_wireless = True, ss_display = display_default, ss_decoder = [],
     ss_channels = channels_new display_default, ss_fragments = [],
     ss_liveness = liveness_new 0, ss_credits = credits_default, ss_snapshot = example_view, ss_detail = [],
     ss_media_gain = 1065353216, ss_entertainment_ack = 0, ss_capture = False, ss_frame = None, ss_video = True,
     ss_audio = {}, ss_gains = [], ss_awaiting_video = False, ss_streaming = True, ss_discovery_sent = True,
     ss_established = True, ss_ready = True, ss_last_rx = None, ss_last_reply = None, ss_ping_enabled = False,
     ss_next_ping = 1500, ss_sent = []\<rparr>"

lemma example_visible: "visible_ok example_session"
  by (simp add: visible_ok_def example_session_def example_view_def)

theorem aa_session_visibility_witness:
  "visible_ok example_session
   \<and> visible_ok (session_after example_session [(example_env, Run (Activate [1]))])
   \<and> foreign_kept example_session (session_after example_session [(example_env, Run (Activate [1]))])"
  using aa_session_visibility [OF example_visible, of "[(example_env, Run (Activate [1]))]"] example_visible by simp

definition example_ping :: aa_packet where
  "example_ping = \<lparr>ap_channel = 0, ap_flags = 3, ap_bytes = [0, 0x0b, 8, 1]\<rparr>"


end
