(* ===== verification/Audio.thy ===== *)
theory Audio
  imports Airplay Crypto
begin

unbundle bit_operations_syntax

text \<open>
  Audio of a CarPlay session (\<open>native/carplay/src/protocol/audio.rs\<close>): the replay window and authentication
  of incoming packets, the framing handed to the playback pipeline, the microphone with its packets, and the
  task that drives one stream. GStreamer, the sockets and the microphone lease are operating system and library
  objects: the outcomes of their calls are arguments, and OpenSSL is the \<open>crypto\<close> parameter.
\<close>

section \<open>Replay window\<close>

record replay =
  ry_highest :: "u64 option"
  ry_bits :: u64

definition replay_new :: replay where
  "replay_new = \<lparr>ry_highest = None, ry_bits = 0\<rparr>"

definition replay_accept :: "u64 \<Rightarrow> replay \<Rightarrow> replay \<times> (proto_error + unit)" where
  "replay_accept counter w =
     (case ry_highest w of
        None \<Rightarrow> (w\<lparr>ry_highest := Some counter, ry_bits := 1\<rparr>, Inr ())
      | Some high \<Rightarrow>
          if high < counter
          then (w\<lparr>ry_bits := (if 64 \<le> counter - high then 1 else push_bit (unat (counter - high)) (ry_bits w) OR 1),
                 ry_highest := Some counter\<rparr>, Inr ())
          else
            let behind = high - counter in
            if 64 \<le> behind \<or> bit (ry_bits w) (unat behind) then (w, Inl Sequence)
            else (w\<lparr>ry_bits := ry_bits w OR push_bit (unat behind) 1\<rparr>, Inr ()))"

section \<open>Incoming packets\<close>

definition from_le64 :: "u8 list \<Rightarrow> u64" where
  "from_le64 bs = word_cat (from_be32 (bs ! 7) (bs ! 6) (bs ! 5) (bs ! 4)) (from_be32 (bs ! 3) (bs ! 2) (bs ! 1) (bs ! 0))"

record audio_decoder =
  ad_key :: "u8 list"
  ad_replay :: replay

definition audio_packet :: "crypto \<Rightarrow> u8 list \<Rightarrow> audio_decoder \<Rightarrow> audio_decoder \<times> (proto_error + u8 list \<times> u32)" where
  "audio_packet cy bytes d =
     (if \<not> (36 \<le> length bytes \<and> length bytes \<le> 4096) \<or> bytes ! 0 \<noteq> 0x80 then (d, Inl Malformed)
      else
        let end = length bytes - 8; counter = drop end bytes in
        case open_sealed cy (ad_key d) ([0, 0, 0, 0] @ counter) (take 8 (drop 4 bytes)) (take (end - 12) (drop 12 bytes)) of
          Inl e \<Rightarrow> (d, Inl e)
        | Inr payload \<Rightarrow>
            (case replay_accept (from_le64 counter) (ad_replay d) of
               (w, Inl e) \<Rightarrow> (d\<lparr>ad_replay := w\<rparr>, Inl e)
             | (w, Inr _) \<Rightarrow>
                 (d\<lparr>ad_replay := w\<rparr>,
                  Inr (take 12 bytes @ payload, from_be32 (bytes ! 4) (bytes ! 5) (bytes ! 6) (bytes ! 7)))))"

section \<open>Playback\<close>

record audio_playback =
  ap_format :: audio_format
  ap_first :: "u32 option"
  ap_started :: "nat option"
  ap_payload_type :: u8
  ap_scheduled :: nat

text \<open>The decoder configuration an AAC stream is announced with.\<close>

definition aac_config :: "audio_format \<Rightarrow> u16" where
  "aac_config f =
     (2 * 2 ^ 11) OR ((if af_sample_rate f = 48000 then 3 else 4) * 2 ^ 7) OR (of_nat (af_channels f) * 2 ^ 3)"

text \<open>\<open>!gain.is_finite() || !(0.0..=1.0).contains(&gain)\<close> on the bits of a double.\<close>

definition f64_unit_interval :: "u64 \<Rightarrow> bool" where
  "f64_unit_interval b \<longleftrightarrow> b \<le> 0x3ff0000000000000 \<or> b = 0x8000000000000000"

definition audio_gain :: "u64 \<Rightarrow> proto_error + unit" where
  "audio_gain b = (if \<not> f64_unit_interval b then Inl Bounds else Inr ())"

definition audio_framed :: "audio_playback \<Rightarrow> u8 list \<Rightarrow> proto_error + u8 list" where
  "audio_framed p rtp =
     (case af_codec (ap_format p) of
        SignedPcm16 \<Rightarrow>
          let payload = drop 12 rtp in
          if payload = [] \<or> length payload mod (af_channels (ap_format p) * 2) \<noteq> 0 then Inl Malformed else Inr payload
      | AacLc \<Rightarrow>
          let n = length rtp - 12 in
          if n = 0 \<or> n > 8191 then Inl Bounds
          else
            let len = to_be16 (push_bit 3 (of_nat n));
                framed = take 12 rtp @ [0, 16, len ! 0, len ! 1] @ drop 12 rtp in
            Inr (framed[1 := 0x80 OR ap_payload_type p])
      | _ \<Rightarrow> Inl Unsupported)"

text \<open>Times are nanoseconds. A pushed buffer is its bytes with the presentation time and duration of PCM.\<close>

definition pcm_timing :: "nat \<Rightarrow> u8 list \<Rightarrow> u32 \<Rightarrow> audio_playback \<Rightarrow> audio_playback \<times> (nat \<times> nat)" where
  "pcm_timing now rtp sample p =
     (let initial = (case ap_first p of Some s \<Rightarrow> s | None \<Rightarrow> sample);
          start = (case ap_started p of Some s \<Rightarrow> s | None \<Rightarrow> now);
          timestamp = start + unat (sample - initial) * 1000000000 div af_sample_rate (ap_format p) in
      (p\<lparr>ap_first := Some initial, ap_started := Some start, ap_scheduled := timestamp\<rparr>,
       (timestamp, (length rtp - 12) * 1000000000 div (af_channels (ap_format p) * 2 * af_sample_rate (ap_format p)))))"

text \<open>\<open>level\<close> is what the source queues, \<open>pushed\<close> and \<open>healthy\<close> are the outcomes of the push and of the bus.\<close>

definition playback_push ::
  "nat \<Rightarrow> nat \<Rightarrow> bool \<Rightarrow> bool \<Rightarrow> u8 list \<Rightarrow> u32 \<Rightarrow> audio_playback
     \<Rightarrow> audio_playback \<times> (proto_error + u8 list \<times> (nat \<times> nat) option)" where
  "playback_push level now pushed healthy rtp sample p =
     (if level > 262144 then (p, Inl Bounds)
      else case audio_framed p rtp of
        Inl e \<Rightarrow> (p, Inl e)
      | Inr bytes \<Rightarrow>
          (case (if af_codec (ap_format p) = SignedPcm16 then apsnd Some (pcm_timing now rtp sample p) else (p, None)) of
             (p, timing) \<Rightarrow> (p, if \<not> pushed \<or> \<not> healthy then Inl Rejected else Inr (bytes, timing))))"

section \<open>Microphone\<close>

text \<open>\<open>gst\<close> is \<open>None\<close> when GStreamer does not start, otherwise the elements it finds.\<close>

definition elements_available :: "(string \<Rightarrow> bool) option \<Rightarrow> string list \<Rightarrow> proto_error + unit" where
  "elements_available gst names =
     (case gst of None \<Rightarrow> Inl Rejected
      | Some found \<Rightarrow> if \<forall>name \<in> set names. found name then Inr () else Inl Unsupported)"

definition available :: "(string \<Rightarrow> bool) option \<Rightarrow> proto_error + unit" where
  "available gst = elements_available gst
     [''appsrc'', ''rtpjitterbuffer'', ''rtpmp4gdepay'', ''aacparse'', ''avdec_aac'', ''audioconvert'',
      ''audioresample'', ''volume'', ''clocksync'', ''queue'', ''pulsesink'']"

definition capture_available :: "(string \<Rightarrow> bool) option \<Rightarrow> u8 list \<Rightarrow> proto_error + unit" where
  "capture_available gst source =
     (if source = [] \<or> length source > 256 \<or> \<not> (\<forall>b \<in> set source. ascii_alnum b \<or> b \<in> set (str ''._-''))
      then Inl Bounds
      else elements_available gst [''pulsesrc'', ''appsink'', ''webrtcdsp'', ''webrtcechoprobe''])"

record audio_microphone =
  am_pending :: "u8 list"
  am_packet_bytes :: nat
  am_frames :: u32
  am_key :: "u8 list"
  am_counter :: u64
  am_sequence :: u16
  am_timestamp :: u32
  am_running :: bool
  am_lease :: bool

text \<open>\<open>probe\<close>: the playback has an echo probe; \<open>built\<close>: the capture bin was built and attached.\<close>

definition microphone_new ::
  "audio_format \<Rightarrow> u8 list \<Rightarrow> u8 list \<Rightarrow> u16 \<Rightarrow> u32 \<Rightarrow> bool \<Rightarrow> proto_error option \<Rightarrow> proto_error + audio_microphone" where
  "microphone_new f source key port frames_per_packet probe built =
     (if af_codec f \<noteq> SignedPcm16 \<or> af_channels f \<noteq> 1 \<or> port = 0 \<or> source = [] \<or> length source > 256
      then Inl Unsupported
      else
        let frames = (if frames_per_packet = 0 then of_nat (af_sample_rate f div 50) else frames_per_packet);
            packet_bytes = unat frames * 2 in
        if frames = 0 \<or> packet_bytes > 4000 then Inl Bounds
        else if \<not> probe then Inl State
        else case built of
          Some e \<Rightarrow> Inl e
        | None \<Rightarrow> Inr \<lparr>am_pending = [], am_packet_bytes = packet_bytes, am_frames = frames, am_key = key,
            am_counter = 0, am_sequence = 0, am_timestamp = 0, am_running = False, am_lease = False\<rparr>)"

definition seal_pcm :: "crypto \<Rightarrow> u8 list \<Rightarrow> u64 \<Rightarrow> u16 \<Rightarrow> u32 \<Rightarrow> u8 list \<Rightarrow> proto_error + u8 list" where
  "seal_pcm cy key counter sequence timestamp payload =
     (if payload = [] \<or> length payload > 4000 \<or> odd (length payload) then Inl Bounds
      else
        let header = [0x80, 100] @ to_be16 sequence @ to_be32 timestamp @ [0, 0, 0, 0] in
        bindr (seal cy key ([0, 0, 0, 0] @ to_le64 counter) (take 8 (drop 4 header)) payload) (\<lambda>sealed.
          Inr (header @ sealed @ to_le64 counter)))"

text \<open>The outcomes of the calls \<open>active\<close> makes, in order.\<close>

record bin_outcome =
  bo_lease :: bool
  bo_clock :: bool
  bo_base :: bool
  bo_state :: bool
  bo_null :: bool

definition microphone_active :: "bin_outcome \<Rightarrow> bool \<Rightarrow> audio_microphone \<Rightarrow> audio_microphone \<times> (proto_error + unit)" where
  "microphone_active o' active m =
     (if active = am_running m then (m, Inr ())
      else if active \<and> \<not> bo_lease o' then (m, Inl Rejected)
      else
        let m = (if active then m\<lparr>am_lease := True\<rparr> else m) in
        if active \<and> \<not> bo_clock o' then (m, Inl Rejected)
        else if active \<and> \<not> bo_base o' then (m, Inl State)
        else if \<not> bo_state o' then (m, Inl Rejected)
        else
          let m = m\<lparr>am_running := active\<rparr> in
          if active then (m, Inr ())
          else if \<not> bo_null o' then (m, Inl State)
          else (m\<lparr>am_lease := False, am_pending := []\<rparr>, Inr ()))"

text \<open>\<open>device\<close>: the capture element is there; \<open>current\<close>: it already uses the source.\<close>

definition microphone_select ::
  "bin_outcome \<Rightarrow> bool \<Rightarrow> bool \<Rightarrow> audio_microphone \<Rightarrow> audio_microphone \<times> (proto_error + unit)" where
  "microphone_select o' device current m =
     (if \<not> device then (m, Inl State)
      else if current then (m, Inr ())
      else microphone_active o' False m)"

text \<open>The packets that leave, in order. \<open>sent\<close> tells whether the socket takes the packet of a counter. A microphone
  is only built with packets of at least two bytes; without that guard the loop of the source would not end.\<close>

function microphone_packets ::
  "crypto \<Rightarrow> (u64 \<Rightarrow> bool) \<Rightarrow> audio_microphone \<Rightarrow> audio_microphone \<times> (proto_error + unit) \<times> u8 list list" where
  "microphone_packets cy sent m =
     (if am_packet_bytes m = 0 \<or> length (am_pending m) < am_packet_bytes m then (m, Inr (), [])
      else
        let payload = take (am_packet_bytes m) (am_pending m);
            m = m\<lparr>am_pending := drop (am_packet_bytes m) (am_pending m)\<rparr> in
        case seal_pcm cy (am_key m) (am_counter m) (am_sequence m) (am_timestamp m) payload of
          Inl e \<Rightarrow> (m, Inl e, [])
        | Inr packet \<Rightarrow>
            if am_counter m = 0xffffffffffffffff then (m, Inl Bounds, [])
            else
              let m' = m\<lparr>am_counter := am_counter m + 1, am_sequence := am_sequence m + 1,
                         am_timestamp := am_timestamp m + am_frames m\<rparr> in
              if \<not> sent (am_counter m) then (m', Inl Rejected, [])
              else (case microphone_packets cy sent m' of (m, r, packets) \<Rightarrow> (m, r, packet # packets)))"
  by pat_completeness auto
termination
  by (relation "measure (\<lambda>(cy, sent, m). length (am_pending m))") auto

declare microphone_packets.simps [simp del]

definition microphone_send ::
  "crypto \<Rightarrow> (u64 \<Rightarrow> bool) \<Rightarrow> u8 list \<Rightarrow> audio_microphone \<Rightarrow> audio_microphone \<times> (proto_error + unit) \<times> u8 list list" where
  "microphone_send cy sent bytes m =
     (if length (am_pending m) + length bytes > 8192 then (m, Inl Bounds, [])
      else microphone_packets cy sent (m\<lparr>am_pending := am_pending m @ bytes\<rparr>))"

section \<open>The task of a stream\<close>

text \<open>\<open>st_policy\<close> is what the host has set last: gain, mute and capture source. The task looks at it when it is told
  of a change, before it sends samples and after each packet.\<close>

record audio_stream =
  st_decoder :: audio_decoder
  st_playback :: audio_playback
  st_microphone :: "audio_microphone option"
  st_policy :: "u64 \<times> bool \<times> u8 list option"
  st_anchor :: "u32 option"
  st_packets :: u64
  st_peak :: nat
  st_ended :: "proto_error option"
  st_out :: "u8 list list"

definition stream_start_ok :: "u16 \<Rightarrow> nat \<Rightarrow> proto_error + unit" where
  "stream_start_ok kind latency_ms =
     (if kind \<notin> {100, 101, 102} \<or> latency_ms > 2000 then Inl Bounds else Inr ())"

definition set_gain :: "u64 \<Rightarrow> audio_stream \<Rightarrow> audio_stream \<times> (proto_error + unit)" where
  "set_gain v s =
     (if \<not> f64_unit_interval v then (s, Inl Bounds)
      else (case st_policy s of (_, m, c) \<Rightarrow> (s\<lparr>st_policy := (v, m, c)\<rparr>, Inr ())))"

definition set_microphone_source :: "u8 list \<Rightarrow> audio_stream \<Rightarrow> audio_stream" where
  "set_microphone_source src s = (case st_policy s of (g, m, _) \<Rightarrow> s\<lparr>st_policy := (g, m, Some src)\<rparr>)"

definition set_microphone_muted :: "bool \<Rightarrow> audio_stream \<Rightarrow> audio_stream" where
  "set_microphone_muted muted s = (case st_policy s of (g, _, c) \<Rightarrow> s\<lparr>st_policy := (g, muted, c)\<rparr>)"

text \<open>\<open>gain > 0.0\<close> for the bits of a gain in the unit interval.\<close>

definition audible :: "u64 \<Rightarrow> bool" where
  "audible g \<longleftrightarrow> g \<noteq> 0 \<and> g \<noteq> 0x8000000000000000"

text \<open>Steps of the task on the stream; the left value ends it.\<close>

definition with_microphone ::
  "(audio_microphone \<Rightarrow> audio_microphone \<times> (proto_error + unit)) \<Rightarrow> audio_stream \<Rightarrow> audio_stream \<times> (proto_error + unit)" where
  "with_microphone f s =
     (case st_microphone s of None \<Rightarrow> (s, Inr ())
      | Some m \<Rightarrow> (case f m of (m, r) \<Rightarrow> (s\<lparr>st_microphone := Some m\<rparr>, r)))"

datatype audio_event =
    PolicyChanged bin_outcome bool bool bin_outcome
  | Samples "u64 \<Rightarrow> bool" "u8 list option"
  | ControlPacket bool
  | DataPacket bool "u8 list" nat nat bool bool bin_outcome
  | SocketFailed

definition policy_changed :: "bin_outcome \<Rightarrow> bool \<Rightarrow> bool \<Rightarrow> bin_outcome \<Rightarrow> audio_stream \<Rightarrow> audio_stream \<times> (proto_error + unit)" where
  "policy_changed o1 device current o2 s =
     (case st_policy s of (gain, muted, source) \<Rightarrow>
        bindS (if source = None then retS () else with_microphone (microphone_select o1 device current)) (\<lambda>_.
        bindS (liftS id (audio_gain gain)) (\<lambda>_ s.
          with_microphone (microphone_active o2 (audible gain \<and> \<not> muted \<and> st_anchor s \<noteq> None)) s)) s)"

definition samples_ready ::
  "crypto \<Rightarrow> (u64 \<Rightarrow> bool) \<Rightarrow> u8 list option \<Rightarrow> audio_stream \<Rightarrow> audio_stream \<times> (proto_error + unit)" where
  "samples_ready cy sent bytes s =
     (case st_microphone s of
        None \<Rightarrow> (s, Inr ())
      | Some m \<Rightarrow>
          (case bytes of
             None \<Rightarrow> (s, Inl State)
           | Some bytes \<Rightarrow>
               if am_running m \<and> \<not> fst (snd (st_policy s))
               then (case microphone_send cy sent bytes m of
                       (m, r, packets) \<Rightarrow> (s\<lparr>st_microphone := Some m, st_out := st_out s @ packets\<rparr>, r))
               else (s, Inr ())))"

fun sample_peak :: "u8 list \<Rightarrow> nat" where
  "sample_peak (a # b # rest) = max (nat \<bar>sint (from_be16 a b)\<bar>) (sample_peak rest)"
| "sample_peak _ = 0"

definition data_received ::
  "crypto \<Rightarrow> bool \<Rightarrow> u8 list \<Rightarrow> nat \<Rightarrow> nat \<Rightarrow> bool \<Rightarrow> bool \<Rightarrow> bin_outcome \<Rightarrow> audio_stream \<Rightarrow> audio_stream \<times> (proto_error + unit)" where
  "data_received cy from_peer bytes level now pushed healthy o' s =
     (if \<not> from_peer \<or> length bytes > 4096 then (s, Inr ())
      else case audio_packet cy bytes (st_decoder s) of
        (d, Inl _) \<Rightarrow> (s\<lparr>st_decoder := d\<rparr>, Inr ())
      | (d, Inr (rtp, sample)) \<Rightarrow>
          let s = s\<lparr>st_decoder := d, st_anchor := (if st_anchor s = None then Some sample else st_anchor s)\<rparr> in
          (case playback_push level now pushed healthy rtp sample (st_playback s) of
             (p, Inl e) \<Rightarrow> (s\<lparr>st_playback := p\<rparr>, Inl e)
           | (p, Inr _) \<Rightarrow>
               (case st_policy s of (gain, muted, _) \<Rightarrow>
                  with_microphone (microphone_active o' (audible gain \<and> \<not> muted))
                    (s\<lparr>st_playback := p,
                       st_packets := (if st_packets s = 0xffffffffffffffff then st_packets s else st_packets s + 1),
                       st_peak := (if af_codec (ap_format p) = SignedPcm16 then sample_peak (drop 12 rtp) else st_peak s)\<rparr>))))"

definition audio_turn :: "crypto \<Rightarrow> audio_event \<Rightarrow> audio_stream \<Rightarrow> audio_stream \<times> (proto_error + unit)" where
  "audio_turn cy e =
     (case e of
        PolicyChanged o1 device current o2 \<Rightarrow> policy_changed o1 device current o2
      | Samples sent bytes \<Rightarrow> samples_ready cy sent bytes
      | ControlPacket ok \<Rightarrow> liftS id (if ok then Inr () else Inl Rejected)
      | DataPacket from_peer bytes level now pushed healthy o' \<Rightarrow>
          data_received cy from_peer bytes level now pushed healthy o'
      | SocketFailed \<Rightarrow> failS Rejected)"

text \<open>What the host sets, and the turns of the task until one fails.\<close>

datatype stream_input = SetGain u64 | SetSource "u8 list" | SetMuted bool | Turn audio_event

definition audio_step :: "crypto \<Rightarrow> audio_stream \<Rightarrow> stream_input \<Rightarrow> audio_stream \<times> unit" where
  "audio_step cy s i =
     (case i of
        SetGain v \<Rightarrow> (fst (set_gain v s), ())
      | SetSource src \<Rightarrow> (set_microphone_source src s, ())
      | SetMuted b \<Rightarrow> (set_microphone_muted b s, ())
      | Turn e \<Rightarrow>
          if st_ended s \<noteq> None then (s, ())
          else (case audio_turn cy e s of
                  (s, Inl err) \<Rightarrow> (s\<lparr>st_ended := Some err\<rparr>, ())
                | (s, Inr _) \<Rightarrow> (s, ())))"

section \<open>The replay window against a set of counters\<close>

text \<open>The reference: a counter is fresh when it was not accepted before and is less than 64 behind all that were.\<close>

fun replay_spec :: "u64 set \<Rightarrow> u64 list \<Rightarrow> bool list" where
  "replay_spec seen [] = []"
| "replay_spec seen (c # cs) =
     (let ok = c \<notin> seen \<and> (\<forall>h \<in> seen. unat h < unat c + 64) in
      ok # replay_spec (if ok then insert c seen else seen) cs)"

definition window_of :: "replay \<Rightarrow> u64 set \<Rightarrow> bool" where
  "window_of w seen \<longleftrightarrow>
     (case ry_highest w of
        None \<Rightarrow> seen = {}
      | Some h \<Rightarrow> h \<in> seen \<and> (\<forall>x \<in> seen. unat x \<le> unat h)
          \<and> (\<forall>x. unat x \<le> unat h \<longrightarrow> unat h < unat x + 64 \<longrightarrow> bit (ry_bits w) (unat h - unat x) = (x \<in> seen)))"

lemma unat_minus: "(a :: u64) \<le> b \<Longrightarrow> unat (b - a) = unat b - unat a"
  by (rule unat_sub)

lemma unat_eq: "(unat x = unat y) = (x = (y :: u64))"
  using unsigned_word_eqI [where 'a = nat, of x y] by blast

lemma window_first: "window_of \<lparr>ry_highest = Some c, ry_bits = 1\<rparr> {c}"
  by (auto simp: window_of_def bit_1_iff unat_eq)

lemma window_forward:
  assumes "ry_highest w = Some h" and "window_of w seen" and "h < c"
  shows "window_of \<lparr>ry_highest = Some c,
      ry_bits = (if 64 \<le> c - h then 1 else push_bit (unat (c - h)) (ry_bits w) OR 1)\<rparr> (insert c seen)"
proof -
  let ?b = "if 64 \<le> c - h then 1 else push_bit (unat (c - h)) (ry_bits w) OR 1 :: u64"
  from assms(2) have top: "\<And>x. x \<in> seen \<Longrightarrow> unat x \<le> unat h"
    and bits: "\<And>x. unat x \<le> unat h \<Longrightarrow> unat h < unat x + 64 \<Longrightarrow> bit (ry_bits w) (unat h - unat x) = (x \<in> seen)"
    by (auto simp: window_of_def assms(1))
  have hc: "unat h < unat c" using assms(3) by (simp add: word_less_nat_alt)
  have d: "unat (c - h) = unat c - unat h" using assms(3) by (intro unat_minus) simp
  have far: "(64 \<le> c - h) = (64 \<le> unat c - unat h)" by (simp add: word_le_nat_alt d)
  have "bit ?b (unat c - unat x) = (x \<in> insert c seen)" if x: "unat x \<le> unat c" "unat c < unat x + 64" for x
  proof (cases "x = c")
    case True
    then show ?thesis by (simp add: bit_or_iff bit_1_iff)
  next
    case False
    then have n: "unat c - unat x \<noteq> 0" "unat x < unat c" using x(1) by (auto simp: order_le_less unat_eq)
    show ?thesis
    proof (cases "64 \<le> unat c - unat h")
      case True
      then have "x \<notin> seen" using top [of x] x(2) by force
      then show ?thesis using True False n by (simp add: far bit_1_iff)
    next
      case near: False
      have "bit (push_bit (unat c - unat h) (ry_bits w)) (unat c - unat x) = (x \<in> seen)"
      proof (cases "unat x \<le> unat h")
        case True
        then have "unat c - unat x - (unat c - unat h) = unat h - unat x" "unat c - unat h \<le> unat c - unat x" using hc by auto
        moreover have "unat c - unat x < 64" using x(2) n(2) by linarith
        ultimately show ?thesis using bits [of x] True x(2) hc by (auto simp: bit_push_bit_iff)
      next
        case False
        then have "x \<notin> seen" using top [of x] by blast
        moreover have "\<not> unat c - unat h \<le> unat c - unat x" using False hc x(1) by linarith
        ultimately show ?thesis by (simp add: bit_push_bit_iff)
      qed
      then show ?thesis using near False n by (simp add: far d bit_or_iff bit_1_iff)
    qed
  qed
  moreover have "unat x \<le> unat c" if "x \<in> insert c seen" for x using that top [of x] hc by auto
  ultimately show ?thesis by (auto simp: window_of_def)
qed

lemma window_behind:
  assumes "ry_highest w = Some h" and "window_of w seen" and "c \<le> h"
  shows "(64 \<le> h - c \<or> bit (ry_bits w) (unat (h - c))) = (\<not> (c \<notin> seen \<and> (\<forall>x \<in> seen. unat x < unat c + 64)))"
    and "h - c < 64 \<Longrightarrow> window_of (w\<lparr>ry_bits := ry_bits w OR push_bit (unat (h - c)) 1\<rparr>) (insert c seen)"
proof -
  from assms(2) have hs: "h \<in> seen" and top: "\<And>x. x \<in> seen \<Longrightarrow> unat x \<le> unat h"
    and bits: "\<And>x. unat x \<le> unat h \<Longrightarrow> unat h < unat x + 64 \<Longrightarrow> bit (ry_bits w) (unat h - unat x) = (x \<in> seen)"
    by (auto simp: window_of_def assms(1))
  have ch: "unat c \<le> unat h" using assms(3) by (simp add: word_le_nat_alt)
  have d: "unat (h - c) = unat h - unat c" using assms(3) by (rule unat_minus)
  have far: "(64 \<le> h - c) = (unat c + 64 \<le> unat h)" using ch by (simp add: word_le_nat_alt d) linarith
  show "(64 \<le> h - c \<or> bit (ry_bits w) (unat (h - c))) = (\<not> (c \<notin> seen \<and> (\<forall>x \<in> seen. unat x < unat c + 64)))"
  proof (cases "unat c + 64 \<le> unat h")
    case True
    then show ?thesis using hs by (auto simp: far intro!: bexI [of _ h])
  next
    case False
    then have "\<forall>x \<in> seen. unat x < unat c + 64" using top by fastforce
    then show ?thesis using False bits [OF ch] by (auto simp: far d)
  qed
  assume near: "h - c < 64"
  then have n: "unat h < unat c + 64" using far by (simp add: not_less [symmetric])
  have "bit (ry_bits w OR push_bit (unat h - unat c) 1) (unat h - unat x) = (x \<in> insert c seen)"
    if x: "unat x \<le> unat h" "unat h < unat x + 64" for x
  proof -
    have "(unat h - unat x = unat h - unat c) = (x = c)"
      using x ch by (metis diff_diff_cancel unat_eq)
    moreover have "unat h - unat c < 64" using n ch by linarith
    ultimately show ?thesis using bits [OF x] by (auto simp: bit_or_iff bit_exp_iff)
  qed
  then show "window_of (w\<lparr>ry_bits := ry_bits w OR push_bit (unat (h - c)) 1\<rparr>) (insert c seen)"
    using hs top ch by (auto simp: window_of_def assms(1) d)
qed

lemma replay_accept_step:
  assumes "window_of w seen"
  shows "is_ok (snd (replay_accept c w)) = (c \<notin> seen \<and> (\<forall>h \<in> seen. unat h < unat c + 64))"
    and "window_of (fst (replay_accept c w)) (if is_ok (snd (replay_accept c w)) then insert c seen else seen)"
proof -
  let ?ok = "c \<notin> seen \<and> (\<forall>h \<in> seen. unat h < unat c + 64)"
  let ?w = "replay_accept c w"
  have "is_ok (snd ?w) = ?ok \<and> window_of (fst ?w) (if is_ok (snd ?w) then insert c seen else seen)"
  proof (cases "ry_highest w")
    case None
    then have "seen = {}" using assms by (simp add: window_of_def)
    then show ?thesis using None window_first [of c] by (simp add: replay_accept_def is_ok_iff window_of_def)
  next
    case (Some h)
    show ?thesis
    proof (cases "h < c")
      case True
      then have "?ok" using assms Some by (auto simp: window_of_def word_less_nat_alt)
      then show ?thesis using window_forward [OF Some assms True] True Some
        by (simp add: replay_accept_def is_ok_iff window_of_def)
    next
      case False
      then have ch: "c \<le> h" by simp
      note b = window_behind [OF Some assms ch]
      show ?thesis
      proof (cases "64 \<le> h - c \<or> bit (ry_bits w) (unat (h - c))")
        case True
        then show ?thesis using b(1) False Some assms by (simp add: replay_accept_def is_ok_iff Let_def)
      next
        case fresh: False
        then have "h - c < 64" by (simp add: not_le)
        then show ?thesis using b fresh False Some by (simp add: replay_accept_def is_ok_iff Let_def)
      qed
    qed
  qed
  then show "is_ok (snd (replay_accept c w)) = (c \<notin> seen \<and> (\<forall>h \<in> seen. unat h < unat c + 64))"
    and "window_of (fst (replay_accept c w)) (if is_ok (snd (replay_accept c w)) then insert c seen else seen)"
    by blast+
qed

lemma replay_run: "window_of w seen \<Longrightarrow>
  map is_ok (snd (run_machine (\<lambda>w c. replay_accept c w) w cs)) = replay_spec seen cs"
proof (induction cs arbitrary: w seen)
  case (Cons c cs)
  note st = replay_accept_step [OF Cons.prems, of c]
  show ?case using Cons.IH [OF st(2)] st(1)
    by (simp add: run_machine_Cons Let_def del: run_machine.simps(2))
qed simp

text \<open>C32. The window of 64 bits decides exactly like the set of all counters accepted so far: an audio packet passes
  once, in any order, as long as it is less than 64 behind the newest.\<close>

theorem audio_replay_exact:
  "map is_ok (snd (run_machine (\<lambda>w c. replay_accept c w) replay_new cs)) = replay_spec {} cs"
  by (rule replay_run) (simp add: window_of_def replay_new_def)

section \<open>Packets\<close>

lemma from_to_le64: "from_le64 (to_le64 w) = w"
proof -
  have be: "rev (to_be64 w) ! i = to_be64 w ! (7 - i)" if "i < 8" for i using that by (simp add: rev_nth)
  have hi: "to_be64 w ! i = to_be32 (ucast (drop_bit 32 w)) ! i" if "i < 4" for i
    using that by (simp add: to_be64_def nth_append)
  have lo: "to_be64 w ! (4 + i) = to_be32 (ucast w) ! i" for i
    by (simp add: to_be64_def nth_append)
  have w: "word_cat (ucast (drop_bit 32 w) :: u32) (ucast w :: u32) = w"
    by (rule bit_word_eqI) (auto simp: bit_word_cat_iff bit_simps)
  show ?thesis
    unfolding from_le64_def to_le64_def
    using be [of 0] be [of 1] be [of 2] be [of 3] be [of 4] be [of 5] be [of 6] be [of 7]
      hi [of 0] hi [of 1] hi [of 2] hi [of 3] lo [of 0] lo [of 1] lo [of 2] lo [of 3]
      from_be32_nth [of "ucast (drop_bit 32 w)"] from_be32_nth [of "ucast w"] w
    by (simp add: numeral_eq_Suc)
qed

lemma seal_pcm_parts:
  assumes "aead_correct cy" and "seal_pcm cy key counter sequence timestamp payload = Inr packet"
  shows "\<exists>sealed. packet = ([0x80, 100] @ to_be16 sequence @ to_be32 timestamp @ [0, 0, 0, 0]) @ sealed @ to_le64 counter
    \<and> length sealed = length payload + 16
    \<and> open_sealed cy key ([0, 0, 0, 0] @ to_le64 counter) (to_be32 timestamp @ [0, 0, 0, 0]) sealed = Inr payload
    \<and> payload \<noteq> [] \<and> length payload \<le> 4000"
proof -
  have aad: "take 8 (drop 4 ([0x80, 100] @ to_be16 sequence @ to_be32 timestamp @ [0, 0, 0, 0])) = to_be32 timestamp @ [0, 0, 0, 0]"
    by simp
  from assms(2) obtain sealed where s: "seal cy key ([0, 0, 0, 0] @ to_le64 counter) (to_be32 timestamp @ [0, 0, 0, 0]) payload = Inr sealed"
    and p: "packet = ([0x80, 100] @ to_be16 sequence @ to_be32 timestamp @ [0, 0, 0, 0]) @ sealed @ to_le64 counter"
    and n: "payload \<noteq> []" "length payload \<le> 4000"
    by (auto simp: seal_pcm_def Let_def aad split: if_splits)
  show ?thesis using open_seal [OF assms(1) s] p n by auto
qed

lemma audio_packet_sealed:
  assumes "aead_correct cy" and "seal_pcm cy (ad_key d) counter sequence timestamp payload = Inr packet"
  shows "audio_packet cy packet d =
    (case replay_accept counter (ad_replay d) of
       (w, Inl e) \<Rightarrow> (d\<lparr>ad_replay := w\<rparr>, Inl e)
     | (w, Inr _) \<Rightarrow> (d\<lparr>ad_replay := w\<rparr>,
         Inr ([0x80, 100] @ to_be16 sequence @ to_be32 timestamp @ [0, 0, 0, 0] @ payload, timestamp)))"
proof -
  let ?h = "[0x80, 100] @ to_be16 sequence @ to_be32 timestamp @ [0, 0, 0, 0]"
  obtain sealed where p: "packet = ?h @ sealed @ to_le64 counter" and l: "length sealed = length payload + 16"
    and o: "open_sealed cy (ad_key d) ([0, 0, 0, 0] @ to_le64 counter) (to_be32 timestamp @ [0, 0, 0, 0]) sealed = Inr payload"
    and n: "payload \<noteq> []" "length payload \<le> 4000"
    using seal_pcm_parts [OF assms] by blast
  have h: "length ?h = 12" by simp
  have len: "length packet = length payload + 36" using p l by simp
  have "1 \<le> length payload" using n(1) by (cases payload) auto
  then have bounds: "36 \<le> length packet" "length packet \<le> 4096" using len n(2) by linarith+
  have first: "packet ! 0 = 0x80" using p by simp
  have "length packet - 8 = length (?h @ sealed)" "packet = (?h @ sealed) @ to_le64 counter" using p l len by simp_all
  then have cut: "drop (length packet - 8) packet = to_le64 counter" by (metis append_eq_conv_conj)
  have aad: "take 8 (drop 4 packet) = to_be32 timestamp @ [0, 0, 0, 0]" using p by simp
  have mid: "take (length packet - 8 - 12) (drop 12 packet) = sealed" using p l by simp
  have head: "take 12 packet = ?h" using p by simp
  have "packet ! (4 + i) = to_be32 timestamp ! i" if "i < 4" for i
    using that p by (auto simp: nth_append less_Suc_eq numeral_eq_Suc)
  from this [of 0] this [of 1] this [of 2] this [of 3]
  have ts: "from_be32 (packet ! 4) (packet ! 5) (packet ! 6) (packet ! 7) = timestamp"
    using from_be32_nth [of timestamp] by simp
  show ?thesis
    unfolding audio_packet_def Let_def cut aad mid o head ts from_to_le64
    using bounds first by (simp cong: sum.case_cong split: prod.split sum.split)
qed

text \<open>A sealed microphone packet is opened by the other side: under the same key, a counter not seen before yields
  exactly the header with the samples, and the sample time of the header; a repeated counter yields Error::Sequence.\<close>

theorem audio_packet_round_trip:
  assumes "aead_correct cy" and "seal_pcm cy (ad_key d) counter sequence timestamp payload = Inr packet"
    and "window_of (ad_replay d) seen"
  shows "snd (audio_packet cy packet d) =
    (if counter \<notin> seen \<and> (\<forall>h \<in> seen. unat h < unat counter + 64)
     then Inr ([0x80, 100] @ to_be16 sequence @ to_be32 timestamp @ [0, 0, 0, 0] @ payload, timestamp)
     else Inl Sequence)"
proof -
  have "snd (replay_accept counter w) = Inr () \<or> snd (replay_accept counter w) = Inl Sequence" for w
    by (auto simp: replay_accept_def Let_def split: option.splits)
  from this [of "ad_replay d"] show ?thesis
    using replay_accept_step(1) [OF assms(3), of counter]
    by (cases "replay_accept counter (ad_replay d)") (auto simp: audio_packet_sealed [OF assms(1,2)] split: sum.splits)
qed

theorem audio_packet_round_trip_witness:
  "seal_pcm plain_crypto [1] 5 0 960 [0, 1] = Inr ([0x80, 100] @ to_be16 0 @ to_be32 960 @ [0, 0, 0, 0] @ [0, 1] @ replicate 16 0 @ to_le64 5)
   \<and> snd (audio_packet plain_crypto ([0x80, 100] @ to_be16 0 @ to_be32 960 @ [0, 0, 0, 0] @ [0, 1] @ replicate 16 0 @ to_le64 5)
       \<lparr>ad_key = [1], ad_replay = replay_new\<rparr>)
     = Inr ([0x80, 100] @ to_be16 0 @ to_be32 960 @ [0, 0, 0, 0] @ [0, 1], 960)"
proof -
  let ?d = "\<lparr>ad_key = [1], ad_replay = replay_new\<rparr> :: audio_decoder"
  have s: "seal_pcm plain_crypto (ad_key ?d) 5 0 960 [0, 1]
    = Inr ([0x80, 100] @ to_be16 0 @ to_be32 960 @ [0, 0, 0, 0] @ [0, 1] @ replicate 16 0 @ to_le64 5)"
    by (simp add: seal_pcm_def seal_def plain_crypto_def from_openssl_def)
  have w: "window_of (ad_replay ?d) {}" by (simp add: window_of_def replay_new_def)
  show ?thesis
    using audio_packet_round_trip [OF plain_crypto_aead(1) s w] s by simp
qed

section \<open>What the microphone sends\<close>

text \<open>\<open>microphone_stream\<close>: the packets that left are the samples cut into pieces of the packet size, sealed under
  consecutive counters, sequence numbers and timestamps; the rest waits.\<close>

definition sealed_piece :: "crypto \<Rightarrow> audio_microphone \<Rightarrow> u8 list \<Rightarrow> nat \<Rightarrow> proto_error + u8 list" where
  "sealed_piece cy m samples i =
     seal_pcm cy (am_key m) (am_counter m + of_nat i) (am_sequence m + of_nat i) (am_timestamp m + of_nat i * am_frames m)
       (take (am_packet_bytes m) (drop (i * am_packet_bytes m) samples))"

lemma microphone_packets_pieces:
  "microphone_packets cy sent m = (m', r, packets) \<Longrightarrow>
     (\<forall>i < length packets. sealed_piece cy m (am_pending m) i = Inr (packets ! i))
   \<and> (r = Inr () \<longrightarrow> am_packet_bytes m \<noteq> 0 \<longrightarrow>
        m' = m\<lparr>am_pending := drop (length packets * am_packet_bytes m) (am_pending m),
               am_counter := am_counter m + of_nat (length packets), am_sequence := am_sequence m + of_nat (length packets),
               am_timestamp := am_timestamp m + of_nat (length packets) * am_frames m\<rparr>
      \<and> length packets * am_packet_bytes m \<le> length (am_pending m) \<and> length (am_pending m') < am_packet_bytes m)"
proof (induction cy sent m arbitrary: m' r packets rule: microphone_packets.induct)
  case (1 cy sent m)
  show ?case
  proof (cases "am_packet_bytes m = 0 \<or> length (am_pending m) < am_packet_bytes m")
    case True
    with "1.prems" show ?thesis by (auto simp: microphone_packets.simps [of _ _ m])
  next
    case False
    let ?n = "am_packet_bytes m"
    let ?m1 = "m\<lparr>am_pending := drop ?n (am_pending m)\<rparr>"
    let ?m2 = "?m1\<lparr>am_counter := am_counter ?m1 + 1, am_sequence := am_sequence ?m1 + 1, am_timestamp := am_timestamp ?m1 + am_frames ?m1\<rparr>"
    let ?s = "seal_pcm cy (am_key m) (am_counter m) (am_sequence m) (am_timestamp m) (take ?n (am_pending m))"
    show ?thesis
    proof (cases "\<exists>packet. ?s = Inr packet \<and> am_counter m \<noteq> 0xffffffffffffffff \<and> sent (am_counter m)")
      case no: False
      then have "packets = [] \<and> r \<noteq> Inr ()"
        using "1.prems" False by (auto simp: microphone_packets.simps [of _ _ m] Let_def split: sum.splits if_splits)
      then show ?thesis by simp
    next
      case True
      then obtain packet where go: "?s = Inr packet" "am_counter m \<noteq> 0xffffffffffffffff" "sent (am_counter m)" by blast
      obtain ps where rec: "microphone_packets cy sent ?m2 = (m', r, ps)" and ps: "packets = packet # ps"
        using "1.prems" False go by (auto simp: microphone_packets.simps [of _ _ m] Let_def split: prod.splits)
      have ih: "(\<forall>i < length ps. sealed_piece cy ?m2 (am_pending ?m2) i = Inr (ps ! i))
        \<and> (r = Inr () \<longrightarrow> am_packet_bytes ?m2 \<noteq> 0 \<longrightarrow>
             m' = ?m2\<lparr>am_pending := drop (length ps * am_packet_bytes ?m2) (am_pending ?m2),
               am_counter := am_counter ?m2 + of_nat (length ps), am_sequence := am_sequence ?m2 + of_nat (length ps),
               am_timestamp := am_timestamp ?m2 + of_nat (length ps) * am_frames ?m2\<rparr>
           \<and> length ps * am_packet_bytes ?m2 \<le> length (am_pending ?m2) \<and> length (am_pending m') < am_packet_bytes ?m2)"
        by (rule "1.IH" [OF False refl refl _ _ refl _ rec]) (use go in simp_all)
      have piece: "sealed_piece cy m (am_pending m) (Suc i) = sealed_piece cy ?m2 (am_pending ?m2) i" for i
        by (simp add: sealed_piece_def algebra_simps)
      have "sealed_piece cy m (am_pending m) 0 = Inr packet" using go(1) by (simp add: sealed_piece_def)
      then have "\<forall>i < length packets. sealed_piece cy m (am_pending m) i = Inr (packets ! i)"
        using ih piece by (auto simp: ps less_Suc_eq_0_disj)
      then show ?thesis using ih False by (auto simp: ps algebra_simps)
    qed
  qed
qed

lemma microphone_pieces_all:
  assumes "microphone_send cy sent bytes m = (m', Inr (), packets)" and "am_packet_bytes m \<noteq> 0"
  shows "(\<forall>i < length packets. sealed_piece cy m (am_pending m @ bytes) i = Inr (packets ! i))
    \<and> am_pending m' = drop (length packets * am_packet_bytes m) (am_pending m @ bytes)
    \<and> length packets * am_packet_bytes m \<le> length (am_pending m @ bytes) \<and> length (am_pending m') < am_packet_bytes m
    \<and> am_counter m' = am_counter m + of_nat (length packets)"
proof -
  let ?m = "m\<lparr>am_pending := am_pending m @ bytes\<rparr>"
  have "microphone_packets cy sent ?m = (m', Inr (), packets)"
    using assms(1) by (auto simp: microphone_send_def split: if_splits)
  from microphone_packets_pieces [OF this] assms(2)
  have "\<forall>i < length packets. sealed_piece cy ?m (am_pending ?m) i = Inr (packets ! i)"
    and "m' = ?m\<lparr>am_pending := drop (length packets * am_packet_bytes ?m) (am_pending ?m),
               am_counter := am_counter ?m + of_nat (length packets), am_sequence := am_sequence ?m + of_nat (length packets),
               am_timestamp := am_timestamp ?m + of_nat (length packets) * am_frames ?m\<rparr>"
    and "length packets * am_packet_bytes ?m \<le> length (am_pending ?m)" "length (am_pending m') < am_packet_bytes ?m"
    by auto
  then show ?thesis by (auto simp: sealed_piece_def simp del: take_append drop_append length_append)
qed

text \<open>No captured sample is lost, repeated or reordered: when a batch was sent, the packets are exactly the waiting
  and new samples cut into packets of the agreed size, each sealed under the next counter, sequence number and
  timestamp, and less than a packet waits for the next batch.\<close>

theorem microphone_stream:
  assumes "microphone_send cy sent bytes m = (m', Inr (), packets)" and "am_packet_bytes m \<noteq> 0"
  shows "(\<forall>i < length packets. sealed_piece cy m (am_pending m @ bytes) i = Inr (packets ! i))
    \<and> am_pending m' = drop (length packets * am_packet_bytes m) (am_pending m @ bytes)
    \<and> length packets * am_packet_bytes m \<le> length (am_pending m @ bytes) \<and> length (am_pending m') < am_packet_bytes m
    \<and> am_counter m' = am_counter m + of_nat (length packets)"
  by (rule microphone_pieces_all [OF assms])

section \<open>When the microphone is heard\<close>

definition audio_after :: "crypto \<Rightarrow> audio_stream \<Rightarrow> stream_input list \<Rightarrow> audio_stream" where
  "audio_after cy s is = fst (run_machine (audio_step cy) s is)"

definition listening :: "audio_stream \<Rightarrow> bool" where
  "listening s \<longleftrightarrow> (\<exists>m. st_microphone s = Some m \<and> am_running m)"

text \<open>\<open>steady b s s'\<close>: a step that neither sends nor changes policy and anchor, and starts the microphone only if \<open>b\<close>.\<close>

definition steady :: "bool \<Rightarrow> audio_stream \<Rightarrow> audio_stream \<Rightarrow> bool" where
  "steady b s s' \<longleftrightarrow> st_out s' = st_out s \<and> st_anchor s' = st_anchor s \<and> st_policy s' = st_policy s
     \<and> st_decoder s' = st_decoder s \<and> (listening s' \<longrightarrow> listening s \<or> b)"

lemma active_running: "am_running (fst (microphone_active o' a m)) \<Longrightarrow> am_running m \<or> a"
  by (auto simp: microphone_active_def Let_def split: if_splits)

lemma select_running: "am_running (fst (microphone_select o' d c m)) \<Longrightarrow> am_running m"
  using active_running [of o' False m] by (auto simp: microphone_select_def split: if_splits)

lemma with_microphone_steady:
  "(\<And>m. am_running (fst (f m)) \<Longrightarrow> am_running m \<or> b) \<Longrightarrow> steady b s (fst (with_microphone f s))"
  by (auto simp: with_microphone_def steady_def listening_def split: option.split prod.split)

lemma steady_refl: "steady b s s"
  by (simp add: steady_def)

lemma steady_trans: "steady False s s1 \<Longrightarrow> steady b s1 s2 \<Longrightarrow> steady b s s2"
  by (auto simp: steady_def)

lemma policy_changed_steady: "steady (st_anchor s \<noteq> None) s (fst (policy_changed o1 device current o2 s))"
proof -
  obtain gain muted source where p: "st_policy s = (gain, muted, source)" by (cases "st_policy s")
  let ?sel = "if source = None then retS () else with_microphone (microphone_select o1 device current)"
  let ?act = "\<lambda>s. with_microphone (microphone_active o2 (audible gain \<and> \<not> muted \<and> st_anchor s \<noteq> None)) s"
  obtain s1 r where s1: "?sel s = (s1, r)" by fastforce
  have st1: "steady False s s1"
    using with_microphone_steady [where f = "microphone_select o1 device current" and b = False and s = s] select_running s1
    by (auto simp: steady_refl split: if_splits)
  have a: "st_anchor s1 = st_anchor s" using st1 by (simp add: steady_def)
  have st2: "steady (st_anchor s \<noteq> None) s1 (fst (?act s1))"
    unfolding a by (rule with_microphone_steady) (use active_running in fastforce)
  have "fst (policy_changed o1 device current o2 s) \<in> {s1, fst (?act s1)}"
    using s1 by (auto simp: policy_changed_def p bindS_def liftS_def split: sum.splits)
  moreover have "steady (st_anchor s \<noteq> None) s s1" using st1 by (auto simp: steady_def)
  ultimately show ?thesis using steady_trans [OF st1 st2] by auto
qed

text \<open>Every input: what it sends, and what can start the microphone or set the anchor.\<close>

definition authentic_packet :: "crypto \<Rightarrow> audio_decoder \<Rightarrow> stream_input \<Rightarrow> bool" where
  "authentic_packet cy d i \<longleftrightarrow>
     (\<exists>bytes level now pushed healthy o'. i = Turn (DataPacket True bytes level now pushed healthy o')
        \<and> is_ok (snd (audio_packet cy bytes d)))"

lemma data_received_anchor:
  assumes "data_received cy from_peer bytes level now pushed healthy o' s = (s', r)"
  shows "st_out s' = st_out s \<and> st_policy s' = st_policy s
    \<and> (st_anchor s' = st_anchor s \<or> from_peer \<and> is_ok (snd (audio_packet cy bytes (st_decoder s))))
    \<and> (listening s' \<longrightarrow> listening s \<or> st_anchor s' \<noteq> None) \<and> (st_anchor s \<noteq> None \<longrightarrow> st_anchor s' \<noteq> None)"
proof (cases "\<not> from_peer \<or> length bytes > 4096")
  case True
  then show ?thesis using assms by (auto simp: data_received_def)
next
  case go: False
  obtain d a where d: "audio_packet cy bytes (st_decoder s) = (d, a)" by fastforce
  show ?thesis
  proof (cases a)
    case (Inl e)
    then show ?thesis using assms go d by (auto simp: data_received_def listening_def)
  next
    case (Inr rs)
    obtain rtp sample where rs: "rs = (rtp, sample)" by (cases rs)
    let ?s = "s\<lparr>st_decoder := d, st_anchor := (if st_anchor s = None then Some sample else st_anchor s)\<rparr>"
    obtain p q where p: "playback_push level now pushed healthy rtp sample (st_playback ?s) = (p, q)" by fastforce
    have ok: "is_ok (snd (audio_packet cy bytes (st_decoder s)))" using d Inr by simp
    have anchored: "st_anchor ?s \<noteq> None" by simp
    show ?thesis
    proof (cases q)
      case (Inl e)
      then show ?thesis using assms go d Inr rs p ok by (auto simp: data_received_def Let_def listening_def)
    next
      case q: (Inr x)
      obtain gain muted source where pol: "st_policy s = (gain, muted, source)" by (cases "st_policy s")
      let ?s2 = "?s\<lparr>st_playback := p,
         st_packets := (if st_packets ?s = 0xffffffffffffffff then st_packets ?s else st_packets ?s + 1),
         st_peak := (if af_codec (ap_format p) = SignedPcm16 then sample_peak (drop 12 rtp) else st_peak ?s)\<rparr>"
      have "s' = fst (with_microphone (microphone_active o' (audible gain \<and> \<not> muted)) ?s2)"
        using assms go d Inr rs p q pol by (simp add: data_received_def Let_def)
      moreover have "steady True ?s2 (fst (with_microphone (microphone_active o' (audible gain \<and> \<not> muted)) ?s2))"
        by (rule with_microphone_steady) simp
      ultimately have "steady True ?s2 s'" by simp
      then have e: "st_out s' = st_out ?s2" "st_policy s' = st_policy ?s2" "st_anchor s' = st_anchor ?s2"
        by (simp_all add: steady_def)
      have "st_anchor ?s2 \<noteq> None" by simp
      then show ?thesis using e ok go by simp
    qed
  qed
qed

lemma samples_ready_out:
  assumes "samples_ready cy sent bytes s = (s', r)"
  shows "st_policy s' = st_policy s \<and> st_anchor s' = st_anchor s \<and> (listening s' \<longrightarrow> listening s)
    \<and> (st_out s' = st_out s \<or> listening s \<and> \<not> fst (snd (st_policy s)))"
proof -
  have run: "am_running (fst (microphone_send cy sent b m)) = am_running m" for b m
  proof -
    have "am_running (fst (microphone_packets cy sent m)) = am_running m" for m
      by (induction cy sent m rule: microphone_packets.induct)
        (subst microphone_packets.simps, auto simp: Let_def split: sum.split prod.split)
    then show ?thesis by (simp add: microphone_send_def)
  qed
  show ?thesis
    using assms run
    by (auto simp: samples_ready_def listening_def split: option.splits if_splits prod.splits)
qed

lemma audio_step_effect:
  assumes "audio_step cy s i = (s', u)"
  shows "(st_anchor s' = st_anchor s \<or> authentic_packet cy (st_decoder s) i)
    \<and> (st_anchor s \<noteq> None \<longrightarrow> st_anchor s' \<noteq> None) \<and> (listening s' \<longrightarrow> listening s \<or> st_anchor s' \<noteq> None)
    \<and> (st_out s' = st_out s \<or> listening s \<and> \<not> fst (snd (st_policy s)))"
proof (cases i)
  case (SetGain v)
  then show ?thesis using assms by (auto simp: audio_step_def set_gain_def listening_def split: prod.splits if_splits)
next
  case (SetSource src)
  then show ?thesis using assms by (auto simp: audio_step_def set_microphone_source_def listening_def split: prod.splits)
next
  case (SetMuted b)
  then show ?thesis using assms by (auto simp: audio_step_def set_microphone_muted_def listening_def split: prod.splits)
next
  case (Turn e)
  show ?thesis
  proof (cases "st_ended s = None")
    case False
    then show ?thesis using assms Turn by (auto simp: audio_step_def)
  next
    case True
    obtain s1 r where t: "audio_turn cy e s = (s1, r)" by fastforce
    have s': "st_anchor s' = st_anchor s1" "listening s' = listening s1" "st_out s' = st_out s1"
      using assms Turn True t by (auto simp: audio_step_def listening_def split: sum.splits)
    show ?thesis unfolding s'
    proof (cases e)
      case (PolicyChanged o1 device current o2)
      then have "fst (policy_changed o1 device current o2 s) = s1" using t by (simp add: audio_turn_def)
      then have "steady (st_anchor s \<noteq> None) s s1" using policy_changed_steady by metis
      then show "(st_anchor s1 = st_anchor s \<or> authentic_packet cy (st_decoder s) i) \<and> (st_anchor s \<noteq> None \<longrightarrow> st_anchor s1 \<noteq> None)
        \<and> (listening s1 \<longrightarrow> listening s \<or> st_anchor s1 \<noteq> None) \<and> (st_out s1 = st_out s \<or> listening s \<and> \<not> fst (snd (st_policy s)))"
        by (auto simp: steady_def)
    next
      case (Samples sent bytes)
      then show "(st_anchor s1 = st_anchor s \<or> authentic_packet cy (st_decoder s) i) \<and> (st_anchor s \<noteq> None \<longrightarrow> st_anchor s1 \<noteq> None)
        \<and> (listening s1 \<longrightarrow> listening s \<or> st_anchor s1 \<noteq> None) \<and> (st_out s1 = st_out s \<or> listening s \<and> \<not> fst (snd (st_policy s)))"
        using t samples_ready_out [of cy sent bytes s s1 r] by (auto simp: audio_turn_def)
    next
      case (DataPacket from_peer bytes level now pushed healthy o')
      have "data_received cy from_peer bytes level now pushed healthy o' s = (s1, r)"
        using t by (simp add: audio_turn_def DataPacket)
      from data_received_anchor [OF this]
      show "(st_anchor s1 = st_anchor s \<or> authentic_packet cy (st_decoder s) i) \<and> (st_anchor s \<noteq> None \<longrightarrow> st_anchor s1 \<noteq> None)
        \<and> (listening s1 \<longrightarrow> listening s \<or> st_anchor s1 \<noteq> None) \<and> (st_out s1 = st_out s \<or> listening s \<and> \<not> fst (snd (st_policy s)))"
        by (auto simp: authentic_packet_def Turn DataPacket)
    qed (use t in \<open>auto simp: audio_turn_def liftS_def failS_def\<close>)
  qed
qed

lemma audio_after_snoc: "audio_after cy s (xs @ [i]) = fst (audio_step cy (audio_after cy s xs) i)"
  by (simp add: audio_after_def run_machine_append run_machine_Cons split_beta del: run_machine.simps(2))

lemma audio_after_listening:
  assumes "\<not> listening s"
  shows "listening (audio_after cy s xs) \<Longrightarrow> st_anchor (audio_after cy s xs) \<noteq> None"
proof (induction xs rule: rev_induct)
  case Nil
  then show ?case using assms by (simp add: audio_after_def)
next
  case (snoc i xs)
  obtain s' where "audio_step cy (audio_after cy s xs) i = (s', ())" by (cases "audio_step cy (audio_after cy s xs) i") simp
  with audio_step_effect [OF this] snoc show ?case by (auto simp: audio_after_snoc)
qed

lemma audio_after_anchor:
  assumes "st_anchor s = None" and "st_anchor (audio_after cy s xs) \<noteq> None"
  shows "\<exists>ys i zs. xs = ys @ i # zs \<and> authentic_packet cy (st_decoder (audio_after cy s ys)) i"
  using assms(2)
proof (induction xs rule: rev_induct)
  case Nil
  then show ?case using assms(1) by (simp add: audio_after_def)
next
  case (snoc i xs)
  obtain s' where st: "audio_step cy (audio_after cy s xs) i = (s', ())" by (cases "audio_step cy (audio_after cy s xs) i") simp
  show ?case
  proof (cases "st_anchor (audio_after cy s xs) = None")
    case True
    then have "authentic_packet cy (st_decoder (audio_after cy s xs)) i"
      using audio_step_effect [OF st] snoc.prems st by (auto simp: audio_after_snoc)
    then show ?thesis by (intro exI [of _ xs] exI [of _ i] exI [of _ "[]"]) simp
  next
    case False
    then obtain ys j zs where "xs = ys @ j # zs" "authentic_packet cy (st_decoder (audio_after cy s ys)) j"
      using snoc.IH by blast
    then show ?thesis by (intro exI [of _ ys] exI [of _ j] exI [of _ "zs @ [i]"]) simp
  qed
qed

text \<open>C15. The microphone is heard only when it may be: from a stream that starts silent, samples leave only while the
  host has not muted them, and only after a packet of the phone was authenticated.\<close>

theorem microphone_private:
  assumes "\<not> listening s" and "st_anchor s = None"
    and "st_out (audio_after cy s (xs @ [i])) \<noteq> st_out (audio_after cy s xs)"
  shows "\<not> fst (snd (st_policy (audio_after cy s xs)))
    \<and> (\<exists>ys p zs. xs = ys @ p # zs \<and> authentic_packet cy (st_decoder (audio_after cy s ys)) p)"
proof -
  obtain s' where st: "audio_step cy (audio_after cy s xs) i = (s', ())" by (cases "audio_step cy (audio_after cy s xs) i") simp
  have "listening (audio_after cy s xs) \<and> \<not> fst (snd (st_policy (audio_after cy s xs)))"
    using audio_step_effect [OF st] assms(3) st by (simp add: audio_after_snoc)
  then show ?thesis
    using audio_after_listening [OF assms(1)] audio_after_anchor [OF assms(2)] by blast
qed

text \<open>A duplex stream of one channel whose packets hold one sample.\<close>

definition example_microphone :: audio_microphone where
  "example_microphone = \<lparr>am_pending = [], am_packet_bytes = 2, am_frames = 1, am_key = [1], am_counter = 0,
     am_sequence = 0, am_timestamp = 0, am_running = False, am_lease = False\<rparr>"

definition example_stream :: audio_stream where
  "example_stream = \<lparr>st_decoder = \<lparr>ad_key = [1], ad_replay = replay_new\<rparr>,
     st_playback = \<lparr>ap_format = \<lparr>af_codec = SignedPcm16, af_sample_rate = 16000, af_channels = 1\<rparr>,
       ap_first = None, ap_started = None, ap_payload_type = 100, ap_scheduled = 0\<rparr>,
     st_microphone = Some example_microphone, st_policy = (0x3ff0000000000000, False, None), st_anchor = None,
     st_packets = 0, st_peak = 0, st_ended = None, st_out = []\<rparr>"

definition example_packet :: "u8 list" where
  "example_packet = 0x80 # replicate 11 0 @ [0, 1] @ replicate 24 0"

definition example_audio :: "stream_input list" where
  "example_audio = [Turn (DataPacket True example_packet 0 0 True True \<lparr>bo_lease = True, bo_clock = True, bo_base = True, bo_state = True, bo_null = True\<rparr>)]"

lemma example_opened: "audio_packet plain_crypto example_packet (st_decoder example_stream)
  = (\<lparr>ad_key = [1], ad_replay = \<lparr>ry_highest = Some 0, ry_bits = 1\<rparr>\<rparr>, Inr (0x80 # replicate 11 0 @ [0, 1], 0))"
  by (simp add: audio_packet_def example_packet_def example_stream_def plain_crypto_def open_sealed_def from_openssl_def
      replay_accept_def replay_new_def from_le64_def from_be32_def from_be16_def numeral_eq_Suc)

lemma example_started: "audio_after plain_crypto example_stream example_audio = example_stream
  \<lparr>st_decoder := \<lparr>ad_key = [1], ad_replay = \<lparr>ry_highest = Some 0, ry_bits = 1\<rparr>\<rparr>, st_anchor := Some 0,
   st_playback := (st_playback example_stream)\<lparr>ap_first := Some 0, ap_started := Some 0\<rparr>,
   st_microphone := Some (example_microphone\<lparr>am_running := True, am_lease := True\<rparr>), st_packets := 1, st_peak := 1\<rparr>"
proof -
  have "length example_packet = 38" by (simp add: example_packet_def)
  then show ?thesis
    using example_opened
    by (simp add: audio_after_def example_audio_def audio_step_def audio_turn_def data_received_def
      playback_push_def audio_framed_def pcm_timing_def with_microphone_def microphone_active_def Let_def audible_def
      example_stream_def example_microphone_def from_be16_def word_cat_eq)
qed

lemma example_heard: "st_out (audio_after plain_crypto example_stream (example_audio @ [Turn (Samples (\<lambda>_. True) (Some [0, 5]))])) \<noteq> []"
  unfolding audio_after_snoc example_started
  by (simp add: audio_step_def audio_turn_def samples_ready_def example_stream_def example_microphone_def microphone_send_def
      microphone_packets.simps Let_def seal_pcm_def seal_def plain_crypto_def from_openssl_def)

theorem microphone_private_witness:
  "\<not> fst (snd (st_policy (audio_after plain_crypto example_stream example_audio)))
   \<and> (\<exists>ys p zs. example_audio = ys @ p # zs
        \<and> authentic_packet plain_crypto (st_decoder (audio_after plain_crypto example_stream ys)) p)"
proof (rule microphone_private)
  show "\<not> listening example_stream" "st_anchor example_stream = None"
    by (simp_all add: listening_def example_stream_def example_microphone_def)
  have "st_out (audio_after plain_crypto example_stream example_audio) = []"
    unfolding example_started by (simp add: example_stream_def)
  then show "st_out (audio_after plain_crypto example_stream (example_audio @ [Turn (Samples (\<lambda>_. True) (Some [0, 5]))]))
     \<noteq> st_out (audio_after plain_crypto example_stream example_audio)"
    using example_heard by simp
qed

theorem microphone_stream_witness:
  "\<exists>m' packet. microphone_send plain_crypto (\<lambda>_. True) [0, 5, 7] example_microphone = (m', Inr (), [packet])
     \<and> sealed_piece plain_crypto example_microphone [0, 5, 7] 0 = Inr packet \<and> am_pending m' = [7]"
proof -
  have "\<exists>m' packet. microphone_send plain_crypto (\<lambda>_. True) [0, 5, 7] example_microphone = (m', Inr (), [packet])"
    by (simp add: microphone_send_def microphone_packets.simps Let_def seal_pcm_def seal_def plain_crypto_def
        from_openssl_def example_microphone_def)
  then obtain m' packet where s: "microphone_send plain_crypto (\<lambda>_. True) [0, 5, 7] example_microphone = (m', Inr (), [packet])"
    by blast
  have "am_packet_bytes example_microphone \<noteq> 0" by (simp add: example_microphone_def)
  from microphone_stream [OF s this] s show ?thesis by (auto simp: example_microphone_def)
qed

end
