(* ===== verification/Plist.thy ===== *)
theory Plist
  imports Text "HOL-Library.AList"
begin

text \<open>
  Property lists as the sources use them (\<open>native/carplay/src/protocol/usbmux.rs\<close>, \<open>receiver.rs\<close>): values,
  dictionaries in insertion order, and the bounded reading of \<open>decode\<close>. The parser and the writers are the
  \<open>plist\<close> crate, a parameter: the events it reads, the value it builds from events and the bytes it writes.
\<close>

section \<open>Values\<close>

datatype plist =
  PDict "(u8 list \<times> plist) list" | PArray "plist list" | PString "u8 list" | PData "u8 list" | PInt int | PBool bool
| PReal u64

type_synonym dictionary = "(u8 list \<times> plist) list"

definition dict :: "(string \<times> plist) list \<Rightarrow> plist" where
  "dict kvs = PDict (fold (\<lambda>(k, v). AList.update (str k) v) kvs [])"

definition dictionary :: "(string \<times> plist) list \<Rightarrow> dictionary" where
  "dictionary entries = fold (\<lambda>(k, v). AList.update (str k) v) entries []"

definition plist_number :: "u64 \<Rightarrow> plist" where
  "plist_number v = PInt (uint v)"

definition plist_text :: "string \<Rightarrow> plist" where
  "plist_text s = PString (str s)"

definition dget :: "string \<Rightarrow> dictionary \<Rightarrow> plist option" where
  "dget key d = map_of d (str key)"

fun as_dictionary :: "plist \<Rightarrow> dictionary option" where
  "as_dictionary (PDict d) = Some d"
| "as_dictionary _ = None"

fun as_array :: "plist \<Rightarrow> plist list option" where
  "as_array (PArray a) = Some a"
| "as_array _ = None"

fun as_string :: "plist \<Rightarrow> u8 list option" where
  "as_string (PString s) = Some s"
| "as_string _ = None"

fun as_data :: "plist \<Rightarrow> u8 list option" where
  "as_data (PData b) = Some b"
| "as_data _ = None"

fun as_boolean :: "plist \<Rightarrow> bool option" where
  "as_boolean (PBool b) = Some b"
| "as_boolean _ = None"

fun as_real :: "plist \<Rightarrow> u64 option" where
  "as_real (PReal r) = Some r"
| "as_real _ = None"

fun as_unsigned_integer :: "plist \<Rightarrow> u64 option" where
  "as_unsigned_integer (PInt i) = (if 0 \<le> i \<and> i < 2 ^ 64 then Some (of_int i) else None)"
| "as_unsigned_integer _ = None"

fun as_signed_integer :: "plist \<Rightarrow> int option" where
  "as_signed_integer (PInt i) = (if - (2 ^ 63) \<le> i \<and> i < 2 ^ 63 then Some i else None)"
| "as_signed_integer _ = None"

section \<open>The library\<close>

datatype plist_event =
    StartArray "nat option" | StartDictionary "nat option" | EndCollection
  | EvData "u8 list" | EvString "u8 list" | EvScalar plist

text \<open>\<open>None\<close> in the list of events is a parse error.\<close>

record plist_lib =
  pl_read :: "u8 list \<Rightarrow> plist_event option list"
  pl_build :: "plist_event list \<Rightarrow> plist option"
  pl_xml :: "plist \<Rightarrow> u8 list option"
  pl_binary :: "plist \<Rightarrow> u8 list option"

section \<open>Bounded reading\<close>

datatype usb_error =
    Unavailable | Timeout | Bounds | Malformed | Untrusted | InvalidPairRecord | InvalidHostCertificate
  | InvalidHostKey | InvalidDeviceCertificate | HostKeyMismatch | SessionNotEncrypted | NotIPhone
  | ServiceUnavailable | Tls

definition MAX_PLIST :: nat where "MAX_PLIST = 256 * 1024"

fun event_payload :: "plist_event \<Rightarrow> nat" where
  "event_payload (EvData v) = length v"
| "event_payload (EvString v) = length v"
| "event_payload _ = 0"

text \<open>The match of the loop: the depth after an event.\<close>

fun event_depth :: "plist_event \<Rightarrow> nat \<Rightarrow> usb_error + nat" where
  "event_depth (StartArray count) depth =
     (if depth + 1 > 16 \<or> (\<exists>v. count = Some v \<and> v > 4096) then Inl Bounds else Inr (depth + 1))"
| "event_depth (StartDictionary count) depth =
     (if depth + 1 > 16 \<or> (\<exists>v. count = Some v \<and> v > 4096) then Inl Bounds else Inr (depth + 1))"
| "event_depth EndCollection depth = (if depth = 0 then Inl Malformed else Inr (depth - 1))"
| "event_depth (EvData bytes) depth = (if length bytes > MAX_PLIST then Inl Bounds else Inr depth)"
| "event_depth (EvString text) depth = (if length text > 8192 then Inl Bounds else Inr depth)"
| "event_depth (EvScalar v) depth = Inr depth"

text \<open>\<open>checked_add\<close> cannot fail: the expanded size is bounded in every round.\<close>

fun decode_events :: "plist_event option list \<Rightarrow> nat \<Rightarrow> nat \<Rightarrow> plist_event list \<Rightarrow> usb_error + (plist_event list \<times> nat)" where
  "decode_events [] depth expanded events = Inr (events, depth)"
| "decode_events (None # rest) depth expanded events = Inl Malformed"
| "decode_events (Some e # rest) depth expanded events =
     (let expanded = expanded + (event_payload e + 64) in
      if expanded > MAX_PLIST then Inl Bounds
      else case event_depth e depth of
        Inl err \<Rightarrow> Inl err
      | Inr depth \<Rightarrow>
          if length events \<ge> 4096 then Inl Bounds
          else decode_events rest depth expanded (events @ [e]))"

definition plist_decode :: "plist_lib \<Rightarrow> u8 list \<Rightarrow> usb_error + dictionary" where
  "plist_decode pl bytes =
     (if bytes = [] \<or> length bytes > MAX_PLIST then Inl Bounds
      else bindr (decode_events (pl_read pl bytes) 0 0 []) (\<lambda>(events, depth).
        if depth \<noteq> 0 then Inl Malformed
        else bindr (ok_or Malformed (pl_build pl events)) (\<lambda>v. ok_or Malformed (as_dictionary v))))"

definition plist_encode :: "plist_lib \<Rightarrow> dictionary \<Rightarrow> usb_error + u8 list" where
  "plist_encode pl d =
     bindr (ok_or Malformed (pl_xml pl (PDict d))) (\<lambda>bytes.
       if length bytes > MAX_PLIST then Inl Bounds else Inr bytes)"

section \<open>What is built stays small\<close>

text \<open>The nesting of a run of events.\<close>

fun nesting :: "plist_event list \<Rightarrow> nat \<Rightarrow> nat option" where
  "nesting [] depth = Some depth"
| "nesting (StartArray c # es) depth = (if depth < 16 then nesting es (depth + 1) else None)"
| "nesting (StartDictionary c # es) depth = (if depth < 16 then nesting es (depth + 1) else None)"
| "nesting (EndCollection # es) depth = (if depth = 0 then None else nesting es (depth - 1))"
| "nesting (_ # es) depth = nesting es depth"

lemma nesting_snoc: "nesting (es @ [e]) depth = Option.bind (nesting es depth) (nesting [e])"
  by (induction es depth rule: nesting.induct) auto

lemma event_depth_nesting: "event_depth e depth = Inr depth' \<Longrightarrow> nesting [e] depth = Some depth'"
  by (cases e) (auto split: if_splits)

lemma decode_events_bounded:
  "decode_events rest depth expanded events = Inr (out, depth') \<Longrightarrow> nesting events 0 = Some depth \<Longrightarrow>
   expanded = (\<Sum>e \<leftarrow> events. event_payload e + 64) \<Longrightarrow> length events \<le> 4096 \<Longrightarrow> expanded \<le> MAX_PLIST \<Longrightarrow>
   length out \<le> 4096 \<and> (\<Sum>e \<leftarrow> out. event_payload e + 64) \<le> MAX_PLIST \<and> nesting out 0 = Some depth'
   \<and> map Some out = map Some events @ rest"
proof (induction rest depth expanded events rule: decode_events.induct)
  case (3 e rest depth expanded events)
  obtain d where d: "event_depth e depth = Inr d"
    using "3.prems"(1) by (auto simp: Let_def split: if_splits sum.splits)
  have run: "decode_events rest d (expanded + (event_payload e + 64)) (events @ [e]) = Inr (out, depth')"
    and small: "expanded + (event_payload e + 64) \<le> MAX_PLIST" "length events < 4096"
    using "3.prems"(1) d by (auto simp: Let_def split: if_splits)
  have "nesting (events @ [e]) 0 = Some d"
    using "3.prems"(2) event_depth_nesting [OF d] by (simp add: nesting_snoc)
  with "3.IH" [OF refl _ d _ run] "3.prems" small show ?case by simp
qed auto

text \<open>A property list of a phone is bounded before a value is built from it: the events handed to the library are
  at most 4096, nested at most 16 deep and closed, and what they retain is at most 256 KiB, whatever references the
  binary form repeats.\<close>

theorem plist_decode_bounded:
  assumes "plist_decode pl bytes = Inr d"
  shows "\<exists>events. map Some events = pl_read pl bytes \<and> pl_build pl events = Some (PDict d) \<and> length events \<le> 4096
    \<and> (\<Sum>e \<leftarrow> events. event_payload e + 64) \<le> MAX_PLIST \<and> nesting events 0 = Some 0"
proof -
  from assms obtain events v where r: "decode_events (pl_read pl bytes) 0 0 [] = Inr (events, 0)"
    and b: "pl_build pl events = Some v" "as_dictionary v = Some d"
    by (auto simp: plist_decode_def split: if_splits)
  have v: "v = PDict d" using b(2) by (cases v) auto
  show ?thesis using decode_events_bounded [OF r] b(1) v by (intro exI [of _ events]) simp
qed

text \<open>A library that reads and builds one fixed dictionary.\<close>

definition example_plist :: plist_lib where
  "example_plist = \<lparr>pl_read = (\<lambda>_. [Some (StartDictionary (Some 1)), Some (EvString [97]), Some (EvScalar (PBool True)), Some EndCollection]),
     pl_build = (\<lambda>_. Some (PDict [([97], PBool True)])), pl_xml = (\<lambda>_. Some [0]), pl_binary = (\<lambda>_. Some [0])\<rparr>"

theorem plist_decode_bounded_witness:
  "plist_decode example_plist [1] = Inr [([97], PBool True)]
   \<and> (\<exists>events. map Some events = pl_read example_plist [1] \<and> length events \<le> 4096 \<and> nesting events 0 = Some 0)"
proof -
  have d: "plist_decode example_plist [1] = Inr [([97], PBool True)]"
    by (simp add: plist_decode_def example_plist_def MAX_PLIST_def)
  show ?thesis using plist_decode_bounded [OF d] d by blast
qed

end
