(* ===== verification/Usbmuxd.thy ===== *)
theory Usbmuxd
  imports Plist Byte_Stream "HOL-Library.Sublist"
begin

text \<open>
  Attachment through the local usbmuxd and lockdown (\<open>native/carplay/src/protocol/usbmux.rs\<close>): the exchanges of
  property lists, the list of devices, and the opening of the CarPlay service of a trusted iPhone. The sockets are
  byte streams, OpenSSL is a parameter, and the log keeps what was opened and secured, in order.
\<close>

section \<open>Exchanges\<close>

text \<open>\<open>From<io::Error>\<close>; a stream that stalls is ended by the time limit around the attachment.\<close>

definition usb_io :: "io_kind \<Rightarrow> usb_error" where
  "usb_io k = (if k = Stalled then Timeout else Unavailable)"

definition mux_exchange :: "plist_lib \<Rightarrow> dictionary \<Rightarrow> byte_stream \<Rightarrow> byte_stream \<times> (usb_error + dictionary)" where
  "mux_exchange pl request =
     bindS (liftS id (plist_encode pl request)) (\<lambda>payload.
     bindS (\<lambda>s. apsnd (map_sum usb_io id) (write_all (concat (map to_le32 [of_nat (length payload + 16), 1, 8, 1]) @ payload) s)) (\<lambda>_.
     bindS (\<lambda>s. apsnd (map_sum usb_io id) (read_exact 16 s)) (\<lambda>header.
       let word = (\<lambda>i. from_le32 (header ! i) (header ! (i + 1)) (header ! (i + 2)) (header ! (i + 3)));
           len = unat (word 0) in
       if \<not> (16 \<le> len \<and> len \<le> MAX_PLIST + 16) then failS Bounds
       else if [word 4, word 8, word 12] \<noteq> [1, 8, 1] then failS Malformed
       else bindS (\<lambda>s. apsnd (map_sum usb_io id) (read_exact (len - 16) s)) (\<lambda>bytes. liftS id (plist_decode pl bytes)))))"

text \<open>\<open>socket\<close> is the outcome of connecting to usbmuxd.\<close>

definition mux_request :: "plist_lib \<Rightarrow> usb_error + byte_stream \<Rightarrow> dictionary \<Rightarrow> usb_error + dictionary" where
  "mux_request pl socket request = bindr socket (\<lambda>s. snd (mux_exchange pl request s))"

definition lockdown :: "plist_lib \<Rightarrow> dictionary \<Rightarrow> byte_stream \<Rightarrow> byte_stream \<times> (usb_error + dictionary)" where
  "lockdown pl request =
     bindS (liftS id (plist_encode pl request)) (\<lambda>bytes.
     bindS (\<lambda>s. apsnd (map_sum usb_io id) (write_all (to_be32 (of_nat (length bytes))) s)) (\<lambda>_.
     bindS (\<lambda>s. apsnd (map_sum usb_io id) (write_all bytes s)) (\<lambda>_.
     bindS (\<lambda>s. apsnd (map_sum usb_io id) (read_exact 4 s)) (\<lambda>header.
       let len = unat (from_be32 (header ! 0) (header ! 1) (header ! 2) (header ! 3)) in
       if len = 0 \<or> len > MAX_PLIST then failS Bounds
       else
         bindS (\<lambda>s. apsnd (map_sum usb_io id) (read_exact len s)) (\<lambda>bytes.
         bindS (liftS id (plist_decode pl bytes)) (\<lambda>reply.
           if dget ''Error'' reply \<noteq> None then failS ServiceUnavailable else retS reply))))))"

section \<open>Devices\<close>

record usb_device =
  ud_id :: u32
  ud_udid :: "u8 list"

definition udid_byte :: "u8 \<Rightarrow> bool" where
  "udid_byte b \<longleftrightarrow> 48 \<le> b \<and> b \<le> 57 \<or> 65 \<le> b \<and> b \<le> 90 \<or> 97 \<le> b \<and> b \<le> 122 \<or> b = 45"

text \<open>One entry of the list; \<open>None\<close> is \<open>continue\<close>.\<close>

definition parse_device :: "plist \<Rightarrow> usb_error + usb_device option" where
  "parse_device v =
     bindr (ok_or Malformed (as_dictionary v)) (\<lambda>entry.
     bindr (ok_or Malformed (Option.bind (dget ''Properties'' entry) as_dictionary)) (\<lambda>properties.
     if Option.bind (dget ''ConnectionType'' properties) as_string \<noteq> Some (str ''USB'') then Inr None
     else
       bindr (ok_or Malformed (Option.bind (Option.bind (dget ''DeviceID'' entry) as_unsigned_integer)
         (\<lambda>v. if v \<le> 0xffffffff then Some (ucast v :: u32) else None))) (\<lambda>i.
       bindr (ok_or Malformed (Option.bind (dget ''SerialNumber'' properties) as_string)) (\<lambda>udid.
       if \<not> (8 \<le> length udid \<and> length udid \<le> 128) \<or> \<not> (\<forall>b \<in> set udid. udid_byte b) then Inl Malformed
       else Inr (Some \<lparr>ud_id = i, ud_udid = udid\<rparr>)))))"

fun parse_device_list :: "plist list \<Rightarrow> usb_error + usb_device list" where
  "parse_device_list [] = Inr []"
| "parse_device_list (v # vs) =
     bindr (parse_device v) (\<lambda>d. bindr (parse_device_list vs) (\<lambda>ds.
       Inr (case d of None \<Rightarrow> ds | Some d \<Rightarrow> d # ds)))"

definition parse_devices :: "dictionary \<Rightarrow> usb_error + usb_device list" where
  "parse_devices response =
     bindr (ok_or Malformed (Option.bind (dget ''DeviceList'' response) as_array)) (\<lambda>vs.
       if length vs > 32 then Inl Bounds else parse_device_list vs)"

definition inventory :: "plist_lib \<Rightarrow> usb_error + byte_stream \<Rightarrow> usb_error + usb_device list" where
  "inventory pl socket =
     bindr (mux_request pl socket (dictionary
       [(''MessageType'', plist_text ''ListDevices''), (''ClientVersionString'', plist_text ''Argo''),
        (''kLibUSBMuxVersion'', PInt 3)])) parse_devices"

definition swap16 :: "u16 \<Rightarrow> u16" where
  "swap16 p = from_le16 (ucast (drop_bit 8 p)) (ucast p)"

text \<open>\<open>port.to_be()\<close> on a little-endian host.\<close>

definition usb_connect :: "plist_lib \<Rightarrow> usb_error + byte_stream \<Rightarrow> usb_device \<Rightarrow> u16 \<Rightarrow> usb_error + byte_stream" where
  "usb_connect pl socket device port =
     bindr socket (\<lambda>s.
       case mux_exchange pl (dictionary [(''MessageType'', plist_text ''Connect''), (''DeviceID'', PInt (uint (ud_id device))),
              (''PortNumber'', PInt (uint (swap16 port)))]) s of
         (s, Inl e) \<Rightarrow> Inl e
       | (s, Inr reply) \<Rightarrow>
           if Option.bind (dget ''Number'' reply) as_unsigned_integer \<noteq> Some 0 then Inl ServiceUnavailable else Inr s)"

section \<open>TLS\<close>

text \<open>What OpenSSL answers: whether the PEM texts parse, the DER of the pinned certificate, whether the connector can
  be set up, whether the key belongs to the certificate, and the handshake with the pin check it applies to the
  certificate chain of the peer.\<close>

record tls_lib =
  tl_certificate :: "u8 list \<Rightarrow> bool"
  tl_key :: "u8 list \<Rightarrow> bool"
  tl_der :: "u8 list \<Rightarrow> u8 list option"
  tl_ready :: bool
  tl_matches :: "u8 list \<Rightarrow> u8 list \<Rightarrow> bool"
  tl_handshake :: "(nat \<Rightarrow> u8 list option \<Rightarrow> bool) \<Rightarrow> byte_stream \<Rightarrow> byte_stream option"

definition pair_field :: "dictionary \<Rightarrow> string \<Rightarrow> usb_error + u8 list" where
  "pair_field pair name =
     ok_or Untrusted (case Option.bind (dget name pair) as_data of
       Some v \<Rightarrow> if v \<noteq> [] \<and> length v \<le> 16384 then Some v else None | None \<Rightarrow> None)"

text \<open>The verify callback: \<open>depth\<close> is \<open>error_depth\<close>, \<open>der\<close> the current certificate.\<close>

definition pin_check :: "u8 list \<Rightarrow> nat \<Rightarrow> u8 list option \<Rightarrow> bool" where
  "pin_check pinned depth der \<longleftrightarrow> depth \<noteq> 0 \<or> der = Some pinned"

definition usb_tls :: "tls_lib \<Rightarrow> dictionary \<Rightarrow> byte_stream \<Rightarrow> usb_error + byte_stream" where
  "usb_tls tls pair stream =
     bindr (pair_field pair ''HostCertificate'') (\<lambda>certificate.
     if \<not> tl_certificate tls certificate then Inl InvalidHostCertificate else
     bindr (pair_field pair ''HostPrivateKey'') (\<lambda>key.
     if \<not> tl_key tls key then Inl InvalidHostKey else
     bindr (pair_field pair ''DeviceCertificate'') (\<lambda>device.
     bindr (ok_or InvalidDeviceCertificate (tl_der tls device)) (\<lambda>pinned.
     if \<not> tl_ready tls then Inl Tls
     else if \<not> tl_matches tls certificate key then Inl HostKeyMismatch
     else ok_or Tls (tl_handshake tls (pin_check pinned) stream)))))"

section \<open>The CarPlay service\<close>

datatype carkit_action = Opened u16 | Asked string | Secured "u8 list"

text \<open>\<open>mux\<close> is the connection for the pair record, \<open>open\<close> opens a port of the device.\<close>

type_synonym 'a carkit = "carkit_action list \<Rightarrow> carkit_action list \<times> (usb_error + 'a)"

definition ck_log :: "carkit_action \<Rightarrow> unit carkit" where
  "ck_log a l = (l @ [a], Inr ())"

definition ck_open :: "(u16 \<Rightarrow> usb_error + byte_stream) \<Rightarrow> u16 \<Rightarrow> byte_stream carkit" where
  "ck_open open port = bindS (liftS id (open port)) (\<lambda>s. bindS (ck_log (Opened port)) (\<lambda>_. retS s))"

definition ck_ask :: "plist_lib \<Rightarrow> string \<Rightarrow> (string \<times> plist) list \<Rightarrow> byte_stream \<Rightarrow> (byte_stream \<times> dictionary) carkit" where
  "ck_ask pl request entries s =
     bindS (ck_log (Asked request)) (\<lambda>_.
       case lockdown pl (dictionary ((''Request'', plist_text request) # entries @ [(''Label'', plist_text ''argo-carplayd'')])) s of
         (s', r) \<Rightarrow> liftS id (map_sum id (\<lambda>reply. (s', reply)) r))"

definition ck_tls :: "tls_lib \<Rightarrow> dictionary \<Rightarrow> byte_stream \<Rightarrow> byte_stream carkit" where
  "ck_tls tls pair s =
     bindS (liftS id (usb_tls tls pair s)) (\<lambda>s'.
     bindS (case Option.bind (dget ''DeviceCertificate'' pair) as_data of
              Some c \<Rightarrow> ck_log (Secured c) | None \<Rightarrow> retS ()) (\<lambda>_. retS s'))"

definition bounded_name :: "dictionary \<Rightarrow> string \<Rightarrow> usb_error + u8 list" where
  "bounded_name pair name =
     ok_or Untrusted (case Option.bind (dget name pair) as_string of
       Some s \<Rightarrow> if s \<noteq> [] \<and> length s \<le> 128 then Some s else None | None \<Rightarrow> None)"

definition is_iphone :: "dictionary \<Rightarrow> bool" where
  "is_iphone product \<longleftrightarrow> (case Option.bind (dget ''Value'' product) as_string of
     Some s \<Rightarrow> take 6 s = str ''iPhone'' \<and> length s < 64 | None \<Rightarrow> False)"

definition pair_record :: "plist_lib \<Rightarrow> usb_error + byte_stream \<Rightarrow> u8 list \<Rightarrow> usb_error + dictionary" where
  "pair_record pl mux udid =
     bindr (mux_request pl mux (dictionary [(''MessageType'', plist_text ''ReadPairRecord''), (''PairRecordID'', PString udid)])) (\<lambda>response.
     bindr (ok_or Untrusted (Option.bind (dget ''PairRecordData'' response) as_data)) (\<lambda>record.
     case plist_decode pl record of Inl _ \<Rightarrow> Inl InvalidPairRecord | Inr pair \<Rightarrow> Inr pair))"

definition service_port :: "dictionary \<Rightarrow> usb_error + u16" where
  "service_port response =
     ok_or Malformed (case Option.bind (dget ''Port'' response) as_unsigned_integer of
       Some v \<Rightarrow> if v \<le> 0xffff \<and> v \<noteq> 0 then Some (ucast v) else None | None \<Rightarrow> None)"

definition trusted_carkit ::
  "plist_lib \<Rightarrow> tls_lib \<Rightarrow> usb_error + byte_stream \<Rightarrow> (u16 \<Rightarrow> usb_error + byte_stream) \<Rightarrow> u8 list \<Rightarrow> byte_stream carkit" where
  "trusted_carkit pl tls mux open udid =
     bindS (liftS id (pair_record pl mux udid)) (\<lambda>pair.
     bindS (liftS id (bounded_name pair ''HostID'')) (\<lambda>host.
     bindS (liftS id (bounded_name pair ''SystemBUID'')) (\<lambda>buid.
     bindS (ck_open open 62078) (\<lambda>stream.
     bindS (ck_ask pl ''GetValue'' [(''Key'', plist_text ''ProductType'')] stream) (\<lambda>(stream, product).
     if \<not> is_iphone product then failS NotIPhone else
     bindS (ck_ask pl ''StartSession'' [(''HostID'', PString host), (''SystemBUID'', PString buid)] stream) (\<lambda>(stream, response).
     if Option.bind (dget ''EnableSessionSSL'' response) as_boolean \<noteq> Some True then failS SessionNotEncrypted else
     bindS (ck_tls tls pair stream) (\<lambda>stream.
     bindS (ck_ask pl ''StartService'' [(''Service'', plist_text ''com.apple.carkit.service'')] stream) (\<lambda>(stream, response).
     bindS (liftS id (service_port response)) (\<lambda>port.
     bindS (ck_open open port) (\<lambda>carkit.
       case dget ''EnableServiceSSL'' response of
         Some (PBool True) \<Rightarrow> ck_tls tls pair carkit
       | Some (PBool False) \<Rightarrow> retS carkit
       | None \<Rightarrow> retS carkit
       | _ \<Rightarrow> failS Malformed))))))))))"

text \<open>\<open>list\<close> is the connection for the inventory.\<close>

definition open_carkit ::
  "plist_lib \<Rightarrow> tls_lib \<Rightarrow> usb_error + byte_stream \<Rightarrow> usb_error + byte_stream \<Rightarrow> (u16 \<Rightarrow> usb_error + byte_stream)
     \<Rightarrow> usb_device \<Rightarrow> byte_stream carkit" where
  "open_carkit pl tls listing mux socket device =
     bindS (liftS id (inventory pl listing)) (\<lambda>devices.
       if device \<notin> set devices then failS Unavailable
       else trusted_carkit pl tls mux (\<lambda>port. usb_connect pl (socket port) device port) (ud_udid device))"

section \<open>The order of the attachment\<close>

text \<open>\<open>runs m Q\<close>: the step only appends to the log, and what it appends with its result satisfies \<open>Q\<close>.\<close>

definition runs :: "'a carkit \<Rightarrow> (carkit_action list \<Rightarrow> usb_error + 'a \<Rightarrow> bool) \<Rightarrow> bool" where
  "runs m Q \<longleftrightarrow> (\<forall>l. \<exists>ys. fst (m l) = l @ ys \<and> Q ys (snd (m l)))"

lemma runs_bindS:
  assumes m: "runs m Q" and e: "\<And>ys e. Q ys (Inl e) \<Longrightarrow> R ys (Inl e)"
    and f: "\<And>ys x. Q ys (Inr x) \<Longrightarrow> runs (f x) (\<lambda>zs. R (ys @ zs))"
  shows "runs (bindS m f) R"
  unfolding runs_def
proof
  fix l
  obtain ys where ys: "fst (m l) = l @ ys" "Q ys (snd (m l))" using m by (auto simp: runs_def)
  show "\<exists>ys. fst (bindS m f l) = l @ ys \<and> R ys (snd (bindS m f l))"
  proof (cases "snd (m l)")
    case (Inl err)
    then show ?thesis using ys e [of ys err] by (cases "m l") (auto simp: bindS_def)
  next
    case (Inr x)
    then obtain zs where "fst (f x (l @ ys)) = (l @ ys) @ zs" "R (ys @ zs) (snd (f x (l @ ys)))"
      using f [of ys x] ys(2) unfolding runs_def by force
    then show ?thesis using Inr ys by (cases "m l") (auto simp: bindS_def)
  qed
qed

lemma runs_liftS: "runs (liftS id r) (\<lambda>ys q. ys = [] \<and> q = r)"
  by (cases r) (auto simp: runs_def liftS_def)

lemma runs_retS: "Q [] (Inr x) \<Longrightarrow> runs (retS x) Q"
  by (auto simp: runs_def retS_def)

lemma runs_failS: "Q [] (Inl e) \<Longrightarrow> runs (failS e) Q"
  by (auto simp: runs_def failS_def)

lemma runs_open: "runs (ck_open open port) (\<lambda>ys r. if is_ok r then ys = [Opened port] else ys = [])"
  by (auto simp: runs_def ck_open_def bindS_def liftS_def ck_log_def retS_def split: sum.split)

lemma runs_ask: "runs (ck_ask pl q es s) (\<lambda>ys r. ys = [Asked q])"
  by (auto simp: runs_def ck_ask_def bindS_def liftS_def ck_log_def split: prod.split)

lemma runs_tls: "runs (ck_tls tls pair s)
  (\<lambda>ys r. if is_ok r then \<exists>c. ys = [Secured c] \<and> pair_field pair ''DeviceCertificate'' = Inr c else ys = [])"
proof -
  have "\<exists>c. Option.bind (dget ''DeviceCertificate'' pair) as_data = Some c \<and> pair_field pair ''DeviceCertificate'' = Inr c"
    if "usb_tls tls pair s = Inr s'" for s'
    using that by (auto simp: usb_tls_def pair_field_def split: option.splits if_splits)
  then show ?thesis
    by (cases "usb_tls tls pair s") (auto simp: runs_def ck_tls_def bindS_def liftS_def ck_log_def retS_def)
qed

lemma runs_weaken: "runs m Q \<Longrightarrow> (\<And>ys r. Q ys r \<Longrightarrow> R ys r) \<Longrightarrow> runs m R"
  unfolding runs_def by blast

text \<open>The sequence of a whole attachment.\<close>

definition attachment :: "u8 list \<Rightarrow> u16 \<Rightarrow> carkit_action list" where
  "attachment c port = [Opened 62078, Asked ''GetValue'', Asked ''StartSession'', Secured c, Asked ''StartService'', Opened port, Secured c]"

definition attached :: "dictionary \<Rightarrow> carkit_action list \<Rightarrow> usb_error + 'a \<Rightarrow> bool" where
  "attached pair ys r \<longleftrightarrow> (\<exists>c port. prefix ys (attachment c port) \<and> (3 < length ys \<longrightarrow> pair_field pair ''DeviceCertificate'' = Inr c)
     \<and> (is_ok r \<longrightarrow> 6 \<le> length ys))"

lemma attached_start [simp]:
  "attached pair [] (Inl e)" "attached pair [Opened 62078] (Inl e)" "attached pair [Opened 62078, Asked ''GetValue''] (Inl e)"
  "attached pair [Opened 62078, Asked ''GetValue'', Asked ''StartSession''] (Inl e)"
  by (auto simp: attached_def attachment_def)

lemma attached_secured [simp]:
  assumes "pair_field pair ''DeviceCertificate'' = Inr c"
  shows "attached pair [Opened 62078, Asked ''GetValue'', Asked ''StartSession'', Secured c] (Inl e)"
    "attached pair [Opened 62078, Asked ''GetValue'', Asked ''StartSession'', Secured c, Asked ''StartService''] (Inl e)"
    "attached pair [Opened 62078, Asked ''GetValue'', Asked ''StartSession'', Secured c, Asked ''StartService'', Opened port] r"
    "attached pair [Opened 62078, Asked ''GetValue'', Asked ''StartSession'', Secured c, Asked ''StartService'', Opened port, Secured c] r"
  unfolding attached_def attachment_def by (rule exI [of _ c], use assms in auto)+

lemma runs_carkit:
  "runs (trusted_carkit pl tls mux open udid) (\<lambda>ys r. ys = [] \<and> \<not> is_ok r \<or> (\<exists>pair. pair_record pl mux udid = Inr pair \<and> attached pair ys r))"
proof -
  have weak: "runs m (\<lambda>ys r. ys = [] \<and> \<not> is_ok r \<or> (\<exists>pair. pair_record pl mux udid = Inr pair \<and> attached pair ys r))"
    if "runs m (attached pair)" "pair_record pl mux udid = Inr pair" for m :: "byte_stream carkit" and pair
    using that unfolding runs_def by blast
  have rest: "runs (bindS (liftS id (bounded_name pair ''HostID'')) (\<lambda>host.
     bindS (liftS id (bounded_name pair ''SystemBUID'')) (\<lambda>buid.
     bindS (ck_open open 62078) (\<lambda>stream.
     bindS (ck_ask pl ''GetValue'' [(''Key'', plist_text ''ProductType'')] stream) (\<lambda>(stream, product).
     if \<not> is_iphone product then failS NotIPhone else
     bindS (ck_ask pl ''StartSession'' [(''HostID'', PString host), (''SystemBUID'', PString buid)] stream) (\<lambda>(stream, response).
     if Option.bind (dget ''EnableSessionSSL'' response) as_boolean \<noteq> Some True then failS SessionNotEncrypted else
     bindS (ck_tls tls pair stream) (\<lambda>stream.
     bindS (ck_ask pl ''StartService'' [(''Service'', plist_text ''com.apple.carkit.service'')] stream) (\<lambda>(stream, response).
     bindS (liftS id (service_port response)) (\<lambda>port.
     bindS (ck_open open port) (\<lambda>carkit.
       case dget ''EnableServiceSSL'' response of
         Some (PBool True) \<Rightarrow> ck_tls tls pair carkit
       | Some (PBool False) \<Rightarrow> retS carkit
       | None \<Rightarrow> retS carkit
       | _ \<Rightarrow> failS Malformed)))))))))) (attached pair)" for pair
    apply (rule runs_bindS [OF runs_liftS], simp, clarsimp)
    apply (rule runs_bindS [OF runs_liftS], simp, clarsimp)
    apply (rule runs_bindS [OF runs_open], simp, clarsimp)
    apply (rule runs_bindS [OF runs_ask], simp, clarsimp simp: runs_failS)
    apply (rule runs_bindS [OF runs_ask], simp, clarsimp simp: runs_failS)
    apply (rule runs_bindS [OF runs_tls], simp, clarsimp)
    apply (rule runs_bindS [OF runs_ask], simp, clarsimp)
    apply (rule runs_bindS [OF runs_liftS], simp, clarsimp)
    apply (rule runs_bindS [OF runs_open], simp, clarsimp)
    apply (auto split: option.split plist.split bool.split if_splits intro!: runs_retS runs_failS runs_weaken [OF runs_tls])
    done
  show ?thesis unfolding trusted_carkit_def
    by (rule runs_bindS [OF runs_liftS]) (auto intro: weak rest)
qed


end
