(* ===== verification/Media.thy ===== *)
theory Media
  imports Text Byte_Stream "HOL-Library.Sublist"
begin

unbundle bit_operations_syntax

text \<open>
  The producer of encoded video for the native view (\<open>native/carplay/src/media.rs\<close>): the description and its view
  parameters, the inspection of access units and decoder configurations, the bounded queue with its resynchronisation
  on keyframes, and the records sent to the one consumer. Sockets are inputs: the outcome of a write, and what a
  readable socket yields.
\<close>

section \<open>Description\<close>

datatype media_protocol = AndroidAuto | CarPlay
datatype media_plane = MainPlane | Cluster
datatype media_codec = H264 | H265
datatype colorimetry = Bt601 | Bt709
datatype color_range = Limited | Full
datatype framing = AnnexB | LengthPrefixed

definition protocol_u8 :: "media_protocol \<Rightarrow> u8" where
  "protocol_u8 p = (case p of AndroidAuto \<Rightarrow> 1 | CarPlay \<Rightarrow> 2)"

definition plane_u8 :: "media_plane \<Rightarrow> u8" where
  "plane_u8 p = (case p of MainPlane \<Rightarrow> 1 | Cluster \<Rightarrow> 2)"

definition codec_u8 :: "media_codec \<Rightarrow> u8" where
  "codec_u8 c = (case c of H264 \<Rightarrow> 1 | H265 \<Rightarrow> 2)"

definition colorimetry_u8 :: "colorimetry \<Rightarrow> u8" where
  "colorimetry_u8 c = (case c of Bt601 \<Rightarrow> 1 | Bt709 \<Rightarrow> 2)"

definition range_u8 :: "color_range \<Rightarrow> u8" where
  "range_u8 r = (case r of Limited \<Rightarrow> 1 | Full \<Rightarrow> 2)"

definition framing_u8 :: "framing \<Rightarrow> u8" where
  "framing_u8 f = (case f of AnnexB \<Rightarrow> 1 | LengthPrefixed \<Rightarrow> 2)"

record description =
  de_protocol :: media_protocol
  de_plane :: media_plane
  de_codec :: media_codec
  de_colorimetry :: colorimetry
  de_range :: color_range
  de_framing :: framing
  de_width :: u16
  de_height :: u16
  de_fps_num :: u16
  de_fps_den :: u16
  de_session :: u64

record crop =
  cp_left :: u16
  cp_top :: u16
  cp_right :: u16
  cp_bottom :: u16

datatype media_error =
    InvalidDescription | InvalidConfiguration | InvalidAccessUnit | TimestampError | ClosedError | AlreadyServing
  | SequenceExhausted | MediaTimeout | MediaIo io_kind | PermissionDenied | ConsumerDisconnected | ConsumerData

definition description_encode :: "description \<Rightarrow> media_error + u8 list" where
  "description_encode d =
     (if de_session d = 0 \<or> de_width d = 0 \<or> de_width d > 1920 \<or> de_height d = 0 \<or> de_height d > 1080
         \<or> de_fps_den d = 0 \<or> de_fps_den d > 1001 \<or> de_fps_num d < de_fps_den d
         \<or> (ucast (de_fps_num d) :: u32) > 60 * ucast (de_fps_den d)
      then Inl InvalidDescription
      else Inr ([protocol_u8 (de_protocol d), plane_u8 (de_plane d), codec_u8 (de_codec d),
                 colorimetry_u8 (de_colorimetry d), range_u8 (de_range d), framing_u8 (de_framing d)]
             @ to_be16 (de_width d) @ to_be16 (de_height d) @ to_be16 (de_fps_num d) @ to_be16 (de_fps_den d)
             @ [0, 0] @ to_be64 (de_session d)))"

definition view_parameters :: "crop \<Rightarrow> description \<Rightarrow> media_error + u8 list" where
  "view_parameters c d =
     (if de_plane d \<noteq> MainPlane
         \<or> (ucast (cp_left c) + ucast (cp_right c) :: u32) \<ge> ucast (de_width d)
         \<or> (ucast (cp_top c) + ucast (cp_bottom c) :: u32) \<ge> ucast (de_height d)
      then Inl InvalidDescription
      else bindr (description_encode d) (\<lambda>e.
        Inr (str ''ARV2'' @ to_be32 1 @ e @ to_be16 (cp_left c) @ to_be16 (cp_top c) @ to_be16 (cp_right c) @ to_be16 (cp_bottom c))))"

section \<open>Pictures and parameters\<close>

definition CONFIG_LIMIT :: nat where "CONFIG_LIMIT = 64 * 1024"
definition ACCESS_UNIT_LIMIT :: nat where "ACCESS_UNIT_LIMIT = 4 * 1024 * 1024"
definition QUEUE_LIMIT :: nat where "QUEUE_LIMIT = 3"
definition NAL_LIMIT :: nat where "NAL_LIMIT = 1024"

definition media_nal_type :: "u8 list \<Rightarrow> media_codec \<Rightarrow> u8 option" where
  "media_nal_type bytes codec =
     (if bytes = [] \<or> bytes ! 0 AND 0x80 \<noteq> 0 then None
      else case codec of
        H264 \<Rightarrow> let kind = bytes ! 0 AND 31 in if kind > 0 \<and> kind < 24 then Some kind else None
      | H265 \<Rightarrow>
          if length bytes \<ge> 2 \<and> bytes ! 1 AND 7 \<noteq> 0
          then let kind = drop_bit 1 (bytes ! 0) AND 63 in if kind < 48 then Some kind else None
          else None)"

definition parameter_bit :: "media_codec \<Rightarrow> u8 \<Rightarrow> u8" where
  "parameter_bit codec kind =
     (if (codec, kind) \<in> {(H264, 7), (H265, 32)} then 1
      else if (codec, kind) \<in> {(H264, 8), (H265, 33)} then 2
      else if (codec, kind) = (H265, 34) then 4 else 0)"

definition media_start_code :: "u8 list \<Rightarrow> nat option" where
  "media_start_code bytes =
     (if take 3 bytes = [0, 0, 1] then Some 3 else if take 4 bytes = [0, 0, 0, 1] then Some 4 else None)"

text \<open>\<open>(0..bytes.len()).find(start code).unwrap_or(bytes.len())\<close>\<close>

fun until_start :: "u8 list \<Rightarrow> nat" where
  "until_start [] = 0"
| "until_start (b # bs) = (if media_start_code (b # bs) \<noteq> None then 0 else Suc (until_start bs))"

definition be_number :: "u8 list \<Rightarrow> nat" where
  "be_number bs = foldl (\<lambda>v b. v * 256 + unat b) 0 bs"

text \<open>The next unit: its size and the bytes from its start.\<close>

definition nal_cut :: "framing \<Rightarrow> nat \<Rightarrow> u8 list \<Rightarrow> (nat \<times> u8 list) option" where
  "nal_cut framing len bytes =
     (case framing of
        AnnexB \<Rightarrow>
          Option.bind (media_start_code bytes) (\<lambda>n. Option.bind (get_range bytes n (length bytes)) (\<lambda>bs.
            Some (until_start bs, bs)))
      | LengthPrefixed \<Rightarrow>
          if len \<notin> {1, 2, 4} \<or> length bytes < len then None
          else Some (be_number (take len bytes), drop len bytes))"

record nals =
  na_parameters :: u8
  na_keyframe :: bool
  na_picture :: bool

definition nals_none :: nals where
  "nals_none = \<lparr>na_parameters = 0, na_keyframe = False, na_picture = False\<rparr>"

definition nals_add :: "media_codec \<Rightarrow> u8 \<Rightarrow> nals \<Rightarrow> nals" where
  "nals_add codec kind n =
     \<lparr>na_parameters = na_parameters n OR parameter_bit codec kind,
      na_keyframe = (na_keyframe n \<or> (case codec of H264 \<Rightarrow> kind = 5 | H265 \<Rightarrow> 16 \<le> kind \<and> kind \<le> 21)),
      na_picture = (na_picture n \<or> (case codec of H264 \<Rightarrow> 1 \<le> kind \<and> kind \<le> 5 | H265 \<Rightarrow> kind \<le> 31))\<rparr>"

lemma until_start_le: "until_start bs \<le> length bs"
  by (induction bs) auto

lemma nal_cut_shorter: "nal_cut framing len bytes = Some (n, bs) \<Longrightarrow> bytes \<noteq> [] \<Longrightarrow> length bs < length bytes"
  by (auto simp: nal_cut_def media_start_code_def bind_eq_Some_conv split: framing.splits if_splits dest!: get_range_Some)

function inspect_loop :: "media_codec \<Rightarrow> framing \<Rightarrow> nat \<Rightarrow> bool \<Rightarrow> nat \<Rightarrow> nals \<Rightarrow> u8 list \<Rightarrow> (nat \<times> nals) option" where
  "inspect_loop codec framing len config count n bytes =
     (if bytes = [] then Some (count, n)
      else if count + 1 > NAL_LIMIT then None
      else case nal_cut framing len bytes of
        None \<Rightarrow> None
      | Some (k, bs) \<Rightarrow>
          if k > length bs then None
          else case media_nal_type (take k bs) codec of
            None \<Rightarrow> None
          | Some kind \<Rightarrow>
              if config \<and> parameter_bit codec kind = 0 then None
              else inspect_loop codec framing len config (count + 1) (nals_add codec kind n) (drop k bs))"
  by pat_completeness auto
termination
  by (relation "measure (\<lambda>(codec, framing, len, config, count, n, bytes). length bytes)")
    (auto dest!: nal_cut_shorter)

declare inspect_loop.simps [simp del]

definition full_parameters :: "media_codec \<Rightarrow> u8" where
  "full_parameters codec = (case codec of H264 \<Rightarrow> 3 | H265 \<Rightarrow> 7)"

definition inspect_nals :: "u8 list \<Rightarrow> media_codec \<Rightarrow> framing \<Rightarrow> nat \<Rightarrow> bool \<Rightarrow> nals option" where
  "inspect_nals bytes codec framing len config =
     (case inspect_loop codec framing len config 0 nals_none bytes of
        None \<Rightarrow> None
      | Some (count, n) \<Rightarrow>
          if count = 0 then None
          else if config \<and> na_parameters n \<noteq> full_parameters codec then None
          else Some n)"

section \<open>Decoder configuration\<close>

record config_reader =
  cr_bytes :: "u8 list"
  cr_offset :: nat
  cr_count :: nat
  cr_parameters :: u8
  cr_codec :: media_codec

definition cr_byte :: "config_reader \<Rightarrow> (config_reader \<times> u8) option" where
  "cr_byte r = map_option (\<lambda>v. (r\<lparr>cr_offset := cr_offset r + 1\<rparr>, v)) (get_at (cr_bytes r) (cr_offset r))"

definition cr_word :: "config_reader \<Rightarrow> (config_reader \<times> nat) option" where
  "cr_word r = Option.bind (cr_byte r) (\<lambda>(r, a). Option.bind (cr_byte r) (\<lambda>(r, b). Some (r, unat a * 256 + unat b)))"

fun cr_nals :: "nat \<Rightarrow> u8 \<Rightarrow> config_reader \<Rightarrow> config_reader option" where
  "cr_nals 0 expected r = Some r"
| "cr_nals (Suc n) expected r =
     (let r = r\<lparr>cr_count := cr_count r + 1\<rparr> in
      if cr_count r > NAL_LIMIT then None
      else Option.bind (cr_word r) (\<lambda>(r, len).
        Option.bind (get_range (cr_bytes r) (cr_offset r) (cr_offset r + len)) (\<lambda>nal.
        Option.bind (media_nal_type nal (cr_codec r)) (\<lambda>kind.
          if kind \<noteq> expected then None
          else cr_nals n expected
            (r\<lparr>cr_parameters := cr_parameters r OR parameter_bit (cr_codec r) kind, cr_offset := cr_offset r + len\<rparr>)))))"

text \<open>The extension of an avcC record of a high profile.\<close>

definition avc_extension :: "u8 \<Rightarrow> config_reader \<Rightarrow> config_reader option" where
  "avc_extension profile r =
     (if profile \<notin> {100, 110, 122, 144} then None
      else Option.bind (cr_byte r) (\<lambda>(r, a). if a AND 0xfc \<noteq> 0xfc then None
      else Option.bind (cr_byte r) (\<lambda>(r, b). if b AND 0xf8 \<noteq> 0xf8 then None
      else Option.bind (cr_byte r) (\<lambda>(r, c). if c AND 0xf8 \<noteq> 0xf8 then None
      else Option.bind (cr_byte r) (\<lambda>(r, n). cr_nals (unat n) 13 r)))))"

fun hevc_arrays :: "nat \<Rightarrow> config_reader \<Rightarrow> config_reader option" where
  "hevc_arrays 0 r = Some r"
| "hevc_arrays (Suc n) r =
     Option.bind (cr_byte r) (\<lambda>(r, kind).
       if kind AND 0x40 \<noteq> 0 then None
       else Option.bind (cr_word r) (\<lambda>(r, count). Option.bind (cr_nals count (kind AND 63) r) (hevc_arrays n)))"

definition configuration_read :: "media_codec \<Rightarrow> u8 list \<Rightarrow> config_reader \<Rightarrow> config_reader option" where
  "configuration_read codec bytes r =
     (case codec of
        H264 \<Rightarrow>
          if bytes ! 4 AND 0xfc \<noteq> 0xfc \<or> bytes ! 5 AND 0xe0 \<noteq> 0xe0 then None
          else Option.bind (cr_nals (unat (bytes ! 5 AND 31)) 7 r) (\<lambda>r.
            Option.bind (cr_byte r) (\<lambda>(r, count). Option.bind (cr_nals (unat count) 8 r) (\<lambda>r.
              if cr_offset r < length bytes then avc_extension (bytes ! 1) r else Some r)))
      | H265 \<Rightarrow> hevc_arrays (unat (bytes ! 22)) r)"

text \<open>The length of the NAL size fields, 0 for Annex-B.\<close>

definition media_configuration :: "u8 list \<Rightarrow> media_codec \<Rightarrow> framing \<Rightarrow> nat option" where
  "media_configuration bytes codec framing =
     (if bytes = [] \<or> length bytes > CONFIG_LIMIT then None
      else if framing = AnnexB then map_option (\<lambda>_. 0) (inspect_nals bytes codec framing 0 True)
      else if length bytes < (case codec of H264 \<Rightarrow> 7 | H265 \<Rightarrow> 23) \<or> bytes ! 0 \<noteq> 1 then None
      else
        let len = unat ((bytes ! (case codec of H264 \<Rightarrow> 4 | H265 \<Rightarrow> 21) AND 3) + 1) in
        if len = 3 then None
        else case configuration_read codec bytes
               \<lparr>cr_bytes = bytes, cr_offset = (case codec of H264 \<Rightarrow> 6 | H265 \<Rightarrow> 23), cr_count = 0, cr_parameters = 0, cr_codec = codec\<rparr> of
          None \<Rightarrow> None
        | Some r \<Rightarrow> if cr_offset r = length bytes \<and> cr_parameters r = full_parameters codec then Some len else None)"


section \<open>The queue\<close>

record access_unit =
  au_payload :: "u8 list"
  au_timestamp :: u64
  au_keyframe :: bool
  au_discontinuity :: bool

record video_state =
  vs_queue :: "access_unit list"
  vs_need_keyframe :: bool
  vs_serving :: bool
  vs_closed :: bool
  vs_last_timestamp :: "u64 option"

record video_stream =
  vi_description :: description
  vi_encoded :: "u8 list"
  vi_configuration :: "u8 list"
  vi_length_bytes :: nat
  vi_state :: video_state
  vi_stopped :: bool

datatype publish_outcome = FrameQueued | NeedKeyframe | Resynchronized

definition video_new :: "description \<Rightarrow> u8 list \<Rightarrow> media_error + video_stream" where
  "video_new d config =
     bindr (description_encode d) (\<lambda>encoded.
       if de_plane d \<noteq> MainPlane then Inl InvalidDescription
       else bindr (ok_or InvalidConfiguration (media_configuration config (de_codec d) (de_framing d))) (\<lambda>len.
         Inr \<lparr>vi_description = d, vi_encoded = encoded, vi_configuration = config, vi_length_bytes = len,
              vi_state = \<lparr>vs_queue = [], vs_need_keyframe = True, vs_serving = False, vs_closed = False, vs_last_timestamp = None\<rparr>,
              vi_stopped = False\<rparr>))"

definition with_video :: "video_state \<Rightarrow> video_stream \<Rightarrow> video_stream" where
  "with_video st v = v\<lparr>vi_state := st\<rparr>"

definition publish :: "u8 list \<Rightarrow> u64 \<Rightarrow> bool \<Rightarrow> video_stream \<Rightarrow> video_stream \<times> (media_error + publish_outcome)" where
  "publish payload timestamp keyframe v =
     (if payload = [] \<or> length payload > ACCESS_UNIT_LIMIT then (v, Inl InvalidAccessUnit)
      else case inspect_nals payload (de_codec (vi_description v)) (de_framing (vi_description v)) (vi_length_bytes v) False of
        None \<Rightarrow> (v, Inl InvalidAccessUnit)
      | Some n \<Rightarrow>
          if \<not> na_picture n \<or> na_keyframe n \<noteq> keyframe then (v, Inl InvalidAccessUnit)
          else
            let st = vi_state v in
            if vs_closed st then (v, Inl ClosedError)
            else if timestamp = - 1 \<or> (\<exists>old. vs_last_timestamp st = Some old \<and> timestamp < old) then (v, Inl TimestampError)
            else
              let st = st\<lparr>vs_last_timestamp := Some timestamp\<rparr>;
                  st = (if length (vs_queue st) = QUEUE_LIMIT then st\<lparr>vs_queue := [], vs_need_keyframe := True\<rparr> else st) in
              if vs_need_keyframe st \<and> \<not> keyframe then (with_video st v, Inr NeedKeyframe)
              else
                let discontinuity = vs_need_keyframe st;
                    frame = \<lparr>au_payload = payload, au_timestamp = timestamp, au_keyframe = keyframe, au_discontinuity = discontinuity\<rparr> in
                (with_video (st\<lparr>vs_need_keyframe := False, vs_queue := vs_queue st @ [frame]\<rparr>) v,
                 Inr (if discontinuity then Resynchronized else FrameQueued)))"

definition video_stop :: "video_stream \<Rightarrow> video_stream" where
  "video_stop v = (with_video ((vi_state v)\<lparr>vs_closed := True, vs_queue := []\<rparr>) v)\<lparr>vi_stopped := True\<rparr>"

section \<open>The consumer\<close>

text \<open>What happens to a write: it ends after \<open>n\<close> bytes, unless it completes.\<close>

datatype write_end = WriteDone | WriteTimeout nat | WriteFailed nat io_kind

fun written :: "write_end \<Rightarrow> nat" where
  "written WriteDone = 0"
| "written (WriteTimeout n) = n"
| "written (WriteFailed n e) = n"

definition media_record :: "u32 \<Rightarrow> u8 \<Rightarrow> u8 \<Rightarrow> u64 \<Rightarrow> u8 list \<Rightarrow> u8 list" where
  "media_record serial kind flags timestamp payload =
     str ''ARPM'' @ to_be16 1 @ [kind, flags] @ to_be32 (of_nat (length payload)) @ to_be32 serial @ to_be64 timestamp @ payload"

text \<open>The bytes that reach the socket, and the sequence number afterwards. A stop, at the start or while the write is
  pending, takes precedence over its outcome.\<close>

definition write_record :: "bool \<Rightarrow> write_end \<Rightarrow> u64 \<Rightarrow> u8 \<Rightarrow> u8 \<Rightarrow> u64 \<Rightarrow> u8 list \<Rightarrow> u8 list \<times> (media_error + u64)" where
  "write_record stopped outcome sequence kind flags timestamp payload =
     (let bytes = media_record (ucast sequence) kind flags timestamp payload in
      if stopped then (take (written outcome) bytes, Inl ClosedError)
      else if sequence > 0xFFFFFFFF then ([], Inl SequenceExhausted)
      else case outcome of
        WriteTimeout n \<Rightarrow> (take n bytes, Inl MediaTimeout)
      | WriteFailed n e \<Rightarrow> (take n bytes, Inl (MediaIo e))
      | WriteDone \<Rightarrow> (bytes, Inr (sequence + 1)))"

text \<open>Where \<open>send_to\<close> is suspended: in a write, or at the head of its loop.\<close>

datatype serving = SendDescription | SendConfiguration | Look | SendFrame access_unit

record consumer =
  co_sequence :: u64
  co_stage :: serving

text \<open>What an idle consumer is woken by: a change, or its socket.\<close>

datatype wake = Changed | ReadableFailed io_kind | ReadEnd | ReadByte | WouldBlock | ReadFailed io_kind

definition frame_flags :: "access_unit \<Rightarrow> u8" where
  "frame_flags f = (if au_keyframe f then 1 else 0) OR push_bit 1 (if au_discontinuity f then 1 else 0)"

text \<open>\<open>send_to\<close> up to its first write: the check of the peer and the lease.\<close>

definition send_start :: "io_kind + bool \<Rightarrow> video_stream \<Rightarrow> video_stream \<times> (media_error + consumer)" where
  "send_start peer v =
     (case peer of
        Inl e \<Rightarrow> (v, Inl (MediaIo e))
      | Inr same_user \<Rightarrow>
          if \<not> same_user then (v, Inl PermissionDenied)
          else if vs_closed (vi_state v) then (v, Inl ClosedError)
          else if vs_serving (vi_state v) then (v, Inl AlreadyServing)
          else (with_video ((vi_state v)\<lparr>vs_serving := True\<rparr>) v, Inr \<lparr>co_sequence = 0, co_stage = SendDescription\<rparr>))"

text \<open>\<open>ConsumerLease::drop\<close>.\<close>

definition lease_drop :: "video_stream \<Rightarrow> video_stream" where
  "lease_drop v = with_video ((vi_state v)\<lparr>vs_serving := False, vs_queue := [], vs_need_keyframe := True\<rparr>) v"

text \<open>What leaves one turn of the consumer: the bytes written, the frame completed, and how it goes on.\<close>

datatype media_log =
    Published "u8 list" u64 bool publish_outcome
  | Leased
  | Wrote "u8 list"
  | Delivered access_unit
  | Returned "media_error + unit"

definition finish_write :: "u8 list \<times> (media_error + u64) \<Rightarrow> serving \<Rightarrow> media_log list \<Rightarrow> (consumer + (media_error + unit)) \<times> media_log list" where
  "finish_write w stage log =
     (case snd w of
        Inl e \<Rightarrow> (Inr (Inl e), [Wrote (fst w)])
      | Inr sequence \<Rightarrow> (Inl \<lparr>co_sequence = sequence, co_stage = stage\<rparr>, Wrote (fst w) # log))"

definition consumer_turn :: "write_end \<Rightarrow> wake \<Rightarrow> consumer \<Rightarrow> video_stream \<Rightarrow> video_stream \<times> (consumer + (media_error + unit)) \<times> media_log list" where
  "consumer_turn w k c v =
     (case co_stage c of
        SendDescription \<Rightarrow> (v, finish_write (write_record (vi_stopped v) w (co_sequence c) 1 0 0 (vi_encoded v)) SendConfiguration [])
      | SendConfiguration \<Rightarrow> (v, finish_write (write_record (vi_stopped v) w (co_sequence c) 2 0 0 (vi_configuration v)) Look [])
      | SendFrame f \<Rightarrow>
          (v, finish_write (write_record (vi_stopped v) w (co_sequence c) 3 (frame_flags f) (au_timestamp f) (au_payload f)) Look [Delivered f])
      | Look \<Rightarrow>
          if vs_closed (vi_state v) then (v, Inr (Inr ()), [])
          else case vs_queue (vi_state v) of
            f # queue \<Rightarrow> (with_video ((vi_state v)\<lparr>vs_queue := queue\<rparr>) v, Inl (c\<lparr>co_stage := SendFrame f\<rparr>), [])
          | [] \<Rightarrow>
              case k of
                Changed \<Rightarrow> (v, Inl c, [])
              | ReadableFailed e \<Rightarrow> (v, Inr (Inl (MediaIo e)), [])
              | ReadEnd \<Rightarrow> (v, Inr (Inl ConsumerDisconnected), [])
              | ReadByte \<Rightarrow> (v, Inr (Inl ConsumerData), [])
              | WouldBlock \<Rightarrow> (v, Inl c, [])
              | ReadFailed e \<Rightarrow> (v, Inr (Inl (MediaIo e)), []))"

section \<open>The stream and its consumer together\<close>

text \<open>\<open>Cancel\<close> drops the future of \<open>send_to\<close> wherever it is suspended.\<close>

datatype media_event =
    Publish "u8 list" u64 bool
  | StopStream
  | SendTo "io_kind + bool"
  | Turn write_end wake
  | Cancel

type_synonym media = "video_stream \<times> consumer option"

fun media_step :: "media \<Rightarrow> media_event \<Rightarrow> media \<times> media_log list" where
  "media_step (v, c) (Publish payload timestamp keyframe) =
     (case publish payload timestamp keyframe v of
        (v, Inl e) \<Rightarrow> ((v, c), [])
      | (v, Inr outcome) \<Rightarrow> ((v, c), [Published payload timestamp keyframe outcome]))"
| "media_step (v, c) StopStream = ((video_stop v, c), [])"
| "media_step (v, c) (SendTo peer) =
     (case send_start peer v of
        (v, Inl e) \<Rightarrow> ((v, c), [Returned (Inl e)])
      | (v, Inr consumer) \<Rightarrow> ((v, Some consumer), [Leased]))"
| "media_step (v, c) (Turn w k) =
     (case c of
        None \<Rightarrow> ((v, c), [])
      | Some consumer \<Rightarrow>
          (case consumer_turn w k consumer v of
             (v, Inl consumer, log) \<Rightarrow> ((v, Some consumer), log)
           | (v, Inr r, log) \<Rightarrow> ((lease_drop v, None), log @ [Returned r])))"
| "media_step (v, c) Cancel = (case c of None \<Rightarrow> ((v, c), []) | Some _ \<Rightarrow> ((lease_drop v, None), []))"


section \<open>Every delivered picture is decodable\<close>

text \<open>Seen from outside: the pictures the stream has accepted for publication (queued or discarded), the frames and
  the bytes its present consumer has received.\<close>

record view =
  vw_published :: "(u8 list \<times> u64 \<times> bool) list"
  vw_frames :: "access_unit list"
  vw_bytes :: "u8 list"

fun observe :: "view \<Rightarrow> media_log \<Rightarrow> view" where
  "observe vw (Published payload timestamp keyframe outcome) = vw\<lparr>vw_published := vw_published vw @ [(payload, timestamp, keyframe)]\<rparr>"
| "observe vw Leased = vw\<lparr>vw_frames := [], vw_bytes := []\<rparr>"
| "observe vw (Wrote bs) = vw\<lparr>vw_bytes := vw_bytes vw @ bs\<rparr>"
| "observe vw (Delivered f) = vw\<lparr>vw_frames := vw_frames vw @ [f]\<rparr>"
| "observe vw (Returned r) = vw"

definition media_view :: "video_stream \<Rightarrow> media_event list \<Rightarrow> view" where
  "media_view v es = foldl observe \<lparr>vw_published = [], vw_frames = [], vw_bytes = []\<rparr> (concat (snd (run_machine media_step (v, None) es)))"

text \<open>Frames are pictures of the publication, in order; a discontinuity is a keyframe, and anything else directly follows
  the frame before it.\<close>

definition picture :: "access_unit \<Rightarrow> u8 list \<times> u64 \<times> bool" where
  "picture f = (au_payload f, au_timestamp f, au_keyframe f)"

definition frame_ok :: "(u8 list \<times> u64 \<times> bool) list \<Rightarrow> access_unit list \<Rightarrow> nat list \<Rightarrow> nat \<Rightarrow> bool" where
  "frame_ok ps fs js k \<longleftrightarrow> js ! k < length ps \<and> ps ! (js ! k) = picture (fs ! k)
     \<and> (if au_discontinuity (fs ! k) then au_keyframe (fs ! k) else 0 < k \<and> js ! k = Suc (js ! (k - 1)))"

definition follows :: "(u8 list \<times> u64 \<times> bool) list \<Rightarrow> access_unit list \<Rightarrow> nat list \<Rightarrow> bool" where
  "follows ps fs js \<longleftrightarrow> length js = length fs \<and> sorted_wrt (<) js \<and> (\<forall>k < length fs. frame_ok ps fs js k)"

definition decodable :: "(u8 list \<times> u64 \<times> bool) list \<Rightarrow> access_unit list \<Rightarrow> bool" where
  "decodable ps fs \<longleftrightarrow> (\<exists>js. follows ps fs js)"

lemma follows_Nil [simp]: "follows ps  [] js \<longleftrightarrow> js = []"
  by (auto simp: follows_def)

lemma frame_ok_append:
  assumes "k < length fs" "length js = length fs"
  shows "frame_ok (ps @ qs) (fs @ gs) (js @ is) k \<longleftrightarrow> (if js ! k < length ps then frame_ok ps fs js k else frame_ok (ps @ qs) fs js k)"
proof -
  have "(fs @ gs) ! k = fs ! k" "(js @ is) ! k = js ! k" "(js @ is) ! (k - 1) = js ! (k - 1)"
    using assms by (auto simp: nth_append)
  then show ?thesis unfolding frame_ok_def by (simp add: nth_append)
qed

lemma follows_published: "follows ps fs js \<Longrightarrow> follows (ps @ qs) fs js"
  unfolding follows_def frame_ok_def by (auto simp: nth_append)

lemma follows_take:
  assumes "follows ps (fs @ gs) js"
  shows "follows ps fs (take (length fs) js)"
proof -
  have "frame_ok ps fs (take (length fs) js) k" if "k < length fs" for k
    using assms that frame_ok_append [of k fs "take (length fs) js" ps "[]" gs "drop (length fs) js"]
    by (auto simp: follows_def split: if_splits)
  then show ?thesis using assms by (auto simp: follows_def sorted_wrt_take)
qed

lemma follows_snoc:
  assumes f: "follows ps fs js" and d: "if au_discontinuity f then au_keyframe f else fs \<noteq> [] \<and> last js = length ps - 1"
  shows "follows (ps @ [picture f]) (fs @ [f]) (js @ [length ps])"
proof -
  have l: "length js = length fs" and s: "sorted_wrt (<) js" and ok: "\<And>k. k < length fs \<Longrightarrow> frame_ok ps fs js k"
    using f by (auto simp: follows_def)
  have b: "i < length ps" if "i \<in> set js" for i
    using that ok l by (auto simp: in_set_conv_nth frame_ok_def)
  have new: "frame_ok (ps @ [picture f]) (fs @ [f]) (js @ [length ps]) (length fs)"
  proof (cases "au_discontinuity f")
    case True
    then show ?thesis using d l by (simp add: frame_ok_def nth_append)
  next
    case False
    then have ne: "fs \<noteq> []" "last js = length ps - 1" using d by auto
    then have "js \<noteq> []" using l by auto
    then have "js ! (length fs - 1) = length ps - 1" "length ps - 1 < length ps"
      using ne l b [of "last js"] last_in_set [of js] by (auto simp: last_conv_nth)
    then show ?thesis using False l ne by (simp add: frame_ok_def nth_append)
  qed
  have "frame_ok (ps @ [picture f]) (fs @ [f]) (js @ [length ps]) k" if k: "k < Suc (length fs)" for k
  proof (cases "k = length fs")
    case False
    then have "k < length fs" using k by simp
    moreover have "js ! k < length ps" using ok [OF calculation] by (simp add: frame_ok_def)
    ultimately show ?thesis using ok l by (simp add: frame_ok_append)
  qed (use new in simp)
  then show ?thesis using s l b by (simp add: follows_def sorted_wrt_append)
qed

text \<open>What the consumer has, will have after its write, and what waits in the queue.\<close>

fun in_flight :: "consumer option \<Rightarrow> access_unit list" where
  "in_flight None = []"
| "in_flight (Some c) = (case co_stage c of SendFrame f \<Rightarrow> [f] | _ \<Rightarrow> [])"

definition ahead :: "view \<Rightarrow> media \<Rightarrow> access_unit list" where
  "ahead vw m = (case snd m of None \<Rightarrow> [] | Some c \<Rightarrow> vw_frames vw @ in_flight (Some c)) @ vs_queue (vi_state (fst m))"

definition chained :: "view \<Rightarrow> media \<Rightarrow> bool" where
  "chained vw m \<longleftrightarrow> decodable (vw_published vw) (vw_frames vw)
     \<and> length (vs_queue (vi_state (fst m))) \<le> QUEUE_LIMIT
     \<and> (vs_serving (vi_state (fst m)) \<longleftrightarrow> snd m \<noteq> None)
     \<and> (\<exists>js. follows (vw_published vw) (ahead vw m) js
          \<and> (\<not> vs_need_keyframe (vi_state (fst m)) \<and> \<not> vs_closed (vi_state (fst m))
             \<longrightarrow> ahead vw m \<noteq> [] \<and> last js = length (vw_published vw) - 1))"

lemma publish_Inr:
  assumes "publish payload timestamp keyframe v = (v', Inr outcome)"
  obtains queue need where "(queue, need) = (if length (vs_queue (vi_state v)) = QUEUE_LIMIT then ([], True)
        else (vs_queue (vi_state v), vs_need_keyframe (vi_state v)))"
    and "\<not> vs_closed (vi_state v)" and "vs_closed (vi_state v') = vs_closed (vi_state v)" "vs_serving (vi_state v') = vs_serving (vi_state v)"
    and "need \<and> \<not> keyframe \<and> vs_queue (vi_state v') = queue \<and> vs_need_keyframe (vi_state v')
     \<or> (need \<longrightarrow> keyframe) \<and> \<not> vs_need_keyframe (vi_state v') \<and> vs_queue (vi_state v') =
         queue @ [\<lparr>au_payload = payload, au_timestamp = timestamp, au_keyframe = keyframe, au_discontinuity = need\<rparr>]"
  using assms by (auto simp: publish_def with_video_def Let_def split: if_splits option.splits)

lemma chained_publish:
  assumes "chained vw (v, c)" "publish payload timestamp keyframe v = (v', Inr outcome)"
  shows "chained (observe vw (Published payload timestamp keyframe outcome)) (v', c)"
proof -
  let ?q = "vs_queue (vi_state v)" and ?ps = "vw_published vw" and ?ps' = "vw_published vw @ [(payload, timestamp, keyframe)]"
  define xs where "xs = ahead vw (v\<lparr>vi_state := (vi_state v)\<lparr>vs_queue := []\<rparr>\<rparr>, c)"
  have a: "ahead vw (u, c) = xs @ vs_queue (vi_state u)" for u
    by (simp add: xs_def ahead_def)
  have a': "ahead (vw\<lparr>vw_published := p\<rparr>) m = ahead vw m" for p m
    by (simp add: ahead_def split: option.splits)
  from publish_Inr [OF assms(2)] obtain queue need where
    q: "(queue, need) = (if length ?q = QUEUE_LIMIT then ([], True) else (?q, vs_need_keyframe (vi_state v)))"
    and st: "\<not> vs_closed (vi_state v)" "vs_closed (vi_state v') = vs_closed (vi_state v)" "vs_serving (vi_state v') = vs_serving (vi_state v)"
    and r: "need \<and> \<not> keyframe \<and> vs_queue (vi_state v') = queue \<and> vs_need_keyframe (vi_state v')
     \<or> (need \<longrightarrow> keyframe) \<and> \<not> vs_need_keyframe (vi_state v') \<and> vs_queue (vi_state v') =
         queue @ [\<lparr>au_payload = payload, au_timestamp = timestamp, au_keyframe = keyframe, au_discontinuity = need\<rparr>]" .
  have inv: "decodable ?ps (vw_frames vw)" "length ?q \<le> QUEUE_LIMIT" "vs_serving (vi_state v) \<longleftrightarrow> c \<noteq> None"
    using assms(1) by (auto simp: chained_def)
  obtain js where js: "follows ?ps (xs @ ?q) js" "\<not> vs_need_keyframe (vi_state v) \<longrightarrow> xs @ ?q \<noteq> [] \<and> last js = length ?ps - 1"
    using assms(1) st by (auto simp: chained_def a)
  obtain ks where ks: "follows ?ps (xs @ queue) ks" "\<not> need \<longrightarrow> xs @ queue \<noteq> [] \<and> last ks = length ?ps - 1"
    "length queue < QUEUE_LIMIT \<or> queue = []"
    using q js inv(2) follows_take [OF js(1)] by (auto split: if_splits)
  have d: "decodable ?ps' (vw_frames vw)" using inv(1) by (auto simp: decodable_def intro: follows_published)
  from r show ?thesis
  proof
    assume "need \<and> \<not> keyframe \<and> vs_queue (vi_state v') = queue \<and> vs_need_keyframe (vi_state v')"
    then show ?thesis using ks inv st d follows_published [OF ks(1)] by (auto simp: chained_def a a' QUEUE_LIMIT_def)
  next
    let ?f = "\<lparr>au_payload = payload, au_timestamp = timestamp, au_keyframe = keyframe, au_discontinuity = need\<rparr>"
    assume f: "(need \<longrightarrow> keyframe) \<and> \<not> vs_need_keyframe (vi_state v') \<and> vs_queue (vi_state v') = queue @ [?f]"
    have "follows ?ps' ((xs @ queue) @ [?f]) (ks @ [length ?ps])"
      using follows_snoc [OF ks(1), of ?f] ks(2) f by (auto simp: picture_def)
    then show ?thesis using f ks(3) inv st d
      by (auto simp: chained_def a a' QUEUE_LIMIT_def intro!: exI [of _ "ks @ [length ?ps]"])
  qed
qed

lemma publish_error: "publish payload timestamp keyframe v = (v', Inl e) \<Longrightarrow> v' = v"
  by (auto simp: publish_def Let_def split: if_splits option.splits)

lemma chained_drop: "chained vw (v, c) \<Longrightarrow> chained vw (lease_drop v, None)"
  by (auto simp: chained_def lease_drop_def with_video_def ahead_def)

lemma chained_cong:
  "chained vw m \<Longrightarrow> vw_published vw' = vw_published vw \<Longrightarrow> decodable (vw_published vw) (vw_frames vw')
   \<Longrightarrow> ahead vw' m' = ahead vw m \<Longrightarrow> vs_need_keyframe (vi_state (fst m')) = vs_need_keyframe (vi_state (fst m))
   \<Longrightarrow> vs_closed (vi_state (fst m')) = vs_closed (vi_state (fst m)) \<Longrightarrow> vs_serving (vi_state (fst m')) = (snd m' \<noteq> None)
   \<Longrightarrow> length (vs_queue (vi_state (fst m'))) \<le> QUEUE_LIMIT \<Longrightarrow> chained vw' m'"
  by (simp add: chained_def)

lemma chained_bytes: "chained (vw\<lparr>vw_bytes := b\<rparr>) m \<longleftrightarrow> chained vw m"
  by (simp add: chained_def ahead_def split: option.splits)

lemma finish_write_cases:
  obtains e where "finish_write w stage log = (Inr (Inl e), [Wrote (fst w)])"
  | q where "finish_write w stage log = (Inl \<lparr>co_sequence = q, co_stage = stage\<rparr>, Wrote (fst w) # log)"
  by (cases "snd w") (auto simp: finish_write_def)

lemma chained_failed: "chained vw (v, Some c) \<Longrightarrow> chained (observe vw (Wrote b)) (lease_drop v, None)"
  by (simp add: chained_bytes chained_drop)

lemma chained_pop:
  assumes "chained vw (v, Some c)" "co_stage c = Look" "vs_queue (vi_state v) = f # queue"
  shows "chained vw (with_video ((vi_state v)\<lparr>vs_queue := queue\<rparr>) v, Some (c\<lparr>co_stage := SendFrame f\<rparr>))"
  using assms(1) by (rule chained_cong) (use assms in \<open>auto simp: ahead_def with_video_def chained_def\<close>)

lemma chained_delivered:
  assumes "chained vw (v, Some c)" "co_stage c = SendFrame f"
  shows "chained (observe (observe vw (Wrote b)) (Delivered f)) (v, Some \<lparr>co_sequence = q, co_stage = Look\<rparr>)"
proof -
  obtain js where "follows (vw_published vw) ((vw_frames vw @ [f]) @ vs_queue (vi_state v)) js"
    using assms by (auto simp: chained_def ahead_def)
  then have "decodable (vw_published vw) (vw_frames vw @ [f])"
    unfolding decodable_def by (blast dest: follows_take)
  with assms(1) show ?thesis
    by (elim chained_cong) (use assms in \<open>auto simp: ahead_def chained_def\<close>)
qed

lemma chained_wrote:
  assumes "chained vw (v, Some c)" "in_flight (Some c) = []" "in_flight (Some c') = []"
  shows "chained (observe vw (Wrote b)) (v, Some c')"
  using assms(1) by (elim chained_cong) (use assms in \<open>auto simp: ahead_def chained_def\<close>)

lemma chained_turn:
  assumes "chained vw (v, Some c)" "consumer_turn w k c v = (v', r, log)"
  shows "chained (foldl observe vw log) (case r of Inl c' \<Rightarrow> (v', Some c') | Inr r \<Rightarrow> (lease_drop v', None))"
proof (cases "co_stage c")
  case SendDescription
  then show ?thesis
    by (cases rule: finish_write_cases [of "write_record (vi_stopped v) w (co_sequence c) 1 0 0 (vi_encoded v)" SendConfiguration "[]"])
      (use assms chained_wrote [OF assms(1)] in \<open>auto simp: consumer_turn_def intro: chained_failed [simplified]\<close>)
next
  case SendConfiguration
  then show ?thesis
    by (cases rule: finish_write_cases [of "write_record (vi_stopped v) w (co_sequence c) 2 0 0 (vi_configuration v)" Look "[]"])
      (use assms chained_wrote [OF assms(1)] in \<open>auto simp: consumer_turn_def intro: chained_failed [simplified]\<close>)
next
  case (SendFrame f)
  then show ?thesis
    by (cases rule: finish_write_cases [of "write_record (vi_stopped v) w (co_sequence c) 3 (frame_flags f) (au_timestamp f) (au_payload f)" Look "[Delivered f]"])
      (use assms chained_delivered [OF assms(1) SendFrame] in \<open>auto simp: consumer_turn_def intro: chained_failed [simplified]\<close>)
next
  case Look
  then show ?thesis using assms
    by (auto simp: consumer_turn_def chained_drop chained_pop split: if_splits list.splits wake.splits)
qed

lemma chained_start:
  assumes "chained vw (v, c)" "send_start peer v = (v', Inr c')"
  shows "chained (observe vw Leased) (v', Some c')"
proof -
  have "c = None" using assms by (auto simp: chained_def send_start_def split: sum.splits if_splits)
  moreover have "decodable (vw_published vw) []" by (auto simp: decodable_def)
  ultimately show ?thesis using assms
    by (auto intro!: chained_cong [of vw "(v, c)"] simp: ahead_def send_start_def with_video_def chained_def
        split: sum.splits if_splits)
qed

lemma chained_stop:
  assumes "chained vw (v, c)"
  shows "chained vw (video_stop v, c)"
proof -
  obtain js where "follows (vw_published vw) (ahead vw (v, c)) js" using assms by (auto simp: chained_def)
  moreover have "ahead vw (v, c) = ahead vw (video_stop v, c) @ vs_queue (vi_state v)"
    by (auto simp: ahead_def video_stop_def with_video_def)
  ultimately have "\<exists>js. follows (vw_published vw) (ahead vw (video_stop v, c)) js"
    by (metis follows_take)
  then show ?thesis using assms by (auto simp: chained_def video_stop_def with_video_def)
qed

lemma chained_step:
  assumes "chained vw m"
  shows "chained (foldl observe vw (snd (media_step m e))) (fst (media_step m e))"
proof (cases m)
  case (Pair v c)
  show ?thesis
  proof (cases e)
    case (Publish payload timestamp keyframe)
    obtain v' r where p: "publish payload timestamp keyframe v = (v', r)" by fastforce
    then show ?thesis using assms Pair Publish chained_publish [of vw v c] publish_error [of payload timestamp keyframe v]
      by (cases r) auto
  next
    case StopStream
    then show ?thesis using assms Pair by (simp add: chained_stop)
  next
    case (SendTo peer)
    obtain v' r where p: "send_start peer v = (v', r)" by fastforce
    have "v' = v" if "r = Inl x" for x using p that by (auto simp: send_start_def split: sum.splits if_splits)
    then show ?thesis using p assms Pair SendTo chained_start [of vw v c peer v'] by (cases r) auto
  next
    case (Turn w k)
    show ?thesis
    proof (cases c)
      case (Some consumer)
      obtain v' r log where t: "consumer_turn w k consumer v = (v', r, log)" by (metis surj_pair)
      have "observe vw (Returned x) = vw" for vw x by simp
      then show ?thesis using assms Pair Turn Some t chained_turn [OF _ t, of vw] by (auto split: sum.splits)
    qed (use assms Pair Turn in simp)
  next
    case Cancel
    then show ?thesis using assms Pair chained_drop by (cases c) auto
  qed
qed

lemma chained_run:
  "chained vw m \<Longrightarrow> chained (foldl observe vw (concat (snd (run_machine media_step m es)))) (fst (run_machine media_step m es))"
proof (induction es arbitrary: vw m)
  case (Cons e es)
  show ?case using Cons.IH [OF chained_step [OF Cons.prems, of e]]
    by (simp add: case_prod_unfold)
qed simp

text \<open>C17. Whatever is published, stopped, connected, written or cancelled in whatever order: the frames the present consumer
  received are pictures of the publication in their order, and each either is a keyframe marked as a discontinuity or
  directly follows the frame received before it. So no frame is ever decoded against a reference picture the consumer did not get.\<close>

theorem media_decodable:
  assumes "video_new d config = Inr v"
  shows "let vw = media_view v es in decodable (vw_published vw) (vw_frames vw)"
proof -
  let ?vw = "\<lparr>vw_published = [], vw_frames = [], vw_bytes = []\<rparr>"
  have "chained ?vw (v, None)"
    using assms by (auto simp: video_new_def chained_def decodable_def ahead_def split: if_splits)
  then show ?thesis using chained_run [of ?vw "(v, None)" es]
    by (simp add: media_view_def chained_def)
qed

definition example_description :: description where
  "example_description = \<lparr>de_protocol = CarPlay, de_plane = MainPlane, de_codec = H264, de_colorimetry = Bt709, de_range = Full,
     de_framing = LengthPrefixed, de_width = 1280, de_height = 720, de_fps_num = 60, de_fps_den = 1, de_session = 7\<rparr>"

definition example_config :: "u8 list" where
  "example_config = [1, 66, 0, 30, 255, 225, 0, 2, 0x67, 1, 1, 0, 2, 0x68, 1]"

definition example_events :: "media_event list" where
  "example_events = [Publish [0, 0, 0, 2, 0x41, 1] 1 False, Publish [0, 0, 0, 2, 0x65, 1] 2 True, SendTo (Inr True), Turn WriteDone Changed,
     Turn WriteDone Changed, Turn WriteDone Changed, Turn WriteDone Changed, Publish [0, 0, 0, 2, 0x41, 1] 3 False,
     Turn WriteDone Changed, Turn WriteDone Changed]"

lemma example_nals:
  "inspect_nals [0, 0, 0, 2, 0x65, 1] H264 LengthPrefixed 4 False = Some \<lparr>na_parameters = 0, na_keyframe = True, na_picture = True\<rparr>"
  "inspect_nals [0, 0, 0, 2, 0x41, 1] H264 LengthPrefixed 4 False = Some \<lparr>na_parameters = 0, na_keyframe = False, na_picture = True\<rparr>"
  by (simp_all add: inspect_nals_def inspect_loop.simps nal_cut_def be_number_def media_nal_type_def parameter_bit_def NAL_LIMIT_def
      nals_add_def nals_none_def Let_def)

lemma example_configuration: "media_configuration example_config H264 LengthPrefixed = Some 4"
  by (simp add: media_configuration_def example_config_def CONFIG_LIMIT_def configuration_read_def cr_byte_def cr_word_def
      get_at_def get_range_def media_nal_type_def parameter_bit_def full_parameters_def Let_def NAL_LIMIT_def)

lemma example_stream:
  "case video_new example_description example_config of Inl e \<Rightarrow> False
   | Inr v \<Rightarrow> map au_timestamp (vw_frames (media_view v example_events)) = [2, 3]"
  by (simp add: video_new_def example_description_def example_configuration description_encode_def media_view_def example_events_def
      publish_def example_nals ACCESS_UNIT_LIMIT_def QUEUE_LIMIT_def with_video_def Let_def send_start_def consumer_turn_def write_record_def
      finish_write_def)

theorem media_decodable_witness:
  "\<exists>v. video_new example_description example_config = Inr v \<and> map au_timestamp (vw_frames (media_view v example_events)) = [2, 3]
     \<and> decodable (vw_published (media_view v example_events)) (vw_frames (media_view v example_events))"
proof (cases "video_new example_description example_config")
  case (Inr v)
  then have "map au_timestamp (vw_frames (media_view v example_events)) = [2, 3]" using example_stream by simp
  with Inr media_decodable [OF Inr, of example_events] show ?thesis unfolding Let_def by (intro exI [of _ v] conjI)
next
  case (Inl e)
  then show ?thesis using example_stream by simp
qed

section \<open>The bytes of a consumer\<close>

text \<open>The framed stream of a list of frames: description, configuration, one record for each frame, numbered from 0.\<close>

fun numbered :: "nat \<Rightarrow> (u8 \<times> u8 \<times> u64 \<times> u8 list) list \<Rightarrow> u8 list" where
  "numbered n [] = []"
| "numbered n ((kind, flags, timestamp, payload) # rs) = media_record (of_nat n) kind flags timestamp payload @ numbered (Suc n) rs"

definition frame_records :: "video_stream \<Rightarrow> access_unit list \<Rightarrow> (u8 \<times> u8 \<times> u64 \<times> u8 list) list" where
  "frame_records v fs = (1, 0, 0, vi_encoded v) # (2, 0, 0, vi_configuration v)
     # map (\<lambda>f. (3, frame_flags f, au_timestamp f, au_payload f)) fs"

definition wire :: "video_stream \<Rightarrow> access_unit list \<Rightarrow> u8 list" where
  "wire v fs = numbered 0 (frame_records v fs)"

lemma numbered_append: "numbered n (rs @ qs) = numbered n rs @ numbered (n + length rs) qs"
  by (induction n rs rule: numbered.induct) auto

lemma wire_snoc: "wire v (fs @ [f]) = wire v fs @ media_record (of_nat (2 + length fs)) 3 (frame_flags f) (au_timestamp f) (au_payload f)"
  using numbered_append [of 0 "frame_records v fs" "[(3, frame_flags f, au_timestamp f, au_payload f)]"]
  by (simp add: wire_def frame_records_def)

definition framed :: "video_stream \<Rightarrow> view \<Rightarrow> bool" where
  "framed v vw \<longleftrightarrow> (\<exists>rest. length rest \<le> 1 \<and> prefix (vw_bytes vw) (wire v (vw_frames vw @ rest)))
     \<and> (vw_frames vw \<noteq> [] \<longrightarrow> prefix (wire v (vw_frames vw)) (vw_bytes vw))"

fun sending :: "video_stream \<Rightarrow> view \<Rightarrow> consumer option \<Rightarrow> bool" where
  "sending v vw None = True"
| "sending v vw (Some c) =
     (case co_stage c of
        SendDescription \<Rightarrow> vw_frames vw = [] \<and> vw_bytes vw = [] \<and> co_sequence c = 0
      | SendConfiguration \<Rightarrow> vw_frames vw = [] \<and> vw_bytes vw = media_record 0 1 0 0 (vi_encoded v) \<and> co_sequence c = 1
      | _ \<Rightarrow> vw_bytes vw = wire v (vw_frames vw) \<and> unat (co_sequence c) = 2 + length (vw_frames vw))"

definition same_stream :: "video_stream \<Rightarrow> video_stream \<Rightarrow> bool" where
  "same_stream v u \<longleftrightarrow> vi_encoded u = vi_encoded v \<and> vi_configuration u = vi_configuration v"

definition framed_run :: "video_stream \<Rightarrow> view \<Rightarrow> media \<Rightarrow> bool" where
  "framed_run v vw m \<longleftrightarrow> framed v vw \<and> same_stream v (fst m) \<and> sending v vw (snd m)"

lemma write_record_prefix: "prefix (fst (write_record st w q kind flags t p)) (media_record (ucast q) kind flags t p)"
  by (auto simp: write_record_def Let_def take_is_prefix split: write_end.splits)

lemma write_record_ok:
  "snd (write_record st w q kind flags t p) = Inr q' \<longleftrightarrow> \<not> st \<and> q \<le> 0xFFFFFFFF \<and> w = WriteDone \<and> q' = q + 1"
  by (auto simp: write_record_def Let_def not_less split: write_end.splits)

lemma write_record_all: "snd (write_record st w q kind flags t p) = Inr q' \<Longrightarrow>
    fst (write_record st w q kind flags t p) = media_record (ucast q) kind flags t p"
  by (auto simp: write_record_def Let_def split: write_end.splits if_splits)

lemma framed_start: "prefix bs (media_record 0 1 0 0 (vi_encoded v)) \<Longrightarrow> vw_frames vw = [] \<Longrightarrow> vw_bytes vw = bs \<Longrightarrow> framed v vw"
  by (auto simp: framed_def wire_def frame_records_def intro!: exI [of _ "[]"] intro: prefix_order.trans [OF _ prefixI])

lemma framed_config:
  "prefix bs (media_record 1 2 0 0 (vi_configuration v)) \<Longrightarrow> vw_frames vw = []
   \<Longrightarrow> vw_bytes vw = media_record 0 1 0 0 (vi_encoded v) @ bs \<Longrightarrow> framed v vw"
  by (auto simp: framed_def wire_def frame_records_def intro!: exI [of _ "[]"])

lemma framed_frame:
  "prefix bs (media_record (of_nat (2 + length (vw_frames vw))) 3 (frame_flags f) (au_timestamp f) (au_payload f))
   \<Longrightarrow> vw_bytes vw = wire v (vw_frames vw) @ bs \<Longrightarrow> framed v vw"
  unfolding framed_def by (auto simp: wire_snoc intro!: exI [of _ "[f]"])

lemma framed_whole: "vw_bytes vw = wire v (vw_frames vw) \<Longrightarrow> framed v vw"
  by (auto simp: framed_def intro!: exI [of _ "[]"])

lemma sequence_serial: "unat (q :: u64) = n \<Longrightarrow> (ucast q :: u32) = of_nat n"
  by auto

lemma sequence_next: "q \<le> 0xFFFFFFFF \<Longrightarrow> unat (q + 1 :: u64) = Suc (unat q)"
  by (simp add: word_le_nat_alt unat_word_ariths)

text \<open>A turn that writes a record: what was written is framed, and the consumer goes on after the whole record.\<close>

lemma framed_write:
  assumes "consumer_turn w k c v = (v, finish_write W stage extra)" "consumer_turn w k c v = (v', r, log)"
    and "same_stream v0 v" "framed v0 (observe vw (Wrote (fst W)))"
    and "\<And>q. snd W = Inr q \<Longrightarrow> framed_run v0 (foldl observe vw (Wrote (fst W) # extra)) (v, Some \<lparr>co_sequence = q, co_stage = stage\<rparr>)"
  shows "framed_run v0 (foldl observe vw log) (case r of Inl c' \<Rightarrow> (v', Some c') | Inr r \<Rightarrow> (lease_drop v', None))"
proof (cases "snd W")
  case (Inl e)
  then have "r = Inr (Inl e)" "log = [Wrote (fst W)]" "v' = v" using assms(1,2) by (auto simp: finish_write_def)
  then show ?thesis using assms(3,4) by (simp add: framed_run_def same_stream_def lease_drop_def with_video_def)
next
  case (Inr q)
  then have "r = Inl \<lparr>co_sequence = q, co_stage = stage\<rparr>" "log = Wrote (fst W) # extra" "v' = v"
    using assms(1,2) by (auto simp: finish_write_def)
  then show ?thesis using assms(5) [OF Inr] by simp
qed

lemma framed_turn:
  assumes "framed_run v0 vw (v, Some c)" "consumer_turn w k c v = (v', r, log)"
  shows "framed_run v0 (foldl observe vw log) (case r of Inl c' \<Rightarrow> (v', Some c') | Inr r \<Rightarrow> (lease_drop v', None))"
proof -
  have ss: "same_stream v0 v" and s: "sending v0 vw (Some c)" and fr: "framed v0 vw"
    using assms(1) by (auto simp: framed_run_def)
  then have same: "vi_encoded v = vi_encoded v0" "vi_configuration v = vi_configuration v0" by (auto simp: same_stream_def)
  show ?thesis
  proof (cases "co_stage c")
    case SendDescription
    let ?w = "write_record (vi_stopped v) w (co_sequence c) 1 0 0 (vi_encoded v)"
    have z: "co_sequence c = 0" "vw_frames vw = []" "vw_bytes vw = []" using s SendDescription by auto
    have b: "prefix (fst ?w) (media_record 0 1 0 0 (vi_encoded v0))"
      using write_record_prefix [of _ _ "co_sequence c"] z same by simp
    have f: "framed v0 (observe vw (Wrote (fst ?w)))" using framed_start [OF b] z by simp
    show ?thesis
    proof (rule framed_write [OF _ assms(2) ss f])
      show "consumer_turn w k c v = (v, finish_write ?w SendConfiguration [])" using SendDescription by (simp add: consumer_turn_def)
      fix q assume q: "snd ?w = Inr q"
      show "framed_run v0 (foldl observe vw [Wrote (fst ?w)]) (v, Some \<lparr>co_sequence = q, co_stage = SendConfiguration\<rparr>)"
        using q f z ss same write_record_all [OF q] by (simp add: framed_run_def write_record_ok)
    qed
  next
    case SendConfiguration
    let ?w = "write_record (vi_stopped v) w (co_sequence c) 2 0 0 (vi_configuration v)"
    have z: "co_sequence c = 1" "vw_frames vw = []" "vw_bytes vw = media_record 0 1 0 0 (vi_encoded v0)" using s SendConfiguration by auto
    have b: "prefix (fst ?w) (media_record 1 2 0 0 (vi_configuration v0))"
      using write_record_prefix [of _ _ "co_sequence c"] z same by simp
    have f: "framed v0 (observe vw (Wrote (fst ?w)))" using framed_config [OF b] z by simp
    show ?thesis
    proof (rule framed_write [OF _ assms(2) ss f])
      show "consumer_turn w k c v = (v, finish_write ?w Look [])" using SendConfiguration by (simp add: consumer_turn_def)
      fix q assume q: "snd ?w = Inr q"
      show "framed_run v0 (foldl observe vw [Wrote (fst ?w)]) (v, Some \<lparr>co_sequence = q, co_stage = Look\<rparr>)"
        using q f z ss same write_record_all [OF q] by (simp add: framed_run_def write_record_ok wire_def frame_records_def)
    qed
  next
    case (SendFrame f)
    let ?w = "write_record (vi_stopped v) w (co_sequence c) 3 (frame_flags f) (au_timestamp f) (au_payload f)"
    let ?r = "media_record (of_nat (2 + length (vw_frames vw))) 3 (frame_flags f) (au_timestamp f) (au_payload f)"
    have z: "unat (co_sequence c) = 2 + length (vw_frames vw)" "vw_bytes vw = wire v0 (vw_frames vw)" using s SendFrame by auto
    have b: "prefix (fst ?w) ?r"
      using write_record_prefix [of _ _ "co_sequence c"] sequence_serial [OF z(1)] by metis
    have fr: "framed v0 (observe vw (Wrote (fst ?w)))"
      using framed_frame [of "fst ?w" "observe vw (Wrote (fst ?w))"] b z by simp
    show ?thesis
    proof (rule framed_write [OF _ assms(2) ss fr])
      show "consumer_turn w k c v = (v, finish_write ?w Look [Delivered f])" using SendFrame by (simp add: consumer_turn_def)
      fix q assume q: "snd ?w = Inr q"
      have all: "fst ?w = ?r" using write_record_all [OF q] sequence_serial [OF z(1)] by metis
      have "unat q = Suc (unat (co_sequence c))" using q sequence_next [of "co_sequence c"] by (auto simp: write_record_ok)
      moreover let ?vw = "foldl observe vw [Wrote (fst ?w), Delivered f]"
      have "vw_bytes ?vw = wire v0 (vw_frames ?vw)" using all z by (simp add: wire_snoc)
      ultimately show "framed_run v0 ?vw (v, Some \<lparr>co_sequence = q, co_stage = Look\<rparr>)"
        using framed_whole [of ?vw v0] z ss by (simp add: framed_run_def)
    qed
  next
    case Look
    then show ?thesis using assms(2) s ss fr
      by (auto simp: consumer_turn_def framed_run_def same_stream_def with_video_def lease_drop_def split: if_splits list.splits wake.splits)
  qed
qed

lemma same_publish: "publish payload timestamp keyframe v = (v', r) \<Longrightarrow> same_stream v0 v' = same_stream v0 v"
  by (auto simp: publish_def Let_def with_video_def same_stream_def split: if_splits option.splits)

lemma same_start: "send_start peer v = (v', r) \<Longrightarrow> same_stream v0 v' = same_stream v0 v"
  by (auto simp: send_start_def with_video_def same_stream_def split: if_splits sum.splits)

lemma sending_published [simp]: "sending v0 (vw\<lparr>vw_published := p\<rparr>) c = sending v0 vw c"
  by (cases c) (simp_all split: serving.splits)

lemma framed_published [simp]: "framed v0 (vw\<lparr>vw_published := p\<rparr>) = framed v0 vw"
  by (simp add: framed_def)

lemma framed_step:
  assumes "framed_run v0 vw m"
  shows "framed_run v0 (foldl observe vw (snd (media_step m e))) (fst (media_step m e))"
proof (cases m)
  case (Pair v c)
  show ?thesis
  proof (cases e)
    case (Publish payload timestamp keyframe)
    obtain v' r where p: "publish payload timestamp keyframe v = (v', r)" by fastforce
    then show ?thesis using assms Pair Publish same_publish [OF p, of v0]
      by (cases r) (auto simp: framed_run_def)
  next
    case StopStream
    then show ?thesis using assms Pair by (simp add: framed_run_def video_stop_def with_video_def same_stream_def)
  next
    case (SendTo peer)
    obtain v' r where p: "send_start peer v = (v', r)" by fastforce
    moreover have "r = Inr c' \<Longrightarrow> c' = \<lparr>co_sequence = 0, co_stage = SendDescription\<rparr>" for c'
      using p by (auto simp: send_start_def split: if_splits sum.splits)
    moreover have "framed v0 (vw\<lparr>vw_frames := [], vw_bytes := []\<rparr>)" by (rule framed_start [of "[]"]) simp_all
    ultimately show ?thesis using assms Pair SendTo same_start [OF p, of v0] by (cases r) (auto simp: framed_run_def)
  next
    case (Turn w k)
    show ?thesis
    proof (cases c)
      case (Some consumer)
      obtain v' r log where t: "consumer_turn w k consumer v = (v', r, log)" by (metis surj_pair)
      have "observe vw (Returned x) = vw" for vw x by simp
      then show ?thesis using assms Pair Turn Some t framed_turn [OF _ t, of v0 vw] by (auto split: sum.splits)
    qed (use assms Pair Turn in simp)
  next
    case Cancel
    then show ?thesis using assms Pair by (cases c) (auto simp: framed_run_def lease_drop_def with_video_def same_stream_def)
  qed
qed

lemma framed_runs:
  "framed_run v0 vw m \<Longrightarrow> framed_run v0 (foldl observe vw (concat (snd (run_machine media_step m es)))) (fst (run_machine media_step m es))"
proof (induction es arbitrary: vw m)
  case (Cons e es)
  show ?case using Cons.IH [OF framed_step [OF Cons.prems, of e]]
    by (simp add: case_prod_unfold)
qed simp

text \<open>What the present consumer has read is, at every moment, a beginning of one well-formed stream: the description, the
  configuration and the delivered frames, each under its header and numbered consecutively, and at most a part of the one
  frame being written.\<close>

theorem media_stream_framed: "framed v (media_view v es)"
proof -
  let ?vw = "\<lparr>vw_published = [], vw_frames = [], vw_bytes = []\<rparr>"
  have "framed_run v ?vw (v, None)"
    using framed_start [of "[]" v ?vw] by (simp add: framed_run_def same_stream_def)
  then show ?thesis using framed_runs [of v ?vw "(v, None)" es] by (simp add: media_view_def framed_run_def)
qed

section \<open>Stopping ends everything\<close>

text \<open>What can still happen once the stream is stopped: bytes of a write that was under way, and ends.\<close>

definition final_log :: "media_log \<Rightarrow> bool" where
  "final_log x \<longleftrightarrow> (\<exists>bs. x = Wrote bs) \<or> (\<exists>r. x = Returned r)"

definition stopped_stream :: "video_stream \<Rightarrow> bool" where
  "stopped_stream v \<longleftrightarrow> vi_stopped v \<and> vs_closed (vi_state v)"

lemma stopped_turn:
  assumes "stopped_stream v"
  obtains r log where "consumer_turn w k c v = (v, Inr r, log)" and "list_all final_log log"
  using assms
  by (cases "co_stage c") (auto simp: stopped_stream_def consumer_turn_def finish_write_def write_record_def final_log_def Let_def)

text \<open>A step of a stopped stream: a turn or a cancellation leaves no consumer, nothing brings one.\<close>

definition ends_consumer :: "media_event \<Rightarrow> bool" where
  "ends_consumer e \<longleftrightarrow> e = Cancel \<or> (\<exists>w k. e = Turn w k)"

lemma stopped_step:
  assumes "stopped_stream v" and "media_step (v, c) e = ((v', c'), log)"
  shows "stopped_stream v' \<and> list_all final_log log \<and> (c' = None \<or> c' = c \<and> \<not> ends_consumer e)"
proof (cases e)
  case (Publish p t k)
  then show ?thesis using assms
    by (auto simp: stopped_stream_def publish_def ends_consumer_def Let_def split: option.splits if_splits)
next
  case StopStream
  then show ?thesis using assms by (auto simp: stopped_stream_def video_stop_def with_video_def ends_consumer_def)
next
  case (SendTo peer)
  then show ?thesis using assms
    by (auto simp: stopped_stream_def send_start_def ends_consumer_def final_log_def split: sum.splits if_splits)
next
  case (Turn w k)
  show ?thesis
  proof (cases c)
    case (Some consumer)
    obtain r log' where "consumer_turn w k consumer v = (v, Inr r, log')" "list_all final_log log'"
      using stopped_turn [OF assms(1)] by blast
    then show ?thesis using assms Turn Some
      by (auto simp: stopped_stream_def lease_drop_def with_video_def final_log_def)
  qed (use assms Turn in auto)
next
  case Cancel
  then show ?thesis using assms
    by (auto simp: stopped_stream_def lease_drop_def with_video_def split: option.splits)
qed

lemma stopped_run:
  "stopped_stream v \<Longrightarrow> run_machine media_step (v, c) es = ((v', c'), logs) \<Longrightarrow>
   list_all final_log (concat logs) \<and> (c' = None \<or> c' = c \<and> \<not> list_ex ends_consumer es)"
proof (induction es arbitrary: v c logs)
  case (Cons e es)
  obtain v1 c1 log where s: "media_step (v, c) e = ((v1, c1), log)" by (metis surj_pair)
  obtain logs' where r: "run_machine media_step (v1, c1) es = ((v', c'), logs')" "logs = log # logs'"
    using Cons.prems(2) s by (auto split: prod.splits)
  show ?case using stopped_step [OF Cons.prems(1) s] Cons.IH [OF _ r(1)] r(2) by auto
qed simp

text \<open>C24. Stopping a stream terminates its consumer: from any state, once the stream is stopped, the next turn of the
  consumer (whether it is writing, waiting for its socket or at the head of its loop, and whatever its socket does) or its
  cancellation ends it, no picture is accepted or delivered, and no consumer is admitted again, however often one tries.\<close>

theorem media_stop_final:
  assumes "run_machine media_step m (StopStream # es) = ((v, c), logs)"
  shows "(list_ex ends_consumer es \<longrightarrow> c = None) \<and> list_all final_log (concat logs)"
proof -
  obtain v0 c0 where m: "m = (v0, c0)" by (cases m)
  obtain logs' where r: "run_machine media_step (video_stop v0, c0) es = ((v, c), logs')" "logs = [] # logs'"
    using assms by (auto simp: m split: prod.splits)
  have "stopped_stream (video_stop v0)" by (simp add: stopped_stream_def video_stop_def with_video_def)
  from stopped_run [OF this r(1)] r(2) show ?thesis by auto
qed

theorem media_stop_final_witness:
  "\<exists>v v' logs. video_new example_description example_config = Inr v
     \<and> run_machine media_step (v, Some \<lparr>co_sequence = 0, co_stage = SendDescription\<rparr>)
         (StopStream # [SendTo (Inr True), Publish [0, 0, 0, 2, 0x65, 1] 1 True, Turn (WriteTimeout 3) Changed, SendTo (Inr True)])
       = ((v', None), logs) \<and> list_all final_log (concat logs)"
proof -
  obtain v where v: "video_new example_description example_config = Inr v" using example_stream by (auto split: sum.splits)
  let ?m = "(v, Some \<lparr>co_sequence = 0, co_stage = SendDescription\<rparr>)"
  let ?es = "[SendTo (Inr True), Publish [0, 0, 0, 2, 0x65, 1] 1 True, Turn (WriteTimeout 3) Changed, SendTo (Inr True)]"
  obtain v' c logs where r: "run_machine media_step ?m (StopStream # ?es) = ((v', c), logs)" by (metis surj_pair)
  have "c = None \<and> list_all final_log (concat logs)" using media_stop_final [OF r] by (simp add: ends_consumer_def)
  then show ?thesis using v r by blast
qed
end
