(* ===== verification/Screen.thy ===== *)
theory Screen
  imports Media Airplay Crypto Byte_Stream
begin

unbundle bit_operations_syntax

text \<open>
  The screen stream of a CarPlay session (\<open>native/carplay/src/protocol/receiver.rs\<close>): its decoder configuration, the
  classification of pictures, and the loop that decrypts the phone's records and publishes them to the native view.
\<close>

section \<open>The display\<close>

record receiver_display =
  rd_width :: u16
  rd_height :: u16
  rd_width_mm :: u16
  rd_height_mm :: u16
  rd_fps :: u16
  rd_right_hand_drive :: bool

definition display_validate :: "receiver_display \<Rightarrow> proto_error + unit" where
  "display_validate d =
     (if \<not> (320 \<le> rd_width d \<and> rd_width d \<le> 1920) \<or> \<not> (240 \<le> rd_height d \<and> rd_height d \<le> 1080)
         \<or> \<not> (50 \<le> rd_width_mm d \<and> rd_width_mm d \<le> 1000) \<or> \<not> (30 \<le> rd_height_mm d \<and> rd_height_mm d \<le> 1000)
         \<or> rd_fps d \<notin> {30, 60} then Inl Bounds else Inr ())"

section \<open>Decoder configuration\<close>

text \<open>A bare avcC record, or the payload of the first avcC box.\<close>

definition avcc :: "u8 list \<Rightarrow> proto_error + u8 list" where
  "avcc body =
     (if length body \<ge> 9 \<and> body ! 0 = 1 \<and> body ! 4 AND 0xfc = 0xfc then Inr body
      else case find (\<lambda>offset. take 4 (drop offset body) = str ''avcC'') [4 ..< length body - 4] of
        None \<Rightarrow> Inl Unsupported
      | Some offset \<Rightarrow>
          let size = unat (from_be32 (body ! (offset - 4)) (body ! (offset - 3)) (body ! (offset - 2)) (body ! (offset - 1))) in
          if size < 17 \<or> size > length body - (offset - 4) then Inl Bounds
          else Inr (take (size - 8) (drop (offset + 4) body)))"

text \<open>The position behind \<open>n\<close> length-prefixed parameter sets.\<close>

fun avcc_skip :: "u8 list \<Rightarrow> nat \<Rightarrow> nat \<Rightarrow> proto_error + nat" where
  "avcc_skip config 0 position = Inr position"
| "avcc_skip config (Suc n) position =
     bindr (ok_or Bounds (get_range config position (position + 2))) (\<lambda>l.
       let len = unat (from_be16 (l ! 0) (l ! 1)); position = position + 2 + len in
       if len = 0 \<or> position > length config then Inl Bounds else avcc_skip config n position)"

text \<open>The reserved bits of one extension byte: all clear or all set, and set afterwards.\<close>

definition avcc_reserved :: "nat \<Rightarrow> u8 \<Rightarrow> u8 list \<Rightarrow> proto_error + u8 list" where
  "avcc_reserved i bits config =
     (if config ! i AND bits \<noteq> 0 \<and> config ! i AND bits \<noteq> bits then Inl Malformed
      else Inr (config[i := config ! i OR bits]))"

text \<open>What follows the parameter sets: nothing, or the extension of a high profile.\<close>

definition avcc_extended :: "u8 list \<Rightarrow> nat \<Rightarrow> proto_error + u8 list" where
  "avcc_extended config position =
     (if position < length config
      then
        if config ! 1 \<notin> {100, 110, 122, 144} \<or> length config - position < 4 then Inl Malformed
        else bindr (avcc_reserved position 0xfc config) (\<lambda>config.
             bindr (avcc_reserved (position + 1) 0xf8 config) (avcc_reserved (position + 2) 0xf8))
      else Inr config)"

definition canonical_avcc :: "u8 list \<Rightarrow> proto_error + u8 list" where
  "canonical_avcc config =
     (if length config < 7 \<or> config ! 0 \<noteq> 1 then Inl Malformed
      else bindr (avcc_skip config (unat (config ! 5 AND 31)) 6) (\<lambda>position.
        bindr (ok_or Bounds (get_at config position)) (\<lambda>count.
        bindr (avcc_skip config (unat count) (position + 1)) (avcc_extended config))))"

section \<open>Keyframes\<close>

function keyframe_loop :: "nat \<Rightarrow> nat \<Rightarrow> bool \<Rightarrow> u8 list \<Rightarrow> proto_error + bool" where
  "keyframe_loop len count key bytes =
     (if bytes = [] then Inr key
      else if count + 1 > 1024 then Inl Bounds
      else if length bytes < len then Inl Bounds
      else
        let size = be_number (take len bytes); bytes = drop len bytes in
        if size = 0 \<or> size > length bytes then Inl Bounds
        else keyframe_loop len (count + 1) (key \<or> bytes ! 0 AND 31 = 5) (drop size bytes))"
  by pat_completeness auto
termination
  by (relation "measure (\<lambda>(len, count, key, bytes). length bytes)") auto

declare keyframe_loop.simps [simp del]

definition is_keyframe :: "u8 list \<Rightarrow> nat \<Rightarrow> proto_error + bool" where
  "is_keyframe bytes len = (if len \<notin> {1, 2, 4} then Inl Malformed else keyframe_loop len 0 False bytes)"

section \<open>The screen stream\<close>

record screen_state =
  sc_counter :: u64
  sc_first_frame :: bool
  sc_output :: "video_stream option"
  sc_configuration :: "u8 list option"
  sc_nalu_length :: nat
  sc_last_request :: int

text \<open>What the loop hands on: the stream for the view, a picture with what became of it, a first frame, a request to the phone.\<close>

datatype screen_action = Announced description | Pictured "u8 list" publish_outcome | FirstFrame | AskedKeyframe

text \<open>Times in nanoseconds since the start of the stream.\<close>

definition screen_new :: screen_state where
  "screen_new = \<lparr>sc_counter = 0, sc_first_frame = False, sc_output = None, sc_configuration = None, sc_nalu_length = 0,
     sc_last_request = - 1000000000\<rparr>"

definition timed_io :: "io_kind \<Rightarrow> proto_error" where
  "timed_io e = (if e = Stalled then proto_error.Timeout else Rejected)"

text \<open>A header and its body from the socket; \<open>Stalled\<close> is the expiry of the timer around the read.\<close>

definition screen_read :: "byte_stream \<Rightarrow> byte_stream \<times> (proto_error + u8 list \<times> screen_kind \<times> u8 list)" where
  "screen_read s =
     (case read_exact SCREEN_HEADER_BYTES s of
        (s, Inl e) \<Rightarrow> (s, Inl (timed_io e))
      | (s, Inr header) \<Rightarrow>
          (case screen_parse header of
             Inl e \<Rightarrow> (s, Inl e)
           | Inr parsed \<Rightarrow>
               (case read_exact (sh_body_length parsed) s of
                  (s, Inl e) \<Rightarrow> (s, Inl (timed_io e))
                | (s, Inr body) \<Rightarrow> (s, Inr (header, sh_kind parsed, body)))))"

definition screen_description :: "receiver_display \<Rightarrow> u64 \<Rightarrow> description" where
  "screen_description display session =
     \<lparr>de_protocol = CarPlay, de_plane = MainPlane, de_codec = H264, de_colorimetry = Bt709, de_range = Full,
      de_framing = LengthPrefixed, de_width = rd_width display, de_height = rd_height display, de_fps_num = rd_fps display,
      de_fps_den = 1, de_session = session\<rparr>"

definition screen_configure ::
  "receiver_display \<Rightarrow> u64 \<Rightarrow> u8 list \<Rightarrow> screen_state \<Rightarrow> screen_state \<times> (proto_error + screen_action list)" where
  "screen_configure display session body st =
     (case bindr (avcc body) canonical_avcc of
        Inl e \<Rightarrow> (st, Inl e)
      | Inr config \<Rightarrow>
          (case sc_configuration st of
             Some previous \<Rightarrow> (st, if previous = config then Inr [] else Inl Unsupported)
           | None \<Rightarrow>
               let st = st\<lparr>sc_configuration := Some config, sc_nalu_length := unat ((config ! 4 AND 3) + 1)\<rparr>;
                   d = screen_description display session in
               (case video_new d config of
                  Inl e \<Rightarrow> (st, Inl Malformed)
                | Inr v \<Rightarrow> (st\<lparr>sc_output := Some v\<rparr>, Inr [Announced d]))))"

definition screen_nonce :: "u64 \<Rightarrow> u8 list" where
  "screen_nonce counter = [0, 0, 0, 0] @ to_le64 counter"

text \<open>\<open>now\<close> is the clock when the picture is published, \<open>later\<close> when a request is considered; \<open>room\<close> tells whether the
  channel of commands takes one more.\<close>

definition screen_picture ::
  "crypto \<Rightarrow> u8 list \<Rightarrow> nat \<Rightarrow> nat \<Rightarrow> bool \<Rightarrow> u8 list \<Rightarrow> u8 list \<Rightarrow> screen_state \<Rightarrow> screen_state \<times> (proto_error + screen_action list)" where
  "screen_picture cy key now later room header body st =
     (case sc_output st of
        None \<Rightarrow> (st, Inl State)
      | Some v \<Rightarrow>
          if sc_counter st = - 1 then (st, Inl Bounds)
          else case open_sealed cy key (screen_nonce (sc_counter st)) header body of
            Inl e \<Rightarrow> (st, Inl e)
          | Inr plain \<Rightarrow>
              let st = st\<lparr>sc_counter := sc_counter st + 1\<rparr> in
              (case is_keyframe plain (sc_nalu_length st) of
                 Inl e \<Rightarrow> (st, Inl e)
               | Inr keyframe \<Rightarrow>
                   (case publish plain (of_nat now) keyframe v of
                      (v, Inl e) \<Rightarrow> (st\<lparr>sc_output := Some v\<rparr>, Inl Malformed)
                    | (v, Inr outcome) \<Rightarrow>
                        let st = st\<lparr>sc_output := Some v\<rparr> in
                        if outcome \<noteq> NeedKeyframe
                        then (st\<lparr>sc_first_frame := True\<rparr>, Inr [Pictured plain outcome, FirstFrame])
                        else if int later - sc_last_request st \<ge> 250000000
                        then if room then (st\<lparr>sc_last_request := int later\<rparr>, Inr [Pictured plain outcome, AskedKeyframe])
                             else (st, Inl Bounds)
                        else (st, Inr [Pictured plain outcome]))))"

definition screen_turn ::
  "crypto \<Rightarrow> u8 list \<Rightarrow> receiver_display \<Rightarrow> u64 \<Rightarrow> screen_state \<Rightarrow> nat \<times> nat \<times> bool \<times> u8 list \<times> screen_kind \<times> u8 list
    \<Rightarrow> screen_state \<times> (proto_error + screen_action list)" where
  "screen_turn cy key display session st = (\<lambda>(now, later, room, header, kind, body).
     case kind of
       Ignore \<Rightarrow> (st, Inr [])
     | CodecConfiguration \<Rightarrow> screen_configure display session body st
     | EncryptedAccessUnit \<Rightarrow> screen_picture cy key now later room header body st)"

text \<open>The loop over what arrives, until its end or an error, with everything it handed on.\<close>

fun screen_run ::
  "crypto \<Rightarrow> u8 list \<Rightarrow> receiver_display \<Rightarrow> u64 \<Rightarrow> screen_state \<Rightarrow> (nat \<times> nat \<times> bool \<times> u8 list \<times> screen_kind \<times> u8 list) list
    \<Rightarrow> screen_state \<times> screen_action list \<times> proto_error option" where
  "screen_run cy key display session st [] = (st, [], None)"
| "screen_run cy key display session st (r # rs) =
     (case screen_turn cy key display session st r of
        (st, Inl e) \<Rightarrow> (st, [], Some e)
      | (st, Inr log) \<Rightarrow>
          (case screen_run cy key display session st rs of (st, log', e) \<Rightarrow> (st, log @ log', e)))"


section \<open>The two readings of a picture agree\<close>

lemma inspect_keyframe:
  "inspect_loop codec framing len config count n bytes = Some (count', n') \<Longrightarrow> codec = H264 \<Longrightarrow> framing = LengthPrefixed
   \<Longrightarrow> keyframe_loop len count (na_keyframe n) bytes = Inr (na_keyframe n')"
proof (induction codec framing len config count n bytes rule: inspect_loop.induct)
  case (1 codec framing len config count n bytes)
  show ?case
  proof (cases "bytes = []")
    case True
    then show ?thesis using "1.prems" by (simp add: inspect_loop.simps keyframe_loop.simps)
  next
    case False
    let ?k = "be_number (take len bytes)" and ?bs = "drop len bytes"
    have un: "(if count + 1 > NAL_LIMIT then None
      else case nal_cut framing len bytes of None \<Rightarrow> None
      | Some (k, bs) \<Rightarrow> if k > length bs then None
          else case media_nal_type (take k bs) codec of None \<Rightarrow> None
          | Some kind \<Rightarrow> if config \<and> parameter_bit codec kind = 0 then None
              else inspect_loop codec framing len config (count + 1) (nals_add codec kind n) (drop k bs)) = Some (count', n')"
      using "1.prems"(1) False by (simp add: inspect_loop.simps [of codec framing len config count])
    have c: "count + 1 \<le> NAL_LIMIT" and cut: "nal_cut framing len bytes = Some (?k, ?bs)" and l: "len \<le> length bytes" and k: "?k \<le> length ?bs"
      using un "1.prems"(3) by (auto simp: nal_cut_def split: if_splits option.splits)
    obtain kind where kind: "media_nal_type (take ?k ?bs) codec = Some kind" "\<not> (config \<and> parameter_bit codec kind = 0)"
      and rec: "inspect_loop codec framing len config (count + 1) (nals_add codec kind n) (drop ?k ?bs) = Some (count', n')"
      using un c cut k by (auto split: if_splits option.splits)
    have z: "?k \<noteq> 0" and h: "?bs ! 0 AND 31 = kind"
      using kind "1.prems"(2) by (auto simp: media_nal_type_def Let_def split: if_splits)
    have "keyframe_loop len (count + 1) (na_keyframe (nals_add codec kind n)) (drop ?k ?bs) = Inr (na_keyframe n')"
      using "1.IH" [OF False _ cut refl _ kind rec "1.prems"(2,3)] c k by simp
    moreover have "na_keyframe (nals_add codec kind n) = (na_keyframe n \<or> ?bs ! 0 AND 31 = 5)"
      using h "1.prems"(2) by (simp add: nals_add_def)
    ultimately show ?thesis using False c l k z
      by (simp add: keyframe_loop.simps [of len count] Let_def NAL_LIMIT_def)
  qed
qed

text \<open>C28. A picture the stream would publish under some flag is classified with exactly that flag, so a valid picture of the
  phone is never refused for a wrong classification.\<close>

theorem screen_keyframe_agrees:
  assumes "publish plain time keyframe v = (v', Inr outcome)"
    and "de_codec (vi_description v) = H264" "de_framing (vi_description v) = LengthPrefixed"
  shows "is_keyframe plain (vi_length_bytes v) = Inr keyframe"
proof -
  from assms(1) obtain n where n: "inspect_nals plain (de_codec (vi_description v)) (de_framing (vi_description v)) (vi_length_bytes v) False = Some n"
    "na_keyframe n = keyframe" "plain \<noteq> []"
    by (auto simp: publish_def split: if_splits option.splits)
  then obtain count where i: "inspect_loop H264 LengthPrefixed (vi_length_bytes v) False 0 nals_none plain = Some (count, n)"
    using assms(2,3) by (auto simp: inspect_nals_def split: option.splits if_splits)
  have "vi_length_bytes v \<in> {1, 2, 4}"
    using i n(3) by (auto simp: inspect_loop.simps nal_cut_def split: if_splits option.splits)
  then show ?thesis using inspect_keyframe [OF i] n(2) by (auto simp: is_keyframe_def nals_none_def)
qed

section \<open>Canonical configurations\<close>

lemma avcc_skip_le: "avcc_skip c n p = Inr q \<Longrightarrow> p \<le> q \<and> (n = 0 \<or> q \<le> length c)"
proof (induction c n p rule: avcc_skip.induct)
  case (2 c n p)
  then show ?case by (fastforce simp: Let_def split: if_splits)
qed simp

lemma get_range_cong: "take q c = take q d \<Longrightarrow> length c = length d \<Longrightarrow> j \<le> q \<Longrightarrow> get_range c i j = get_range d i j"
proof -
  assume a: "take q c = take q d" "length c = length d" "j \<le> q"
  have "take (j - i) (drop i c) = take (j - i) (drop i (take q c))"
    using a(3) by (simp add: drop_take min_def)
  also have "\<dots> = take (j - i) (drop i d)" using a by (simp add: drop_take min_def)
  finally show ?thesis using a(2) by (simp add: get_range_def)
qed

lemma avcc_skip_cong:
  "avcc_skip c n p = Inr q \<Longrightarrow> take q c = take q d \<Longrightarrow> length c = length d \<Longrightarrow> avcc_skip d n p = Inr q"
proof (induction c n p rule: avcc_skip.induct)
  case (2 c n p)
  from "2.prems"(1) obtain l where l: "get_range c p (p + 2) = Some l"
    and r: "avcc_skip c n (p + 2 + unat (from_be16 (l ! 0) (l ! 1))) = Inr q"
      "unat (from_be16 (l ! 0) (l ! 1)) \<noteq> 0" "p + 2 + unat (from_be16 (l ! 0) (l ! 1)) \<le> length c"
    by (auto simp: Let_def split: if_splits)
  have "p + 2 \<le> q" using avcc_skip_le [OF r(1)] by simp
  then have "get_range d p (p + 2) = Some l" using get_range_cong [OF "2.prems"(2,3)] l by simp
  then show ?case using "2.IH" [OF refl refl _ r(1) "2.prems"(2,3)] l r(2,3) "2.prems"(3) by (simp add: Let_def)
qed simp

lemma or_reserved [simp]: "((x :: u8) OR bits) AND bits = bits"
  by (intro bit_eqI) (auto simp: bit_simps)

lemma avcc_reserved_Inr:
  "avcc_reserved i bits c = Inr d \<longleftrightarrow> (c ! i AND bits = 0 \<or> c ! i AND bits = bits) \<and> d = c[i := c ! i OR bits]"
  by (auto simp: avcc_reserved_def)


definition reserved_set :: "nat \<Rightarrow> u8 list \<Rightarrow> u8 list" where
  "reserved_set p c = c[p := c ! p OR 0xfc, p + 1 := c ! (p + 1) OR 0xf8, p + 2 := c ! (p + 2) OR 0xf8]"

lemma avcc_extended_Inr:
  assumes "avcc_extended c q = Inr d"
  shows "length d = length c \<and> take q d = take q c \<and> (\<forall>i < q. d ! i = c ! i) \<and> (d = c \<or> d = reserved_set q c \<and> q + 4 \<le> length c)
    \<and> (1 < q \<longrightarrow> avcc_extended d q = Inr d)"
proof (cases "q < length c")
  case True
  then have w: "c ! 1 \<in> {100, 110, 122, 144}" "q + 4 \<le> length c" and r: "d = reserved_set q c"
    using assms by (auto simp: avcc_extended_def avcc_reserved_Inr reserved_set_def simp del: insert_iff split: if_splits)
  have l: "length d = length c" and t: "take q d = take q c" and e: "\<And>i. i < q \<Longrightarrow> d ! i = c ! i"
    using r by (auto simp: reserved_set_def)
  have top: "d ! q AND 0xfc = 0xfc" "d ! (q + 1) AND 0xf8 = 0xf8" "d ! (q + 2) AND 0xf8 = 0xf8"
    using r w(2) by (simp_all add: reserved_set_def nth_list_update)
  have same: "d ! q OR 0xfc = d ! q" "d ! (q + 1) OR 0xf8 = d ! (q + 1)" "d ! (q + 2) OR 0xf8 = d ! (q + 2)"
    using r w(2) by (simp_all add: reserved_set_def nth_list_update or.assoc)
  have id: "avcc_reserved q 0xfc d = Inr d" "avcc_reserved (q + 1) 0xf8 d = Inr d" "avcc_reserved (q + 2) 0xf8 d = Inr d"
    using top same by (simp_all add: avcc_reserved_def)
  have "1 < q \<Longrightarrow> avcc_extended d q = Inr d"
    using True w id l e [of 1] by (simp add: avcc_extended_def)
  then show ?thesis using l r w t e by blast
qed (use assms in \<open>simp add: avcc_extended_def\<close>)

text \<open>What the native view is configured with is in canonical form: rewriting it again changes nothing. The rewriting keeps
  the length and everything but the reserved bits of at most three bytes, which it sets.\<close>

theorem canonical_avcc_canonical:
  assumes "canonical_avcc c = Inr d"
  shows "canonical_avcc d = Inr d \<and> length d = length c
    \<and> (d = c \<or> (\<exists>p. d = reserved_set p c \<and> p + 4 \<le> length c \<and> take p d = take p c))"
proof -
  from assms obtain p count q where h: "\<not> (length c < 7 \<or> c ! 0 \<noteq> 1)" and p: "avcc_skip c (unat (c ! 5 AND 31)) 6 = Inr p"
    and n: "get_at c p = Some count" and q: "avcc_skip c (unat count) (p + 1) = Inr q" and d: "avcc_extended c q = Inr d"
    by (auto simp: canonical_avcc_def split: if_splits)
  have o: "6 \<le> p" "p + 1 \<le> q" using avcc_skip_le [OF p] avcc_skip_le [OF q] by auto
  have l: "length d = length c" and t: "take q d = take q c" and e: "\<And>i. i < q \<Longrightarrow> d ! i = c ! i"
    and x: "d = c \<or> d = reserved_set q c \<and> q + 4 \<le> length c" and id: "avcc_extended d q = Inr d"
    using avcc_extended_Inr [OF d] o by auto
  have "take p d = take p c" using arg_cong [OF t, of "take p"] o by (simp add: min_def)
  then have "avcc_skip d (unat (c ! 5 AND 31)) 6 = Inr p" using avcc_skip_cong [OF p, of d] l by metis
  moreover have "avcc_skip d (unat count) (p + 1) = Inr q" using avcc_skip_cong [OF q, of d] t l by metis
  moreover have "get_at d p = Some count" using n e [of p] o l by (simp add: get_at_def split: if_splits)
  moreover have "d ! 0 = c ! 0" "d ! 5 = c ! 5" using e o by simp_all
  ultimately have "canonical_avcc d = Inr d" using h id l by (simp add: canonical_avcc_def)
  then show ?thesis using l x t by blast
qed


section \<open>What reaches the view\<close>

type_synonym screen_input = "nat \<times> nat \<times> bool \<times> u8 list \<times> screen_kind \<times> u8 list"

fun pictures :: "screen_action list \<Rightarrow> u8 list list" where
  "pictures [] = []"
| "pictures (Pictured p outcome # log) = p # pictures log"
| "pictures (_ # log) = pictures log"

fun announcements :: "screen_action list \<Rightarrow> description list" where
  "announcements [] = []"
| "announcements (Announced d # log) = d # announcements log"
| "announcements (_ # log) = announcements log"

fun encrypted_units :: "screen_input list \<Rightarrow> (u8 list \<times> u8 list) list" where
  "encrypted_units [] = []"
| "encrypted_units ((now, later, room, header, kind, body) # rs) =
     (if kind = EncryptedAccessUnit then (header, body) # encrypted_units rs else encrypted_units rs)"

lemma pictures_append: "pictures (xs @ ys) = pictures xs @ pictures ys"
  by (induction xs rule: pictures.induct) auto

lemma announcements_append: "announcements (xs @ ys) = announcements xs @ announcements ys"
  by (induction xs rule: announcements.induct) auto

text \<open>The pictures are opened, each under the counter of its place.\<close>

fun opened :: "crypto \<Rightarrow> u8 list \<Rightarrow> nat \<Rightarrow> u8 list list \<Rightarrow> (u8 list \<times> u8 list) list \<Rightarrow> bool" where
  "opened cy key n [] us = True"
| "opened cy key n (p # ps) [] = False"
| "opened cy key n (p # ps) ((header, body) # us) =
     (open_sealed cy key (screen_nonce (of_nat n)) header body = Inr p \<and> opened cy key (Suc n) ps us)"

lemma next_counter: "c \<noteq> - 1 \<Longrightarrow> unat (c + 1 :: u64) = Suc (unat c)"
  by (metis Suc_eq_plus1 add.commute add_eq_0_iff unatSuc)

definition screen_ready :: "screen_state \<Rightarrow> bool" where
  "screen_ready st \<longleftrightarrow> (sc_output st = None \<longleftrightarrow> sc_configuration st = None)"

lemma screen_picture_ok:
  assumes "screen_picture cy key now later room header body st = (st', Inr log)"
  obtains plain where "sc_output st \<noteq> None" "sc_counter st \<noteq> - 1" "sc_counter st' = sc_counter st + 1"
    "open_sealed cy key (screen_nonce (sc_counter st)) header body = Inr plain" "pictures log = [plain]" "announcements log = []"
    "sc_output st' \<noteq> None" "sc_configuration st' = sc_configuration st"
  using assms by (auto simp: screen_picture_def Let_def split: option.splits sum.splits prod.splits if_splits)

lemma screen_configure_ok:
  assumes "screen_configure display session body st = (st', Inr log)" "screen_ready st"
  shows "sc_counter st' = sc_counter st" "pictures log = []" "screen_ready st'"
    "log = (if sc_output st = None then [Announced (screen_description display session)] else [])" "sc_output st' \<noteq> None"
  using assms by (auto simp: screen_configure_def screen_ready_def Let_def split: option.splits sum.splits if_splits)

lemma screen_run_opened:
  "screen_run cy key display session st rs = (st', log, e) \<Longrightarrow> screen_ready st \<Longrightarrow>
   opened cy key (unat (sc_counter st)) (pictures log) (encrypted_units rs)
     \<and> announcements log = (if sc_output st = None \<and> log \<noteq> [] then [screen_description display session] else [])
     \<and> (sc_output st = None \<and> log \<noteq> [] \<longrightarrow> hd log = Announced (screen_description display session))"
proof (induction rs arbitrary: st log)
  case (Cons r rs)
  obtain now later room header kind body where r: "r = (now, later, room, header, kind, body)" by (cases r)
  show ?case
  proof (cases "snd (screen_turn cy key display session st r)")
    case (Inl err)
    then show ?thesis using Cons.prems by (simp split: prod.splits)
  next
    case (Inr log1)
    then obtain st1 where t: "screen_turn cy key display session st r = (st1, Inr log1)" by (metis prod.collapse)
    obtain log2 where n: "screen_run cy key display session st1 rs = (st', log2, e)" and log: "log = log1 @ log2"
      using Cons.prems(1) t by (auto split: prod.splits)
    show ?thesis
    proof (cases kind)
      case EncryptedAccessUnit
      then have p: "screen_picture cy key now later room header body st = (st1, Inr log1)" using t r by (simp add: screen_turn_def)
      show ?thesis
        by (rule screen_picture_ok [OF p])
          (use Cons.IH [OF n] Cons.prems(2) r EncryptedAccessUnit log in
            \<open>auto simp: pictures_append announcements_append screen_ready_def next_counter\<close>)
    next
      case CodecConfiguration
      then have p: "screen_configure display session body st = (st1, Inr log1)" using t r by (simp add: screen_turn_def)
      note ok = screen_configure_ok [OF p Cons.prems(2)]
      show ?thesis using Cons.IH [OF n] ok r CodecConfiguration log p
        by (auto simp: pictures_append announcements_append hd_append)
    next
      case Ignore
      then show ?thesis using Cons.IH [OF n] Cons.prems(2) r t log by (auto simp: screen_turn_def)
    qed
  qed
qed simp


text \<open>C22. Every picture handed on for the view is the content the phone sealed into one record of its stream: the record of that
  place, under the nonce of that place and bound to its header. Nothing is repeated, left out or reordered, and the view
  is told of one stream, before the first picture.\<close>

theorem screen_authentic:
  assumes "screen_run cy key display session screen_new rs = (st, log, e)" "log \<noteq> []"
  shows "opened cy key 0 (pictures log) (encrypted_units rs)
    \<and> hd log = Announced (screen_description display session) \<and> announcements log = [screen_description display session]"
proof -
  have "screen_ready screen_new" "sc_output screen_new = None" "unat (sc_counter screen_new) = 0"
    by (simp_all add: screen_ready_def screen_new_def)
  then show ?thesis using screen_run_opened [OF assms(1)] assms(2) by simp
qed

definition example_display :: receiver_display where
  "example_display = \<lparr>rd_width = 1280, rd_height = 720, rd_width_mm = 200, rd_height_mm = 100, rd_fps = 60, rd_right_hand_drive = False\<rparr>"


definition example_key_unit :: "u8 list" where
  "example_key_unit = [0, 0, 0, 2, 0x65, 1] @ replicate 16 0"

lemma example_canonical: "canonical_avcc example_config = Inr example_config"
  by (simp add: canonical_avcc_def example_config_def get_range_def get_at_def avcc_extended_def from_be16_def)

theorem canonical_avcc_canonical_witness:
  "canonical_avcc example_config = Inr example_config
     \<and> (let d = reserved_set 15 ([1, 100] @ drop 2 example_config @ [0, 0, 0, 0]) in
          canonical_avcc ([1, 100] @ drop 2 example_config @ [0, 0, 0, 0]) = Inr d \<and> canonical_avcc d = Inr d)"
proof -
  have x: "canonical_avcc ([1, 100] @ drop 2 example_config @ [0, 0, 0, 0]) = Inr (reserved_set 15 ([1, 100] @ drop 2 example_config @ [0, 0, 0, 0]))"
    by (simp add: canonical_avcc_def example_config_def get_range_def get_at_def avcc_extended_def avcc_reserved_def reserved_set_def from_be16_def)
  show ?thesis using example_canonical canonical_avcc_canonical [OF x] x by (simp add: Let_def)
qed

theorem screen_keyframe_agrees_witness:
  "\<exists>v v'. publish [0, 0, 0, 2, 0x65, 1] 2 True v = (v', Inr Resynchronized) \<and> is_keyframe [0, 0, 0, 2, 0x65, 1] (vi_length_bytes v) = Inr True"
proof (cases "video_new example_description example_config")
  case (Inl e)
  then show ?thesis using example_stream by simp
next
  case (Inr v)
  obtain v' where p: "publish [0, 0, 0, 2, 0x65, 1] 2 True v = (v', Inr Resynchronized)"
    and d: "de_codec (vi_description v) = H264" "de_framing (vi_description v) = LengthPrefixed"
    using Inr by (auto simp: video_new_def example_description_def example_configuration description_encode_def
        publish_def example_nals ACCESS_UNIT_LIMIT_def QUEUE_LIMIT_def with_video_def Let_def)
  show ?thesis using screen_keyframe_agrees [OF p d] p by blast
qed

definition example_records :: "screen_input list" where
  "example_records = [(0, 0, True, [1], CodecConfiguration, example_config), (5, 6, True, [0], EncryptedAccessUnit, example_key_unit)]"

lemma example_screen:
  "\<exists>st. screen_run plain_crypto [] example_display 7 screen_new example_records =
     (st, [Announced (screen_description example_display 7), Pictured [0, 0, 0, 2, 0x65, 1] Resynchronized, FirstFrame], None)"
proof -
  have a: "avcc example_config = Inr example_config" by (simp add: avcc_def example_config_def)
  have k: "is_keyframe [0, 0, 0, 2, 0x65, 1] 4 = Inr True"
    by (simp add: is_keyframe_def keyframe_loop.simps be_number_def Let_def)
  have c: "example_config ! 4 = 255" by (simp add: example_config_def)
  show ?thesis
    by (simp add: example_records_def screen_turn_def screen_configure_def a example_canonical example_configuration video_new_def
        screen_description_def example_display_def description_encode_def screen_new_def screen_picture_def open_sealed_def
        plain_crypto_def from_openssl_def example_key_unit_def k c publish_def example_nals ACCESS_UNIT_LIMIT_def QUEUE_LIMIT_def
        with_video_def Let_def)
qed

theorem screen_authentic_witness:
  "\<exists>st log. screen_run plain_crypto [] example_display 7 screen_new example_records = (st, log, None)
     \<and> pictures log = [[0, 0, 0, 2, 0x65, 1]] \<and> opened plain_crypto [] 0 (pictures log) (encrypted_units example_records)"
proof -
  obtain st where r: "screen_run plain_crypto [] example_display 7 screen_new example_records =
     (st, [Announced (screen_description example_display 7), Pictured [0, 0, 0, 2, 0x65, 1] Resynchronized, FirstFrame], None)"
    using example_screen by blast
  show ?thesis using screen_authentic [OF r] r by simp
qed

end
