(* ===== verification/Receiver_Wire.thy ===== *)
theory Receiver_Wire
  imports Screen Plist Pairing
begin

unbundle bit_operations_syntax

text \<open>
  The messages of a CarPlay session (\<open>native/carplay/src/protocol/receiver.rs\<close>): its fields, the touch descriptor and the
  capabilities, the control connection before and after it is encrypted, and the channel that sends commands to the phone.
\<close>

section \<open>Fields\<close>

abbreviation "malformed \<equiv> proto_error.Malformed"
abbreviation "bounds \<equiv> proto_error.Bounds"

definition binary :: "plist_lib \<Rightarrow> plist \<Rightarrow> proto_error + u8 list" where
  "binary pl v = bindr (ok_or malformed (pl_binary pl v)) (\<lambda>bytes. if length bytes > 256 * 1024 then Inl bounds else Inr bytes)"

definition uint_field :: "dictionary \<Rightarrow> string \<Rightarrow> proto_error + u64" where
  "uint_field d key = ok_or malformed (Option.bind (dget key d) as_unsigned_integer)"

text \<open>A negative identifier is the 64-bit pattern of an unsigned one.\<close>

definition connection_id :: "dictionary \<Rightarrow> proto_error + u64" where
  "connection_id d =
     bindr (ok_or malformed (dget ''streamConnectionID'' d)) (\<lambda>v.
       ok_or malformed (case as_unsigned_integer v of Some n \<Rightarrow> Some n | None \<Rightarrow> map_option of_int (as_signed_integer v)))"

definition optional_field :: "string \<Rightarrow> (dictionary \<Rightarrow> proto_error + u64) \<Rightarrow> dictionary \<Rightarrow> proto_error + u64 option" where
  "optional_field key read d = (if dget key d = None then Inr None else bindr (read d) (Inr \<circ> Some))"

definition teardown_selector :: "dictionary \<Rightarrow> proto_error + u64 option \<times> u64 option" where
  "teardown_selector d =
     bindr (optional_field ''type'' (\<lambda>d. uint_field d ''type'') d) (\<lambda>kind.
     bindr (optional_field ''streamConnectionID'' connection_id d) (\<lambda>connection.
       if kind = None \<and> connection = None then Inl malformed
       else if kind \<noteq> None \<and> kind \<notin> Some ` {100, 101, 102} then Inl Unsupported
       else Inr (kind, connection)))"

definition parse_body :: "plist_lib \<Rightarrow> u8 list \<Rightarrow> proto_error + dictionary" where
  "parse_body pl body = map_sum (\<lambda>_. malformed) id (plist_decode pl body)"

section \<open>Capabilities\<close>

definition MAIN_DISPLAY :: string where "MAIN_DISPLAY = ''20417267-6f00-4000-8000-000000000001''"
definition TOUCH :: string where "TOUCH = ''6172676f''"
definition SOURCE_VERSION :: string where "SOURCE_VERSION = ''950.7.1''"

definition hid_item :: "u8 \<Rightarrow> u16 \<Rightarrow> bool \<Rightarrow> u8 list" where
  "hid_item tag value wide = (tag OR (if wide then 2 else 1)) # ucast value # (if wide then [ucast (drop_bit 8 value)] else [])"

definition hid_finger :: "receiver_display \<Rightarrow> u8 list" where
  "hid_finger d =
     hid_item 0x04 0x0d False @ hid_item 0x08 0x22 False @ hid_item 0xa0 2 False @ hid_item 0x14 0 False
     @ hid_item 0x24 1 False @ hid_item 0x08 0x38 False @ hid_item 0x74 8 False @ hid_item 0x94 1 False
     @ hid_item 0x80 2 False @ hid_item 0x08 0x33 False @ hid_item 0x74 1 False @ hid_item 0x80 2 False
     @ hid_item 0x94 7 False @ hid_item 0x80 3 False @ hid_item 0x04 1 False @ hid_item 0x74 16 False
     @ hid_item 0x94 1 False @ hid_item 0x24 (rd_width d) True @ hid_item 0x08 0x30 False @ hid_item 0x80 2 False
     @ hid_item 0x24 (rd_height d) True @ hid_item 0x08 0x31 False @ hid_item 0x80 2 False @ hid_item 0xc0 0 False"

text \<open>The second pass: an end of collection loses its payload; every other item is copied with the size in its low bits.\<close>

function hid_copy :: "u8 list \<Rightarrow> u8 list" where
  "hid_copy bytes =
     (case bytes of
        [] \<Rightarrow> []
      | b # bs \<Rightarrow>
          if b = 0xc1 then 0xc0 # hid_copy (drop 1 bs)
          else let size = unat (b AND 3) in b # take size bs @ hid_copy (drop size bs))"
  by pat_completeness auto
termination
  by (relation "measure length") auto

declare hid_copy.simps [simp del]

definition touch_descriptor :: "receiver_display \<Rightarrow> u8 list" where
  "touch_descriptor d =
     hid_copy (hid_item 0x04 0x0d False @ hid_item 0x08 4 False @ hid_item 0xa0 1 False @ hid_finger d @ hid_finger d) @ [0xc0]"

definition resource_modes :: "u64 \<Rightarrow> plist" where
  "resource_modes i = dict [(''resourceID'', plist_number i), (''transferType'', plist_number (if i = 2 then 2 else 1)),
     (''transferPriority'', plist_number 100), (''takeConstraint'', plist_number 100),
     (''borrowConstraint'', plist_number 100), (''unborrowConstraint'', plist_number 100)]"

definition audio_categories :: "(u64 \<times> string \<times> u64) list" where
  "audio_categories = [(100, ''compatibility'', 0xc3fc), (101, ''compatibility'', 0xc3fc), (100, ''media'', 0xcc00),
     (100, ''default'', 0xc3fc), (100, ''telephony'', 0x4154), (100, ''speechRecognition'', 0x4154), (100, ''alert'', 0xc3fc),
     (101, ''default'', 0xc3fc), (102, ''media'', 0xc00000)]"

definition audio_format_entry :: "bool \<Rightarrow> u64 \<times> string \<times> u64 \<Rightarrow> plist" where
  "audio_format_entry microphone = (\<lambda>(kind, category, formats).
     dict ([(''type'', plist_number kind), (''audioType'', plist_text category), (''audioOutputFormats'', plist_number formats)]
       @ (if microphone \<and> kind = 100 \<and> category \<in> {''compatibility'', ''default'', ''telephony'', ''speechRecognition''}
          then [(''audioInputFormats'', plist_number 0x10)] else [])))"

definition latency_entry :: "u64 \<Rightarrow> string option \<Rightarrow> plist" where
  "latency_entry kind category =
     dict ([(''type'', plist_number kind)] @ (case category of None \<Rightarrow> [] | Some c \<Rightarrow> [(''audioType'', plist_text c)])
       @ [(''inputLatencyMicros'', plist_number 0), (''outputLatencyMicros'', plist_number 0)])"

definition info_display :: "receiver_display \<Rightarrow> plist" where
  "info_display d = dict [(''uuid'', plist_text MAIN_DISPLAY), (''type'', plist_number 110),
     (''widthPixels'', plist_number (ucast (rd_width d))), (''heightPixels'', plist_number (ucast (rd_height d))),
     (''widthPhysical'', plist_number (ucast (rd_width_mm d))), (''heightPhysical'', plist_number (ucast (rd_height_mm d))),
     (''maxFPS'', plist_number (ucast (rd_fps d))), (''features'', plist_number 8), (''primaryInputDevice'', plist_number 1)]"

definition info_touch :: "receiver_display \<Rightarrow> plist" where
  "info_touch d = dict [(''uuid'', plist_text TOUCH), (''name'', plist_text ''Argo Touchscreen''),
     (''displayUUID'', plist_text MAIN_DISPLAY), (''hidVendorID'', plist_number 2), (''hidProductID'', plist_number 1),
     (''hidCountryCode'', plist_number 0), (''hidDescriptor'', PData (touch_descriptor d))]"

definition info_modes :: plist where
  "info_modes = dict [(''resources'', PArray [resource_modes 1, resource_modes 2]),
     (''appStates'', PArray [dict [(''appStateID'', plist_number 1), (''speechMode'', PInt (-1))],
        dict [(''appStateID'', plist_number 2), (''state'', PBool False)],
        dict [(''appStateID'', plist_number 3), (''state'', PBool False)]])]"

definition receiver_info :: "receiver_display \<Rightarrow> identity \<Rightarrow> bool \<Rightarrow> bool \<Rightarrow> plist" where
  "receiver_info d ident audio microphone =
     dict ([(''sourceVersion'', plist_text SOURCE_VERSION),
        (''features'', plist_number (if audio then 0x615653aee2 else 0x615653aee2 AND NOT 0x10004540a00)),
        (''statusFlags'', plist_number 4), (''model'', plist_text ''Argo''), (''manufacturer'', plist_text ''Argo''),
        (''deviceID'', PString (id_identifier ident)), (''name'', plist_text ''Argo''),
        (''rightHandDrive'', PBool (rd_right_hand_drive d)), (''keepAliveLowPower'', PBool False), (''modes'', info_modes),
        (''displays'', PArray [info_display d]), (''hidDevices'', PArray [info_touch d])]
       @ (if audio
          then [(''audioFormats'', PArray (map (audio_format_entry microphone) audio_categories)),
                (''audioLatencies'', PArray (map (\<lambda>(kind, category, _). latency_entry kind (Some category)) audio_categories
                   @ [latency_entry 100 None, latency_entry 101 None, latency_entry 102 (Some ''default'')]))]
          else []))"

section \<open>The control connection\<close>

record wire =
  wr_io :: byte_stream
  wr_pending :: "u8 list"
  wr_read :: "control_cipher option"
  wr_write :: "control_cipher option"

definition wire_new :: "byte_stream \<Rightarrow> wire" where
  "wire_new s = \<lparr>wr_io = s, wr_pending = [], wr_read = None, wr_write = None\<rparr>"

text \<open>One round of \<open>receive\<close> after the decoder asked for more: a byte, or a frame of the cipher.\<close>

definition wire_more :: "crypto \<Rightarrow> wire \<Rightarrow> wire \<times> (proto_error + u8 list)" where
  "wire_more cy w =
     (case wr_read w of
        None \<Rightarrow>
          (case read_exact 1 (wr_io w) of
             (s, Inl e) \<Rightarrow> (w\<lparr>wr_io := s\<rparr>, Inl (timed_io e))
           | (s, Inr byte) \<Rightarrow> (w\<lparr>wr_io := s\<rparr>, Inr byte))
      | Some cipher \<Rightarrow>
          (case read_exact 2 (wr_io w) of
             (s, Inl e) \<Rightarrow> (w\<lparr>wr_io := s\<rparr>, Inl (timed_io e))
           | (s, Inr header) \<Rightarrow>
               let size = unat (from_le16 (header ! 0) (header ! 1)) in
               if size > 16384 then (w\<lparr>wr_io := s\<rparr>, Inl bounds)
               else
                 (case read_exact (size + 16) s of
                    (s, Inl e) \<Rightarrow> (w\<lparr>wr_io := s\<rparr>, Inl (timed_io e))
                  | (s, Inr sealed) \<Rightarrow>
                      (case cipher_decrypt cy cipher (header @ sealed) of
                         (cipher, r) \<Rightarrow> (w\<lparr>wr_io := s, wr_read := Some cipher\<rparr>, r)))))"

lemma wire_more_shrinks: "wire_more cy w = (w', Inr bytes) \<Longrightarrow> length (rx (wr_io w')) < length (rx (wr_io w))"
  by (auto simp: wire_more_def read_exact_def Let_def split: option.splits if_splits prod.splits)

text \<open>The caller's timer covers the whole of \<open>receive\<close>.\<close>

function wire_receive :: "crypto \<Rightarrow> wire \<Rightarrow> wire \<times> (proto_error + request)" where
  "wire_receive cy w =
     (case next_request (wr_pending w) of
        (p, Inl e) \<Rightarrow> (w\<lparr>wr_pending := p\<rparr>, Inl e)
      | (p, Inr (Some rq)) \<Rightarrow> (w\<lparr>wr_pending := p\<rparr>, Inr rq)
      | (p, Inr None) \<Rightarrow>
          (case wire_more cy (w\<lparr>wr_pending := p\<rparr>) of
             (w, Inl e) \<Rightarrow> (w, Inl e)
           | (w, Inr bytes) \<Rightarrow>
               (case request_push (wr_pending w) bytes of
                  Inl e \<Rightarrow> (w, Inl e)
                | Inr p \<Rightarrow> wire_receive cy (w\<lparr>wr_pending := p\<rparr>))))"
  by pat_completeness auto
termination
  by (relation "measure (\<lambda>(cy, w). length (rx (wr_io w)))") (auto dest!: wire_more_shrinks [OF sym])

declare wire_receive.simps [simp del]

fun send_parts :: "crypto \<Rightarrow> control_cipher \<Rightarrow> byte_stream \<Rightarrow> u8 list list \<Rightarrow> control_cipher \<times> byte_stream \<times> (proto_error + unit)" where
  "send_parts cy cipher s [] = (cipher, s, Inr ())"
| "send_parts cy cipher s (part # parts) =
     (case cipher_encrypt cy cipher part of
        (cipher, Inl e) \<Rightarrow> (cipher, s, Inl e)
      | (cipher, Inr frame) \<Rightarrow>
          (case write_all frame s of
             (s, Inl e) \<Rightarrow> (cipher, s, Inl (timed_io e))
           | (s, Inr _) \<Rightarrow> send_parts cy cipher s parts))"

definition wire_send :: "crypto \<Rightarrow> wire \<Rightarrow> u8 list \<Rightarrow> wire \<times> (proto_error + unit)" where
  "wire_send cy w bytes =
     (case wr_write w of
        None \<Rightarrow> (case write_all bytes (wr_io w) of (s, r) \<Rightarrow> (w\<lparr>wr_io := s\<rparr>, map_sum timed_io id r))
      | Some cipher \<Rightarrow>
          (case send_parts cy cipher (wr_io w) (chunks 16384 bytes) of
             (cipher, s, r) \<Rightarrow> (w\<lparr>wr_io := s, wr_write := Some cipher\<rparr>, r)))"

definition crlf :: "u8 list" where "crlf = [0x0d, 0x0a]"

definition response_head :: "u8 list \<Rightarrow> u8 list \<Rightarrow> string \<Rightarrow> nat \<Rightarrow> u8 list" where
  "response_head protocol sequence content len =
     protocol @ str '' 200 OK'' @ crlf @ str ''CSeq: '' @ sequence @ crlf @ str ''Content-Type: '' @ str content @ crlf
       @ str ''Content-Length: '' @ decimal len @ crlf @ crlf"

definition wire_respond :: "crypto \<Rightarrow> wire \<Rightarrow> request \<Rightarrow> u8 list \<Rightarrow> string \<Rightarrow> wire \<times> (proto_error + unit)" where
  "wire_respond cy w rq body content =
     (case map_of (rq_headers rq) (str ''cseq'') of
        None \<Rightarrow> (w, Inl malformed)
      | Some sequence \<Rightarrow>
          if length sequence > 10 \<or> \<not> list_all ascii_digit sequence then (w, Inl malformed)
          else wire_send cy w (response_head (rq_protocol rq) sequence content (length body) @ body))"

section \<open>The event channel\<close>

datatype receiver_command =
    AudioGain u64 u64 | Touch u8 bool u16 u16 | MicrophoneMute bool | MicrophoneSource "u8 list" | ReleaseTouches
  | ReleaseAudio | Keyframe | Night bool | Siri | SiriButton bool

definition siri_button :: "bool \<Rightarrow> plist" where
  "siri_button pressed = dict [(''type'', plist_text ''requestSiri''),
     (''params'', dict [(''siriAction'', plist_number (if pressed then 2 else 3))])]"

definition hid_report :: "u8 list \<Rightarrow> plist" where
  "hid_report contacts = dict [(''type'', plist_text ''hidSendReport''), (''uuid'', plist_text TOUCH), (''hidReport'', PData contacts)]"

definition contact_set :: "nat \<Rightarrow> bool \<Rightarrow> u16 \<Rightarrow> u16 \<Rightarrow> u8 list \<Rightarrow> u8 list" where
  "contact_set slot down x y contacts =
     take (slot * 6 + 1) contacts @ [if down then 1 else 0] @ to_le16 x @ to_le16 y @ drop (slot * 6 + 6) contacts"

definition command_payload :: "receiver_command \<Rightarrow> u8 list \<Rightarrow> proto_error + u8 list \<times> plist list" where
  "command_payload command contacts =
     (case command of
        AudioGain _ _ \<Rightarrow> Inl State
      | MicrophoneMute _ \<Rightarrow> Inl State
      | MicrophoneSource _ \<Rightarrow> Inl State
      | Touch slot down x y \<Rightarrow>
          if slot > 1 then Inl bounds
          else let contacts = contact_set (unat slot) down x y contacts in Inr (contacts, [hid_report contacts])
      | ReleaseTouches \<Rightarrow> let contacts = contacts[1 := 0, 7 := 0] in Inr (contacts, [hid_report contacts])
      | ReleaseAudio \<Rightarrow> Inr (contacts, [dict [(''type'', plist_text ''changeModes''),
          (''params'', dict [(''resources'', PArray [dict [(''resourceID'', plist_number 2), (''transferType'', plist_number 2)]])])]])
      | Keyframe \<Rightarrow> Inr (contacts, [dict [(''type'', plist_text ''forceKeyFrame''), (''params'', dict [(''uuid'', plist_text MAIN_DISPLAY)])]])
      | Night value \<Rightarrow> Inr (contacts, [dict [(''type'', plist_text ''setNightMode''), (''params'', dict [(''nightMode'', PBool value)])]])
      | Siri \<Rightarrow> Inr (contacts, [siri_button True, siri_button False])
      | SiriButton pressed \<Rightarrow> Inr (contacts, [siri_button pressed]))"

record event_state =
  ev_wire :: wire
  ev_contacts :: "u8 list"
  ev_sequence :: u32

definition event_new :: "crypto \<Rightarrow> u8 list \<Rightarrow> byte_stream \<Rightarrow> proto_error + event_state" where
  "event_new cy secret s =
     bindr (derive_key cy secret ''Events-Salt'' ''Events-Read-Encryption-Key'') (\<lambda>read.
     bindr (derive_key cy secret ''Events-Salt'' ''Events-Write-Encryption-Key'') (\<lambda>write.
       Inr \<lparr>ev_wire = (wire_new s)\<lparr>wr_read := Some (cipher_new read), wr_write := Some (cipher_new write)\<rparr>,
            ev_contacts = (replicate 12 0)[6 := 1], ev_sequence = 0\<rparr>))"

definition command_head :: "u32 \<Rightarrow> nat \<Rightarrow> u8 list" where
  "command_head sequence len =
     str ''POST /command RTSP/1.0'' @ crlf @ str ''CSeq: '' @ decimal (unat sequence) @ crlf
       @ str ''Content-Type: application/x-apple-binary-plist'' @ crlf @ str ''Content-Length: '' @ decimal len @ crlf @ crlf"

fun event_send :: "crypto \<Rightarrow> plist_lib \<Rightarrow> event_state \<Rightarrow> plist list \<Rightarrow> event_state \<times> (proto_error + unit)" where
  "event_send cy pl s [] = (s, Inr ())"
| "event_send cy pl s (payload # payloads) =
     (case binary pl payload of
        Inl e \<Rightarrow> (s, Inl e)
      | Inr body \<Rightarrow>
          if ev_sequence s = - 1 then (s, Inl bounds)
          else
            let s = s\<lparr>ev_sequence := ev_sequence s + 1\<rparr> in
            (case wire_send cy (ev_wire s) (command_head (ev_sequence s) (length body) @ body) of
               (w, Inl e) \<Rightarrow> (s\<lparr>ev_wire := w\<rparr>, Inl e)
             | (w, Inr _) \<Rightarrow> event_send cy pl (s\<lparr>ev_wire := w\<rparr>) payloads))"

definition event_command :: "crypto \<Rightarrow> plist_lib \<Rightarrow> event_state \<Rightarrow> receiver_command \<Rightarrow> event_state \<times> (proto_error + unit)" where
  "event_command cy pl s command =
     (case command_payload command (ev_contacts s) of
        Inl e \<Rightarrow> (s, Inl e)
      | Inr (contacts, payloads) \<Rightarrow> event_send cy pl (s\<lparr>ev_contacts := contacts\<rparr>) payloads)"

definition starts_with :: "string \<Rightarrow> u8 list \<Rightarrow> bool" where
  "starts_with p bs \<longleftrightarrow> take (length p) bs = str p"

text \<open>A request of the phone is answered; a response must be a success.\<close>

definition event_request :: "crypto \<Rightarrow> event_state \<Rightarrow> event_state \<times> (proto_error + unit)" where
  "event_request cy s =
     (case wire_receive cy (ev_wire s) of
        (w, Inl e) \<Rightarrow> (s\<lparr>ev_wire := w\<rparr>, Inl e)
      | (w, Inr rq) \<Rightarrow>
          if \<not> starts_with ''RTSP/'' (rq_method rq) \<and> \<not> starts_with ''HTTP/'' (rq_method rq)
          then (case wire_respond cy w rq [] ''application/x-apple-binary-plist'' of (w, r) \<Rightarrow> (s\<lparr>ev_wire := w\<rparr>, r))
          else (s\<lparr>ev_wire := w\<rparr>, if rq_target rq \<noteq> str ''200'' then Inl Rejected else Inr ()))"


section \<open>What one side sends, the other receives\<close>

lemma wire_more_pending: "wire_more cy (w\<lparr>wr_pending := p\<rparr>) = (case wire_more cy w of (w', r) \<Rightarrow> (w'\<lparr>wr_pending := p\<rparr>, r))"
  by (auto simp: wire_more_def Let_def split: option.splits prod.splits sum.splits)

text \<open>The rounds of \<open>wire_more\<close> deliver these parts, one by one.\<close>

fun delivers :: "crypto \<Rightarrow> wire \<Rightarrow> u8 list list \<Rightarrow> wire \<Rightarrow> bool" where
  "delivers cy w [] w' \<longleftrightarrow> w' = w"
| "delivers cy w (p # ps) w' \<longleftrightarrow> p \<noteq> [] \<and> (\<exists>w1. wire_more cy w = (w1, Inr p) \<and> delivers cy w1 ps w')"

lemma delivers_pending: "delivers cy w ps w' \<Longrightarrow> delivers cy (w\<lparr>wr_pending := p\<rparr>) ps (w'\<lparr>wr_pending := p\<rparr>)"
proof (induction ps arbitrary: w)
  case (Cons q ps)
  then obtain w1 where "wire_more cy w = (w1, Inr q)" "q \<noteq> []" "delivers cy w1 ps w'" by auto
  then show ?case using Cons.IH by (auto simp: wire_more_pending)
qed simp

lemma whole_request:
  assumes "request_parse bytes = Inr (Some (rq, length bytes))"
  shows "length bytes \<le> MAX_HEADERS + MAX_BODY" and "qs \<noteq> [] \<Longrightarrow> bytes = ps @ qs \<Longrightarrow> request_parse ps = Inr None"
proof -
  obtain split rq' len where p: "head_end bytes = Some split" "split + 4 \<le> MAX_HEADERS"
    "parse_head (take split bytes) = Inr (rq', len)" "length bytes = split + 4 + len"
    using assms by (auto simp: request_parse_def Let_def split: option.splits if_splits)
  moreover have "len \<le> MAX_BODY" using p(3) by (auto simp: parse_head_def split: if_splits list.splits)
  ultimately show "length bytes \<le> MAX_HEADERS + MAX_BODY" by simp
  assume q: "qs \<noteq> []" "bytes = ps @ qs"
  show "request_parse ps = Inr None"
  proof (cases "request_parse ps")
    case (Inl e)
    then show ?thesis using request_stream.fails [OF Inl, of qs] q assms by simp
  next
    case (Inr r)
    show ?thesis
    proof (cases r)
      case (Some x)
      obtain m n where "x = (m, n)" by (cases x)
      then have "request_parse ps = Inr (Some (m, n))" using Inr Some by simp
      then show ?thesis using request_stream.extends [of ps m n qs] request_stream.consumes [of ps m n] q assms by auto
    qed (use Inr in simp)
  qed
qed

lemma receive_parts:
  assumes "request_parse bytes = Inr (Some (rq, length bytes))"
  shows "wr_pending w @ concat parts = bytes \<Longrightarrow> delivers cy w parts w' \<Longrightarrow> wire_receive cy w = (w'\<lparr>wr_pending := []\<rparr>, Inr rq)"
proof (induction parts arbitrary: w w')
  case Nil
  then show ?case using assms by (subst wire_receive.simps) (simp add: next_request_def)
next
  case (Cons p ps)
  then obtain w1 where m: "wire_more cy w = (w1, Inr p)" and d: "delivers cy w1 ps w'" and ne: "p \<noteq> []" by auto
  have pend: "wr_pending w1 = wr_pending w" using m
    by (auto simp: wire_more_def Let_def split: option.splits prod.splits sum.splits if_splits)
  have n: "request_parse (wr_pending w) = Inr None"
    using whole_request(2) [OF assms, of "p @ concat ps" "wr_pending w"] Cons.prems(1) ne by simp
  have len: "length (wr_pending w) + length p \<le> MAX_HEADERS + MAX_BODY"
    using whole_request(1) [OF assms] arg_cong [OF Cons.prems(1), of length] by simp
  have "wire_receive cy (w1\<lparr>wr_pending := wr_pending w @ p\<rparr>) = (w'\<lparr>wr_pending := wr_pending w @ p\<rparr>\<lparr>wr_pending := []\<rparr>, Inr rq)"
    by (rule Cons.IH [OF _ delivers_pending [OF d]]) (use Cons.prems(1) in simp)
  then show ?case using n m len pend
    by (subst wire_receive.simps) (simp add: next_request_def request_push_def wire_more_pending)
qed

lemma cipher_frame:
  assumes "aead_correct cy" "cipher_encrypt cy c plain = (c', Inr frame)"
  shows "\<exists>sealed. frame = to_le16 (of_nat (length plain)) @ sealed \<and> length sealed = length plain + 16 \<and> plain \<noteq> [] \<and> length plain \<le> 16384"
  using assms(2) open_seal [OF assms(1)]
  by (fastforce simp: cipher_encrypt_def Let_def split: if_splits sum.splits)

lemma more_of_frame:
  assumes cy: "aead_correct cy" and e: "cipher_encrypt cy c plain = (c', Inr frame)"
    and r: "wr_read r = Some d" "cc_key d = cc_key c" "cc_counter d = cc_counter c" "\<not> cc_failed d" "rx (wr_io r) = frame @ rest"
  shows "plain \<noteq> [] \<and> wire_more cy r = (r\<lparr>wr_io := (wr_io r)\<lparr>rx := rest\<rparr>, wr_read := Some (d\<lparr>cc_counter := cc_counter c'\<rparr>)\<rparr>, Inr plain)"
proof -
  obtain sealed where f: "frame = to_le16 (of_nat (length plain)) @ sealed" "length sealed = length plain + 16" "plain \<noteq> []" "length plain \<le> 16384"
    using cipher_frame [OF cy e] by blast
  let ?h = "to_le16 (of_nat (length plain))"
  have u: "unat (from_le16 (?h ! 0) (?h ! Suc 0)) = length plain"
    using f(4) by (simp add: to_le16_Cons from_le16_parts')
  have "read_exact 2 (wr_io r) = ((wr_io r)\<lparr>rx := sealed @ rest\<rparr>, Inr ?h)"
    using r(5) f(1) by (intro read_exact_enough) simp_all
  moreover have "read_exact (length plain + 16) ((wr_io r)\<lparr>rx := sealed @ rest\<rparr>) = ((wr_io r)\<lparr>rx := rest\<rparr>, Inr sealed)"
    using read_exact_enough [of "(wr_io r)\<lparr>rx := sealed @ rest\<rparr>" sealed rest] f(2) by simp
  ultimately show ?thesis
    using cipher_step [OF cy e r(2,3,4)] r(1) f u by (simp add: wire_more_def Let_def)
qed

definition in_step :: "control_cipher \<Rightarrow> wire \<Rightarrow> bool" where
  "in_step c r \<longleftrightarrow> (\<exists>d. wr_read r = Some d \<and> cc_key d = cc_key c \<and> cc_counter d = cc_counter c \<and> \<not> cc_failed d)"

lemma send_parts_delivers:
  "aead_correct cy \<Longrightarrow> send_parts cy c s parts = (c', s', Inr u) \<Longrightarrow>
   \<exists>out. tx s' = tx s @ out \<and> (\<forall>r rest. in_step c r \<and> rx (wr_io r) = out @ rest \<longrightarrow>
     (\<exists>r'. delivers cy r parts r' \<and> in_step c' r' \<and> wr_io r' = (wr_io r)\<lparr>rx := rest\<rparr> \<and> wr_write r' = wr_write r))"
proof (induction parts arbitrary: c s)
  case Nil
  have "(wr_io r)\<lparr>rx := rx (wr_io r)\<rparr> = wr_io r" for r by simp
  then show ?case using Nil by auto
next
  case (Cons p ps)
  obtain c1 frame s1 u1 where e: "cipher_encrypt cy c p = (c1, Inr frame)" and w: "write_all frame s = (s1, Inr u1)"
    and n: "send_parts cy c1 s1 ps = (c', s', Inr u)"
    using Cons.prems(2) by (auto split: prod.splits sum.splits)
  obtain out where out: "tx s' = tx s1 @ out" and
    rec: "\<And>r rest. in_step c1 r \<Longrightarrow> rx (wr_io r) = out @ rest \<Longrightarrow>
       \<exists>r'. delivers cy r ps r' \<and> in_step c' r' \<and> wr_io r' = (wr_io r)\<lparr>rx := rest\<rparr> \<and> wr_write r' = wr_write r"
    using Cons.IH [OF Cons.prems(1) n] by blast
  have t: "tx s1 = tx s @ frame" using w by (simp add: write_all_Inr)
  have "\<exists>r'. delivers cy r (p # ps) r' \<and> in_step c' r' \<and> wr_io r' = (wr_io r)\<lparr>rx := rest\<rparr> \<and> wr_write r' = wr_write r"
    if i: "in_step c r" and x: "rx (wr_io r) = (frame @ out) @ rest" for r rest
  proof -
    obtain d where d: "wr_read r = Some d" "cc_key d = cc_key c" "cc_counter d = cc_counter c" "\<not> cc_failed d"
      using i by (auto simp: in_step_def)
    let ?r = "r\<lparr>wr_io := (wr_io r)\<lparr>rx := out @ rest\<rparr>, wr_read := Some (d\<lparr>cc_counter := cc_counter c1\<rparr>)\<rparr>"
    have m: "p \<noteq> [] \<and> wire_more cy r = (?r, Inr p)" using more_of_frame [OF Cons.prems(1) e d, of "out @ rest"] x by simp
    have "in_step c1 ?r" using cipher_step [OF Cons.prems(1) e d(2,3,4)] d by (simp add: in_step_def)
    then show ?thesis using rec [of ?r rest] m by auto
  qed
  then have "tx s' = tx s @ (frame @ out) \<and> (\<forall>r rest. in_step c r \<and> rx (wr_io r) = (frame @ out) @ rest \<longrightarrow>
     (\<exists>r'. delivers cy r (p # ps) r' \<and> in_step c' r' \<and> wr_io r' = (wr_io r)\<lparr>rx := rest\<rparr> \<and> wr_write r' = wr_write r))"
    using out t by (auto simp del: delivers.simps)
  then show ?case by blast
qed


text \<open>The two directions of two connected sides: both plain, or encrypted under the same key and in step.\<close>

definition wires_agree :: "wire \<Rightarrow> wire \<Rightarrow> bool" where
  "wires_agree w r \<longleftrightarrow> (case wr_write w of None \<Rightarrow> wr_read r = None | Some c \<Rightarrow> in_step c r)"

lemma delivers_bytes:
  "wr_read r = None \<Longrightarrow> rx (wr_io r) = bytes @ rest \<Longrightarrow> delivers cy r (map (\<lambda>b. [b]) bytes) (r\<lparr>wr_io := (wr_io r)\<lparr>rx := rest\<rparr>\<rparr>)"
proof (induction bytes arbitrary: r)
  case (Cons b bytes)
  have "read_exact (Suc 0) (wr_io r) = ((wr_io r)\<lparr>rx := bytes @ rest\<rparr>, Inr [b])"
    using Cons.prems(2) by (intro read_exact_enough) simp_all
  then show ?case using Cons.IH [of "r\<lparr>wr_io := (wr_io r)\<lparr>rx := bytes @ rest\<rparr>\<rparr>"] Cons.prems(1) by (simp add: wire_more_def)
qed simp

lemma wire_exchange:
  assumes cy: "aead_correct cy" and s: "wire_send cy w bytes = (w', Inr u)" and rq: "request_parse bytes = Inr (Some (rq, length bytes))"
  obtains out where "tx (wr_io w') = tx (wr_io w) @ out"
    and "\<And>r rest. wires_agree w r \<Longrightarrow> wr_pending r = [] \<Longrightarrow> rx (wr_io r) = out @ rest \<Longrightarrow>
       \<exists>r'. wire_receive cy r = (r', Inr rq) \<and> wires_agree w' r' \<and> wr_pending r' = [] \<and> rx (wr_io r') = rest"
proof (cases "wr_write w")
  case None
  then have w': "w' = w\<lparr>wr_io := (wr_io w)\<lparr>tx := tx (wr_io w) @ bytes, tx_room := tx_room (wr_io w) - length bytes\<rparr>\<rparr>"
    using s by (auto simp: wire_send_def write_all_def split: if_splits)
  show ?thesis
  proof (rule that [of bytes])
    show "tx (wr_io w') = tx (wr_io w) @ bytes" using w' by simp
    fix r rest
    assume a: "wires_agree w r" "wr_pending r = []" "rx (wr_io r) = bytes @ rest"
    have "wire_receive cy r = (r\<lparr>wr_io := (wr_io r)\<lparr>rx := rest\<rparr>, wr_pending := []\<rparr>, Inr rq)"
      using receive_parts [OF rq, of r "map (\<lambda>b. [b]) bytes"] delivers_bytes [of r bytes rest cy] a None
      by (simp add: wires_agree_def concat_map_singleton)
    then show "\<exists>r'. wire_receive cy r = (r', Inr rq) \<and> wires_agree w' r' \<and> wr_pending r' = [] \<and> rx (wr_io r') = rest"
      using a None w' by (simp add: wires_agree_def)
  qed
next
  case (Some c)
  then obtain c' s' where p: "send_parts cy c (wr_io w) (chunks 16384 bytes) = (c', s', Inr u)"
    and w': "w' = w\<lparr>wr_io := s', wr_write := Some c'\<rparr>"
    using s by (auto simp: wire_send_def split: prod.splits)
  obtain out where out: "tx s' = tx (wr_io w) @ out" and
    del: "\<And>r rest. in_step c r \<Longrightarrow> rx (wr_io r) = out @ rest \<Longrightarrow>
     \<exists>r'. delivers cy r (chunks 16384 bytes) r' \<and> in_step c' r' \<and> wr_io r' = (wr_io r)\<lparr>rx := rest\<rparr> \<and> wr_write r' = wr_write r"
    using send_parts_delivers [OF cy p] by blast
  show ?thesis
  proof (rule that [of out])
    show "tx (wr_io w') = tx (wr_io w) @ out" using w' out by simp
    fix r rest
    assume a: "wires_agree w r" "wr_pending r = []" "rx (wr_io r) = out @ rest"
    then have "in_step c r" using Some by (simp add: wires_agree_def)
    then obtain r' where r': "delivers cy r (chunks 16384 bytes) r'" "in_step c' r'" "wr_io r' = (wr_io r)\<lparr>rx := rest\<rparr>"
      using del a(3) by blast
    then have "wire_receive cy r = (r'\<lparr>wr_pending := []\<rparr>, Inr rq)"
      using receive_parts [OF rq _ r'(1)] a(2) by (simp add: concat_chunks)
    then show "\<exists>r'. wire_receive cy r = (r', Inr rq) \<and> wires_agree w' r' \<and> wr_pending r' = [] \<and> rx (wr_io r') = rest"
      using r' w' by (simp add: wires_agree_def in_step_def)
  qed
qed


section \<open>Generated messages are parsed back\<close>

definition lines_text :: "u8 list list \<Rightarrow> u8 list" where
  "lines_text ls = concat (map (\<lambda>l. l @ crlf) ls)"

lemma lines_text_Cons: "lines_text (l # ls) = l @ crlf @ lines_text ls"
  by (simp add: lines_text_def)

definition plain_line :: "u8 list \<Rightarrow> bool" where
  "plain_line l \<longleftrightarrow> l \<noteq> [] \<and> (\<forall>b \<in> set l. b \<noteq> 0x0d \<and> b < 0x80)"

lemma head_end_skip: "\<forall>b \<in> set l. b \<noteq> 0x0d \<Longrightarrow> head_end (l @ xs) = map_option ((+) (length l)) (head_end xs)"
proof (induction l)
  case (Cons a l)
  have s: "head_end xs = None" if "length xs < 4" using that by (subst head_end.simps) simp
  then show ?case using Cons by (auto simp: CRLF2_def option.map_comp comp_def)
next
  case Nil
  show ?case by (cases "head_end xs") auto
qed

lemma head_end_crlf: "plain_line l \<Longrightarrow> head_end (crlf @ l @ xs) = map_option ((+) 2) (head_end (l @ xs))"
proof -
  assume p: "plain_line l"
  then obtain a m where l: "l = a # m" "a \<noteq> 0x0d" by (cases l) (auto simp: plain_line_def)
  have s: "head_end (l @ xs) = None" if "length (l @ xs) < 4" using that by (subst head_end.simps) simp
  show ?thesis using l s by (auto simp: crlf_def CRLF2_def option.map_comp comp_def)
qed

lemma head_end_lines:
  "ls \<noteq> [] \<Longrightarrow> \<forall>l \<in> set ls. plain_line l \<Longrightarrow> head_end (lines_text ls @ crlf @ body) = Some (length (lines_text ls) - 2)"
proof (induction ls)
  case (Cons l ls)
  have l: "plain_line l" "\<forall>b \<in> set l. b \<noteq> 0x0d" using Cons.prems by (auto simp: plain_line_def)
  show ?case
  proof (cases ls)
    case Nil
    have "head_end (crlf @ crlf @ body) = Some 0" by (simp add: crlf_def CRLF2_def)
    then show ?thesis using Nil head_end_skip [OF l(2), of "crlf @ crlf @ body"] by (simp add: lines_text_def crlf_def)
  next
    case (Cons m ms)
    have m: "plain_line m" using Cons \<open>\<forall>l \<in> set (l # ls). plain_line l\<close> by simp
    have r: "head_end (lines_text ls @ crlf @ body) = Some (length (lines_text ls) - 2)"
      using Cons.IH Cons.prems Cons by simp
    have "head_end (crlf @ lines_text ls @ crlf @ body) = map_option ((+) 2) (head_end (lines_text ls @ crlf @ body))"
      using head_end_crlf [OF m, of "crlf @ lines_text ms @ crlf @ body"] Cons by (simp add: lines_text_def)
    then show ?thesis using head_end_skip [OF l(2), of "crlf @ lines_text ls @ crlf @ body"] r Cons
      by (simp add: lines_text_def crlf_def)
  qed
qed simp

lemma split_lines_last: "\<forall>b \<in> set l. b \<noteq> 0x0d \<Longrightarrow> split_lines l = [l]"
  by (induction l) auto

lemma split_lines_first: "\<forall>b \<in> set l. b \<noteq> 0x0d \<Longrightarrow> split_lines (l @ crlf @ xs) = l # split_lines xs"
  by (induction l) (auto simp: crlf_def)

lemma split_lines_text:
  "ls \<noteq> [] \<Longrightarrow> \<forall>l \<in> set ls. plain_line l \<Longrightarrow> split_lines (take (length (lines_text ls) - 2) (lines_text ls)) = ls"
proof (induction ls)
  case (Cons l ls)
  have l: "\<forall>b \<in> set l. b \<noteq> 0x0d" using Cons.prems by (auto simp: plain_line_def)
  show ?case
  proof (cases ls)
    case Nil
    then show ?thesis using split_lines_last [OF l] by (simp add: lines_text_def crlf_def)
  next
    case (Cons m ms)
    obtain k where "length (lines_text ls) = Suc (Suc k)" using Cons by (simp add: lines_text_def crlf_def)
    then have "take (length (lines_text (l # ls)) - 2) (lines_text (l # ls)) = l @ crlf @ take (length (lines_text ls) - 2) (lines_text ls)"
      by (simp add: lines_text_Cons crlf_def)
    then show ?thesis using split_lines_first [OF l] Cons.IH Cons.prems Cons by simp
  qed
qed simp

lemma parse_lines:
  assumes "\<forall>l \<in> set (first # ls). plain_line l" "split_words first = [w0, w1, w2]" "start_line_ok w0 w1 w2" "header_lines [] ls = Inr hs"
    "map_of hs (str ''transfer-encoding'') = None" "content_length hs = Inr (length body)" "length body \<le> MAX_BODY"
    "length (lines_text (first # ls)) + 2 \<le> MAX_HEADERS"
  shows "request_parse (lines_text (first # ls) @ crlf @ body) =
    Inr (Some (\<lparr>rq_method = w0, rq_target = w1, rq_protocol = w2, rq_headers = hs, rq_body = body\<rparr>, length (lines_text (first # ls) @ crlf @ body)))"
proof -
  let ?t = "lines_text (first # ls)" and ?n = "length (lines_text (first # ls)) - 2"
  have n2: "length ?t \<ge> 2" by (simp add: lines_text_def crlf_def)
  have h: "head_end (?t @ crlf @ body) = Some ?n" using head_end_lines [OF _ assms(1)] by simp
  have tk: "take ?n (?t @ crlf @ body) = take ?n ?t" using n2 by simp
  have asc: "\<not> list_ex (\<lambda>b. b \<ge> 0x80) (take ?n ?t)"
  proof -
    have lines: "b < 0x80" if "l \<in> set (first # ls)" "b \<in> set l" for l b
    proof -
      have "plain_line l" using assms(1) that(1) by blast
      then show ?thesis using that(2) by (simp add: plain_line_def)
    qed
    have "b < 0x80" if "b \<in> set (take ?n ?t)" for b
    proof -
      have "b \<in> set ?t" using that by (rule in_set_takeD)
      then obtain l where "l \<in> set (first # ls)" "b \<in> set l \<or> b \<in> set crlf" by (auto simp: lines_text_def split: if_splits)
      then show ?thesis using lines [of l b] by (auto simp: crlf_def)
    qed
    then show ?thesis by (auto simp: list_ex_iff not_le)
  qed
  have p: "parse_head (take ?n ?t) = Inr (\<lparr>rq_method = w0, rq_target = w1, rq_protocol = w2, rq_headers = hs, rq_body = []\<rparr>, length body)"
  proof -
    have sl: "split_lines (take ?n ?t) = first # ls" by (rule split_lines_text [OF _ assms(1)]) simp
    show ?thesis unfolding parse_head_def sl using asc assms(2-7) by simp
  qed
  have d: "drop (?n + 4) (?t @ crlf @ body) = body" using n2 by (simp add: crlf_def)
  have len: "length (?t @ crlf @ body) = ?n + 4 + length body" using n2 by (simp add: crlf_def)
  show ?thesis
    unfolding request_parse_def h option.case tk p using assms(8) n2 d len by (simp add: Let_def)
qed


text \<open>Digits, and numbers read back.\<close>

lemma digit_facts: "d < 10 \<Longrightarrow> ascii_digit (hex_digit d) \<and> unat (hex_digit d) = 0x30 + d \<and> hex_digit d < 0x80 \<and> \<not> ascii_space (hex_digit d) \<and> \<not> ascii_control (hex_digit d)"
proof -
  assume "d < 10"
  then have "d \<in> {0, 1, 2, 3, 4, 5, 6, 7, 8, 9}" using less_16_cases [of d] by auto
  then show ?thesis by (auto simp: hex_digit_def ascii_digit_def ascii_space_def ascii_control_def)
qed

lemma decimal_digits: "b \<in> set (decimal n) \<Longrightarrow> ascii_digit b \<and> b < 0x80 \<and> \<not> ascii_space b \<and> \<not> ascii_control b"
  using digits_bound [of 10] digit_facts by (auto simp: decimal_def)

lemma decimal_nonempty [simp]: "decimal n \<noteq> []"
  by (simp add: decimal_def)

lemma parse_decimal_snoc: "parse_decimal (bs @ [b]) = 10 * parse_decimal bs + (unat b - 0x30)"
  by (simp add: parse_decimal_def)

lemma parse_decimal_inverse [simp]: "parse_decimal (decimal n) = n"
proof (induction n rule: less_induct)
  case (less n)
  show ?case
  proof (cases "n < 10")
    case True
    then show ?thesis using digit_facts [OF True] by (simp add: decimal_def digits.simps [of 10 n] parse_decimal_def)
  next
    case False
    then have "decimal n = decimal (n div 10) @ [hex_digit (n mod 10)]" by (simp add: decimal_def digits.simps [of 10 n])
    then show ?thesis using False less.IH [of "n div 10"] digit_facts [of "n mod 10"] by (simp add: parse_decimal_snoc)
  qed
qed

lemma decimal_length: "n < 10 ^ k \<Longrightarrow> 0 < k \<Longrightarrow> length (decimal n) \<le> k"
  by (simp add: decimal_def length_digits)

lemma trim_value:
  assumes "v \<noteq> []" "\<not> ascii_space (hd v)" "\<not> ascii_space (last v)"
  shows "ascii_trim (0x20 # v) = v"
proof -
  have "ascii_space 0x20" by (simp add: ascii_space_def)
  then have "dropWhile ascii_space (0x20 # v) = v" using assms by (cases v) simp_all
  moreover have "dropWhile ascii_space (rev v) = rev v" using assms by (cases v rule: rev_cases) simp_all
  ultimately show ?thesis by (simp add: ascii_trim_def)
qed

lemma split_once_first: "c \<notin> set xs \<Longrightarrow> split_once c (xs @ c # ys) = Some (xs, ys)"
  by (induction xs) auto

lemma header_line_value:
  assumes "name \<noteq> []" "list_all (\<lambda>b. ascii_alnum b \<or> b = 0x2d) name" "0x3a \<notin> set name"
    and "v \<noteq> []" "\<not> ascii_space (hd v)" "\<not> ascii_space (last v)" "\<forall>b \<in> set v. \<not> ascii_control b"
  shows "header_line (name @ 0x3a # 0x20 # v) = Inr (map ascii_lower name, v)"
proof -
  have "\<not> list_ex (\<lambda>b. ascii_control b \<and> b \<noteq> 9) (0x20 # v)"
    using assms(7) by (auto simp: list_ex_iff ascii_control_def)
  then show ?thesis using assms by (simp add: header_line_def split_once_first trim_value)
qed

lemma header_line_decimal:
  assumes "name \<noteq> []" "list_all (\<lambda>b. ascii_alnum b \<or> b = 0x2d) name" "0x3a \<notin> set name"
  shows "header_line (name @ 0x3a # 0x20 # decimal n) = Inr (map ascii_lower name, decimal n)"
  by (intro header_line_value assms) (use decimal_digits hd_in_set [of "decimal n"] last_in_set [of "decimal n"] decimal_nonempty in blast)+

definition content_plist :: "u8 list" where
  "content_plist = str ''application/x-apple-binary-plist''"

lemma plain_line_append: "plain_line l \<Longrightarrow> plain_line (l @ decimal n)"
  using decimal_digits [of _ n] decimal_digits [of 13 n] by (auto simp: plain_line_def ascii_control_def)

definition command_request :: "u32 \<Rightarrow> u8 list \<Rightarrow> request" where
  "command_request q body = \<lparr>rq_method = str ''POST'', rq_target = str ''/command'', rq_protocol = str ''RTSP/1.0'',
     rq_headers = [(str ''cseq'', decimal (unat q)), (str ''content-type'', content_plist), (str ''content-length'', decimal (length body))],
     rq_body = body\<rparr>"

lemma header_names:
  "list_all (\<lambda>b. ascii_alnum b \<or> b = 0x2d) (str ''CSeq'')" "list_all (\<lambda>b. ascii_alnum b \<or> b = 0x2d) (str ''Content-Length'')"
  "list_all (\<lambda>b. ascii_alnum b \<or> b = 0x2d) (str ''Content-Type'')"
  "0x3a \<notin> set (str ''CSeq'')" "0x3a \<notin> set (str ''Content-Length'')" "0x3a \<notin> set (str ''Content-Type'')"
  "map ascii_lower (str ''CSeq'') = str ''cseq''" "map ascii_lower (str ''Content-Length'') = str ''content-length''"
  "map ascii_lower (str ''Content-Type'') = str ''content-type''"
  by (simp_all add: str_def ascii_alnum_def ascii_digit_def ascii_upper_def ascii_lower_def)

lemma header_lines_sent:
  "header_line (str ''CSeq: '' @ decimal n) = Inr (str ''cseq'', decimal n)"
  "header_line (str ''Content-Length: '' @ decimal n) = Inr (str ''content-length'', decimal n)"
  "header_line (str ''Content-Type: application/x-apple-binary-plist'') = Inr (str ''content-type'', content_plist)"
proof -
  have e: "str ''CSeq: '' = str ''CSeq'' @ [0x3a, 0x20]" "str ''Content-Length: '' = str ''Content-Length'' @ [0x3a, 0x20]"
    by (simp_all add: str_def)
  show "header_line (str ''CSeq: '' @ decimal n) = Inr (str ''cseq'', decimal n)"
    "header_line (str ''Content-Length: '' @ decimal n) = Inr (str ''content-length'', decimal n)"
    using header_line_decimal [of "str ''CSeq''" n] header_line_decimal [of "str ''Content-Length''" n] header_names e
    by (simp_all add: str_def)
  show "header_line (str ''Content-Type: application/x-apple-binary-plist'') = Inr (str ''content-type'', content_plist)"
    by (simp add: header_line_def str_def content_plist_def ascii_alnum_def ascii_digit_def ascii_upper_def ascii_lower_def
        ascii_control_def ascii_trim_def ascii_space_def)
qed

lemma command_head_lines: "command_head q n = lines_text [str ''POST /command RTSP/1.0'', str ''CSeq: '' @ decimal (unat q),
    str ''Content-Type: application/x-apple-binary-plist'', str ''Content-Length: '' @ decimal n] @ crlf"
  by (simp add: command_head_def lines_text_def)

lemma command_head_parsed:
  assumes "length body \<le> MAX_BODY"
  shows "request_parse (command_head q (length body) @ body) =
    Inr (Some (command_request q body, length (command_head q (length body) @ body)))"
proof -
  let ?first = "str ''POST /command RTSP/1.0''" and ?ls = "[str ''CSeq: '' @ decimal (unat q),
    str ''Content-Type: application/x-apple-binary-plist'', str ''Content-Length: '' @ decimal (length body)]"
  let ?hs = "[(str ''cseq'', decimal (unat q)), (str ''content-type'', content_plist), (str ''content-length'', decimal (length body))]"
  have distinct: "str ''cseq'' \<noteq> str ''content-type''" "str ''cseq'' \<noteq> str ''content-length''" "str ''content-type'' \<noteq> str ''content-length''"
    "str ''cseq'' \<noteq> str ''transfer-encoding''" "str ''content-type'' \<noteq> str ''transfer-encoding''" "str ''content-length'' \<noteq> str ''transfer-encoding''"
    by (simp_all add: str_def)
  have pl: "plain_line ?first" "plain_line (str ''CSeq: '')" "plain_line (str ''Content-Type: application/x-apple-binary-plist'')" "plain_line (str ''Content-Length: '')"
    by (simp_all add: plain_line_def str_def)
  have small: "length body < 10 ^ 10" using assms by (simp add: MAX_BODY_def)
  have len: "length (decimal (unat q)) \<le> 10" "length (decimal (length body)) \<le> 10"
    using decimal_length [of "unat q" 10] decimal_length [OF small] unat_bounds(3) [of q] by simp_all
  have "request_parse (lines_text (?first # ?ls) @ crlf @ body) =
    Inr (Some (\<lparr>rq_method = str ''POST'', rq_target = str ''/command'', rq_protocol = str ''RTSP/1.0'', rq_headers = ?hs, rq_body = body\<rparr>,
      length (lines_text (?first # ?ls) @ crlf @ body)))"
  proof (rule parse_lines)
    show "\<forall>l \<in> set (?first # ?ls). plain_line l" using pl plain_line_append by simp
    show "split_words ?first = [str ''POST'', str ''/command'', str ''RTSP/1.0'']" by (simp add: split_words_def str_def)
    show "start_line_ok (str ''POST'') (str ''/command'') (str ''RTSP/1.0'')"
      by (simp add: start_line_ok_def protocols_def str_def ascii_upper_def ascii_control_def)
    show "header_lines [] ?ls = Inr ?hs" using distinct by (simp add: header_lines_sent)
    show "map_of ?hs (str ''transfer-encoding'') = None" using distinct by simp
    show "content_length ?hs = Inr (length body)"
      using distinct small decimal_digits [of _ "length body"] by (auto simp: content_length_def list_all_iff)
    show "length (lines_text (?first # ?ls)) + 2 \<le> MAX_HEADERS" using len by (simp add: lines_text_def crlf_def MAX_HEADERS_def)
  qed fact
  then show ?thesis by (simp add: command_head_lines command_request_def)
qed


section \<open>Commands arrive\<close>

fun receive_all :: "crypto \<Rightarrow> wire \<Rightarrow> nat \<Rightarrow> wire \<times> request list" where
  "receive_all cy r 0 = (r, [])"
| "receive_all cy r (Suc n) =
     (case wire_receive cy r of
        (r, Inl e) \<Rightarrow> (r, [])
      | (r, Inr rq) \<Rightarrow> (case receive_all cy r n of (r, rqs) \<Rightarrow> (r, rq # rqs)))"

text \<open>The commands of the host in turn, up to the first that fails.\<close>

fun event_commands :: "crypto \<Rightarrow> plist_lib \<Rightarrow> event_state \<Rightarrow> receiver_command list \<Rightarrow> event_state \<times> (proto_error + unit)" where
  "event_commands cy pl s [] = (s, Inr ())"
| "event_commands cy pl s (c # cs) =
     (case event_command cy pl s c of (s, Inl e) \<Rightarrow> (s, Inl e) | (s, Inr _) \<Rightarrow> event_commands cy pl s cs)"

text \<open>What the phone is to receive: one request for each property list, numbered on from \<open>q\<close>.\<close>

fun expected :: "plist_lib \<Rightarrow> u32 \<Rightarrow> plist list \<Rightarrow> request list" where
  "expected pl q [] = []"
| "expected pl q (v # vs) =
     (case binary pl v of Inl e \<Rightarrow> [] | Inr body \<Rightarrow> command_request (q + 1) body # expected pl (q + 1) vs)"

fun command_values :: "u8 list \<Rightarrow> receiver_command list \<Rightarrow> plist list" where
  "command_values contacts [] = []"
| "command_values contacts (c # cs) =
     (case command_payload c contacts of Inl e \<Rightarrow> [] | Inr (contacts, vs) \<Rightarrow> vs @ command_values contacts cs)"

lemma event_send_append:
  "event_send cy pl s (xs @ ys) = (case event_send cy pl s xs of (s, Inl e) \<Rightarrow> (s, Inl e) | (s, Inr _) \<Rightarrow> event_send cy pl s ys)"
  by (induction cy pl s xs rule: event_send.induct) (auto simp: Let_def split: sum.splits prod.splits)

lemma event_send_contacts: "event_send cy pl s vs = (s', r) \<Longrightarrow> ev_contacts s' = ev_contacts s"
  by (induction cy pl s vs rule: event_send.induct) (auto simp: Let_def split: sum.splits prod.splits if_splits)

lemma event_send_delivers:
  assumes cy: "aead_correct cy"
  shows "event_send cy pl s vs = (s', Inr u) \<Longrightarrow>
    \<exists>out. tx (wr_io (ev_wire s')) = tx (wr_io (ev_wire s)) @ out \<and>
      (\<forall>r rest. wires_agree (ev_wire s) r \<and> wr_pending r = [] \<and> rx (wr_io r) = out @ rest \<longrightarrow>
        (\<exists>r'. receive_all cy r (length vs) = (r', expected pl (ev_sequence s) vs)
           \<and> wires_agree (ev_wire s') r' \<and> wr_pending r' = [] \<and> rx (wr_io r') = rest))"
proof (induction vs arbitrary: s)
  case (Cons v vs)
  let ?s1 = "s\<lparr>ev_sequence := ev_sequence s + 1\<rparr>"
  obtain body where b: "binary pl v = Inr body" using Cons.prems by (auto split: sum.splits)
  let ?m = "command_head (ev_sequence s + 1) (length body) @ body"
  obtain w u1 where w: "wire_send cy (ev_wire s) ?m = (w, Inr u1)" and n: "event_send cy pl (?s1\<lparr>ev_wire := w\<rparr>) vs = (s', Inr u)"
    using Cons.prems b by (auto simp: Let_def split: sum.splits prod.splits if_splits)
  have "length body \<le> MAX_BODY" using b by (auto simp: binary_def MAX_BODY_def split: if_splits)
  note rq = command_head_parsed [OF this, of "ev_sequence s + 1"]
  obtain out1 where o1: "tx (wr_io w) = tx (wr_io (ev_wire s)) @ out1"
    and r1: "\<And>r rest. wires_agree (ev_wire s) r \<Longrightarrow> wr_pending r = [] \<Longrightarrow> rx (wr_io r) = out1 @ rest \<Longrightarrow>
       \<exists>r'. wire_receive cy r = (r', Inr (command_request (ev_sequence s + 1) body)) \<and> wires_agree w r' \<and> wr_pending r' = [] \<and> rx (wr_io r') = rest"
    using wire_exchange [OF cy w rq] by blast
  obtain out2 where o2: "tx (wr_io (ev_wire s')) = tx (wr_io w) @ out2"
    and r2: "\<And>r rest. wires_agree w r \<Longrightarrow> wr_pending r = [] \<Longrightarrow> rx (wr_io r) = out2 @ rest \<Longrightarrow>
       \<exists>r'. receive_all cy r (length vs) = (r', expected pl (ev_sequence s + 1) vs)
         \<and> wires_agree (ev_wire s') r' \<and> wr_pending r' = [] \<and> rx (wr_io r') = rest"
    using Cons.IH [OF n] by auto
  have "\<exists>r'. receive_all cy r (length (v # vs)) = (r', expected pl (ev_sequence s) (v # vs))
         \<and> wires_agree (ev_wire s') r' \<and> wr_pending r' = [] \<and> rx (wr_io r') = rest"
    if a: "wires_agree (ev_wire s) r" "wr_pending r = []" "rx (wr_io r) = (out1 @ out2) @ rest" for r rest
  proof -
    obtain r3 where r3: "wire_receive cy r = (r3, Inr (command_request (ev_sequence s + 1) body))" "wires_agree w r3" "wr_pending r3 = []" "rx (wr_io r3) = out2 @ rest"
      using r1 [of r "out2 @ rest"] a by auto
    show ?thesis using r2 [OF r3(2-4)] r3(1) b by auto
  qed
  then show ?case using o1 o2 by (intro exI [of _ "out1 @ out2"]) simp
next
  case Nil
  then show ?case by (intro exI [of _ "[]"]) simp
qed

lemma event_send_with_contacts:
  "event_send cy pl (s\<lparr>ev_contacts := c\<rparr>) vs = (case event_send cy pl s vs of (s', r) \<Rightarrow> (s'\<lparr>ev_contacts := c\<rparr>, r))"
proof (induction cy pl s vs rule: event_send.induct)
  case (2 cy pl s v vs)
  have swap: "s\<lparr>ev_contacts := c, ev_sequence := q, ev_wire := w\<rparr> = s\<lparr>ev_sequence := q, ev_wire := w, ev_contacts := c\<rparr>" for q w by simp
  show ?case using "2.IH" by (auto simp: Let_def swap split: sum.splits prod.splits)
qed simp

lemma event_commands_send:
  "event_commands cy pl s cs = (s', Inr u) \<Longrightarrow>
   event_send cy pl s (command_values (ev_contacts s) cs) = (s'\<lparr>ev_contacts := ev_contacts s\<rparr>, Inr ())"
proof (induction cs arbitrary: s)
  case (Cons c cs)
  obtain contacts vs where p: "command_payload c (ev_contacts s) = Inr (contacts, vs)"
    using Cons.prems by (auto simp: event_command_def split: sum.splits)
  obtain s1 u1 where e: "event_send cy pl (s\<lparr>ev_contacts := contacts\<rparr>) vs = (s1, Inr u1)" and r: "event_commands cy pl s1 cs = (s', Inr u)"
    using Cons.prems p by (auto simp: event_command_def split: sum.splits prod.splits)
  have k: "ev_contacts s1 = contacts" using event_send_contacts [OF e] by simp
  have v: "event_send cy pl s vs = (s1\<lparr>ev_contacts := ev_contacts s\<rparr>, Inr u1)"
    using e event_send_with_contacts [of cy pl "ev_contacts s" "s\<lparr>ev_contacts := contacts\<rparr>" vs] by simp
  have "event_send cy pl (s1\<lparr>ev_contacts := ev_contacts s\<rparr>) (command_values contacts cs) = (s'\<lparr>ev_contacts := ev_contacts s\<rparr>, Inr ())"
    using Cons.IH [OF r] k by (simp add: event_send_with_contacts)
  then show ?case by (simp add: event_send_append p v)
qed simp

text \<open>C16. The commands of the host arrive: what the event channel writes for a run of commands, the phone reads back, under the
  encryption of the channel, as exactly the requests of those commands, in order and consecutively numbered, with nothing
  left over; and both sides stay in step for what follows.\<close>

theorem event_commands_delivered:
  assumes "aead_correct cy" and "event_commands cy pl s cs = (s', Inr u)"
    and "wires_agree (ev_wire s) phone" "wr_pending phone = []" "tx (wr_io (ev_wire s')) = tx (wr_io (ev_wire s)) @ rx (wr_io phone)"
  shows "\<exists>phone'. receive_all cy phone (length (command_values (ev_contacts s) cs))
      = (phone', expected pl (ev_sequence s) (command_values (ev_contacts s) cs))
    \<and> wires_agree (ev_wire s') phone' \<and> wr_pending phone' = [] \<and> rx (wr_io phone') = []"
  using event_send_delivers [OF assms(1) event_commands_send [OF assms(2)]] assms(3-5) by auto


definition example_wire :: "u8 list \<Rightarrow> u8 list \<Rightarrow> wire" where
  "example_wire input key = \<lparr>wr_io = \<lparr>rx = input, rx_end = Stalled, tx = [], tx_room = 10000\<rparr>, wr_pending = [],
     wr_read = Some (cipher_new key), wr_write = Some (cipher_new key)\<rparr>"

definition example_channel :: event_state where
  "example_channel = \<lparr>ev_wire = example_wire [] [9], ev_contacts = (replicate 12 0)[6 := 1], ev_sequence = 0\<rparr>"

definition can_send :: "nat \<Rightarrow> wire \<Rightarrow> bool" where
  "can_send n w \<longleftrightarrow> (\<exists>c. wr_write w = Some c \<and> \<not> cc_failed c \<and> unat (cc_counter c) + n < 2 ^ 32 \<and> 1000 * n \<le> tx_room (wr_io w))"

lemma wire_send_example:
  assumes "can_send (Suc n) w" "bytes \<noteq> []" "length bytes \<le> 900"
  shows "\<exists>w'. wire_send plain_crypto w bytes = (w', Inr ()) \<and> can_send n w'"
proof -
  obtain c where c: "wr_write w = Some c" "\<not> cc_failed c" "unat (cc_counter c) + Suc n < 2 ^ 32" "1000 * Suc n \<le> tx_room (wr_io w)"
    using assms(1) by (auto simp: can_send_def)
  have ne: "cc_counter c \<noteq> 0xffffffffffffffff" using c(3) by auto
  then have nonce: "\<exists>n. cipher_nonce c = Inr n" using c(2) by (simp add: cipher_nonce_def)
  have "(0xffffffffffffffff :: u64) = - 1" by simp
  then have nx: "unat (cc_counter c + 1) = Suc (unat (cc_counter c))" using next_counter [of "cc_counter c"] ne by metis
  have "chunks 16384 bytes = [bytes]" using assms(2,3) by (simp add: chunks_Cons)
  moreover obtain frame where "cipher_encrypt plain_crypto c bytes = (c\<lparr>cc_counter := cc_counter c + 1\<rparr>, Inr frame)" "length frame = length bytes + 18"
    using nonce assms(2,3) by (auto simp: cipher_encrypt_def seal_def from_openssl_def plain_crypto_def Let_def to_le16_def)
  ultimately show ?thesis using c assms(3) nx by (auto simp: wire_send_def write_all_def can_send_def)
qed

lemma example_binary: "binary example_plist v = Inr [0]"
  by (simp add: binary_def example_plist_def)

lemma event_send_example:
  "can_send (length vs) (ev_wire s) \<Longrightarrow> unat (ev_sequence s) + length vs < 2 ^ 32 \<Longrightarrow>
   \<exists>s'. event_send plain_crypto example_plist s vs = (s', Inr ())"
proof (induction vs arbitrary: s)
  case (Cons v vs)
  let ?m = "command_head (ev_sequence s + 1) (length [0 :: u8]) @ [0]"
  have "length (decimal (unat (ev_sequence s + 1))) \<le> 10" "length (decimal (length [0 :: u8])) \<le> 1"
    using decimal_length [of "unat (ev_sequence s + 1)" 10] unat_bounds(3) [of "ev_sequence s + 1"] decimal_length [of 1 1] by simp_all
  then have "length ?m \<le> 900" by (simp add: command_head_def crlf_def)
  then obtain w where w: "wire_send plain_crypto (ev_wire s) ?m = (w, Inr ())" "can_send (length vs) w"
    using wire_send_example [of "length vs" "ev_wire s" ?m] Cons.prems(1) by auto
  have "unat (- 1 :: u32) = 4294967295" by (simp add: unsigned_minus_1_eq_mask mask_eq_exp_minus_1)
  then have q: "ev_sequence s \<noteq> - 1" using Cons.prems(2) by auto
  then have "unat (ev_sequence s + 1) = Suc (unat (ev_sequence s))" by (metis Suc_eq_plus1 add.commute add_eq_0_iff unatSuc)
  then show ?case using Cons.IH [of "s\<lparr>ev_sequence := ev_sequence s + 1, ev_wire := w\<rparr>"] Cons.prems(2) w q
    by (simp add: example_binary Let_def)
qed simp

lemma example_commands: "\<exists>s'. event_commands plain_crypto example_plist example_channel [Siri] = (s', Inr ())"
proof -
  have "can_send (length [siri_button True, siri_button False]) (ev_wire example_channel)"
    "unat (ev_sequence example_channel) + length [siri_button True, siri_button False] < 2 ^ 32"
    by (simp_all add: can_send_def example_channel_def example_wire_def cipher_new_def)
  then obtain s' where "event_send plain_crypto example_plist example_channel [siri_button True, siri_button False] = (s', Inr ())"
    using event_send_example by blast
  moreover have "example_channel\<lparr>ev_contacts := ev_contacts example_channel\<rparr> = example_channel" by simp
  ultimately show ?thesis by (simp add: event_command_def command_payload_def del: event_send.simps)
qed

theorem event_commands_delivered_witness:
  "\<exists>s' phone phone'. event_commands plain_crypto example_plist example_channel [Siri] = (s', Inr ())
     \<and> receive_all plain_crypto phone 2 = (phone', map (\<lambda>q. command_request q [0]) [1, 2]) \<and> rx (wr_io phone') = []"
proof -
  obtain s' where s': "event_commands plain_crypto example_plist example_channel [Siri] = (s', Inr ())"
    using example_commands by blast
  let ?phone = "example_wire (tx (wr_io (ev_wire s'))) [9]"
  have a: "wires_agree (ev_wire example_channel) ?phone" "wr_pending ?phone = []"
    "tx (wr_io (ev_wire s')) = tx (wr_io (ev_wire example_channel)) @ rx (wr_io ?phone)"
    by (simp_all add: wires_agree_def example_channel_def example_wire_def in_step_def cipher_new_def)
  have v: "command_values (ev_contacts example_channel) [Siri] = [siri_button True, siri_button False]"
    by (simp add: command_payload_def)
  have e: "expected example_plist (ev_sequence example_channel) [siri_button True, siri_button False] = map (\<lambda>q. command_request q [0]) [1, 2]"
    by (simp add: example_binary) (simp add: example_channel_def)
  obtain phone' where "receive_all plain_crypto ?phone (length (command_values (ev_contacts example_channel) [Siri])) = (phone', map (\<lambda>q. command_request q [0]) [1, 2])"
    "rx (wr_io phone') = []"
    using event_commands_delivered [OF plain_crypto_aead(1) s' a] unfolding v e by blast
  then show ?thesis using s' unfolding v list.size by (metis One_nat_def Suc_1 add.right_neutral add_Suc_right)
qed

end
