(* ===== verification/Timing.thy ===== *)
theory Timing
  imports Prelude
begin

unbundle bit_operations_syntax

text \<open>
  The timing channel of a CarPlay session (\<open>native/carplay/src/protocol/receiver.rs\<close>): the host clock that is steered
  into the phone's time and the task that exchanges timing packets. Times are in units of \<open>2\<^sup>-\<^sup>3\<^sup>2\<close> seconds, as in NTP.
\<close>

section \<open>The session clock\<close>

text \<open>The wall clock as seconds and nanoseconds since 1970.\<close>

definition ntp :: "u64 \<Rightarrow> u32 \<Rightarrow> u64" where
  "ntp secs nanos = push_bit 32 (secs + 2208988800) OR (push_bit 32 (ucast nanos) div 1000000000)"

text \<open>Ticks of a duration since the origin; the sources compute in 128 bits, which no value here leaves.\<close>

definition clock_ticks :: "nat \<Rightarrow> nat \<Rightarrow> int" where
  "clock_ticks secs nanos = int secs * 2 ^ 32 + int nanos * 2 ^ 32 div 1000000000"

record session_clock =
  ck_base :: u64
  ck_adjustment :: int
  ck_synchronized :: bool

definition clock_new :: "u64 \<Rightarrow> session_clock" where
  "clock_new base = \<lparr>ck_base = base, ck_adjustment = 0, ck_synchronized = False\<rparr>"

definition clock_now :: "int \<Rightarrow> session_clock \<Rightarrow> u64" where
  "clock_now ticks c = of_int (uint (ck_base c) + ticks + ck_adjustment c)"

text \<open>Division of the sources rounds toward zero.\<close>

definition tdiv :: "int \<Rightarrow> int \<Rightarrow> int" where
  "tdiv a b = sgn a * sgn b * (\<bar>a\<bar> div \<bar>b\<bar>)"

definition clock_observe :: "u64 \<Rightarrow> u64 \<Rightarrow> u64 \<Rightarrow> u64 \<Rightarrow> session_clock \<Rightarrow> session_clock \<times> bool" where
  "clock_observe sent received remote_receive remote_send c =
     (let t1 = uint sent; t2 = uint remote_receive; t3 = uint remote_send; t4 = uint received;
          delay = (t4 - t1) - (t3 - t2) in
      if t3 < t2 \<or> \<not> (0 \<le> delay \<and> delay < 2 ^ 32) then (c, False)
      else
        let correction = tdiv ((t2 - t1) + (t3 - t4)) 2;
            step = (if \<not> ck_synchronized c \<or> \<bar>correction\<bar> > 2 ^ 29 then correction else tdiv correction 8) in
        (c\<lparr>ck_adjustment := ck_adjustment c + step, ck_synchronized := True\<rparr>, True))"

section \<open>The timing task\<close>

record timing_state =
  ti_clock :: session_clock
  ti_pending :: "u64 option"

text \<open>A tick of the interval, or a datagram; with the clock at its handling and, for a reply, at its sending.\<close>

datatype timing_event = TimingTick int | TimingPacket int int "u8 list"

definition be64_at :: "nat \<Rightarrow> u8 list \<Rightarrow> u64" where
  "be64_at i bs = from_be64 (take 8 (drop i bs))"

definition timing_request :: "u64 \<Rightarrow> u8 list" where
  "timing_request sent = [0x80, 210, 0, 7] @ replicate 20 0 @ to_be64 sent"

definition timing_reply :: "u8 list \<Rightarrow> u64 \<Rightarrow> u64 \<Rightarrow> u8 list" where
  "timing_reply buffer now sent = [0x80, 211, 0, 7, 0, 0, 0, 0] @ take 8 (drop 24 buffer) @ to_be64 now @ to_be64 sent"

fun timing_step :: "timing_state \<Rightarrow> timing_event \<Rightarrow> timing_state \<times> u8 list list" where
  "timing_step s (TimingTick ticks) =
     (let sent = clock_now ticks (ti_clock s) in (s\<lparr>ti_pending := Some sent\<rparr>, [timing_request sent]))"
| "timing_step s (TimingPacket ticks later buffer) =
     (if length buffer \<noteq> 32 \<or> buffer ! 0 \<noteq> 0x80 \<or> take 2 (drop 2 buffer) \<noteq> [0, 7] then (s, [])
      else
        let now = clock_now ticks (ti_clock s) in
        if buffer ! 1 = 210 then (s, [timing_reply buffer now (clock_now later (ti_clock s))])
        else if buffer ! 1 = 211 then
          let echoed = be64_at 8 buffer in
          if ti_pending s \<noteq> Some echoed then (s, [])
          else (s\<lparr>ti_pending := None,
                  ti_clock := fst (clock_observe echoed now (be64_at 16 buffer) (be64_at 24 buffer) (ti_clock s))\<rparr>, [])
        else (s, []))"

section \<open>Accuracy\<close>

lemma tdiv_2: "\<bar>2 * tdiv a 2 - a\<bar> \<le> 1"
  by (cases a "0 :: int" rule: linorder_cases) (auto simp: tdiv_def)

lemma tdiv_8: "\<bar>tdiv a 8\<bar> \<le> \<bar>a\<bar>" "0 \<le> a \<Longrightarrow> 0 \<le> tdiv a 8 \<and> tdiv a 8 \<le> a" "a \<le> 0 \<Longrightarrow> a \<le> tdiv a 8 \<and> tdiv a 8 \<le> 0"
  by (cases a "0 :: int" rule: linorder_cases; auto simp: tdiv_def abs_if)+


text \<open>A phone whose clock is \<open>P\<close> ahead of the host's uncorrected clock.\<close>

definition phone_clock :: "u64 \<Rightarrow> int \<Rightarrow> int \<Rightarrow> u64" where
  "phone_clock base P ticks = of_int (uint base + ticks + P)"

definition in_era :: "int \<Rightarrow> bool" where
  "in_era v \<longleftrightarrow> 0 \<le> v \<and> v < 2 ^ 64"

lemma uint_in_era: "in_era v \<Longrightarrow> uint (of_int v :: u64) = v"
  by (simp add: in_era_def uint_word_of_int)

text \<open>How far an observation can be off: half of the round trip, and a tick of rounding.\<close>

definition slack :: "int \<Rightarrow> int \<Rightarrow> int \<Rightarrow> int \<Rightarrow> int" where
  "slack r1 r2 r3 r4 = ((r4 - r1) - (r3 - r2)) div 2 + 1"

lemma smoothing:
  fixes error :: int
  assumes "\<bar>c - error\<bar> \<le> d"
  shows "\<bar>error - tdiv c 8\<bar> \<le> max \<bar>error\<bar> d"
  using assms tdiv_8 [of c] by (cases "0 \<le> c") (auto simp: abs_if max_def split: if_splits)

lemma clock_accuracy:
  fixes P r1 r2 r3 r4 :: int
  defines "base c \<equiv> uint (ck_base c)"
  assumes order: "r1 \<le> r2" "r2 \<le> r3" "r3 \<le> r4" "(r4 - r1) - (r3 - r2) < 2 ^ 32"
    and era: "in_era (base c + r1 + ck_adjustment c)" "in_era (base c + r4 + ck_adjustment c)" "in_era (base c + r2 + P)" "in_era (base c + r3 + P)"
  shows "\<exists>c'. clock_observe (clock_now r1 c) (clock_now r4 c) (phone_clock (ck_base c) P r2) (phone_clock (ck_base c) P r3) c = (c', True)
     \<and> ck_synchronized c' \<and> ck_base c' = ck_base c
     \<and> (\<not> ck_synchronized c \<longrightarrow> \<bar>P - ck_adjustment c'\<bar> \<le> slack r1 r2 r3 r4)
     \<and> \<bar>P - ck_adjustment c'\<bar> \<le> max \<bar>P - ck_adjustment c\<bar> (slack r1 r2 r3 r4)"
proof -
  let ?a = "ck_adjustment c" and ?sum = "(r2 + P - r1 - ck_adjustment c) + (r3 + P - r4 - ck_adjustment c)"
  let ?corr = "tdiv ?sum 2"
  have u: "uint (clock_now r1 c) = base c + r1 + ?a" "uint (clock_now r4 c) = base c + r4 + ?a"
    "uint (phone_clock (ck_base c) P r2) = base c + r2 + P" "uint (phone_clock (ck_base c) P r3) = base c + r3 + P"
    using era unfolding clock_now_def phone_clock_def base_def by (auto simp del: of_int_add intro!: uint_in_era)
  define c' where "c' = c\<lparr>ck_adjustment := ?a + (if \<not> ck_synchronized c \<or> \<bar>?corr\<bar> > 2 ^ 29 then ?corr else tdiv ?corr 8), ck_synchronized := True\<rparr>"
  have o: "clock_observe (clock_now r1 c) (clock_now r4 c) (phone_clock (ck_base c) P r2) (phone_clock (ck_base c) P r3) c = (c', True)"
    using order by (simp add: clock_observe_def u c'_def Let_def algebra_simps)
  have near: "\<bar>?corr - (P - ?a)\<bar> \<le> slack r1 r2 r3 r4"
    using tdiv_2 [of ?sum] order unfolding slack_def by linarith
  have sm: "\<bar>(P - ?a) - tdiv ?corr 8\<bar> \<le> max \<bar>P - ?a\<bar> (slack r1 r2 r3 r4)"
    by (rule smoothing [OF near])
  show ?thesis
    by (intro exI [of _ c'] conjI o) (use near sm in \<open>auto simp: c'_def abs_minus_commute algebra_simps\<close>)
qed

lemma timing_reply_parts:
  "length (timing_reply (timing_request x) now sent) = 32"
  "timing_reply (timing_request x) now sent ! 0 = 0x80" "timing_reply (timing_request x) now sent ! Suc 0 = 211"
  "take 2 (drop 2 (timing_reply (timing_request x) now sent)) = [0, 7]"
  "be64_at 8 (timing_reply (timing_request x) now sent) = x"
  "be64_at 16 (timing_reply (timing_request x) now sent) = now"
  "be64_at 24 (timing_reply (timing_request x) now sent) = sent"
  by (simp_all add: timing_reply_def timing_request_def be64_at_def)

text \<open>C23. The host follows the phone's clock. One exchange, on a path of any asymmetry with a round trip under a second, is
  accepted; a first exchange leaves an error of at most half the round trip (and a tick), a later one never makes the error
  larger than it was or than that; and the reply is used up. The phone answers as the host itself answers.\<close>

theorem timing_synchronizes:
  fixes P r1 r2 r3 r4 :: int
  assumes "r1 \<le> r2" "r2 \<le> r3" "r3 \<le> r4" "(r4 - r1) - (r3 - r2) < 2 ^ 32"
    and "in_era (uint (ck_base (ti_clock s)) + r1 + ck_adjustment (ti_clock s))"
      "in_era (uint (ck_base (ti_clock s)) + r4 + ck_adjustment (ti_clock s))"
      "in_era (uint (ck_base (ti_clock s)) + r2 + P)" "in_era (uint (ck_base (ti_clock s)) + r3 + P)"
    and "phone = phone_clock (ck_base (ti_clock s)) P"
    and "run_machine timing_step s [TimingTick r1, TimingPacket r4 later (timing_reply (timing_request (clock_now r1 (ti_clock s))) (phone r2) (phone r3))] = (s', out)"
  shows "ck_synchronized (ti_clock s') \<and> ti_pending s' = None
    \<and> (\<not> ck_synchronized (ti_clock s) \<longrightarrow> \<bar>P - ck_adjustment (ti_clock s')\<bar> \<le> slack r1 r2 r3 r4)
    \<and> \<bar>P - ck_adjustment (ti_clock s')\<bar> \<le> max \<bar>P - ck_adjustment (ti_clock s)\<bar> (slack r1 r2 r3 r4)"
proof -
  obtain c' where c': "clock_observe (clock_now r1 (ti_clock s)) (clock_now r4 (ti_clock s)) (phone r2) (phone r3) (ti_clock s) = (c', True)"
    "ck_synchronized c'" "\<not> ck_synchronized (ti_clock s) \<longrightarrow> \<bar>P - ck_adjustment c'\<bar> \<le> slack r1 r2 r3 r4"
    "\<bar>P - ck_adjustment c'\<bar> \<le> max \<bar>P - ck_adjustment (ti_clock s)\<bar> (slack r1 r2 r3 r4)"
    using clock_accuracy [OF assms(1-8)] assms(9) by blast
  have "s' = s\<lparr>ti_pending := None, ti_clock := c'\<rparr>"
    using assms(10) c'(1) by (simp add: timing_reply_parts Let_def)
  then show ?thesis using c' by simp
qed

theorem timing_synchronizes_witness:
  "let s = \<lparr>ti_clock = clock_new 1000, ti_pending = None\<rparr>;
       phone = phone_clock 1000 5000;
       s' = fst (run_machine timing_step s [TimingTick 0, TimingPacket 40 41 (timing_reply (timing_request (clock_now 0 (ti_clock s))) (phone 10) (phone 20))])
   in ck_synchronized (ti_clock s') \<and> ti_pending s' = None \<and> \<bar>5000 - ck_adjustment (ti_clock s')\<bar> \<le> slack 0 10 20 40"
proof -
  let ?s = "\<lparr>ti_clock = clock_new 1000, ti_pending = None\<rparr>"
  let ?run = "run_machine timing_step ?s [TimingTick 0, TimingPacket 40 41 (timing_reply (timing_request (clock_now 0 (ti_clock ?s))) (phone_clock 1000 5000 10) (phone_clock 1000 5000 20))]"
  show ?thesis
    unfolding Let_def
    using timing_synchronizes [of 0 10 20 40 ?s 5000 "phone_clock 1000 5000" 41 "fst ?run" "snd ?run"]
    by (simp add: in_era_def clock_new_def)
qed

end
