(* ===== verification/Receiver.thy ===== *)
theory Receiver
  imports Receiver_Wire Audio Timing
begin

unbundle bit_operations_syntax

text \<open>
  The session of an authenticated CarPlay phone (\<open>native/carplay/src/protocol/receiver.rs\<close>, \<open>Receiver::run\<close>): the admission
  by pairing, verification and MFi exchange, the set-up of its streams, and the dispatch of its requests and of the
  host's commands, with the feature \<open>linux-audio\<close>. What the system answers (ports, audio devices, the coprocessor, the
  store of peers) is an argument of each request; floating-point arithmetic is a parameter.
\<close>

section \<open>State\<close>

record phone_duck =
  pd_gain :: u64
  pd_ramp_ms :: u32

record audio_info =
  ai_connection :: "u8 list"
  ai_category :: "u8 list"
  ai_rate :: nat
  ai_channels :: nat
  ai_active :: bool

record session_info =
  si_name :: "u8 list"
  si_recorded :: bool
  si_audio_available :: bool
  si_host_return :: u64
  si_audio :: "audio_info list"
  si_phone_duck :: "phone_duck option"

record receiver_options =
  ro_display :: receiver_display
  ro_identity :: identity
  ro_audio :: "u8 list option option"
  ro_directory :: bool

text \<open>\<open>ro_audio\<close> is \<open>AudioOptions\<close>, if given, with its capture source; \<open>ro_directory\<close> tells whether peers are saved.\<close>

record session_stream =
  rs_connection :: u64
  rs_kind :: u16
  rs_format :: audio_format
  rs_category :: "u8 list"
  rs_latency_ms :: u32
  rs_data_port :: u16
  rs_control_port :: u16
  rs_task :: audio_stream

datatype session_task = ScreenTask "u8 list" | TimingTask u16 | EventTask "u8 list"

record session =
  se_wire :: wire
  se_setup :: pair_setup
  se_peers :: peers
  se_verify :: pair_verify
  se_verified :: "verified option"
  se_verify_started :: bool
  se_authenticated :: bool
  se_session_setup :: bool
  se_active :: bool
  se_screen_started :: bool
  se_audio :: "session_stream list"
  se_muted :: bool
  se_source :: "u8 list option"
  se_link :: link_client
  se_information :: session_info
  se_events_taken :: bool
  se_events :: "receiver_command list"
  se_tasks :: "session_task list"
  se_ended :: "(proto_error + unit) option"

text \<open>What the system answers while one request is handled. Streams of a request are told apart by their place in it.\<close>

record request_env =
  re_salt :: "u8 list"
  re_private :: "u8 list"
  re_ephemeral :: "u8 list"
  re_saved :: "proto_error + unit"
  re_link :: "link_env \<times> link_env \<times> link_env"
  re_screen_port :: "nat \<Rightarrow> proto_error + u16"
  re_timing_port :: "proto_error + u16"
  re_event_port :: "proto_error + u16"
  re_stream :: "nat \<Rightarrow> proto_error + u16 \<times> u16 \<times> audio_stream"
  re_healthy :: "u64 \<Rightarrow> bool"
  re_position :: "u64 \<Rightarrow> (u32 \<times> u64) option"

record float_lib =
  fl_of_int :: "int \<Rightarrow> u64"
  fl_clamp :: "u64 \<Rightarrow> u64 \<Rightarrow> u64 \<Rightarrow> u64"
  fl_gain :: "u64 \<Rightarrow> u64"
  fl_to_u32 :: "u64 \<Rightarrow> u32"

type_synonym 'a handler = "session \<Rightarrow> session \<times> (proto_error + 'a)"

definition modS :: "(session \<Rightarrow> session) \<Rightarrow> unit handler" where
  "modS f s = (f s, Inr ())"

definition getS :: "(session \<Rightarrow> 'a) \<Rightarrow> 'a handler" where
  "getS f s = (s, Inr (f s))"

definition tryS :: "proto_error + 'a \<Rightarrow> 'a handler" where
  "tryS r s = (s, r)"

definition whenS :: "bool \<Rightarrow> proto_error \<Rightarrow> unit handler" where
  "whenS c e = (if c then failS e else retS ())"

definition with_info :: "(session_info \<Rightarrow> session_info) \<Rightarrow> session \<Rightarrow> session" where
  "with_info f s = s\<lparr>se_information := f (se_information s)\<rparr>"

section \<open>Admission\<close>

definition PLIST :: string where "PLIST = ''application/x-apple-binary-plist''"

text \<open>A response: body, content type, and whether the connection is encrypted from here on.\<close>

type_synonym response = "u8 list \<times> string \<times> bool"

definition pair_setup_request :: "crypto \<Rightarrow> receiver_options \<Rightarrow> request_env \<Rightarrow> u8 list \<Rightarrow> response handler" where
  "pair_setup_request cy ro env bytes = (\<lambda>s.
     case setup_handle cy (ro_identity ro) (se_setup s, se_peers s) (re_salt env, re_private env, bytes) of
       ((setup, peers), r) \<Rightarrow>
         bindS (tryS r) (\<lambda>body.
         bindS (tryS (decode_tlv body)) (\<lambda>fs.
         bindS (tryS (if map_of fs 6 = Some [6] \<and> ro_directory ro then re_saved env else Inr ())) (\<lambda>_.
           retS (body, ''application/pairing+tlv8'', False))))
         (s\<lparr>se_setup := setup, se_peers := peers\<rparr>))"

definition pair_verify_request :: "crypto \<Rightarrow> receiver_options \<Rightarrow> request_env \<Rightarrow> u8 list \<Rightarrow> response handler" where
  "pair_verify_request cy ro env bytes = (\<lambda>s.
     if \<not> se_verify_started s
     then (case verify_start cy (ro_identity ro) (re_ephemeral env) bytes (se_verify s) of
             (v, r) \<Rightarrow>
               bindS (tryS r) (\<lambda>body. retS (body, ''application/pairing+tlv8'', False)) (s\<lparr>se_verify_started := True, se_verify := v\<rparr>))
     else (case verify_finish cy (se_peers s) bytes (se_verify s) of
             (v, r) \<Rightarrow>
               bindS (tryS r) (\<lambda>(body, keys).
               bindS (modS (\<lambda>s. s\<lparr>se_verified := Some keys\<rparr>)) (\<lambda>_.
                 retS (body, ''application/pairing+tlv8'', True))) (s\<lparr>se_verify := v\<rparr>)))"

definition auth_setup_request :: "crypto \<Rightarrow> request_env \<Rightarrow> u8 list \<Rightarrow> response handler" where
  "auth_setup_request cy env bytes = (\<lambda>s.
     case re_link env of (e1, e2, e3) \<Rightarrow>
       (case auth_setup cy (re_ephemeral env) e1 e2 e3 bytes (se_link s) of
          (k, r) \<Rightarrow>
            bindS (tryS r) (\<lambda>body.
            bindS (modS (\<lambda>s. s\<lparr>se_authenticated := True\<rparr>)) (\<lambda>_. retS (body, ''application/octet-stream'', False)))
            (s\<lparr>se_link := k\<rparr>)))"

definition info_request :: "plist_lib \<Rightarrow> receiver_options \<Rightarrow> response handler" where
  "info_request pl ro =
     bindS (tryS (binary pl (receiver_info (ro_display ro) (ro_identity ro) (ro_audio ro \<noteq> None)
         (\<exists>source. ro_audio ro = Some (Some source))))) (\<lambda>body. retS (body, PLIST, False))"

section \<open>Streams\<close>

definition stream_salt :: "u64 \<Rightarrow> string" where
  "stream_salt connection = ''DataStream-Salt'' @ map (char_of \<circ> unat) (decimal (unat connection))"

definition verified_secret :: "u8 list handler" where
  "verified_secret s = (s, bindr (ok_or State (se_verified s)) (\<lambda>v. Inr (vf_secret v)))"

definition screen_setup :: "request_env \<Rightarrow> nat \<Rightarrow> u8 list \<Rightarrow> plist handler" where
  "screen_setup env i key =
     bindS (getS se_screen_started) (\<lambda>started.
     bindS (whenS started State) (\<lambda>_.
     bindS (tryS (re_screen_port env i)) (\<lambda>port.
     bindS (modS (\<lambda>s. s\<lparr>se_tasks := se_tasks s @ [ScreenTask key], se_screen_started := True\<rparr>)) (\<lambda>_.
       retS (dict [(''type'', plist_number 110), (''dataPort'', plist_number (ucast port))])))))"

definition audio_type :: "dictionary \<Rightarrow> u8 list" where
  "audio_type fs = (case Option.bind (dget ''audioType'' fs) as_string of None \<Rightarrow> str ''default'' | Some c \<Rightarrow> c)"

definition audio_types :: "u8 list set" where
  "audio_types = str ` {''media'', ''default'', ''compatibility'', ''alert'', ''telephony'', ''speechRecognition''}"

definition number_or :: "u64 \<Rightarrow> string \<Rightarrow> dictionary \<Rightarrow> u64" where
  "number_or d key fs = (case Option.bind (dget key fs) as_unsigned_integer of None \<Rightarrow> d | Some n \<Rightarrow> n)"

text \<open>\<open>u16::try_from\<close> and \<open>u32::try_from\<close>.\<close>

definition to_u16 :: "u64 \<Rightarrow> proto_error + u16" where
  "to_u16 n = (if n < 2 ^ 16 then Inr (ucast n) else Inl bounds)"

definition to_u32 :: "u64 \<Rightarrow> proto_error + u32" where
  "to_u32 n = (if n < 2 ^ 32 then Inr (ucast n) else Inl bounds)"

text \<open>The options of a capture: source, key, port of the peer, frames of a packet.\<close>

definition capture_setup ::
  "crypto \<Rightarrow> dictionary \<Rightarrow> u64 \<Rightarrow> u64 \<Rightarrow> audio_format \<Rightarrow> (u8 list \<times> u8 list \<times> u16 \<times> u32) option handler" where
  "capture_setup cy fs kind connection format =
     (let port = number_or 0 ''dataPort'' fs in
      if port = 0 then retS None
      else if kind \<noteq> 100 \<or> af_codec format \<noteq> SignedPcm16 \<or> af_sample_rate format \<noteq> 16000 \<or> af_channels format \<noteq> 1
      then failS Unsupported
      else
        bindS (getS se_source) (\<lambda>source.
        bindS (tryS (ok_or Unsupported source)) (\<lambda>source.
        bindS verified_secret (\<lambda>secret.
        bindS (tryS (derive_key cy secret (stream_salt connection) ''DataStream-Input-Encryption-Key'')) (\<lambda>key.
        bindS (tryS (to_u16 port)) (\<lambda>port.
        bindS (tryS (to_u32 (number_or 0 ''framesPerPacket'' fs))) (\<lambda>frames.
          retS (Some (source, key, port, frames)))))))))"

definition audio_setup ::
  "crypto \<Rightarrow> receiver_options \<Rightarrow> request_env \<Rightarrow> nat \<Rightarrow> dictionary \<Rightarrow> u64 \<Rightarrow> u64 \<Rightarrow> plist handler" where
  "audio_setup cy ro env i fs kind connection =
     bindS (tryS (ok_or Unsupported (ro_audio ro))) (\<lambda>_.
     bindS (getS se_audio) (\<lambda>audio.
     bindS (whenS (length audio \<ge> 4 \<or> connection \<in> rs_connection ` set audio) bounds) (\<lambda>_.
     bindS (tryS (uint_field fs ''audioFormat'')) (\<lambda>bits.
     bindS (tryS (audio_selected bits)) (\<lambda>format.
     bindS (whenS (audio_type fs \<notin> audio_types) Unsupported) (\<lambda>_.
     bindS (capture_setup cy fs kind connection format) (\<lambda>capture.
     bindS (tryS (to_u16 kind)) (\<lambda>kind16.
     bindS (tryS (to_u32 (number_or (if kind = 102 then 1000 else 20) ''audioLatencyMs'' fs))) (\<lambda>latency.
     bindS (tryS (stream_start_ok kind16 (unat latency))) (\<lambda>_.
     bindS (tryS (re_stream env i)) (\<lambda>(data_port, control_port, task).
     bindS (getS se_muted) (\<lambda>muted.
     bindS (modS (\<lambda>s. s\<lparr>se_audio := se_audio s
         @ [\<lparr>rs_connection = connection, rs_kind = kind16, rs_format = format, rs_category = audio_type fs, rs_latency_ms = latency,
             rs_data_port = data_port, rs_control_port = control_port, rs_task = set_microphone_muted muted task\<rparr>]\<rparr>)) (\<lambda>_.
       retS (dict [(''type'', plist_number kind), (''dataPort'', plist_number (ucast data_port)),
         (''controlPort'', plist_number (ucast control_port)), (''streamConnectionID'', PInt (sint connection))]))))))))))))))"

definition stream_setup :: "crypto \<Rightarrow> receiver_options \<Rightarrow> request_env \<Rightarrow> nat \<Rightarrow> plist \<Rightarrow> plist handler" where
  "stream_setup cy ro env i stream =
     bindS (tryS (ok_or malformed (as_dictionary stream))) (\<lambda>fs.
     bindS (tryS (uint_field fs ''type'')) (\<lambda>kind.
     bindS (tryS (connection_id fs)) (\<lambda>connection.
     bindS verified_secret (\<lambda>secret.
     bindS (tryS (derive_key cy secret (stream_salt connection) ''DataStream-Output-Encryption-Key'')) (\<lambda>key.
       if kind = 110 then screen_setup env i key else audio_setup cy ro env i fs kind connection)))))"

fun streams_setup :: "crypto \<Rightarrow> receiver_options \<Rightarrow> request_env \<Rightarrow> nat \<Rightarrow> plist list \<Rightarrow> plist list handler" where
  "streams_setup cy ro env i [] = retS []"
| "streams_setup cy ro env i (x # xs) =
     bindS (stream_setup cy ro env i x) (\<lambda>reply. bindS (streams_setup cy ro env (i + 1) xs) (\<lambda>replies. retS (reply # replies)))"


text \<open>\<open>chars().any(char::is_control)\<close> is \<open>has_control\<close> on the UTF-8 of a name.\<close>

definition session_name :: "dictionary \<Rightarrow> session_info \<Rightarrow> session_info" where
  "session_name fs info =
     (case Option.bind (dget ''name'' fs) as_string of
        Some name \<Rightarrow> if name \<noteq> [] \<and> length name \<le> 128 \<and> \<not> has_control name then info\<lparr>si_name := name\<rparr> else info
      | None \<Rightarrow> info)"

definition session_open :: "plist_lib \<Rightarrow> request_env \<Rightarrow> dictionary \<Rightarrow> response handler" where
  "session_open pl env fs =
     bindS (getS se_session_setup) (\<lambda>opened.
     bindS (whenS opened State) (\<lambda>_.
     bindS (modS (with_info (session_name fs))) (\<lambda>_.
     bindS (tryS (bindr (uint_field fs ''timingPort'') to_u16)) (\<lambda>timing_port.
     bindS (whenS (timing_port = 0) bounds) (\<lambda>_.
     bindS (tryS (re_timing_port env)) (\<lambda>timing_bound.
     bindS (modS (\<lambda>s. s\<lparr>se_tasks := se_tasks s @ [TimingTask timing_port]\<rparr>)) (\<lambda>_.
     bindS (tryS (re_event_port env)) (\<lambda>event_port.
     bindS verified_secret (\<lambda>secret.
     bindS (getS se_events_taken) (\<lambda>taken.
     bindS (whenS taken State) (\<lambda>_.
     bindS (modS (\<lambda>s. s\<lparr>se_events_taken := True, se_tasks := se_tasks s @ [EventTask secret]\<rparr>)) (\<lambda>_.
     bindS (tryS (binary pl (dict [(''timingPort'', plist_number (ucast timing_bound)), (''eventPort'', plist_number (ucast event_port))]))) (\<lambda>body.
     bindS (modS (\<lambda>s. s\<lparr>se_session_setup := True\<rparr>)) (\<lambda>_.
       retS (body, PLIST, False)))))))))))))))"

definition setup_request :: "crypto \<Rightarrow> plist_lib \<Rightarrow> receiver_options \<Rightarrow> request_env \<Rightarrow> u8 list \<Rightarrow> response handler" where
  "setup_request cy pl ro env bytes =
     bindS (tryS (parse_body pl bytes)) (\<lambda>fs.
       case Option.bind (dget ''streams'' fs) as_array of
         Some streams \<Rightarrow>
           bindS (getS se_session_setup) (\<lambda>opened.
           bindS (whenS (\<not> opened \<or> streams = [] \<or> length streams > 4) State) (\<lambda>_.
           bindS (streams_setup cy ro env 0 streams) (\<lambda>replies.
           bindS (tryS (binary pl (dict [(''streams'', PArray replies)]))) (\<lambda>body.
             retS (body, PLIST, False)))))
       | None \<Rightarrow> session_open pl env fs)"

section \<open>The running session\<close>

definition record_request :: "response handler" where
  "record_request =
     bindS (modS (\<lambda>s. (with_info (\<lambda>i. i\<lparr>si_recorded := True\<rparr>) s)\<lparr>se_active := True\<rparr>)) (\<lambda>_. retS ([], PLIST, False))"

definition audio_feedback :: "plist_lib \<Rightarrow> plist list \<Rightarrow> proto_error + u8 list" where
  "audio_feedback pl streams = (if streams = [] then Inr [] else binary pl (dict [(''streams'', PArray streams)]))"

definition stream_report :: "request_env \<Rightarrow> session_stream \<Rightarrow> plist" where
  "stream_report env t =
     dict ([(''type'', plist_number (ucast (rs_kind t))), (''sampleRate'', plist_number (of_nat (af_sample_rate (rs_format t)))),
            (''streamConnectionID'', plist_number (rs_connection t))]
       @ (case re_position env (rs_connection t) of
            None \<Rightarrow> []
          | Some (sample, time) \<Rightarrow> [(''sampleTime'', plist_number (ucast sample)), (''timestamp'', plist_number time)]))"

definition feedback_request :: "plist_lib \<Rightarrow> request_env \<Rightarrow> response handler" where
  "feedback_request pl env =
     bindS (getS se_audio) (\<lambda>audio.
     bindS (whenS (\<exists>t \<in> set audio. \<not> re_healthy env (rs_connection t)) Rejected) (\<lambda>_.
     bindS (tryS (audio_feedback pl (map (stream_report env) audio))) (\<lambda>body. retS (body, PLIST, False))))"

definition is_finite :: "u64 \<Rightarrow> bool" where
  "is_finite b \<longleftrightarrow> drop_bit 52 b AND 0x7ff \<noteq> 0x7ff"

definition float_zero :: u64 where "float_zero = 0"

definition duck_number :: "float_lib \<Rightarrow> dictionary \<Rightarrow> string \<Rightarrow> u64" where
  "duck_number fl command key =
     (case Option.bind (Option.bind (Option.bind (dget ''params'' command) as_dictionary) (dget key))
         (\<lambda>v. case as_real v of Some r \<Rightarrow> Some r | None \<Rightarrow> map_option (fl_of_int fl) (as_signed_integer v)) of
        Some b \<Rightarrow> if is_finite b then b else float_zero
      | None \<Rightarrow> float_zero)"

text \<open>The bits of -80.0, 2000.0 and 1.0.\<close>

definition phone_duck_of :: "float_lib \<Rightarrow> dictionary \<Rightarrow> bool \<Rightarrow> phone_duck" where
  "phone_duck_of fl command unduck =
     (let db = fl_clamp fl (duck_number fl command ''volume'') 0xC054000000000000 float_zero in
      \<lparr>pd_gain = (if unduck then 0x3FF0000000000000 else fl_gain fl db),
       pd_ramp_ms = fl_to_u32 fl (fl_clamp fl (duck_number fl command ''durationMs'') float_zero 0x409F400000000000)\<rparr>)"

definition command_request_handle :: "plist_lib \<Rightarrow> float_lib \<Rightarrow> u8 list \<Rightarrow> response handler" where
  "command_request_handle pl fl bytes =
     bindS (tryS (parse_body pl bytes)) (\<lambda>command.
       let kind = Option.bind (dget ''type'' command) as_string in
       bindS (modS (if kind = Some (str ''duckAudio'') \<or> kind = Some (str ''unduckAudio'')
           then with_info (\<lambda>i. i\<lparr>si_phone_duck := Some (phone_duck_of fl command (kind = Some (str ''unduckAudio'')))\<rparr>) else id)) (\<lambda>_.
       bindS (modS (if kind = Some (str ''requestUI'')
           then with_info (\<lambda>i. i\<lparr>si_host_return := (if si_host_return i = - 1 then - 1 else si_host_return i + 1)\<rparr>) else id)) (\<lambda>_.
         retS ([], PLIST, False))))"

definition selected :: "u64 option \<times> u64 option \<Rightarrow> session_stream \<Rightarrow> bool" where
  "selected sel t \<longleftrightarrow> (case sel of (kind, connection) \<Rightarrow>
     (case kind of None \<Rightarrow> True | Some k \<Rightarrow> ucast (rs_kind t) = k) \<and> (case connection of None \<Rightarrow> True | Some c \<Rightarrow> rs_connection t = c))"

fun teardown_streams :: "plist list \<Rightarrow> unit handler" where
  "teardown_streams [] = retS ()"
| "teardown_streams (x # xs) =
     bindS (tryS (ok_or malformed (as_dictionary x))) (\<lambda>fs.
     bindS (tryS (teardown_selector fs)) (\<lambda>sel.
     bindS (modS (\<lambda>s. s\<lparr>se_audio := filter (\<lambda>t. \<not> selected sel t) (se_audio s)\<rparr>)) (\<lambda>_. teardown_streams xs)))"

text \<open>\<open>None\<close>: the whole session is torn down.\<close>

definition teardown_request :: "plist_lib \<Rightarrow> u8 list \<Rightarrow> response option handler" where
  "teardown_request pl bytes =
     (if bytes = [] then retS None
      else bindS (tryS (parse_body pl bytes)) (\<lambda>fs.
        case Option.bind (dget ''streams'' fs) as_array of
          None \<Rightarrow> retS None
        | Some streams \<Rightarrow> bindS (teardown_streams streams) (\<lambda>_. retS (Some ([], PLIST, False)))))"

definition somely :: "response handler \<Rightarrow> response option handler" where
  "somely m = bindS m (\<lambda>r. retS (Some r))"

text \<open>The match on method and path, with its guards.\<close>

definition session_dispatch ::
  "crypto \<Rightarrow> plist_lib \<Rightarrow> float_lib \<Rightarrow> receiver_options \<Rightarrow> request_env \<Rightarrow> request \<Rightarrow> response option handler" where
  "session_dispatch cy pl fl ro env rq s =
     (let rmethod = rq_method rq; path = rq_target rq; bytes = rq_body rq; post = (rmethod = str ''POST'') in
      (if post \<and> path = str ''/pair-setup'' \<and> se_verified s = None then somely (pair_setup_request cy ro env bytes)
       else if post \<and> path = str ''/pair-verify'' \<and> se_verified s = None then somely (pair_verify_request cy ro env bytes)
       else if post \<and> path = str ''/auth-setup'' \<and> se_verified s \<noteq> None \<and> \<not> se_authenticated s
       then somely (auth_setup_request cy env bytes)
       else if (rmethod = str ''GET'' \<or> post) \<and> path = str ''/info'' then somely (info_request pl ro)
       else if rmethod = str ''OPTIONS'' then somely (retS ([], PLIST, False))
       else if rmethod = str ''SETUP'' \<and> se_authenticated s then somely (setup_request cy pl ro env bytes)
       else if rmethod = str ''RECORD'' \<and> se_authenticated s \<and> se_session_setup s then somely record_request
       else if post \<and> path = str ''/feedback'' \<and> se_authenticated s then somely (feedback_request pl env)
       else if post \<and> path = str ''/command'' \<and> se_authenticated s then somely (command_request_handle pl fl bytes)
       else if rmethod = str ''TEARDOWN'' \<and> se_authenticated s then teardown_request pl bytes
       else failS Unsupported) s)"

definition respond_with :: "crypto \<Rightarrow> request \<Rightarrow> u8 list \<Rightarrow> string \<Rightarrow> unit handler" where
  "respond_with cy rq body content s = (case wire_respond cy (se_wire s) rq body content of (w, r) \<Rightarrow> (s\<lparr>se_wire := w\<rparr>, r))"

definition audio_information :: "session \<Rightarrow> session" where
  "audio_information s = with_info (\<lambda>i. i\<lparr>si_audio := map (\<lambda>t.
     \<lparr>ai_connection = decimal (unat (rs_connection t)), ai_category = rs_category t, ai_rate = af_sample_rate (rs_format t),
      ai_channels = af_channels (rs_format t), ai_active = st_anchor (rs_task t) \<noteq> None\<rparr>) (se_audio s)\<rparr>) s"

definition activate_cipher :: "session \<Rightarrow> session" where
  "activate_cipher s =
     (case se_verified s of
        None \<Rightarrow> s
      | Some keys \<Rightarrow> s\<lparr>se_wire := (se_wire s)\<lparr>wr_read := Some (cipher_new (vf_read keys)), wr_write := Some (cipher_new (vf_write keys))\<rparr>\<rparr>)"

text \<open>One request: \<open>True\<close> ends the session.\<close>

definition session_request ::
  "crypto \<Rightarrow> plist_lib \<Rightarrow> float_lib \<Rightarrow> receiver_options \<Rightarrow> request_env \<Rightarrow> request \<Rightarrow> bool handler" where
  "session_request cy pl fl ro env rq =
     bindS (session_dispatch cy pl fl ro env rq) (\<lambda>r.
       case r of
         None \<Rightarrow> bindS (respond_with cy rq [] PLIST) (\<lambda>_. retS True)
       | Some (body, content, activate) \<Rightarrow>
           bindS (modS audio_information) (\<lambda>_.
           bindS (respond_with cy rq body content) (\<lambda>_.
           bindS (modS (if activate then activate_cipher else id)) (\<lambda>_. retS False))))"

text \<open>A command of the host; \<open>room\<close> tells whether the channel of the event task takes one more.\<close>

definition gain_set :: "u64 \<Rightarrow> u64 \<Rightarrow> session_stream list \<Rightarrow> proto_error + session_stream list" where
  "gain_set connection gain audio =
     (case find (\<lambda>t. rs_connection t = connection) audio of
        None \<Rightarrow> Inr audio
      | Some t \<Rightarrow>
          (case set_gain gain (rs_task t) of
             (_, Inl e) \<Rightarrow> Inl e
           | (task, Inr _) \<Rightarrow> Inr (map (\<lambda>u. if u = t then u\<lparr>rs_task := task\<rparr> else u) audio)))"

definition session_command :: "bool \<Rightarrow> receiver_command \<Rightarrow> unit handler" where
  "session_command room command s =
     (case command of
        AudioGain connection gain \<Rightarrow>
          (case gain_set connection gain (se_audio s) of Inl e \<Rightarrow> (s, Inl e) | Inr audio \<Rightarrow> (s\<lparr>se_audio := audio\<rparr>, Inr ()))
      | MicrophoneSource source \<Rightarrow>
          (s\<lparr>se_source := Some source, se_audio := map (\<lambda>t. t\<lparr>rs_task := set_microphone_source source (rs_task t)\<rparr>) (se_audio s)\<rparr>, Inr ())
      | MicrophoneMute muted \<Rightarrow>
          (s\<lparr>se_muted := muted, se_audio := map (\<lambda>t. t\<lparr>rs_task := set_microphone_muted muted (rs_task t)\<rparr>) (se_audio s)\<rparr>, Inr ())
      | _ \<Rightarrow>
          if \<not> se_active s then (s, Inr ())
          else if room then (s\<lparr>se_events := se_events s @ [command]\<rparr>, Inr ()) else (s, Inl bounds))"

text \<open>What ends the session, and what is left of it.\<close>

definition session_close :: "proto_error + unit \<Rightarrow> session \<Rightarrow> session" where
  "session_close r s = (with_info (\<lambda>i. i\<lparr>si_recorded := False, si_audio := [], si_phone_duck := None\<rparr>) s)
     \<lparr>se_audio := [], se_tasks := [], se_ended := Some r\<rparr>"

text \<open>What can happen: bytes of the phone complete a request (or the connection fails), the host commands, its channel
  closes, a task ends, the deadline passes.\<close>

datatype session_event =
    PhoneSends "u8 list" request_env | HostCommands bool receiver_command | HostGone | TaskEnded "proto_error + unit" | Deadline

definition session_receive ::
  "crypto \<Rightarrow> plist_lib \<Rightarrow> float_lib \<Rightarrow> receiver_options \<Rightarrow> u8 list \<Rightarrow> request_env \<Rightarrow> bool handler" where
  "session_receive cy pl fl ro bytes env s =
     (let w = se_wire s; w = w\<lparr>wr_io := (wr_io w)\<lparr>rx := rx (wr_io w) @ bytes\<rparr>\<rparr> in
      case wire_receive cy w of
        (w, Inl e) \<Rightarrow> (s\<lparr>se_wire := w\<rparr>, Inl e)
      | (w, Inr rq) \<Rightarrow> session_request cy pl fl ro env rq (s\<lparr>se_wire := w\<rparr>))"

definition session_step ::
  "crypto \<Rightarrow> plist_lib \<Rightarrow> float_lib \<Rightarrow> receiver_options \<Rightarrow> session \<Rightarrow> session_event \<Rightarrow> session \<times> unit" where
  "session_step cy pl fl ro s ev =
     (if se_ended s \<noteq> None then (s, ())
      else
        (case (case ev of
             PhoneSends bytes env \<Rightarrow> session_receive cy pl fl ro bytes env s
           | HostCommands room command \<Rightarrow> (case session_command room command s of (s, r) \<Rightarrow> (s, map_sum id (\<lambda>_. False) r))
           | HostGone \<Rightarrow> (s, Inl State)
           | TaskEnded (Inl e) \<Rightarrow> (s, Inl e)
           | TaskEnded (Inr _) \<Rightarrow> (s, Inl Rejected)
           | Deadline \<Rightarrow> (s, Inl proto_error.Timeout)) of
           (s, Inl e) \<Rightarrow> (session_close (Inl e) s, ())
         | (s, Inr finished) \<Rightarrow> (if finished then session_close (Inr ()) s else s, ())))"

text \<open>The start: the display and the audio devices are checked first.\<close>

definition session_start ::
  "receiver_options \<Rightarrow> (string \<Rightarrow> bool) option \<Rightarrow> byte_stream \<Rightarrow> peers \<Rightarrow> link_client \<Rightarrow> session_info \<Rightarrow> proto_error + session" where
  "session_start ro elements io peers link info =
     bindr (display_validate (ro_display ro)) (\<lambda>_.
     bindr (case ro_audio ro of
         None \<Rightarrow> Inr ()
       | Some input \<Rightarrow> bindr (available elements) (\<lambda>_. case input of None \<Rightarrow> Inr () | Some source \<Rightarrow> capture_available elements source)) (\<lambda>_.
       Inr \<lparr>se_wire = wire_new io, se_setup = setup_new, se_peers = peers, se_verify = verify_new, se_verified = None,
            se_verify_started = False, se_authenticated = False, se_session_setup = False, se_active = False,
            se_screen_started = False, se_audio = [], se_muted = False, se_source = (case ro_audio ro of None \<Rightarrow> None | Some input \<Rightarrow> input),
            se_link = link, se_information = info\<lparr>si_audio_available := ro_audio ro \<noteq> None\<rparr>, se_events_taken = False, se_events = [],
            se_tasks = [], se_ended = None\<rparr>))"


section \<open>Handlers that keep a condition\<close>

named_theorems keeps_intros \<open>rules for handlers that keep a condition on the session\<close>

definition keeps :: "(session \<Rightarrow> bool) \<Rightarrow> 'a handler \<Rightarrow> bool" where
  "keeps P m \<longleftrightarrow> (\<forall>s. P s \<longrightarrow> P (fst (m s)))"

lemma keeps_bind [keeps_intros]: "keeps P m \<Longrightarrow> (\<And>x. keeps P (f x)) \<Longrightarrow> keeps P (bindS m f)"
  by (auto simp: keeps_def bindS_def split: prod.splits sum.splits)

lemma keeps_basic [keeps_intros]:
  "keeps P (retS x)" "keeps P (failS e)" "keeps P (tryS r)" "keeps P (getS g)" "keeps P (whenS c e)" "keeps P verified_secret"
  by (simp_all add: keeps_def retS_def failS_def tryS_def getS_def whenS_def verified_secret_def)

lemma keeps_mod: "(\<And>s. P s \<Longrightarrow> P (f s)) \<Longrightarrow> keeps P (modS f)"
  by (simp add: keeps_def modS_def)

lemma keeps_if [keeps_intros]: "keeps P m \<Longrightarrow> keeps P n \<Longrightarrow> keeps P (if c then m else n)"
  by simp

lemma keeps_option [keeps_intros]: "keeps P m \<Longrightarrow> (\<And>x. keeps P (f x)) \<Longrightarrow> keeps P (case v of None \<Rightarrow> m | Some x \<Rightarrow> f x)"
  by (cases v) auto

lemma keeps_pair [keeps_intros]: "(\<And>x y. keeps P (f x y)) \<Longrightarrow> keeps P (case v of (x, y) \<Rightarrow> f x y)"
  by (cases v) auto

lemma keeps_guarded:
  assumes "\<And>s. P s \<Longrightarrow> \<not> c (g s) \<Longrightarrow> Q s" "keeps Q m" "\<And>s. Q s \<Longrightarrow> P s"
  shows "keeps P (bindS (getS g) (\<lambda>x. bindS (whenS (c x) e) (\<lambda>_. m)))"
  unfolding keeps_def
proof (intro allI impI)
  fix s
  assume p: "P s"
  show "P (fst (bindS (getS g) (\<lambda>x. bindS (whenS (c x) e) (\<lambda>_. m)) s))"
  proof (cases "c (g s)")
    case True
    then show ?thesis using p by (simp add: bindS_def getS_def whenS_def failS_def)
  next
    case False
    then have "P (fst (m s))" using assms p by (simp add: keeps_def)
    then show ?thesis using False by (simp add: bindS_def getS_def whenS_def retS_def)
  qed
qed

lemma keepsD: "keeps P m \<Longrightarrow> P s \<Longrightarrow> m s = (s', r) \<Longrightarrow> P s'"
  by (force simp: keeps_def)

text \<open>Conditions that the set-up of streams cannot touch.\<close>

lemma keeps_capture [keeps_intros]: "keeps P (capture_setup cy fs kind connection format)"
  unfolding capture_setup_def Let_def by (intro keeps_intros)

definition stream_stable :: "(session \<Rightarrow> bool) \<Rightarrow> bool" where
  "stream_stable P \<longleftrightarrow> (\<forall>s a t b. P s \<longrightarrow> P (s\<lparr>se_audio := a\<rparr>) \<and> P (s\<lparr>se_tasks := t, se_screen_started := b\<rparr>))"

lemma keeps_streams:
  assumes "stream_stable P"
  shows "keeps P (streams_setup cy ro env i xs)"
proof (induction xs arbitrary: i)
  case (Cons x xs)
  have a: "keeps P (audio_setup cy ro env i fs kind connection)" for fs kind connection
    unfolding audio_setup_def
    by (intro keeps_intros keeps_mod) (use assms in \<open>auto simp: stream_stable_def\<close>)
  have c: "keeps P (screen_setup env i key)" for key
    unfolding screen_setup_def
    by (intro keeps_intros keeps_mod) (use assms in \<open>auto simp: stream_stable_def\<close>)
  have "keeps P (stream_setup cy ro env i x)" unfolding stream_setup_def by (intro keeps_intros a c)
  then show ?case using Cons.IH by (simp add: keeps_intros)
qed (simp add: keeps_intros)

section \<open>Admission\<close>

definition verified_by :: "crypto \<Rightarrow> verified \<Rightarrow> bool" where
  "verified_by cy keys \<longleftrightarrow> (\<exists>ps pending bytes reply. verify_check cy ps pending bytes = Inr (reply, keys))"

definition admitted :: "crypto \<Rightarrow> session \<Rightarrow> bool" where
  "admitted cy s \<longleftrightarrow>
     (\<forall>keys. se_verified s = Some keys \<longrightarrow> verified_by cy keys)
   \<and> (se_authenticated s \<longrightarrow> se_verified s \<noteq> None)
   \<and> (se_session_setup s \<longrightarrow> se_authenticated s)
   \<and> (se_active s \<longrightarrow> se_session_setup s)
   \<and> (se_audio s \<noteq> [] \<or> se_screen_started s \<longrightarrow> se_session_setup s)
   \<and> (se_tasks s \<noteq> [] \<longrightarrow> se_authenticated s)
   \<and> (se_events s \<noteq> [] \<longrightarrow> se_active s)"

lemma admitted_open: "keeps (\<lambda>s. admitted cy s \<and> se_authenticated s) (session_open pl env fs)"
  unfolding session_open_def with_info_def by (intro keeps_intros keeps_mod) (auto simp: admitted_def)

lemma admitted_setup: "keeps (\<lambda>s. admitted cy s \<and> se_authenticated s) (setup_request cy pl ro env bytes)"
proof -
  have "stream_stable (\<lambda>s. admitted cy s \<and> se_authenticated s \<and> se_session_setup s)"
    by (auto simp: stream_stable_def admitted_def)
  note st = keeps_streams [OF this]
  have k: "keeps (\<lambda>s. admitted cy s \<and> se_authenticated s \<and> se_session_setup s)
     (bindS (streams_setup cy ro env 0 streams) (\<lambda>replies. bindS (tryS (binary pl (dict [(''streams'', PArray replies)]))) (\<lambda>body. retS (body, PLIST, False))))" for streams
    by (intro keeps_intros st)
  have g: "keeps (\<lambda>s. admitted cy s \<and> se_authenticated s)
     (bindS (getS se_session_setup) (\<lambda>opened. bindS (whenS (\<not> opened \<or> streams = [] \<or> length streams > 4) State) (\<lambda>_.
       bindS (streams_setup cy ro env 0 streams) (\<lambda>replies. bindS (tryS (binary pl (dict [(''streams'', PArray replies)]))) (\<lambda>body. retS (body, PLIST, False))))))" for streams
    by (rule keeps_guarded [OF _ k]) auto
  show ?thesis unfolding setup_request_def by (rule keeps_bind [OF keeps_basic(3)], rule keeps_option [OF admitted_open g])
qed


lemma keeps_at: "keeps P m \<Longrightarrow> P s \<Longrightarrow> P (fst (m s))"
  by (simp add: keeps_def)

lemma keeps_teardown: "(\<And>s a. P s \<Longrightarrow> P (s\<lparr>se_audio := filter a (se_audio s)\<rparr>)) \<Longrightarrow> keeps P (teardown_streams xs)"
proof (induction xs)
  case (Cons x xs)
  show ?case unfolding teardown_streams.simps by (intro keeps_intros keeps_mod Cons.IH Cons.prems)
qed (simp add: keeps_intros)

lemma admitted_setup_pair: "keeps (admitted cy) (pair_setup_request cy' ro env bytes)"
  unfolding keeps_def pair_setup_request_def
proof (intro allI impI)
  fix s
  assume a: "admitted cy s"
  obtain su pe r where h: "setup_handle cy' (ro_identity ro) (se_setup s, se_peers s) (re_salt env, re_private env, bytes) = ((su, pe), r)"
    by (metis surj_pair)
  have "admitted cy (s\<lparr>se_setup := su, se_peers := pe\<rparr>)" using a by (simp add: admitted_def)
  then show "admitted cy (fst (case setup_handle cy' (ro_identity ro) (se_setup s, se_peers s) (re_salt env, re_private env, bytes) of
      ((setup, peers), r) \<Rightarrow> bindS (tryS r) (\<lambda>body. bindS (tryS (decode_tlv body)) (\<lambda>fs.
        bindS (tryS (if map_of fs 6 = Some [6] \<and> ro_directory ro then re_saved env else Inr ())) (\<lambda>_.
          retS (body, ''application/pairing+tlv8'', False)))) (s\<lparr>se_setup := setup, se_peers := peers\<rparr>)))"
    unfolding h prod.case by (intro keeps_at [of "admitted cy"] keeps_intros)
qed

lemma verify_finish_keys: "verify_finish cy ps bytes v = (v', Inr (reply, keys)) \<Longrightarrow> verified_by cy keys"
  by (auto simp: verify_finish_def verified_by_def)

lemma admitted_verify: "admitted cy s \<Longrightarrow> se_verified s = None \<Longrightarrow> admitted cy (fst (pair_verify_request cy ro env bytes s))"
  by (cases "verify_finish cy (se_peers s) bytes (se_verify s)"; cases "snd (verify_finish cy (se_peers s) bytes (se_verify s))")
    (auto simp: pair_verify_request_def bindS_def tryS_def retS_def modS_def admitted_def dest: verify_finish_keys split: sum.splits prod.splits)

lemma admitted_auth: "admitted cy s \<Longrightarrow> se_verified s \<noteq> None \<Longrightarrow> admitted cy (fst (auth_setup_request cy' env bytes s))"
  by (auto simp: auth_setup_request_def bindS_def tryS_def retS_def modS_def admitted_def split: sum.splits prod.splits)

lemma branch: "(c \<Longrightarrow> P (fst (m s))) \<Longrightarrow> (\<not> c \<Longrightarrow> P (fst (n s))) \<Longrightarrow> P (fst ((if c then m else n) s))"
  by simp

lemma admitted_dispatch: "admitted cy s \<Longrightarrow> admitted cy (fst (session_dispatch cy pl fl ro env rq s))"
proof -
  assume a: "admitted cy s"
  have some: "admitted cy (fst (m s)) \<Longrightarrow> admitted cy (fst (somely m s))" for m
    by (auto simp: somely_def bindS_def retS_def split: prod.splits sum.splits)
  have "admitted cy (fst (setup_request cy pl ro env (rq_body rq) s))" if "se_authenticated s"
    using keeps_at [OF admitted_setup] a that by blast
  moreover have "admitted cy (fst (record_request s))" if "se_session_setup s"
    using a that by (auto simp: record_request_def bindS_def modS_def retS_def with_info_def admitted_def)
  moreover have "admitted cy (fst (info_request pl ro s))" "admitted cy (fst (feedback_request pl env s))"
    unfolding info_request_def feedback_request_def using a by (intro keeps_at [of "admitted cy"] keeps_intros; assumption)+
  moreover have "admitted cy (fst (command_request_handle pl fl (rq_body rq) s))"
    unfolding command_request_handle_def Let_def using a
    by (intro keeps_at [of "admitted cy"] keeps_intros keeps_mod) (auto simp: with_info_def admitted_def)
  moreover have "admitted cy (fst (teardown_request pl (rq_body rq) s))"
    unfolding teardown_request_def using a
    by (intro keeps_at [of "admitted cy"] keeps_intros keeps_teardown) (auto simp: admitted_def)
  moreover have "admitted cy (fst (retS x s))" for x :: response by (simp add: retS_def a)
  moreover have "admitted cy (fst (failS e s))" for e by (simp add: failS_def a)
  moreover note keeps_at [OF admitted_setup_pair a] admitted_verify [OF a] admitted_auth [OF a]
  ultimately show ?thesis
    unfolding session_dispatch_def Let_def by (intro branch [where P = "admitted cy"] some) simp_all
qed


section \<open>Encryption\<close>

definition returns :: "'a handler \<Rightarrow> ('a \<Rightarrow> bool) \<Rightarrow> bool" where
  "returns m Q \<longleftrightarrow> (\<forall>s s' x. m s = (s', Inr x) \<longrightarrow> Q x)"

lemma returns_bind: "(\<And>x. returns (f x) Q) \<Longrightarrow> returns (bindS m f) Q"
  by (auto simp: returns_def bindS_def split: prod.splits sum.splits)

lemma returns_basic: "Q x \<Longrightarrow> returns (retS x) Q" "returns (failS e) Q"
  by (simp_all add: returns_def)

lemma returns_split:
  "returns m Q \<Longrightarrow> returns n Q \<Longrightarrow> returns (if c then m else n) Q"
  "returns m Q \<Longrightarrow> (\<And>x. returns (f x) Q) \<Longrightarrow> returns (case v of None \<Rightarrow> m | Some x \<Rightarrow> f x) Q"
  by (auto split: option.splits)

lemmas returns_intros = returns_bind returns_basic returns_split

text \<open>All requests but the verification leave the connection and the keys alone and do not ask for encryption.\<close>

definition untouched :: "wire \<Rightarrow> verified option \<Rightarrow> session \<Rightarrow> bool" where
  "untouched w v s \<longleftrightarrow> se_wire s = w \<and> se_verified s = v"

definition plain_response :: "response \<Rightarrow> bool" where
  "plain_response r \<longleftrightarrow> \<not> snd (snd r)"

lemma untouched_setup: "keeps (untouched w v) (setup_request cy pl ro env bytes)"
proof -
  have "stream_stable (untouched w v)" by (auto simp: stream_stable_def untouched_def)
  then show ?thesis unfolding setup_request_def session_open_def with_info_def
    by (intro keeps_intros keeps_mod keeps_streams) (auto simp: untouched_def)
qed

lemma returns_setup: "returns (setup_request cy pl ro env bytes) plain_response"
  unfolding setup_request_def session_open_def by (intro returns_intros) (simp_all add: plain_response_def)

lemma untouched_others:
  "keeps (untouched w v) (info_request pl ro)" "keeps (untouched w v) record_request" "keeps (untouched w v) (feedback_request pl env)"
  "keeps (untouched w v) (command_request_handle pl fl bytes)" "keeps (untouched w v) (teardown_request pl bytes)"
  unfolding info_request_def record_request_def feedback_request_def command_request_handle_def teardown_request_def Let_def with_info_def
  by (intro keeps_intros keeps_mod keeps_teardown; simp add: untouched_def)+

lemma returns_others:
  "returns (info_request pl ro) plain_response" "returns record_request plain_response" "returns (feedback_request pl env) plain_response"
  "returns (command_request_handle pl fl bytes) plain_response"
  "returns (teardown_request pl bytes) (\<lambda>r. \<forall>x. r = Some x \<longrightarrow> plain_response x)"
  unfolding info_request_def record_request_def feedback_request_def command_request_handle_def teardown_request_def Let_def
  by (intro returns_intros; simp add: plain_response_def)+

lemma untouched_pair_setup: "keeps (untouched w v) (pair_setup_request cy ro env bytes)"
  by (auto simp: keeps_def untouched_def pair_setup_request_def bindS_def tryS_def retS_def split: prod.splits sum.splits)

lemma returns_pair_setup: "returns (pair_setup_request cy ro env bytes) plain_response"
  by (auto simp: returns_def plain_response_def pair_setup_request_def bindS_def tryS_def retS_def split: prod.splits sum.splits)

lemma untouched_auth: "keeps (untouched w v) (auth_setup_request cy env bytes)"
  by (auto simp: keeps_def untouched_def auth_setup_request_def bindS_def tryS_def retS_def modS_def split: prod.splits sum.splits)

lemma returns_auth: "returns (auth_setup_request cy env bytes) plain_response"
  by (auto simp: returns_def plain_response_def auth_setup_request_def bindS_def tryS_def retS_def modS_def split: prod.splits sum.splits)

lemma verify_response:
  assumes "pair_verify_request cy ro env bytes s = (s', Inr r)" "se_verified s = None"
  shows "se_wire s' = se_wire s" "snd (snd r) \<longleftrightarrow> se_verified s' \<noteq> None"
  using assms by (auto simp: pair_verify_request_def bindS_def tryS_def retS_def modS_def split: prod.splits sum.splits if_splits)

text \<open>What a successful dispatch means for the connection.\<close>

lemma somely_result: "somely m s = (s', Inr r) \<Longrightarrow> \<exists>x. r = Some x \<and> m s = (s', Inr x)"
  by (auto simp: somely_def bindS_def retS_def split: prod.splits sum.splits)

definition consistent :: "session \<Rightarrow> session \<Rightarrow> response option \<Rightarrow> bool" where
  "consistent s s' r \<longleftrightarrow> se_wire s' = se_wire s \<and>
     (if \<exists>x. r = Some x \<and> snd (snd x) then se_verified s = None \<and> se_verified s' \<noteq> None else se_verified s' = se_verified s)"

lemma consistent_plain:
  assumes "\<And>w v. keeps (untouched w v) m" "returns m plain_response" "somely m s = (s', Inr r)"
  shows "consistent s s' r"
proof -
  obtain x where x: "r = Some x" "m s = (s', Inr x)" using somely_result [OF assms(3)] by blast
  have "untouched (se_wire s) (se_verified s) s'"
    using keepsD [OF assms(1) _ x(2)] by (simp add: untouched_def)
  moreover have "plain_response x" using assms(2) x(2) unfolding returns_def by blast
  ultimately show ?thesis using x by (simp add: consistent_def untouched_def plain_response_def)
qed

lemma dispatch_consistent:
  assumes "session_dispatch cy pl fl ro env rq s = (s', Inr r)"
  shows "consistent s s' r"
proof -
  have t: "consistent s s' r" if d: "teardown_request pl bytes s = (s', Inr r)" for bytes
  proof -
    have "\<not> (\<exists>x. r = Some x \<and> snd (snd x))" using returns_others(5) d unfolding returns_def plain_response_def by blast
    moreover have "untouched (se_wire s) (se_verified s) s'" using keepsD [OF untouched_others(5) _ d] by (simp add: untouched_def)
    ultimately show ?thesis unfolding consistent_def untouched_def by (simp only: if_False simp_thms)
  qed
  have v: "consistent s s' r" if "somely (pair_verify_request cy ro env bytes) s = (s', Inr r)" "se_verified s = None" for bytes
    using somely_result [OF that(1)] verify_response [OF _ that(2)] that(2) by (fastforce simp: consistent_def)
  have o: "consistent s s' r" if "somely (retS ([], PLIST, False)) s = (s', Inr r)"
    using somely_result [OF that] by (auto simp: consistent_def)
  show ?thesis
    using assms unfolding session_dispatch_def Let_def
    by (auto split: if_splits intro: t v o consistent_plain [OF untouched_pair_setup returns_pair_setup]
        consistent_plain [OF untouched_auth returns_auth] consistent_plain [OF untouched_others(1) returns_others(1)]
        consistent_plain [OF untouched_setup returns_setup] consistent_plain [OF untouched_others(2) returns_others(2)]
        consistent_plain [OF untouched_others(3) returns_others(3)] consistent_plain [OF untouched_others(4) returns_others(4)])
qed


text \<open>The connection under reads and writes.\<close>

definition same_mode :: "wire \<Rightarrow> wire \<Rightarrow> bool" where
  "same_mode w w' \<longleftrightarrow> (wr_read w' = None \<longleftrightarrow> wr_read w = None) \<and> (wr_write w' = None \<longleftrightarrow> wr_write w = None)"

lemma more_mode: "wire_more cy w = (w', r) \<Longrightarrow> same_mode w w' \<and> wr_pending w' = wr_pending w"
  by (auto simp: wire_more_def same_mode_def Let_def split: option.splits sum.splits prod.splits if_splits)

lemma receive_mode: "wire_receive cy w = (w', r) \<Longrightarrow> same_mode w w'"
proof (induction cy w arbitrary: w' r rule: wire_receive.induct)
  case (1 cy w)
  show ?case
  proof (cases "next_request (wr_pending w)")
    case (Pair p q)
    consider e where "q = Inl e" | rq where "q = Inr (Some rq)" | "q = Inr None" by (cases q) auto
    then show ?thesis
    proof cases
      case 3
      obtain w1 m where m: "wire_more cy (w\<lparr>wr_pending := p\<rparr>) = (w1, m)" by fastforce
      have s: "same_mode w w1" using more_mode [OF m] by (simp add: same_mode_def)
      show ?thesis
      proof (cases m)
        case (Inl e)
        then show ?thesis using "1.prems" Pair 3 m s by (subst (asm) wire_receive.simps) simp
      next
        case (Inr bytes)
        show ?thesis
        proof (cases "request_push (wr_pending w1) bytes")
          case (Inl e)
          then show ?thesis using "1.prems" Pair 3 m s Inr by (subst (asm) wire_receive.simps) simp
        next
          case p': (Inr p')
          then have "wire_receive cy (w1\<lparr>wr_pending := p'\<rparr>) = (w', r)"
            using "1.prems" Pair 3 m Inr by (subst (asm) wire_receive.simps) simp
          from "1.IH" [OF Pair [symmetric] 3 refl, of w1 m bytes p', OF m [symmetric] Inr p' this]
          show ?thesis using s by (simp add: same_mode_def)
        qed
      qed
    next
      case 1
      then show ?thesis using "1.prems" Pair by (subst (asm) wire_receive.simps) (auto simp: same_mode_def)
    next
      case 2
      then show ?thesis using "1.prems" Pair by (subst (asm) wire_receive.simps) (auto simp: same_mode_def)
    qed
  qed
qed

text \<open>A request that a single byte completes ends with that byte.\<close>

lemma request_ends:
  assumes "request_parse p = Inr None" "request_parse (p @ [b]) = Inr (Some (rq, n))"
  shows "n = length (p @ [b])"
proof (rule ccontr)
  assume "n \<noteq> length (p @ [b])"
  then have n: "n \<le> length p" using request_stream.consumes [OF assms(2)] by simp
  obtain split rq' len where h: "head_end (p @ [b]) = Some split" "split + 4 \<le> MAX_HEADERS"
    "parse_head (take split (p @ [b])) = Inr (rq', len)" "n = split + 4 + len"
    using assms(2) by (auto simp: request_parse_def Let_def not_less split: option.splits if_splits)
  have s: "split + 4 \<le> length p" using n h(4) by simp
  have "head_end p = Some split"
  proof (cases "head_end p")
    case None
    then show ?thesis using head_end_late [OF None h(1)] s by simp
  next
    case (Some x)
    then show ?thesis using head_end_append [OF Some, of "[b]"] h(1) by simp
  qed
  then have "request_parse p \<noteq> Inr None" using h s n by (simp add: request_parse_def Let_def)
  then show False using assms(1) by simp
qed

lemma receive_in_clear:
  "wire_receive cy w = (w', Inr rq) \<Longrightarrow> wr_read w = None \<Longrightarrow> request_parse (wr_pending w) = Inr None \<Longrightarrow> wr_pending w' = []"
proof (induction "length (rx (wr_io w))" arbitrary: w rule: less_induct)
  case less
  have nr: "next_request (wr_pending w) = (wr_pending w, Inr None)" using less.prems(3) by (simp add: next_request_def)
  obtain w1 m where m: "wire_more cy w = (w1, m)" by fastforce
  have un: "wire_receive cy w = (case m of Inl e \<Rightarrow> (w1, Inl e) | Inr bytes \<Rightarrow>
      (case request_push (wr_pending w1) bytes of Inl e \<Rightarrow> (w1, Inl e) | Inr p \<Rightarrow> wire_receive cy (w1\<lparr>wr_pending := p\<rparr>)))"
    using nr m by (subst wire_receive.simps) (auto split: sum.splits)
  then obtain bytes p where b: "m = Inr bytes" "request_push (wr_pending w1) bytes = Inr p" and r: "wire_receive cy (w1\<lparr>wr_pending := p\<rparr>) = (w', Inr rq)"
    using less.prems(1) by (auto split: sum.splits)
  have w1: "wr_read w1 = None" "wr_pending w1 = wr_pending w" using more_mode [OF m] less.prems(2) by (auto simp: same_mode_def)
  obtain x where x: "bytes = [x]" using m b(1) less.prems(2)
    by (cases "rx (wr_io w)") (auto simp: wire_more_def read_exact_def split: if_splits)
  have p: "p = wr_pending w @ [x]" using b(2) w1 x by (auto simp: request_push_def split: if_splits)
  show ?case
  proof (cases "request_parse p")
    case (Inl e)
    then show ?thesis using r by (subst (asm) wire_receive.simps) (simp add: next_request_def)
  next
    case (Inr q)
    show ?thesis
    proof (cases q)
      case None
      have "length (rx (wr_io (w1\<lparr>wr_pending := p\<rparr>))) < length (rx (wr_io w))" using wire_more_shrinks m b(1) by simp
      from less.hyps [OF this r] w1 None Inr show ?thesis by simp
    next
      case (Some y)
      obtain rq' n where "y = (rq', n)" by (cases y)
      then have q: "request_parse p = Inr (Some (rq', n))" using Inr Some by simp
      then have "n = length p" using request_ends less.prems(3) p by simp
      then show ?thesis using r q by (subst (asm) wire_receive.simps) (auto simp: next_request_def)
    qed
  qed
qed


lemma send_mode: "wire_send cy w bytes = (w', r) \<Longrightarrow> same_mode w w' \<and> wr_pending w' = wr_pending w"
  by (auto simp: wire_send_def same_mode_def split: option.splits prod.splits)

lemma respond_mode: "wire_respond cy w rq body content = (w', r) \<Longrightarrow> same_mode w w' \<and> wr_pending w' = wr_pending w"
  by (auto simp: wire_respond_def same_mode_def dest: send_mode split: option.splits if_splits)

definition encrypted :: "session \<Rightarrow> bool" where
  "encrypted s \<longleftrightarrow> (wr_read (se_wire s) = None \<longleftrightarrow> se_verified s = None) \<and> (wr_write (se_wire s) = None \<longleftrightarrow> se_verified s = None)
     \<and> (se_verified s = None \<longrightarrow> wr_pending (se_wire s) = [])"

text \<open>Encryption starts with a clean decoder.\<close>

definition clean_start :: "session \<Rightarrow> session \<Rightarrow> bool" where
  "clean_start s s' \<longleftrightarrow> (se_verified s = None \<and> se_verified s' \<noteq> None \<longrightarrow> wr_pending (se_wire s') = [])"

lemma request_encrypted:
  assumes "session_request cy pl fl ro env rq s = (s', Inr x)" "encrypted s"
  shows "encrypted s' \<and> clean_start s s'"
proof -
  obtain s1 r where d: "session_dispatch cy pl fl ro env rq s = (s1, Inr r)"
    using assms(1) by (auto simp: session_request_def bindS_def split: prod.splits sum.splits)
  have c: "consistent s s1 r" by (rule dispatch_consistent [OF d])
  show ?thesis
  proof (cases r)
    case None
    then obtain w u where w: "wire_respond cy (se_wire s1) rq [] PLIST = (w, Inr u)" "s' = s1\<lparr>se_wire := w\<rparr>"
      using assms(1) d by (auto simp: session_request_def bindS_def respond_with_def retS_def split: prod.splits sum.splits)
    then show ?thesis using respond_mode [OF w(1)] c None assms(2) by (auto simp: consistent_def encrypted_def clean_start_def same_mode_def)
  next
    case (Some x)
    obtain body content activate where x: "x = (body, content, activate)" by (cases x)
    obtain w u where w: "wire_respond cy (se_wire s1) rq body content = (w, Inr u)"
      "s' = (if activate then activate_cipher else id) ((audio_information s1)\<lparr>se_wire := w\<rparr>)"
      using assms(1) d Some x
      by (auto simp: session_request_def bindS_def respond_with_def retS_def modS_def audio_information_def with_info_def split: prod.splits sum.splits)
    show ?thesis
    proof (cases activate)
      case True
      then have v: "se_verified s = None" "se_verified s1 \<noteq> None" "se_wire s1 = se_wire s" using c Some x by (auto simp: consistent_def)
      then show ?thesis using w True respond_mode [OF w(1)] assms(2)
        by (auto simp: encrypted_def clean_start_def activate_cipher_def audio_information_def with_info_def)
    next
      case False
      then show ?thesis using w respond_mode [OF w(1)] c Some x assms(2)
        by (auto simp: consistent_def encrypted_def clean_start_def same_mode_def audio_information_def with_info_def)
    qed
  qed
qed

lemma receive_encrypted:
  assumes "session_receive cy pl fl ro bytes env s = (s', Inr x)" "encrypted s"
  shows "encrypted s' \<and> clean_start s s'"
proof -
  let ?w = "(se_wire s)\<lparr>wr_io := (wr_io (se_wire s))\<lparr>rx := rx (wr_io (se_wire s)) @ bytes\<rparr>\<rparr>"
  obtain w rq where r: "wire_receive cy ?w = (w, Inr rq)" and q: "session_request cy pl fl ro env rq (s\<lparr>se_wire := w\<rparr>) = (s', Inr x)"
    using assms(1) by (auto simp: session_receive_def Let_def split: prod.splits sum.splits)
  have empty: "request_parse [] = Inr None" by (simp add: request_parse_def)
  have "encrypted (s\<lparr>se_wire := w\<rparr>)"
    using receive_mode [OF r] receive_in_clear [OF r] assms(2) empty by (auto simp: encrypted_def same_mode_def)
  from request_encrypted [OF q this] show ?thesis by (simp add: clean_start_def)
qed

lemma admitted_request: "admitted cy s \<Longrightarrow> admitted cy (fst (session_request cy pl fl ro env rq s))"
proof -
  assume a: "admitted cy s"
  obtain s1 r where d: "session_dispatch cy pl fl ro env rq s = (s1, r)" by fastforce
  have s1: "admitted cy s1" using admitted_dispatch [OF a] d by (metis fst_conv)
  have k: "keeps (admitted cy) (case x of None \<Rightarrow> bindS (respond_with cy rq [] PLIST) (\<lambda>_. retS True)
     | Some (body, content, activate) \<Rightarrow> bindS (modS audio_information) (\<lambda>_. bindS (respond_with cy rq body content) (\<lambda>_.
           bindS (modS (if activate then activate_cipher else id)) (\<lambda>_. retS False))))" for x
  proof -
    have p: "keeps (admitted cy) (respond_with cy rq body content)" for body content
      by (auto simp: keeps_def respond_with_def admitted_def split: prod.splits)
    show ?thesis
      by (intro keeps_intros keeps_mod p)
        (auto simp: audio_information_def with_info_def activate_cipher_def admitted_def split: option.splits)
  qed
  show ?thesis using keeps_at [OF k s1] d s1 by (cases r) (simp_all add: session_request_def bindS_def)
qed

lemma admitted_step:
  assumes "admitted cy s"
  shows "admitted cy (fst (session_step cy pl fl ro s ev))"
proof -
  have close: "admitted cy (session_close r u)" if "admitted cy u" for r u
    using that by (auto simp: session_close_def with_info_def admitted_def)
  have rec: "admitted cy (fst (session_receive cy pl fl ro bytes env s))" for bytes env
  proof -
    obtain w r where w: "wire_receive cy ((se_wire s)\<lparr>wr_io := (wr_io (se_wire s))\<lparr>rx := rx (wr_io (se_wire s)) @ bytes\<rparr>\<rparr>) = (w, r)" by fastforce
    have "admitted cy (s\<lparr>se_wire := w\<rparr>)" using assms by (simp add: admitted_def)
    then show ?thesis using w admitted_request by (cases r) (simp_all add: session_receive_def Let_def)
  qed
  have cmd: "admitted cy (fst (session_command room c s))" for room c
    using assms by (auto simp: session_command_def admitted_def gain_set_def split: receiver_command.splits option.splits sum.splits prod.splits)
  obtain u r where "(case ev of
             PhoneSends bytes env \<Rightarrow> session_receive cy pl fl ro bytes env s
           | HostCommands room command \<Rightarrow> (case session_command room command s of (s, r) \<Rightarrow> (s, map_sum id (\<lambda>_. False) r))
           | HostGone \<Rightarrow> (s, Inl State)
           | TaskEnded (Inl e) \<Rightarrow> (s, Inl e)
           | TaskEnded (Inr _) \<Rightarrow> (s, Inl Rejected)
           | Deadline \<Rightarrow> (s, Inl proto_error.Timeout)) = (u, r)" (is "?m = _") by fastforce
  moreover have "admitted cy (fst ?m)"
    using rec cmd assms by (auto split: session_event.splits sum.splits prod.splits) (metis fst_conv)
  ultimately show ?thesis using assms close by (auto simp: session_step_def split: sum.splits)
qed


lemma encrypted_step:
  assumes "encrypted s" "se_ended s = None" "se_ended (fst (session_step cy pl fl ro s ev)) = None"
  shows "encrypted (fst (session_step cy pl fl ro s ev)) \<and> clean_start s (fst (session_step cy pl fl ro s ev))"
proof (cases ev)
  case (PhoneSends bytes env)
  obtain u r where r: "session_receive cy pl fl ro bytes env s = (u, r)" by fastforce
  then show ?thesis using assms PhoneSends receive_encrypted [of cy pl fl ro bytes env s u]
    by (cases r) (auto simp: session_step_def session_close_def split: if_splits)
next
  case (HostCommands room c)
  obtain u r where r: "session_command room c s = (u, r)" by fastforce
  then have "se_wire u = se_wire s" "se_verified u = se_verified s"
    by (auto simp: session_command_def split: receiver_command.splits sum.splits if_splits)
  then show ?thesis using assms HostCommands r
    by (cases r) (auto simp: session_step_def session_close_def encrypted_def clean_start_def)
next
  case (TaskEnded r)
  then show ?thesis using assms by (cases r) (auto simp: session_step_def session_close_def)
qed (use assms in \<open>auto simp: session_step_def session_close_def\<close>)

interpretation receiver_machine: safe_machine "session_step cy pl fl ro" "\<lambda>s. admitted cy s \<and> (se_ended s = None \<longrightarrow> encrypted s)"
proof unfold_locales
  fix s ev
  assume a: "admitted cy s \<and> (se_ended s = None \<longrightarrow> encrypted s)"
  let ?s = "fst (session_step cy pl fl ro s ev)"
  have "se_ended s = None" if "se_ended ?s = None" using that by (auto simp: session_step_def split: if_splits)
  then show "admitted cy ?s \<and> (se_ended ?s = None \<longrightarrow> encrypted ?s)"
    using a admitted_step [of cy s] encrypted_step [of s] by auto
qed

lemma start_inv: "session_start ro elements io peers link info = Inr s \<Longrightarrow> admitted cy s \<and> encrypted s \<and> se_ended s = None"
  by (auto simp: session_start_def admitted_def encrypted_def wire_new_def)


definition example_options :: receiver_options where
  "example_options = \<lparr>ro_display = example_display, ro_identity = \<lparr>id_identifier = [65], id_key = []\<rparr>, ro_audio = None, ro_directory = False\<rparr>"

definition example_request :: "u8 list" where
  "example_request = lines_text [str ''OPTIONS * RTSP/1.0'', str ''CSeq: 1''] @ crlf"

definition example_parsed :: request where
  "example_parsed = \<lparr>rq_method = str ''OPTIONS'', rq_target = str ''*'', rq_protocol = str ''RTSP/1.0'',
     rq_headers = [(str ''cseq'', str ''1'')], rq_body = []\<rparr>"

lemma example_request_parsed: "request_parse example_request = Inr (Some (example_parsed, length example_request))"
proof -
  have "request_parse (lines_text [str ''OPTIONS * RTSP/1.0'', str ''CSeq: 1''] @ crlf @ []) =
    Inr (Some (example_parsed, length (lines_text [str ''OPTIONS * RTSP/1.0'', str ''CSeq: 1''] @ crlf @ [])))"
    unfolding example_parsed_def
  proof (rule parse_lines)
    show "\<forall>l \<in> set [str ''OPTIONS * RTSP/1.0'', str ''CSeq: 1'']. plain_line l" by (simp add: plain_line_def str_def)
    show "split_words (str ''OPTIONS * RTSP/1.0'') = [str ''OPTIONS'', str ''*'', str ''RTSP/1.0'']" by (simp add: split_words_def str_def)
    show "start_line_ok (str ''OPTIONS'') (str ''*'') (str ''RTSP/1.0'')"
      by (simp add: start_line_ok_def protocols_def str_def ascii_upper_def ascii_control_def)
    have "str ''CSeq: 1'' = str ''CSeq: '' @ decimal 1" "str ''1'' = decimal 1"
      by (simp_all add: str_def decimal_def digits.simps [of 10 "Suc 0"] hex_digit_def)
    then show "header_lines [] [str ''CSeq: 1''] = Inr [(str ''cseq'', str ''1'')]"
      by (simp add: header_lines_sent)
  qed (simp_all add: str_def content_length_def lines_text_def crlf_def MAX_HEADERS_def)
  then show ?thesis by (simp add: example_request_def)
qed

definition example_socket :: byte_stream where
  "example_socket = \<lparr>rx = [], rx_end = Stalled, tx = [], tx_room = 1000\<rparr>"

lemma example_received:
  "wire_receive cy ((wire_new example_socket)\<lparr>wr_io := example_socket\<lparr>rx := example_request\<rparr>\<rparr>) = (wire_new example_socket, Inr example_parsed)"
proof -
  let ?w = "(wire_new example_socket)\<lparr>wr_io := example_socket\<lparr>rx := example_request\<rparr>\<rparr>"
  have "delivers cy ?w (map (\<lambda>b. [b]) example_request) (?w\<lparr>wr_io := (wr_io ?w)\<lparr>rx := []\<rparr>\<rparr>)"
    by (rule delivers_bytes) (simp_all add: wire_new_def)
  then show ?thesis
    using receive_parts [OF example_request_parsed, of ?w "map (\<lambda>b. [b]) example_request"]
    by (simp add: wire_new_def example_socket_def concat_map_singleton)
qed

definition example_session :: "link_client \<Rightarrow> session_info \<Rightarrow> session" where
  "example_session link info = \<lparr>se_wire = wire_new example_socket, se_setup = setup_new, se_peers = [], se_verify = verify_new, se_verified = None,
            se_verify_started = False, se_authenticated = False, se_session_setup = False, se_active = False,
            se_screen_started = False, se_audio = [], se_muted = False, se_source = None,
            se_link = link, se_information = info\<lparr>si_audio_available := False\<rparr>, se_events_taken = False, se_events = [],
            se_tasks = [], se_ended = None\<rparr>"

lemma example_admitted: "session_start example_options None example_socket [] link info = Inr (example_session link info)"
  by (simp add: session_start_def example_options_def example_display_def display_validate_def example_session_def)

lemma example_answered:
  "se_ended (fst (session_step plain_crypto example_plist fl example_options (example_session link info) (PhoneSends example_request env))) = None"
proof -
  let ?s = "example_session link info"
  have w: "se_wire ?s = wire_new example_socket" "wr_io (wire_new example_socket) = example_socket" "rx example_socket = []" "se_ended ?s = None"
    "?s\<lparr>se_wire := wire_new example_socket\<rparr> = ?s"
    by (simp_all add: example_session_def wire_new_def example_socket_def)
  have d: "session_dispatch plain_crypto example_plist fl example_options env example_parsed ?s = (?s, Inr (Some ([], PLIST, False)))"
  proof -
    have "rq_method example_parsed = str ''OPTIONS''" "str ''OPTIONS'' \<noteq> str ''POST''" "str ''OPTIONS'' \<noteq> str ''GET''"
      by (simp_all add: example_parsed_def str_def)
    then show ?thesis by (simp add: session_dispatch_def Let_def somely_def bindS_def retS_def)
  qed
  have one: "list_all ascii_digit (str ''1'')" by (simp add: str_def ascii_digit_def)
  have short: "length (response_head (str ''RTSP/1.0'') (str ''1'') PLIST 0) \<le> 1000"
    by (simp add: response_head_def PLIST_def crlf_def decimal_def digits.simps [of 10 0])
  have r: "\<exists>w'. wire_respond plain_crypto (wire_new example_socket) example_parsed [] PLIST = (w', Inr ())"
    using one short by (simp add: wire_respond_def example_parsed_def wire_send_def wire_new_def write_all_def example_socket_def)
  have "\<exists>s'. session_request plain_crypto example_plist fl example_options env example_parsed ?s = (s', Inr False) \<and> se_ended s' = None"
  proof -
    have a: "se_wire (audio_information ?s) = wire_new example_socket" "se_ended (audio_information ?s) = None"
      by (simp_all add: audio_information_def with_info_def w)
    show ?thesis using d r a by (auto simp: session_request_def bindS_def modS_def respond_with_def retS_def)
  qed
  then obtain s' where "session_receive plain_crypto example_plist fl example_options example_request env ?s = (s', Inr False)" "se_ended s' = None"
    using example_received [of plain_crypto] w by (auto simp: session_receive_def Let_def)
  then show ?thesis using w by (simp add: session_step_def)
qed


end
