(* ===== verification/Touch.thy ===== *)
theory Touch
  imports Receiver_Wire
begin

unbundle bit_operations_syntax

text \<open>
  The reports of the touch screen against the descriptor the phone was given (\<open>receiver.rs\<close>, functions \<open>touch_descriptor\<close>,
  \<open>info\<close> and \<open>events\<close>): the descriptor is read the way a HID parser does, and what the event channel sends for touches is
  a value of the fields it announces.
\<close>

section \<open>Reading a report descriptor\<close>

text \<open>A short item of HID: its tag with the size of its data in the two low bits, and the data, little-endian.\<close>

definition le_number :: "u8 list \<Rightarrow> nat" where
  "le_number bs = foldr (\<lambda>b v. unat b + 256 * v) bs 0"

text \<open>The fields of the input reports, first bit first: the size of each and its largest value. \<open>lmax\<close>, \<open>sz\<close> and
  \<open>number\<close> are the global items in force.\<close>

function report_fields :: "nat \<Rightarrow> nat \<Rightarrow> nat \<Rightarrow> u8 list \<Rightarrow> (nat \<times> nat) list" where
  "report_fields lmax sz number items =
     (case items of
        [] \<Rightarrow> []
      | b # bs \<Rightarrow>
          let n = unat (b AND 3); v = le_number (take n bs); rest = drop n bs; tag = b AND 0xfc in
          if tag = 0x24 then report_fields v sz number rest
          else if tag = 0x74 then report_fields lmax v number rest
          else if tag = 0x94 then report_fields lmax sz v rest
          else if tag = 0x80 then replicate number (sz, lmax) @ report_fields lmax sz number rest
          else report_fields lmax sz number rest)"
  by pat_completeness auto
termination
  by (relation "measure (\<lambda>(lmax, sz, number, items). length items)") auto

declare report_fields.simps [simp del]

lemma report_fields_step:
  "report_fields lmax sz number [] = []"
  "report_fields lmax sz number (b # bs) =
     (let n = unat (b AND 3); v = le_number (take n bs); rest = drop n bs; tag = b AND 0xfc in
          if tag = 0x24 then report_fields v sz number rest
          else if tag = 0x74 then report_fields lmax v number rest
          else if tag = 0x94 then report_fields lmax sz v rest
          else if tag = 0x80 then replicate number (sz, lmax) @ report_fields lmax sz number rest
          else report_fields lmax sz number rest)"
  by (simp_all add: report_fields.simps [of lmax sz number "[]"] report_fields.simps [of lmax sz number "b # bs"])

text \<open>A value is read from the low bits on; nothing is left over.\<close>

fun in_fields :: "(nat \<times> nat) list \<Rightarrow> nat \<Rightarrow> bool" where
  "in_fields [] v = (v = 0)"
| "in_fields ((k, m) # fs) v = (v mod 2 ^ k \<le> m \<and> in_fields fs (v div 2 ^ k))"

definition report_ok :: "u8 list \<Rightarrow> u8 list \<Rightarrow> bool" where
  "report_ok descriptor report \<longleftrightarrow>
     (let fs = report_fields 0 0 0 descriptor in
        8 * length report = sum_list (map fst fs) \<and> in_fields fs (le_number report))"

lemma hid_copy_step:
  "hid_copy [] = []"
  "hid_copy (b # bs) = (if b = 0xc1 then 0xc0 # hid_copy (drop 1 bs)
     else let n = unat (b AND 3) in b # take n bs @ hid_copy (drop n bs))"
  by (simp_all add: hid_copy.simps [of "[]"] hid_copy.simps [of "b # bs"])

definition finger_fields :: "receiver_display \<Rightarrow> (nat \<times> nat) list" where
  "finger_fields d = (8, 1) # (1, 1) # replicate 7 (1, 1) @ [(16, unat (rd_width d)), (16, unat (rd_height d))]"

lemma le_number_word: "le_number [ucast w, ucast (drop_bit 8 w)] = unat (w :: u16)" "le_number [b] = unat b"
proof -
  have "unat (ucast w :: u8) = unat w mod 256" by (simp add: unsigned_ucast_eq take_bit_eq_mod)
  moreover have "unat (ucast (drop_bit 8 w) :: u8) = unat w div 256"
    using unat_bounds(2) [of w] unat_drop_bit_eq [of 8 w]
    by (simp only: unsigned_ucast_eq take_bit_eq_mod drop_bit_eq_div) (simp add: div_less_iff_less_mult)
  ultimately show "le_number [ucast w, ucast (drop_bit 8 w)] = unat w" by (simp only: le_number_def) simp
qed (simp add: le_number_def)

lemma le16_bytes: "to_le16 w = [ucast w, ucast (drop_bit 8 w)]"
  by (simp add: to_le16_def to_be16_def)

lemma le_number_Cons: "le_number (b # bs) = unat b + 256 * le_number bs" "le_number [] = 0"
  by (simp_all add: le_number_def)

lemma hid_finger_copy:
  "hid_copy (hid_finger d @ rest) =
     [0x05, 0x0d, 0x09, 0x22, 0xa1, 2, 0x15, 0, 0x25, 1, 0x09, 0x38, 0x75, 8, 0x95, 1, 0x81, 2, 0x09, 0x33, 0x75, 1, 0x81, 2,
      0x95, 7, 0x81, 3, 0x05, 1, 0x75, 16, 0x95, 1, 0x26, ucast (rd_width d), ucast (drop_bit 8 (rd_width d)), 0x09, 0x30, 0x81, 2,
      0x26, ucast (rd_height d), ucast (drop_bit 8 (rd_height d)), 0x09, 0x31, 0x81, 2, 0xc0] @ hid_copy rest"
  by (simp add: hid_finger_def hid_item_def hid_copy_step Let_def)

lemma hid_finger_fields:
  "report_fields m k n (hid_copy (hid_finger d @ rest) @ t)
     = finger_fields d @ report_fields (unat (rd_height d)) 16 1 (hid_copy rest @ t)"
  unfolding hid_finger_copy
  by (simp add: report_fields_step Let_def le_number_word finger_fields_def)

lemma touch_fields: "report_fields 0 0 0 (touch_descriptor d) = finger_fields d @ finger_fields d"
proof -
  have p: "report_fields 0 0 0 (hid_copy (hid_item 0x04 0x0d False @ hid_item 0x08 4 False @ hid_item 0xa0 1 False @ r) @ t)
      = report_fields 0 0 0 (hid_copy r @ t)" for r t
    by (simp add: hid_item_def hid_copy_step report_fields_step Let_def)
  show ?thesis
    using hid_finger_fields [of 0 0 0 d "hid_finger d" "[0xc0]"] hid_finger_fields [of "unat (rd_height d)" 16 1 d "[]" "[0xc0]"]
    by (simp only: touch_descriptor_def p) (simp add: hid_copy_step report_fields_step Let_def)
qed

section \<open>What the event channel reports\<close>

text \<open>The report of two contacts within the announced content.\<close>

definition contact :: "u8 \<Rightarrow> bool \<Rightarrow> u16 \<Rightarrow> u16 \<Rightarrow> u8 list" where
  "contact slot down x y = [slot, if down then 1 else 0] @ to_le16 x @ to_le16 y"

definition contacts_ok :: "receiver_display \<Rightarrow> u8 list \<Rightarrow> bool" where
  "contacts_ok d c \<longleftrightarrow>
     (\<exists>p q x y u v. c = contact 0 p x y @ contact 1 q u v
        \<and> x \<le> rd_width d \<and> u \<le> rd_width d \<and> y \<le> rd_height d \<and> v \<le> rd_height d)"

lemma in_fields_Cons: "a < 2 ^ k \<Longrightarrow> in_fields ((k, m) # fs) (a + 2 ^ k * v) = (a \<le> m \<and> in_fields fs v)"
  by (simp add: div_mult_self4 mod_mult_self2)

lemma in_fields_bits: "in_fields (replicate n (1, 1) @ fs) (2 ^ n * v) = in_fields fs v"
  by (induction n) (simp_all add: mult.assoc)

lemma le_number_contact: "le_number (contact i p x y @ t)
    = unat i + 2 ^ 8 * ((if p then 1 else 0) + 2 ^ 1 * (2 ^ 7 * (unat x + 2 ^ 16 * (unat y + 2 ^ 16 * le_number t))))"
proof -
  have w: "unat (ucast w :: u8) + 256 * (unat (ucast (drop_bit 8 w) :: u8) + 256 * r) = unat w + 65536 * r" for w :: u16 and r
    using le_number_word(1) [of w] by (simp only: le_number_Cons) simp
  show ?thesis
    unfolding contact_def by (simp only: le16_bytes append.simps le_number_Cons w) simp
qed

lemma contact_fields:
  assumes "i \<le> 1" "x \<le> rd_width d" "y \<le> rd_height d"
  shows "in_fields (finger_fields d @ fs) (le_number (contact i p x y @ t)) = in_fields fs (le_number t)"
proof -
  have b: "unat i < 2 ^ 8" "q < 2 ^ 1" "unat x < 2 ^ 16" "unat y < 2 ^ 16" if "q \<le> 1" for q :: nat
    using unat_bounds(1) [of i] unat_bounds(2) [of x] unat_bounds(2) [of y] that by auto
  have l: "unat i \<le> 1" "unat x \<le> unat (rd_width d)" "unat y \<le> unat (rd_height d)"
    using assms by (auto simp: word_le_nat_alt)
  have "in_fields (finger_fields d @ fs) (unat i + 2 ^ 8 * (q + 2 ^ 1 * (2 ^ 7 * (unat x + 2 ^ 16 * (unat y + 2 ^ 16 * le_number t)))))
      = in_fields fs (le_number t)" if q: "q \<le> 1" for q
    unfolding finger_fields_def append.simps append_assoc
    by (simp only: in_fields_Cons [OF b(1) [OF q]] in_fields_Cons [OF b(2) [OF q]] in_fields_Cons [OF b(3) [OF q]]
        in_fields_Cons [OF b(4) [OF q]] in_fields_bits) (use l q in simp)
  then show ?thesis unfolding le_number_contact by simp
qed

lemma contacts_report:
  assumes "contacts_ok d c"
  shows "report_ok (touch_descriptor d) c"
proof -
  obtain p q x y u v where c: "c = contact 0 p x y @ contact 1 q u v"
    and b: "x \<le> rd_width d" "u \<le> rd_width d" "y \<le> rd_height d" "v \<le> rd_height d"
    using assms by (auto simp: contacts_ok_def)
  have "in_fields (finger_fields d @ finger_fields d) (le_number c)"
    using contact_fields [of 0 x d y "finger_fields d" p "contact 1 q u v"] contact_fields [of 1 u d v "[]" q "[]"] b
    by (simp add: c le_number_Cons)
  moreover have "8 * length c = sum_list (map fst (finger_fields d @ finger_fields d))"
    by (simp add: c contact_def to_le16_def finger_fields_def sum_list_replicate)
  ultimately show ?thesis by (simp only: report_ok_def touch_fields Let_def)
qed

lemma contacts_okI:
  "x \<le> rd_width d \<Longrightarrow> u \<le> rd_width d \<Longrightarrow> y \<le> rd_height d \<Longrightarrow> v \<le> rd_height d
     \<Longrightarrow> contacts_ok d (contact 0 p x y @ contact 1 q u v)"
  unfolding contacts_ok_def by blast

text \<open>A touch lies within the display the phone was told of.\<close>

fun touch_within :: "receiver_display \<Rightarrow> receiver_command \<Rightarrow> bool" where
  "touch_within d (Touch slot down x y) = (x \<le> rd_width d \<and> y \<le> rd_height d)"
| "touch_within d _ = True"

lemma contacts_initial: "contacts_ok d ((replicate 12 0)[6 := 1])"
  unfolding contacts_ok_def
  by (intro exI [of _ False] exI [of _ 0]) (simp add: contact_def le16_bytes numeral_eq_Suc)

lemma contact_set_contacts:
  "contact_set 0 down x y (contact 0 p x' y' @ contact 1 q u v) = contact 0 down x y @ contact 1 q u v"
  "contact_set 1 down x y (contact 0 p x' y' @ contact 1 q u v) = contact 0 p x' y' @ contact 1 down x y"
  by (simp_all add: contact_set_def contact_def to_le16_def)

lemma contacts_released:
  "(contact 0 p x y @ contact 1 q u v)[1 := 0, 7 := 0] = contact 0 False x y @ contact 1 False u v"
proof -
  have "\<exists>a b. to_le16 w = [a, b]" for w by (simp add: to_le16_def to_be16_def)
  then obtain a b a' b' where "to_le16 x = [a, b]" "to_le16 y = [a', b']" by meson
  then show ?thesis by (simp add: contact_def numeral_eq_Suc)
qed

lemma payload_contacts:
  assumes "contacts_ok d c" "touch_within d command" "command_payload command c = Inr (c', vs)"
  shows "contacts_ok d c'" and "w \<in> set vs \<Longrightarrow> w = hid_report c' \<or> (\<nexists>r. w = hid_report r)"
proof -
  obtain p q x y u v where c: "c = contact 0 p x y @ contact 1 q u v"
    and b: "x \<le> rd_width d" "u \<le> rd_width d" "y \<le> rd_height d" "v \<le> rd_height d"
    using assms(1) by (auto simp: contacts_ok_def)
  have 1: "contacts_ok d c' \<and> (\<forall>w \<in> set vs. w = hid_report c' \<or> (\<nexists>r. w = hid_report r))"
  proof (cases command)
    case (Touch slot down x1 y1)
    then have s: "slot \<le> 1" "c' = contact_set (unat slot) down x1 y1 c" "vs = [hid_report c']"
      using assms(3) by (auto simp: command_payload_def Let_def split: if_splits)
    have t: "x1 \<le> rd_width d" "y1 \<le> rd_height d" using assms(2) Touch by auto
    have "unat slot \<le> 1" using s(1) by (simp add: word_le_nat_alt)
    then consider "unat slot = 0" | "unat slot = 1" by linarith
    then show ?thesis
    proof cases
      case 1
      with s(2) have "c' = contact 0 down x1 y1 @ contact 1 q u v" by (simp only: c contact_set_contacts)
      then show ?thesis using s(3) b t contacts_okI by simp
    next
      case 2
      with s(2) have "c' = contact 0 p x y @ contact 1 down x1 y1" by (simp only: c contact_set_contacts)
      then show ?thesis using s(3) b t contacts_okI by simp
    qed
  next
    case ReleaseTouches
    then have "c' = contact 0 False x y @ contact 1 False u v" "vs = [hid_report c']"
      using assms(3) contacts_released [of p x y q u v] by (auto simp: command_payload_def Let_def c)
    then show ?thesis using b contacts_okI by simp
  qed (use assms in \<open>auto simp: command_payload_def siri_button_def hid_report_def dict_def plist_text_def str_def\<close>)
  show "contacts_ok d c'" using 1 by blast
  show "w \<in> set vs \<Longrightarrow> w = hid_report c' \<or> (\<nexists>r. w = hid_report r)" using 1 by blast
qed

lemma values_reports:
  "contacts_ok d c \<Longrightarrow> \<forall>command \<in> set cs. touch_within d command \<Longrightarrow> hid_report r \<in> set (command_values c cs)
     \<Longrightarrow> contacts_ok d r"
proof (induction cs arbitrary: c)
  case (Cons command cs)
  then obtain c' vs where p: "command_payload command c = Inr (c', vs)"
    by (cases "command_payload command c") auto
  have k: "contacts_ok d c'" using payload_contacts(1) [OF _ _ p, of d] Cons.prems by simp
  have "hid_report r \<in> set vs \<Longrightarrow> hid_report r = hid_report c'"
    using payload_contacts(2) [OF _ _ p, of d "hid_report r"] Cons.prems by auto
  moreover have "hid_report r = hid_report c' \<Longrightarrow> r = c'" by (simp add: hid_report_def dict_def str_def)
  ultimately show ?case using Cons k p by auto
qed simp

lemma commands_contacts:
  "contacts_ok d (ev_contacts s) \<Longrightarrow> \<forall>command \<in> set cs. touch_within d command \<Longrightarrow>
   event_commands cy pl s cs = (s', r) \<Longrightarrow> contacts_ok d (ev_contacts s')"
proof (induction cs arbitrary: s)
  case (Cons command cs)
  obtain s1 r1 where e: "event_command cy pl s command = (s1, r1)" by (cases "event_command cy pl s command") auto
  have "contacts_ok d (ev_contacts s1)"
  proof (cases "command_payload command (ev_contacts s)")
    case (Inl err)
    then show ?thesis using e Cons.prems(1) by (simp add: event_command_def)
  next
    case (Inr q)
    then obtain c vs where p: "command_payload command (ev_contacts s) = Inr (c, vs)" by (cases q) auto
    then have "ev_contacts s1 = c" using e event_send_contacts by (fastforce simp: event_command_def)
    then show ?thesis using payload_contacts(1) [OF Cons.prems(1) _ p] Cons.prems(2) by simp
  qed
  then show ?case using Cons.IH [of s1] Cons.prems(2,3) e by (cases r1) auto
qed simp

section \<open>Properties\<close>

text \<open>C18. Touch reports are values of the announced format: as long as the touches lie within the display, whatever
  else is commanded and wherever the run stops, the contact state of the event channel and every report it sends have
  the length and the field ranges that the descriptor given to the phone in \<open>info\<close> declares.\<close>

theorem touch_reports_typed:
  assumes "event_new cy secret stream = Inr s" and "\<forall>command \<in> set cs. touch_within d command"
    and "event_commands cy pl s cs = (s', r)"
  shows "report_ok (touch_descriptor d) (ev_contacts s')
    \<and> (\<forall>c. hid_report c \<in> set (command_values (ev_contacts s) cs) \<longrightarrow> report_ok (touch_descriptor d) c)"
proof -
  have i: "contacts_ok d (ev_contacts s)"
    using assms(1) contacts_initial by (auto simp: event_new_def)
  then show ?thesis
    using commands_contacts [OF i assms(2,3)] values_reports [OF i assms(2)] contacts_report by blast
qed

theorem touch_reports_typed_witness:
  "report_ok (touch_descriptor example_display) (contact 0 True 640 719 @ contact 1 False 0 0)
   \<and> report_ok (touch_descriptor example_display) (contact 0 False 640 719 @ contact 1 False 0 0)"
proof -
  let ?stream = "\<lparr>rx = [], rx_end = Stalled, tx = [], tx_room = 0\<rparr>"
  let ?cs = "[Touch 0 True 640 719, Siri, ReleaseTouches]"
  obtain s where s: "event_new plain_crypto [1] ?stream = Inr s"
    by (simp add: event_new_def derive_key_def plain_crypto_def hmac_def from_openssl_def)
  obtain s' r where e: "event_commands plain_crypto example_plist s ?cs = (s', r)" by (cases "event_commands plain_crypto example_plist s ?cs")
  have "ev_contacts s = contact 0 False 0 0 @ contact 1 False 0 0"
    using s by (auto simp: event_new_def contact_def le16_bytes numeral_eq_Suc)
  then have "hid_report (contact 0 True 640 719 @ contact 1 False 0 0) \<in> set (command_values (ev_contacts s) ?cs)"
    "hid_report (contact 0 False 640 719 @ contact 1 False 0 0) \<in> set (command_values (ev_contacts s) ?cs)"
    by (simp_all add: command_payload_def contact_set_contacts contacts_released Let_def del: One_nat_def)
  moreover have "\<forall>command \<in> set ?cs. touch_within example_display command" by (simp add: example_display_def)
  ultimately show ?thesis using touch_reports_typed [OF s _ e] by blast
qed

end
