(* ===== verification/Vcard.thy ===== *)
theory Vcard
  imports Text "HOL-Library.Sublist"
begin

text \<open>
  The phone book pages a phone exports (\<open>native/projection/argo-projectiond/src/connectivity/phonebook.rs\<close>, functions
  \<open>unescape\<close>, \<open>telephone\<close> and \<open>parse\<close>) and the check of numbers to be dialled (\<open>calls.rs\<close>, function \<open>number\<close>). Strings are
  their UTF-8 bytes; the size of the serialised page (\<open>serde_json\<close>) is the parameter \<open>json\<close>.
\<close>

section \<open>Characters and lines\<close>

definition utf8_width :: "u8 \<Rightarrow> nat" where
  "utf8_width b = (if b < 0x80 then 1 else if b < 0xe0 then 2 else if b < 0xf0 then 3 else 4)"

text \<open>\<open>str::chars\<close>, each character as its bytes.\<close>

function chars :: "u8 list \<Rightarrow> u8 list list" where
  "chars bytes =
     (case bytes of [] \<Rightarrow> [] | b # bs \<Rightarrow> (b # take (utf8_width b - 1) bs) # chars (drop (utf8_width b - 1) bs))"
  by pat_completeness auto
termination
  by (relation "measure length") auto

declare chars.simps [simp del]

text \<open>\<open>char::is_control\<close>: U+0000 to U+001F and U+007F to U+009F.\<close>

fun is_control :: "u8 list \<Rightarrow> bool" where
  "is_control [b] = (b < 0x20 \<or> b = 0x7f)"
| "is_control [a, b] = (a = 0xc2 \<and> 0x80 \<le> b \<and> b \<le> 0x9f)"
| "is_control _ = False"

definition ascii_upper :: "u8 list \<Rightarrow> u8 list" where
  "ascii_upper = map (\<lambda>b. if 0x61 \<le> b \<and> b \<le> 0x7a then b - 0x20 else b)"

definition eq_ignore_case :: "u8 list \<Rightarrow> string \<Rightarrow> bool" where
  "eq_ignore_case s t \<longleftrightarrow> ascii_upper s = str t"

text \<open>\<open>str::lines\<close>: a line ends with a line feed, and a carriage return before it belongs to the ending.\<close>

definition strip_return :: "u8 list \<Rightarrow> u8 list" where
  "strip_return l = (if l \<noteq> [] \<and> last l = 0x0d then butlast l else l)"

function split_lines :: "u8 list \<Rightarrow> u8 list list" where
  "split_lines text =
     (if text = [] then []
      else
        let l = takeWhile (\<lambda>b. b \<noteq> 0x0a) text; rest = dropWhile (\<lambda>b. b \<noteq> 0x0a) text in
        if rest = [] then [l] else strip_return l # split_lines (tl rest))"
  by pat_completeness auto
termination
proof (relation "measure length")
  fix t l rest :: "u8 list"
  assume a: "t \<noteq> []" "rest = dropWhile (\<lambda>b. b \<noteq> 0x0a) t" "rest \<noteq> []"
  have "length rest \<le> length t" unfolding a(2) by (rule length_dropWhile_le)
  moreover have "0 < length rest" using a(3) by simp
  ultimately show "(tl rest, t) \<in> measure length" by (cases rest) simp_all
qed simp

declare split_lines.simps [simp del]

text \<open>\<open>str::split_once\<close> at a character.\<close>

definition split_once :: "u8 \<Rightarrow> u8 list \<Rightarrow> (u8 list \<times> u8 list) option" where
  "split_once c s =
     (case dropWhile (\<lambda>b. b \<noteq> c) s of [] \<Rightarrow> None | _ # rest \<Rightarrow> Some (takeWhile (\<lambda>b. b \<noteq> c) s, rest))"

section \<open>Contacts\<close>

definition PAGE :: nat where "PAGE = 40"
definition PAGE_BYTES :: nat where "PAGE_BYTES = 256 * 1024"
definition JSON_BUDGET :: nat where "JSON_BUDGET = 16 * 1024"

record phone_contact =
  pc_name :: "u8 list"
  pc_numbers :: "u8 list list"

fun unescape_chars :: "u8 list list \<Rightarrow> u8 list list" where
  "unescape_chars [] = []"
| "unescape_chars (c # cs) =
     (if c = [0x5c] then
        (case cs of
           [] \<Rightarrow> []
         | d # ds \<Rightarrow> (if d = [0x6e] \<or> d = [0x4e] then [0x20] else d) # unescape_chars ds)
      else if is_control c then unescape_chars cs
      else c # unescape_chars cs)"

definition unescape :: "u8 list \<Rightarrow> u8 list" where
  "unescape v = concat (unescape_chars (chars v))"

definition is_digit :: "u8 \<Rightarrow> bool" where
  "is_digit b \<longleftrightarrow> 0x30 \<le> b \<and> b \<le> 0x39"

text \<open>A character outside ASCII is refused by its first byte.\<close>

fun telephone_loop :: "u8 list \<Rightarrow> u8 list \<Rightarrow> u8 list option" where
  "telephone_loop out [] = Some out"
| "telephone_loop out (c # cs) =
     (if is_digit c \<or> c = 0x2a \<or> c = 0x23 \<or> (c = 0x2b \<and> out = []) then telephone_loop (out @ [c]) cs
      else if c \<in> {0x20, 0x2d, 0x28, 0x29, 0x2e} then telephone_loop out cs
      else None)"

definition telephone :: "u8 list \<Rightarrow> u8 list option" where
  "telephone v =
     (case telephone_loop [] (if take 4 v = str ''tel:'' then drop 4 v else v) of
        None \<Rightarrow> None
      | Some out \<Rightarrow> if out \<noteq> [] \<and> length out \<le> 64 then Some out else None)"

text \<open>\<open>number\<close> of \<open>calls.rs\<close>: what may be dialled.\<close>

definition dial_number :: "u8 list \<Rightarrow> u8 list + unit" where
  "dial_number v =
     (if v = [] \<or> length v > 64
         \<or> \<not> (\<forall>(i, b) \<in> set (enumerate 0 v). is_digit b \<or> b = 0x2a \<or> b = 0x23 \<or> (i = 0 \<and> b = 0x2b))
      then Inl (str ''Enter a telephone number (digits, leading +, * or #)'') else Inr ())"

section \<open>Reading a page\<close>

definition unfold_line :: "u8 list list \<Rightarrow> u8 list \<Rightarrow> u8 list list" where
  "unfold_line ls l =
     (if l \<noteq> [] \<and> (hd l = 0x20 \<or> hd l = 0x09) \<and> ls \<noteq> [] then butlast ls @ [last ls @ tl l] else ls @ [l])"

record vcard_reader =
  vc_entries :: "phone_contact list"
  vc_contact :: "phone_contact option"
  vc_version :: bool
  vc_count :: nat

text \<open>The name of a property: before its parameters, after its group.\<close>

definition property_name :: "u8 list \<Rightarrow> u8 list" where
  "property_name key =
     (let name = takeWhile (\<lambda>b. b \<noteq> 0x3b) key in
      ascii_upper (rev (takeWhile (\<lambda>b. b \<noteq> 0x2e) (rev name))))"

definition name_limit :: "u8 list \<Rightarrow> u8 list" where
  "name_limit v = concat (take 80 (chars v))"

definition vcard_property :: "u8 list \<Rightarrow> u8 list \<Rightarrow> phone_contact \<Rightarrow> bool \<Rightarrow> phone_contact \<times> bool" where
  "vcard_property property v item version =
     (if property = str ''VERSION'' then (item, v = str ''3.0'')
      else if property = str ''FN'' then (item\<lparr>pc_name := name_limit (unescape v)\<rparr>, version)
      else if property = str ''N'' \<and> pc_name item = [] then
        (item\<lparr>pc_name := name_limit (unescape (map (\<lambda>b. if b = 0x3b then 0x20 else b) v))\<rparr>, version)
      else if property = str ''TEL'' \<and> length (pc_numbers item) < 3 then
        (case telephone v of
           Some n \<Rightarrow> (if n \<in> set (pc_numbers item) then item else item\<lparr>pc_numbers := pc_numbers item @ [n]\<rparr>, version)
         | None \<Rightarrow> (item, version))
      else (item, version))"

definition vcard_end :: "(phone_contact list \<Rightarrow> u8 list + nat) \<Rightarrow> vcard_reader \<Rightarrow> u8 list + vcard_reader" where
  "vcard_end json r =
     (case vc_contact r of
        None \<Rightarrow> Inl (str ''Malformed vCard ending'')
      | Some item \<Rightarrow>
          if \<not> vc_version r then Inl (str ''Phone did not honor requested vCard 3.0 format'')
          else if vc_count r + 1 > PAGE then Inl (str ''Phone exceeded requested contact count'')
          else
            let item = (if pc_name item = [] then item\<lparr>pc_name := str ''Unnamed contact''\<rparr> else item);
                entries = vc_entries r @ [item] in
            bindr (json entries) (\<lambda>n.
              if n > JSON_BUDGET then Inl (str ''Phonebook page exceeds control-state budget'')
              else Inr (r\<lparr>vc_entries := entries, vc_contact := None, vc_count := vc_count r + 1\<rparr>)))"

definition vcard_line :: "(phone_contact list \<Rightarrow> u8 list + nat) \<Rightarrow> u8 list \<Rightarrow> vcard_reader \<Rightarrow> u8 list + vcard_reader" where
  "vcard_line json l r =
     (case split_once 0x3a l of
        None \<Rightarrow> Inr r
      | Some (key, v) \<Rightarrow>
          if eq_ignore_case key ''BEGIN'' \<and> eq_ignore_case v ''VCARD'' then
            (if vc_contact r \<noteq> None then Inl (str ''Malformed nested vCard'')
             else Inr (r\<lparr>vc_contact := Some \<lparr>pc_name = [], pc_numbers = []\<rparr>, vc_version := False\<rparr>))
          else if eq_ignore_case key ''END'' \<and> eq_ignore_case v ''VCARD'' then vcard_end json r
          else case vc_contact r of
            None \<Rightarrow> Inr r
          | Some item \<Rightarrow>
              if sublist (str ''ENCODING='') (ascii_upper key)
              then Inl (str ''Encoded vCard fields are unsupported; no numbers imported'')
              else case vcard_property (property_name key) v item (vc_version r) of
                (item, version) \<Rightarrow> Inr (r\<lparr>vc_contact := Some item, vc_version := version\<rparr>))"

fun vcard_lines :: "(phone_contact list \<Rightarrow> u8 list + nat) \<Rightarrow> u8 list list \<Rightarrow> vcard_reader \<Rightarrow> u8 list + vcard_reader" where
  "vcard_lines json [] r = Inr r"
| "vcard_lines json (l # ls) r = bindr (vcard_line json l r) (vcard_lines json ls)"

definition vcard_parse :: "(phone_contact list \<Rightarrow> u8 list + nat) \<Rightarrow> u8 list \<Rightarrow> u8 list + phone_contact list \<times> nat" where
  "vcard_parse json bytes =
     (if length bytes > PAGE_BYTES then Inl (str ''Phonebook exceeds size bound'')
      else if \<not> utf8_valid bytes then Inl (str ''Phone did not return UTF-8 vCard 3.0'')
      else bindr (vcard_lines json (foldl unfold_line [] (split_lines bytes))
                   \<lparr>vc_entries = [], vc_contact = None, vc_version = False, vc_count = 0\<rparr>) (\<lambda>r.
        if vc_contact r \<noteq> None then Inl (str ''Incomplete vCard; no contacts imported'')
        else Inr (vc_entries r, vc_count r)))"

section \<open>Characters\<close>

definition one_char :: "u8 list \<Rightarrow> bool" where
  "one_char c \<longleftrightarrow> c \<noteq> [] \<and> length c = utf8_width (hd c)"

lemma chars_Nil [simp]: "chars [] = []"
  by (simp add: chars.simps)

lemma chars_Cons: "chars (b # bs) = (b # take (utf8_width b - 1) bs) # chars (drop (utf8_width b - 1) bs)"
  by (simp add: chars.simps [of "b # bs"])

lemma utf8_width_pos: "0 < utf8_width b"
  by (simp add: utf8_width_def)

lemma chars_char: "one_char c \<Longrightarrow> chars (c @ r) = c # chars r"
  by (cases c) (auto simp: one_char_def chars_Cons)

lemma chars_concat: "\<forall>c \<in> set cs. one_char c \<Longrightarrow> chars (concat cs) = cs"
  by (induction cs) (auto simp: chars_char)

lemma concat_chars [simp]: "concat (chars v) = v"
proof (induction v rule: chars.induct)
  case (1 v)
  then show ?case by (cases v) (auto simp: chars_Cons)
qed

text \<open>Cutting after a number of characters leaves these characters.\<close>

lemma chars_take: "chars (concat (take k (chars v))) = take k (chars v)"
proof (induction v arbitrary: k rule: chars.induct)
  case (1 v)
  show ?case
  proof (cases "v = [] \<or> k = 0")
    case False
    then obtain b bs k' where v: "v = b # bs" "k = Suc k'" by (cases v; cases k) auto
    let ?w = "utf8_width b - 1"
    have t: "take k (chars v) = (b # take ?w bs) # take k' (chars (drop ?w bs))" by (simp add: v chars_Cons)
    show ?thesis
    proof (cases "length bs \<le> ?w")
      case True
      then show ?thesis by (simp add: t chars_Cons)
    next
      case False
      then have "one_char (b # take ?w bs)" using utf8_width_pos [of b] by (simp add: one_char_def)
      then show ?thesis using 1 [OF v(1), of k'] chars_char [of "b # take ?w bs"] by (simp only: t concat.simps)
    qed
  qed auto
qed

text \<open>UTF-8 text is a sequence of characters of the announced widths.\<close>

lemma utf8_step:
  "utf8_valid (a # r) \<longleftrightarrow> utf8_width a - 1 \<le> length r \<and> utf8_valid (a # take (utf8_width a - 1) r) \<and> utf8_valid (drop (utf8_width a - 1) r)"
proof -
  consider "a < 0x80" | "\<not> a < 0x80" "a < 0xc2" | "0xc2 \<le> a" "a \<le> 0xdf" | "0xe0 \<le> a" "a \<le> 0xef" | "0xf0 \<le> a" "a \<le> 0xf4" | "0xf4 < a"
    by (simp add: word_less_nat_alt word_le_nat_alt) linarith
  then show ?thesis
  proof cases
    case 1
    then show ?thesis by (simp add: utf8_width_def)
  next
    case 2
    then have "\<not> utf8_valid (a # t)" for t by (simp add: word_less_nat_alt word_le_nat_alt)
    then show ?thesis by blast
  next
    case 3
    then have n: "\<not> a < 0x80" "a < 0xe0" "utf8_width a = 2"
      by (simp_all add: utf8_width_def word_less_nat_alt word_le_nat_alt)
    show ?thesis using 3 n by (cases r) auto
  next
    case 4
    then have n: "\<not> a < 0x80" "\<not> a \<le> 0xdf" "utf8_width a = 3"
      by (simp_all add: utf8_width_def word_less_nat_alt word_le_nat_alt)
    show ?thesis using 4 n by (cases r; cases "tl r") auto
  next
    case 5
    then have n: "\<not> a < 0x80" "\<not> a \<le> 0xdf" "\<not> a \<le> 0xef" "utf8_width a = 4"
      by (simp_all add: utf8_width_def word_less_nat_alt word_le_nat_alt)
    show ?thesis using 5 n by (cases r; cases "tl r"; cases "tl (tl r)") auto
  next
    case 6
    then have "\<not> utf8_valid (a # t)" for t by (simp add: word_less_nat_alt word_le_nat_alt)
    then show ?thesis by blast
  qed
qed

definition utf8_char :: "u8 list \<Rightarrow> bool" where
  "utf8_char c \<longleftrightarrow> one_char c \<and> utf8_valid c"

declare utf8_valid.simps(2) [simp del]

lemma utf8_char_valid: "utf8_char c \<Longrightarrow> utf8_valid (c @ r) = utf8_valid r"
  by (cases c) (auto simp: utf8_char_def one_char_def utf8_step [of _ "_ @ _"])

lemma utf8_concat: "\<forall>c \<in> set cs. utf8_char c \<Longrightarrow> utf8_valid (concat cs)"
  by (induction cs) (simp_all add: utf8_char_valid)

lemma utf8_chars: "utf8_valid v \<Longrightarrow> \<forall>c \<in> set (chars v). utf8_char c"
proof (induction v rule: chars.induct)
  case (1 v)
  show ?case
  proof (cases v)
    case (Cons b bs)
    then have "utf8_width b - 1 \<le> length bs" "utf8_valid (b # take (utf8_width b - 1) bs)" "utf8_valid (drop (utf8_width b - 1) bs)"
      using 1(2) utf8_step by blast+
    moreover from this have "one_char (b # take (utf8_width b - 1) bs)" using utf8_width_pos [of b] by (simp add: one_char_def)
    ultimately have "utf8_char (b # take (utf8_width b - 1) bs)" "\<forall>c \<in> set (chars (drop (utf8_width b - 1) bs)). utf8_char c"
      using 1(1) [OF Cons] unfolding utf8_char_def by blast+
    then show ?thesis by (simp only: Cons chars_Cons list.set ball_simps simp_thms)
  qed simp
qed

lemma utf8_cont_high: "utf8_cont b \<Longrightarrow> \<not> b < 0x80"
  by (simp add: utf8_cont_def word_less_nat_alt word_le_nat_alt)

lemma utf8_char_ascii:
  assumes "utf8_char c" "b \<in> set c" "b < 0x80"
  shows "c = [b]"
proof (cases c)
  case (Cons a r)
  have v: "utf8_valid (a # r)" "Suc (length r) = utf8_width a" using assms(1) by (auto simp: utf8_char_def one_char_def Cons)
  show ?thesis
  proof (cases "a < 0x80")
    case True
    then show ?thesis using v(2) assms(2) by (simp add: utf8_width_def Cons)
  next
    case False
    then have "\<forall>x \<in> set r. \<not> x < 0x80"
      using v by (auto simp: utf8_valid.simps(2) utf8_width_def split: if_splits list.splits dest!: utf8_cont_high)
        (auto simp: word_less_nat_alt word_le_nat_alt)
    then show ?thesis using False assms(2,3) by (auto simp: Cons)
  qed
qed (use assms in simp)

section \<open>Imported pages\<close>

text \<open>What every imported contact satisfies.\<close>

definition contact_numbers_ok :: "phone_contact \<Rightarrow> bool" where
  "contact_numbers_ok c \<longleftrightarrow> length (pc_numbers c) \<le> 3 \<and> distinct (pc_numbers c) \<and> (\<forall>n \<in> set (pc_numbers c). telephone n = Some n)"

definition contact_ok :: "phone_contact \<Rightarrow> bool" where
  "contact_ok c \<longleftrightarrow> pc_name c \<noteq> [] \<and> length (chars (pc_name c)) \<le> 80 \<and> contact_numbers_ok c"

lemma telephone_loop_out:
  "telephone_loop out v = Some n \<Longrightarrow> \<exists>m. n = out @ m \<and> telephone_loop out m = Some n
     \<and> (\<forall>b \<in> set m. is_digit b \<or> b = 0x2a \<or> b = 0x23 \<or> b = 0x2b)
     \<and> (\<forall>i < length m. m ! i = 0x2b \<longrightarrow> out = [] \<and> i = 0)"
proof (induction out v rule: telephone_loop.induct)
  case (1 out)
  then show ?case by (intro exI [of _ "[]"]) simp
next
  case (2 out c cs)
  show ?case
  proof (cases "is_digit c \<or> c = 0x2a \<or> c = 0x23 \<or> (c = 0x2b \<and> out = [])")
    case True
    then obtain m where m: "n = (out @ [c]) @ m" "telephone_loop (out @ [c]) m = Some n"
        "\<forall>b \<in> set m. is_digit b \<or> b = 0x2a \<or> b = 0x23 \<or> b = 0x2b" "\<forall>i < length m. m ! i \<noteq> 0x2b"
      using 2(1) 2(3) by auto
    moreover have "c = 0x2b \<Longrightarrow> out = []" using True by (auto simp: is_digit_def)
    ultimately show ?thesis using True
      by (intro exI [of _ "c # m"]) (auto simp: nth_Cons split: nat.splits)
  next
    case False
    then show ?thesis using 2(2) 2(3) by (auto split: if_splits)
  qed
qed

lemma telephone_sound:
  assumes "telephone v = Some n"
  shows "telephone n = Some n" and "dial_number n = Inr ()" and "\<forall>b \<in> set n. 0x21 < b \<and> b < 0x3a"
proof -
  obtain w where w: "telephone_loop [] w = Some n" and l: "n \<noteq> []" "length n \<le> 64"
    using assms by (auto simp: telephone_def split: option.splits if_splits)
  have m: "telephone_loop [] n = Some n" "\<forall>b \<in> set n. is_digit b \<or> b = 0x2a \<or> b = 0x23 \<or> b = 0x2b"
    "\<forall>i < length n. n ! i = 0x2b \<longrightarrow> i = 0"
    using telephone_loop_out [OF w] by auto
  show b: "\<forall>b \<in> set n. 0x21 < b \<and> b < 0x3a" 
    using m(2) by (auto simp: is_digit_def word_less_nat_alt word_le_nat_alt)
  have "take 4 n \<noteq> str ''tel:''"
  proof
    assume "take 4 n = str ''tel:''"
    then have "0x3a \<in> set (take 4 n)" by (simp add: str_def)
    then show False using b by (auto dest: in_set_takeD)
  qed
  with m(1) l show "telephone n = Some n" by (simp add: telephone_def)
  have "is_digit b \<or> b = 0x2a \<or> b = 0x23 \<or> (i = 0 \<and> b = 0x2b)" if "(i, b) \<in> set (enumerate 0 n)" for i b
    using that m(2,3) by (auto simp: in_set_enumerate_eq)
  with l show "dial_number n = Inr ()" by (auto simp: dial_number_def)
qed

definition reader_ok :: "(phone_contact list \<Rightarrow> u8 list + nat) \<Rightarrow> vcard_reader \<Rightarrow> bool" where
  "reader_ok json r \<longleftrightarrow> vc_count r = length (vc_entries r) \<and> vc_count r \<le> PAGE
     \<and> (vc_entries r \<noteq> [] \<longrightarrow> (\<exists>n \<le> JSON_BUDGET. json (vc_entries r) = Inr n))
     \<and> (\<forall>c \<in> set (vc_entries r). contact_ok c)
     \<and> (\<forall>c. vc_contact r = Some c \<longrightarrow> length (chars (pc_name c)) \<le> 80 \<and> contact_numbers_ok c)"

lemma name_limit_chars: "length (chars (name_limit v)) \<le> 80"
  by (simp add: name_limit_def chars_take)

lemma property_ok:
  assumes "length (chars (pc_name c)) \<le> 80" "contact_numbers_ok c" "vcard_property p v c version = (c', version')"
  shows "length (chars (pc_name c')) \<le> 80 \<and> contact_numbers_ok c'"
proof -
  have n: "pc_name c' = pc_name c \<or> (\<exists>w. pc_name c' = name_limit w)"
    using assms(3) by (auto simp: vcard_property_def split: if_split_asm option.split_asm)
  have t: "pc_numbers c' = pc_numbers c \<or> (\<exists>t. telephone v = Some t \<and> t \<notin> set (pc_numbers c) \<and> length (pc_numbers c) < 3
      \<and> pc_numbers c' = pc_numbers c @ [t])"
    using assms(3) by (auto simp: vcard_property_def split: if_split_asm option.split_asm)
  have "length (chars (pc_name c')) \<le> 80" using n assms(1) name_limit_chars by auto
  moreover have "contact_numbers_ok c'" using t assms(2) telephone_sound(1) by (auto simp: contact_numbers_ok_def)
  ultimately show ?thesis by blast
qed

lemma end_ok:
  assumes "reader_ok json r" "vcard_end json r = Inr r'"
  shows "reader_ok json r'"
proof -
  obtain c where c: "vc_contact r = Some c" using assms(2) by (cases "vc_contact r") (auto simp: vcard_end_def)
  have "length (chars (str ''Unnamed contact'')) \<le> 80" "str ''Unnamed contact'' \<noteq> []"
    by (simp_all add: str_def chars_Cons utf8_width_def)
  then show ?thesis using assms c
    by (auto simp: vcard_end_def reader_ok_def contact_ok_def contact_numbers_ok_def Let_def split: if_split_asm)
qed

lemma line_ok:
  assumes "reader_ok json r" "vcard_line json l r = Inr r'"
  shows "reader_ok json r'"
proof (cases "split_once 0x3a l")
  case (Some q)
  obtain key v where q: "q = (key, v)" by (cases q)
  consider (start) "eq_ignore_case key ''BEGIN'' \<and> eq_ignore_case v ''VCARD''"
    | (stop) "\<not> (eq_ignore_case key ''BEGIN'' \<and> eq_ignore_case v ''VCARD'')" "eq_ignore_case key ''END'' \<and> eq_ignore_case v ''VCARD''"
    | (field) "\<not> (eq_ignore_case key ''BEGIN'' \<and> eq_ignore_case v ''VCARD'')" "\<not> (eq_ignore_case key ''END'' \<and> eq_ignore_case v ''VCARD'')"
    by blast
  then show ?thesis
  proof cases
    case start
    then show ?thesis using assms Some q by (auto simp: vcard_line_def reader_ok_def contact_numbers_ok_def split: if_splits)
  next
    case stop
    then have "vcard_end json r = Inr r'" using assms(2) Some q by (simp add: vcard_line_def)
    then show ?thesis using assms(1) end_ok by blast
  next
    case field
    then have f: "(case vc_contact r of None \<Rightarrow> Inr r | Some item \<Rightarrow>
        if sublist (str ''ENCODING='') (ascii_upper key) then Inl (str ''Encoded vCard fields are unsupported; no numbers imported'')
        else case vcard_property (property_name key) v item (vc_version r) of
          (item, version) \<Rightarrow> Inr (r\<lparr>vc_contact := Some item, vc_version := version\<rparr>)) = Inr r'"
      using assms(2) by (simp only: vcard_line_def Some q option.case prod.case field if_False)
    show ?thesis
    proof (cases "vc_contact r")
      case (Some c)
      then show ?thesis using assms(1) f property_ok [of c "property_name key" v "vc_version r"]
        by (auto simp: reader_ok_def split: if_splits prod.splits)
    qed (use assms(1) f in simp)
  qed
qed (use assms in \<open>simp add: vcard_line_def\<close>)

lemma lines_ok: "reader_ok json r \<Longrightarrow> vcard_lines json ls r = Inr r' \<Longrightarrow> reader_ok json r'"
  by (induction json ls r rule: vcard_lines.induct) (auto dest: line_ok)

lemma parse_reader:
  assumes "vcard_parse json bytes = Inr (es, n)"
  shows "\<exists>r. reader_ok json r \<and> es = vc_entries r \<and> n = vc_count r"
proof -
  let ?r = "\<lparr>vc_entries = [], vc_contact = None, vc_version = False, vc_count = 0\<rparr>"
  obtain r where "vcard_lines json (foldl unfold_line [] (split_lines bytes)) ?r = Inr r" and r: "es = vc_entries r" "n = vc_count r"
    using assms by (auto simp: vcard_parse_def split: if_splits)
  moreover have "reader_ok json ?r" by (simp add: reader_ok_def)
  ultimately have "reader_ok json r" using lines_ok by blast
  then show ?thesis using r by blast
qed

text \<open>C30. An imported page is bounded and safe to use: at most 40 contacts, counted as delivered, within the budget of the
  control state, each with a name of at most 80 characters and at most three different numbers; every number is
  in normal form and would be accepted for dialling.\<close>

theorem phonebook_page_sound:
  assumes "vcard_parse json bytes = Inr (es, n)"
  shows "n = length es \<and> n \<le> 40 \<and> (es = [] \<or> (\<exists>k \<le> 16384. json es = Inr k))
    \<and> (\<forall>c \<in> set es. pc_name c \<noteq> [] \<and> length (chars (pc_name c)) \<le> 80 \<and> length (pc_numbers c) \<le> 3 \<and> distinct (pc_numbers c)
        \<and> (\<forall>t \<in> set (pc_numbers c). telephone t = Some t \<and> dial_number t = Inr ()))"
  using parse_reader [OF assms] telephone_sound(2)
  by (auto simp: reader_ok_def contact_ok_def contact_numbers_ok_def PAGE_def JSON_BUDGET_def)

section \<open>Cards that were written are read\<close>

text \<open>A card as a phone writes it: backslash, comma and semicolon of the name are escaped, lines end with CR LF.\<close>

definition escape_chars :: "u8 list list \<Rightarrow> u8 list list" where
  "escape_chars cs = concat (map (\<lambda>c. if c \<in> {[0x5c], [0x2c], [0x3b]} then [[0x5c], c] else [c]) cs)"

definition name_escape :: "u8 list \<Rightarrow> u8 list" where
  "name_escape name = concat (escape_chars (chars name))"

definition card_lines :: "phone_contact \<Rightarrow> u8 list list" where
  "card_lines c = [str ''BEGIN:VCARD'', str ''VERSION:3.0'', str ''FN:'' @ name_escape (pc_name c)]
     @ map (\<lambda>n. str ''TEL:'' @ n) (pc_numbers c) @ [str ''END:VCARD'']"

definition card_text :: "phone_contact list \<Rightarrow> u8 list" where
  "card_text cs = concat (map (\<lambda>l. l @ [0x0d, 0x0a]) (concat (map card_lines cs)))"

definition printable :: "u8 list \<Rightarrow> bool" where
  "printable name \<longleftrightarrow> utf8_valid name \<and> (\<forall>c \<in> set (chars name). \<not> is_control c)"

lemma unescape_escape: "\<forall>c \<in> set cs. \<not> is_control c \<Longrightarrow> unescape_chars (escape_chars cs) = cs"
proof (induction cs)
  case (Cons c cs)
  then show ?case by (auto simp: escape_chars_def)
qed (simp add: escape_chars_def)

lemma set_escape: "set (escape_chars cs) \<subseteq> insert [0x5c] (set cs)"
  by (induction cs) (auto simp: escape_chars_def)

lemma utf8_backslash: "utf8_char [0x5c]"
  by (simp add: utf8_char_def one_char_def utf8_width_def utf8_valid.simps(2))

lemma escape_utf8:
  assumes "utf8_valid name"
  shows "\<forall>c \<in> set (escape_chars (chars name)). utf8_char c"
  using utf8_chars [OF assms] utf8_backslash set_escape [of "chars name"] by blast

lemma name_round:
  assumes "printable name"
  shows "unescape (name_escape name) = name"
proof -
  have "\<forall>c \<in> set (escape_chars (chars name)). utf8_char c"
    using assms escape_utf8 unfolding printable_def by blast
  then have "chars (name_escape name) = escape_chars (chars name)"
    unfolding name_escape_def by (simp add: chars_concat utf8_char_def)
  then show ?thesis using assms by (simp add: unescape_def unescape_escape printable_def)
qed

definition line_ok_bytes :: "u8 list \<Rightarrow> bool" where
  "line_ok_bytes l \<longleftrightarrow> l \<noteq> [] \<and> hd l \<noteq> 0x20 \<and> hd l \<noteq> 0x09 \<and> 0x0a \<notin> set l \<and> utf8_valid l"

lemma split_lines_Cons: "0x0a \<notin> set l \<Longrightarrow> split_lines (l @ [0x0d, 0x0a] @ rest) = l # split_lines rest"
proof -
  assume a: "0x0a \<notin> set l"
  then have t: "takeWhile (\<lambda>b. b \<noteq> 0x0a) (l @ [0x0d, 0x0a] @ rest) = l @ [0x0d]"
    "dropWhile (\<lambda>b. b \<noteq> 0x0a) (l @ [0x0d, 0x0a] @ rest) = 0x0a # rest"
    by (auto simp: takeWhile_append2 dropWhile_append2 takeWhile_append dropWhile_append)
  show ?thesis by (subst split_lines.simps) (simp only: t Let_def, simp add: strip_return_def)
qed

lemma split_lines_concat: "\<forall>l \<in> set ls. 0x0a \<notin> set l \<Longrightarrow> split_lines (concat (map (\<lambda>l. l @ [0x0d, 0x0a]) ls)) = ls"
proof (induction ls)
  case Nil
  then show ?case by (simp add: split_lines.simps)
next
  case (Cons l ls)
  then show ?case using split_lines_Cons [of l "concat (map (\<lambda>l. l @ [0x0d, 0x0a]) ls)"] by simp
qed

lemma unfold_lines: "\<forall>l \<in> set ls. hd l \<noteq> 0x20 \<and> hd l \<noteq> 0x09 \<Longrightarrow> foldl unfold_line acc ls = acc @ ls"
  by (induction ls arbitrary: acc) (auto simp: unfold_line_def)

lemma utf8_ascii: "\<forall>b \<in> set bs. b < 0x80 \<Longrightarrow> utf8_valid bs"
  by (induction bs) (auto simp: utf8_valid.simps(2))

lemma utf8_valid_append: "utf8_valid xs \<Longrightarrow> utf8_valid (xs @ ys) = utf8_valid ys"
proof (induction xs rule: chars.induct)
  case (1 xs)
  show ?case
  proof (cases xs)
    case (Cons b bs)
    let ?w = "utf8_width b - 1"
    have v: "?w \<le> length bs" "utf8_valid (b # take ?w bs)" "utf8_valid (drop ?w bs)"
      using 1(2) utf8_step unfolding Cons by blast+
    show ?thesis using 1(1) [OF Cons v(3)] v(1,2) utf8_step [of b "bs @ ys"] unfolding Cons by simp
  qed simp
qed

lemma telephone_line:
  assumes "telephone n = Some n"
  shows "line_ok_bytes (str ''TEL:'' @ n)"
proof -
  have b: "\<forall>b \<in> set n. 0x21 < b \<and> b < 0x3a" using telephone_sound(3) [OF assms] .
  then have "\<forall>b \<in> set n. b < 0x80" by (auto simp: word_less_nat_alt)
  then have "utf8_valid n" by (rule utf8_ascii)
  then have "utf8_valid (str ''TEL:'' @ n)" by (simp add: str_def utf8_valid.simps(2))
  moreover have "0x0a \<notin> set n" using b by (auto simp: word_less_nat_alt)
  ultimately show ?thesis by (simp add: line_ok_bytes_def str_def)
qed

lemma name_line:
  assumes "printable name"
  shows "line_ok_bytes (str ''FN:'' @ name_escape name)"
proof -
  have u: "\<forall>c \<in> set (escape_chars (chars name)). utf8_char c" using assms escape_utf8 unfolding printable_def by blast
  then have "utf8_valid (name_escape name)" unfolding name_escape_def by (rule utf8_concat)
  then have "utf8_valid (str ''FN:'' @ name_escape name)" by (simp add: str_def utf8_valid.simps(2))
  moreover have "0x0a \<notin> set (name_escape name)"
  proof
    assume "0x0a \<in> set (name_escape name)"
    then obtain c where c: "c \<in> set (escape_chars (chars name))" "0x0a \<in> set c" by (auto simp: name_escape_def)
    then have "c = [0x0a]" using u utf8_char_ascii [of c "0x0a"] by simp
    then have "[0x0a] \<in> set (chars name)" using c(1) set_escape [of "chars name"] by auto
    then have "\<not> is_control [0x0a]" using assms unfolding printable_def by blast
    then show False by simp
  qed
  ultimately show ?thesis by (simp add: line_ok_bytes_def str_def)
qed

text \<open>The contacts a page can carry.\<close>

definition contact_writable :: "phone_contact \<Rightarrow> bool" where
  "contact_writable c \<longleftrightarrow> contact_ok c \<and> printable (pc_name c)"

lemma card_lines_ok: "contact_writable c \<Longrightarrow> \<forall>l \<in> set (card_lines c). line_ok_bytes l"
  using telephone_line name_line
  by (auto simp: card_lines_def contact_writable_def contact_ok_def contact_numbers_ok_def)
    (simp_all add: line_ok_bytes_def str_def utf8_valid.simps(2))

lemma short_not_encoding: "length key < 9 \<Longrightarrow> \<not> sublist (str ''ENCODING='') (ascii_upper key)"
  by (auto simp: ascii_upper_def dest!: sublist_length_le)

lemma split_once_str:
  "split_once 0x3a (str ''BEGIN:VCARD'') = Some (str ''BEGIN'', str ''VCARD'')"
  "split_once 0x3a (str ''END:VCARD'') = Some (str ''END'', str ''VCARD'')"
  "split_once 0x3a (str ''VERSION:3.0'') = Some (str ''VERSION'', str ''3.0'')"
  "split_once 0x3a (str ''FN:'' @ v) = Some (str ''FN'', v)"
  "split_once 0x3a (str ''TEL:'' @ v) = Some (str ''TEL'', v)"
  by (simp_all add: split_once_def str_def)

text \<open>One line of a card inside it: a field of its contact.\<close>

lemma field_line:
  assumes "vc_contact r = Some c" "split_once 0x3a l = Some (key, v)" "length key < 9"
    "\<not> eq_ignore_case key ''BEGIN''" "\<not> eq_ignore_case key ''END''" "vcard_property (property_name key) v c (vc_version r) = (c', ver)"
  shows "vcard_line json l r = Inr (r\<lparr>vc_contact := Some c', vc_version := ver\<rparr>)"
  using assms short_not_encoding [OF assms(3)] by (simp add: vcard_line_def)

lemma keys:
  "property_name (str ''VERSION'') = str ''VERSION''" "property_name (str ''FN'') = str ''FN''" "property_name (str ''TEL'') = str ''TEL''"
  by (simp_all add: property_name_def ascii_upper_def str_def)

lemma version_line: "vc_contact r = Some c \<Longrightarrow> vcard_line json (str ''VERSION:3.0'') r = Inr (r\<lparr>vc_contact := Some c, vc_version := True\<rparr>)"
  by (rule field_line [OF _ split_once_str(3)]) (simp_all add: keys vcard_property_def, simp_all add: eq_ignore_case_def ascii_upper_def str_def)

lemma fn_line: "vc_contact r = Some c \<Longrightarrow> vcard_line json (str ''FN:'' @ v) r
    = Inr (r\<lparr>vc_contact := Some (c\<lparr>pc_name := name_limit (unescape v)\<rparr>), vc_version := vc_version r\<rparr>)"
  by (rule field_line [OF _ split_once_str(4)]) (simp_all add: keys vcard_property_def, simp_all add: eq_ignore_case_def ascii_upper_def str_def)

lemma tel_line:
  assumes "vc_contact r = Some c" "telephone n = Some n" "length (pc_numbers c) < 3" "n \<notin> set (pc_numbers c)"
  shows "vcard_line json (str ''TEL:'' @ n) r = Inr (r\<lparr>vc_contact := Some (c\<lparr>pc_numbers := pc_numbers c @ [n]\<rparr>), vc_version := vc_version r\<rparr>)"
  by (rule field_line [OF assms(1) split_once_str(5)])
    (simp_all add: keys vcard_property_def assms, simp_all add: eq_ignore_case_def ascii_upper_def str_def)

lemma vcard_lines_append: "vcard_lines json (xs @ ys) r = bindr (vcard_lines json xs r) (vcard_lines json ys)"
proof (induction xs arbitrary: r)
  case (Cons x xs)
  then show ?case by (cases "vcard_line json x r") auto
qed simp

lemma tel_lines:
  "vc_contact r = Some c \<Longrightarrow> \<forall>n \<in> set ns. telephone n = Some n \<Longrightarrow> distinct (pc_numbers c @ ns) \<Longrightarrow> length (pc_numbers c @ ns) \<le> 3
   \<Longrightarrow> vcard_lines json (map (\<lambda>n. str ''TEL:'' @ n) ns) r = Inr (r\<lparr>vc_contact := Some (c\<lparr>pc_numbers := pc_numbers c @ ns\<rparr>)\<rparr>)"
proof (induction ns arbitrary: r c)
  case (Cons n ns)
  let ?c = "c\<lparr>pc_numbers := pc_numbers c @ [n]\<rparr>"
  have "vcard_line json (str ''TEL:'' @ n) r = Inr (r\<lparr>vc_contact := Some ?c, vc_version := vc_version r\<rparr>)"
    by (rule tel_line) (use Cons.prems in auto)
  moreover have "vcard_lines json (map (\<lambda>n. str ''TEL:'' @ n) ns) (r\<lparr>vc_contact := Some ?c, vc_version := vc_version r\<rparr>)
      = Inr (r\<lparr>vc_contact := Some ?c, vc_version := vc_version r, vc_contact := Some (?c\<lparr>pc_numbers := pc_numbers ?c @ ns\<rparr>)\<rparr>)"
    by (rule Cons.IH) (use Cons.prems in auto)
  ultimately show ?case by simp
qed simp

lemma card_read:
  assumes "contact_writable c" "vc_contact r = None" "vc_count r < PAGE" "json (vc_entries r @ [c]) = Inr k" "k \<le> JSON_BUDGET"
  shows "\<exists>version. vcard_lines json (card_lines c) r
    = Inr (r\<lparr>vc_entries := vc_entries r @ [c], vc_contact := None, vc_version := version, vc_count := vc_count r + 1\<rparr>)"
proof -
  let ?e = "\<lparr>pc_name = [], pc_numbers = []\<rparr>" and ?n = "\<lparr>pc_name = pc_name c, pc_numbers = []\<rparr>"
  have ok: "pc_name c \<noteq> []" "length (chars (pc_name c)) \<le> 80" "contact_numbers_ok c" "printable (pc_name c)"
    using assms(1) by (auto simp: contact_writable_def contact_ok_def)
  have name: "name_limit (unescape (name_escape (pc_name c))) = pc_name c"
    using ok(2) by (simp add: name_round [OF ok(4)] name_limit_def)
  have first: "vcard_line json (str ''BEGIN:VCARD'') r = Inr (r\<lparr>vc_contact := Some ?e, vc_version := False\<rparr>)"
    using assms(2) by (simp add: vcard_line_def split_once_str) (simp add: eq_ignore_case_def ascii_upper_def str_def)
  have tels: "vcard_lines json (map (\<lambda>n. str ''TEL:'' @ n) (pc_numbers c)) (r\<lparr>vc_contact := Some ?n, vc_version := True\<rparr>)
      = Inr (r\<lparr>vc_contact := Some c, vc_version := True\<rparr>)"
    using tel_lines [of "r\<lparr>vc_contact := Some ?n, vc_version := True\<rparr>" ?n "pc_numbers c"] ok(3) by (simp add: contact_numbers_ok_def)
  have last: "vcard_line json (str ''END:VCARD'') (r\<lparr>vc_contact := Some c, vc_version := True\<rparr>)
      = Inr (r\<lparr>vc_entries := vc_entries r @ [c], vc_contact := None, vc_version := True, vc_count := vc_count r + 1\<rparr>)"
  proof -
    have "\<not> eq_ignore_case (str ''END'') ''BEGIN''" "eq_ignore_case (str ''END'') ''END''" "eq_ignore_case (str ''VCARD'') ''VCARD''"
      by (simp_all add: eq_ignore_case_def ascii_upper_def str_def)
    then show ?thesis using assms(3-5) ok(1) by (simp add: vcard_line_def split_once_str vcard_end_def)
  qed
  show ?thesis
    using first tels last by (intro exI [of _ True]) (simp add: card_lines_def version_line fn_line name vcard_lines_append)
qed

lemma cards_read:
  "\<forall>c \<in> set cs. contact_writable c \<Longrightarrow> vc_contact r = None \<Longrightarrow> vc_count r = length (vc_entries r)
   \<Longrightarrow> length (vc_entries r) + length cs \<le> PAGE
   \<Longrightarrow> \<forall>k. \<exists>n \<le> JSON_BUDGET. json (vc_entries r @ take k cs) = Inr n
   \<Longrightarrow> \<exists>r'. vcard_lines json (concat (map card_lines cs)) r = Inr r' \<and> vc_entries r' = vc_entries r @ cs
        \<and> vc_contact r' = None \<and> vc_count r' = length (vc_entries r')"
proof (induction cs arbitrary: r)
  case (Cons c cs)
  have budget: "\<exists>n \<le> JSON_BUDGET. json (vc_entries r @ c # take k cs) = Inr n" for k
    using Cons.prems(5) by (metis take_Suc_Cons)
  obtain n where n: "json (vc_entries r @ [c]) = Inr n" "n \<le> JSON_BUDGET" using budget [of 0] by auto
  obtain version where card: "vcard_lines json (card_lines c) r
      = Inr (r\<lparr>vc_entries := vc_entries r @ [c], vc_contact := None, vc_version := version, vc_count := vc_count r + 1\<rparr>)"
    using card_read [of c r json n] n Cons.prems by auto
  let ?r = "r\<lparr>vc_entries := vc_entries r @ [c], vc_contact := None, vc_version := version, vc_count := vc_count r + 1\<rparr>"
  have "\<exists>r'. vcard_lines json (concat (map card_lines cs)) ?r = Inr r' \<and> vc_entries r' = vc_entries ?r @ cs
        \<and> vc_contact r' = None \<and> vc_count r' = length (vc_entries r')"
    by (rule Cons.IH) (use Cons.prems budget in auto)
  with card show ?case by (simp add: vcard_lines_append)
qed simp

lemma card_text_utf8: "\<forall>c \<in> set cs. contact_writable c \<Longrightarrow> utf8_valid (card_text cs)"
proof -
  assume "\<forall>c \<in> set cs. contact_writable c"
  then have "\<forall>l \<in> set (concat (map card_lines cs)). line_ok_bytes l" using card_lines_ok by auto
  then have "utf8_valid (concat (map (\<lambda>l. l @ [0x0d, 0x0a]) ls))" if "set ls \<subseteq> set (concat (map card_lines cs))" for ls
    using that by (induction ls) (auto simp: line_ok_bytes_def utf8_valid_append utf8_valid.simps(2))
  then show ?thesis by (simp add: card_text_def)
qed

lemma parse_cards:
  assumes "\<forall>c \<in> set cs. contact_writable c" and "length cs \<le> PAGE" and "length (card_text cs) \<le> PAGE_BYTES"
    and "\<forall>k. \<exists>n \<le> JSON_BUDGET. json (take k cs) = Inr n"
  shows "vcard_parse json (card_text cs) = Inr (cs, length cs)"
proof -
  let ?r = "\<lparr>vc_entries = [], vc_contact = None, vc_version = False, vc_count = 0\<rparr>" and ?ls = "concat (map card_lines cs)"
  have ls: "\<forall>l \<in> set ?ls. line_ok_bytes l" using assms(1) card_lines_ok by auto
  then have "split_lines (card_text cs) = ?ls" unfolding card_text_def
    by (intro split_lines_concat) (simp add: line_ok_bytes_def)
  moreover have "foldl unfold_line [] ?ls = ?ls" using ls unfold_lines [of ?ls "[]"] by (simp add: line_ok_bytes_def)
  moreover obtain r' where "vcard_lines json ?ls ?r = Inr r'" "vc_entries r' = cs" "vc_contact r' = None" "vc_count r' = length cs"
    using cards_read [of cs ?r json] assms(1,2,4) by auto
  ultimately show ?thesis using assms(3) card_text_utf8 [OF assms(1)] by (simp add: vcard_parse_def)
qed

text \<open>An example: a name with an umlaut and a comma, and two numbers.\<close>

definition example_contact :: phone_contact where
  "example_contact = \<lparr>pc_name = [0x4d, 0xc3, 0xbc, 0x2c], pc_numbers = [str ''+361'', str ''12#'']\<rparr>"

lemma example_writable: "contact_writable example_contact"
  by (simp add: contact_writable_def contact_ok_def contact_numbers_ok_def printable_def example_contact_def chars_Cons utf8_width_def
      telephone_def str_def is_digit_def utf8_valid.simps(2) utf8_cont_def)

lemma example_size: "length (card_text [example_contact]) \<le> PAGE_BYTES"
  by (simp add: card_text_def card_lines_def example_contact_def PAGE_BYTES_def name_escape_def escape_chars_def chars_Cons utf8_width_def)

lemma example_card: "vcard_parse (\<lambda>es. Inr (100 * length es)) (card_text [example_contact]) = Inr ([example_contact], 1)"
  using parse_cards [of "[example_contact]" "\<lambda>es. Inr (100 * length es)"] example_writable example_size
  by (simp add: take_Cons' PAGE_def JSON_BUDGET_def)



theorem phonebook_page_sound_witness:
  "\<exists>es n. vcard_parse (\<lambda>es. Inr (100 * length es)) (card_text [example_contact]) = Inr (es, n) \<and> n \<le> 40
     \<and> (\<forall>c \<in> set es. \<forall>t \<in> set (pc_numbers c). dial_number t = Inr ())"
  using phonebook_page_sound [OF example_card] example_card by blast

text \<open>A control character that follows a backslash stays in the name.\<close>

lemma unescape_keeps_escaped_control: "unescape [0x41, 0x5c, 0x07] = [0x41, 0x07]" "unescape [0x41, 0x07] = [0x41]"
  by (simp_all add: unescape_def chars_Cons utf8_width_def)

end
