(* ===== verification/Waits.thy ===== *)
theory Waits
  imports Prelude
begin

text \<open>
  Asynchronous tasks that may be dropped: a task runs until it ends with a result or until it is interrupted at one of
  its waits (a cancellation, a time limit around it, a lost peer). The number of waits that are still answered is part of
  the state, so that "for every number" is "whenever the interruption comes". What the task did before stays done.
\<close>

record waits =
  wt_left :: nat

datatype ('e, 'a) ended = Cut | Ended "'e + 'a"

type_synonym ('s, 'e, 'a) task = "'s \<Rightarrow> 's \<times> ('e, 'a) ended"

definition thenF :: "('s, 'e, 'a) task \<Rightarrow> ('a \<Rightarrow> ('s, 'e, 'b) task) \<Rightarrow> ('s, 'e, 'b) task" where
  "thenF f k s = (case f s of (s, Cut) \<Rightarrow> (s, Cut) | (s, Ended (Inl e)) \<Rightarrow> (s, Ended (Inl e)) | (s, Ended (Inr x)) \<Rightarrow> k x s)"

text \<open>A step that does not wait, an effect, and a wait for a reply.\<close>

definition now :: "'e + 'a \<Rightarrow> ('s, 'e, 'a) task" where
  "now reply s = (s, Ended reply)"

definition doF :: "('s \<Rightarrow> 's) \<Rightarrow> ('s, 'e, unit) task" where
  "doF f s = (f s, Ended (Inr ()))"

definition wait_for :: "'e + 'a \<Rightarrow> ('z waits_scheme, 'e, 'a) task" where
  "wait_for reply s = (case wt_left s of 0 \<Rightarrow> (s, Cut) | Suc n \<Rightarrow> (s\<lparr>wt_left := n\<rparr>, Ended reply))"

text \<open>\<open>map_err\<close>.\<close>

definition map_error :: "('e \<Rightarrow> 'd) \<Rightarrow> ('s, 'e, 'a) task \<Rightarrow> ('s, 'd, 'a) task" where
  "map_error g f s =
     (case f s of (s, Cut) \<Rightarrow> (s, Cut) | (s, Ended (Inl e)) \<Rightarrow> (s, Ended (Inl (g e))) | (s, Ended (Inr x)) \<Rightarrow> (s, Ended (Inr x)))"

lemma map_error_fst [simp]: "fst (map_error g f s) = fst (f s)"
  by (auto simp: map_error_def split: prod.splits ended.splits sum.splits)

lemma map_error_Ended: "map_error g f s = (s', Ended (Inr x)) \<longleftrightarrow> f s = (s', Ended (Inr x))"
  by (auto simp: map_error_def split: prod.splits ended.splits sum.splits)

lemma thenF_Ended: "thenF f k s = (s', Ended (Inr y)) \<longleftrightarrow> (\<exists>s1 x. f s = (s1, Ended (Inr x)) \<and> k x s1 = (s', Ended (Inr y)))"
  by (auto simp: thenF_def split: prod.splits ended.splits sum.splits)

lemma wait_for_left: "wait_for reply s = (s', Ended r) \<Longrightarrow> wt_left s' < wt_left s"
  by (auto simp: wait_for_def split: nat.splits)

text \<open>A relation between the states before and after that every part of a task keeps is kept by the task.\<close>

definition keeps :: "('s \<Rightarrow> 's \<Rightarrow> bool) \<Rightarrow> ('s, 'e, 'a) task \<Rightarrow> bool" where
  "keeps R f \<longleftrightarrow> (\<forall>s. R s (fst (f s)))"

lemma keeps_now: "(\<And>s. R s s) \<Longrightarrow> keeps R (now r)"
  by (simp add: keeps_def now_def)

lemma keeps_do: "(\<And>s. R s (f s)) \<Longrightarrow> keeps R (doF f)"
  by (simp add: keeps_def doF_def)

lemma keeps_wait: "(\<And>s. R s s) \<Longrightarrow> (\<And>s n. R s (s\<lparr>wt_left := n\<rparr>)) \<Longrightarrow> keeps R (wait_for r)"
  by (auto simp: keeps_def wait_for_def split: nat.splits)

lemma keeps_map: "keeps R f \<Longrightarrow> keeps R (map_error g f)"
  by (simp add: keeps_def)

lemma keeps_then:
  assumes "\<And>a b c. R a b \<Longrightarrow> R b c \<Longrightarrow> R a c" and "keeps R f" and "\<And>x. keeps R (k x)"
  shows "keeps R (thenF f k)"
  unfolding keeps_def
proof
  fix s
  obtain s1 r where f: "f s = (s1, r)" by (cases "f s")
  then have 1: "R s s1" using assms(2) unfolding keeps_def by (metis fst_conv)
  show "R s (fst (thenF f k s))"
  proof (cases "\<exists>x. r = Ended (Inr x)")
    case True
    then obtain x where x: "r = Ended (Inr x)" by blast
    then have "thenF f k s = k x s1" using f by (simp add: thenF_def)
    moreover have "R s1 (fst (k x s1))" using assms(3) unfolding keeps_def by blast
    ultimately show ?thesis using 1 assms(1) by metis
  next
    case False
    then have "fst (thenF f k s) = s1" using f by (auto simp: thenF_def split: ended.splits sum.splits)
    then show ?thesis using 1 by simp
  qed
qed

text \<open>Partial correctness with an invariant for every other way out: from a state with \<open>P\<close> a task ends with \<open>Q\<close>, or with an
  error or an interruption in a state with \<open>I\<close>.\<close>

definition sound :: "('s \<Rightarrow> bool) \<Rightarrow> ('s \<Rightarrow> bool) \<Rightarrow> ('s, 'e, 'a) task \<Rightarrow> ('a \<Rightarrow> 's \<Rightarrow> bool) \<Rightarrow> bool" where
  "sound I P f Q \<longleftrightarrow> (\<forall>s. P s \<longrightarrow> (case f s of (s', Ended (Inr x)) \<Rightarrow> Q x s' | (s', Ended (Inl e)) \<Rightarrow> I s' | (s', Cut) \<Rightarrow> I s'))"

lemma sound_Inr: "sound I P f Q \<Longrightarrow> P s \<Longrightarrow> f s = (s', Ended (Inr x)) \<Longrightarrow> Q x s'"
  by (auto simp: sound_def)

lemma sound_other: "sound I P f Q \<Longrightarrow> P s \<Longrightarrow> f s = (s', r) \<Longrightarrow> (\<And>x. r = Ended (Inr x) \<Longrightarrow> Q x s' \<Longrightarrow> I s') \<Longrightarrow> I s'"
  unfolding sound_def by (cases r; cases "\<exists>x. r = Ended (Inr x)") (auto split: sum.splits)

lemma sound_now: "(\<And>s x. P s \<Longrightarrow> r = Inr x \<Longrightarrow> Q x s) \<Longrightarrow> (\<And>s. P s \<Longrightarrow> I s) \<Longrightarrow> sound I P (now r) Q"
  by (auto simp: sound_def now_def split: sum.splits)

lemma sound_do: "(\<And>s. P s \<Longrightarrow> Q () (f s)) \<Longrightarrow> sound I P (doF f) Q"
  by (auto simp: sound_def doF_def)

lemma sound_wait:
  "(\<And>s n x. P s \<Longrightarrow> r = Inr x \<Longrightarrow> Q x (s\<lparr>wt_left := n\<rparr>)) \<Longrightarrow> (\<And>s n. P s \<Longrightarrow> I s \<and> I (s\<lparr>wt_left := n\<rparr>)) \<Longrightarrow> sound I P (wait_for r) Q"
  by (auto simp: sound_def wait_for_def split: sum.splits nat.splits)

lemma sound_map: "sound I P f Q \<Longrightarrow> sound I P (map_error g f) Q"
  by (fastforce simp: sound_def map_error_def split: prod.splits ended.splits sum.splits)

lemma sound_then:
  assumes "sound I P f R" and "\<And>x. sound I (R x) (k x) Q"
  shows "sound I P (thenF f k) Q"
  unfolding sound_def
proof (intro allI impI)
  fix s
  assume p: "P s"
  obtain s1 r where f: "f s = (s1, r)" by (cases "f s")
  show "case thenF f k s of (s', Ended (Inr x)) \<Rightarrow> Q x s' | (s', Ended (Inl e)) \<Rightarrow> I s' | (s', Cut) \<Rightarrow> I s'"
  proof (cases "\<exists>x. r = Ended (Inr x)")
    case True
    then obtain x where x: "r = Ended (Inr x)" by blast
    then have "R x s1" using sound_Inr [OF assms(1) p] f by simp
    moreover have "thenF f k s = k x s1" using f x by (simp add: thenF_def)
    ultimately show ?thesis using assms(2) [of x] unfolding sound_def by simp
  next
    case False
    then have "I s1" using sound_other [OF assms(1) p f] by simp
    then show ?thesis using f False by (auto simp: thenF_def split: ended.splits sum.splits)
  qed
qed

lemma sound_pre: "sound I P f Q \<Longrightarrow> (\<And>s. P' s \<Longrightarrow> P s) \<Longrightarrow> sound I P' f Q"
  by (simp add: sound_def)

lemma sound_post: "sound I P f Q \<Longrightarrow> (\<And>x s. Q x s \<Longrightarrow> Q' x s) \<Longrightarrow> sound I P f Q'"
  by (fastforce simp: sound_def split: prod.splits ended.splits sum.splits)

end
