(* ===== verification/Phonebook.thy ===== *)
theory Phonebook
  imports Vcard Waits
begin

text \<open>
  The import of phone book pages over OBEX (\<open>native/projection/argo-projectiond/src/connectivity/phonebook.rs\<close>): the
  worker with its session, its private directory and their cleanup, and the book that owns at most one worker and refuses
  further imports once a cleanup was not confirmed. D-Bus, the file system and the clock are an environment of replies;
  the worker is interrupted (cancelled, or by its time limit) after any number of its waits.
\<close>

section \<open>Snapshots and outcomes\<close>

record page_snapshot =
  ps_busy :: bool
  ps_kind :: "u8 list"
  ps_detail :: "u8 list"
  ps_offset :: u16
  ps_more :: bool
  ps_entries :: "phone_contact list"

definition page_default :: page_snapshot where
  "page_default = \<lparr>ps_busy = False, ps_kind = [], ps_detail = [], ps_offset = 0, ps_more = False, ps_entries = []\<rparr>"

record import_outcome =
  oc_result :: "u8 list + page_snapshot"
  oc_cleanup :: "u8 list option"

section \<open>The worker\<close>

datatype obex_call =
    CreateSession "u8 list" "u8 list"
  | SelectBook "u8 list"
  | MakeDir "u8 list"
  | PullAll "u8 list" u16
  | GetSize "u8 list"
  | GetStatus "u8 list"
  | RemoveFile "u8 list"
  | RemoveDir "u8 list"
  | RemoveSession "u8 list"
  | CloseBus

text \<open>The replies of the environment. \<open>ox_turn i\<close> is the \<open>i\<close>-th look at the transfer: the length of the file if it
  exists, the size and the status the daemon reports.\<close>

record obex =
  ox_client :: "u8 list + unit"
  ox_create :: "u8 list + u8 list"
  ox_access :: "u8 list + unit"
  ox_select :: "u8 list + unit"
  ox_runtime :: "u8 list option"
  ox_random :: "u8 list + u8 list"
  ox_mkdir :: "u8 list + unit"
  ox_pull :: "u8 list + u8 list"
  ox_transfer :: "u8 list + unit"
  ox_turn :: "nat \<Rightarrow> nat option \<times> (u8 list + nat) \<times> (u8 list + u8 list)"
  ox_file :: "u8 list + u8 list"
  ox_remove :: bool
  ox_close :: bool

text \<open>The progress of the worker: the session it owns, its directory, and the calls made.\<close>

record fetching = waits +
  ft_session :: "u8 list option"
  ft_dir :: "u8 list option"
  ft_calls :: "obex_call list"

type_synonym 'a fetch = "(fetching, u8 list, 'a) task"

text \<open>Calls are made, then their reply is awaited.\<close>

definition await :: "obex_call list \<Rightarrow> u8 list + 'a \<Rightarrow> 'a fetch" where
  "await calls reply = thenF (doF (\<lambda>s. s\<lparr>ft_calls := ft_calls s @ calls\<rparr>)) (\<lambda>_. wait_for reply)"

definition as_error :: "string \<Rightarrow> u8 list + 'a \<Rightarrow> u8 list + 'a" where
  "as_error m r = map_sum (\<lambda>_. str m) id r"

definition path_join :: "u8 list \<Rightarrow> u8 list \<Rightarrow> u8 list" where
  "path_join base c = (if base = [] \<or> last base = 0x2f then base @ c else base @ [0x2f] @ c)"

text \<open>The loop that watches the transfer.\<close>

definition transfer_size :: "obex \<Rightarrow> u8 list \<Rightarrow> nat \<Rightarrow> unit fetch" where
  "transfer_size ox path i =
     (if (case fst (ox_turn ox i) of None \<Rightarrow> False | Some n \<Rightarrow> n > PAGE_BYTES) then now (Inl (str ''Phonebook page exceeds 256 KiB''))
      else thenF (await [GetSize path] (Inr (case fst (snd (ox_turn ox i)) of Inl _ \<Rightarrow> 0 | Inr n \<Rightarrow> n))) (\<lambda>n.
        now (if n > PAGE_BYTES then Inl (str ''Phonebook page exceeds 256 KiB'') else Inr ())))"

definition transfer_look :: "obex \<Rightarrow> u8 list \<Rightarrow> nat \<Rightarrow> bool fetch" where
  "transfer_look ox path i =
     thenF (transfer_size ox path i) (\<lambda>_.
     thenF (await [GetStatus path] (snd (snd (ox_turn ox i)))) (\<lambda>status.
       if status = str ''complete'' then now (Inr True)
       else if status = str ''error'' then now (Inl (str ''Phonebook transfer failed or permission was denied''))
       else await [] (Inr False)))"

lemma await_eq: "await calls reply s =
    (let s = s\<lparr>ft_calls := ft_calls s @ calls\<rparr> in case wt_left s of 0 \<Rightarrow> (s, Cut) | Suc n \<Rightarrow> (s\<lparr>wt_left := n\<rparr>, Ended reply))"
  by (simp add: await_def thenF_def doF_def wait_for_def Let_def)

lemma await_left: "await calls reply s = (s', Ended r) \<Longrightarrow> wt_left s' < wt_left s"
  by (auto simp: await_eq Let_def split: nat.splits)

lemma transfer_size_left: "transfer_size ox path i s = (s', Ended (Inr u)) \<Longrightarrow> wt_left s' < wt_left s"
  by (auto simp: transfer_size_def thenF_Ended now_def dest!: await_left split: if_splits)

lemma transfer_look_left: "transfer_look ox path i s = (s', Ended (Inr u)) \<Longrightarrow> wt_left s' < wt_left s"
  by (fastforce simp: transfer_look_def thenF_Ended now_def dest!: await_left transfer_size_left split: if_splits)

function transfer_wait :: "obex \<Rightarrow> u8 list \<Rightarrow> nat \<Rightarrow> unit fetch" where
  "transfer_wait ox path i s =
     (case transfer_look ox path i s of
        (s, Cut) \<Rightarrow> (s, Cut)
      | (s, Ended (Inl e)) \<Rightarrow> (s, Ended (Inl e))
      | (s, Ended (Inr True)) \<Rightarrow> (s, Ended (Inr ()))
      | (s, Ended (Inr False)) \<Rightarrow> transfer_wait ox path (i + 1) s)"
  by pat_completeness auto
termination
  by (relation "measure (\<lambda>(ox, path, i, s). wt_left s)") (auto dest: transfer_look_left [OF sym])

declare transfer_wait.simps [simp del]

definition page_of :: "(phone_contact list \<Rightarrow> u8 list + nat) \<Rightarrow> u8 list \<Rightarrow> u16 \<Rightarrow> u8 list \<Rightarrow> u8 list + page_snapshot" where
  "page_of json kind offset bytes =
     bindr (vcard_parse json bytes) (\<lambda>(entries, count).
       Inr \<lparr>ps_busy = False, ps_kind = kind,
            ps_detail = decimal (length entries) @ str '' entries on this page; phone-provided order. Cached until disconnect or Clear.'',
            ps_offset = offset, ps_more = (count \<ge> PAGE \<and> offset < 1000), ps_entries = entries\<rparr>)"

text \<open>The part of \<open>fetch\<close> that holds the directory.\<close>

definition fetch_page :: "(phone_contact list \<Rightarrow> u8 list + nat) \<Rightarrow> obex \<Rightarrow> u8 list \<Rightarrow> u8 list \<Rightarrow> u16 \<Rightarrow> page_snapshot fetch" where
  "fetch_page json ox target kind offset =
     (if \<not> utf8_valid target then now (Inl (str ''Invalid runtime path''))
      else
        thenF (await [PullAll target offset] (as_error ''Phonebook transfer rejected; approve sharing on the phone'' (ox_pull ox))) (\<lambda>path.
        thenF (await [] (ox_transfer ox)) (\<lambda>_.
        thenF (transfer_wait ox path 0) (\<lambda>_.
          now (bindr (ox_file ox) (\<lambda>bytes. page_of json kind offset (take (PAGE_BYTES + 1) bytes)))))))"

text \<open>\<open>Download::drop\<close>, on every way out of \<open>fetch\<close>, an interruption included.\<close>

definition download_drop :: "u8 list \<Rightarrow> u8 list \<Rightarrow> 'a fetch \<Rightarrow> 'a fetch" where
  "download_drop root target f s =
     (case f s of (s, r) \<Rightarrow> (s\<lparr>ft_calls := ft_calls s @ [RemoveFile target, RemoveDir root]\<rparr>, r))"

definition make_download :: "obex \<Rightarrow> u8 list fetch" where
  "make_download ox =
     thenF (now (ok_or (str ''Desktop runtime directory unavailable'') (ox_runtime ox))) (\<lambda>runtime.
     thenF (now (ox_random ox)) (\<lambda>random.
       let root = path_join runtime (str ''argo-phonebook-'' @ random) in
       thenF (now (ox_mkdir ox)) (\<lambda>_ s. (s\<lparr>ft_dir := Some root, ft_calls := ft_calls s @ [MakeDir root]\<rparr>, Ended (Inr root)))))"

definition fetch_phonebook ::
  "(phone_contact list \<Rightarrow> u8 list + nat) \<Rightarrow> obex \<Rightarrow> u8 list \<Rightarrow> u8 list \<Rightarrow> u8 list \<Rightarrow> u16 \<Rightarrow> page_snapshot fetch" where
  "fetch_phonebook json ox local remote kind offset =
     thenF (await [] (ox_client ox)) (\<lambda>_.
     thenF (await [CreateSession remote local]
         (as_error ''Phonebook connection unavailable; enable contact sharing for this paired device'' (ox_create ox))) (\<lambda>path.
     thenF (\<lambda>s. (s\<lparr>ft_session := Some path\<rparr>, Ended (Inr ()))) (\<lambda>_.
     thenF (await [] (ox_access ox)) (\<lambda>_.
     thenF (await [SelectBook (if kind = str ''contacts'' then str ''pb'' else str ''cch'')]
         (as_error ''Phone does not share this phonebook or call history'' (ox_select ox))) (\<lambda>_.
     thenF (make_download ox) (\<lambda>root.
       let target = path_join root (str ''phonebook.vcf'') in
       download_drop root target (fetch_page json ox target kind offset)))))))"

datatype interruption = ImportCancelled | ImportTimedOut

text \<open>\<open>import_on_bus\<close>, interrupted after \<open>left\<close> waits: the calls made and the outcome.\<close>

definition import_on_bus ::
  "(phone_contact list \<Rightarrow> u8 list + nat) \<Rightarrow> obex \<Rightarrow> u8 list \<Rightarrow> u8 list \<Rightarrow> u8 list \<Rightarrow> u16 \<Rightarrow> nat \<Rightarrow> interruption \<Rightarrow> fetching \<times> import_outcome" where
  "import_on_bus json ox local remote kind offset left why =
     (case fetch_phonebook json ox local remote kind offset \<lparr>wt_left = left, ft_session = None, ft_dir = None, ft_calls = []\<rparr> of
        (s, r) \<Rightarrow>
          let result = (case r of
                  Ended r \<Rightarrow> r
                | Cut \<Rightarrow> Inl (case why of
                      ImportCancelled \<Rightarrow> str ''Phonebook import cancelled''
                    | ImportTimedOut \<Rightarrow> str ''Phonebook request timed out; check sharing permission on the phone''));
              (s, cleanup) = (case ft_session s of
                  Some path \<Rightarrow> (s\<lparr>ft_calls := ft_calls s @ [RemoveSession path]\<rparr>,
                     if ox_remove ox then None else Some (str ''OBEX session removal was not confirmed; dedicated client disconnected''))
                | None \<Rightarrow> (s, None));
              s = s\<lparr>ft_calls := ft_calls s @ [CloseBus]\<rparr>;
              cleanup = (if ox_close ox then cleanup else Some (str ''OBEX owner cleanup was not confirmed'')) in
          (s, \<lparr>oc_result = result, oc_cleanup = cleanup\<rparr>))"

text \<open>The task of a job; \<open>bus\<close> tells whether the session bus answers in time.\<close>

definition import_task ::
  "bool \<Rightarrow> (phone_contact list \<Rightarrow> u8 list + nat) \<Rightarrow> obex \<Rightarrow> u8 list \<Rightarrow> u8 list \<Rightarrow> u8 list \<Rightarrow> u16 \<Rightarrow> nat \<Rightarrow> interruption \<Rightarrow> import_outcome" where
  "import_task bus json ox local remote kind offset left why =
     (if bus then snd (import_on_bus json ox local remote kind offset left why)
      else \<lparr>oc_result = Inl (str ''OBEX D-Bus unavailable''), oc_cleanup = None\<rparr>)"

section \<open>The book\<close>

record import_job =
  ij_local :: "u8 list"
  ij_remote :: "u8 list"
  ij_kind :: "u8 list"
  ij_offset :: u16
  ij_cancel :: bool

record book =
  bk_state :: page_snapshot
  bk_job :: "import_job option"
  bk_blocked :: bool

definition book_default :: book where
  "book_default = \<lparr>bk_state = page_default, bk_job = None, bk_blocked = False\<rparr>"

text \<open>What joining the worker gives: its outcome, or nothing when it panicked.\<close>

definition clear_outcome :: "import_outcome option \<Rightarrow> import_outcome" where
  "clear_outcome joined =
     (case joined of Some o' \<Rightarrow> o'
      | None \<Rightarrow> \<lparr>oc_result = Inl (str ''Phonebook worker failed''), oc_cleanup = Some (str ''Phonebook worker cleanup unconfirmed'')\<rparr>)"

text \<open>The part of \<open>clear\<close> before it waits for the worker; a caller that gives up leaves the book like this.\<close>

definition book_cancel :: "book \<Rightarrow> book" where
  "book_cancel b = b\<lparr>bk_state := page_default, bk_job := map_option (\<lambda>j. j\<lparr>ij_cancel := True\<rparr>) (bk_job b)\<rparr>"

definition book_clear :: "import_outcome option \<Rightarrow> book \<Rightarrow> book \<times> (u8 list + unit)" where
  "book_clear joined b =
     (let b = book_cancel b in
      case bk_job b of
        None \<Rightarrow> (b\<lparr>bk_state := page_default\<rparr>, Inr ())
      | Some _ \<Rightarrow>
          let b = b\<lparr>bk_job := None\<rparr> in
          case oc_cleanup (clear_outcome joined) of
            Some e \<Rightarrow> (b\<lparr>bk_blocked := True, bk_state := page_default\<lparr>ps_detail := e\<rparr>\<rparr>, Inl e)
          | None \<Rightarrow> (b\<lparr>bk_state := page_default\<rparr>, Inr ()))"

definition book_start ::
  "import_outcome option \<Rightarrow> u8 list \<Rightarrow> u8 list \<Rightarrow> u8 list \<Rightarrow> u16 \<Rightarrow> book \<Rightarrow> book \<times> (u8 list + unit)" where
  "book_start joined local remote kind offset b =
     (if bk_blocked b then (b, Inl (str ''Phonebook cleanup unconfirmed; restart daemon before another import''))
      else if kind \<notin> {str ''contacts'', str ''recent''} \<or> offset > 1000 then (b, Inl (str ''Invalid phonebook page''))
      else case book_clear joined b of
        (b, Inl e) \<Rightarrow> (b, Inl e)
      | (b, Inr _) \<Rightarrow>
          (b\<lparr>bk_state := page_default\<lparr>ps_busy := True, ps_kind := kind, ps_offset := offset,
                ps_detail := str ''Waiting for phone contact/call-history sharing permission''\<rparr>,
             bk_job := Some \<lparr>ij_local = local, ij_remote = remote, ij_kind = kind, ij_offset = offset, ij_cancel = False\<rparr>\<rparr>, Inr ()))"

text \<open>\<open>poll\<close>; \<open>finished\<close> is \<open>None\<close> while the worker runs.\<close>

definition book_poll :: "import_outcome option option \<Rightarrow> book \<Rightarrow> book" where
  "book_poll finished b =
     (case (bk_job b, finished) of
        (Some _, Some joined) \<Rightarrow>
          let b = b\<lparr>bk_job := None\<rparr>; failed = (\<lambda>e. (bk_state b)\<lparr>ps_entries := [], ps_detail := e\<rparr>);
              b = (case joined of
                 None \<Rightarrow> b\<lparr>bk_blocked := True, bk_state := failed (str ''Phonebook worker failed'')\<rparr>
               | Some o' \<Rightarrow>
                   (case oc_cleanup o' of
                      Some e \<Rightarrow> b\<lparr>bk_blocked := True, bk_state := failed e\<rparr>
                    | None \<Rightarrow> b\<lparr>bk_state := (case oc_result o' of Inr st \<Rightarrow> st | Inl e \<Rightarrow> failed e)\<rparr>)) in
          b\<lparr>bk_state := (bk_state b)\<lparr>ps_busy := False\<rparr>\<rparr>
      | _ \<Rightarrow> b)"

definition cleanup_uncertain :: "book \<Rightarrow> bool" where
  "cleanup_uncertain b = bk_blocked b"

section \<open>The worker cleans up\<close>

text \<open>A part of the worker that neither makes directories nor sessions.\<close>

definition neutral :: "obex_call \<Rightarrow> bool" where
  "neutral c \<longleftrightarrow> (case c of MakeDir _ \<Rightarrow> False | RemoveFile _ \<Rightarrow> False | RemoveDir _ \<Rightarrow> False | RemoveSession _ \<Rightarrow> False | CloseBus \<Rightarrow> False | _ \<Rightarrow> True)"

definition quiet :: "'a fetch \<Rightarrow> bool" where
  "quiet f \<longleftrightarrow> (\<forall>s s' r. f s = (s', r) \<longrightarrow>
     ft_session s' = ft_session s \<and> ft_dir s' = ft_dir s \<and> (\<exists>cs. ft_calls s' = ft_calls s @ cs \<and> list_all neutral cs))"

lemma quiet_now [simp]: "quiet (now r)"
  by (simp add: quiet_def now_def)

lemma quiet_await: "list_all neutral cs \<Longrightarrow> quiet (await cs r)"
  by (auto simp: quiet_def await_eq Let_def split: nat.splits)

lemma quiet_then:
  assumes "quiet f" "\<And>x. quiet (k x)"
  shows "quiet (thenF f k)"
  unfolding quiet_def
proof (intro allI impI)
  fix s s' r
  assume a: "thenF f k s = (s', r)"
  obtain s1 r1 where f: "f s = (s1, r1)" by (cases "f s")
  then have 1: "ft_session s1 = ft_session s \<and> ft_dir s1 = ft_dir s \<and> (\<exists>cs. ft_calls s1 = ft_calls s @ cs \<and> list_all neutral cs)"
    using assms(1) unfolding quiet_def by blast
  show "ft_session s' = ft_session s \<and> ft_dir s' = ft_dir s \<and> (\<exists>cs. ft_calls s' = ft_calls s @ cs \<and> list_all neutral cs)"
  proof (cases "\<exists>x. r1 = Ended (Inr x)")
    case True
    then obtain x where "k x s1 = (s', r)" using a f by (auto simp: thenF_def)
    then have "ft_session s' = ft_session s1 \<and> ft_dir s' = ft_dir s1 \<and> (\<exists>cs. ft_calls s' = ft_calls s1 @ cs \<and> list_all neutral cs)"
      using assms(2) unfolding quiet_def by blast
    with 1 show ?thesis by force
  next
    case False
    then have "s' = s1" using a f by (auto simp: thenF_def split: ended.splits sum.splits)
    with 1 show ?thesis by simp
  qed
qed

lemma quiet_size: "quiet (transfer_size ox path i)"
  by (auto simp: transfer_size_def neutral_def intro!: quiet_then quiet_await)

lemma quiet_look: "quiet (transfer_look ox path i)"
  unfolding transfer_look_def by (intro quiet_then quiet_size quiet_await) (auto simp: neutral_def intro!: quiet_await)

lemma quiet_wait_step:
  "transfer_wait ox path i s = (s', r) \<Longrightarrow>
     ft_session s' = ft_session s \<and> ft_dir s' = ft_dir s \<and> (\<exists>cs. ft_calls s' = ft_calls s @ cs \<and> list_all neutral cs)"
proof (induction ox path i s arbitrary: s' r rule: transfer_wait.induct)
  case (1 ox path i s)
  obtain s1 r1 where l: "transfer_look ox path i s = (s1, r1)" by (cases "transfer_look ox path i s")
  then have q: "ft_session s1 = ft_session s \<and> ft_dir s1 = ft_dir s \<and> (\<exists>cs. ft_calls s1 = ft_calls s @ cs \<and> list_all neutral cs)"
    using quiet_look unfolding quiet_def by blast
  show ?case
  proof (cases "r1 = Ended (Inr False)")
    case True
    then have "transfer_wait ox path (i + 1) s1 = (s', r)" using 1(2) l by (simp add: transfer_wait.simps [of ox path i s])
    from 1(1) [OF l [symmetric] True refl _ this] q show ?thesis by force
  next
    case False
    then have "s' = s1" using 1(2) l
      by (auto simp: transfer_wait.simps [of ox path i s] split: ended.splits sum.splits bool.splits)
    with q show ?thesis by simp
  qed
qed

lemma quiet_wait: "quiet (transfer_wait ox path i)"
  unfolding quiet_def using quiet_wait_step by blast

lemma quiet_page: "quiet (fetch_page json ox target kind offset)"
  unfolding fetch_page_def
  by (auto simp: neutral_def intro!: quiet_then quiet_await quiet_wait)

text \<open>The trace of a worker: a directory that was made is emptied and removed at the end.\<close>

definition directory_calls :: "u8 list option \<Rightarrow> obex_call list \<Rightarrow> bool" where
  "directory_calls dir cs \<longleftrightarrow>
     (case dir of
        None \<Rightarrow> list_all neutral cs
      | Some d \<Rightarrow> \<exists>pre mid. cs = pre @ [MakeDir d] @ mid @ [RemoveFile (path_join d (str ''phonebook.vcf'')), RemoveDir d]
          \<and> list_all neutral pre \<and> list_all neutral mid)"

definition shaped :: "'a fetch \<Rightarrow> bool" where
  "shaped f \<longleftrightarrow> (\<forall>s s' r. ft_dir s = None \<longrightarrow> f s = (s', r) \<longrightarrow> (\<exists>cs. ft_calls s' = ft_calls s @ cs \<and> directory_calls (ft_dir s') cs))"

text \<open>A step before the directory exists: it may set the session.\<close>

definition plain :: "'a fetch \<Rightarrow> bool" where
  "plain f \<longleftrightarrow> (\<forall>s s' r. f s = (s', r) \<longrightarrow> ft_dir s' = ft_dir s \<and> (\<exists>cs. ft_calls s' = ft_calls s @ cs \<and> list_all neutral cs))"

lemma quiet_plain: "quiet f \<Longrightarrow> plain f"
  unfolding quiet_def plain_def by blast

lemma directory_calls_append: "list_all neutral pre \<Longrightarrow> directory_calls dir cs \<Longrightarrow> directory_calls dir (pre @ cs)"
proof (cases dir)
  case (Some d)
  assume "list_all neutral pre" "directory_calls dir cs"
  then obtain p mid where "cs = p @ [MakeDir d] @ mid @ [RemoveFile (path_join d (str ''phonebook.vcf'')), RemoveDir d]"
    "list_all neutral p" "list_all neutral mid" "list_all neutral (pre @ p)"
    by (auto simp: directory_calls_def Some)
  then show ?thesis unfolding directory_calls_def Some by (intro option.case(2) [THEN iffD2] exI [of _ "pre @ p"] exI [of _ mid]) simp
qed (simp add: directory_calls_def)

lemma shaped_then:
  assumes "plain f" "\<And>x. shaped (k x)"
  shows "shaped (thenF f k)"
  unfolding shaped_def
proof (intro allI impI)
  fix s s' r
  assume d: "ft_dir s = None" and a: "thenF f k s = (s', r)"
  obtain s1 r1 where f: "f s = (s1, r1)" by (cases "f s")
  then obtain cs where 1: "ft_dir s1 = None" "ft_calls s1 = ft_calls s @ cs" "list_all neutral cs"
    using assms(1) d unfolding plain_def by metis
  show "\<exists>cs. ft_calls s' = ft_calls s @ cs \<and> directory_calls (ft_dir s') cs"
  proof (cases "\<exists>x. r1 = Ended (Inr x)")
    case True
    then obtain x where "k x s1 = (s', r)" using a f by (auto simp: thenF_def)
    then obtain cs' where "ft_calls s' = ft_calls s1 @ cs'" "directory_calls (ft_dir s') cs'"
      using assms(2) 1(1) unfolding shaped_def by blast
    with 1 show ?thesis using directory_calls_append by (intro exI [of _ "cs @ cs'"]) simp
  next
    case False
    then have "s' = s1" using a f by (auto simp: thenF_def split: ended.splits sum.splits)
    with 1 show ?thesis by (simp add: directory_calls_def)
  qed
qed

lemma shaped_download:
  "shaped (thenF (make_download ox) (\<lambda>root. let target = path_join root (str ''phonebook.vcf'') in
     download_drop root target (fetch_page json ox target kind offset)))"
  unfolding shaped_def
proof (intro allI impI)
  fix s s' r
  assume d: "ft_dir s = None" and a: "thenF (make_download ox) (\<lambda>root. let target = path_join root (str ''phonebook.vcf'') in
     download_drop root target (fetch_page json ox target kind offset)) s = (s', r)"
  obtain s1 r1 where m: "make_download ox s = (s1, r1)" by (cases "make_download ox s")
  show "\<exists>cs. ft_calls s' = ft_calls s @ cs \<and> directory_calls (ft_dir s') cs"
  proof (cases "\<exists>x. r1 = Ended (Inr x)")
    case True
    then obtain root where root: "r1 = Ended (Inr root)" by blast
    then have 1: "ft_dir s1 = Some root" "ft_calls s1 = ft_calls s @ [MakeDir root]"
      using m by (auto simp: make_download_def thenF_Ended now_def Let_def)
    let ?t = "path_join root (str ''phonebook.vcf'')"
    obtain s2 r2 where g: "fetch_page json ox ?t kind offset s1 = (s2, r2)" by (cases "fetch_page json ox ?t kind offset s1")
    then obtain mid where 2: "ft_dir s2 = Some root" "ft_calls s2 = ft_calls s1 @ mid" "list_all neutral mid"
      using quiet_page 1(1) unfolding quiet_def by metis
    have "s' = s2\<lparr>ft_calls := ft_calls s2 @ [RemoveFile ?t, RemoveDir root]\<rparr>"
      using a m root g by (simp add: thenF_def download_drop_def Let_def)
    then show ?thesis using 1 2
      by (intro exI [of _ "[] @ [MakeDir root] @ mid @ [RemoveFile ?t, RemoveDir root]"])
        (simp add: directory_calls_def, intro exI [of _ "[]"] exI [of _ mid], simp)
  next
    case False
    then have "s' = s1" using a m by (auto simp: thenF_def split: ended.splits sum.splits)
    moreover have "s1 = s" using m False
      by (auto simp: make_download_def thenF_def now_def Let_def split: sum.splits)
    ultimately show ?thesis using d by (simp add: directory_calls_def)
  qed
qed

lemma shaped_fetch: "shaped (fetch_phonebook json ox local remote kind offset)"
proof -
  have w: "plain (await cs reply)" if "list_all neutral cs" for cs and reply :: "u8 list + 'x" using that quiet_await quiet_plain by blast
  have s: "plain (\<lambda>s. (s\<lparr>ft_session := Some path\<rparr>, Ended (Inr ())))" for path by (simp add: plain_def)
  show ?thesis unfolding fetch_phonebook_def
    by (rule shaped_then, rule w, simp, rule shaped_then, rule w, simp add: neutral_def, rule shaped_then, rule s,
        rule shaped_then, rule w, simp, rule shaped_then, rule w, simp add: neutral_def, rule shaped_download)
qed

lemma fetch_page_of:
  "fetch_page json ox target kind offset s = (s', Ended (Inr page)) \<Longrightarrow> \<exists>bytes. page_of json kind offset bytes = Inr page"
  by (auto simp: fetch_page_def thenF_Ended now_def split: if_splits)

lemma download_result:
  "download_drop root target f s = (s', Ended (Inr x)) \<longleftrightarrow>
     (\<exists>s1. f s = (s1, Ended (Inr x)) \<and> s' = s1\<lparr>ft_calls := ft_calls s1 @ [RemoveFile target, RemoveDir root]\<rparr>)"
  by (cases "f s") (auto simp: download_drop_def)

lemma fetch_result:
  "fetch_phonebook json ox local remote kind offset s = (s', Ended (Inr page)) \<Longrightarrow> \<exists>bytes. page_of json kind offset bytes = Inr page"
  by (auto simp: fetch_phonebook_def thenF_Ended download_result Let_def dest!: fetch_page_of)

lemma page_sound: "page_of json kind offset bytes = Inr page \<Longrightarrow> \<not> ps_busy page \<and> length (ps_entries page) \<le> PAGE \<and> list_all contact_ok (ps_entries page)"
  by (auto simp: page_of_def reader_ok_def list_all_iff dest!: parse_reader)

text \<open>C19. A phone book worker leaves nothing behind: whatever the daemons answer and whenever it is cancelled or timed out,
  the directory it made is emptied and removed, then the session it was given is closed, then the bus; its cleanup counts as
  confirmed only if both were; and a page it returns has passed the bounds of the reader.\<close>

theorem phonebook_worker_cleans:
  assumes "import_on_bus json ox local remote kind offset left why = (s, out)"
  shows "(\<exists>cs. ft_calls s = cs @ (case ft_session s of None \<Rightarrow> [] | Some path \<Rightarrow> [RemoveSession path]) @ [CloseBus]
        \<and> directory_calls (ft_dir s) cs)
    \<and> (oc_cleanup out = None) = (ox_close ox \<and> (ft_session s = None \<or> ox_remove ox))
    \<and> (\<forall>page. oc_result out = Inr page \<longrightarrow> \<not> ps_busy page \<and> length (ps_entries page) \<le> 40 \<and> list_all contact_ok (ps_entries page))"
proof -
  let ?s0 = "\<lparr>wt_left = left, ft_session = None, ft_dir = None, ft_calls = []\<rparr>"
  obtain s1 r where f: "fetch_phonebook json ox local remote kind offset ?s0 = (s1, r)"
    by (cases "fetch_phonebook json ox local remote kind offset ?s0")
  obtain cs where cs: "ft_calls s1 = cs" "directory_calls (ft_dir s1) cs"
    using shaped_fetch [unfolded shaped_def, rule_format, of ?s0, OF _ f] by auto
  have i: "import_on_bus json ox local remote kind offset left why
     = (s1\<lparr>ft_calls := cs @ (case ft_session s1 of None \<Rightarrow> [] | Some path \<Rightarrow> [RemoveSession path]) @ [CloseBus]\<rparr>,
        \<lparr>oc_result = (case r of Ended r \<Rightarrow> r | Cut \<Rightarrow> Inl (case why of ImportCancelled \<Rightarrow> str ''Phonebook import cancelled''
             | ImportTimedOut \<Rightarrow> str ''Phonebook request timed out; check sharing permission on the phone'')),
         oc_cleanup = (if ox_close ox then if ft_session s1 = None \<or> ox_remove ox then None
             else Some (str ''OBEX session removal was not confirmed; dedicated client disconnected'')
           else Some (str ''OBEX owner cleanup was not confirmed''))\<rparr>)"
    using f cs(1) by (cases "ft_session s1") (simp_all add: import_on_bus_def)
  then have s: "s = s1\<lparr>ft_calls := cs @ (case ft_session s1 of None \<Rightarrow> [] | Some path \<Rightarrow> [RemoveSession path]) @ [CloseBus]\<rparr>"
    "(oc_cleanup out = None) = (ox_close ox \<and> (ft_session s1 = None \<or> ox_remove ox))"
    using assms by auto
  have "oc_result out = Inr page \<Longrightarrow> r = Ended (Inr page)" for page
    using assms unfolding i by (cases r) auto
  then have "oc_result out = Inr page \<Longrightarrow> \<not> ps_busy page \<and> length (ps_entries page) \<le> PAGE \<and> list_all contact_ok (ps_entries page)" for page
    using f fetch_result page_sound by blast
  with s cs(2) show ?thesis by (auto simp: PAGE_def)
qed

text \<open>An import in which every wait is answered.\<close>

definition example_obex :: obex where
  "example_obex = \<lparr>ox_client = Inr (), ox_create = Inr (str ''/session0''), ox_access = Inr (), ox_select = Inr (), ox_runtime = Some (str ''/run''),
     ox_random = Inr (str ''00''), ox_mkdir = Inr (), ox_pull = Inr (str ''/transfer0''), ox_transfer = Inr (),
     ox_turn = (\<lambda>i. (None, Inr 64, Inr (str ''complete''))), ox_file = Inr (card_text [example_contact]), ox_remove = True, ox_close = True\<rparr>"

lemma example_transfer: "transfer_wait example_obex path 0 s = (if wt_left s < 2 then transfer_wait example_obex path 0 s
    else (s\<lparr>wt_left := wt_left s - 2, ft_calls := ft_calls s @ [GetSize path, GetStatus path]\<rparr>, Ended (Inr ())))"
proof (cases "wt_left s < 2")
  case False
  then obtain n where n: "wt_left s = Suc (Suc n)" by (metis add_2_eq_Suc le_Suc_ex not_less)
  show ?thesis
    by (subst transfer_wait.simps)
      (simp add: n transfer_look_def transfer_size_def example_obex_def thenF_def await_eq now_def PAGE_BYTES_def)
qed simp

lemma example_page: "page_of (\<lambda>es. Inr (100 * length es)) kind offset (take (PAGE_BYTES + 1) (card_text [example_contact]))
    = Inr \<lparr>ps_busy = False, ps_kind = kind, ps_detail = decimal 1 @ str '' entries on this page; phone-provided order. Cached until disconnect or Clear.'',
        ps_offset = offset, ps_more = False, ps_entries = [example_contact]\<rparr>"
  using example_size example_card by (simp add: page_of_def PAGE_def)

lemma example_import:
  "snd (import_on_bus (\<lambda>es. Inr (100 * length es)) example_obex [65] [66] (str ''contacts'') 0
     (Suc (Suc (Suc (Suc (Suc (Suc (Suc (Suc 0)))))))) ImportCancelled)
   = \<lparr>oc_result = page_of (\<lambda>es. Inr (100 * length es)) (str ''contacts'') 0 (take (PAGE_BYTES + 1) (card_text [example_contact])), oc_cleanup = None\<rparr>"
proof -
  have u: "utf8_valid (path_join (path_join (str ''/run'') (str ''argo-phonebook-'' @ str ''00'')) (str ''phonebook.vcf''))"
    by (rule utf8_ascii) (simp add: path_join_def str_def)
  have e: "ox_client example_obex = Inr ()" "ox_create example_obex = Inr (str ''/session0'')" "ox_access example_obex = Inr ()"
    "ox_select example_obex = Inr ()" "ox_runtime example_obex = Some (str ''/run'')" "ox_random example_obex = Inr (str ''00'')"
    "ox_mkdir example_obex = Inr ()" "ox_pull example_obex = Inr (str ''/transfer0'')" "ox_transfer example_obex = Inr ()"
    "ox_file example_obex = Inr (card_text [example_contact])" "ox_remove example_obex" "ox_close example_obex"
    by (simp_all add: example_obex_def)
  show ?thesis
    by (simp add: import_on_bus_def fetch_phonebook_def thenF_def await_eq now_def as_error_def make_download_def Let_def
        download_drop_def fetch_page_def u e example_transfer del: One_nat_def)
qed

theorem phonebook_worker_cleans_witness:
  "\<exists>s out. import_on_bus (\<lambda>es. Inr (100 * length es)) example_obex [65] [66] (str ''contacts'') 0
       (Suc (Suc (Suc (Suc (Suc (Suc (Suc (Suc 0)))))))) ImportCancelled = (s, out)
     \<and> is_ok (oc_result out) \<and> (\<forall>page. oc_result out = Inr page \<longrightarrow> list_all contact_ok (ps_entries page))"
proof -
  obtain s out where i: "import_on_bus (\<lambda>es. Inr (100 * length es)) example_obex [65] [66] (str ''contacts'') 0
       (Suc (Suc (Suc (Suc (Suc (Suc (Suc (Suc 0)))))))) ImportCancelled = (s, out)" by (metis surj_pair)
  have "is_ok (oc_result out)" using example_import unfolding i by (simp only: snd_conv example_page) simp
  then show ?thesis using i phonebook_worker_cleans [OF i] by blast
qed

section \<open>The book stays within its one worker\<close>

datatype book_event =
    ClearBook "import_outcome option"
  | ClearDropped
  | StartImport "import_outcome option" "u8 list" "u8 list" "u8 list" u16
  | PollBook "import_outcome option option"

fun book_step :: "book \<Rightarrow> book_event \<Rightarrow> book \<times> (u8 list + unit)" where
  "book_step b (ClearBook joined) = book_clear joined b"
| "book_step b ClearDropped = (book_cancel b, Inr ())"
| "book_step b (StartImport joined local remote kind offset) = book_start joined local remote kind offset b"
| "book_step b (PollBook finished) = (book_poll finished b, Inr ())"

definition book_inv :: "book \<Rightarrow> bool" where
  "book_inv b \<longleftrightarrow> (ps_busy (bk_state b) \<longrightarrow> bk_job b \<noteq> None) \<and> (bk_blocked b \<longrightarrow> bk_job b = None \<and> ps_entries (bk_state b) = [])"

lemma book_cancel_fields: "bk_blocked (book_cancel b) = bk_blocked b" "(bk_job (book_cancel b) = None) = (bk_job b = None)"
  "bk_state (book_cancel b) = page_default"
  by (simp_all add: book_cancel_def)

lemma book_clear_inv: "book_inv b \<Longrightarrow> book_inv (fst (book_clear joined b)) \<and> bk_job (fst (book_clear joined b)) = None
    \<and> (is_ok (snd (book_clear joined b)) \<longrightarrow> bk_blocked (fst (book_clear joined b)) = bk_blocked b)
    \<and> (bk_blocked b \<longrightarrow> bk_blocked (fst (book_clear joined b)))"
  by (auto simp: book_clear_def book_inv_def book_cancel_def page_default_def Let_def split: option.splits)

lemma book_step_inv: "book_inv b \<Longrightarrow> book_inv (fst (book_step b e))"
proof (cases e)
  case (ClearBook joined)
  assume "book_inv b"
  then show ?thesis using book_clear_inv [of b joined] by (simp add: ClearBook)
next
  case (StartImport joined l r k off)
  assume i: "book_inv b"
  obtain b1 r1 where c: "book_clear joined b = (b1, r1)" by (cases "book_clear joined b")
  show ?thesis using i book_clear_inv [OF i, of joined] c
    by (cases r1) (auto simp: StartImport book_start_def book_inv_def page_default_def)
next
  case (PollBook finished)
  assume "book_inv b"
  then show ?thesis by (auto simp: PollBook book_poll_def book_inv_def Let_def split: option.splits sum.splits)
qed (simp add: book_inv_def book_cancel_def page_default_def)

lemma book_step_blocked: "book_inv b \<Longrightarrow> bk_blocked b \<Longrightarrow> bk_blocked (fst (book_step b e))"
  using book_clear_inv [of b]
  by (cases e) (auto simp: book_start_def book_poll_def book_inv_def book_cancel_def Let_def split: option.splits)

interpretation book_machine: absorbing_machine book_step book_inv bk_blocked
  by unfold_locales (simp_all add: book_step_inv book_step_blocked)

text \<open>C21. A book never runs two imports, and stops for good when a cleanup was not confirmed: from then on, whatever is
  requested and whatever workers report, it stays blocked, owns no worker, shows no contacts and refuses every import.\<close>

theorem phonebook_blocked_final:
  assumes "run_machine book_step book_default es = (b, outs)" and "cleanup_uncertain b"
    and "run_machine book_step b fs = (b', outs')"
  shows "cleanup_uncertain b' \<and> bk_job b' = None \<and> ps_entries (bk_state b') = [] \<and> \<not> ps_busy (bk_state b')
    \<and> \<not> is_ok (snd (book_start joined local remote kind offset b'))"
proof -
  have "book_inv book_default" by (simp add: book_inv_def book_default_def page_default_def)
  then have b: "book_inv b" using book_machine.inv_run [of book_default es] assms(1) by simp
  then have "book_inv b'" "bk_blocked b'"
    using book_machine.inv_run [of b fs] book_machine.dead_run [of b fs] assms(2,3) by (simp_all add: cleanup_uncertain_def)
  then show ?thesis by (auto simp: book_inv_def cleanup_uncertain_def book_start_def)
qed

theorem phonebook_blocked_final_witness:
  "\<exists>b outs. run_machine book_step book_default
      [StartImport None [65] [66] (str ''recent'') 0, PollBook (Some None)] = (b, outs) \<and> cleanup_uncertain b
     \<and> \<not> is_ok (snd (book_start None [65] [66] (str ''recent'') 0 b))"
proof -
  obtain b outs where r: "run_machine book_step book_default [StartImport None [65] [66] (str ''recent'') 0, PollBook (Some None)] = (b, outs)"
    by (metis surj_pair)
  then have "cleanup_uncertain b"
    by (auto simp: cleanup_uncertain_def book_start_def book_clear_def book_cancel_def book_default_def book_poll_def Let_def)
  with r phonebook_blocked_final [OF r, of "[]"] show ?thesis by auto
qed

text \<open>What a request for a page or for clearing does to the contacts shown, and where contacts come from.\<close>

fun replaces :: "book_event \<Rightarrow> bool" where
  "replaces (ClearBook joined) = True"
| "replaces ClearDropped = True"
| "replaces (StartImport joined local remote kind offset) = (kind \<in> {str ''contacts'', str ''recent''} \<and> offset \<le> 1000)"
| "replaces (PollBook finished) = False"

definition delivers :: "book \<Rightarrow> book_event \<Rightarrow> phone_contact list \<Rightarrow> bool" where
  "delivers b e entries \<longleftrightarrow> (\<exists>out page. e = PollBook (Some (Some out)) \<and> oc_result out = Inr page \<and> oc_cleanup out = None
      \<and> ps_entries page = entries \<and> bk_job b \<noteq> None)"

lemma book_clear_entries: "ps_entries (bk_state (fst (book_clear joined b))) = []"
  by (auto simp: book_clear_def book_cancel_def page_default_def Let_def split: option.splits)

lemma shown_step:
  assumes "book_inv b" "ps_entries (bk_state (fst (book_step b e))) \<noteq> []"
  shows "(ps_entries (bk_state (fst (book_step b e))) = ps_entries (bk_state b) \<and> \<not> replaces e)
    \<or> delivers b e (ps_entries (bk_state (fst (book_step b e))))"
proof (cases e)
  case (ClearBook joined)
  then show ?thesis using assms(2) book_clear_entries [of joined b] by simp
next
  case ClearDropped
  then show ?thesis using assms(2) by (simp add: book_cancel_def page_default_def)
next
  case (StartImport joined l r k off)
  obtain b1 r1 where c: "book_clear joined b = (b1, r1)" by (cases "book_clear joined b")
  then have "ps_entries (bk_state b1) = []" using book_clear_entries [of joined b] by simp
  then show ?thesis using assms c
    by (cases r1) (auto simp: StartImport book_start_def book_inv_def page_default_def not_less split: if_splits)
next
  case (PollBook finished)
  then show ?thesis using assms(2)
    by (auto simp: book_poll_def delivers_def Let_def split: option.splits sum.splits)
qed

text \<open>C35. Contacts on display were delivered by the worker of the book, whose cleanup was confirmed, and nothing has been
  requested or cleared since: clearing takes them away at once, also when its caller gives up waiting.\<close>

theorem phonebook_shown:
  assumes "ps_entries (bk_state (fst (run_machine book_step book_default es))) \<noteq> []"
  shows "\<exists>xs e ys. es = xs @ e # ys \<and> \<not> list_ex replaces ys
    \<and> delivers (fst (run_machine book_step book_default xs)) e (ps_entries (bk_state (fst (run_machine book_step book_default es))))"
  using assms
proof (induction es rule: rev_induct)
  case Nil
  then show ?case by (simp add: book_default_def page_default_def)
next
  case (snoc e es)
  let ?b = "fst (run_machine book_step book_default es)"
  have "book_inv book_default" by (simp add: book_inv_def book_default_def page_default_def)
  then have i: "book_inv ?b" by (rule book_machine.inv_run)
  have r: "fst (run_machine book_step book_default (es @ [e])) = fst (book_step ?b e)"
    by (simp add: run_machine_append run_machine_Cons del: run_machine.simps(2))
  consider (kept) "ps_entries (bk_state (fst (book_step ?b e))) = ps_entries (bk_state ?b)" "\<not> replaces e"
    | (new) "delivers ?b e (ps_entries (bk_state (fst (book_step ?b e))))"
    using shown_step [OF i] snoc.prems unfolding r by blast
  then show ?case
  proof cases
    case kept
    then obtain xs d ys where "es = xs @ d # ys" "\<not> list_ex replaces ys"
      "delivers (fst (run_machine book_step book_default xs)) d (ps_entries (bk_state ?b))"
      using snoc.IH snoc.prems unfolding r by auto
    with kept show ?thesis unfolding r by (intro exI [of _ xs] exI [of _ d] exI [of _ "ys @ [e]"]) simp
  next
    case new
    then show ?thesis unfolding r by (intro exI [of _ es] exI [of _ e] exI [of _ "[]"]) simp
  qed
qed

definition example_outcome :: import_outcome where
  "example_outcome = \<lparr>oc_result = Inr \<lparr>ps_busy = False, ps_kind = str ''contacts'', ps_detail = [], ps_offset = 0, ps_more = False,
     ps_entries = [example_contact]\<rparr>, oc_cleanup = None\<rparr>"

theorem phonebook_shown_witness:
  "\<exists>xs e ys. [StartImport None [65] [66] (str ''contacts'') 0, PollBook (Some (Some example_outcome))] = xs @ e # ys
     \<and> delivers (fst (run_machine book_step book_default xs)) e [example_contact]"
proof -
  let ?es = "[StartImport None [65] [66] (str ''contacts'') 0, PollBook (Some (Some example_outcome))]"
  have "ps_entries (bk_state (fst (run_machine book_step book_default ?es))) = [example_contact]"
    by (simp add: book_start_def book_clear_def book_cancel_def book_default_def book_poll_def example_outcome_def Let_def)
  then show ?thesis using phonebook_shown [of ?es] by force
qed

end
