(* ===== verification/Network_Rules.thy ===== *)
theory Network_Rules
  imports Vcard
begin

unbundle bit_operations_syntax

text \<open>
  The decisions about the projection network of \<open>native/projection/argo-projectiond/src/connectivity/network.rs\<close> that
  need no D-Bus: the band and its frequencies, the choice of a channel from the output of \<open>iw\<close>, the credentials, the
  overlap with the routes of the host, and the DHCP server of the access point. Parsing of floating-point numbers is the
  parameter \<open>mhz\<close>: the text reads as this whole number.
\<close>

section \<open>Words\<close>

text \<open>\<open>str::split_whitespace\<close>.\<close>

definition at_space :: "u8 list \<Rightarrow> bool" where
  "at_space bs \<longleftrightarrow> (\<exists>w \<in> set white_space. take (length w) bs = w)"

fun word_length :: "u8 list \<Rightarrow> nat" where
  "word_length [] = 0"
| "word_length (b # bs) = (if at_space (b # bs) then 0 else Suc (word_length bs))"

function split_space :: "u8 list \<Rightarrow> u8 list list" where
  "split_space text =
     (let s = strip_front white_space text in
      if s = [] \<or> at_space s then [] else take (word_length s) s # split_space (drop (word_length s) s))"
  by pat_completeness auto
termination
proof (relation "measure length")
  fix t s :: "u8 list"
  assume a: "s = strip_front white_space t" "\<not> (s = [] \<or> at_space s)"
  obtain p where "t = p @ s" using strip_front_suffix [of t white_space] a(1) by blast
  then have "length s \<le> length t" by simp
  moreover have "0 < word_length s" "0 < length s" using a(2) by (cases s; auto)+
  ultimately show "(drop (word_length s) s, t) \<in> measure length" by (simp only: in_measure length_drop)
qed simp

declare split_space.simps [simp del]

text \<open>\<open>u32::from_str_radix (_, 16)\<close>: an optional plus sign, at least one digit, no overflow.\<close>

definition hex_value :: "u8 \<Rightarrow> nat option" where
  "hex_value b =
     (if 0x30 \<le> b \<and> b \<le> 0x39 then Some (unat b - 0x30)
      else if 0x61 \<le> b \<and> b \<le> 0x66 then Some (unat b - 0x57)
      else if 0x41 \<le> b \<and> b \<le> 0x46 then Some (unat b - 0x37)
      else None)"

fun hex_loop :: "nat \<Rightarrow> u8 list \<Rightarrow> nat option" where
  "hex_loop v [] = Some v"
| "hex_loop v (b # bs) = Option.bind (hex_value b) (\<lambda>d. if v * 16 + d \<ge> 2 ^ 32 then None else hex_loop (v * 16 + d) bs)"

definition hex_u32 :: "u8 list \<Rightarrow> u32 option" where
  "hex_u32 s =
     (let digits = (if take 1 s = [0x2b] \<and> length s > 1 then tl s else s) in
      if digits = [] then None else map_option of_nat (hex_loop 0 digits))"

text \<open>\<open>Ipv4Addr::from_str\<close>: four decimal octets without leading zeros.\<close>

definition octet :: "u8 list \<Rightarrow> u8 option" where
  "octet s =
     (let v = foldl (\<lambda>v b. v * 10 + (unat b - 0x30)) 0 s in
      if s = [] \<or> length s > 3 \<or> \<not> list_all is_digit s \<or> (length s > 1 \<and> hd s = 0x30) \<or> v > 255 then None else Some (of_nat v))"

function split_at :: "u8 \<Rightarrow> u8 list \<Rightarrow> u8 list list" where
  "split_at c s = (case split_once c s of None \<Rightarrow> [s] | Some (a, rest) \<Rightarrow> a # split_at c rest)"
  by pat_completeness auto
termination
proof (relation "measure (\<lambda>(c, s). length s)")
  fix c :: u8 and s rest a and q :: "u8 list \<times> u8 list"
  assume "split_once c s = Some q" "(a, rest) = q"
  then have "dropWhile (\<lambda>b. b \<noteq> c) s = c # rest \<or> (\<exists>d. dropWhile (\<lambda>b. b \<noteq> c) s = d # rest)"
    by (auto simp: split_once_def split: list.splits)
  then have "length (dropWhile (\<lambda>b. b \<noteq> c) s) = Suc (length rest)" by auto
  then have "length rest < length s" using length_dropWhile_le [of "\<lambda>b. b \<noteq> c" s] by simp
  then show "((c, rest), c, s) \<in> measure (\<lambda>(c, s). length s)" by simp
qed simp

declare split_at.simps [simp del]

definition parse_ipv4 :: "u8 list \<Rightarrow> ip_addr option" where
  "parse_ipv4 s =
     (case map octet (split_at 0x2e s) of
        [Some a, Some b, Some c, Some d] \<Rightarrow> Some (V4 a b c d)
      | _ \<Rightarrow> None)"

section \<open>Bands and channels\<close>

datatype ap_band = Ghz2 | Ghz5

definition band_parse :: "u8 list \<Rightarrow> u8 list + ap_band" where
  "band_parse v =
     (if v = str ''2.4ghz'' then Inr Ghz2 else if v = str ''5ghz'' then Inr Ghz5 else Inl (str ''AP band must be 2.4ghz or 5ghz''))"

definition band_label :: "ap_band \<Rightarrow> u8 list" where
  "band_label b = (case b of Ghz2 \<Rightarrow> str ''2.4 GHz'' | Ghz5 \<Rightarrow> str ''5 GHz'')"

definition nm_band :: "ap_band \<Rightarrow> u8 list" where
  "nm_band b = (case b of Ghz2 \<Rightarrow> str ''bg'' | Ghz5 \<Rightarrow> str ''a'')"

definition band_frequency :: "ap_band \<Rightarrow> u16 \<Rightarrow> u32" where
  "band_frequency b channel = (case b of Ghz2 \<Rightarrow> 2407 + ucast channel * 5 | Ghz5 \<Rightarrow> 5000 + ucast channel * 5)"

definition channel_candidates :: "ap_band \<Rightarrow> u16 list" where
  "channel_candidates b = (case b of Ghz2 \<Rightarrow> [1, 6, 11, 2, 3, 4, 5, 7, 8, 9, 10, 12, 13] | Ghz5 \<Rightarrow> [149, 153, 157, 161, 165])"

definition ascii_lower :: "u8 list \<Rightarrow> u8 list" where
  "ascii_lower = map (\<lambda>b. if 0x41 \<le> b \<and> b \<le> 0x5a then b + 0x20 else b)"

definition restrictions :: "string list" where
  "restrictions = [''disabled'', ''no ir'', ''radar'', ''indoor'', ''no 20mhz'']"

definition channel_line :: "(u8 list \<Rightarrow> u32 \<Rightarrow> bool) \<Rightarrow> ap_band \<Rightarrow> u16 \<Rightarrow> u8 list \<Rightarrow> bool" where
  "channel_line mhz band channel line \<longleftrightarrow>
     (let fields = split_space line in
      get_at fields 0 = Some (str ''*'')
        \<and> (case get_at fields 1 of Some v \<Rightarrow> mhz v (band_frequency band channel) | None \<Rightarrow> False)
        \<and> get_at fields 2 = Some (str ''MHz'')
        \<and> get_at fields 3 = Some (str ''['' @ decimal (unat channel) @ str '']'')
        \<and> sublist (str ''dBm'') line
        \<and> \<not> list_ex (\<lambda>r. sublist (str r) (ascii_lower line)) restrictions)"

definition choose_channel :: "(u8 list \<Rightarrow> u32 \<Rightarrow> bool) \<Rightarrow> u8 list \<Rightarrow> ap_band \<Rightarrow> u8 list + u16" where
  "choose_channel mhz info band =
     (case find (\<lambda>channel. list_ex (channel_line mhz band channel) (split_lines info)) (channel_candidates band) of
        Some channel \<Rightarrow> Inr channel
      | None \<Rightarrow> Inl (str ''No proven permitted non-DFS '' @ band_label band
          @ str '' AP channel. Regulatory settings were not changed; select another AP band if permitted.''))"

section \<open>Credentials and routes\<close>

definition starts_str :: "u8 list \<Rightarrow> u8 list \<Rightarrow> bool" where
  "starts_str p s \<longleftrightarrow> take (length p) s = p"

definition validate_credentials :: "u8 list \<Rightarrow> u8 list \<Rightarrow> u8 \<times> u8 \<times> u8 \<times> u8 \<Rightarrow> u8 list + unit" where
  "validate_credentials ssid password octets =
     (case octets of (a, b, c, d) \<Rightarrow>
        if \<not> starts_str (str ''Argo Projection '') ssid \<or> length ssid > 32
           \<or> \<not> (8 \<le> length password \<and> length password \<le> 63) \<or> list_ex (\<lambda>b. b \<ge> 0x80) password
           \<or> list_ex (\<lambda>b. b < 0x20 \<or> b = 0x7f) password \<or> (a, b) \<noteq> (10, 77) \<or> d \<noteq> 1
        then Inl (str ''Invalid owned projection credential template'') else Inr ())"

definition upper_hex2 :: "u8 \<Rightarrow> u8 list" where
  "upper_hex2 b = ascii_upper (hex2 b)"

text \<open>New credentials from 24 random bytes.\<close>

definition fresh_credentials :: "u8 list \<Rightarrow> u8 list \<times> u8 list \<times> (u8 \<times> u8 \<times> u8 \<times> u8)" where
  "fresh_credentials random =
     (str ''Argo Projection '' @ upper_hex2 (random ! 1) @ upper_hex2 (random ! 2), hex_string (drop 3 random), (10, 77, random ! 0, 1))"

text \<open>\<open>/proc/net/route\<close> holds addresses as little-endian words; \<open>word\<close> is \<open>u32::from_le_bytes\<close>.\<close>

definition le_word :: "u8 \<times> u8 \<times> u8 \<times> u8 \<Rightarrow> u32" where
  "le_word octets = (case octets of (a, b, c, d) \<Rightarrow> from_be32 d c b a)"

definition route_overlaps :: "u32 \<Rightarrow> u8 list \<Rightarrow> bool" where
  "route_overlaps subnet line =
     (let f = split_space line in
      length f > 7 \<and>
      (case (hex_u32 (f ! 1), hex_u32 (f ! 7)) of
         (Some dest, Some mask') \<Rightarrow> mask' \<noteq> 0 \<and> subnet AND mask' = dest AND mask'
       | _ \<Rightarrow> False))"

definition subnet_free :: "u8 list \<Rightarrow> u8 \<times> u8 \<times> u8 \<times> u8 \<Rightarrow> u8 list + unit" where
  "subnet_free routes octets =
     (if list_ex (route_overlaps (le_word octets)) (drop 1 (split_lines routes))
      then Inl (str ''Projection subnet overlaps a host route; remove the inactive owned credential profile before retrying'')
      else Inr ())"

section \<open>The DHCP server\<close>

definition ends_str :: "u8 list \<Rightarrow> u8 list \<Rightarrow> bool" where
  "ends_str p s \<longleftrightarrow> length p \<le> length s \<and> drop (length s - length p) s = p"

text \<open>One process: its name in \<open>/proc\<close> and its command line, if it can be read.\<close>

definition dnsmasq_for :: "u8 \<times> u8 \<times> u8 \<times> u8 \<Rightarrow> u8 list \<times> u8 list option \<Rightarrow> bool" where
  "dnsmasq_for octets = (\<lambda>(name, cmdline).
     case octets of (a, b, c, d) \<Rightarrow>
       let listen = str ''--listen-address='' @ v4_text a b c d;
           range = str ''--dhcp-range='' @ decimal (unat a) @ str ''.'' @ decimal (unat b) @ str ''.'' @ decimal (unat c) @ str ''.'' in
       list_all is_digit name \<and>
       (case cmdline of
          None \<Rightarrow> False
        | Some bytes \<Rightarrow>
            let args = split_at 0 (take 8192 bytes) in
            ends_str (str ''/dnsmasq'') (hd args) \<and> listen \<in> set args \<and> list_ex (starts_str range) args))"

definition dhcp_for_address :: "(u8 list \<times> u8 list option) list option \<Rightarrow> u8 \<times> u8 \<times> u8 \<times> u8 \<Rightarrow> bool" where
  "dhcp_for_address processes octets = (case processes of None \<Rightarrow> False | Some ps \<Rightarrow> list_ex (dnsmasq_for octets) (take 4096 ps))"

definition dhcp_socket :: "u8 list option \<Rightarrow> bool" where
  "dhcp_socket udp =
     list_ex (\<lambda>line. case get_at (split_space line) 1 of None \<Rightarrow> False | Some v \<Rightarrow> ends_str (str '':0043'') v)
       (split_lines (case udp of None \<Rightarrow> [] | Some t \<Rightarrow> t))"

section \<open>Facts\<close>

lemma ascii_hex: "b \<in> set (hex2 a) \<Longrightarrow> 0x30 \<le> b \<and> b \<le> 0x66"
proof -
  have "unat a div 16 < 16" "unat a mod 16 < 16" using unat_bounds(1) [of a] by auto
  then show "b \<in> set (hex2 a) \<Longrightarrow> 0x30 \<le> b \<and> b \<le> 0x66" using hex_digit_printable by (auto simp: hex2_def)
qed

lemma ascii_hex_string: "b \<in> set (hex_string bs) \<Longrightarrow> 0x30 \<le> b \<and> b \<le> 0x66"
  using ascii_hex by (auto simp: hex_string_def)

lemma fresh_valid:
  assumes "length random = 24" "fresh_credentials random = (ssid, password, octets)"
  shows "validate_credentials ssid password octets = Inr ()"
proof -
  have p: "password = hex_string (drop 3 random)" "octets = (10, 77, random ! 0, 1)"
    "ssid = str ''Argo Projection '' @ upper_hex2 (random ! 1) @ upper_hex2 (random ! 2)"
    using assms(2) by (auto simp: fresh_credentials_def)
  have r: "\<forall>b \<in> set password. 0x30 \<le> b \<and> b \<le> 0x66" unfolding p(1) using ascii_hex_string by blast
  have "\<not> list_ex (\<lambda>b. b \<ge> 0x80) password"
    using r by (auto simp: list_ex_iff word_le_nat_alt)
  moreover have "\<not> list_ex (\<lambda>b. b < 0x20 \<or> b = 0x7f) password"
    using r by (auto simp: list_ex_iff word_le_nat_alt word_less_nat_alt)
  moreover have "length password = 42" by (simp add: p(1) assms(1))
  moreover have "starts_str (str ''Argo Projection '') ssid" "length ssid \<le> 32"
    by (simp_all add: p(3) starts_str_def upper_hex2_def ascii_upper_def hex2_def)
  ultimately show ?thesis by (simp add: validate_credentials_def p(2))
qed

text \<open>The 5 GHz candidates are outside the bands that need radar detection (5250 to 5725 MHz) and indoor use (below).\<close>

definition line_permits :: "(u8 list \<Rightarrow> u32 \<Rightarrow> bool) \<Rightarrow> ap_band \<Rightarrow> u16 \<Rightarrow> u8 list \<Rightarrow> bool" where
  "line_permits mhz band channel line \<longleftrightarrow>
     (\<exists>f. split_space line ! 1 = f \<and> mhz f (band_frequency band channel)) \<and> (\<forall>r \<in> set restrictions. \<not> sublist (str r) (ascii_lower line))"

lemma chosen_channel:
  assumes "choose_channel mhz info band = Inr channel"
  shows "channel \<in> set (channel_candidates band) \<and> (\<exists>line \<in> set (split_lines info). line_permits mhz band channel line)"
proof -
  have f: "find (\<lambda>channel. list_ex (channel_line mhz band channel) (split_lines info)) (channel_candidates band) = Some channel"
    using assms by (auto simp: choose_channel_def split: option.splits)
  then have c: "channel \<in> set (channel_candidates band)" "list_ex (channel_line mhz band channel) (split_lines info)"
    by (auto simp: find_Some_iff)
  then obtain line where l: "line \<in> set (split_lines info)" "channel_line mhz band channel line" by (auto simp: list_ex_iff)
  have "line_permits mhz band channel line"
    using l(2) by (auto simp: channel_line_def line_permits_def Let_def list_ex_iff get_at_def split: if_splits)
  with c(1) l(1) show ?thesis by blast
qed

lemma candidate_frequencies:
  "channel \<in> set (channel_candidates band) \<Longrightarrow>
     (case band of Ghz2 \<Rightarrow> 2412 \<le> band_frequency band channel \<and> band_frequency band channel \<le> 2472
      | Ghz5 \<Rightarrow> 5745 \<le> band_frequency band channel \<and> band_frequency band channel \<le> 5825)"
  by (cases band) (auto simp: channel_candidates_def band_frequency_def)

end
