(* ===== verification/Access_Point.thy ===== *)
theory Access_Point
  imports Network_Rules Negotiation Waits
begin

unbundle bit_operations_syntax

text \<open>
  The access point of the wireless projection (\<open>native/projection/argo-projectiond/src/connectivity/network.rs\<close>): its
  settings for NetworkManager, the credentials kept in its profiles, the preparation, the activation behind the
  firewall guard, and the cleanup. Replies of NetworkManager, of the firewall helper and of the file system are an
  environment; consecutive queries without effects are one wait.
\<close>

section \<open>Settings\<close>

datatype dvalue =
    DText "u8 list" | DBool bool | DU32 u32 | DBytes "u8 list" | DTexts "u8 list list" | DTags "(u8 list \<times> u8 list) list"
  | DSections "(u8 list \<times> dvalue) list list"

type_synonym settings_section = "(u8 list \<times> dvalue) list"
type_synonym settings = "(u8 list \<times> settings_section) list"

record access_point =
  ac_interface :: "u8 list"
  ac_address :: "u8 \<times> u8 \<times> u8 \<times> u8"
  ac_channel :: u16
  ac_band :: ap_band
  ac_ssid :: "u8 list"
  ac_password :: "u8 list"
  ac_bssid :: "u8 list"
  ac_active :: "u8 list option"
  ac_firewall :: bool
  ac_activation_pending :: bool
  ac_template_path :: "u8 list option"
  ac_save_template :: bool
  ac_peer :: "u8 list"

definition section_of :: "(string \<times> dvalue) list \<Rightarrow> settings_section" where
  "section_of kvs = fold (\<lambda>(k, v). AList.update (str k) v) kvs []"

definition address_text :: "u8 \<times> u8 \<times> u8 \<times> u8 \<Rightarrow> u8 list" where
  "address_text octets = (case octets of (a, b, c, d) \<Rightarrow> v4_text a b c d)"

definition ap_settings :: "access_point \<Rightarrow> settings" where
  "ap_settings ap =
     [(str ''connection'', section_of [
         (''id'', DText (str ''Argo Projection ('' @ ac_interface ap @ str '')'')), (''type'', DText (str ''802-11-wireless'')),
         (''interface-name'', DText (ac_interface ap)), (''autoconnect'', DBool False)]),
      (str ''802-11-wireless'', section_of [
         (''ssid'', DBytes (ac_ssid ap)), (''mode'', DText (str ''ap'')), (''assigned-mac-address'', DText (str ''permanent'')),
         (''band'', DText (nm_band (ac_band ap))), (''channel'', DU32 (ucast (ac_channel ap)))]),
      (str ''802-11-wireless-security'', section_of [
         (''key-mgmt'', DText (str ''wpa-psk'')), (''psk'', DText (ac_password ap)), (''proto'', DTexts [str ''rsn'']),
         (''pairwise'', DTexts [str ''ccmp''])]),
      (str ''ipv4'', section_of [
         (''method'', DText (str ''shared'')), (''never-default'', DBool True),
         (''address-data'', DSections [section_of [(''address'', DText (address_text (ac_address ap))), (''prefix'', DU32 24)]])]),
      (str ''ipv6'', section_of [(''method'', DText (str ''disabled''))])]"

text \<open>The profile that keeps the credentials.\<close>

definition template_settings :: "u8 list \<Rightarrow> access_point \<Rightarrow> settings" where
  "template_settings user ap =
     (let connection = AList.update (str ''permissions'') (DTexts [str ''user:'' @ user @ str '':''])
            (AList.update (str ''id'') (DText (str ''Argo Projection credentials ('' @ ac_interface ap @ str '')''))
              (the (map_of (ap_settings ap) (str ''connection'')))) in
      AList.update (str ''user'')
        (section_of [(''data'', DTags [(str ''org.argo.owner'', str ''projection-credentials-v1''),
            (str ''org.argo.address'', address_text (ac_address ap)), (str ''org.argo.peer'', ac_peer ap)])])
        (AList.update (str ''connection'') connection (ap_settings ap)))"

section \<open>Profiles\<close>

record profile =
  pr_path :: "u8 list"
  pr_settings :: settings
  pr_secrets :: "u8 list + settings"
  pr_delete :: "u8 list + unit"

definition setting_text :: "string \<Rightarrow> string \<Rightarrow> settings \<Rightarrow> u8 list option" where
  "setting_text sec key s =
     Option.bind (map_of s (str sec)) (\<lambda>f. case map_of f (str key) of Some (DText t) \<Rightarrow> Some t | _ \<Rightarrow> None)"

definition profile_tags :: "settings \<Rightarrow> (u8 list \<times> u8 list) list" where
  "profile_tags s = (case Option.bind (map_of s (str ''user'')) (\<lambda>f. map_of f (str ''data'')) of Some (DTags t) \<Rightarrow> t | _ \<Rightarrow> [])"

definition credentials_name :: "u8 list \<Rightarrow> u8 list" where
  "credentials_name interface = str ''Argo Projection credentials ('' @ interface @ str '')''"

type_synonym credentials = "u8 list \<times> u8 list \<times> (u8 \<times> u8 \<times> u8 \<times> u8)"

text \<open>The credentials of an owned profile of the peer.\<close>

definition profile_credentials :: "profile \<Rightarrow> u8 list + credentials" where
  "profile_credentials p =
     bindr (case Option.bind (map_of (pr_settings p) (str ''802-11-wireless'')) (\<lambda>f. map_of f (str ''ssid'')) of
              Some (DBytes b) \<Rightarrow> Inr b | _ \<Rightarrow> Inl (str ''Missing projection SSID'')) (\<lambda>ssid.
     bindr (map_sum (\<lambda>_. str ''NetworkManager projection credentials unavailable'') id (pr_secrets p)) (\<lambda>secrets.
     bindr (ok_or (str ''Missing projection PSK'') (setting_text ''802-11-wireless-security'' ''psk'' secrets)) (\<lambda>password.
     bindr (ok_or (str ''Missing projection address'') (map_of (profile_tags (pr_settings p)) (str ''org.argo.address''))) (\<lambda>text.
     bindr (case parse_ipv4 text of Some (V4 a b c d) \<Rightarrow> Inr (a, b, c, d) | _ \<Rightarrow> Inl (str ''Invalid projection address'')) (\<lambda>address.
     bindr (if utf8_valid ssid then Inr () else Inl (str ''Invalid projection SSID'')) (\<lambda>_.
     bindr (validate_credentials ssid password address) (\<lambda>_. Inr (ssid, password, address))))))))"

fun credentials_loop ::
  "u8 list \<Rightarrow> u8 list \<Rightarrow> profile list \<Rightarrow> u8 list option \<times> credentials option \<Rightarrow> u8 list + u8 list option \<times> credentials option" where
  "credentials_loop interface peer [] r = Inr r"
| "credentials_loop interface peer (p # ps) (owned, result) =
     (let s = pr_settings p; tags = profile_tags s in
      if setting_text ''connection'' ''id'' s \<noteq> Some (credentials_name interface) then credentials_loop interface peer ps (owned, result)
      else if map_of tags (str ''org.argo.owner'') \<noteq> Some (str ''projection-credentials-v1'')
              \<or> setting_text ''connection'' ''interface-name'' s \<noteq> Some interface
      then Inl (str ''Projection credential profile name conflicts with an unrelated profile'')
      else if owned \<noteq> None then Inl (str ''Multiple projection credential profiles; resolve in NetworkManager'')
      else if map_of tags (str ''org.argo.peer'') \<noteq> Some peer then credentials_loop interface peer ps (Some (pr_path p), result)
      else bindr (profile_credentials p) (\<lambda>c. credentials_loop interface peer ps (Some (pr_path p), Some c)))"

definition bounded_profiles :: "profile list \<Rightarrow> u8 list + profile list" where
  "bounded_profiles ps = (if length ps > 128 then Inl (str ''Too many NM profiles for bounded projection lookup'') else Inr ps)"

definition saved_credentials :: "u8 list \<Rightarrow> u8 list \<Rightarrow> u8 list + profile list \<Rightarrow> u8 list + u8 list option \<times> credentials option" where
  "saved_credentials interface peer profiles =
     bindr (bindr profiles bounded_profiles) (\<lambda>ps. credentials_loop interface peer ps (None, None))"

text \<open>\<open>forget_credentials\<close>: the profiles deleted, and how it ended.\<close>

fun forget_loop :: "u8 list \<Rightarrow> profile list \<Rightarrow> u8 list list \<times> (u8 list + unit)" where
  "forget_loop peer [] = ([], Inr ())"
| "forget_loop peer (p # ps) =
     (let s = pr_settings p; tags = profile_tags s in
      if map_of tags (str ''org.argo.owner'') \<noteq> Some (str ''projection-credentials-v1'') \<or> map_of tags (str ''org.argo.peer'') \<noteq> Some peer
      then forget_loop peer ps
      else case setting_text ''connection'' ''interface-name'' s of
        None \<Rightarrow> ([], Inl (str ''Invalid owned credential interface''))
      | Some interface \<Rightarrow>
          if setting_text ''connection'' ''id'' s \<noteq> Some (credentials_name interface)
          then ([], Inl (str ''Owned credential profile name changed; inspect NetworkManager before removal''))
          else case pr_delete p of
            Inl _ \<Rightarrow> ([pr_path p], Inl (str ''Bond removed, but owned AP credentials could not be removed; inspect NM permissions''))
          | Inr _ \<Rightarrow> (case forget_loop peer ps of (ds, r) \<Rightarrow> (pr_path p # ds, r)))"

definition forget_credentials :: "u8 list \<Rightarrow> u8 list + profile list \<Rightarrow> u8 list list \<times> (u8 list + unit)" where
  "forget_credentials peer profiles =
     (case bindr profiles bounded_profiles of Inl e \<Rightarrow> ([], Inl e) | Inr ps \<Rightarrow> forget_loop peer ps)"

section \<open>Eligibility and preparation\<close>

text \<open>What NetworkManager, \<open>iw\<close> and the system answer; creating a proxy is local and does not fail.\<close>

record nm_view =
  nv_devices :: "u8 list + (u32 \<times> u8 list) list"
  nv_path :: "u8 list + u8 list"
  nv_managed :: "u8 list + bool"
  nv_state :: "u8 list + u32"
  nv_active :: "u8 list + u8 list"
  nv_active_id :: "u8 list + u8 list"
  nv_caps :: "u8 list + u32"
  nv_phy :: "u8 list + u8 list option"
  nv_iw :: "u8 list + bool \<times> u8 list"
  nv_random :: "u8 list + u8 list"
  nv_profiles :: "u8 list + profile list"
  nv_routes :: "u8 list + u8 list"

definition interfaces :: "nm_view \<Rightarrow> u8 list + u8 list list" where
  "interfaces nv = bindr (nv_devices nv) (\<lambda>ds. Inr (map snd (filter (\<lambda>d. fst d = 2) ds)))"

definition permitted_channel :: "(u8 list \<Rightarrow> u32 \<Rightarrow> bool) \<Rightarrow> nm_view \<Rightarrow> ap_band \<Rightarrow> u8 list + u16" where
  "permitted_channel mhz nv band =
     bindr (nv_phy nv) (\<lambda>phy.
     bindr (ok_or (str ''No Wi-Fi phy'') phy) (\<lambda>_.
     bindr (nv_iw nv) (\<lambda>(success, output).
       if \<not> success then Inl (str ''Cannot inspect regulatory channel permissions'') else choose_channel mhz output band)))"

definition band_capability :: "ap_band \<Rightarrow> u32" where
  "band_capability b = (case b of Ghz2 \<Rightarrow> 0x200 | Ghz5 \<Rightarrow> 0x400)"

definition eligible :: "(u8 list \<Rightarrow> u32 \<Rightarrow> bool) \<Rightarrow> nm_view \<Rightarrow> u8 list \<Rightarrow> ap_band \<Rightarrow> u8 list + unit" where
  "eligible mhz nv interface band =
     bindr (nv_path nv) (\<lambda>_.
     bindr (nv_managed nv) (\<lambda>managed.
     bindr (nv_state nv) (\<lambda>state.
       if \<not> managed \<or> state < 30 then Inl (str ''Wi-Fi unavailable, disabled or unmanaged'')
       else
     bindr (nv_active nv) (\<lambda>active.
     bindr (if active = str ''/'' then Inr () else bindr (nv_active_id nv) (\<lambda>i.
              if i \<noteq> str ''Argo Projection ('' @ interface @ str '')'' then Inl (str ''Wi-Fi is in use by another connection'') else Inr ())) (\<lambda>_.
     bindr (nv_caps nv) (\<lambda>caps.
       let required = 0x40 OR band_capability band in
       if caps AND required \<noteq> required then Inl (str ''No AP / '' @ band_label band @ str '' capability'')
       else bindr (permitted_channel mhz nv band) (\<lambda>_. Inr ())))))))"

definition chosen_credentials :: "credentials option \<Rightarrow> u8 list \<Rightarrow> credentials" where
  "chosen_credentials saved random = (case saved of Some c \<Rightarrow> c | None \<Rightarrow> fresh_credentials random)"

definition prepare_access ::
  "(u8 list \<Rightarrow> u32 \<Rightarrow> bool) \<Rightarrow> nm_view \<Rightarrow> u8 list \<Rightarrow> ap_band \<Rightarrow> u8 list \<Rightarrow> u8 list + access_point" where
  "prepare_access mhz nv interface band peer =
     bindr (interfaces nv) (\<lambda>radios.
       if interface \<notin> set radios then Inl (str ''Select an available Wi-Fi interface'')
       else
     bindr (nv_path nv) (\<lambda>_.
     bindr (nv_active nv) (\<lambda>active.
       if active \<noteq> str ''/'' then Inl (str ''Wi-Fi is in use. Disconnect that connection explicitly in desktop network settings first.'')
       else
     bindr (nv_caps nv) (\<lambda>caps.
       if caps AND 0x40 = 0 \<or> caps AND band_capability band = 0
       then Inl (str ''Selected radio lacks AP / '' @ band_label band @ str '' support'')
       else
     bindr (permitted_channel mhz nv band) (\<lambda>channel.
     bindr (nv_random nv) (\<lambda>random.
     bindr (saved_credentials interface peer (nv_profiles nv)) (\<lambda>found.
       let chosen = chosen_credentials (snd found) random; address = snd (snd chosen) in
     bindr (nv_routes nv) (\<lambda>routes.
     bindr (subnet_free routes address) (\<lambda>_.
       Inr \<lparr>ac_interface = interface, ac_address = address, ac_channel = channel, ac_band = band, ac_ssid = fst chosen, ac_password = fst (snd chosen),
            ac_bssid = [], ac_active = None, ac_firewall = False, ac_activation_pending = False, ac_template_path = fst found,
            ac_save_template = (snd found = None), ac_peer = peer\<rparr>)))))))))"

section \<open>The firewall guard\<close>

text \<open>What is true of the machine, as far as the daemon can know: the guard is certainly in force, the access point may be
  up, the ownership record exists; and the access point of the attempt.\<close>

record ap_world = waits +
  aw_guard :: bool
  aw_up :: bool
  aw_record :: bool
  aw_submitted :: "settings list"
  aw_ap :: access_point

record firewall_env =
  fe_meta :: "(u32 \<times> u32) option"
  fe_managed :: bool
  fe_boot :: "u8 list + u8 list"
  fe_write :: "u8 list + unit"
  fe_rename :: "u8 list + unit"
  fe_status :: "u8 list + bool"
  fe_remove :: "u8 list + unit"

definition boot_id_ok :: "u8 list \<Rightarrow> bool" where
  "boot_id_ok i \<longleftrightarrow> length i = 36
     \<and> (\<forall>(k, b) \<in> set (enumerate 0 i).
          if k \<in> {8, 13, 18, 23} then b = 0x2d else is_digit b \<or> (0x61 \<le> b \<and> b \<le> 0x66))"

definition write_guard_intent :: "firewall_env \<Rightarrow> u8 list \<Rightarrow> ('z ap_world_scheme, u8 list, unit) task" where
  "write_guard_intent fe boot =
     (if \<not> boot_id_ok boot then now (Inl (str ''Cannot record guard ownership: invalid Linux boot ID''))
      else
        thenF (now (case fe_write fe of Inl e \<Rightarrow> Inl (str ''Cannot record owned firewall intent: '' @ e) | Inr _ \<Rightarrow> Inr ())) (\<lambda>_.
        thenF (now (fe_rename fe)) (\<lambda>_. doF (\<lambda>s. s\<lparr>aw_record := True\<rparr>))))"

text \<open>The helper is trusted to do what it was asked when it reports success; asked to remove the guard, it may have done so
  whatever it reports.\<close>

definition firewall_start :: "firewall_env \<Rightarrow> (ap_world, u8 list, unit) task" where
  "firewall_start fe =
     thenF (now (case fe_meta fe of
         None \<Rightarrow> Inl (str ''Install the narrowly scoped projection firewall helper (see docs/wireless.md) before Connect'')
       | Some (uid, mode) \<Rightarrow> if uid \<noteq> 0 \<or> mode AND 0x12 \<noteq> 0
           then Inl (str ''Projection firewall helper must be root-owned and not group/world writable'') else Inr ())) (\<lambda>_.
     thenF (if fe_managed fe
            then thenF (now (case fe_boot fe of Inl e \<Rightarrow> Inl (str ''Cannot read Linux boot ID for guard ownership: '' @ e) | Inr b \<Rightarrow> Inr b)) (\<lambda>boot.
                   write_guard_intent fe (str_trim boot))
            else now (Inr ())) (\<lambda>_.
     thenF (wait_for (fe_status fe)) (\<lambda>success.
       if \<not> success then now (Inl (str ''Projection firewall authorization/setup failed''))
       else doF (\<lambda>s. s\<lparr>aw_guard := True\<rparr>))))"

definition firewall_stop :: "firewall_env \<Rightarrow> (ap_world, u8 list, unit) task" where
  "firewall_stop fe =
     thenF (now (case fe_meta fe of
         None \<Rightarrow> Inl (str ''Install the narrowly scoped projection firewall helper (see docs/wireless.md) before Connect'')
       | Some (uid, mode) \<Rightarrow> if uid \<noteq> 0 \<or> mode AND 0x12 \<noteq> 0
           then Inl (str ''Projection firewall helper must be root-owned and not group/world writable'') else Inr ())) (\<lambda>_.
     thenF (doF (\<lambda>s. s\<lparr>aw_guard := False\<rparr>)) (\<lambda>_.
     thenF (wait_for (fe_status fe)) (\<lambda>success.
       if \<not> success then now (Inl (str ''Projection firewall authorization/setup failed''))
       else if fe_managed fe
       then thenF (now (case fe_remove fe of Inl e \<Rightarrow> Inl (str ''Guard removed but ownership record cleanup failed: '' @ e) | Inr _ \<Rightarrow> Inr ())) (\<lambda>_.
              doF (\<lambda>s. s\<lparr>aw_record := False\<rparr>))
       else now (Inr ()))))"

section \<open>Readiness\<close>

record ready_view =
  rv_state :: "u8 list + u32"
  rv_ip :: "u8 list + u8 list"
  rv_addresses :: "u8 list + u8 list option list"
  rv_udp :: "u8 list option"
  rv_processes :: "(u8 list \<times> u8 list option) list option"

definition active_state_ready :: "u32 \<Rightarrow> failure + bool" where
  "active_state_ready state =
     (if state = 3 \<or> state = 4 then Inl (failure_network (str ''Projection AP disconnected'')) else Inr (state = 2))"

definition ap_ready :: "access_point \<Rightarrow> ready_view \<Rightarrow> failure + bool" where
  "ap_ready ap v =
     (case ac_active ap of
        None \<Rightarrow> Inl (failure_configuration (str ''AP not activated''))
      | Some _ \<Rightarrow>
          bindr (map_sum failure_network id (rv_state v)) (\<lambda>state.
          bindr (active_state_ready state) (\<lambda>ok.
            if \<not> ok then Inr False
            else bindr (map_sum failure_network id (rv_ip v)) (\<lambda>ip.
              if ip = str ''/'' then Inr False
              else bindr (map_sum failure_network id (rv_addresses v)) (\<lambda>addresses.
                Inr (Some (address_text (ac_address ap)) \<in> set addresses \<and> dhcp_socket (rv_udp v)
                  \<and> dhcp_for_address (rv_processes v) (ac_address ap)))))))"

section \<open>Activation\<close>

text \<open>A D-Bus error: the name of a remote error, or a local one. The text of a remote error is not kept.\<close>

datatype dbus_error = MethodError "u8 list" "u8 list" | LocalError "u8 list"

definition nm_failure :: "string \<Rightarrow> dbus_error \<Rightarrow> failure" where
  "nm_failure action e =
     failure_configuration (str action @ str '': '' @
       (case e of MethodError name body \<Rightarrow> name | LocalError _ \<Rightarrow> str ''local D-Bus transport or encoding failure'')
       @ str ''; profile values redacted'')"

record activation_env =
  ae_firewall :: firewall_env
  ae_device :: "u8 list + u8 list"
  ae_user :: "u8 list option"
  ae_update :: "dbus_error + unit"
  ae_add :: "dbus_error + u8 list"
  ae_activate :: "dbus_error + u8 list"
  ae_looks :: "nat \<Rightarrow> ready_view"
  ae_patience :: nat
  ae_address :: "u8 list + u8 list"
  ae_upper :: "u8 list \<Rightarrow> u8 list"

definition with_ap :: "(access_point \<Rightarrow> access_point) \<Rightarrow> (ap_world, 'e, unit) task" where
  "with_ap f = doF (\<lambda>s. s\<lparr>aw_ap := f (aw_ap s)\<rparr>)"

definition the_ap :: "(access_point \<Rightarrow> (ap_world, 'e, 'a) task) \<Rightarrow> (ap_world, 'e, 'a) task" where
  "the_ap k s = k (aw_ap s) s"

text \<open>The profile that keeps new credentials is written before anything is activated.\<close>

definition save_template :: "activation_env \<Rightarrow> (ap_world, failure, unit) task" where
  "save_template ae =
     the_ap (\<lambda>ap.
       if \<not> ac_save_template ap then now (Inr ())
       else
         thenF (now (ok_or (failure_configuration (str ''Desktop account unavailable'')) (ae_user ae))) (\<lambda>user.
         thenF (doF (\<lambda>s. s\<lparr>aw_submitted := aw_submitted s @ [template_settings user ap]\<rparr>)) (\<lambda>_.
         thenF (case ac_template_path ap of
             Some _ \<Rightarrow> wait_for (map_sum (nm_failure ''Could not rotate owned projection credentials'') id (ae_update ae))
           | None \<Rightarrow>
               thenF (wait_for (map_sum (nm_failure ''Could not save NetworkManager projection credentials'') id (ae_add ae))) (\<lambda>path.
               with_ap (\<lambda>ap. ap\<lparr>ac_template_path := Some path\<rparr>))) (\<lambda>_.
         with_ap (\<lambda>ap. ap\<lparr>ac_save_template := False\<rparr>)))))"

text \<open>The request to activate: from here the access point may be up, whatever the reply.\<close>

definition add_and_activate :: "activation_env \<Rightarrow> (ap_world, failure, unit) task" where
  "add_and_activate ae =
     thenF (with_ap (\<lambda>ap. ap\<lparr>ac_activation_pending := True\<rparr>)) (\<lambda>_.
     thenF (doF (\<lambda>s. s\<lparr>aw_up := True, aw_submitted := aw_submitted s @ [ap_settings (aw_ap s)]\<rparr>)) (\<lambda>_.
     thenF (wait_for (map_sum (nm_failure ''NetworkManager AP activation failed'') id (ae_activate ae))) (\<lambda>active.
     with_ap (\<lambda>ap. ap\<lparr>ac_active := Some active, ac_activation_pending := False\<rparr>))))"

fun ready_wait :: "activation_env \<Rightarrow> nat \<Rightarrow> nat \<Rightarrow> (ap_world, failure, unit) task" where
  "ready_wait ae 0 i = now (Inl (failure_timeout (str ''AP address / DHCP readiness timed out'')))"
| "ready_wait ae (Suc n) i =
     the_ap (\<lambda>ap. thenF (wait_for (ap_ready ap (ae_looks ae i))) (\<lambda>ok. if ok then now (Inr ()) else ready_wait ae n (i + 1)))"

definition activate_access :: "activation_env \<Rightarrow> (ap_world, failure, unit) task" where
  "activate_access ae =
     thenF (map_error failure_configuration (firewall_start (ae_firewall ae))) (\<lambda>_.
     thenF (with_ap (\<lambda>ap. ap\<lparr>ac_firewall := True\<rparr>)) (\<lambda>_.
     thenF (wait_for (map_sum failure_configuration id (ae_device ae))) (\<lambda>_.
     thenF (save_template ae) (\<lambda>_.
     thenF (add_and_activate ae) (\<lambda>_.
     thenF (ready_wait ae (ae_patience ae) 0) (\<lambda>_.
     thenF (wait_for (map_sum failure_configuration id (ae_address ae))) (\<lambda>address.
     thenF (with_ap (\<lambda>ap. ap\<lparr>ac_bssid := ae_upper ae address\<rparr>)) (\<lambda>_.
     the_ap (\<lambda>ap. now (if length (ac_bssid ap) \<noteq> 17 then Inl (failure_from_text (str ''AP BSSID unavailable'')) else Inr ()))))))))))"

section \<open>Cleanup\<close>

text \<open>\<open>ce_remaining i\<close> is the \<open>i\<close>-th list of active connections; \<open>ce_patience\<close> looks fit into the time limit.\<close>

record cleanup_env =
  ce_firewall :: firewall_env
  ce_first :: "u8 list + u8 list list"
  ce_deactivate :: "u8 list + unit"
  ce_remaining :: "nat \<Rightarrow> u8 list + u8 list list"
  ce_patience :: nat

text \<open>A list without the connection confirms that it is down.\<close>

definition confirmed_down :: "(ap_world, 'e, unit) task" where
  "confirmed_down = doF (\<lambda>s. s\<lparr>aw_up := False\<rparr>)"

fun deactivate_wait :: "cleanup_env \<Rightarrow> u8 list \<Rightarrow> nat \<Rightarrow> nat \<Rightarrow> (ap_world, u8 list, unit) task" where
  "deactivate_wait ce active 0 i = now (Inl (str ''Owned AP deactivation did not complete; retaining firewall''))"
| "deactivate_wait ce active (Suc n) i =
     thenF (wait_for (ce_remaining ce i)) (\<lambda>remaining.
       if active \<notin> set remaining then confirmed_down else deactivate_wait ce active n (i + 1))"

definition deactivate :: "cleanup_env \<Rightarrow> u8 list \<Rightarrow> (ap_world, u8 list, unit) task" where
  "deactivate ce active =
     thenF (wait_for (case ce_first ce of Inl e \<Rightarrow> Inl (str ''Cannot verify owned AP cleanup: '' @ e) | Inr r \<Rightarrow> Inr r)) (\<lambda>remaining.
       if active \<notin> set remaining then confirmed_down
       else
         thenF (wait_for (case ce_deactivate ce of Inl e \<Rightarrow> Inl (str ''Owned AP cleanup failed: '' @ e) | Inr u \<Rightarrow> Inr u)) (\<lambda>_.
         deactivate_wait ce active (ce_patience ce) 0))"

definition ap_cleanup :: "cleanup_env \<Rightarrow> (ap_world, u8 list, unit) task" where
  "ap_cleanup ce =
     the_ap (\<lambda>ap.
       if ac_activation_pending ap
       then now (Inl (str ''AP activation result unknown; closing its owning D-Bus connection and retaining firewall guard''))
       else
         thenF (case ac_active ap of
             None \<Rightarrow> now (Inr ())
           | Some active \<Rightarrow> thenF (deactivate ce active) (\<lambda>_. with_ap (\<lambda>ap. ap\<lparr>ac_active := None\<rparr>))) (\<lambda>_.
         if ac_firewall ap
         then thenF (firewall_stop (ce_firewall ce)) (\<lambda>_. with_ap (\<lambda>ap. ap\<lparr>ac_firewall := False\<rparr>))
         else now (Inr ())))"

section \<open>The guard covers the access point\<close>

definition ap_inv :: "ap_world \<Rightarrow> bool" where
  "ap_inv s \<longleftrightarrow> (aw_up s \<longrightarrow> aw_guard s \<and> (ac_active (aw_ap s) \<noteq> None \<or> ac_activation_pending (aw_ap s)))
     \<and> (aw_guard s \<longrightarrow> ac_firewall (aw_ap s))"

definition ap_guarded :: "ap_world \<Rightarrow> bool" where
  "ap_guarded s \<longleftrightarrow> ap_inv s \<and> aw_guard s"

lemma sound_the_ap: "(\<And>a. sound I (\<lambda>s. P s \<and> aw_ap s = a) (k a) Q) \<Longrightarrow> sound I P (the_ap k) Q"
  by (simp add: sound_def the_ap_def)

lemmas sound_rules = sound_then sound_wait sound_map sound_now sound_do sound_the_ap

lemma ap_inv_updates [simp]:
  "ap_inv (s\<lparr>wt_left := n\<rparr>) = ap_inv s" "ap_inv (s\<lparr>aw_record := b\<rparr>) = ap_inv s" "ap_inv (s\<lparr>aw_submitted := t\<rparr>) = ap_inv s"
  by (simp_all add: ap_inv_def)

abbreviation down_inv :: "ap_world \<Rightarrow> bool" where
  "down_inv s \<equiv> ap_inv s \<and> \<not> aw_up s"

lemma sound_intent: "sound ap_inv down_inv (write_guard_intent fe boot) (\<lambda>_. down_inv)"
  unfolding write_guard_intent_def
  by (auto intro!: sound_now sound_then [where R = "\<lambda>_. down_inv"] sound_do)

lemma sound_firewall_start: "sound ap_inv down_inv (firewall_start fe) (\<lambda>_ s. aw_guard s \<and> \<not> aw_up s)"
proof -
  have "sound ap_inv down_inv (if fe_managed fe
       then thenF (now (case fe_boot fe of Inl e \<Rightarrow> Inl (str ''Cannot read Linux boot ID for guard ownership: '' @ e) | Inr b \<Rightarrow> Inr b))
              (\<lambda>boot. write_guard_intent fe (str_trim boot))
       else now (Inr ())) (\<lambda>_. down_inv)"
    by (auto intro!: sound_now sound_then [where R = "\<lambda>_. down_inv"] sound_intent)
  then show ?thesis unfolding firewall_start_def
    by (intro sound_then [where R = "\<lambda>_. down_inv"] sound_now sound_wait) (auto intro: sound_now sound_do)
qed

lemma sound_firewall_stop:
  "sound ap_inv (\<lambda>s. down_inv s \<and> aw_ap s = a) (firewall_stop fe) (\<lambda>_ s. (down_inv s \<and> aw_ap s = a) \<and> \<not> aw_guard s)"
proof -
  let ?P = "\<lambda>s. down_inv s \<and> aw_ap s = a"
  let ?Q = "\<lambda>s. ?P s \<and> \<not> aw_guard s"
  have d: "sound ap_inv ?P (doF (\<lambda>s. s\<lparr>aw_guard := False\<rparr>)) (\<lambda>_. ?Q)"
    by (rule sound_do) (simp add: ap_inv_def)
  have w: "sound ap_inv ?Q (wait_for r) (\<lambda>_. ?Q)" for r :: "u8 list + bool"
    by (rule sound_wait) simp_all
  have r: "sound ap_inv ?Q (thenF (now r) (\<lambda>_. doF (\<lambda>s. s\<lparr>aw_record := False\<rparr>))) (\<lambda>_. ?Q)" for r :: "u8 list + unit"
    by (rule sound_then [where R = "\<lambda>_. ?Q"]) (auto intro: sound_now sound_do)
  show ?thesis unfolding firewall_stop_def
    by (rule sound_then [where R = "\<lambda>_. ?P"], rule sound_now, simp, simp, rule sound_then [OF d], rule sound_then [OF w])
      (use r in \<open>auto intro: sound_now\<close>)
qed

text \<open>Changes of the access point that do not touch what the guard depends on.\<close>

lemma sound_with_ap:
  assumes "\<And>a. ac_active (f a) = ac_active a" "\<And>a. ac_activation_pending (f a) = ac_activation_pending a" "\<And>a. ac_firewall (f a) = ac_firewall a"
  shows "sound I ap_guarded (with_ap f) (\<lambda>_. ap_guarded)"
  unfolding with_ap_def by (rule sound_do) (simp add: ap_guarded_def ap_inv_def assms)

lemma guarded_inv: "ap_guarded s \<Longrightarrow> ap_inv s \<and> ap_inv (s\<lparr>wt_left := n\<rparr>)"
  by (simp add: ap_guarded_def)

lemma guarded_left [simp]: "ap_guarded (s\<lparr>wt_left := n\<rparr>) = ap_guarded s" "ap_guarded (s\<lparr>aw_submitted := t\<rparr>) = ap_guarded s"
  by (simp_all add: ap_guarded_def)

lemma sound_guarded_wait: "sound ap_inv ap_guarded (wait_for r) (\<lambda>_. ap_guarded)"
  by (rule sound_wait) (simp_all add: guarded_inv)

lemma sound_guarded_now: "sound ap_inv ap_guarded (now r) (\<lambda>_. ap_guarded)"
  by (rule sound_now) (simp_all add: guarded_inv)

lemma sound_guarded_the: "(\<And>a. sound ap_inv ap_guarded (k a) (\<lambda>_. ap_guarded)) \<Longrightarrow> sound ap_inv ap_guarded (the_ap k) (\<lambda>_. ap_guarded)"
  by (simp add: sound_def the_ap_def)

lemmas guarded_rules = sound_guarded_wait sound_guarded_now sound_guarded_the sound_then [where R = "\<lambda>_. ap_guarded"]

lemma sound_save_template: "sound ap_inv ap_guarded (save_template ae) (\<lambda>_. ap_guarded)"
proof -
  have d: "sound ap_inv ap_guarded (doF (\<lambda>s. s\<lparr>aw_submitted := aw_submitted s @ t\<rparr>)) (\<lambda>_. ap_guarded)" for t
    by (rule sound_do) simp
  have t: "sound ap_inv ap_guarded (with_ap (\<lambda>ap. ap\<lparr>ac_template_path := path\<rparr>)) (\<lambda>_. ap_guarded)"
    "sound ap_inv ap_guarded (with_ap (\<lambda>ap. ap\<lparr>ac_save_template := b\<rparr>)) (\<lambda>_. ap_guarded)" for path b
    by (rule sound_with_ap; simp)+
  show ?thesis unfolding save_template_def
    by (intro sound_guarded_the) (auto split: option.splits intro!: d t guarded_rules)
qed

lemma sound_add_and_activate: "sound ap_inv ap_guarded (add_and_activate ae) (\<lambda>_. ap_guarded)"
proof -
  let ?P = "\<lambda>s. ap_guarded s \<and> ac_activation_pending (aw_ap s)"
  have 1: "sound ap_inv ap_guarded (with_ap (\<lambda>ap. ap\<lparr>ac_activation_pending := True\<rparr>)) (\<lambda>_. ?P)"
    unfolding with_ap_def by (rule sound_do) (simp add: ap_guarded_def ap_inv_def)
  have 2: "sound ap_inv ?P (doF (\<lambda>s. s\<lparr>aw_up := True, aw_submitted := aw_submitted s @ [ap_settings (aw_ap s)]\<rparr>)) (\<lambda>_. ?P)"
    by (rule sound_do) (simp add: ap_guarded_def ap_inv_def)
  have 3: "sound ap_inv ?P (wait_for r) (\<lambda>_. ?P)" for r :: "failure + u8 list"
    by (rule sound_wait) (simp_all add: guarded_inv)
  have 4: "sound ap_inv ?P (with_ap (\<lambda>ap. ap\<lparr>ac_active := Some active, ac_activation_pending := False\<rparr>)) (\<lambda>_. ap_guarded)" for active
    unfolding with_ap_def by (rule sound_do) (simp add: ap_guarded_def ap_inv_def)
  show ?thesis unfolding add_and_activate_def
    by (rule sound_then [OF 1], rule sound_then [OF 2], rule sound_then [OF 3], rule 4)
qed

lemma sound_ready_wait: "sound ap_inv ap_guarded (ready_wait ae n i) (\<lambda>_. ap_guarded)"
  by (induction n arbitrary: i) (auto intro!: guarded_rules)

lemma sound_activate: "sound ap_inv down_inv (activate_access ae) (\<lambda>_. ap_guarded)"
proof -
  have 1: "sound ap_inv (\<lambda>s. aw_guard s \<and> \<not> aw_up s) (with_ap (\<lambda>ap. ap\<lparr>ac_firewall := True\<rparr>)) (\<lambda>_. ap_guarded)"
    unfolding with_ap_def by (rule sound_do) (simp add: ap_guarded_def ap_inv_def)
  have 2: "sound ap_inv ap_guarded (with_ap (\<lambda>ap. ap\<lparr>ac_bssid := b\<rparr>)) (\<lambda>_. ap_guarded)" for b
    by (rule sound_with_ap) simp_all
  show ?thesis unfolding activate_access_def
    by (rule sound_then [OF sound_map [OF sound_firewall_start]], rule sound_then [OF 1])
      (intro guarded_rules sound_save_template sound_add_and_activate sound_ready_wait 2)
qed

definition ap_released :: "ap_world \<Rightarrow> bool" where
  "ap_released s \<longleftrightarrow> \<not> aw_up s \<and> \<not> aw_guard s \<and> ac_active (aw_ap s) = None \<and> \<not> ac_activation_pending (aw_ap s) \<and> \<not> ac_firewall (aw_ap s)"

lemma sound_deactivate: "sound ap_inv (\<lambda>s. ap_inv s \<and> aw_ap s = a) (deactivate ce active) (\<lambda>_ s. down_inv s \<and> aw_ap s = a)"
proof -
  let ?P = "\<lambda>s. ap_inv s \<and> aw_ap s = a" and ?Q = "\<lambda>s. down_inv s \<and> aw_ap s = a"
  have c: "sound ap_inv ?P (confirmed_down :: (ap_world, u8 list, unit) task) (\<lambda>_. ?Q)"
    unfolding confirmed_down_def by (rule sound_do) (auto simp: ap_inv_def)
  have w: "sound ap_inv ?P (wait_for r) (\<lambda>_. ?P)" for r :: "u8 list + 'x"
    by (rule sound_wait) simp_all
  have l: "sound ap_inv ?P (deactivate_wait ce active n i) (\<lambda>_. ?Q)" for n i
  proof (induction n arbitrary: i)
    case 0
    show ?case unfolding deactivate_wait.simps by (rule sound_now) simp_all
  next
    case (Suc n)
    show ?case unfolding deactivate_wait.simps by (rule sound_then [OF w]) (use c Suc.IH [of "i + 1"] in simp)
  qed
  show ?thesis unfolding deactivate_def
    by (rule sound_then [OF w], split if_split, intro conjI impI, rule c, rule sound_then [OF w], rule l)
qed

lemma sound_cleanup: "sound ap_inv ap_inv (ap_cleanup ce) (\<lambda>_. ap_released)"
  unfolding ap_cleanup_def
proof (rule sound_the_ap)
  fix a
  let ?P = "\<lambda>s. ap_inv s \<and> aw_ap s = a"
  let ?b = "a\<lparr>ac_active := None\<rparr>"
  have stop: "sound ap_inv (\<lambda>s. down_inv s \<and> aw_ap s = ?b) (thenF (firewall_stop (ce_firewall ce)) (\<lambda>_. with_ap (\<lambda>ap. ap\<lparr>ac_firewall := False\<rparr>))) (\<lambda>_. ap_released)"
    if "\<not> ac_activation_pending a"
    by (rule sound_then [OF sound_firewall_stop]) (auto intro!: sound_do simp: with_ap_def ap_released_def that)
  have leave: "sound ap_inv (\<lambda>s. down_inv s \<and> aw_ap s = ?b) (now (Inr ())) (\<lambda>_. ap_released)" if "\<not> ac_activation_pending a" "\<not> ac_firewall a"
    by (rule sound_now) (auto simp: ap_released_def ap_inv_def that)
  have down: "sound ap_inv ?P (case ac_active a of None \<Rightarrow> now (Inr ())
      | Some active \<Rightarrow> thenF (deactivate ce active) (\<lambda>_. with_ap (\<lambda>ap. ap\<lparr>ac_active := None\<rparr>))) (\<lambda>_ s. down_inv s \<and> aw_ap s = ?b)"
    if "\<not> ac_activation_pending a"
  proof (cases "ac_active a")
    case None
    then show ?thesis using that by (auto intro!: sound_now simp: ap_inv_def)
  next
    case (Some active)
    have "sound ap_inv (\<lambda>s. down_inv s \<and> aw_ap s = a) (with_ap (\<lambda>ap. ap\<lparr>ac_active := None\<rparr>)) (\<lambda>_ s. down_inv s \<and> aw_ap s = ?b)"
      unfolding with_ap_def by (rule sound_do) (auto simp: ap_inv_def)
    then show ?thesis using Some sound_then [OF sound_deactivate] by simp
  qed
  show "sound ap_inv ?P (if ac_activation_pending a
      then now (Inl (str ''AP activation result unknown; closing its owning D-Bus connection and retaining firewall guard''))
      else thenF (case ac_active a of None \<Rightarrow> now (Inr ())
           | Some active \<Rightarrow> thenF (deactivate ce active) (\<lambda>_. with_ap (\<lambda>ap. ap\<lparr>ac_active := None\<rparr>))) (\<lambda>_.
         if ac_firewall a then thenF (firewall_stop (ce_firewall ce)) (\<lambda>_. with_ap (\<lambda>ap. ap\<lparr>ac_firewall := False\<rparr>)) else now (Inr ())))
      (\<lambda>_. ap_released)"
  proof (cases "ac_activation_pending a")
    case True
    then show ?thesis by (simp, intro sound_now) simp_all
  next
    case False
    have "sound ap_inv (\<lambda>s. down_inv s \<and> aw_ap s = ?b) (if ac_firewall a then thenF (firewall_stop (ce_firewall ce)) (\<lambda>_. with_ap (\<lambda>ap. ap\<lparr>ac_firewall := False\<rparr>)) else now (Inr ())) (\<lambda>_. ap_released)"
      using stop [OF False] leave [OF False] by (cases "ac_firewall a") simp_all
    then show ?thesis by (subst if_not_P [OF False]) (rule sound_then [OF down [OF False]])
  qed
qed

text \<open>An attempt: the activation, interrupted after any number of its waits, then any number of cleanups, each with its own
  environment and interrupted as well.\<close>

definition ap_attempt :: "activation_env \<Rightarrow> (nat \<times> cleanup_env) list \<Rightarrow> ap_world \<Rightarrow> ap_world" where
  "ap_attempt ae cs s = fold (\<lambda>(n, ce) s. fst (ap_cleanup ce (s\<lparr>wt_left := n\<rparr>))) cs (fst (activate_access ae s))"

lemma cleanup_inv: "ap_inv s \<Longrightarrow> ap_inv (fst (ap_cleanup ce (s\<lparr>wt_left := n\<rparr>)))"
proof -
  assume "ap_inv s"
  then have i: "ap_inv (s\<lparr>wt_left := n\<rparr>)" by simp
  obtain s' r where c: "ap_cleanup ce (s\<lparr>wt_left := n\<rparr>) = (s', r)" by (metis surj_pair)
  have "ap_inv s'" by (rule sound_other [OF sound_cleanup i c]) (simp add: ap_released_def ap_inv_def)
  then show ?thesis by (simp add: c)
qed

lemma attempt_inv: "down_inv s \<Longrightarrow> ap_inv (ap_attempt ae cs s)"
proof -
  assume i: "down_inv s"
  obtain s' r where a: "activate_access ae s = (s', r)" by (metis surj_pair)
  have "ap_inv s'" by (rule sound_other [OF sound_activate i a]) (simp add: ap_guarded_def)
  then have "ap_inv (fold (\<lambda>(n, ce) s. fst (ap_cleanup ce (s\<lparr>wt_left := n\<rparr>))) cs s')"
    by (induction cs arbitrary: s') (auto intro: cleanup_inv)
  then show ?thesis by (simp add: ap_attempt_def a)
qed

section \<open>Properties\<close>

lemma prepared:
  assumes "prepare_access mhz nv interface band peer = Inr ap"
  shows "ac_active ap = None \<and> ac_firewall ap = False \<and> \<not> ac_activation_pending ap \<and> ac_interface ap = interface \<and> ac_band ap = band"
    and "permitted_channel mhz nv band = Inr (ac_channel ap)"
    and "\<exists>routes. nv_routes nv = Inr routes \<and> subnet_free routes (ac_address ap) = Inr ()"
    and "\<exists>random template saved. nv_random nv = Inr random \<and> saved_credentials interface peer (nv_profiles nv) = Inr (template, saved)
      \<and> chosen_credentials saved random = (ac_ssid ap, ac_password ap, ac_address ap)"
  using assms by (auto simp: prepare_access_def Let_def split: if_split_asm)


lemma credentials_valid: "profile_credentials p = Inr (ssid, password, address) \<Longrightarrow> validate_credentials ssid password address = Inr ()"
  by (auto simp: profile_credentials_def split: if_split_asm)

lemma credentials_loop_valid:
  "credentials_loop interface peer ps (owned, result) = Inr (owned', Some (ssid, password, address)) \<Longrightarrow>
   (\<And>c. result = Some c \<Longrightarrow> (case c of (ssid, password, address) \<Rightarrow> validate_credentials ssid password address = Inr ())) \<Longrightarrow>
   validate_credentials ssid password address = Inr ()"
proof (induction interface peer ps "(owned, result)" arbitrary: owned result rule: credentials_loop.induct)
  case (2 interface peer p ps owned result)
  then show ?case
    by (auto simp: Let_def split: if_split_asm dest: credentials_valid)
qed auto


text \<open>C33. Forgetting a peer deletes only profiles that carry the mark of the daemon, the peer's name and the name such a profile
  has for its interface.\<close>

theorem forget_deletes_owned:
  assumes "forget_credentials peer (Inr ps) = (deleted, r)" and "path \<in> set deleted"
  shows "\<exists>p \<in> set ps. pr_path p = path \<and> map_of (profile_tags (pr_settings p)) (str ''org.argo.owner'') = Some (str ''projection-credentials-v1'')
    \<and> map_of (profile_tags (pr_settings p)) (str ''org.argo.peer'') = Some peer
    \<and> (\<exists>interface. setting_text ''connection'' ''interface-name'' (pr_settings p) = Some interface
        \<and> setting_text ''connection'' ''id'' (pr_settings p) = Some (credentials_name interface))"
proof -
  have "forget_loop peer ps = (ds, r) \<Longrightarrow> path \<in> set ds \<Longrightarrow> \<exists>p \<in> set ps. pr_path p = path
    \<and> map_of (profile_tags (pr_settings p)) (str ''org.argo.owner'') = Some (str ''projection-credentials-v1'')
    \<and> map_of (profile_tags (pr_settings p)) (str ''org.argo.peer'') = Some peer
    \<and> (\<exists>interface. setting_text ''connection'' ''interface-name'' (pr_settings p) = Some interface
        \<and> setting_text ''connection'' ''id'' (pr_settings p) = Some (credentials_name interface))" for ds
    by (induction ps arbitrary: ds) (fastforce simp: Let_def split: if_split_asm option.split_asm sum.split_asm prod.split_asm)+
  then show ?thesis using assms by (auto simp: forget_credentials_def bounded_profiles_def split: if_split_asm)
qed

section \<open>Witnesses\<close>

definition w_mhz :: "u8 list \<Rightarrow> u32 \<Rightarrow> bool" where
  "w_mhz v f \<longleftrightarrow> v = str ''5745.0'' \<and> f = 5745"

definition w_nm :: nm_view where
  "w_nm = \<lparr>nv_devices = Inr [(1, str ''eth0''), (2, str ''wlan0'')], nv_path = Inr (str ''/dev/2''), nv_managed = Inr True,
     nv_state = Inr 30, nv_active = Inr (str ''/''), nv_active_id = Inr [], nv_caps = Inr 0x440, nv_phy = Inr (Some (str ''phy0'')),
     nv_iw = Inr (True, str ''* 5745.0 MHz [149] (20.0 dBm)''), nv_random = Inr (replicate 24 7), nv_profiles = Inr [], nv_routes = Inr (str ''Iface'')\<rparr>"

definition w_access_point :: access_point where
  "w_access_point = \<lparr>ac_interface = str ''wlan0'', ac_address = (10, 77, 7, 1), ac_channel = 149, ac_band = Ghz5,
     ac_ssid = str ''Argo Projection 0707'', ac_password = concat (replicate 21 (str ''07'')), ac_bssid = [], ac_active = None, ac_firewall = False,
     ac_activation_pending = False, ac_template_path = None, ac_save_template = True, ac_peer = str ''peer''\<rparr>"

lemma w_prepared: "prepare_access w_mhz w_nm (str ''wlan0'') Ghz5 (str ''peer'') = Inr w_access_point"
  by code_simp

definition w_fe :: firewall_env where
  "w_fe = \<lparr>fe_meta = Some (0, 0x1ed), fe_managed = False, fe_boot = Inl [], fe_write = Inl [], fe_rename = Inl [], fe_status = Inr True, fe_remove = Inr ()\<rparr>"

definition w_ae :: activation_env where
  "w_ae = \<lparr>ae_firewall = w_fe, ae_device = Inr (str ''/dev/2''), ae_user = Some (str ''argo''), ae_update = Inr (), ae_add = Inr (str ''/s/1''),
     ae_activate = Inr (str ''/a/1''),
     ae_looks = (\<lambda>i. \<lparr>rv_state = Inr 1, rv_ip = Inr [], rv_addresses = Inr [], rv_udp = None, rv_processes = None\<rparr>), ae_patience = 5,
     ae_address = Inr [], ae_upper = id\<rparr>"

definition w_ce :: cleanup_env where
  "w_ce = \<lparr>ce_firewall = w_fe, ce_first = Inr [str ''/a/1''], ce_deactivate = Inr (), ce_remaining = (\<lambda>i. Inr (if i = 0 then [str ''/a/1''] else [])), ce_patience = 3\<rparr>"

definition w_interrupted :: ap_world where
  "w_interrupted = ap_attempt w_ae [(1, w_ce)] \<lparr>wt_left = 6, aw_guard = False, aw_up = False, aw_record = False, aw_submitted = [], aw_ap = w_access_point\<rparr>"

lemma w_interrupted_up: "aw_up w_interrupted"
  by code_simp

lemma w_interrupted_cleaned:
  "snd (ap_cleanup w_ce (w_interrupted\<lparr>wt_left := 9\<rparr>)) = Ended (Inr ())"
  by code_simp



definition w_owned :: profile where
  "w_owned = \<lparr>pr_path = str ''/s/1'', pr_settings = template_settings (str ''argo'') w_access_point, pr_secrets = Inl [], pr_delete = Inr ()\<rparr>"

lemma w_forgotten: "forget_credentials (str ''peer'') (Inr [w_owned]) = ([str ''/s/1''], Inr ())"
  by code_simp

lemma forget_deletes_owned_witness:
  "str ''/s/1'' = pr_path w_owned \<and> map_of (profile_tags (pr_settings w_owned)) (str ''org.argo.peer'') = Some (str ''peer'')"
  using forget_deletes_owned [OF w_forgotten, of "str ''/s/1''"] by simp

end
