(* ===== verification/Wpp.thy ===== *)
theory Wpp
  imports Access_Point
begin

unbundle bit_operations_syntax

text \<open>
  The wireless bootstrap of Android Auto over Bluetooth (\<open>native/projection/argo-projectiond/src/wireless_bootstrap.rs\<close>): its
  frames and the exchange that hands the credentials of the access point to the phone and authorizes the attempt. The
  socket holds the bytes that arrive within the time limits and how the stream goes on after them: an error, or
  silence until the timer fires.
\<close>

section \<open>Socket and frames\<close>

datatype wpp_event = Phone u16 "u8 list" | Host u16 "u8 list"

text \<open>\<open>wp_log\<close> records the frames that were read and the frames handed to the socket.\<close>

record wpp =
  wp_in :: "u8 list"
  wp_end :: "io_error option"
  wp_room :: "nat option"
  wp_fault :: io_error
  wp_sent :: "u8 list"
  wp_log :: "wpp_event list"
  wp_authorized :: bool

definition WPP_LIMIT :: nat where "WPP_LIMIT = 4096"

definition wpp_wire :: "u16 \<Rightarrow> u8 list \<Rightarrow> u8 list" where
  "wpp_wire i body = to_be16 (of_nat (length body)) @ to_be16 i @ body"

definition wpp_send :: "u16 \<Rightarrow> u8 list \<Rightarrow> wpp \<Rightarrow> wpp \<times> (failure + unit)" where
  "wpp_send i body s =
     (if length body > WPP_LIMIT then (s, Inl (failure_from_text (str ''WPP message exceeds bound'')))
      else
        let wire = wpp_wire i body; s' = s\<lparr>wp_log := wp_log s @ [Host i body]\<rparr> in
        case wp_room s of
          None \<Rightarrow> (s'\<lparr>wp_sent := wp_sent s @ wire\<rparr>, Inr ())
        | Some room \<Rightarrow>
            (s'\<lparr>wp_sent := wp_sent s @ take room wire, wp_room := Some (room - length wire)\<rparr>,
             if length wire \<le> room then Inr () else Inl (failure_from_io (wp_fault s))))"

text \<open>\<open>read_exact\<close> under a timer; \<open>late\<close> is what the timer reports.\<close>

definition wpp_exact :: "failure \<Rightarrow> nat \<Rightarrow> wpp \<Rightarrow> wpp \<times> (failure + u8 list)" where
  "wpp_exact late n s =
     (if n \<le> length (wp_in s) then (s\<lparr>wp_in := drop n (wp_in s)\<rparr>, Inr (take n (wp_in s)))
      else (s\<lparr>wp_in := []\<rparr>, Inl (case wp_end s of Some e \<Rightarrow> failure_from_io e | None \<Rightarrow> late)))"

definition wpp_receive :: "failure \<Rightarrow> wpp \<Rightarrow> wpp \<times> (failure + u16 \<times> u8 list)" where
  "wpp_receive late =
     bindS (wpp_exact late 4) (\<lambda>h.
       let len = unat (from_be16 (h ! 0) (h ! 1)) in
       if len > WPP_LIMIT then failS (failure_from_text (str ''WPP frame exceeds bound''))
       else
     bindS (wpp_exact late len) (\<lambda>body s.
       (s\<lparr>wp_log := wp_log s @ [Phone (from_be16 (h ! 2) (h ! 3)) body]\<rparr>, Inr (from_be16 (h ! 2) (h ! 3), body))))"

section \<open>Status\<close>

definition signed_decimal :: "u64 \<Rightarrow> u8 list" where
  "signed_decimal c = (if sint c < 0 then str ''-'' @ decimal (nat (- sint c)) else decimal (nat (sint c)))"

definition status_label :: "u64 \<Rightarrow> string" where
  "status_label code =
     (let c = sint code in
      if c = 0 then ''success'' else if c = 1 then ''unsolicited message'' else if c = - 1 then ''no compatible version''
      else if c = - 2 then ''Wi-Fi channel inaccessible'' else if c = - 3 then ''incorrect Wi-Fi credentials''
      else if c = - 4 then ''projection already started'' else if c = - 5 then ''Wi-Fi disabled''
      else if c = - 6 then ''Wi-Fi not yet started'' else if c = - 7 then ''invalid host endpoint''
      else if c = - 8 then ''no supported Wi-Fi channels'' else if c = - 9 then ''check the phone for a prompt''
      else if c = - 10 then ''phone Wi-Fi disabled'' else if c = - 11 then ''Wi-Fi network unavailable''
      else ''unknown status'')"

definition wpp_success :: "u8 list \<Rightarrow> u32 \<Rightarrow> failure + unit" where
  "wpp_success body field =
     bindr (map_sum failure_from_text id (numbers body)) (\<lambda>values.
       case map_of values field of
         Some code \<Rightarrow> if code = 0 then Inr () else Inl (failure_from_text
           (str ''Phone wireless status '' @ signed_decimal code @ str '' ('' @ str (status_label code) @ str '')''))
       | None \<Rightarrow> Inl (failure_from_text (str ''Missing WPP status'')))"

section \<open>The exchange\<close>

definition wpp_offer :: "access_point \<Rightarrow> u8 list" where
  "wpp_offer ap = pb_bytes 4 (var_bytes (ucast (band_frequency (ac_band ap) (ac_channel ap)))) (pb_number 2 0 (pb_number 1 6 []))"

definition wpp_endpoint :: "access_point \<Rightarrow> u8 list" where
  "wpp_endpoint ap = pb_number 2 5288 (pb_bytes 1 (address_text (ac_address ap)) [])"

definition wpp_credentials :: "access_point \<Rightarrow> u8 list" where
  "wpp_credentials ap =
     pb_number 5 1 (pb_number 4 8 (pb_bytes 3 (ac_bssid ap) (pb_bytes 2 (ac_password ap) (pb_bytes 1 (ac_ssid ap) []))))"

definition debug_option :: "(u64 \<Rightarrow> u8 list) \<Rightarrow> u64 option \<Rightarrow> u8 list" where
  "debug_option shown v = (case v of None \<Rightarrow> str ''None'' | Some x \<Rightarrow> str ''Some('' @ shown x @ str '')'')"

definition version_accepted :: "u16 \<Rightarrow> (u32 \<times> u64) list \<Rightarrow> failure + unit" where
  "version_accepted i version =
     (if i \<noteq> 5 \<or> map_of version 1 \<noteq> Some 6 \<or> map_of version 4 \<noteq> Some 0
      then Inl (failure_from_text (str ''WPP version rejected: message='' @ decimal (unat i)
        @ str '', major='' @ debug_option (\<lambda>x. decimal (unat x)) (map_of version 1)
        @ str '', minor='' @ debug_option (\<lambda>x. decimal (unat x)) (map_of version 2)
        @ str '', status='' @ debug_option signed_decimal (map_of version 4)))
      else Inr ())"

text \<open>One message after the version: \<open>offered\<close> and \<open>started\<close> are threaded through.\<close>

definition wpp_handle :: "access_point \<Rightarrow> u16 \<Rightarrow> u8 list \<Rightarrow> bool \<times> bool \<Rightarrow> wpp \<Rightarrow> wpp \<times> (failure + bool \<times> bool)" where
  "wpp_handle ap i body = (\<lambda>(offered, started).
     if i = 7 then
       bindS (liftS (\<lambda>e. failure_from_text (str ''WPP StartResponse: '' @ failure_text e)) (wpp_success body 3)) (\<lambda>_. retS (offered, True))
     else if i = 2 \<and> \<not> offered then
       bindS (liftS failure_from_text (numbers body)) (\<lambda>_. bindS (wpp_send 3 (wpp_credentials ap)) (\<lambda>_. retS (True, started)))
     else if i = 6 \<and> offered \<and> started then
       bindS (liftS (\<lambda>e. failure_from_text (str ''WPP ConnectionStatus: '' @ failure_text e)) (wpp_success body 1)) (\<lambda>_. retS (offered, started))
     else if i = 8 then bindS (wpp_send 9 body) (\<lambda>_. retS (offered, started))
     else if i = 9 then retS (offered, started)
     else failS (failure_from_text (str ''Unexpected WPP message '' @ decimal (unat i))))"

definition wpp_late :: "bool \<Rightarrow> failure" where
  "wpp_late authorized =
     (if authorized then failure_new BootstrapClosed (str ''WPP idle timeout'') else failure_timeout (str ''WPP join deadline expired''))"

definition wpp_authorize :: "bool \<times> bool \<Rightarrow> wpp \<Rightarrow> wpp" where
  "wpp_authorize f s = (if fst f \<and> snd f \<and> \<not> wp_authorized s then s\<lparr>wp_authorized := True\<rparr> else s)"

definition wpp_turn :: "access_point \<Rightarrow> (bool \<times> bool) \<times> u32 \<Rightarrow> wpp \<Rightarrow> wpp \<times> (failure + (bool \<times> bool) \<times> u32)" where
  "wpp_turn ap = (\<lambda>(flags, messages) s.
     bindS (wpp_receive (wpp_late (wp_authorized s))) (\<lambda>(i, body) s.
       if \<not> wp_authorized s \<and> messages + 1 > 64 then (s, Inl (failure_from_text (str ''WPP message budget exhausted'')))
       else bindS (wpp_handle ap i body flags) (\<lambda>flags s. (wpp_authorize flags s, Inr (flags, messages + 1))) s) s)"

lemma exact_in: "wpp_exact late n s = (s', Inr bs) \<Longrightarrow> length (wp_in s') + n = length (wp_in s)"
  by (auto simp: wpp_exact_def split: if_split_asm)

lemma receive_shrinks: "wpp_receive late s = (s', Inr m) \<Longrightarrow> length (wp_in s') < length (wp_in s)"
  by (auto simp: wpp_receive_def bindS_eq_Inr Let_def split: if_split_asm dest!: exact_in)

lemma send_in: "wp_in (fst (wpp_send i body s)) = wp_in s"
  by (auto simp: wpp_send_def Let_def split: option.split)

lemma handle_in: "wpp_handle ap i body f s = (s', Inr x) \<Longrightarrow> wp_in s' = wp_in s"
  by (cases f) (auto simp: wpp_handle_def bindS_eq_Inr split: if_split_asm dest!: arg_cong [where f = "\<lambda>r. wp_in (fst r)"] simp: send_in)

lemma turn_shrinks: "wpp_turn ap m s = (s', Inr m') \<Longrightarrow> length (wp_in s') < length (wp_in s)"
  by (cases m) (auto simp: wpp_turn_def bindS_eq_Inr wpp_authorize_def split: if_split_asm dest!: handle_in receive_shrinks)

text \<open>The loop ends only with a failure.\<close>

function wpp_loop :: "access_point \<Rightarrow> (bool \<times> bool) \<times> u32 \<Rightarrow> wpp \<Rightarrow> wpp \<times> failure" where
  "wpp_loop ap m s = (case wpp_turn ap m s of (s', Inl e) \<Rightarrow> (s', e) | (s', Inr m') \<Rightarrow> wpp_loop ap m' s')"
  by pat_completeness auto
termination
  by (relation "measure (\<lambda>(ap, m, s). length (wp_in s))") (auto dest: turn_shrinks [OF sym])

declare wpp_loop.simps [simp del]

definition wpp_run :: "access_point \<Rightarrow> wpp \<Rightarrow> wpp \<times> failure" where
  "wpp_run ap s =
     (case bindS (wpp_send 4 (wpp_offer ap)) (\<lambda>_.
           bindS (wpp_receive (failure_timeout (str ''WPP version timed out''))) (\<lambda>(i, body).
           bindS (liftS failure_from_text (numbers body)) (\<lambda>version.
           bindS (liftS id (version_accepted i version)) (\<lambda>_.
           wpp_send 1 (wpp_endpoint ap))))) s of
        (s', Inl e) \<Rightarrow> (s', e)
      | (s', Inr _) \<Rightarrow> wpp_loop ap ((False, False), 0) s')"

section \<open>What was exchanged\<close>

definition deliveries :: "wpp_event list \<Rightarrow> nat" where
  "deliveries es = length (filter (\<lambda>e. case e of Host i _ \<Rightarrow> i = 3 | Phone _ _ \<Rightarrow> False) es)"

definition phone_frames :: "wpp_event list \<Rightarrow> nat" where
  "phone_frames es = length (filter (\<lambda>e. case e of Phone _ _ \<Rightarrow> True | Host _ _ \<Rightarrow> False) es)"

definition accepted_start :: "wpp_event list \<Rightarrow> bool" where
  "accepted_start es \<longleftrightarrow> (\<exists>b. Phone 7 b \<in> set es \<and> wpp_success b 3 = Inr ())"

lemma log_counts [simp]:
  "deliveries [] = 0" "deliveries (es @ es') = deliveries es + deliveries es'" "deliveries (Phone i b # es) = deliveries es"
  "deliveries (Host j b # es) = (if j = 3 then Suc (deliveries es) else deliveries es)"
  "phone_frames [] = 0" "phone_frames (es @ es') = phone_frames es + phone_frames es'" "phone_frames (Phone i b # es) = Suc (phone_frames es)"
  "phone_frames (Host j b # es) = phone_frames es"
  by (simp_all add: deliveries_def phone_frames_def)

lemma accepted_start_append [simp]: "accepted_start (es @ es') \<longleftrightarrow> accepted_start es \<or> accepted_start es'"
  by (auto simp: accepted_start_def)

lemma receive_log:
  "wpp_receive late s = (s', r) \<Longrightarrow> wp_authorized s' = wp_authorized s \<and>
     (case r of Inl e \<Rightarrow> wp_log s' = wp_log s | Inr (i, b) \<Rightarrow> wp_log s' = wp_log s @ [Phone i b])"
  by (auto simp: wpp_receive_def bindS_def wpp_exact_def failS_def Let_def split: if_split_asm)

lemma send_log:
  "wpp_send i b s = (s', r) \<Longrightarrow> wp_authorized s' = wp_authorized s \<and>
     (wp_log s' = wp_log s @ [Host i b] \<or> (wp_log s' = wp_log s \<and> r \<noteq> Inr ()))"
  by (auto simp: wpp_send_def Let_def split: if_split_asm option.split_asm)

text \<open>The state of the loop against the frames exchanged since the version was accepted.\<close>

definition wpp_inv :: "access_point \<Rightarrow> wpp_event list \<Rightarrow> (bool \<times> bool) \<times> u32 \<Rightarrow> wpp \<Rightarrow> bool" where
  "wpp_inv ap pre = (\<lambda>((offered, started), messages) s.
     \<exists>es. wp_log s = pre @ es \<and> deliveries es = (if offered then 1 else 0)
       \<and> (\<forall>b. Host 3 b \<in> set es \<longrightarrow> b = wpp_credentials ap)
       \<and> (offered \<longrightarrow> Host 3 (wpp_credentials ap) \<in> set es) \<and> (started \<longrightarrow> accepted_start es)
       \<and> (wp_authorized s \<longleftrightarrow> offered \<and> started)
       \<and> (\<not> wp_authorized s \<longrightarrow> messages = of_nat (phone_frames es) \<and> phone_frames es \<le> 64))"

definition wpp_final :: "access_point \<Rightarrow> wpp_event list \<Rightarrow> wpp \<Rightarrow> bool" where
  "wpp_final ap pre s \<longleftrightarrow>
     (\<exists>es. wp_log s = pre @ es \<and> deliveries es \<le> 1 \<and> (\<forall>b. Host 3 b \<in> set es \<longrightarrow> b = wpp_credentials ap)
       \<and> (wp_authorized s \<longrightarrow> Host 3 (wpp_credentials ap) \<in> set es \<and> accepted_start es)
       \<and> (\<not> wp_authorized s \<longrightarrow> phone_frames es \<le> 65))"

lemma budget_left: "n \<le> 64 \<Longrightarrow> \<not> (of_nat n + 1 > (64 :: u32)) \<Longrightarrow> Suc n \<le> 64"
proof -
  assume n: "n \<le> 64" "\<not> (of_nat n + 1 > (64 :: u32))"
  have "unat (of_nat n + 1 :: u32) = Suc n" using n(1) unat_of_nat_u32 [of "Suc n"] by (simp add: add.commute)
  then show ?thesis using n(2) by (simp add: word_less_nat_alt)
qed

lemma map_sum_Inr: "map_sum f id x = Inr u \<longleftrightarrow> x = Inr u"
  by (cases x) auto

lemma handle_log:
  assumes "wpp_handle ap i body (offered, started) s = (s', r)"
  shows "wp_authorized s' = wp_authorized s \<and> (\<exists>es. wp_log s' = wp_log s @ es \<and> phone_frames es = 0
    \<and> (\<forall>b. Host 3 b \<in> set es \<longrightarrow> b = wpp_credentials ap \<and> \<not> offered) \<and> deliveries es \<le> (if offered then 0 else 1)
    \<and> (case r of Inl e \<Rightarrow> True | Inr (offered', started') \<Rightarrow>
         deliveries es + (if offered then 1 else 0) = (if offered' then 1 else 0)
         \<and> (offered' \<longrightarrow> offered \<or> Host 3 (wpp_credentials ap) \<in> set es) \<and> (started' \<longrightarrow> started \<or> i = 7 \<and> wpp_success body 3 = Inr ())
         \<and> (offered \<longrightarrow> offered') \<and> (started \<longrightarrow> started')))"
proof -
  consider "i = 7" | "i = 2" "\<not> offered" | "i = 6" "offered" "started" | "i = 8" | "i = 9"
    | "i \<noteq> 7" "\<not> (i = 2 \<and> \<not> offered)" "\<not> (i = 6 \<and> offered \<and> started)" "i \<noteq> 8" "i \<noteq> 9"
    by blast
  then show ?thesis
  proof cases
    case 2
    show ?thesis
    proof (cases "numbers body")
      case (Inl e)
      then show ?thesis using assms 2 by (auto simp: wpp_handle_def bindS_def liftS_def intro: exI [of _ "[]"])
    next
      case (Inr v)
      obtain s1 r1 where w: "wpp_send 3 (wpp_credentials ap) s = (s1, r1)" by fastforce
      then have "s' = s1" and r: "r = (case r1 of Inl e \<Rightarrow> Inl e | Inr _ \<Rightarrow> Inr (True, started))"
        using assms 2 Inr by (auto simp: wpp_handle_def bindS_def liftS_def retS_def split: sum.split_asm)
      from send_log [OF w] show ?thesis
      proof (elim conjE disjE)
        assume "wp_authorized s1 = wp_authorized s" "wp_log s1 = wp_log s @ [Host 3 (wpp_credentials ap)]"
        then show ?thesis using 2 r \<open>s' = s1\<close> by (auto simp: exI [of _ "[Host 3 (wpp_credentials ap)]"] split: sum.split)
      next
        assume "wp_authorized s1 = wp_authorized s" "wp_log s1 = wp_log s" "r1 \<noteq> Inr ()"
        then show ?thesis using 2 r \<open>s' = s1\<close> by (auto simp: exI [of _ "[]"] split: sum.split)
      qed
    qed
  next
    case 4
    obtain s1 r1 where w: "wpp_send 9 body s = (s1, r1)" by fastforce
    then have "s' = s1" and r: "r = (case r1 of Inl e \<Rightarrow> Inl e | Inr _ \<Rightarrow> Inr (offered, started))"
      using assms 4 by (auto simp: wpp_handle_def bindS_def retS_def split: sum.split_asm)
    from send_log [OF w] show ?thesis
    proof (elim conjE disjE)
      assume "wp_authorized s1 = wp_authorized s" "wp_log s1 = wp_log s @ [Host 9 body]"
      then show ?thesis using r \<open>s' = s1\<close> by (auto simp: exI [of _ "[Host 9 body]"] split: sum.split)
    next
      assume "wp_authorized s1 = wp_authorized s" "wp_log s1 = wp_log s" "r1 \<noteq> Inr ()"
      then show ?thesis using r \<open>s' = s1\<close> by (auto simp: exI [of _ "[]"] split: sum.split)
    qed
  next
    case 6
    then have "wpp_handle ap i body (offered, started) s = (s, Inl (failure_from_text (str ''Unexpected WPP message '' @ decimal (unat i))))"
      by (simp only: wpp_handle_def prod.case if_False failS_def simp_thms)
    then show ?thesis using assms by (auto intro!: exI [of _ "[]"])
  qed (use assms in \<open>auto simp: wpp_handle_def bindS_def liftS_def retS_def map_sum_Inr intro!: exI [of _ "[]"] split: sum.split_asm sum.split\<close>)
qed

lemma turn_log:
  assumes "wpp_inv ap pre (f, m) s" and "wpp_turn ap (f, m) s = (s', r)"
  shows "wpp_final ap pre s' \<and> (\<forall>x. r = Inr x \<longrightarrow> wpp_inv ap pre x s')"
proof -
  obtain offered started where f: "f = (offered, started)" by (cases f)
  obtain es where i: "wp_log s = pre @ es" "deliveries es = (if offered then 1 else 0)" "\<forall>b. Host 3 b \<in> set es \<longrightarrow> b = wpp_credentials ap"
    "offered \<longrightarrow> Host 3 (wpp_credentials ap) \<in> set es" "started \<longrightarrow> accepted_start es" "wp_authorized s \<longleftrightarrow> offered \<and> started"
    "\<not> wp_authorized s \<longrightarrow> m = of_nat (phone_frames es) \<and> phone_frames es \<le> 64"
    using assms(1) by (auto simp: wpp_inv_def f)
  obtain s1 r1 where c: "wpp_receive (wpp_late (wp_authorized s)) s = (s1, r1)" by fastforce
  show ?thesis
  proof (cases r1)
    case (Inl e)
    then have "s' = s1" "r = Inl e" using assms(2) c by (auto simp: wpp_turn_def bindS_def)
    then show ?thesis using receive_log [OF c] i Inl by (auto simp: wpp_final_def)
  next
    case (Inr x)
    obtain j body where x: "x = (j, body)" by (cases x)
    have l1: "wp_log s1 = pre @ (es @ [Phone j body])" "wp_authorized s1 = wp_authorized s"
      using receive_log [OF c] Inr x i(1) by simp_all
    show ?thesis
    proof (cases "\<not> wp_authorized s1 \<and> m + 1 > 64")
      case True
      then have "s' = s1" "r = Inl (failure_from_text (str ''WPP message budget exhausted''))"
        using assms(2) c Inr x by (auto simp: wpp_turn_def bindS_def)
      then show ?thesis using l1 i by (auto simp: wpp_final_def intro!: exI [of _ "es @ [Phone j body]"])
    next
      case False
      obtain s2 r2 where h: "wpp_handle ap j body (offered, started) s1 = (s2, r2)" by fastforce
      obtain es2 where e: "wp_authorized s2 = wp_authorized s1" "wp_log s2 = wp_log s1 @ es2" "phone_frames es2 = 0"
        "\<forall>b. Host 3 b \<in> set es2 \<longrightarrow> b = wpp_credentials ap \<and> \<not> offered" "deliveries es2 \<le> (if offered then 0 else 1)"
        "case r2 of Inl e \<Rightarrow> True | Inr (offered', started') \<Rightarrow>
           deliveries es2 + (if offered then 1 else 0) = (if offered' then 1 else 0)
           \<and> (offered' \<longrightarrow> offered \<or> Host 3 (wpp_credentials ap) \<in> set es2) \<and> (started' \<longrightarrow> started \<or> j = 7 \<and> wpp_success body 3 = Inr ())
           \<and> (offered \<longrightarrow> offered') \<and> (started \<longrightarrow> started')"
        using handle_log [OF h] by blast
      let ?es = "es @ [Phone j body] @ es2"
      have l2: "wp_log s2 = pre @ ?es" using l1 e(2) by simp
      have p: "\<not> wp_authorized s \<Longrightarrow> Suc (phone_frames es) \<le> 64"
        using budget_left [of "phone_frames es"] False l1(2) i(7) by simp
      have res: "(s', r) = (case r2 of Inl e \<Rightarrow> (s2, Inl e) | Inr g \<Rightarrow> (wpp_authorize g s2, Inr (g, m + 1)))"
        using assms(2) c Inr x False h by (auto simp: wpp_turn_def bindS_def f split: sum.split)
      have d: "deliveries ?es \<le> 1" "\<forall>b. Host 3 b \<in> set ?es \<longrightarrow> b = wpp_credentials ap" "phone_frames ?es = Suc (phone_frames es)"
        subgoal using e(5) i(2) by (simp split: if_split_asm)
        subgoal using e(4) i(3) by auto
        subgoal using e(3) by simp
        done
      have st: "started \<Longrightarrow> accepted_start ?es" using i(5) by (auto simp: accepted_start_def)
      show ?thesis
      proof (cases r2)
        case (Inl err)
        then have "s' = s2" "r = Inl err" using res by auto
        moreover have "wp_authorized s2 \<longrightarrow> Host 3 (wpp_credentials ap) \<in> set ?es \<and> accepted_start ?es"
          using e(1) l1(2) i(4-6) st by simp
        moreover have "\<not> wp_authorized s2 \<longrightarrow> phone_frames ?es \<le> 65" using e(1) l1(2) d(3) p by (cases "wp_authorized s") simp_all
        then have "wpp_final ap pre s2" using calculation(3) l2 d(1) d(2) unfolding wpp_final_def by blast
        ultimately show ?thesis by simp
      next
        case (Inr g)
        obtain offered' started' where g: "g = (offered', started')" by (cases g)
        have s': "s' = wpp_authorize g s2" "r = Inr (g, m + 1)" using res Inr by auto
        have q: "deliveries es2 + (if offered then 1 else 0) = (if offered' then 1 else 0)"
          "offered' \<longrightarrow> offered \<or> Host 3 (wpp_credentials ap) \<in> set es2" "started' \<longrightarrow> started \<or> j = 7 \<and> wpp_success body 3 = Inr ()"
          "offered \<longrightarrow> offered'" "started \<longrightarrow> started'"
          using e(6) unfolding Inr g by simp_all
        have k: "deliveries ?es = (if offered' then 1 else 0)" using q(1) i(2) by simp
        have k2: "offered' \<longrightarrow> Host 3 (wpp_credentials ap) \<in> set ?es" using q(2) i(4) by auto
        have k3: "started' \<longrightarrow> accepted_start ?es" using q(3) st by (auto simp: accepted_start_def)
        have a: "wp_authorized s' \<longleftrightarrow> offered' \<and> started'" "wp_log s' = pre @ ?es"
          using l2 e(1) l1(2) i(6) q(4,5) by (auto simp: s'(1) g wpp_authorize_def)
        have "\<not> wp_authorized s' \<longrightarrow> \<not> wp_authorized s" using a(1) i(6) q(4,5) by blast
        then have n: "\<not> wp_authorized s' \<longrightarrow> m + 1 = of_nat (phone_frames ?es) \<and> phone_frames ?es \<le> 64"
          using i(7) p d(3) by (cases "wp_authorized s'") (simp_all add: add.commute del: log_counts)
        have "wpp_inv ap pre (g, m + 1) s'"
          unfolding wpp_inv_def g prod.case using k k2 k3 a n d(2) by blast
        moreover have "64 \<le> (65 :: nat)" by simp
        then have "\<not> wp_authorized s' \<longrightarrow> phone_frames ?es \<le> 65" using n le_trans by blast
        then have "wpp_final ap pre s'" unfolding wpp_final_def using k2 k3 a d(1,2) by blast
        ultimately show ?thesis using s'(2) by simp
      qed
    qed
  qed
qed

lemma loop_log: "wpp_inv ap pre m s \<Longrightarrow> wpp_final ap pre (fst (wpp_loop ap m s))"
proof (induction ap m s rule: wpp_loop.induct)
  case (1 ap m s)
  obtain f c where m: "m = (f, c)" by (cases m)
  obtain s' r where t: "wpp_turn ap m s = (s', r)" by fastforce
  then show ?case using turn_log [of ap pre f c s s' r] 1 m
    by (cases r) (auto simp: wpp_loop.simps [of ap "(f, c)" s])
qed

section \<open>Properties\<close>

text \<open>C0. However the phone behaves: the credentials of the access point are handed to the socket at most once and only after
  the phone accepted the version; the attempt is authorized only when they were and the phone accepted the start; and without
  an authorization the exchange ends within 65 further frames of the phone.\<close>

theorem bootstrap_authorizes:
  assumes "wp_log s = []" and "\<not> wp_authorized s" and "wpp_run ap s = (s', e)"
  shows "(\<not> wp_authorized s' \<and> deliveries (wp_log s') = 0) \<or>
    (\<exists>offer v version endpoint es. wp_log s' = [Host 4 offer, Phone 5 v, Host 1 endpoint] @ es
       \<and> numbers v = Inr version \<and> map_of version 1 = Some 6 \<and> map_of version 4 = Some 0
       \<and> deliveries es \<le> 1 \<and> (\<forall>b. Host 3 b \<in> set es \<longrightarrow> b = wpp_credentials ap)
       \<and> (if wp_authorized s' then Host 3 (wpp_credentials ap) \<in> set es \<and> accepted_start es else phone_frames es \<le> 65))"
proof -
  obtain s1 r1 where 1: "wpp_send 4 (wpp_offer ap) s = (s1, r1)" by fastforce
  have a1: "\<not> wp_authorized s1" "deliveries (wp_log s1) = 0" using send_log [OF 1] assms by auto
  show ?thesis
  proof (cases r1)
    case (Inl err)
    then show ?thesis using assms(3) 1 a1 by (auto simp: wpp_run_def bindS_def)
  next
    case o1: (Inr u)
    then have l1: "wp_log s1 = [Host 4 (wpp_offer ap)]" using send_log [OF 1] assms(1) by auto
    obtain s2 r2 where 2: "wpp_receive (failure_timeout (str ''WPP version timed out'')) s1 = (s2, r2)" by fastforce
    show ?thesis
    proof (cases r2)
      case (Inl err)
      then show ?thesis using assms(3) 1 2 o1 a1 l1 receive_log [OF 2] by (auto simp: wpp_run_def bindS_def)
    next
      case o2: (Inr x)
      obtain i v where x: "x = (i, v)" by (cases x)
      have l2: "wp_log s2 = [Host 4 (wpp_offer ap), Phone i v]" "\<not> wp_authorized s2" using receive_log [OF 2] o2 x l1 a1 by auto
      have d2: "deliveries (wp_log s2) = 0" using l2(1) by (simp add: deliveries_def)
      show ?thesis
      proof (cases "\<exists>version. numbers v = Inr version \<and> version_accepted i version = Inr ()")
        case False
        then have "s' = s2" using assms(3) 1 2 o1 o2 x
          by (auto simp: wpp_run_def bindS_def liftS_def map_sum_Inr split: sum.split_asm)
        then show ?thesis using l2(2) d2 by simp
      next
        case True
        then obtain version where v: "numbers v = Inr version" "version_accepted i version = Inr ()" by blast
        then have acc: "i = 5" "map_of version 1 = Some 6" "map_of version 4 = Some 0" by (auto simp: version_accepted_def split: if_split_asm)
        obtain s3 r3 where 3: "wpp_send 1 (wpp_endpoint ap) s2 = (s3, r3)" by fastforce
        show ?thesis
        proof (cases r3)
          case (Inl err)
          then have "s' = s3" using assms(3) 1 2 3 o1 o2 x v by (auto simp: wpp_run_def bindS_def liftS_def)
          then show ?thesis using send_log [OF 3] l2 d2 by (auto simp: deliveries_def)
        next
          case o3: (Inr w)
          have l3: "wp_log s3 = [Host 4 (wpp_offer ap), Phone 5 v, Host 1 (wpp_endpoint ap)]" "\<not> wp_authorized s3"
            using send_log [OF 3] o3 l2 acc(1) by auto
          have "s' = fst (wpp_loop ap ((False, False), 0) s3)"
            using assms(3) 1 2 3 o1 o2 o3 x v by (auto simp: wpp_run_def bindS_def liftS_def)
          moreover have "wpp_inv ap (wp_log s3) ((False, False), 0) s3" using l3(2) by (simp add: wpp_inv_def)
          ultimately have "wpp_final ap (wp_log s3) s'" using loop_log by simp
          then obtain es where "wp_log s' = wp_log s3 @ es" "deliveries es \<le> 1" "\<forall>b. Host 3 b \<in> set es \<longrightarrow> b = wpp_credentials ap"
            "if wp_authorized s' then Host 3 (wpp_credentials ap) \<in> set es \<and> accepted_start es else phone_frames es \<le> 65"
            unfolding wpp_final_def by (metis (full_types))
          then show ?thesis unfolding l3(1) using v(1) acc(2,3) by blast
        qed
      qed
    qed
  qed
qed

text \<open>What a phone that follows the protocol sends: pings and their answers, one request for credentials, an accepted start.\<close>

definition wpp_frame_ok :: "u16 \<times> u8 list \<Rightarrow> bool" where
  "wpp_frame_ok = (\<lambda>(i, body). length body \<le> WPP_LIMIT \<and>
     (i = 7 \<and> wpp_success body 3 = Inr () \<or> i = 2 \<and> is_ok (numbers body) \<or> i = 8 \<or> i = 9))"

definition wpp_frames :: "(u16 \<times> u8 list) list \<Rightarrow> u8 list" where
  "wpp_frames fs = concat (map (\<lambda>(i, body). wpp_wire i body) fs)"

definition wpp_answers :: "access_point \<Rightarrow> u16 \<times> u8 list \<Rightarrow> wpp_event list" where
  "wpp_answers ap = (\<lambda>(i, body). Phone i body #
     (if i = 2 then [Host 3 (wpp_credentials ap)] else if i = 8 then [Host 9 body] else []))"

lemma receive_frame:
  assumes "length body \<le> WPP_LIMIT" and "wp_in s = wpp_wire i body @ rest"
  shows "wpp_receive late s = (s\<lparr>wp_in := rest, wp_log := wp_log s @ [Phone i body]\<rparr>, Inr (i, body))"
proof -
  have l: "length body < 65536" using assms(1) by (simp add: WPP_LIMIT_def)
  have h: "take 4 (wp_in s) = to_be16 (of_nat (length body)) @ to_be16 i" "drop 4 (wp_in s) = body @ rest" "4 \<le> length (wp_in s)"
    by (simp_all add: assms(2) wpp_wire_def)
  have "unat (from_be16 ((to_be16 (of_nat (length body)) @ to_be16 i) ! 0) ((to_be16 (of_nat (length body)) @ to_be16 i) ! 1)) = length body"
    "from_be16 ((to_be16 (of_nat (length body)) @ to_be16 i) ! 2) ((to_be16 (of_nat (length body)) @ to_be16 i) ! 3) = i"
    using l by (simp_all add: nth_append from_be16_parts)
  then show ?thesis using assms(1) h by (simp add: wpp_receive_def bindS_def wpp_exact_def Let_def)
qed

lemma send_open:
  "wp_room s = None \<Longrightarrow> length b \<le> WPP_LIMIT \<Longrightarrow>
     wpp_send i b s = (s\<lparr>wp_sent := wp_sent s @ wpp_wire i b, wp_log := wp_log s @ [Host i b]\<rparr>, Inr ())"
  by (simp add: wpp_send_def Let_def)

lemma turn_frame:
  assumes "wpp_frame_ok (i, body)" and "wp_in s = wpp_wire i body @ rest" and "wp_room s = None"
    and "length (wpp_credentials ap) \<le> WPP_LIMIT" and "i = 2 \<longrightarrow> \<not> offered" and "\<not> m + 1 > 64"
  shows "\<exists>s'. wpp_turn ap ((offered, started), m) s = (s', Inr ((offered \<or> i = 2, started \<or> i = 7), m + 1))
    \<and> wp_in s' = rest \<and> wp_room s' = None \<and> wp_log s' = wp_log s @ wpp_answers ap (i, body)
    \<and> wp_authorized s' = (wp_authorized s \<or> (offered \<or> i = 2) \<and> (started \<or> i = 7))"
proof -
  let ?s = "s\<lparr>wp_in := rest, wp_log := wp_log s @ [Phone i body]\<rparr>"
  have b: "length body \<le> WPP_LIMIT" using assms(1) by (simp add: wpp_frame_ok_def)
  have r: "wpp_receive late s = (?s, Inr (i, body))" for late by (rule receive_frame [OF b assms(2)])
  have room: "wp_room ?s = None" using assms(3) by simp
  obtain s2 where h: "wpp_handle ap i body (offered, started) ?s = (s2, Inr (offered \<or> i = 2, started \<or> i = 7))"
    and s2: "wp_in s2 = rest" "wp_room s2 = None" "wp_log s2 = wp_log s @ wpp_answers ap (i, body)" "wp_authorized s2 = wp_authorized s"
  proof -
    consider "i = 7" "wpp_success body 3 = Inr ()" | v where "i = 2" "\<not> offered" "numbers body = Inr v" | "i = 8" | "i = 9"
      using assms(1,5) by (auto simp: wpp_frame_ok_def is_ok_iff)
    then show thesis
    proof cases
      case 1
      then show thesis by (intro that [of ?s]) (simp_all add: wpp_handle_def bindS_def liftS_def retS_def assms(3) wpp_answers_def)
    next
      case 2
      then show thesis
        by (intro that [of "?s\<lparr>wp_sent := wp_sent ?s @ wpp_wire 3 (wpp_credentials ap), wp_log := wp_log ?s @ [Host 3 (wpp_credentials ap)]\<rparr>"])
          (simp_all add: wpp_handle_def bindS_def liftS_def retS_def send_open assms(3,4) wpp_answers_def)
    next
      case 3
      then show thesis
        by (intro that [of "?s\<lparr>wp_sent := wp_sent ?s @ wpp_wire 9 body, wp_log := wp_log ?s @ [Host 9 body]\<rparr>"])
          (simp_all add: wpp_handle_def bindS_def liftS_def retS_def send_open assms(3) b wpp_answers_def)
    next
      case 4
      then show thesis by (intro that [of ?s]) (simp_all add: wpp_handle_def bindS_def retS_def assms(3) wpp_answers_def)
    qed
  qed
  have "wpp_turn ap ((offered, started), m) s =
    (wpp_authorize (offered \<or> i = 2, started \<or> i = 7) s2, Inr ((offered \<or> i = 2, started \<or> i = 7), m + 1))"
    using assms(6) h by (simp add: wpp_turn_def bindS_def r)
  then show ?thesis using s2 by (auto simp: wpp_authorize_def)
qed

lemma loop_frames:
  "(\<forall>f \<in> set fs. wpp_frame_ok f) \<Longrightarrow> wp_in s = wpp_frames fs \<Longrightarrow> wp_room s = None \<Longrightarrow> length (wpp_credentials ap) \<le> WPP_LIMIT \<Longrightarrow>
   (if offered then 1 else 0) + length (filter (\<lambda>f. fst f = 2) fs) \<le> (1 :: nat) \<Longrightarrow> k + length fs \<le> 64 \<Longrightarrow>
   (wp_authorized s \<longleftrightarrow> offered \<and> started) \<Longrightarrow>
   wp_log (fst (wpp_loop ap ((offered, started), of_nat k) s)) = wp_log s @ concat (map (wpp_answers ap) fs)
     \<and> (wp_authorized (fst (wpp_loop ap ((offered, started), of_nat k) s))
        \<longleftrightarrow> (offered \<or> 2 \<in> fst ` set fs) \<and> (started \<or> 7 \<in> fst ` set fs))"
proof (induction fs arbitrary: s offered started k)
  case Nil
  then have "wp_in s = []" by (simp add: wpp_frames_def)
  then have "\<exists>e. wpp_turn ap ((offered, started), of_nat k) s = (s\<lparr>wp_in := []\<rparr>, Inl e)"
    by (simp add: wpp_turn_def bindS_def wpp_receive_def wpp_exact_def)
  then show ?case using Nil by (auto simp: wpp_loop.simps [of ap "((offered, started), of_nat k)" s])
next
  case (Cons f fs)
  obtain i body where f: "f = (i, body)" by (cases f)
  have m: "\<not> (of_nat k + 1 > (64 :: u32))"
  proof -
    have "unat (of_nat k + 1 :: u32) = Suc k" using Cons.prems(6) unat_of_nat_u32 [of "Suc k"] by (simp add: add.commute)
    then show ?thesis using Cons.prems(6) by (simp add: word_less_nat_alt)
  qed
  have "wpp_frame_ok (i, body)" "wp_in s = wpp_wire i body @ wpp_frames fs" "i = 2 \<longrightarrow> \<not> offered"
    using Cons.prems(1,2,5) f by (auto simp: wpp_frames_def)
  from turn_frame [OF this(1,2) Cons.prems(3,4) this(3) m] obtain s'
    where t: "wpp_turn ap ((offered, started), of_nat k) s = (s', Inr ((offered \<or> i = 2, started \<or> i = 7), of_nat k + 1))"
      and s': "wp_in s' = wpp_frames fs" "wp_room s' = None" "wp_log s' = wp_log s @ wpp_answers ap (i, body)"
      "wp_authorized s' = (wp_authorized s \<or> (offered \<or> i = 2) \<and> (started \<or> i = 7))" by blast
  have l: "wpp_loop ap ((offered, started), of_nat k) s = wpp_loop ap ((offered \<or> i = 2, started \<or> i = 7), of_nat (Suc k)) s'"
    using t by (simp add: wpp_loop.simps [of ap "((offered, started), of_nat k)" s] add.commute)
  have "(if offered \<or> i = 2 then 1 else 0) + length (filter (\<lambda>f. fst f = 2) fs) \<le> (1 :: nat)" "Suc k + length fs \<le> 64"
    "\<forall>f \<in> set fs. wpp_frame_ok f" "wp_authorized s' \<longleftrightarrow> (offered \<or> i = 2) \<and> (started \<or> i = 7)"
    using Cons.prems(1,5,6,7) f s'(4) by (auto split: if_split_asm)
  from Cons.IH [OF this(3) s'(1,2) Cons.prems(4) this(1,2,4)] show ?case unfolding l using s'(3) f by auto
qed

lemma var_bytes_length: "unat v < 128 ^ k \<Longrightarrow> 0 < k \<Longrightarrow> length (var_bytes v) \<le> k"
proof (induction v arbitrary: k rule: var_bytes.induct)
  case (1 v)
  show ?case
  proof (cases "v \<ge> 128")
    case False
    then show ?thesis using 1(3) by (subst var_bytes.simps) simp
  next
    case True
    then have "128 \<le> unat v" by (simp add: word_le_nat_alt)
    then obtain k' where k: "k = Suc k'" "0 < k'" using 1(2,3) by (cases k; cases "k - 1") auto
    have "unat (drop_bit 7 v) < 128 ^ k'" using 1(2) k(1) by (simp add: unat_drop7 less_mult_imp_div_less del: drop_bit_numeral_minus_bit1)
    from 1(1) [OF True this k(2)] show ?thesis using True k(1) by (subst var_bytes.simps) simp
  qed
qed

lemma var_bytes_short: "length (var_bytes v) \<le> 10"
proof (rule var_bytes_length)
  have "unat v < 2 ^ LENGTH(64)" by (rule unsigned_less)
  then show "unat v < 128 ^ 10" by simp
qed simp

lemma pb_short:
  "length (pb_number f v p) \<le> length p + 20" "length (pb_bytes f bs p) \<le> length p + 20 + length bs"
  using add_mono [OF var_bytes_short var_bytes_short]
  by (auto simp: pb_number_def pb_bytes_def)

lemma octet_text_short: "length (decimal (unat (b :: u8))) \<le> 3"
  using unat_bounds(1) [of b] by (simp add: decimal_def length_digits)

lemma offers_short: "length (wpp_offer ap) \<le> WPP_LIMIT" "length (wpp_endpoint ap) \<le> WPP_LIMIT"
proof -
  have "length (address_text (ac_address ap)) \<le> 15"
  proof (cases "ac_address ap")
    case (fields a b c d)
    then show ?thesis using octet_text_short [of a] octet_text_short [of b] octet_text_short [of c] octet_text_short [of d]
      by (simp add: address_text_def v4_text_def)
  qed
  then show "length (wpp_endpoint ap) \<le> WPP_LIMIT"
    using pb_short(1) [of 2 5288 "pb_bytes 1 (address_text (ac_address ap)) []"] pb_short(2) [of 1 "address_text (ac_address ap)" "[]"]
    by (simp add: wpp_endpoint_def WPP_LIMIT_def)
  show "length (wpp_offer ap) \<le> WPP_LIMIT"
    using pb_short(2) [of 4 "var_bytes (ucast (band_frequency (ac_band ap) (ac_channel ap)))" "pb_number 2 0 (pb_number 1 6 [])"]
      pb_short(1) [of 2 0 "pb_number 1 6 []"] pb_short(1) [of 1 6 "[]"]
      var_bytes_short [of "ucast (band_frequency (ac_band ap) (ac_channel ap))"]
    by (simp add: wpp_offer_def WPP_LIMIT_def)
qed

lemma credentials_short:
  assumes "length (ac_ssid ap) \<le> 32" and "length (ac_password ap) \<le> 63" and "length (ac_bssid ap) = 17"
  shows "length (wpp_credentials ap) \<le> WPP_LIMIT"
  using pb_short(1) [of 5 1 "pb_number 4 8 (pb_bytes 3 (ac_bssid ap) (pb_bytes 2 (ac_password ap) (pb_bytes 1 (ac_ssid ap) [])))"]
    pb_short(1) [of 4 8 "pb_bytes 3 (ac_bssid ap) (pb_bytes 2 (ac_password ap) (pb_bytes 1 (ac_ssid ap) []))"]
    pb_short(2) [of 3 "ac_bssid ap" "pb_bytes 2 (ac_password ap) (pb_bytes 1 (ac_ssid ap) [])"]
    pb_short(2) [of 2 "ac_password ap" "pb_bytes 1 (ac_ssid ap) []"] pb_short(2) [of 1 "ac_ssid ap" "[]"] assms
  by (simp add: wpp_credentials_def WPP_LIMIT_def)

text \<open>C0. A phone that follows the protocol is served: whatever the order of its pings, its request for credentials and
  its accepted start, and however the stream is cut, the attempt is authorized, the credentials are delivered where they were
  asked for and every ping is answered with its own body.\<close>

theorem bootstrap_serves_phone:
  assumes "wp_room s = None" and "wp_log s = []" and "\<not> wp_authorized s"
    and "length (ac_ssid ap) \<le> 32" and "length (ac_password ap) \<le> 63" and "length (ac_bssid ap) = 17"
    and "numbers v = Inr version" and "map_of version 1 = Some 6" and "map_of version 4 = Some 0" and "length v \<le> WPP_LIMIT"
    and "\<forall>f \<in> set fs. wpp_frame_ok f" and "length fs \<le> 64" and "length (filter (\<lambda>f. fst f = 2) fs) = 1" and "7 \<in> fst ` set fs"
    and "wp_in s = wpp_wire 5 v @ wpp_frames fs"
  shows "wp_authorized (fst (wpp_run ap s))
    \<and> wp_log (fst (wpp_run ap s)) = [Host 4 (wpp_offer ap), Phone 5 v, Host 1 (wpp_endpoint ap)] @ concat (map (wpp_answers ap) fs)"
proof -
  let ?s1 = "s\<lparr>wp_sent := wp_sent s @ wpp_wire 4 (wpp_offer ap), wp_log := [Host 4 (wpp_offer ap)]\<rparr>"
  let ?s2 = "?s1\<lparr>wp_in := wpp_frames fs, wp_log := wp_log ?s1 @ [Phone 5 v]\<rparr>"
  let ?s3 = "?s2\<lparr>wp_sent := wp_sent ?s2 @ wpp_wire 1 (wpp_endpoint ap), wp_log := wp_log ?s2 @ [Host 1 (wpp_endpoint ap)]\<rparr>"
  have 1: "wpp_send 4 (wpp_offer ap) s = (?s1, Inr ())" using send_open [OF assms(1) offers_short(1)] assms(2) by simp
  have "wp_in ?s1 = wpp_wire 5 v @ wpp_frames fs" using assms(15) by simp
  then have 2: "wpp_receive late ?s1 = (?s2, Inr (5, v))" for late by (rule receive_frame [OF assms(10)])
  have "wp_room ?s2 = None" using assms(1) by simp
  then have 3: "wpp_send 1 (wpp_endpoint ap) ?s2 = (?s3, Inr ())" by (rule send_open [OF _ offers_short(2)])
  have ok: "version_accepted 5 version = Inr ()" using assms(8,9) by (simp add: version_accepted_def)
  have r: "wpp_run ap s = wpp_loop ap ((False, False), 0) ?s3"
    unfolding wpp_run_def bindS_def 1 prod.case sum.case 2 liftS_def assms(7) ok 3 by (simp only: map_sum.simps id_apply prod.case sum.case 3 ok)
  have f: "2 \<in> fst ` set fs" using assms(13) by (cases "filter (\<lambda>f. fst f = 2) fs") (auto simp: filter_eq_Cons_iff)
  have p: "wp_in ?s3 = wpp_frames fs" "wp_room ?s3 = None" "(if False then 1 else 0) + length (filter (\<lambda>f. fst f = 2) fs) \<le> (1 :: nat)"
    "0 + length fs \<le> 64" "wp_authorized ?s3 \<longleftrightarrow> False \<and> False"
    using assms(1,3,12,13) by simp_all
  from loop_frames [OF assms(11) p(1,2) credentials_short [OF assms(4-6)] p(3-5)] show ?thesis
    unfolding r of_nat_0 using f assms(14) by simp
qed

section \<open>Witnesses\<close>

definition w_phone :: wpp where
  "w_phone = \<lparr>wp_in = wpp_wire 5 (pb_number 4 0 (pb_number 1 6 [])) @ wpp_frames [(8, [1]), (2, []), (7, pb_number 3 0 [])],
     wp_end = None, wp_room = None, wp_fault = \<lparr>io_kind = BrokenPipe, io_text = []\<rparr>, wp_sent = [], wp_log = [], wp_authorized = False\<rparr>"

definition w_opened :: access_point where
  "w_opened = w_access_point\<lparr>ac_bssid := str ''AA:BB:CC:DD:EE:FF''\<rparr>"

lemma bootstrap_serves_phone_witness:
  "wp_authorized (fst (wpp_run w_opened w_phone)) \<and> Host 9 [1] \<in> set (wp_log (fst (wpp_run w_opened w_phone)))"
proof -
  let ?v = "pb_number 4 0 (pb_number 1 6 [])" and ?fs = "[(8, [1]), (2, []), (7, pb_number 3 0 [])]"
  have v: "numbers ?v = Inr [(1, 6), (4, 0)]" "length ?v \<le> WPP_LIMIT" by code_simp+
  have fs: "\<forall>f \<in> set ?fs. wpp_frame_ok f" by code_simp
  have a: "length (ac_ssid w_opened) \<le> 32" "length (ac_password w_opened) \<le> 63" "length (ac_bssid w_opened) = 17" by code_simp+
  show ?thesis
    using bootstrap_serves_phone [of w_phone w_opened ?v "[(1, 6), (4, 0)]" ?fs, OF _ _ _ a v(1) _ _ v(2) fs]
    by (simp add: w_phone_def wpp_answers_def)
qed

lemma bootstrap_authorizes_witness:
  "\<exists>s' e. wpp_run w_opened w_phone = (s', e) \<and> ((\<not> wp_authorized s' \<and> deliveries (wp_log s') = 0) \<or> deliveries (wp_log s') \<le> 1)"
proof -
  obtain s' e where r: "wpp_run w_opened w_phone = (s', e)" by fastforce
  have "wp_log w_phone = []" "\<not> wp_authorized w_phone" by (simp_all add: w_phone_def)
  from bootstrap_authorizes [OF this r] show ?thesis using r by auto
qed

end
