(* ===== verification/Spec2Isabelle.thy ===== *)
theory Spec2Isabelle
  imports Wired Usb_Mux Ncm Airplay Pair_Verify Playback Aa_Session Audio Usbmuxd Receiver Touch Phonebook Wpp
begin

text \<open>
  A verification development for Project Argo (head unit software in Rust).
\<close>

end
